(* ===== verification/Prelude.thy ===== *)
theory Prelude
  imports Main "HOL-Library.Word"
begin

text \<open>
  Shared vocabulary of the development: the machine integers of the C++ sources, results
  that carry an error, the decimal and hexadecimal renderings of the C++ standard library
  (\<open>std::to_string\<close> and the \<open>%0Nu\<close>, \<open>%0Nx\<close> conversions of \<open>snprintf\<close>), quoting with a
  doubled delimiter, and the generic facts about them that the component theories share.
\<close>

unbundle bit_operations_syntax

type_synonym u8 = "8 word"
type_synonym u16 = "16 word"
type_synonym u32 = "32 word"
type_synonym u64 = "64 word"

named_theorems render_simps \<open>unfolding rules of the rendering routines\<close>
named_theorems bounds_intros \<open>bounds used by arithmetic on machine integers\<close>

section \<open>Results that may be an error\<close>

type_synonym ('e, 'a) result = "'e + 'a"

fun rbind :: "('e, 'a) result \<Rightarrow> ('a \<Rightarrow> ('e, 'b) result) \<Rightarrow> ('e, 'b) result" where
  "rbind (Inl e) f = Inl e"
| "rbind (Inr x) f = f x"

definition guard :: "bool \<Rightarrow> 'e \<Rightarrow> ('e, unit) result" where
  "guard b e = (if b then Inr () else Inl e)"

lemma rbind_cong [fundef_cong]:
  "m = m' \<Longrightarrow> (\<And>x. m' = Inr x \<Longrightarrow> f x = g x) \<Longrightarrow> rbind m f = rbind m' g"
  by (cases m') auto

lemma rbind_eq_Inr: "rbind m f = Inr y \<longleftrightarrow> (\<exists>x. m = Inr x \<and> f x = Inr y)"
  by (cases m) auto

lemma rbind_eq_Inl: "rbind m f = Inl e \<longleftrightarrow> m = Inl e \<or> (\<exists>x. m = Inr x \<and> f x = Inl e)"
  by (cases m) auto

lemma guard_Inr [simp]: "guard b e = Inr u \<longleftrightarrow> b"
  by (simp add: guard_def)

lemma guard_Inl [simp]: "guard b e = Inl e' \<longleftrightarrow> \<not> b \<and> e' = e"
  by (auto simp: guard_def)

lemma guard_True [simp]: "b \<Longrightarrow> rbind (guard b e) f = f ()"
  by (simp add: guard_def)

lemma guard_False [simp]: "\<not> b \<Longrightarrow> rbind (guard b e) f = Inl e"
  by (simp add: guard_def)

text \<open>A loop that stops at the first error.\<close>

fun traverse :: "('a \<Rightarrow> ('e, 'b) result) \<Rightarrow> 'a list \<Rightarrow> ('e, 'b list) result" where
  "traverse f [] = Inr []"
| "traverse f (x # xs) = rbind (f x) (\<lambda>y. rbind (traverse f xs) (\<lambda>ys. Inr (y # ys)))"

lemma traverse_cong [fundef_cong]:
  "xs = ys \<Longrightarrow> (\<And>x. x \<in> set ys \<Longrightarrow> f x = g x) \<Longrightarrow> traverse f xs = traverse g ys"
proof (induction ys arbitrary: xs)
  case (Cons y ys)
  then show ?case by (cases "g y") auto
qed simp

lemma traverse_map: "(\<And>x. x \<in> set xs \<Longrightarrow> f x = Inr (h x)) \<Longrightarrow> traverse f xs = Inr (map h xs)"
  by (induction xs) auto

lemma traverse_Inr: "traverse f xs = Inr ys \<longleftrightarrow> list_all2 (\<lambda>x y. f x = Inr y) xs ys"
  by (induction xs arbitrary: ys) (auto simp: rbind_eq_Inr list_all2_Cons1)

section \<open>Decimal text\<close>

definition digit_char :: "nat \<Rightarrow> char" where
  "digit_char d = char_of (48 + d)"

definition digit_val :: "char \<Rightarrow> nat" where
  "digit_val c = of_char c - 48"

definition is_digit :: "char \<Rightarrow> bool" where
  "is_digit c \<longleftrightarrow> 48 \<le> (of_char c :: nat) \<and> (of_char c :: nat) \<le> 57"

text \<open>\<open>std::to_string\<close> of an unsigned value.\<close>

fun dec_string :: "nat \<Rightarrow> string" where
  "dec_string n =
     (if n < 10 then [digit_char n] else dec_string (n div 10) @ [digit_char (n mod 10)])"

declare dec_string.simps [simp del]

text \<open>\<open>std::to_string\<close> of a signed value.\<close>

definition dec_int :: "int \<Rightarrow> string" where
  "dec_int i = (if i < 0 then CHR ''-'' # dec_string (nat (- i)) else dec_string (nat i))"

text \<open>The low \<open>w\<close> decimal digits, and \<open>%0wu\<close>, which pads but never truncates.\<close>

fun dec_fixed :: "nat \<Rightarrow> nat \<Rightarrow> string" where
  "dec_fixed 0 n = []"
| "dec_fixed (Suc w) n = dec_fixed w (n div 10) @ [digit_char (n mod 10)]"

definition pad_left :: "nat \<Rightarrow> string \<Rightarrow> string" where
  "pad_left w s = replicate (w - length s) (CHR ''0'') @ s"

definition dec_pad :: "nat \<Rightarrow> nat \<Rightarrow> string" where
  "dec_pad w n = pad_left w (dec_string n)"

text \<open>Reading decimal digits back.\<close>

definition dec_value :: "string \<Rightarrow> nat" where
  "dec_value s = foldl (\<lambda>a c. 10 * a + digit_val c) 0 s"

lemma of_char_digit [simp]: "d < 10 \<Longrightarrow> of_char (digit_char d) = (48 + d :: nat)"
  by (simp add: digit_char_def)

lemma digit_val_char [simp]: "d < 10 \<Longrightarrow> digit_val (digit_char d) = d"
  by (simp add: digit_val_def)

lemma is_digit_char [simp]: "d < 10 \<Longrightarrow> is_digit (digit_char d)"
  by (simp add: is_digit_def)

lemma digit_char_0: "digit_char 0 = CHR ''0''"
  by code_simp

lemma digit_chars [simp]:
  "digit_char 0 = CHR ''0''" "digit_char (Suc 0) = CHR ''1''" "digit_char 2 = CHR ''2''"
  "digit_char 3 = CHR ''3''" "digit_char 4 = CHR ''4''" "digit_char 5 = CHR ''5''"
  "digit_char 6 = CHR ''6''" "digit_char 7 = CHR ''7''" "digit_char 8 = CHR ''8''"
  "digit_char 9 = CHR ''9''"
  by code_simp+

lemma digit_char_eq_0 [simp]: "d < 10 \<Longrightarrow> digit_char d = CHR ''0'' \<longleftrightarrow> d = 0"
  by (metis digit_char_0 digit_val_char zero_less_numeral)

lemma dec_string_less10 [simp]: "n < 10 \<Longrightarrow> dec_string n = [digit_char n]"
  by (simp add: dec_string.simps)

lemma dec_string_ge10: "10 \<le> n \<Longrightarrow> dec_string n = dec_string (n div 10) @ [digit_char (n mod 10)]"
  by (subst dec_string.simps) simp

lemma dec_string_nonempty [simp]: "dec_string n \<noteq> []"
  by (subst dec_string.simps) simp

lemma set_dec_string: "c \<in> set (dec_string n) \<Longrightarrow> is_digit c"
proof (induction n rule: dec_string.induct)
  case (1 n)
  then show ?case by (cases "n < 10") (auto simp: dec_string_ge10)
qed

lemma set_dec_fixed: "c \<in> set (dec_fixed w n) \<Longrightarrow> is_digit c"
  by (induction w arbitrary: n) auto

lemma length_dec_fixed [simp]: "length (dec_fixed w n) = w"
  by (induction w arbitrary: n) auto

lemma foldl_dec_value: "foldl (\<lambda>a c. 10 * a + digit_val c) k s = k * 10 ^ length s + dec_value s"
proof (induction s rule: rev_induct)
  case Nil
  then show ?case by (simp add: dec_value_def)
next
  case (snoc c s)
  have "foldl (\<lambda>a c. 10 * a + digit_val c) k (s @ [c]) = 10 * (k * 10 ^ length s + dec_value s) + digit_val c"
    using snoc by simp
  moreover have "dec_value (s @ [c]) = 10 * dec_value s + digit_val c"
    by (simp add: dec_value_def)
  ultimately show ?case by simp
qed

lemma dec_value_append [simp]: "dec_value (s @ t) = dec_value s * 10 ^ length t + dec_value t"
  by (metis dec_value_def foldl_append foldl_dec_value)

lemma dec_value_Nil [simp]: "dec_value [] = 0"
  by (simp add: dec_value_def)

lemma dec_value_single [simp]: "dec_value [c] = digit_val c"
  by (simp add: dec_value_def)

lemma dec_value_string [simp]: "dec_value (dec_string n) = n"
proof (induction n rule: dec_string.induct)
  case (1 n)
  then show ?case by (cases "n < 10") (auto simp: dec_string_ge10)
qed

lemma dec_value_fixed [simp]: "dec_value (dec_fixed w n) = n mod 10 ^ w"
proof (induction w arbitrary: n)
  case 0
  then show ?case by simp
next
  case (Suc w)
  have "n mod 10 ^ Suc w = (n div 10 mod 10 ^ w) * 10 + n mod 10"
    by (simp add: mod_mult2_eq mult.commute)
  then show ?case using Suc by simp
qed

lemma dec_string_inject [simp]: "dec_string m = dec_string n \<longleftrightarrow> m = n"
  by (metis dec_value_string)

lemma dec_string_append:
  "0 < a \<Longrightarrow> b < 10 ^ w \<Longrightarrow> dec_string (a * 10 ^ w + b) = dec_string a @ dec_fixed w b"
proof (induction w arbitrary: b)
  case 0
  then show ?case by simp
next
  case (Suc w)
  let ?n = "a * 10 ^ Suc w + b"
  have "1 * 10 ^ Suc w \<le> a * 10 ^ Suc w" using Suc.prems(1) by (intro mult_le_mono1) simp
  moreover have "(10::nat) \<le> 10 ^ Suc w" by simp
  ultimately have ge: "10 \<le> ?n" by linarith
  have n: "?n = b + 10 * (a * 10 ^ w)" by simp
  have d: "?n div 10 = a * 10 ^ w + b div 10"
    unfolding n by (subst div_mult_self2) auto
  have m: "?n mod 10 = b mod 10"
    unfolding n by (subst mod_mult_self2) auto
  have "b div 10 < 10 ^ w" using Suc.prems(2) by (simp add: less_mult_imp_div_less mult.commute)
  then show ?case using Suc.IH [OF Suc.prems(1), of "b div 10"]
    unfolding dec_string_ge10 [OF ge] d m by simp
qed

lemma dec_fixed_0: "dec_fixed w 0 = replicate w (CHR ''0'')"
  by (induction w) (auto simp: digit_char_0 replicate_append_same)

lemma dec_fixed_append: "dec_fixed (k + w) n = dec_fixed k (n div 10 ^ w) @ dec_fixed w n"
proof (induction w arbitrary: n)
  case 0
  then show ?case by simp
next
  case (Suc w)
  then show ?case by (simp add: div_mult2_eq mult.commute)
qed

lemma dec_fixed_mod: "dec_fixed w (n mod 10 ^ w) = dec_fixed w n"
proof (induction w arbitrary: n)
  case 0
  then show ?case by simp
next
  case (Suc w)
  have "n mod (10 * 10 ^ w) div 10 = n div 10 mod 10 ^ w" "n mod (10 * 10 ^ w) mod 10 = n mod 10"
    by (simp_all add: mod_mult2_eq)
  then show ?case using Suc [of "n div 10"] by simp
qed

lemma length_dec_string_le: "n < 10 ^ w \<Longrightarrow> 0 < w \<Longrightarrow> length (dec_string n) \<le> w"
proof (induction n arbitrary: w rule: dec_string.induct)
  case (1 n)
  show ?case
  proof (cases "n < 10")
    case True
    with 1 show ?thesis by simp
  next
    case False
    with 1 obtain v where w: "w = Suc v" by (cases w) auto
    with False 1 have "n div 10 < 10 ^ v" by (simp add: less_mult_imp_div_less mult.commute)
    moreover have "0 < v" using False 1 w by (cases v) auto
    ultimately show ?thesis using 1(1) [of v] False w by (simp add: dec_string_ge10)
  qed
qed

lemma dec_pad_eq_fixed: "n < 10 ^ w \<Longrightarrow> 0 < w \<Longrightarrow> dec_pad w n = dec_fixed w n"
proof (induction n arbitrary: w rule: dec_string.induct)
  case (1 n)
  then obtain v where w: "w = Suc v" by (cases w) auto
  show ?case
  proof (cases "n < 10")
    case True
    with w show ?thesis by (simp add: dec_pad_def pad_left_def dec_fixed_0)
  next
    case False
    have lt: "n div 10 < 10 ^ v" using 1 w by (simp add: less_mult_imp_div_less mult.commute)
    moreover have v: "0 < v" using False 1 w by (cases v) auto
    ultimately have "dec_pad v (n div 10) = dec_fixed v (n div 10)" using 1 False by blast
    then show ?thesis using False w by (simp add: dec_pad_def pad_left_def dec_string_ge10)
  qed
qed

section \<open>Joining with a separator\<close>

fun join :: "string \<Rightarrow> string list \<Rightarrow> string" where
  "join sep [] = []"
| "join sep [x] = x"
| "join sep (x # y # xs) = x @ sep @ join sep (y # xs)"

lemma join_snoc: "join sep (xs @ [x]) = (if xs = [] then x else join sep xs @ sep @ x)"
  by (induction sep xs rule: join.induct) auto

section \<open>Hexadecimal text\<close>

definition hex_char :: "nat \<Rightarrow> char" where
  "hex_char d = ''0123456789abcdef'' ! d"

definition hex_val :: "char \<Rightarrow> nat" where
  "hex_val c = (if is_digit c then digit_val c else of_char c - 87)"

text \<open>\<open>%0wx\<close> for a value below \<open>16 ^ w\<close>.\<close>

fun hex_fixed :: "nat \<Rightarrow> nat \<Rightarrow> string" where
  "hex_fixed 0 n = []"
| "hex_fixed (Suc w) n = hex_fixed w (n div 16) @ [hex_char (n mod 16)]"

definition hex_value :: "string \<Rightarrow> nat" where
  "hex_value s = foldl (\<lambda>a c. 16 * a + hex_val c) 0 s"

lemma all_less_16: "(\<forall>d < 16. P (d::nat)) \<longleftrightarrow> list_all P [0..<16]"
  by (auto simp: list_all_iff)

lemma hex_val_char [simp]: "d < 16 \<Longrightarrow> hex_val (hex_char d) = d"
proof -
  have "\<forall>d < 16. hex_val (hex_char d) = d"
    unfolding all_less_16 by code_simp
  then show "d < 16 \<Longrightarrow> hex_val (hex_char d) = d" by blast
qed

lemma length_hex_fixed [simp]: "length (hex_fixed w n) = w"
  by (induction w arbitrary: n) auto

lemma foldl_hex_value: "foldl (\<lambda>a c. 16 * a + hex_val c) k s = k * 16 ^ length s + hex_value s"
proof (induction s rule: rev_induct)
  case Nil
  then show ?case by (simp add: hex_value_def)
next
  case (snoc c s)
  have "foldl (\<lambda>a c. 16 * a + hex_val c) k (s @ [c]) = 16 * (k * 16 ^ length s + hex_value s) + hex_val c"
    using snoc by simp
  moreover have "hex_value (s @ [c]) = 16 * hex_value s + hex_val c"
    by (simp add: hex_value_def)
  ultimately show ?case by simp
qed

lemma hex_value_append [simp]: "hex_value (s @ t) = hex_value s * 16 ^ length t + hex_value t"
  by (metis hex_value_def foldl_append foldl_hex_value)

lemma hex_value_fixed [simp]: "hex_value (hex_fixed w n) = n mod 16 ^ w"
proof (induction w arbitrary: n)
  case 0
  then show ?case by (simp add: hex_value_def)
next
  case (Suc w)
  have "n mod 16 ^ Suc w = (n div 16 mod 16 ^ w) * 16 + n mod 16"
    by (simp add: mod_mult2_eq mult.commute)
  then show ?case using Suc by (simp add: hex_value_def)
qed

section \<open>Machine words\<close>

lemma unat_numeral_10: "unat (10 :: 32 word) = 10"
  by simp

lemma unat_bound: "unat (w :: 'a::len word) < 2 ^ LENGTH('a)"
  by (rule unsigned_less)

lemma unat_drop_bit_div: "unat (drop_bit n w) = unat w div 2 ^ n"
  using unat_drop_bit_eq [of n w] by (simp only: drop_bit_eq_div [of n "unat w"])

lemma uint_bound: "0 \<le> uint (w :: 'a::len word) \<and> uint w < 2 ^ LENGTH('a)"
  using unsigned_less [of w] by simp

lemma bit_top_iff:
  assumes "0 \<le> x" "x < 2 ^ Suc n"
  shows "bit (x :: int) n \<longleftrightarrow> 2 ^ n \<le> x"
proof (cases "2 ^ n \<le> x")
  case True
  then have "x div 2 ^ n = 1"
    using assms by (intro int_div_pos_eq [of _ _ _ "x - 2 ^ n"]) auto
  with True show ?thesis by (simp add: bit_iff_odd)
next
  case False
  then show ?thesis using assms by (simp add: bit_iff_odd)
qed

lemma sint_eq_uint:
  "sint (w :: 'a::len word)
     = (if uint w < 2 ^ (LENGTH('a) - 1) then uint w else uint w - 2 ^ LENGTH('a))"
proof -
  obtain n where n: "LENGTH('a) = Suc n" by (cases "LENGTH('a)") auto
  have b: "0 \<le> uint w" "uint w < 2 ^ Suc n" using uint_bound [of w] n by simp_all
  have t: "take_bit (Suc n) (uint w) = uint w" using b by (simp add: take_bit_int_eq_self)
  have "sint w = signed_take_bit n (uint w)" by (simp add: sint_uint n)
  also have "\<dots> = uint w - 2 ^ Suc n * of_bool (bit (uint w) n)"
    by (simp only: signed_take_bit_eq_take_bit_minus t)
  finally show ?thesis unfolding bit_top_iff [OF b] n by auto
qed

lemma complement_mod: "0 < x \<Longrightarrow> x \<le> m \<Longrightarrow> (m - x) mod m = m - (x::int)"
  by (rule mod_pos_pos_trivial) auto

lemma unat_eqD: "unat v = unat w \<Longrightarrow> v = w"
  by (simp add: word_eq_iff_unsigned [where ?'a = nat])

lemma unat_push_bit_small:
  fixes w :: "'a::len word"
  assumes "unat w * 2 ^ n < 2 ^ LENGTH('a)"
  shows "unat (push_bit n w) = unat w * 2 ^ n"
proof -
  have "unat (push_bit n w) = take_bit LENGTH('a) (push_bit n (unat w))"
    by (rule unsigned_push_bit_eq)
  also have "push_bit n (unat w) = unat w * 2 ^ n" by (rule push_bit_eq_mult)
  finally show ?thesis using assms by (simp add: take_bit_nat_eq_self)
qed

lemma unat_shift_or:
  fixes a :: "64 word" and b :: "32 word"
  assumes "unat a < 2 ^ 32"
  shows "unat (push_bit 32 a OR ucast b) = unat a * 2 ^ 32 + unat b"
proof -
  have "push_bit 32 a OR ucast b = push_bit 32 a + (ucast b :: 64 word)"
    by (rule disjunctive_add [symmetric])
       (auto simp: bit_push_bit_iff bit_ucast_iff dest: bit_imp_le_length)
  moreover have "unat (push_bit 32 a) = unat a * 2 ^ 32"
    using assms by (intro unat_push_bit_small) simp
  moreover have "unat (ucast b :: 64 word) = unat b"
    using unat_bound [of b] by (simp add: unsigned_ucast_eq take_bit_nat_eq_self)
  moreover have "unat a * 2 ^ 32 + unat b < 2 ^ 64"
    using assms unat_bound [of b] by simp
  ultimately show ?thesis
    by (simp add: unat_word_ariths)
qed

lemma unat_ucast_small:
  fixes a :: "64 word"
  assumes "unat a < 2 ^ 32"
  shows "unat (ucast a :: 32 word) = unat a"
  using assms by (simp add: unsigned_ucast_eq take_bit_nat_eq_self)

section \<open>Components driven by a sequence of operations\<close>

text \<open>
  \<open>step op s\<close> is \<open>None\<close> where the code would have undefined behaviour. A component whose
  operations keep an invariant never reaches it, whatever the sequence of operations.
\<close>

fun run :: "('op \<Rightarrow> 's \<Rightarrow> 's option) \<Rightarrow> 'op list \<Rightarrow> 's \<Rightarrow> 's option" where
  "run step [] s = Some s"
| "run step (op # ops) s = (case step op s of None \<Rightarrow> None | Some s' \<Rightarrow> run step ops s')"

locale op_system =
  fixes step :: "'op \<Rightarrow> 's \<Rightarrow> 's option"
    and inv :: "'s \<Rightarrow> bool"
  assumes step_safe: "inv s \<Longrightarrow> \<exists>s'. step op s = Some s' \<and> inv s'"
begin

lemma run_safe: "inv s \<Longrightarrow> \<exists>s'. run step ops s = Some s' \<and> inv s'"
proof (induction ops arbitrary: s)
  case (Cons op ops)
  then show ?case using step_safe [of s op] by auto
qed simp

lemma run_keeps: "inv s \<Longrightarrow> run step ops s = Some s' \<Longrightarrow> inv s'"
  using run_safe [of s ops] by auto

end

text \<open>
  The state of a component described by the operations it has executed. What is shown for a run
  from a described state then speaks about the whole history.
\<close>

locale history_system =
  fixes step :: "'op \<Rightarrow> 's \<Rightarrow> 's option"
    and hist :: "'op list \<Rightarrow> 's \<Rightarrow> bool"
  assumes hist_step: "hist h s \<Longrightarrow> \<exists>s'. step op s = Some s' \<and> hist (h @ [op]) s'"
begin

lemma run_hist: "hist h s \<Longrightarrow> \<exists>s'. run step ops s = Some s' \<and> hist (h @ ops) s'"
proof (induction ops arbitrary: h s)
  case (Cons op ops)
  obtain t where t: "step op s = Some t" "hist (h @ [op]) t" using hist_step [OF Cons(2)] by auto
  with Cons(1) [OF t(2)] show ?case by simp
qed simp

end

sublocale history_system \<subseteq> op_system step "\<lambda>s. \<exists>h. hist h s"
  by unfold_locales (use hist_step in blast)

end
