(* ===== verification/Decimal_Text.thy ===== *)
theory Decimal_Text
  imports Prelude
begin

text \<open>
  The integer, DECIMAL and UUID renderers of \<open>src/src/result.cpp\<close>: HUGEINT and UHUGEINT are
  rendered by dividing four 32-bit limbs by \<open>10 ^ 9\<close> until nothing is left, DECIMAL inserts
  a point into the digits of the magnitude, UUID flips the sign bit and prints hexadecimal.
  The limbs are 32-bit words and the running remainder a 64-bit word, as in the code; the
  lemmas relate them to the number they stand for.
\<close>

section \<open>Unsigned 128-bit integers\<close>

text \<open>
  One pass of the inner \<open>for\<close> loop. The list holds the limbs from the most significant
  (\<open>limbs[3]\<close>) to the least, the order in which the loop visits them.
\<close>

fun divide_limbs :: "u32 list \<Rightarrow> u64 \<Rightarrow> u32 list \<times> u64" where
  "divide_limbs [] rem = ([], rem)"
| "divide_limbs (l # ls) rem =
     (let cur = push_bit 32 rem OR ucast l;
          q = ucast (cur div 1000000000);
          (qs, r) = divide_limbs ls (cur mod 1000000000)
      in (q # qs, r))"

fun limbs_value :: "u32 list \<Rightarrow> nat" where
  "limbs_value [] = 0"
| "limbs_value (l # ls) = unat l * 2 ^ (32 * length ls) + limbs_value ls"

lemma length_divide_limbs [simp]: "length (fst (divide_limbs ls rem)) = length ls"
  by (induction ls rem rule: divide_limbs.induct) (auto simp: Let_def split: prod.splits)

lemma divide_step_arith:
  "V * B + r = M * P + L \<Longrightarrow> c = D * B + M \<Longrightarrow> (D * P + V) * B + r = c * P + (L::nat)"
  by (simp add: algebra_simps)

lemma unat_numeral_e9: "unat (1000000000 :: u64) = 1000000000"
  by simp

lemma divide_limbs_correct:
  "unat rem < 1000000000 \<Longrightarrow> divide_limbs ls rem = (qs, r) \<Longrightarrow>
     limbs_value qs * 1000000000 + unat r = unat rem * 2 ^ (32 * length ls) + limbs_value ls
     \<and> unat r < 1000000000"
proof (induction ls rem arbitrary: qs r rule: divide_limbs.induct)
  case (1 rem)
  then show ?case by simp
next
  case (2 l ls rem)
  define cur where "cur = push_bit 32 rem OR (ucast l :: u64)"
  obtain qs' where rec: "divide_limbs ls (cur mod 1000000000) = (qs', r)"
    and qs: "qs = ucast (cur div 1000000000) # qs'"
    using "2.prems"(2) by (auto simp: cur_def Let_def split: prod.splits)
  have cur: "unat cur = unat rem * 2 ^ 32 + unat l"
    unfolding cur_def using "2.prems"(1) by (intro unat_shift_or) simp
  have modlt: "unat (cur mod 1000000000) < 1000000000" by (simp add: unat_mod)
  have IH: "limbs_value qs' * 1000000000 + unat r
              = unat (cur mod 1000000000) * 2 ^ (32 * length ls) + limbs_value ls
            \<and> unat r < 1000000000"
    using "2.IH" [OF cur_def refl modlt] rec by blast
  have "unat cur div 1000000000 < 2 ^ 32"
    using cur "2.prems"(1) unat_bound [of l] by (simp add: less_mult_imp_div_less)
  then have q: "unat (ucast (cur div 1000000000) :: u32) = unat cur div 1000000000"
    by (subst unat_ucast_small) (simp_all add: unat_div)
  have len: "length qs' = length ls" using rec length_divide_limbs by (metis fst_conv)
  have split: "unat cur = unat cur div 1000000000 * 1000000000 + unat cur mod 1000000000"
    by (rule div_mult_mod_eq [symmetric])
  have "limbs_value qs = unat cur div 1000000000 * 2 ^ (32 * length ls) + limbs_value qs'"
    using q len by (simp only: qs limbs_value.simps)
  moreover have "limbs_value qs' * 1000000000 + unat r
      = unat cur mod 1000000000 * 2 ^ (32 * length ls) + limbs_value ls"
    using IH by (simp only: unat_mod unat_numeral_e9)
  ultimately have "limbs_value qs * 1000000000 + unat r = unat cur * 2 ^ (32 * length ls) + limbs_value ls"
    using divide_step_arith [OF _ split] by metis
  also have "unat cur * 2 ^ (32 * length ls) + limbs_value ls
      = unat rem * 2 ^ (32 * length (l # ls)) + limbs_value (l # ls)"
    by (simp add: cur add_mult_distrib power_add)
  finally show ?case using IH by blast
qed

text \<open>The \<open>while\<close> loop collects groups of nine digits, the least significant first.\<close>

function u128_groups :: "u32 list \<Rightarrow> u32 list" where
  "u128_groups ls =
     (if \<forall>l \<in> set ls. l = 0 then []
      else let (qs, r) = divide_limbs ls 0 in ucast r # u128_groups qs)"
  by pat_completeness auto

lemma limbs_value_eq_0: "limbs_value ls = 0 \<longleftrightarrow> (\<forall>l \<in> set ls. l = 0)"
  by (induction ls) (auto simp: unat_eq_zero)

lemma divide_limbs_0:
  "limbs_value (fst (divide_limbs ls 0)) = limbs_value ls div 1000000000"
  "unat (snd (divide_limbs ls 0)) = limbs_value ls mod 1000000000"
proof -
  obtain qs r where d: "divide_limbs ls 0 = (qs, r)" by fastforce
  with divide_limbs_correct [of 0 ls qs r]
  have e: "limbs_value qs * 1000000000 + unat r = limbs_value ls" and r: "unat r < 1000000000"
    by auto
  from e [symmetric] r
  show "limbs_value (fst (divide_limbs ls 0)) = limbs_value ls div 1000000000"
    and "unat (snd (divide_limbs ls 0)) = limbs_value ls mod 1000000000"
    by (simp_all add: d)
qed

termination u128_groups
proof (relation "measure limbs_value", simp)
  fix ls :: "u32 list" and x qs r
  assume nz: "\<not> (\<forall>l \<in> set ls. l = 0)" and x: "x = divide_limbs ls 0" "(qs, r) = x"
  have "limbs_value qs = limbs_value ls div 1000000000"
    using divide_limbs_0(1) [of ls] x by (metis fst_conv)
  moreover have "0 < limbs_value ls" using nz by (metis limbs_value_eq_0 neq0_conv)
  ultimately show "(qs, ls) \<in> measure limbs_value" by simp
qed

declare u128_groups.simps [simp del]

text \<open>
  \<open>result = std::to_string(groups[--ngroups])\<close>, then \<open>%09u\<close> for each lower group.
\<close>

definition render_groups :: "u32 list \<Rightarrow> string" where
  "render_groups gs = dec_string (unat (last gs)) @ concat (map (\<lambda>g. dec_pad 9 (unat g)) (rev (butlast gs)))"

definition duckdb_u128_to_string :: "u64 \<Rightarrow> u64 \<Rightarrow> string" where
  "duckdb_u128_to_string hi lo =
     (if hi = 0 then dec_string (unat lo)
      else render_groups
        (u128_groups [ucast (drop_bit 32 hi), ucast hi, ucast (drop_bit 32 lo), ucast lo]))"

lemma u128_groups_Cons:
  "0 < limbs_value ls \<Longrightarrow>
   u128_groups ls = ucast (snd (divide_limbs ls 0)) # u128_groups (fst (divide_limbs ls 0))"
  using limbs_value_eq_0 [of ls] by (subst u128_groups.simps) (auto split: prod.splits)

lemma u128_groups_Nil: "limbs_value ls = 0 \<Longrightarrow> u128_groups ls = []"
  using limbs_value_eq_0 [of ls] by (subst u128_groups.simps) auto

lemma unat_group: "unat (ucast (snd (divide_limbs ls 0)) :: u32) = limbs_value ls mod 1000000000"
  using divide_limbs_0(2) [of ls] by (subst unat_ucast_small) auto

lemma length_u128_groups: "limbs_value ls < 1000000000 ^ k \<Longrightarrow> length (u128_groups ls) \<le> k"
proof (induction k arbitrary: ls)
  case 0
  then show ?case by (simp add: u128_groups_Nil)
next
  case (Suc k)
  show ?case
  proof (cases "limbs_value ls = 0")
    case True
    then show ?thesis by (simp add: u128_groups_Nil)
  next
    case False
    have "limbs_value ls div 1000000000 < 1000000000 ^ k"
      using Suc.prems by (simp add: less_mult_imp_div_less mult.commute)
    then show ?thesis using False Suc.IH by (simp add: u128_groups_Cons divide_limbs_0)
  qed
qed

lemma render_groups_Cons:
  "gs \<noteq> [] \<Longrightarrow> render_groups (g # gs) = render_groups gs @ dec_pad 9 (unat g)"
  by (simp add: render_groups_def)

lemma render_u128_groups:
  "0 < limbs_value ls \<Longrightarrow> render_groups (u128_groups ls) = dec_string (limbs_value ls)"
proof (induction ls rule: u128_groups.induct)
  case (1 ls)
  let ?v = "limbs_value ls" and ?qs = "fst (divide_limbs ls 0)"
  have q: "limbs_value ?qs = ?v div 1000000000" by (rule divide_limbs_0(1))
  note e = u128_groups_Cons [OF "1.prems"]
  show ?case
  proof (cases "?v < 1000000000")
    case True
    then have "u128_groups ?qs = []" using q by (simp add: u128_groups_Nil)
    with True show ?thesis unfolding e by (simp add: render_groups_def unat_group)
  next
    case False
    then have pos: "0 < limbs_value ?qs" using q by simp
    have nz: "\<not> (\<forall>l \<in> set ls. l = 0)" using "1.prems" limbs_value_eq_0 [of ls] by auto
    have IH: "render_groups (u128_groups ?qs) = dec_string (limbs_value ?qs)"
      using "1.IH" [OF nz refl prod.collapse] pos by simp
    have ne: "u128_groups ?qs \<noteq> []" using pos by (simp add: u128_groups_Cons)
    have "dec_string ?v = dec_string (?v div 10 ^ 9 * 10 ^ 9 + ?v mod 10 ^ 9)" by simp
    also have "\<dots> = dec_string (?v div 10 ^ 9) @ dec_fixed 9 (?v mod 10 ^ 9)"
      using False by (intro dec_string_append) simp_all
    finally show ?thesis
      unfolding e by (simp add: render_groups_Cons [OF ne] IH unat_group q dec_pad_eq_fixed)
  qed
qed

lemma limbs_of_u128:
  "limbs_value [ucast (drop_bit 32 hi), ucast hi, ucast (drop_bit 32 lo), ucast lo]
     = unat (hi :: u64) * 2 ^ 64 + unat (lo :: u64)"
proof -
  have split: "unat (ucast (drop_bit 32 w) :: u32) * 2 ^ 32 + unat (ucast w :: u32) = unat w"
    for w :: u64
  proof -
    have "unat (drop_bit 32 w) = unat w div 2 ^ 32" by (rule unat_drop_bit_div)
    moreover have "unat w div 2 ^ 32 < 2 ^ 32"
      using unat_bound [of w] by (simp add: less_mult_imp_div_less)
    ultimately have a: "unat (ucast (drop_bit 32 w) :: u32) = unat w div 2 ^ 32"
      by (subst unat_ucast_small) simp_all
    have b: "unat (ucast w :: u32) = unat w mod 2 ^ 32"
      by (simp add: unsigned_ucast_eq take_bit_eq_mod)
    show ?thesis unfolding a b by simp
  qed
  show ?thesis using split [of hi] split [of lo] by (simp add: algebra_simps)
qed

section \<open>Signed 128-bit integers\<close>

text \<open>\<open>duckdb_hugeint\<close>: a signed upper half and an unsigned lower half.\<close>

record hugeint =
  upper :: u64
  lower :: u64

definition hugeint_value :: "hugeint \<Rightarrow> int" where
  "hugeint_value v = sint (upper v) * 2 ^ 64 + uint (lower v)"

text \<open>Magnitude of a negative value: two's complement negation of the pair.\<close>

definition negate_u128 :: "u64 \<Rightarrow> u64 \<Rightarrow> u64 \<times> u64" where
  "negate_u128 hi lo = (let lo' = NOT lo + 1 in (NOT hi + (if lo' = 0 then 1 else 0), lo'))"

definition duckdb_hugeint_to_string :: "hugeint \<Rightarrow> string" where
  "duckdb_hugeint_to_string v =
     (if sint (upper v) < 0
      then let (hi, lo) = negate_u128 (upper v) (lower v) in CHR ''-'' # duckdb_u128_to_string hi lo
      else duckdb_u128_to_string (upper v) (lower v))"

definition duckdb_uhugeint_to_string :: "hugeint \<Rightarrow> string" where
  "duckdb_uhugeint_to_string v = duckdb_u128_to_string (upper v) (lower v)"


section \<open>DECIMAL\<close>

text \<open>The physical storage of a DECIMAL: \<open>duckdb_decimal_internal_type\<close> and the cell.\<close>

datatype decimal_cell =
    Dec_smallint "16 word"
  | Dec_integer "32 word"
  | Dec_bigint "64 word"
  | Dec_hugeint hugeint

fun decimal_cell_value :: "decimal_cell \<Rightarrow> int" where
  "decimal_cell_value (Dec_smallint v) = sint v"
| "decimal_cell_value (Dec_integer v) = sint v"
| "decimal_cell_value (Dec_bigint v) = sint v"
| "decimal_cell_value (Dec_hugeint v) = hugeint_value v"

text \<open>The \<open>switch\<close>: the sign, and the magnitude as a 128-bit pair (high, low).\<close>

fun decimal_magnitude :: "decimal_cell \<Rightarrow> bool \<times> u64 \<times> u64" where
  "decimal_magnitude (Dec_smallint v) =
     (let negative = sint v < 0 in (negative, 0, if negative then - scast v else scast v))"
| "decimal_magnitude (Dec_integer v) =
     (let negative = sint v < 0 in (negative, 0, if negative then - scast v else scast v))"
| "decimal_magnitude (Dec_bigint v) =
     (let negative = sint v < 0 in (negative, 0, if negative then 0 - v else v))"
| "decimal_magnitude (Dec_hugeint v) =
     (let negative = sint (upper v) < 0
      in (negative, if negative then negate_u128 (upper v) (lower v) else (upper v, lower v)))"

text \<open>\<open>digits.insert(pos, t)\<close> of \<open>std::string\<close>.\<close>

definition str_insert :: "nat \<Rightarrow> string \<Rightarrow> string \<Rightarrow> string" where
  "str_insert pos t s = take pos s @ t @ drop pos s"

definition insert_point :: "nat \<Rightarrow> string \<Rightarrow> string" where
  "insert_point scale digits =
     (if scale > 0
      then let ds = (if length digits \<le> scale
                     then str_insert 0 (replicate (scale - length digits + 1) (CHR ''0'')) digits
                     else digits)
           in str_insert (length ds - scale) ''.'' ds
      else digits)"

definition duckdb_decimal_render :: "u8 \<Rightarrow> decimal_cell \<Rightarrow> string" where
  "duckdb_decimal_render scale cell =
     (let (negative, hi, lo) = decimal_magnitude cell;
          digits = insert_point (unat scale) (duckdb_u128_to_string hi lo)
      in if negative then CHR ''-'' # digits else digits)"

section \<open>UUID\<close>

text \<open>\<open>snprintf("%08x-%04x-%04x-%04x-%04x%08x")\<close> on the two halves.\<close>

definition duckdb_uuid_to_string :: "hugeint \<Rightarrow> string" where
  "duckdb_uuid_to_string v =
     (let up = upper v XOR push_bit 63 1;
          lo = lower v
      in hex_fixed 8 (unat (drop_bit 32 up)) @ ''-''
       @ hex_fixed 4 (unat (drop_bit 16 up AND 0xFFFF)) @ ''-''
       @ hex_fixed 4 (unat (up AND 0xFFFF)) @ ''-''
       @ hex_fixed 4 (unat (drop_bit 48 lo)) @ ''-''
       @ hex_fixed 4 (unat (drop_bit 32 lo AND 0xFFFF))
       @ hex_fixed 8 (unat (lo AND 0xFFFFFFFF)))"

section \<open>Correctness of the integer renderers\<close>

lemma u128_to_string_correct:
  "duckdb_u128_to_string hi lo = dec_string (unat hi * 2 ^ 64 + unat lo)"
proof (cases "hi = 0")
  case True
  then show ?thesis by (simp add: duckdb_u128_to_string_def)
next
  case False
  let ?ls = "[ucast (drop_bit 32 hi), ucast hi, ucast (drop_bit 32 lo), ucast lo] :: u32 list"
  have "0 < unat hi" using False by (simp add: unat_gt_0)
  then have "0 < limbs_value ?ls" unfolding limbs_of_u128 by simp
  then have "render_groups (u128_groups ?ls) = dec_string (limbs_value ?ls)"
    by (rule render_u128_groups)
  then show ?thesis using False
    unfolding duckdb_u128_to_string_def limbs_of_u128 by simp
qed

text \<open>Five groups always suffice, so the writes to \<open>groups[5]\<close> stay inside the array.\<close>

lemma u128_groups_fit:
  "length (u128_groups [ucast (drop_bit 32 (hi::u64)), ucast hi, ucast (drop_bit 32 lo), ucast (lo::u64)]) \<le> 5"
  (is "length (u128_groups ?ls) \<le> 5")
proof (rule length_u128_groups)
  have w: "unat w < 2 ^ 64" for w :: u64 using unat_bound [of w] by simp
  from w [of hi] w [of lo] show "limbs_value ?ls < 1000000000 ^ 5" unfolding limbs_of_u128 by simp
qed

lemma sint_neg_uint: "sint (w :: u64) < 0 \<Longrightarrow> uint w = sint w + 2 ^ 64"
  using uint_bound [of w] by (simp add: sint_eq_uint split: if_splits)

lemma sint_nonneg_uint: "0 \<le> sint (w :: u64) \<Longrightarrow> uint w = sint w"
  using uint_bound [of w] unfolding sint_eq_uint by (auto split: if_splits)

lemma sint_bounds64: "- (2 ^ 63) \<le> sint (w :: u64) \<and> sint w < 2 ^ 63"
proof
  show "- (2 ^ 63) \<le> sint w" using sint_greater_eq [of w] by simp
  show "sint w < 2 ^ 63" using sint_less [of w] by simp
qed

lemma uint_NOT64: "uint (NOT w :: u64) = 2 ^ 64 - 1 - uint w"
proof -
  have "NOT w = - 1 - w" by (simp add: not_eq_complement)
  then have "uint (NOT w) = (2 ^ 64 - (1 + uint w)) mod 2 ^ 64"
    by (simp add: uint_word_ariths diff_diff_eq)
  also have "\<dots> = 2 ^ 64 - (1 + uint w)"
  proof (rule complement_mod)
    show "0 < 1 + uint w" using uint_bound [of w] by linarith
    show "1 + uint w \<le> 2 ^ 64" using uint_bound [of w] by simp
  qed
  finally show ?thesis by simp
qed

text \<open>\<open>negate_u128\<close> is negation modulo \<open>2 ^ 128\<close>; on a negative value it gives its magnitude.\<close>

lemma negate_u128_value:
  assumes "sint (upper v) < 0" "negate_u128 (upper v) (lower v) = (hi, lo)"
  shows "uint hi * 2 ^ 64 + uint lo = - hugeint_value v"
proof -
  let ?u = "uint (upper v)" and ?l = "uint (lower v)"
  have u: "?u = sint (upper v) + 2 ^ 64" using assms(1) by (rule sint_neg_uint)
  have lb: "0 \<le> ?l" "?l < 2 ^ 64" using uint_bound [of "lower v"] by simp_all
  have ub: "2 ^ 63 \<le> ?u" "?u < 2 ^ 64"
    using u sint_bounds64 [of "upper v"] uint_bound [of "upper v"] by simp_all
  have lo: "lo = NOT (lower v) + 1" and hi: "hi = NOT (upper v) + (if lo = 0 then 1 else 0)"
    using assms(2) by (auto simp: negate_u128_def Let_def)
  have ulo: "uint lo = (2 ^ 64 - ?l) mod 2 ^ 64"
    unfolding lo by (simp add: uint_word_ariths uint_NOT64)
  show ?thesis
  proof (cases "?l = 0")
    case True
    then have lo0: "lo = 0" using ulo by (simp add: uint_0_iff)
    then have "uint hi = (2 ^ 64 - ?u) mod 2 ^ 64"
      unfolding hi by (simp add: uint_word_ariths uint_NOT64)
    moreover have "(2 ^ 64 - ?u) mod 2 ^ 64 = 2 ^ 64 - ?u"
    proof (rule complement_mod)
      show "0 < ?u" using ub(1) by (rule less_le_trans [rotated]) simp
      show "?u \<le> 2 ^ 64" using ub(2) by simp
    qed
    ultimately have "uint hi = 2 ^ 64 - ?u" by simp
    then show ?thesis using True u lo0 by (simp add: hugeint_value_def)
  next
    case False
    have l: "uint lo = 2 ^ 64 - ?l"
      unfolding ulo by (rule complement_mod) ((use False lb in linarith), use lb in simp)
    then have "lo \<noteq> 0" using lb by auto
    then have "uint hi = 2 ^ 64 - 1 - ?u" unfolding hi by (simp add: uint_NOT64)
    then show ?thesis using l u by (simp add: hugeint_value_def algebra_simps)
  qed
qed

lemma unat_pair_nat: "unat hi * 2 ^ 64 + unat lo = nat (uint hi * 2 ^ 64 + uint (lo :: u64))"
  for hi :: u64
  by (simp add: nat_add_distrib nat_mult_distrib)

lemma hugeint_value_nonneg: "0 \<le> sint (upper v) \<Longrightarrow> 0 \<le> hugeint_value v"
  by (simp add: hugeint_value_def)

lemma hugeint_value_neg: "sint (upper v) < 0 \<Longrightarrow> hugeint_value v < 0"
proof -
  assume "sint (upper v) < 0"
  then have "sint (upper v) * 18446744073709551616 \<le> - 18446744073709551616" by linarith
  moreover have "uint (lower v) < 18446744073709551616" using uint_bound [of "lower v"] by simp
  ultimately show ?thesis unfolding hugeint_value_def by simp
qed

lemma hugeint_value_neg_iff: "hugeint_value v < 0 \<longleftrightarrow> sint (upper v) < 0"
  using hugeint_value_nonneg [of v] hugeint_value_neg [of v] by linarith

text \<open>
  \<open>duckdb_hugeint_to_string\<close> prints the number a HUGEINT stands for, \<open>-2 ^ 127\<close> included:
  the limb division by \<open>10 ^ 9\<close> with zero-padded groups is decimal notation.
\<close>

theorem hugeint_to_string_correct: "duckdb_hugeint_to_string v = dec_int (hugeint_value v)"
proof (cases "sint (upper v) < 0")
  case True
  obtain hi lo where n: "negate_u128 (upper v) (lower v) = (hi, lo)" by fastforce
  have "unat hi * 2 ^ 64 + unat lo = nat (- hugeint_value v)"
    unfolding unat_pair_nat negate_u128_value [OF True n] ..
  then show ?thesis using True hugeint_value_neg [OF True] n
    by (simp add: duckdb_hugeint_to_string_def u128_to_string_correct dec_int_def)
next
  case False
  then have "unat (upper v) * 2 ^ 64 + unat (lower v) = nat (hugeint_value v)"
    unfolding unat_pair_nat by (simp add: hugeint_value_def sint_nonneg_uint)
  then show ?thesis using False hugeint_value_nonneg [of v]
    by (simp add: duckdb_hugeint_to_string_def u128_to_string_correct dec_int_def)
qed

section \<open>Correctness of DECIMAL and UUID text\<close>

lemma scast_magnitude:
  fixes v :: "'a::len word"
  assumes "LENGTH('a) \<le> 64"
  shows "sint v < 0 \<Longrightarrow> uint (- scast v :: u64) = - sint v"
    and "0 \<le> sint v \<Longrightarrow> uint (scast v :: u64) = sint v"
proof -
  have "(2::int) ^ (LENGTH('a) - 1) \<le> 2 ^ 63" using assms by (intro power_increasing) simp_all
  then have b: "- 9223372036854775808 \<le> sint v" "sint v < 9223372036854775808"
    using sint_greater_eq [of v] sint_less [of v] by simp_all
  have s: "scast v = (word_of_int (sint v) :: u64)" by (rule scast_eq)
  have n: "- scast v = (word_of_int (- sint v) :: u64)" unfolding s by (rule wi_hom_neg)
  have t: "uint (word_of_int i :: u64) = i" if "0 \<le> i" "i < 18446744073709551616" for i
    using that by (simp add: uint_word_of_int_eq take_bit_int_eq_self del: word_of_int_uint)
  show "sint v < 0 \<Longrightarrow> uint (- scast v :: u64) = - sint v"
    unfolding n by (rule t) (use b in linarith)+
  show "0 \<le> sint v \<Longrightarrow> uint (scast v :: u64) = sint v"
    unfolding s by (rule t) (use b in linarith)+
qed

lemma neg64_magnitude: "sint (v :: u64) < 0 \<Longrightarrow> uint (- v) = - sint v"
  using scast_magnitude(1) [of v] by simp

lemma nat_of_uint: "uint (x :: u64) = i \<Longrightarrow> unat x = nat i"
  by auto

lemma decimal_magnitude_correct:
  "decimal_magnitude c = (neg, hi, lo) \<Longrightarrow>
     (neg \<longleftrightarrow> decimal_cell_value c < 0) \<and> unat hi * 2 ^ 64 + unat lo = nat \<bar>decimal_cell_value c\<bar>"
proof (induction c rule: decimal_magnitude.induct)
  case (1 v)
  then show ?case
    by (cases "sint v < 0") (auto simp: nat_of_uint [OF scast_magnitude(1)] nat_of_uint [OF scast_magnitude(2)])
next
  case (2 v)
  then show ?case
    by (cases "sint v < 0") (auto simp: nat_of_uint [OF scast_magnitude(1)] nat_of_uint [OF scast_magnitude(2)])
next
  case (3 v)
  then show ?case
    by (cases "sint v < 0")
       (auto simp: nat_of_uint [OF neg64_magnitude] nat_of_uint [OF sint_nonneg_uint])
next
  case (4 v)
  show ?case
  proof (cases "sint (upper v) < 0")
    case True
    then have n: "neg" "negate_u128 (upper v) (lower v) = (hi, lo)" using 4 by auto
    show ?thesis using n(1) hugeint_value_neg [OF True]
      unfolding unat_pair_nat negate_u128_value [OF True n(2)] by simp
  next
    case False
    then have n: "\<not> neg" "hi = upper v" "lo = lower v" using 4 by auto
    have "uint (upper v) * 2 ^ 64 + uint (lower v) = hugeint_value v"
      using False by (simp add: hugeint_value_def sint_nonneg_uint)
    then show ?thesis using n(1) False hugeint_value_nonneg [of v]
      unfolding unat_pair_nat n(2,3) by simp
  qed
qed

text \<open>
  Inserting the point: the digits of \<open>m div 10 ^ k\<close>, the point, then exactly \<open>k\<close> digits.
\<close>

lemma insert_point_correct:
  "insert_point k (dec_string m) =
     (if k = 0 then dec_string m
      else dec_string (m div 10 ^ k) @ ''.'' @ dec_fixed k m)"
proof (cases "k = 0")
  case True
  then show ?thesis by (simp add: insert_point_def)
next
  case False
  show ?thesis
  proof (cases "m < 10 ^ k")
    case True
    have le: "length (dec_string m) \<le> k" using True False by (intro length_dec_string_le) auto
    have p: "replicate (k - length (dec_string m)) (CHR ''0'') @ dec_string m = dec_fixed k m"
      using dec_pad_eq_fixed [OF True] False by (simp add: dec_pad_def pad_left_def)
    have "replicate (Suc (k - length (dec_string m))) (CHR ''0'') @ dec_string m
        = CHR ''0'' # dec_fixed k m" using p by simp
    moreover have "dec_string (m div 10 ^ k) = ''0''" using True by (simp add: digit_char_0)
    ultimately show ?thesis using False le
      by (simp add: insert_point_def str_insert_def Let_def)
  next
    case ge: False
    have e: "dec_string m = dec_string (m div 10 ^ k) @ dec_fixed k (m mod 10 ^ k)"
    proof -
      have "0 < m div 10 ^ k" "m mod 10 ^ k < 10 ^ k" using ge by (simp_all add: div_greater_zero_iff)
      from dec_string_append [OF this] show ?thesis by (simp only: div_mult_mod_eq)
    qed
    have f: "dec_fixed k (m mod 10 ^ k) = dec_fixed k m" by (rule dec_fixed_mod)
    have "length (dec_string m) = length (dec_string (m div 10 ^ k)) + k" by (simp add: e)
    moreover have "0 < length (dec_string (m div 10 ^ k))" by simp
    ultimately have "\<not> length (dec_string m) \<le> k"
      and l: "length (dec_string m) - k = length (dec_string (m div 10 ^ k))" by linarith+
    then show ?thesis using False
      by (simp add: insert_point_def str_insert_def Let_def) (simp add: e f)
  qed
qed

text \<open>
  \<open>duckdb_decimal_render\<close> is exact for every storage width: sign, integer part, and, for
  a positive scale, the point followed by exactly \<open>scale\<close> digits with trailing zeros kept.
\<close>

theorem decimal_render_correct:
  "duckdb_decimal_render scale c =
     (let v = decimal_cell_value c; m = nat \<bar>v\<bar>; k = unat scale
      in (if v < 0 then ''-'' else []) @ dec_string (m div 10 ^ k)
         @ (if k = 0 then [] else ''.'' @ dec_fixed k m))"
proof -
  obtain neg hi lo where d: "decimal_magnitude c = (neg, hi, lo)" by (metis prod_cases3)
  from decimal_magnitude_correct [OF d] show ?thesis
    by (simp add: duckdb_decimal_render_def d u128_to_string_correct insert_point_correct Let_def)
qed

lemma and_mask16: "unat (w AND 0xFFFF :: u64) = unat w mod 2 ^ 16"
proof -
  have "w AND 0xFFFF = take_bit 16 w" by (simp add: take_bit_eq_mask mask_eq_exp_minus_1)
  then show ?thesis by (simp add: unat_mod take_bit_eq_mod)
qed

lemma and_mask32: "unat (w AND 0xFFFFFFFF :: u64) = unat w mod 2 ^ 32"
proof -
  have "w AND 0xFFFFFFFF = take_bit 32 w" by (simp add: take_bit_eq_mask mask_eq_exp_minus_1)
  then show ?thesis by (simp add: unat_mod take_bit_eq_mod)
qed

lemma set_hex_fixed: "c \<in> set (hex_fixed w n) \<Longrightarrow> c \<noteq> CHR ''-''"
proof (induction w arbitrary: n)
  case 0
  then show ?case by simp
next
  case (Suc w)
  have "\<forall>d < 16. hex_char d \<noteq> CHR ''-''" unfolding all_less_16 by code_simp
  then have "hex_char (n mod 16) \<noteq> CHR ''-''" by simp
  with Suc show ?case by auto
qed

lemma filter_hex_fixed [simp]: "filter (\<lambda>c. c \<noteq> CHR ''-'') (hex_fixed w n) = hex_fixed w n"
  by (simp add: filter_id_conv set_hex_fixed)

lemma hex_groups:
  assumes "up < 2 ^ 64" "lo < 2 ^ 64"
  shows "((((up div 2 ^ 32 * 16 ^ 4 + up div 2 ^ 16 mod 2 ^ 16) * 16 ^ 4 + up mod 2 ^ 16) * 16 ^ 4
           + lo div 2 ^ 48) * 16 ^ 4 + lo div 2 ^ 32 mod 2 ^ 16) * 16 ^ 8 + lo mod 2 ^ 32
         = up * 2 ^ 64 + (lo :: nat)"
proof -
  have a: "up mod (2 ^ 16 * 2 ^ 16) = 2 ^ 16 * (up div 2 ^ 16 mod 2 ^ 16) + up mod 2 ^ 16"
    by (rule mod_mult2_eq)
  have b: "up = up div 2 ^ 32 * 2 ^ 32 + up mod 2 ^ 32" by (rule div_mult_mod_eq [symmetric])
  have c: "lo div 2 ^ 32 = lo div 2 ^ 32 div 2 ^ 16 * 2 ^ 16 + lo div 2 ^ 32 mod 2 ^ 16"
    by (rule div_mult_mod_eq [symmetric])
  have d: "lo div 2 ^ 32 div 2 ^ 16 = lo div 2 ^ 48" by (simp add: div_mult2_eq [symmetric])
  have e: "lo = lo div 2 ^ 32 * 2 ^ 32 + lo mod 2 ^ 32" by (rule div_mult_mod_eq [symmetric])
  have up: "up = up div 2 ^ 32 * 2 ^ 32 + (2 ^ 16 * (up div 2 ^ 16 mod 2 ^ 16) + up mod 2 ^ 16)"
  proof -
    have "up mod 2 ^ 32 = 2 ^ 16 * (up div 2 ^ 16 mod 2 ^ 16) + up mod 2 ^ 16" using a by simp
    with b show ?thesis by linarith
  qed
  have lo: "lo = (lo div 2 ^ 48 * 2 ^ 16 + lo div 2 ^ 32 mod 2 ^ 16) * 2 ^ 32 + lo mod 2 ^ 32"
    by (subst c [unfolded d, symmetric]) (rule e)
  have regroup: "((((A * 16 ^ 4 + B) * 16 ^ 4 + C) * 16 ^ 4 + D) * 16 ^ 4 + E) * 16 ^ 8 + F
      = (A * 2 ^ 32 + (2 ^ 16 * B + C)) * 2 ^ 64 + ((D * 2 ^ 16 + E) * 2 ^ 32 + F)"
    for A B C D E F :: nat by simp
  show ?thesis unfolding regroup up [symmetric] lo [symmetric] ..
qed

lemma hex_value_uuid_groups:
  assumes "up < 2 ^ 64" "lo < (2::nat) ^ 64"
  shows "hex_value (hex_fixed 8 (up div 2 ^ 32) @ hex_fixed 4 (up div 2 ^ 16 mod 2 ^ 16)
           @ hex_fixed 4 (up mod 2 ^ 16) @ hex_fixed 4 (lo div 2 ^ 48)
           @ hex_fixed 4 (lo div 2 ^ 32 mod 2 ^ 16) @ hex_fixed 8 (lo mod 2 ^ 32))
         = up * 2 ^ 64 + lo"
proof -
  have "up div 2 ^ 32 < 16 ^ 8" "lo div 2 ^ 48 < 16 ^ 4"
    using assms by (simp_all add: less_mult_imp_div_less)
  moreover have "n mod 2 ^ 16 mod 16 ^ 4 = n mod 2 ^ 16" "n mod 2 ^ 32 mod 16 ^ 8 = n mod 2 ^ 32"
    for n :: nat by simp_all
  ultimately show ?thesis
    by (simp only: hex_value_append hex_value_fixed length_append length_hex_fixed mod_less
        hex_groups [OF assms, symmetric])
       (simp add: algebra_simps)
qed

text \<open>
  The UUID text has the canonical shape (36 characters, dashes at 8, 13, 18 and 23), and
  its 32 hexadecimal digits read back as the stored value with the sign bit of the upper half
  flipped back: no bit is lost or moved by the six groups.
\<close>

theorem uuid_to_string_roundtrip:
  "length (duckdb_uuid_to_string v) = 36
   \<and> map (nth (duckdb_uuid_to_string v)) [8, 13, 18, 23] = ''----''
   \<and> hex_value (filter (\<lambda>c. c \<noteq> CHR ''-'') (duckdb_uuid_to_string v))
       = unat (upper v XOR push_bit 63 1) * 2 ^ 64 + unat (lower v)"
proof (intro conjI)
  let ?up = "upper v XOR push_bit 63 1" and ?lo = "lower v"
  show "length (duckdb_uuid_to_string v) = 36"
    by (simp add: duckdb_uuid_to_string_def Let_def del: push_bit_eq_mult)
  show "map (nth (duckdb_uuid_to_string v)) [8, 13, 18, 23] = ''----''"
    by (simp add: duckdb_uuid_to_string_def Let_def nth_append)
  have up: "unat ?up < 2 ^ 64" and lo: "unat ?lo < 2 ^ 64"
    using unat_bound [of ?up] unat_bound [of ?lo] by simp_all
  show "hex_value (filter (\<lambda>c. c \<noteq> CHR ''-'') (duckdb_uuid_to_string v)) = unat ?up * 2 ^ 64 + unat ?lo"
    unfolding hex_value_uuid_groups [OF up lo, symmetric]
    by (simp only: duckdb_uuid_to_string_def Let_def filter_append filter_hex_fixed
        and_mask16 and_mask32 unat_drop_bit_div) simp
qed

end
