(* ===== verification/Errors.thy ===== *)
theory Errors
  imports Prelude
begin

text \<open>
  The error layer of \<open>src/src/values.cpp\<close>: DuckDB's error categories, the exception class each
  category is thrown as, the recovery of the category from the prefix of a message, and
  \<open>Exception::getErrorType()\<close>. Every throwing helper is a value of type \<open>throwable\<close>.
\<close>

section \<open>Categories and exception classes\<close>

text \<open>\<open>duckdb_error_type\<close>, with the codes of \<open>DuckDB\ErrorType\<close> in \<open>src/duckdb.stub.php\<close>.\<close>

datatype duckdb_error_type =
    E_Invalid | E_OutOfRange | E_Conversion | E_UnknownType | E_Decimal | E_MismatchType
    | E_DivideByZero | E_ObjectSize | E_InvalidType | E_Serialization | E_Transaction
    | E_NotImplemented | E_Expression | E_Catalog | E_Parser | E_Planner | E_Scheduler
    | E_Executor | E_Constraint | E_Index | E_Stat | E_Connection | E_Syntax | E_Settings
    | E_Binder | E_Network | E_Optimizer | E_NullPointer | E_Io | E_Interrupt | E_Fatal
    | E_Internal | E_InvalidInput | E_OutOfMemory | E_Permission | E_ParameterNotResolved
    | E_ParameterNotAllowed | E_Dependency | E_Http | E_MissingExtension | E_Autoload
    | E_Sequence | E_InvalidConfiguration | E_DataCorruption | E_ResourceInUse

definition error_types :: "duckdb_error_type list" where
  "error_types =
    [E_Invalid, E_OutOfRange, E_Conversion, E_UnknownType, E_Decimal, E_MismatchType,
     E_DivideByZero, E_ObjectSize, E_InvalidType, E_Serialization, E_Transaction,
     E_NotImplemented, E_Expression, E_Catalog, E_Parser, E_Planner, E_Scheduler,
     E_Executor, E_Constraint, E_Index, E_Stat, E_Connection, E_Syntax, E_Settings,
     E_Binder, E_Network, E_Optimizer, E_NullPointer, E_Io, E_Interrupt, E_Fatal,
     E_Internal, E_InvalidInput, E_OutOfMemory, E_Permission, E_ParameterNotResolved,
     E_ParameterNotAllowed, E_Dependency, E_Http, E_MissingExtension, E_Autoload,
     E_Sequence, E_InvalidConfiguration, E_DataCorruption, E_ResourceInUse]"

datatype exception_class =
    ConnectionException | ParserException | BinderException | CatalogException
  | ConstraintException | TransactionException | ConversionException | IOException
  | InterruptedException | InternalException | BaseException

definition duckdb_exception_ce_for_type :: "duckdb_error_type \<Rightarrow> exception_class" where
  "duckdb_exception_ce_for_type t =
     (if t \<in> set [E_Connection] then ConnectionException
      else if t \<in> set [E_Parser, E_Syntax] then ParserException
      else if t \<in> set [E_Binder, E_ParameterNotResolved, E_ParameterNotAllowed] then BinderException
      else if t \<in> set [E_Catalog, E_Dependency] then CatalogException
      else if t \<in> set [E_Constraint] then ConstraintException
      else if t \<in> set [E_Transaction, E_Sequence] then TransactionException
      else if t \<in> set [E_Conversion, E_OutOfRange, E_MismatchType,
           E_DivideByZero, E_Decimal, E_InvalidType, E_UnknownType] then ConversionException
      else if t \<in> set [E_Io, E_Network, E_Http,
           E_Permission, E_MissingExtension, E_Autoload] then IOException
      else if t \<in> set [E_Interrupt] then InterruptedException
      else if t \<in> set [E_Fatal, E_Internal, E_NullPointer, E_Serialization] then InternalException
      else BaseException)"

text \<open>The position in the enumeration is the numeric code.\<close>

fun index_of :: "'a \<Rightarrow> 'a list \<Rightarrow> nat" where
  "index_of x [] = 0"
| "index_of x (y # ys) = (if x = y then 0 else Suc (index_of x ys))"

definition error_code :: "duckdb_error_type \<Rightarrow> int" where
  "error_code t = int (index_of t error_types)"

text \<open>
  What the driver raises: its own exceptions (class, message, code) and the PHP core errors
  of \<open>zend_value_error\<close>, \<open>zend_type_error\<close>, \<open>zend_throw_error\<close> and their
  \<open>zend_argument_\<close> variants, which carry the argument's number.
\<close>

datatype throwable =
    DuckException exception_class string int
  | ValueError string
  | TypeError string
  | PhpError string
  | ArgValueError nat string
  | ArgTypeError nat string

fun throwable_message :: "throwable \<Rightarrow> string" where
  "throwable_message (DuckException c m k) = m"
| "throwable_message (ValueError m) = m"
| "throwable_message (TypeError m) = m"
| "throwable_message (PhpError m) = m"
| "throwable_message (ArgValueError n m) = m"
| "throwable_message (ArgTypeError n m) = m"

definition message_or_unknown :: "string option \<Rightarrow> string" where
  "message_or_unknown msg = (case msg of None \<Rightarrow> ''Unknown DuckDB error'' | Some m \<Rightarrow> m)"

definition duckdb_throw_error :: "duckdb_error_type \<Rightarrow> string option \<Rightarrow> throwable" where
  "duckdb_throw_error t msg =
     DuckException (duckdb_exception_ce_for_type t) (message_or_unknown msg) (error_code t)"

definition duckdb_throw_msg :: "string option \<Rightarrow> throwable" where
  "duckdb_throw_msg msg = DuckException BaseException (message_or_unknown msg) 0"

section \<open>Recovering the category from a message\<close>

text \<open>\<open>strncmp(s, p, strlen(p)) == 0\<close>.\<close>

fun starts_with :: "string \<Rightarrow> string \<Rightarrow> bool" where
  "starts_with [] s = True"
| "starts_with (c # p) [] = False"
| "starts_with (c # p) (d # s) = (c = d \<and> starts_with p s)"

definition prefixes :: "(string \<times> duckdb_error_type) list" where
  "prefixes =
    [(''Parser Error:'', E_Parser),
     (''Syntax Error:'', E_Syntax),
     (''Binder Error:'', E_Binder),
     (''Catalog Error:'', E_Catalog),
     (''Constraint Error:'', E_Constraint),
     (''Transaction Error:'', E_Transaction),
     (''TransactionContext Error:'', E_Transaction),
     (''Sequence Error:'', E_Sequence),
     (''Conversion Error:'', E_Conversion),
     (''Out of Range Error:'', E_OutOfRange),
     (''Type Mismatch Error:'', E_MismatchType),
     (''Divide By Zero Error:'', E_DivideByZero),
     (''Invalid Input Error:'', E_InvalidInput),
     (''Invalid Configuration Error:'', E_InvalidConfiguration),
     (''Data Corruption Error:'', E_DataCorruption),
     (''Resource In Use Error:'', E_ResourceInUse),
     (''Not implemented Error:'', E_NotImplemented),
     (''IO Error:'', E_Io),
     (''HTTP Error:'', E_Http),
     (''Network Error:'', E_Network),
     (''Permission Error:'', E_Permission),
     (''Missing Extension Error:'', E_MissingExtension),
     (''Autoloading Error:'', E_Autoload),
     (''Interrupted Error:'', E_Interrupt),
     (''INTERRUPT Error:'', E_Interrupt),
     (''INTERNAL Error:'', E_Internal),
     (''FATAL Error:'', E_Fatal),
     (''Invalid Error:'', E_InvalidInput)]"

fun first_prefix :: "(string \<times> duckdb_error_type) list \<Rightarrow> string \<Rightarrow> duckdb_error_type" where
  "first_prefix [] msg = E_Invalid"
| "first_prefix ((p, t) # ps) msg = (if starts_with p msg then t else first_prefix ps msg)"

definition duckdb_classify_error_message :: "string option \<Rightarrow> duckdb_error_type" where
  "duckdb_classify_error_message msg =
     (case msg of None \<Rightarrow> E_Invalid | Some m \<Rightarrow> first_prefix prefixes m)"

definition duckdb_throw_prepare_error :: "string option \<Rightarrow> throwable" where
  "duckdb_throw_prepare_error msg = duckdb_throw_error (duckdb_classify_error_message msg) msg"

text \<open>\<open>duckdb_throw_result_error\<close>: the message and the category the result carries.\<close>

definition duckdb_throw_result_error :: "string option \<Rightarrow> duckdb_error_type \<Rightarrow> throwable" where
  "duckdb_throw_result_error err t =
     duckdb_throw_error t (Some (case err of None \<Rightarrow> ''Query failed'' | Some m \<Rightarrow> m))"

text \<open>\<open>Exception::getErrorType()\<close> reads the code back; \<open>None\<close> is PHP null.\<close>

definition getErrorType :: "int \<Rightarrow> duckdb_error_type option" where
  "getErrorType code =
     (if code < 0 \<or> code > error_code E_ResourceInUse then None
      else Some (error_types ! nat code))"

section \<open>The codes and the prefixes are unambiguous\<close>

lemma distinct_error_types: "distinct error_types"
  unfolding error_types_def by simp

lemma in_error_types: "t \<in> set error_types"
  unfolding error_types_def by (cases t) simp_all

lemma length_error_types: "length error_types = 45"
  unfolding error_types_def by simp

lemma index_of_less: "x \<in> set ys \<Longrightarrow> index_of x ys < length ys \<and> ys ! index_of x ys = x"
  by (induction ys) auto

lemma index_of_nth: "distinct ys \<Longrightarrow> i < length ys \<Longrightarrow> index_of (ys ! i) ys = i"
  by (induction ys arbitrary: i) (auto simp: nth_Cons split: nat.splits)

lemma error_code_range: "0 \<le> error_code t \<and> error_code t < 45"
  using index_of_less [OF in_error_types [of t]] by (simp add: error_code_def length_error_types)

lemma nth_error_code: "error_types ! nat (error_code t) = t"
  using index_of_less [OF in_error_types [of t]] by (simp add: error_code_def)

lemma error_code_last: "error_code E_ResourceInUse = 44"
  by (simp add: error_code_def error_types_def)

text \<open>
  \<open>getErrorType()\<close> inverts the code an exception was thrown with: it names a category
  exactly when the code is that category's, and is null for every other integer.
\<close>

theorem getErrorType_iff: "getErrorType code = Some t \<longleftrightarrow> code = error_code t"
proof
  assume r: "getErrorType code = Some t"
  then have b: "0 \<le> code" "code \<le> 44" and t: "t = error_types ! nat code"
    by (auto simp: getErrorType_def error_code_last split: if_splits)
  have "index_of t error_types = nat code"
    unfolding t by (rule index_of_nth [OF distinct_error_types]) (use b in \<open>simp add: length_error_types\<close>)
  then show "code = error_code t" using b by (simp add: error_code_def)
next
  assume "code = error_code t"
  then show "getErrorType code = Some t"
    using error_code_range [of t] nth_error_code [of t] by (simp add: getErrorType_def error_code_last)
qed

lemma starts_with_iff: "starts_with p s \<longleftrightarrow> (\<exists>r. s = p @ r)"
  by (induction p s rule: starts_with.induct) auto

lemma starts_with_comparable:
  "starts_with p m \<Longrightarrow> starts_with q m \<Longrightarrow> starts_with p q \<or> starts_with q p"
  unfolding starts_with_iff by (metis append_eq_append_conv2)

definition prefix_free :: "(string \<times> 'a) list \<Rightarrow> bool" where
  "prefix_free ps \<longleftrightarrow>
     list_all (\<lambda>(p, t). list_all (\<lambda>(q, u). starts_with p q \<longrightarrow> p = q \<and> t = u) ps) ps"

lemma prefix_free_prefixes: "prefix_free prefixes"
  unfolding prefix_free_def by code_simp

lemma prefix_freeD:
  "prefix_free ps \<Longrightarrow> (p, t) \<in> set ps \<Longrightarrow> (q, u) \<in> set ps \<Longrightarrow> starts_with p m \<Longrightarrow> starts_with q m \<Longrightarrow> t = u"
  using starts_with_comparable [of p m q] by (fastforce simp: prefix_free_def list_all_iff)

lemma first_prefix_hit:
  "(p, t) \<in> set ps \<Longrightarrow> starts_with p m \<Longrightarrow>
     \<exists>q. (q, first_prefix ps m) \<in> set ps \<and> starts_with q m"
  by (induction ps m rule: first_prefix.induct) auto

text \<open>
  The order of the prefix table does not matter: whichever entry's prefix a message
  starts with, its category is the one returned, since no prefix extends another one.
\<close>

theorem classify_order_independent:
  assumes "(p, t) \<in> set prefixes" and "starts_with p m"
  shows "duckdb_classify_error_message (Some m) = t"
proof -
  have "\<exists>q. (q, first_prefix prefixes m) \<in> set prefixes \<and> starts_with q m"
    using assms by (rule first_prefix_hit)
  then have "first_prefix prefixes m = t"
    using prefix_freeD [OF prefix_free_prefixes] assms by blast
  then show ?thesis by (simp add: duckdb_classify_error_message_def)
qed

theorem classify_order_independent_witness:
  "duckdb_classify_error_message (Some ''INTERRUPT Error: Interrupted!'') = E_Interrupt"
  by (rule classify_order_independent [of "''INTERRUPT Error:''"])
     (simp_all add: prefixes_def)

end
