(* ===== verification/Bignum.thy ===== *)
theory Bignum
  imports Prelude Errors
begin

text \<open>
  \<open>src/src/bignum_decode.cpp\<close>: a BIGNUM cell is a three-byte header (sign bit and 23-bit
  payload length, complemented for a negative number) and a big-endian magnitude. The decoder
  checks the header, converts the magnitude to base \<open>10 ^ 9\<close> limbs in 32-bit and 64-bit
  arithmetic, computes the output length, and fills the output buffer from its end.
\<close>

section \<open>The cell\<close>

text \<open>
  A \<open>duckdb_string_t\<close>: its bytes, or a null data pointer with the length it claims.
\<close>

datatype string_t = Str "u8 list" | Null_str nat

fun string_t_length :: "string_t \<Rightarrow> nat" where
  "string_t_length (Str bs) = length bs"
| "string_t_length (Null_str n) = n"

fun string_t_data :: "string_t \<Rightarrow> u8 list option" where
  "string_t_data (Str bs) = Some bs"
| "string_t_data (Null_str n) = None"

text \<open>
  Limits of the platform the source reads from \<open>std::numeric_limits<size_t>\<close>,
  \<open>std::vector::max_size\<close> and \<open>ZSTR_MAX_LEN\<close>.
\<close>

record platform =
  size_max :: nat
  vector_max :: nat
  zstr_max_len :: nat

definition header_size :: nat where "header_size = 3"
definition maximum_payload :: nat where "maximum_payload = 8388607"

definition supported_format :: "string option \<Rightarrow> bool" where
  "supported_format version =
     (case version of None \<Rightarrow> False
      | Some v \<Rightarrow> starts_with ''v2.0.'' v \<or> starts_with ''2.0.'' v)"

definition magnitude_byte :: "bool \<Rightarrow> u8 \<Rightarrow> u8" where
  "magnitude_byte negative b = (if negative then NOT b else b)"

definition declared_length :: "bool \<Rightarrow> u8 list \<Rightarrow> u32" where
  "declared_length negative data =
     push_bit 16 (ucast (magnitude_byte negative (data ! 0) AND 0x7F))
     OR push_bit 8 (ucast (magnitude_byte negative (data ! 1)))
     OR ucast (magnitude_byte negative (data ! 2))"

section \<open>Base conversion\<close>

text \<open>The inner loop: every limb times \<open>2 ^ 32\<close> plus the carry \<open>hi\<close>.\<close>

fun mul_add_limbs :: "u32 list \<Rightarrow> u32 \<Rightarrow> u32 list \<times> u32" where
  "mul_add_limbs [] hi = ([], hi)"
| "mul_add_limbs (digit # digits) hi =
     (let tmp = push_bit 32 (ucast digit) OR ucast hi :: u64;
          hi' = ucast (tmp div 1000000000) :: u32;
          digit' = ucast (tmp - 1000000000 * ucast hi') :: u32;
          (digits', carry) = mul_add_limbs digits hi'
      in (digit' # digits', carry))"

text \<open>\<open>while (hi) { digits.push_back(hi % base); hi /= base; }\<close>\<close>

function push_carry :: "u32 \<Rightarrow> u32 list" where
  "push_carry hi = (if hi = 0 then [] else (hi mod 1000000000) # push_carry (hi div 1000000000))"
  by pat_completeness auto
termination
  by (relation "measure unat") (auto simp: unat_div unat_gt_0 intro: div_less_dividend)

declare push_carry.simps [simp del]

text \<open>The big-endian word at \<open>i\<close> of the virtually left-padded payload.\<close>

definition payload_word :: "bool \<Rightarrow> u8 list \<Rightarrow> nat \<Rightarrow> nat \<Rightarrow> u32" where
  "payload_word negative data padding i =
     foldl (\<lambda>hi j. let offset = i + j
                   in if offset \<ge> padding
                      then hi OR push_bit (8 * (3 - j))
                             (ucast (magnitude_byte negative (data ! (header_size + offset - padding))))
                      else hi)
       0 [0, 1, 2, 3]"

definition feed_word :: "u32 list \<Rightarrow> u32 \<Rightarrow> u32 list" where
  "feed_word digits hi = (let (digits', carry) = mul_add_limbs digits hi in digits' @ push_carry carry)"

definition convert_payload :: "bool \<Rightarrow> u8 list \<Rightarrow> nat \<Rightarrow> u32 list" where
  "convert_payload negative data payload =
     (let padding = (4 - payload mod 4) mod 4;
          padded_size = payload + padding;
          digits = foldl (\<lambda>ds k. feed_word ds (payload_word negative data padding (4 * k)))
                     [] [0..<padded_size div 4]
      in if digits = [] then [0] else digits)"

section \<open>Filling the buffer\<close>

text \<open>\<open>for (top = digits.back(); top >= 10; top /= 10) ++leading_digits\<close>, from 1.\<close>

function leading_digits :: "u32 \<Rightarrow> nat" where
  "leading_digits t = (if t \<ge> 10 then Suc (leading_digits (t div 10)) else 1)"
  by pat_completeness auto
termination
  by (relation "measure unat") (auto simp: unat_div word_le_nat_alt intro!: div_less_dividend)

declare leading_digits.simps [simp del]

text \<open>
  Writes go to \<open>buffer[--position]\<close>, so the text written so far is the suffix of the buffer
  from \<open>position\<close>; each write puts one character in front of it.
\<close>

fun put_digits :: "nat \<Rightarrow> u32 \<Rightarrow> string \<Rightarrow> string" where
  "put_digits 0 remain suffix = suffix"
| "put_digits (Suc j) remain suffix =
     put_digits j (remain div 10) (digit_char (unat (remain mod 10)) # suffix)"

function put_leading :: "u32 \<Rightarrow> string \<Rightarrow> string" where
  "put_leading remain suffix =
     (let suffix' = digit_char (unat (remain mod 10)) # suffix; remain' = remain div 10
      in if remain' = 0 then suffix' else put_leading remain' suffix')"
  by pat_completeness auto
termination
proof (relation "measure (\<lambda>(r, s). unat r)", simp)
  fix remain x :: u32 and suffix xa :: string
  assume "x = remain div 10" "x \<noteq> 0"
  then have "unat remain div 10 \<noteq> 0" by (metis unat_div unat_eq_zero unat_numeral_10)
  then show "((x, xa), remain, suffix) \<in> measure (\<lambda>(r, s). unat r)"
    using \<open>x = remain div 10\<close> by (simp add: unat_div)
qed

declare put_leading.simps [simp del]

definition output_length :: "bool \<Rightarrow> u32 list \<Rightarrow> nat" where
  "output_length negative digits =
     (length digits - 1) * 9 + (leading_digits (last digits) + (if negative then 1 else 0))"

definition fill_buffer :: "bool \<Rightarrow> u32 list \<Rightarrow> string" where
  "fill_buffer negative digits =
     (let groups = foldl (\<lambda>s d. put_digits 9 d s) [] (butlast digits);
          body = put_leading (last digits) groups
      in if negative then CHR ''-'' # body else body)"

section \<open>The decoder\<close>

definition invalid_bignum :: "string \<Rightarrow> throwable" where
  "invalid_bignum msg = duckdb_throw_msg (Some msg)"

text \<open>
  \<open>duckdb_decode_bignum\<close>. \<open>cells\<close> is the vector's data (\<open>None\<close> for a null pointer), the result
  the PHP string or the exception. A failed native allocation is not modelled.
\<close>

definition duckdb_decode_bignum ::
  "platform \<Rightarrow> string option \<Rightarrow> (nat \<Rightarrow> string_t) option \<Rightarrow> nat \<Rightarrow> (throwable, string) result" where
  "duckdb_decode_bignum pf version cells row =
     rbind (guard (supported_format version)
              (invalid_bignum ''BIGNUM decoding requires a validated DuckDB 2.0.x storage format'')) (\<lambda>_.
     case cells of None \<Rightarrow> Inl (invalid_bignum ''BIGNUM vector has no data'') | Some cs \<Rightarrow>
     (let cell = cs row; len = string_t_length cell in
      rbind (guard (\<not> (len \<le> header_size \<or> len - header_size > maximum_payload))
               (invalid_bignum ''Invalid BIGNUM storage length'')) (\<lambda>_.
      case string_t_data cell of None \<Rightarrow> Inl (invalid_bignum ''BIGNUM cell has no data'') | Some data \<Rightarrow>
      (let negative = (data ! 0 AND 0x80 = 0);
           payload = len - header_size;
           first_zero = (magnitude_byte negative (data ! 3) = 0)
       in rbind (guard (\<not> (unat (declared_length negative data) \<noteq> payload
                          \<or> (payload > 1 \<and> first_zero)
                          \<or> (negative \<and> payload = 1 \<and> first_zero)))
                (invalid_bignum ''Invalid BIGNUM header or noncanonical payload'')) (\<lambda>_.
          rbind (guard (\<not> payload > (size_max pf - 28) div 8)
                (invalid_bignum ''BIGNUM conversion size overflows'')) (\<lambda>_.
          rbind (guard (\<not> (payload * 8 + 28) div 29 > vector_max pf)
                (invalid_bignum ''BIGNUM conversion exceeds native allocation size'')) (\<lambda>_.
          let digits = convert_payload negative data payload;
              prefix = leading_digits (last digits) + (if negative then 1 else 0)
          in rbind (guard (\<not> length digits - 1 > (zstr_max_len pf - prefix) div 9)
                (invalid_bignum ''BIGNUM decimal string exceeds PHP allocation size'')) (\<lambda>_.
             Inr (fill_buffer negative digits)))))))))"

section \<open>The limbs stand for the magnitude\<close>

definition be_value :: "u8 list \<Rightarrow> nat" where
  "be_value bs = foldl (\<lambda>a b. a * 256 + unat b) 0 bs"

fun limbs10_value :: "u32 list \<Rightarrow> nat" where
  "limbs10_value [] = 0"
| "limbs10_value (d # ds) = unat d + 10 ^ 9 * limbs10_value ds"

text \<open>Limbs below \<open>10 ^ 9\<close> with a nonzero top limb.\<close>

definition limbs10_ok :: "u32 list \<Rightarrow> bool" where
  "limbs10_ok ds \<longleftrightarrow> (\<forall>d \<in> set ds. unat d < 10 ^ 9) \<and> (ds \<noteq> [] \<longrightarrow> last ds \<noteq> 0)"

lemma foldl_be_value: "foldl (\<lambda>a b. a * 256 + unat b) k bs = k * 256 ^ length bs + be_value bs"
proof (induction bs rule: rev_induct)
  case Nil
  then show ?case by (simp add: be_value_def)
next
  case (snoc b bs)
  have "be_value (bs @ [b]) = be_value bs * 256 + unat b" by (simp add: be_value_def)
  then show ?case using snoc by (simp add: algebra_simps)
qed

lemma be_value_append [simp]: "be_value (as @ bs) = be_value as * 256 ^ length bs + be_value bs"
  by (metis be_value_def foldl_append foldl_be_value)

lemma be_value_Nil [simp]: "be_value [] = 0"
  by (simp add: be_value_def)

lemma be_value_single [simp]: "be_value [b] = unat b"
  by (simp add: be_value_def)

lemma be_value_Cons: "be_value (b # bs) = unat b * 256 ^ length bs + be_value bs"
  using be_value_append [of "[b]" bs] by simp

lemma be_value_less: "be_value bs < 256 ^ length bs"
proof (induction bs rule: rev_induct)
  case Nil
  then show ?case by simp
next
  case (snoc b bs)
  have "unat b < 256" using unat_bound [of b] by simp
  then show ?case using snoc by simp
qed

lemma be_value_replicate_0 [simp]: "be_value (replicate n 0) = 0"
  by (induction n) (simp_all add: be_value_Cons)

lemma limbs10_value_append:
  "limbs10_value (as @ bs) = limbs10_value as + 10 ^ (9 * length as) * limbs10_value bs"
  by (induction as) (simp_all add: algebra_simps power_add)

lemma mul_add_arith:
  assumes "V + 10 ^ (9 * n) * C = L * 2 ^ 32 + T div 10 ^ 9"
  shows "(T mod 10 ^ 9 + 10 ^ 9 * V) + 10 ^ (9 * Suc n) * C = 10 ^ 9 * L * 2 ^ 32 + (T :: nat)"
proof -
  have "(T mod 10 ^ 9 + 10 ^ 9 * V) + 10 ^ (9 * Suc n) * C
        = T mod 10 ^ 9 + 10 ^ 9 * (V + 10 ^ (9 * n) * C)"
    by (simp add: algebra_simps power_add)
  also have "\<dots> = 10 ^ 9 * L * 2 ^ 32 + (T mod 10 ^ 9 + 10 ^ 9 * (T div 10 ^ 9))"
    unfolding assms by (simp only: distrib_left mult.assoc add.assoc add.left_commute)
  also have "T mod 10 ^ 9 + 10 ^ 9 * (T div 10 ^ 9) = T" by (rule mod_mult_div_eq)
  finally show ?thesis .
qed

lemma mul_add_digit:
  fixes digit hi :: u32
  assumes "unat digit < 10 ^ 9"
  defines "tmp \<equiv> push_bit 32 (ucast digit) OR ucast hi :: u64"
  defines "hi' \<equiv> ucast (tmp div 1000000000) :: u32"
  shows "unat tmp = unat digit * 2 ^ 32 + unat hi"
    and "unat hi' = unat tmp div 10 ^ 9"
    and "unat (ucast (tmp - 1000000000 * ucast hi') :: u32) = unat tmp mod 10 ^ 9"
proof -
  have d: "unat (ucast digit :: u64) = unat digit"
    using unat_bound [of digit] by (simp add: unsigned_ucast_eq take_bit_nat_eq_self)
  show t: "unat tmp = unat digit * 2 ^ 32 + unat hi"
    unfolding tmp_def using unat_shift_or [of "ucast digit" hi] unat_bound [of digit] d by simp
  have "unat tmp div 1000000000 < 2 ^ 32"
    using t assms(1) unat_bound [of hi] by (simp add: less_mult_imp_div_less)
  then show h: "unat hi' = unat tmp div 10 ^ 9"
    unfolding hi'_def by (subst unat_ucast_small) (simp_all add: unat_div)
  have "tmp div 1000000000 = ucast hi'"
  proof (rule unat_eqD)
    have "unat (ucast hi' :: u64) = unat hi'"
      using unat_bound [of hi'] by (simp add: unsigned_ucast_eq take_bit_nat_eq_self)
    then show "unat (tmp div 1000000000) = unat (ucast hi' :: u64)" using h by (simp add: unat_div)
  qed
  then have "tmp - 1000000000 * ucast hi' = tmp mod 1000000000"
    by (metis minus_mult_div_eq_mod)
  then show "unat (ucast (tmp - 1000000000 * ucast hi') :: u32) = unat tmp mod 10 ^ 9"
    by (subst unat_ucast_small) (simp_all add: unat_mod)
qed

lemma mul_add_limbs_correct:
  "\<forall>d \<in> set ds. unat d < 10 ^ 9 \<Longrightarrow> mul_add_limbs ds hi = (ds', c) \<Longrightarrow>
     limbs10_value ds' + 10 ^ (9 * length ds) * unat c = limbs10_value ds * 2 ^ 32 + unat hi
     \<and> (\<forall>d \<in> set ds'. unat d < 10 ^ 9) \<and> length ds' = length ds"
proof (induction ds arbitrary: hi ds' c)
  case Nil
  then show ?case by simp
next
  case (Cons digit ds)
  define tmp where "tmp = (push_bit 32 (ucast digit) OR ucast hi :: u64)"
  define hi' where "hi' = (ucast (tmp div 1000000000) :: u32)"
  define dg where "dg = (ucast (tmp - 1000000000 * ucast hi') :: u32)"
  have dig: "unat digit < 10 ^ 9" using Cons.prems(1) by simp
  note md = mul_add_digit [OF dig, of hi, folded tmp_def, folded hi'_def, folded dg_def]
  obtain es where rec: "mul_add_limbs ds hi' = (es, c)" and ds': "ds' = dg # es"
    using Cons.prems(2) by (auto simp: Let_def tmp_def hi'_def dg_def split: prod.splits)
  have IH: "limbs10_value es + 10 ^ (9 * length ds) * unat c = limbs10_value ds * 2 ^ 32 + unat hi'"
    "\<forall>d \<in> set es. unat d < 10 ^ 9" "length es = length ds"
    using Cons.IH [OF _ rec] Cons.prems(1) by auto
  have "(unat tmp mod 10 ^ 9 + 10 ^ 9 * limbs10_value es) + 10 ^ (9 * Suc (length ds)) * unat c
        = 10 ^ 9 * limbs10_value ds * 2 ^ 32 + unat tmp"
    using IH(1) unfolding md(2) by (rule mul_add_arith)
  then show ?case using IH(2,3) md unfolding ds' by (simp add: algebra_simps)
qed

lemma push_carry_correct:
  "limbs10_value (push_carry hi) = unat hi \<and> limbs10_ok (push_carry hi)
   \<and> (push_carry hi = [] \<longleftrightarrow> hi = 0)"
proof (induction hi rule: push_carry.induct)
  case (1 hi)
  show ?case
  proof (cases "hi = 0")
    case True
    then show ?thesis by (subst (1 2 3) push_carry.simps) (simp add: limbs10_ok_def)
  next
    case False
    let ?q = "hi div 1000000000"
    have e: "push_carry hi = (hi mod 1000000000) # push_carry ?q"
      using False by (subst push_carry.simps) simp
    have IH: "limbs10_value (push_carry ?q) = unat ?q" "limbs10_ok (push_carry ?q)"
      "push_carry ?q = [] \<longleftrightarrow> ?q = 0" using "1.IH" False by auto
    have l: "last (push_carry hi) \<noteq> 0"
    proof (cases "?q = 0")
      case True
      then have "hi mod 1000000000 = hi" by (metis add_0 div_mult_mod_eq mult_zero_left)
      then show ?thesis using True False IH(3) by (simp add: e)
    next
      case qn: False
      then show ?thesis using IH by (simp add: e limbs10_ok_def)
    qed
    have "unat (hi mod 1000000000) < 10 ^ 9" by (simp add: unat_mod)
    then show ?thesis using IH l False
      by (simp only: e limbs10_ok_def limbs10_value.simps) (simp add: unat_mod unat_div)
  qed
qed

text \<open>The top limb is nonzero exactly when the value needs that many limbs.\<close>

lemma limbs10_value_less: "\<forall>d \<in> set ds. unat d < 10 ^ 9 \<Longrightarrow> limbs10_value ds < 10 ^ (9 * length ds)"
proof (induction ds)
  case Nil
  then show ?case by simp
next
  case (Cons d ds)
  then have "limbs10_value ds + 1 \<le> 10 ^ (9 * length ds)" "unat d < 10 ^ 9" by auto
  then have "10 ^ 9 * (limbs10_value ds + 1) \<le> 10 ^ 9 * 10 ^ (9 * length ds)" by (intro mult_le_mono2)
  then show ?case using \<open>unat d < 10 ^ 9\<close> by (simp add: power_add)
qed

lemma last_nonzero_iff:
  assumes "\<forall>d \<in> set ds. unat d < 10 ^ 9" "ds \<noteq> []"
  shows "last ds \<noteq> 0 \<longleftrightarrow> 10 ^ (9 * (length ds - 1)) \<le> limbs10_value ds"
proof -
  have v: "limbs10_value ds = limbs10_value (butlast ds) + 10 ^ (9 * (length ds - 1)) * unat (last ds)"
    using limbs10_value_append [of "butlast ds" "[last ds]"] assms(2) by simp
  have "limbs10_value (butlast ds) < 10 ^ (9 * (length ds - 1))"
    using limbs10_value_less [of "butlast ds"] assms(1) by (auto dest: in_set_butlastD)
  moreover have "10 ^ (9 * (length ds - 1)) \<le> 10 ^ (9 * (length ds - 1)) * unat (last ds)"
    if "last ds \<noteq> 0"
    using that by (simp add: Suc_le_eq unat_gt_0)
  ultimately show ?thesis unfolding v by (cases "last ds = 0") (simp, linarith)
qed

lemma feed_word_correct:
  assumes "limbs10_ok ds"
  shows "limbs10_value (feed_word ds w) = limbs10_value ds * 2 ^ 32 + unat w"
    and "limbs10_ok (feed_word ds w)"
proof -
  obtain es c where m: "mul_add_limbs ds w = (es, c)" by fastforce
  have es: "limbs10_value es + 10 ^ (9 * length ds) * unat c = limbs10_value ds * 2 ^ 32 + unat w"
    "\<forall>d \<in> set es. unat d < 10 ^ 9" "length es = length ds"
    using mul_add_limbs_correct [OF _ m] assms by (auto simp: limbs10_ok_def)
  have pc: "limbs10_value (push_carry c) = unat c" "limbs10_ok (push_carry c)"
    "push_carry c = [] \<longleftrightarrow> c = 0" using push_carry_correct [of c] by auto
  have f: "feed_word ds w = es @ push_carry c" by (simp add: feed_word_def m)
  show v: "limbs10_value (feed_word ds w) = limbs10_value ds * 2 ^ 32 + unat w"
    using es pc(1) by (simp add: f limbs10_value_append)
  show "limbs10_ok (feed_word ds w)"
  proof (cases "c = 0 \<and> es \<noteq> []")
    case True
    then have "ds \<noteq> []" using es(3) by auto
    have "10 ^ (9 * (length ds - 1)) \<le> limbs10_value ds"
      using assms \<open>ds \<noteq> []\<close> last_nonzero_iff [of ds] by (simp add: limbs10_ok_def)
    also have "\<dots> \<le> limbs10_value es" using es(1) True by simp
    finally have "last es \<noteq> 0" using last_nonzero_iff [OF es(2)] True es(3) by simp
    then show ?thesis using es(2) pc(3) True by (simp add: f limbs10_ok_def)
  next
    case False
    then show ?thesis using es(2) pc(2,3) by (auto simp: f limbs10_ok_def)
  qed
qed

section \<open>The payload words\<close>

text \<open>The magnitude bytes of the payload, and the same with the virtual leading zeros.\<close>

definition payload_bytes :: "u8 list \<Rightarrow> u8 list" where
  "payload_bytes data = map (magnitude_byte (data ! 0 AND 0x80 = 0)) (drop header_size data)"

definition padded_bytes :: "nat \<Rightarrow> u8 list \<Rightarrow> u8 list" where
  "padded_bytes padding bs = replicate padding 0 @ bs"

lemma unat_or_byte:
  fixes hi :: u32 and b :: u8
  assumes "unat hi mod 2 ^ (n + 8) = 0" "n + 8 \<le> 32"
  shows "unat (hi OR push_bit n (ucast b)) = unat hi + unat b * 2 ^ n"
proof -
  have b8: "unat b < 2 ^ 8" using unat_bound [of b] by simp
  have "unat b * 2 ^ n < 2 ^ 8 * 2 ^ n" using b8 by (intro mult_strict_right_mono) auto
  also have "\<dots> = (2::nat) ^ (n + 8)" by (simp add: power_add)
  finally have lt: "unat b * 2 ^ n < 2 ^ (n + 8)" .
  also have "(2::nat) ^ (n + 8) \<le> 2 ^ 32" using assms(2) by (intro power_increasing) auto
  finally have lt32: "unat b * 2 ^ n < 2 ^ 32" .
  have "unat (ucast b :: u32) = unat b"
    using b8 by (simp add: unsigned_ucast_eq take_bit_nat_eq_self)
  then have p: "unat (push_bit n (ucast b) :: u32) = unat b * 2 ^ n"
    using lt32 by (subst unat_push_bit_small) simp_all
  have "hi OR push_bit n (ucast b) = hi + push_bit n (ucast b)"
  proof (rule disjunctive_add [symmetric])
    fix k
    show "\<not> bit hi k \<or> \<not> bit (push_bit n (ucast b)) k"
    proof (cases "k < n + 8")
      case True
      have "take_bit (n + 8) (unat hi) = 0" using assms(1) by (simp add: take_bit_eq_mod)
      then have "\<not> bit (unat hi) k" 
        using True bit_take_bit_iff [of "n + 8" "unat hi" k] by simp
      then show ?thesis by (simp add: bit_unsigned_iff)
    next
      case False
      then show ?thesis by (auto simp: bit_push_bit_iff bit_ucast_iff dest: bit_imp_le_length)
    qed
  qed
  moreover have "unat hi + unat b * 2 ^ n < 2 ^ 32"
  proof -
    obtain q where q: "unat hi = 2 ^ (n + 8) * q" using assms(1) by (auto simp: mod_eq_0_iff_dvd elim: dvdE)
    obtain r where r: "(2::nat) ^ 32 = 2 ^ (n + 8) * r"
      using assms(2) by (metis le_add_diff_inverse power_add)
    have "unat hi < 2 ^ 32" using unat_bound [of hi] by simp
    then have "q < r" unfolding q r by simp
    then have "2 ^ (n + 8) * (q + 1) \<le> 2 ^ (n + 8) * r" by (intro mult_le_mono2) simp
    then show ?thesis using lt unfolding q r by (simp add: algebra_simps)
  qed
  ultimately show ?thesis by (simp add: unat_word_ariths p)
qed

lemma unat_or_magnitude:
  fixes hi :: u32
  assumes "unat hi mod 2 ^ (n + 8) = 0" "n + 8 \<le> 32"
  shows "unat (hi OR push_bit n (ucast (b :: u8))) mod 2 ^ n = 0"
proof -
  have "(2::nat) ^ n dvd unat hi"
    using assms(1) by (metis dvd_mult_left mod_eq_0_iff_dvd power_add)
  then show ?thesis by (simp add: unat_or_byte [OF assms] mod_eq_0_iff_dvd)
qed

text \<open>Four bytes, the most significant first, assembled by shifting into a 32-bit word.\<close>

lemma unat_assemble4:
  "unat ((((0 OR push_bit 24 (ucast b0)) OR push_bit 16 (ucast b1)) OR push_bit 8 (ucast b2))
         OR push_bit 0 (ucast b3) :: u32) = be_value [b0, b1, b2, b3 :: u8]"
proof -
  define w0 where "w0 = (0 OR push_bit 24 (ucast b0) :: u32)"
  define w1 where "w1 = w0 OR push_bit 16 (ucast b1)"
  define w2 where "w2 = w1 OR push_bit 8 (ucast b2)"
  have 0: "unat w0 = unat b0 * 2 ^ 24" "unat w0 mod 2 ^ 24 = 0"
    unfolding w0_def using unat_or_byte [of 0 24 b0] by simp_all
  have 1: "unat w1 = unat w0 + unat b1 * 2 ^ 16" "unat w1 mod 2 ^ 16 = 0"
    unfolding w1_def using unat_or_byte [of w0 16 b1] unat_or_magnitude [of w0 16 b1] 0(2) by simp_all
  have 2: "unat w2 = unat w1 + unat b2 * 2 ^ 8" "unat w2 mod 2 ^ 8 = 0"
    unfolding w2_def using unat_or_byte [of w1 8 b2] unat_or_magnitude [of w1 8 b2] 1(2) by simp_all
  have 3: "unat (w2 OR push_bit 0 (ucast b3)) = unat w2 + unat b3"
    using unat_or_byte [of w2 0 b3] 2(2) by simp
  show ?thesis using 0(1) 1(1) 2(1) 3
    unfolding w0_def w1_def w2_def by (simp add: be_value_def)
qed

lemma payload_word_correct:
  assumes len: "length data = header_size + payload" and neg: "negative = (data ! 0 AND 0x80 = 0)"
    and i: "i + 4 \<le> padding + payload"
  shows "unat (payload_word negative data padding i)
           = be_value (take 4 (drop i (padded_bytes padding (payload_bytes data))))"
proof -
  let ?bs = "padded_bytes padding (payload_bytes data)"
  have lb: "length ?bs = padding + payload"
    using len by (simp add: padded_bytes_def payload_bytes_def)
  have b: "?bs ! k = (if k \<ge> padding then magnitude_byte negative (data ! (header_size + k - padding)) else 0)"
    if "k < padding + payload" for k
    using that len by (auto simp: padded_bytes_def payload_bytes_def nth_append neg)
  have f: "payload_word negative data padding i
      = foldl (\<lambda>hi j. hi OR push_bit (8 * (3 - j)) (ucast (?bs ! (i + j)))) 0 [0, 1, 2, 3]"
    unfolding payload_word_def Let_def
  proof (rule foldl_cong [OF refl refl])
    fix hi :: u32 and j :: nat
    assume "j \<in> set [0, 1, 2, 3]"
    then have "i + j < padding + payload" using i by auto
    from b [OF this] show "(if i + j \<ge> padding then hi OR push_bit (8 * (3 - j))
        (ucast (magnitude_byte negative (data ! (header_size + (i + j) - padding)))) else hi)
      = hi OR push_bit (8 * (3 - j)) (ucast (?bs ! (i + j)))" by (simp add: add.assoc)
  qed
  have "take 4 (drop i ?bs) = [?bs ! i, ?bs ! (i + 1), ?bs ! (i + 2), ?bs ! (i + 3)]"
    using i lb by (simp add: take_Suc_conv_app_nth numeral_eq_Suc Cons_nth_drop_Suc [symmetric])
  then show ?thesis
    using unat_assemble4 [of "?bs ! i" "?bs ! (i + 1)" "?bs ! (i + 2)" "?bs ! (i + 3)"]
    unfolding f by (simp add: numeral_eq_Suc)
qed

lemma convert_fold_correct:
  assumes len: "length data = header_size + payload" and neg: "negative = (data ! 0 AND 0x80 = 0)"
    and n: "4 * n \<le> padding + payload"
  defines "bs \<equiv> padded_bytes padding (payload_bytes data)"
  defines "ds \<equiv> foldl (\<lambda>ds k. feed_word ds (payload_word negative data padding (4 * k))) [] [0..<n]"
  shows "limbs10_value ds = be_value (take (4 * n) bs) \<and> limbs10_ok ds"
  unfolding ds_def using n
proof (induction n)
  case 0
  then show ?case by (simp add: limbs10_ok_def)
next
  case (Suc n)
  let ?f = "\<lambda>ds k. feed_word ds (payload_word negative data padding (4 * k))"
  let ?ds = "foldl ?f [] [0..<n]"
  have IH: "limbs10_value ?ds = be_value (take (4 * n) bs)" "limbs10_ok ?ds" using Suc by auto
  have w: "unat (payload_word negative data padding (4 * n)) = be_value (take 4 (drop (4 * n) bs))"
    unfolding bs_def using Suc.prems by (intro payload_word_correct [OF len neg]) simp
  have lb: "length bs = padding + payload"
    using len by (simp add: bs_def padded_bytes_def payload_bytes_def)
  have "be_value (take (4 * n + 4) bs) = be_value (take (4 * n) bs) * 2 ^ 32 + be_value (take 4 (drop (4 * n) bs))"
    unfolding take_add using Suc.prems lb by simp
  then show ?case using feed_word_correct [OF IH(2)] IH(1) w by (simp add: add.commute)
qed

text \<open>The limbs of a payload stand for its magnitude, and are in normal form.\<close>

lemma convert_payload_correct:
  assumes len: "length data = header_size + payload" and neg: "negative = (data ! 0 AND 0x80 = 0)"
  shows "limbs10_value (convert_payload negative data payload) = be_value (payload_bytes data)"
    and "\<forall>d \<in> set (convert_payload negative data payload). unat d < 10 ^ 9"
    and "convert_payload negative data payload \<noteq> []"
    and "length (convert_payload negative data payload) = 1 \<or> last (convert_payload negative data payload) \<noteq> 0"
proof -
  define padding where "padding = (4 - payload mod 4) mod 4"
  have "(payload + padding) mod 4 = (payload mod 4 + (4 - payload mod 4)) mod 4"
    unfolding padding_def by (simp only: mod_add_eq mod_add_left_eq mod_add_right_eq)
  also have "payload mod 4 + (4 - payload mod 4) = 4"
    using mod_less_divisor [of 4 payload] by simp
  finally have dvd: "4 dvd payload + padding" by (simp add: mod_eq_0_iff_dvd)
  define ds where "ds = foldl (\<lambda>ds k. feed_word ds (payload_word negative data padding (4 * k))) []
    [0..<(payload + padding) div 4]"
  have c: "convert_payload negative data payload = (if ds = [] then [0] else ds)"
    by (simp add: convert_payload_def padding_def ds_def Let_def)
  have "limbs10_value ds = be_value (take (4 * ((payload + padding) div 4)) (padded_bytes padding (payload_bytes data)))
    \<and> limbs10_ok ds"
    unfolding ds_def using dvd by (intro convert_fold_correct [OF len neg]) simp
  moreover have "length (padded_bytes padding (payload_bytes data)) = payload + padding"
    using len by (simp add: padded_bytes_def payload_bytes_def)
  ultimately have v: "limbs10_value ds = be_value (payload_bytes data)" and ok: "limbs10_ok ds"
    using dvd by (auto simp: padded_bytes_def)
  show "limbs10_value (convert_payload negative data payload) = be_value (payload_bytes data)"
    using v by (auto simp: c)
  show "\<forall>d \<in> set (convert_payload negative data payload). unat d < 10 ^ 9"
    and "convert_payload negative data payload \<noteq> []"
    and "length (convert_payload negative data payload) = 1 \<or> last (convert_payload negative data payload) \<noteq> 0"
    using ok by (auto simp: c limbs10_ok_def)
qed

section \<open>The text in the buffer\<close>

lemma put_digits_correct: "put_digits j r s = dec_fixed j (unat r) @ s"
  by (induction j r s rule: put_digits.induct) (simp_all add: unat_div unat_mod)

lemma put_leading_correct: "put_leading r s = dec_string (unat r) @ s"
proof (induction r s rule: put_leading.induct)
  case (1 r s)
  have m: "unat (r mod 10) = unat r mod 10" and d: "unat (r div 10) = unat r div 10"
    by (simp_all add: unat_mod unat_div)
  show ?case
  proof (cases "r div 10 = 0")
    case True
    then have "unat r < 10" using d by simp
    then show ?thesis using True m by (subst put_leading.simps) (simp add: Let_def)
  next
    case False
    then have "10 \<le> unat r" using d unat_gt_0 [of "r div 10"] by auto
    then show ?thesis using "1.IH" [OF refl refl False] False d m
      by (subst put_leading.simps) (simp add: Let_def dec_string_ge10)
  qed
qed

lemma leading_digits_correct: "leading_digits r = length (dec_string (unat r))"
proof (induction r rule: leading_digits.induct)
  case (1 r)
  show ?case
  proof (cases "10 \<le> r")
    case True
    then have "10 \<le> unat r" by (simp add: word_le_nat_alt)
    then show ?thesis using 1 True by (subst leading_digits.simps) (simp add: dec_string_ge10 unat_div)
  next
    case False
    then have "unat r < 10" by (simp add: word_le_nat_alt)
    then show ?thesis using False by (subst leading_digits.simps) simp
  qed
qed

text \<open>\<open>output_length\<close> is the number of characters written: the buffer is filled exactly.\<close>

lemma foldl_groups:
  "foldl (\<lambda>s d. put_digits 9 d s) s ds = concat (map (\<lambda>d. dec_fixed 9 (unat d)) (rev ds)) @ s"
  by (induction ds arbitrary: s) (simp_all add: put_digits_correct)

lemma length_concat_fixed: "length (concat (map (\<lambda>d. dec_fixed 9 (f d)) ds)) = 9 * length ds"
  by (induction ds) simp_all

lemma fill_buffer_length: "ds \<noteq> [] \<Longrightarrow> length (fill_buffer neg ds) = output_length neg ds"
  by (simp add: fill_buffer_def output_length_def Let_def put_leading_correct foldl_groups
      length_concat_fixed leading_digits_correct)

lemma dec_string_limbs:
  "ds \<noteq> [] \<Longrightarrow> \<forall>d \<in> set ds. unat d < 10 ^ 9 \<Longrightarrow> length ds = 1 \<or> last ds \<noteq> 0 \<Longrightarrow>
     dec_string (limbs10_value ds)
       = dec_string (unat (last ds)) @ concat (map (\<lambda>d. dec_fixed 9 (unat d)) (rev (butlast ds)))"
proof (induction ds)
  case Nil
  then show ?case by simp
next
  case (Cons d ds)
  show ?case
  proof (cases "ds = []")
    case True
    then show ?thesis by simp
  next
    case False
    then have l: "last ds \<noteq> 0" using Cons.prems(3) by simp
    have "10 ^ (9 * (length ds - 1)) \<le> limbs10_value ds"
      using last_nonzero_iff [of ds] l False Cons.prems(2) by simp
    then have pos: "0 < limbs10_value ds" by (rule less_le_trans [rotated]) simp
    have "limbs10_value (d # ds) = limbs10_value ds * 10 ^ 9 + unat d" by simp
    then have "dec_string (limbs10_value (d # ds)) = dec_string (limbs10_value ds) @ dec_fixed 9 (unat d)"
      using dec_string_append [OF pos, of "unat d" 9] Cons.prems(2) by (simp only: list.set_intros)
    then show ?thesis using Cons.IH False l Cons.prems(2) by simp
  qed
qed

section \<open>The decoder accepts exactly the canonical cells and prints their value\<close>

definition bignum_negative :: "u8 list \<Rightarrow> bool" where
  "bignum_negative data \<longleftrightarrow> data ! 0 AND 0x80 = 0"

text \<open>The number a cell stands for.\<close>

definition bignum_value :: "u8 list \<Rightarrow> int" where
  "bignum_value data = (if bignum_negative data then - int (be_value (payload_bytes data))
                        else int (be_value (payload_bytes data)))"

text \<open>
  The storage format: a header naming the payload's length, a payload of at least one byte
  without a leading zero byte, and no negative zero.
\<close>

definition canonical_bignum :: "u8 list \<Rightarrow> bool" where
  "canonical_bignum data \<longleftrightarrow>
     4 \<le> length data \<and> length data - 3 \<le> maximum_payload
     \<and> unat (declared_length (bignum_negative data) data) = length data - 3
     \<and> (length data = 4 \<or> hd (payload_bytes data) \<noteq> 0)
     \<and> \<not> (bignum_negative data \<and> be_value (payload_bytes data) = 0)"

definition platform_ok :: "platform \<Rightarrow> bool" where
  "platform_ok pf \<longleftrightarrow> 2 ^ 27 \<le> size_max pf \<and> 2 ^ 22 \<le> vector_max pf \<and> 2 ^ 26 \<le> zstr_max_len pf"

text \<open>The number of limbs stays within the reserved \<open>maximum_limbs\<close>.\<close>

lemma pow10_9_le: "2 ^ (29 * k) \<le> (10::nat) ^ (9 * k)"
proof -
  have "(2::nat) ^ 29 \<le> 10 ^ 9" by simp
  then have "((2::nat) ^ 29) ^ k \<le> (10 ^ 9) ^ k" by (rule power_mono) simp
  then show ?thesis by (simp only: power_mult)
qed

lemma convert_payload_length:
  assumes "length data = header_size + payload" and "negative = (data ! 0 AND 0x80 = 0)" and "0 < payload"
  shows "length (convert_payload negative data payload) \<le> (payload * 8 + 28) div 29"
proof -
  let ?ds = "convert_payload negative data payload"
  note c = convert_payload_correct [OF assms(1,2)]
  have lt: "be_value (payload_bytes data) < 2 ^ (8 * payload)"
    using be_value_less [of "payload_bytes data"] assms(1)
    by (simp add: payload_bytes_def power_mult)
  have "29 * (length ?ds - 1) < 8 * payload"
  proof (cases "length ?ds = 1")
    case True
    then show ?thesis using assms(3) by simp
  next
    case False
    then have "last ?ds \<noteq> 0" using c(4) by simp
    then have "(10::nat) ^ (9 * (length ?ds - 1)) \<le> limbs10_value ?ds"
      using last_nonzero_iff [OF c(2,3)] by simp
    then have "(2::nat) ^ (29 * (length ?ds - 1)) < 2 ^ (8 * payload)"
      using pow10_9_le [of "length ?ds - 1"] lt unfolding c(1) by linarith
    then show ?thesis by (simp only: power_strict_increasing_iff)
  qed
  then show ?thesis by linarith
qed

lemma payload_first:
  "4 \<le> length data \<Longrightarrow> magnitude_byte (bignum_negative data) (data ! 3) = hd (payload_bytes data)"
  by (cases data; cases "tl data"; cases "tl (tl data)"; cases "tl (tl (tl data))")
     (auto simp: payload_bytes_def header_size_def bignum_negative_def)

lemma be_value_eq_0_first: "bs \<noteq> [] \<Longrightarrow> length bs = 1 \<or> hd bs \<noteq> 0 \<Longrightarrow> be_value bs = 0 \<longleftrightarrow> length bs = 1 \<and> hd bs = 0"
  by (cases bs) (auto simp: be_value_Cons unat_eq_zero)

lemma canonical_header_iff:
  assumes "4 \<le> length data" "length data - 3 \<le> maximum_payload"
  shows "canonical_bignum data \<longleftrightarrow>
     \<not> (unat (declared_length (bignum_negative data) data) \<noteq> length data - 3
        \<or> (length data - 3 > 1 \<and> magnitude_byte (bignum_negative data) (data ! 3) = 0)
        \<or> (bignum_negative data \<and> length data - 3 = 1 \<and> magnitude_byte (bignum_negative data) (data ! 3) = 0))"
proof -
  have l: "length (payload_bytes data) = length data - 3" by (simp add: payload_bytes_def header_size_def)
  then have ne: "payload_bytes data \<noteq> []" using assms(1) by auto
  show ?thesis
    unfolding canonical_bignum_def payload_first [OF assms(1)]
    using assms be_value_eq_0_first [OF ne] l by auto
qed

lemma fill_buffer_correct:
  assumes "length data = header_size + payload" "bignum_negative data \<Longrightarrow> be_value (payload_bytes data) \<noteq> 0"
  shows "fill_buffer (bignum_negative data) (convert_payload (bignum_negative data) data payload)
           = dec_int (bignum_value data)"
proof -
  let ?ds = "convert_payload (bignum_negative data) data payload"
  note c = convert_payload_correct [OF assms(1) bignum_negative_def]
  have "dec_string (be_value (payload_bytes data))
      = dec_string (unat (last ?ds)) @ concat (map (\<lambda>d. dec_fixed 9 (unat d)) (rev (butlast ?ds)))"
    using dec_string_limbs [OF c(3,2,4)] unfolding c(1) .
  then show ?thesis using assms(2)
    by (simp add: fill_buffer_def Let_def put_leading_correct foldl_groups bignum_value_def dec_int_def)
qed

lemma diff_bound: "p \<le> 11 \<Longrightarrow> m \<le> z \<Longrightarrow> m - 11 \<le> z - (p::nat)"
  by linarith

lemma leading_digits_le: "leading_digits r \<le> 10"
proof -
  have "unat r < 2 ^ 32" using unat_bound [of r] by simp
  then have "unat r < 10 ^ 10" by simp
  then show ?thesis unfolding leading_digits_correct by (rule length_dec_string_le) simp
qed

text \<open>
  C21. On a supported DuckDB version the decoder accepts exactly the canonical cells and then
  prints the number they encode; every other cell is rejected with the message of the check
  that fails. The size guards never fire and the limb array never outgrows its reservation.
\<close>

theorem decode_bignum_correct:
  assumes "supported_format version" and "platform_ok pf" and "cs row = Str data"
  shows "duckdb_decode_bignum pf version (Some cs) row =
     (if canonical_bignum data then Inr (dec_int (bignum_value data))
      else Inl (invalid_bignum
        (if length data \<le> 3 \<or> length data - 3 > maximum_payload
         then ''Invalid BIGNUM storage length''
         else ''Invalid BIGNUM header or noncanonical payload'')))"
proof (cases "length data \<le> 3 \<or> length data - 3 > maximum_payload")
  case True
  then have "\<not> canonical_bignum data" by (auto simp: canonical_bignum_def)
  then show ?thesis using True assms by (simp add: duckdb_decode_bignum_def header_size_def)
next
  case False
  let ?p = "length data - 3" and ?neg = "bignum_negative data"
  let ?ds = "convert_payload ?neg data ?p"
  have len: "length data = header_size + ?p" and p: "0 < ?p" "?p \<le> 8388607"
    using False by (auto simp: header_size_def maximum_payload_def)
  have "length ?ds \<le> (?p * 8 + 28) div 29"
    by (rule convert_payload_length [OF len bignum_negative_def p(1)])
  also have "\<dots> \<le> (8388607 * 8 + 28) div 29" using p(2) by (intro div_le_mono) simp
  finally have ds: "length ?ds \<le> 2314101" by simp
  have "(if ?neg then 1 else 0) \<le> (1::nat)" by simp
  with leading_digits_le [of "last ?ds"]
  have "leading_digits (last ?ds) + (if ?neg then 1 else 0) \<le> 11" by linarith
  moreover have "2 ^ 26 \<le> zstr_max_len pf" using assms(2) by (simp add: platform_ok_def)
  ultimately have "2 ^ 26 - 11 \<le> zstr_max_len pf - (leading_digits (last ?ds) + (if ?neg then 1 else 0))"
    by (rule diff_bound)
  then have "(2 ^ 26 - 11) div 9 \<le> (zstr_max_len pf - (leading_digits (last ?ds) + (if ?neg then 1 else 0))) div 9"
    by (rule div_le_mono)
  then have g3: "length ?ds - 1 \<le> (zstr_max_len pf - (leading_digits (last ?ds) + (if ?neg then 1 else 0))) div 9"
    using ds by simp
  have "(2 ^ 27 - 28) div 8 \<le> (size_max pf - 28) div 8"
    using assms(2) by (intro div_le_mono diff_le_mono) (simp add: platform_ok_def)
  then have g1: "?p \<le> (size_max pf - 28) div 8" using p(2) by simp
  have "(?p * 8 + 28) div 29 \<le> (8388607 * 8 + 28) div 29" using p(2) by (intro div_le_mono) simp
  also have "\<dots> \<le> vector_max pf" using assms(2) by (simp add: platform_ok_def)
  finally have g2: "(?p * 8 + 28) div 29 \<le> vector_max pf" .
  have fb: "canonical_bignum data \<Longrightarrow> fill_buffer ?neg ?ds = dec_int (bignum_value data)"
    by (rule fill_buffer_correct [OF len]) (simp add: canonical_bignum_def)
  have ge4: "4 \<le> length data" "?p \<le> maximum_payload" using False by auto
  show ?thesis
    using False fb g1 g2 g3 assms(1,3) canonical_header_iff [OF ge4]
    by (simp add: duckdb_decode_bignum_def header_size_def bignum_negative_def [symmetric] Let_def
        not_less [symmetric])
qed

theorem decode_bignum_correct_witness:
  "duckdb_decode_bignum \<lparr>size_max = 2 ^ 64 - 1, vector_max = 2 ^ 61 - 1, zstr_max_len = 2 ^ 64 - 33\<rparr>
     (Some ''v2.0.0'') (Some (\<lambda>_. Str [0x80, 0, 2, 0x30, 0x39])) 0 = Inr ''12345''"
  (is "duckdb_decode_bignum ?pf _ _ _ = _")
proof -
  have pf: "platform_ok ?pf" by (simp add: platform_ok_def)
  have v: "supported_format (Some ''v2.0.0'')" by (simp add: supported_format_def)
  have n: "bignum_negative [0x80, 0, 2, 0x30, 0x39] = False" by (simp add: bignum_negative_def)
  have l: "declared_length False [0x80, 0, 2, 0x30, 0x39] = 2"
    by (simp add: declared_length_def magnitude_byte_def)
  have b: "payload_bytes [0x80, 0, 2, 0x30, 0x39] = [0x30, 0x39]"
    by (simp add: payload_bytes_def magnitude_byte_def header_size_def)
  have c: "canonical_bignum [0x80, 0, 2, 0x30, 0x39]"
    by (simp add: canonical_bignum_def n l b be_value_def maximum_payload_def)
  have d: "dec_int (bignum_value [0x80, 0, 2, 0x30, 0x39]) = ''12345''"
    by (simp add: bignum_value_def n b be_value_def dec_int_def dec_string.simps)
  from decode_bignum_correct [OF v pf, of "\<lambda>_. Str [0x80, 0, 2, 0x30, 0x39]" 0] c d
  show ?thesis by simp
qed

section \<open>Every integer has a cell the decoder reads back\<close>

text \<open>
  The encoder is a specification of the storage format (DuckDB writes the cells): the shortest
  big-endian magnitude behind the header, every byte complemented for a negative number.
\<close>

fun be_bytes :: "nat \<Rightarrow> u8 list" where
  "be_bytes n = (if n < 256 then [of_nat n] else be_bytes (n div 256) @ [of_nat (n mod 256)])"

declare be_bytes.simps [simp del]

definition bignum_header :: "nat \<Rightarrow> u8 list" where
  "bignum_header p = [of_nat (128 + p div 65536), of_nat (p div 256 mod 256), of_nat (p mod 256)]"

definition encode_bignum :: "int \<Rightarrow> u8 list" where
  "encode_bignum i =
     (let payload = be_bytes (nat \<bar>i\<bar>); cell = bignum_header (length payload) @ payload
      in if i < 0 then map NOT cell else cell)"

lemma unat_of_nat_byte: "n < 256 \<Longrightarrow> unat (of_nat n :: u8) = n"
  by (simp add: unsigned_of_nat take_bit_nat_eq_self)

lemma be_value_bytes [simp]: "be_value (be_bytes n) = n"
proof (induction n rule: be_bytes.induct)
  case (1 n)
  then show ?case by (cases "n < 256") (subst be_bytes.simps, simp add: unat_of_nat_byte)+
qed

lemma be_bytes_shape: "be_bytes n \<noteq> [] \<and> (length (be_bytes n) = 1 \<or> hd (be_bytes n) \<noteq> 0)"
proof (induction n rule: be_bytes.induct)
  case (1 n)
  show ?case
  proof (cases "n < 256")
    case True
    then show ?thesis by (subst (1 2 3) be_bytes.simps) simp
  next
    case False
    have e: "be_bytes n = be_bytes (n div 256) @ [of_nat (n mod 256)]"
      using False by (subst be_bytes.simps) simp
    have "hd (be_bytes (n div 256)) \<noteq> 0"
    proof (cases "length (be_bytes (n div 256)) = 1")
      case True
      then obtain b where b: "be_bytes (n div 256) = [b]" by (auto simp: length_Suc_conv)
      have "unat b = n div 256" using be_value_bytes [of "n div 256"] unfolding b by simp
      then show ?thesis using False b by auto
    next
      case ne: False
      then show ?thesis using 1 [OF False] by simp
    qed
    then show ?thesis using 1 [OF False] by (simp add: e)
  qed
qed

lemma be_bytes_length: "n < 256 ^ k \<Longrightarrow> 0 < k \<Longrightarrow> length (be_bytes n) \<le> k"
proof (induction n arbitrary: k rule: be_bytes.induct)
  case (1 n)
  show ?case
  proof (cases "n < 256")
    case True
    then show ?thesis using 1 by (subst be_bytes.simps) simp
  next
    case False
    with 1 obtain j where k: "k = Suc j" by (cases k) auto
    have "n div 256 < 256 ^ j" using 1(2) k by (simp add: less_mult_imp_div_less mult.commute)
    moreover have "0 < j" using False 1(2) k by (cases j) auto
    ultimately show ?thesis using 1(1) [of j] False k by (subst be_bytes.simps) simp
  qed
qed

text \<open>Reading the header: sign bit, then the 23-bit length.\<close>

definition header_length :: "u8 \<Rightarrow> u8 \<Rightarrow> u8 \<Rightarrow> u32" where
  "header_length b0 b1 b2 = push_bit 16 (ucast (b0 AND 0x7F)) OR push_bit 8 (ucast b1) OR ucast b2"

lemma declared_length_header:
  "declared_length neg (a # b # c # ds)
     = header_length (magnitude_byte neg a) (magnitude_byte neg b) (magnitude_byte neg c)"
  by (simp add: declared_length_def header_length_def)

lemma unat_header_length: "unat (header_length b0 b1 b2) = be_value [b0 AND 0x7F, b1, b2]"
proof -
  have "unat ((((0 OR push_bit 24 (ucast (0::u8))) OR push_bit 16 (ucast (b0 AND 0x7F)))
      OR push_bit 8 (ucast b1)) OR push_bit 0 (ucast b2) :: u32) = be_value [0, b0 AND 0x7F, b1, b2]"
    by (rule unat_assemble4)
  then show ?thesis by (simp add: header_length_def be_value_Cons or.assoc)
qed

lemma and_128_iff: "(b :: u8) AND 0x80 = 0 \<longleftrightarrow> \<not> bit b 7"
  using and_exp_eq_0_iff_not_bit [of b 7] by simp

lemma and_127: "(b :: u8) AND 0x7F = take_bit 7 b"
  by (simp add: take_bit_eq_mask mask_eq_exp_minus_1)

lemma header_first_byte:
  assumes "q < 128"
  shows "unat ((of_nat (128 + q) :: u8) AND 0x7F) = q"
    and "bit (of_nat (128 + q) :: u8) 7"
proof -
  have u: "unat (of_nat (128 + q) :: u8) = 128 + q"
    using assms by (intro unat_of_nat_byte) simp
  have "unat ((of_nat (128 + q) :: u8) AND 0x7F) = take_bit 7 (128 + q)"
    unfolding and_127 unsigned_take_bit_eq u ..
  then show "unat ((of_nat (128 + q) :: u8) AND 0x7F) = q" using assms by (simp add: take_bit_eq_mod)
  have "bit (unat (of_nat (128 + q) :: u8)) 7"
    unfolding u bit_iff_odd using assms by (simp add: div_add_self1)
  then show "bit (of_nat (128 + q) :: u8) 7" by (simp add: bit_unsigned_iff)
qed

lemma map_magnitude_byte:
  "map (magnitude_byte False) bs = bs" "map (magnitude_byte True) (map NOT bs) = bs"
  by (induction bs) (simp_all add: magnitude_byte_def)

lemma encode_bignum_shape:
  assumes "nat \<bar>i\<bar> < 256 ^ maximum_payload"
  defines "p \<equiv> length (be_bytes (nat \<bar>i\<bar>))"
  shows "bignum_negative (encode_bignum i) \<longleftrightarrow> i < 0"
    and "payload_bytes (encode_bignum i) = be_bytes (nat \<bar>i\<bar>)"
    and "length (encode_bignum i) = 3 + p"
    and "unat (declared_length (bignum_negative (encode_bignum i)) (encode_bignum i)) = p"
proof -
  let ?bs = "be_bytes (nat \<bar>i\<bar>)"
  have p: "p \<le> 8388607"
    using be_bytes_length [OF assms(1)] by (simp add: p_def maximum_payload_def)
  define q where "q = p div 65536"
  have q: "q < 128" using p by (simp add: q_def less_mult_imp_div_less)
  define h where "h = bignum_header p"
  have h: "h = [of_nat (128 + q), of_nat (p div 256 mod 256), of_nat (p mod 256)]"
    by (simp only: h_def bignum_header_def q_def)
  have e: "encode_bignum i = (if i < 0 then map NOT (h @ ?bs) else h @ ?bs)"
    by (simp add: encode_bignum_def p_def h_def Let_def)
  show n: "bignum_negative (encode_bignum i) \<longleftrightarrow> i < 0"
    using header_first_byte(2) [OF q]
    by (simp add: bignum_negative_def and_128_iff e h bit_not_iff)
  show "length (encode_bignum i) = 3 + p" by (simp add: e h p_def)
  show "payload_bytes (encode_bignum i) = ?bs"
    using n by (simp add: payload_bytes_def bignum_negative_def [symmetric] header_size_def)
       (simp add: e h map_magnitude_byte del: map_map list.map_comp)
  have d: "declared_length (bignum_negative (encode_bignum i)) (encode_bignum i)
      = header_length (of_nat (128 + q)) (of_nat (p div 256 mod 256)) (of_nat (p mod 256))"
    unfolding n by (simp add: e h declared_length_header magnitude_byte_def)
  have "q * 65536 + (p div 256 mod 256) * 256 + p mod 256 = p"
  proof -
    have "p = p div 256 * 256 + p mod 256" by (rule div_mult_mod_eq [symmetric])
    moreover have "p div 256 = p div 256 div 256 * 256 + p div 256 mod 256"
      by (rule div_mult_mod_eq [symmetric])
    moreover have "p div 256 div 256 = q" unfolding q_def by (simp add: div_mult2_eq [symmetric])
    ultimately show ?thesis by linarith
  qed
  then show "unat (declared_length (bignum_negative (encode_bignum i)) (encode_bignum i)) = p"
    unfolding d unat_header_length
    by (simp only: be_value_Cons be_value_Nil header_first_byte(1) [OF q])
       (simp add: unat_of_nat_byte algebra_simps)
qed

text \<open>
  Round trip: every integer whose magnitude fits the 23-bit payload length is read back,
  digit for digit, from its encoding.
\<close>

theorem decode_encode_bignum:
  assumes "supported_format version" "platform_ok pf" "nat \<bar>i\<bar> < 256 ^ maximum_payload"
  shows "duckdb_decode_bignum pf version (Some (\<lambda>_. Str (encode_bignum i))) row = Inr (dec_int i)"
proof -
  note sh = encode_bignum_shape [OF assms(3)]
  have len: "1 \<le> length (be_bytes (nat \<bar>i\<bar>))" "length (be_bytes (nat \<bar>i\<bar>)) \<le> 8388607"
    using be_bytes_shape [of "nat \<bar>i\<bar>"] be_bytes_length [OF assms(3)]
    by (auto simp: Suc_le_eq maximum_payload_def)
  have "canonical_bignum (encode_bignum i)"
    unfolding canonical_bignum_def
    using sh len be_bytes_shape [of "nat \<bar>i\<bar>"] by (auto simp: maximum_payload_def)
  moreover have "bignum_value (encode_bignum i) = i"
    unfolding bignum_value_def sh(1,2) by simp
  ultimately show ?thesis
    using decode_bignum_correct [OF assms(1,2), of "\<lambda>_. Str (encode_bignum i)" row] by simp
qed

theorem decode_encode_bignum_witness:
  "duckdb_decode_bignum \<lparr>size_max = 2 ^ 64 - 1, vector_max = 2 ^ 61 - 1, zstr_max_len = 2 ^ 64 - 33\<rparr>
     (Some ''2.0.1'') (Some (\<lambda>_. Str (encode_bignum (- 300)))) 7 = Inr (dec_int (- 300))"
proof (rule decode_encode_bignum)
  show "nat \<bar>- 300 :: int\<bar> < 256 ^ maximum_payload"
  proof -
    have "(300::nat) < 256 ^ 2" by simp
    also have "(256::nat) ^ 2 \<le> 256 ^ maximum_payload"
      by (rule power_increasing) (simp_all add: maximum_payload_def)
    finally show ?thesis by simp
  qed
qed (simp_all add: supported_format_def platform_ok_def)

end
