(* ===== verification/Interval.thy ===== *)
theory Interval
  imports Prelude Errors "HOL-Library.Signed_Division"
begin

text \<open>
  \<open>DuckDB\Interval\<close> of \<open>src/src/values.cpp\<close>: the constructor's range checks, \<open>fromSeconds\<close>, the
  accessors, \<open>__toString\<close> and \<open>jsonSerialize\<close>. Fields are C integers: 32-bit months and days and
  64-bit microseconds, held here as \<open>int\<close> within those ranges; C division truncates
  (\<open>sdiv\<close>, \<open>smod\<close>) and the \<open>(int)\<close> conversions of \<open>__toString\<close> keep the low 32 bits.
\<close>

record interval =
  months :: int
  days :: int
  micros :: int

definition int32_min :: int where "int32_min = - (2 ^ 31)"
definition int32_max :: int where "int32_max = 2 ^ 31 - 1"

definition interval_ok :: "interval \<Rightarrow> bool" where
  "interval_ok iv \<longleftrightarrow> int32_min \<le> months iv \<and> months iv \<le> int32_max
     \<and> int32_min \<le> days iv \<and> days iv \<le> int32_max
     \<and> - (2 ^ 63) \<le> micros iv \<and> micros iv < 2 ^ 63"

definition interval_range_message :: string where
  "interval_range_message = ''must be between -2147483648 and 2147483647''"

text \<open>\<open>Interval::__construct\<close>; the arguments are \<open>zend_long\<close>s.\<close>

definition interval_construct :: "int \<Rightarrow> int \<Rightarrow> int \<Rightarrow> (throwable, interval) result" where
  "interval_construct mo d us =
     (if mo < int32_min \<or> mo > int32_max then Inl (ArgValueError 1 interval_range_message)
      else if d < int32_min \<or> d > int32_max then Inl (ArgValueError 2 interval_range_message)
      else Inr \<lparr>months = mo, days = d, micros = us\<rparr>)"

text \<open>
  \<open>Interval::fromSeconds\<close>; \<open>is_finite\<close> and \<open>llround_micros\<close> stand for \<open>std::isfinite(seconds)\<close>
  and \<open>llround(seconds * 1000000.0)\<close> on the argument, a double given by its 64 bits.
\<close>

definition interval_fromSeconds ::
  "(u64 \<Rightarrow> bool) \<Rightarrow> (u64 \<Rightarrow> int) \<Rightarrow> u64 \<Rightarrow> (throwable, interval) result" where
  "interval_fromSeconds is_finite llround_micros seconds =
     (if \<not> is_finite seconds then Inl (ArgValueError 1 ''must be finite'')
      else Inr \<lparr>months = 0, days = 0, micros = llround_micros seconds\<rparr>)"

text \<open>\<open>%0wd\<close> of a C \<open>int\<close>.\<close>

definition format_0d :: "nat \<Rightarrow> int \<Rightarrow> string" where
  "format_0d w i = (if i < 0 then CHR ''-'' # pad_left (w - 1) (dec_string (nat (- i)))
                    else pad_left w (dec_string (nat i)))"

text \<open>Conversions that wrap: \<open>(int)x\<close>, and negation of a 64-bit integer.\<close>

definition to_int32 :: "int \<Rightarrow> int" where
  "to_int32 i = sint (word_of_int i :: u32)"

definition neg_int64 :: "int \<Rightarrow> int" where
  "neg_int64 i = sint (- word_of_int i :: u64)"

text \<open>\<open>duckdb_interval_append_unit\<close>: the text so far and \<open>first\<close> are threaded.\<close>

fun duckdb_interval_append_unit :: "string \<times> bool \<Rightarrow> int \<Rightarrow> string \<Rightarrow> string \<times> bool" where
  "duckdb_interval_append_unit (str, first) value unit =
     (if value = 0 then (str, first)
      else (str @ (if first then [] else '' '') @ dec_int value @ '' '' @ unit
              @ (if value \<noteq> 1 \<and> value \<noteq> -1 then ''s'' else []), False))"

definition interval_time_text :: "int \<Rightarrow> string" where
  "interval_time_text us =
     (let m = (if us < 0 then neg_int64 us else us);
          hours = m sdiv 3600000000;
          minutes = (m sdiv 60000000) smod 60;
          seconds = (m sdiv 1000000) smod 60;
          fraction = m smod 1000000;
          hms = format_0d 2 (to_int32 hours) @ '':'' @ format_0d 2 (to_int32 minutes)
                @ '':'' @ format_0d 2 (to_int32 seconds)
      in (if us < 0 then ''-'' else [])
         @ (if fraction = 0 then hms else hms @ ''.'' @ format_0d 6 (to_int32 fraction)))"

definition interval_toString :: "interval \<Rightarrow> string" where
  "interval_toString iv =
     (let s0 = ([], True);
          s1 = duckdb_interval_append_unit s0 (months iv sdiv 12) ''year'';
          s2 = duckdb_interval_append_unit s1 (months iv smod 12) ''month'';
          s3 = duckdb_interval_append_unit s2 (days iv) ''day'';
          s4 = (if micros iv \<noteq> 0
                then (fst s3 @ (if snd s3 then [] else '' '') @ interval_time_text (micros iv), False)
                else s3)
      in if snd s4 then ''00:00:00'' else fst s4)"

definition interval_jsonSerialize :: "interval \<Rightarrow> (string \<times> int) list" where
  "interval_jsonSerialize iv = [(''months'', months iv), (''days'', days iv), (''micros'', micros iv)]"

section \<open>Construction keeps the field ranges\<close>

lemma interval_construct_ok:
  "interval_construct mo d us = Inr iv \<Longrightarrow> - (2 ^ 63) \<le> us \<Longrightarrow> us < 2 ^ 63 \<Longrightarrow>
     interval_ok iv \<and> months iv = mo \<and> days iv = d \<and> micros iv = us"
  by (auto simp: interval_construct_def interval_ok_def split: if_splits)

section \<open>The text\<close>

lemma to_int32_id: "- (2 ^ 31) \<le> i \<Longrightarrow> i < 2 ^ 31 \<Longrightarrow> to_int32 i = i"
  by (simp add: to_int32_def signed_of_int signed_take_bit_int_eq_self)

lemma neg_int64_id: "- (2 ^ 63) < i \<Longrightarrow> i < 2 ^ 63 \<Longrightarrow> neg_int64 i = - i"
proof -
  assume "- (2 ^ 63) < i" "i < 2 ^ 63"
  moreover have "- word_of_int i = (word_of_int (- i) :: u64)" by (rule wi_hom_neg)
  ultimately show ?thesis
    unfolding neg_int64_def by (simp only: signed_of_int) (simp add: signed_take_bit_int_eq_self)
qed

lemma format_0d_nat: "format_0d w (int n) = dec_pad w n"
  by (simp add: format_0d_def dec_pad_def)

text \<open>The parts of the text: a unit with a nonzero count, and the clock part.\<close>

definition unit_part :: "int \<Rightarrow> string \<Rightarrow> string list" where
  "unit_part v unit =
     (if v = 0 then [] else [dec_int v @ '' '' @ unit @ (if \<bar>v\<bar> = 1 then [] else ''s'')])"

definition clock_part :: "bool \<Rightarrow> nat \<Rightarrow> nat \<Rightarrow> nat \<Rightarrow> nat \<Rightarrow> string list" where
  "clock_part negative h m s f =
     (if h = 0 \<and> m = 0 \<and> s = 0 \<and> f = 0 then []
      else [(if negative then ''-'' else []) @ dec_pad 2 h @ '':'' @ dec_fixed 2 m @ '':'' @ dec_fixed 2 s
            @ (if f = 0 then [] else ''.'' @ dec_fixed 6 f)])"

lemma append_unit_join:
  "duckdb_interval_append_unit (join '' '' parts, parts = []) v unit
     = (join '' '' (parts @ unit_part v unit), parts @ unit_part v unit = [])"
  by (auto simp: unit_part_def join_snoc)

lemma clock_arith:
  "A = h * 60 + m \<Longrightarrow> B = A * 60 + s \<Longrightarrow> n = B * 1000000 + f \<Longrightarrow>
     ((h * 60 + m) * 60 + s) * 1000000 + f = (n :: nat)"
  by simp

lemma clock_fields:
  fixes n :: nat
  defines "h \<equiv> n div 3600000000" and "m \<equiv> n div 60000000 mod 60"
    and "s \<equiv> n div 1000000 mod 60" and "f \<equiv> n mod 1000000"
  shows "((h * 60 + m) * 60 + s) * 1000000 + f = n"
proof -
  have a: "n div 60000000 = n div 60000000 div 60 * 60 + m" unfolding m_def by (rule div_mult_mod_eq [symmetric])
  have b: "n div 1000000 = n div 1000000 div 60 * 60 + s" unfolding s_def by (rule div_mult_mod_eq [symmetric])
  have c: "n = n div 1000000 * 1000000 + f" unfolding f_def by (rule div_mult_mod_eq [symmetric])
  have "n div 60000000 div 60 = h" "n div 1000000 div 60 = n div 60000000"
    unfolding h_def by (simp_all add: div_mult2_eq [symmetric])
  then show ?thesis using clock_arith a b c by metis
qed

lemma sdiv_nat: "int n sdiv numeral k = int (n div numeral k)"
  by (simp add: signed_divide_int_def zdiv_int sgn_if)

lemma smod_nat: "int n smod numeral k = int (n mod numeral k)"
  by (simp add: signed_modulo_int_def signed_divide_int_def zdiv_int zmod_int sgn_if minus_div_mult_eq_mod)

lemma sdiv_smod_sign: "0 \<le> (a sdiv numeral k) * (a smod (numeral k :: int))"
proof (cases "0 \<le> a")
  case True
  then obtain n where "a = int n" by (auto elim: nonneg_int_cases)
  then show ?thesis by (simp only: sdiv_nat smod_nat) simp
next
  case False
  then obtain n where "a = - int n" by (metis int_cases2 nle_le of_nat_0_le_iff)
  then show ?thesis by (simp only: minus_sdiv_eq minus_smod_eq sdiv_nat smod_nat) simp
qed

lemma interval_time_text_correct:
  assumes "us \<noteq> 0" "\<bar>us\<bar> < 2 ^ 31 * 3600000000"
  defines "n \<equiv> nat \<bar>us\<bar>"
  shows "[interval_time_text us] =
    clock_part (us < 0) (n div 3600000000) (n div 60000000 mod 60) (n div 1000000 mod 60) (n mod 1000000)"
proof -
  let ?h = "n div 3600000000" and ?m = "n div 60000000 mod 60"
  let ?s = "n div 1000000 mod 60" and ?f = "n mod 1000000"
  have m: "(if us < 0 then neg_int64 us else us) = int n"
    using assms(2) by (auto simp: n_def neg_int64_id)
  have n: "0 < n" "n < 2 ^ 31 * 3600000000" using assms(1,2) by (auto simp: n_def)
  have "?h < 2 ^ 31" using n(2) by (simp add: less_mult_imp_div_less)
  moreover have b: "?m < 60" "?s < 60" "?f < 1000000" by simp_all
  moreover have "to_int32 (int k) = int k" if "k < 2147483648" for k
    using that by (intro to_int32_id) simp_all
  ultimately have i: "to_int32 (int ?h) = int ?h" "to_int32 (int ?m) = int ?m"
    "to_int32 (int ?s) = int ?s" "to_int32 (int ?f) = int ?f"
    by simp_all
  have p: "dec_pad 2 ?m = dec_fixed 2 ?m" "dec_pad 2 ?s = dec_fixed 2 ?s" "dec_pad 6 ?f = dec_fixed 6 ?f"
    using b by (auto intro!: dec_pad_eq_fixed)
  have nz: "\<not> (?h = 0 \<and> ?m = 0 \<and> ?s = 0 \<and> ?f = 0)"
  proof
    assume "?h = 0 \<and> ?m = 0 \<and> ?s = 0 \<and> ?f = 0"
    then have "n = 0" using clock_fields [of n] by simp
    then show False using n(1) by simp
  qed
  show ?thesis
    unfolding interval_time_text_def m sdiv_nat smod_nat i format_0d_nat p Let_def clock_part_def
    using nz by simp
qed

text \<open>
  \<open>Interval::__toString\<close>: the text consists of the nonzero units joined by single spaces, years
  and months being the truncated split of the months, and the clock part whose fields are in
  range and add up to the microseconds; an all-zero interval is \<open>00:00:00\<close>. The hypothesis says
  the hours fit the C \<open>int\<close> they are converted to.
\<close>

theorem interval_toString_correct:
  assumes "\<bar>micros iv\<bar> < 2 ^ 31 * 3600000000"
  shows "\<exists>y mo h mi s f.
      months iv = 12 * y + mo \<and> \<bar>mo\<bar> < 12 \<and> 0 \<le> y * mo
    \<and> \<bar>micros iv\<bar> = int (((h * 60 + mi) * 60 + s) * 1000000 + f) \<and> mi < 60 \<and> s < 60 \<and> f < 1000000
    \<and> interval_toString iv =
        (let parts = unit_part y ''year'' @ unit_part mo ''month'' @ unit_part (days iv) ''day''
                     @ clock_part (micros iv < 0) h mi s f
         in if parts = [] then ''00:00:00'' else join '' '' parts)"
proof -
  define n where "n = nat \<bar>micros iv\<bar>"
  define h where "h = n div 3600000000"
  define m where "m = n div 60000000 mod 60"
  define s where "s = n div 1000000 mod 60"
  define f where "f = n mod 1000000"
  define y where "y = months iv sdiv 12"
  define mo where "mo = months iv smod 12"
  have 1: "months iv = 12 * y + mo" unfolding y_def mo_def by (simp add: mult_sdiv_smod_eq)
  have 2: "\<bar>mo\<bar> < 12" unfolding mo_def using smod_int_range [of 12 "months iv"] by auto
  have 3: "0 \<le> y * mo" unfolding y_def mo_def by (rule sdiv_smod_sign)
  have 4: "\<bar>micros iv\<bar> = int (((h * 60 + m) * 60 + s) * 1000000 + f)"
    unfolding h_def m_def s_def f_def clock_fields by (simp add: n_def)
  have ranges: "m < 60" "s < 60" "f < 1000000" by (simp_all add: m_def s_def f_def)
  let ?p1 = "unit_part y ''year''" and ?p2 = "unit_part mo ''month''" and ?p3 = "unit_part (days iv) ''day''"
  have j1: "duckdb_interval_append_unit ([], True) y ''year'' = (join '' '' ?p1, ?p1 = [])"
    using append_unit_join [of "[]" y "''year''"] by simp
  have j: "duckdb_interval_append_unit (duckdb_interval_append_unit
      (duckdb_interval_append_unit ([], True) y ''year'') mo ''month'') (days iv) ''day''
    = (join '' '' (?p1 @ ?p2 @ ?p3), ?p1 @ ?p2 @ ?p3 = [])"
    unfolding j1 append_unit_join by simp
  have clock: "clock_part (micros iv < 0) h m s f = (if micros iv = 0 then [] else [interval_time_text (micros iv)])"
    using interval_time_text_correct [OF _ assms] unfolding h_def m_def s_def f_def n_def
    by (auto simp: clock_part_def)
  have "interval_toString iv = (let parts = ?p1 @ ?p2 @ ?p3 @ clock_part (micros iv < 0) h m s f
         in if parts = [] then ''00:00:00'' else join '' '' parts)"
    unfolding interval_toString_def Let_def y_def [symmetric] mo_def [symmetric] j clock
    using join_snoc [of "'' ''" "?p1 @ ?p2 @ ?p3" "interval_time_text (micros iv)"] by auto
  with 1 2 3 4 ranges show ?thesis by blast
qed

theorem interval_toString_correct_witness:
  "interval_toString \<lparr>months = 14, days = -1, micros = -3661000001\<rparr>
     = ''1 year 2 months -1 day -01:01:01.000001''
   \<and> (\<exists>y mo. (14::int) = 12 * y + mo \<and> \<bar>mo\<bar> < 12 \<and> 0 \<le> y * mo)"
proof -
  let ?iv = "\<lparr>months = 14, days = -1, micros = -3661000001\<rparr>"
  have "\<bar>micros ?iv\<bar> < 2 ^ 31 * 3600000000" by simp
  from interval_toString_correct [OF this]
  have "\<exists>y mo. (14::int) = 12 * y + mo \<and> \<bar>mo\<bar> < 12 \<and> 0 \<le> y * mo" by auto
  moreover have "interval_toString ?iv = ''1 year 2 months -1 day -01:01:01.000001''"
    by (simp add: interval_toString_def interval_time_text_def neg_int64_def format_0d_def to_int32_def
        pad_left_def dec_int_def dec_string.simps Let_def) (simp add: numeral_eq_Suc)
  ultimately show ?thesis by blast
qed

text \<open>
  Beyond \<open>2 ^ 31\<close> hours the conversion of the hour count to a C \<open>int\<close> wraps: a positive
  interval within the 64-bit microsecond range is printed with a negative hour field.
\<close>

theorem interval_toString_wraps:
  "interval_ok \<lparr>months = 0, days = 0, micros = 7730941132800000000\<rparr>
   \<and> interval_toString \<lparr>months = 0, days = 0, micros = 7730941132800000000\<rparr> = ''-2147483648:00:00''"
  by (simp add: interval_ok_def int32_min_def int32_max_def interval_toString_def
      interval_time_text_def format_0d_def to_int32_def pad_left_def dec_string.simps Let_def)

end
