(* ===== verification/Logical_Type.thy ===== *)
theory Logical_Type
  imports Prelude Errors
begin

text \<open>
  DuckDB logical types as the extension reads them through the C API, and the routines that
  walk them: the display renderer \<open>duckdb_logical_type_render\<close> and the type names of
  \<open>src/src/values.cpp\<close>, the SQL declaration \<open>sql_type\<close> of \<open>src/src/typed_value.cpp\<close>, and the
  structural equality and fast-write classification of \<open>src/src/vector.cpp\<close>. A child handle
  the API does not return (a null pointer) is \<open>None\<close>, as is a null member name.
\<close>

section \<open>Type identifiers\<close>

datatype duckdb_type =
    T_BOOLEAN | T_TINYINT | T_SMALLINT | T_INTEGER | T_BIGINT | T_UTINYINT | T_USMALLINT
    | T_UINTEGER | T_UBIGINT | T_FLOAT | T_DOUBLE | T_TIMESTAMP | T_DATE | T_TIME | T_INTERVAL
    | T_HUGEINT | T_UHUGEINT | T_VARCHAR | T_BLOB | T_DECIMAL | T_TIMESTAMP_S | T_TIMESTAMP_MS
    | T_TIMESTAMP_NS | T_ENUM | T_LIST | T_STRUCT | T_MAP | T_ARRAY | T_UUID | T_UNION | T_BIT
    | T_TIME_TZ | T_TIMESTAMP_TZ | T_TIMESTAMP_TZ_NS | T_TIME_NS | T_GEOMETRY | T_VARIANT
    | T_BIGNUM | T_SQLNULL | T_ANY | T_INVALID | T_OTHER

text \<open>The \<open>switch\<close> of \<open>duckdb_type_name\<close> as a table; every other id is \<open>UNKNOWN\<close>.\<close>

definition type_names :: "(duckdb_type \<times> string) list" where
  "type_names =
    [(T_BOOLEAN, ''BOOLEAN''), (T_TINYINT, ''TINYINT''), (T_SMALLINT, ''SMALLINT''),
     (T_INTEGER, ''INTEGER''), (T_BIGINT, ''BIGINT''), (T_UTINYINT, ''UTINYINT''),
     (T_USMALLINT, ''USMALLINT''), (T_UINTEGER, ''UINTEGER''), (T_UBIGINT, ''UBIGINT''),
     (T_FLOAT, ''FLOAT''), (T_DOUBLE, ''DOUBLE''), (T_TIMESTAMP, ''TIMESTAMP''),
     (T_DATE, ''DATE''), (T_TIME, ''TIME''), (T_INTERVAL, ''INTERVAL''),
     (T_HUGEINT, ''HUGEINT''), (T_UHUGEINT, ''UHUGEINT''), (T_VARCHAR, ''VARCHAR''),
     (T_BLOB, ''BLOB''), (T_DECIMAL, ''DECIMAL''), (T_TIMESTAMP_S, ''TIMESTAMP_S''),
     (T_TIMESTAMP_MS, ''TIMESTAMP_MS''), (T_TIMESTAMP_NS, ''TIMESTAMP_NS''),
     (T_ENUM, ''ENUM''), (T_LIST, ''LIST''), (T_STRUCT, ''STRUCT''), (T_MAP, ''MAP''),
     (T_ARRAY, ''ARRAY''), (T_UUID, ''UUID''), (T_UNION, ''UNION''), (T_BIT, ''BIT''),
     (T_TIME_TZ, ''TIME_TZ''), (T_TIMESTAMP_TZ, ''TIMESTAMP_TZ''),
     (T_TIMESTAMP_TZ_NS, ''TIMESTAMPTZ_NS''), (T_TIME_NS, ''TIME_NS''),
     (T_GEOMETRY, ''GEOMETRY''), (T_VARIANT, ''VARIANT''), (T_BIGNUM, ''BIGNUM''),
     (T_SQLNULL, ''SQLNULL'')]"

definition duckdb_type_name :: "duckdb_type \<Rightarrow> string" where
  "duckdb_type_name t = (case map_of type_names t of None \<Rightarrow> ''UNKNOWN'' | Some n \<Rightarrow> n)"

section \<open>Logical types\<close>

text \<open>
  One constructor per family with parameters; \<open>LT_prim\<close> is every other type, with its alias.
\<close>

datatype ltype =
    LT_prim duckdb_type "string option"
  | LT_decimal nat nat
  | LT_enum "string option list"
  | LT_list "ltype option"
  | LT_array "ltype option" nat
  | LT_map "ltype option" "ltype option"
  | LT_struct "(string option \<times> ltype option) list"
  | LT_union "(string option \<times> ltype option) list"
  | LT_geometry "string option"

fun type_id :: "ltype \<Rightarrow> duckdb_type" where
  "type_id (LT_prim t a) = t"
| "type_id (LT_decimal w s) = T_DECIMAL"
| "type_id (LT_enum vs) = T_ENUM"
| "type_id (LT_list c) = T_LIST"
| "type_id (LT_array c n) = T_ARRAY"
| "type_id (LT_map k v) = T_MAP"
| "type_id (LT_struct ms) = T_STRUCT"
| "type_id (LT_union ms) = T_UNION"
| "type_id (LT_geometry crs) = T_GEOMETRY"

text \<open>A handle the API can return: \<open>LT_prim\<close> never carries the id of a parameterised family.\<close>

definition family_ids :: "duckdb_type list" where
  "family_ids = [T_DECIMAL, T_ENUM, T_LIST, T_ARRAY, T_MAP, T_STRUCT, T_UNION, T_GEOMETRY]"

fun ltype_wf :: "ltype \<Rightarrow> bool" and oltype_wf :: "ltype option \<Rightarrow> bool"
  and members_wf :: "(string option \<times> ltype option) list \<Rightarrow> bool" where
  "ltype_wf (LT_prim t a) = (t \<notin> set family_ids)"
| "ltype_wf (LT_list c) = oltype_wf c"
| "ltype_wf (LT_array c n) = oltype_wf c"
| "ltype_wf (LT_map k v) = (oltype_wf k \<and> oltype_wf v)"
| "ltype_wf (LT_struct ms) = members_wf ms"
| "ltype_wf (LT_union ms) = members_wf ms"
| "ltype_wf (LT_decimal w s) = True"
| "ltype_wf (LT_enum vs) = True"
| "ltype_wf (LT_geometry crs) = True"
| "oltype_wf None = True"
| "oltype_wf (Some t) = ltype_wf t"
| "members_wf [] = True"
| "members_wf ((n, c) # ms) = (oltype_wf c \<and> members_wf ms)"

section \<open>Quoting\<close>

text \<open>\<open>quote(s, q)\<close>: every delimiter inside is doubled.\<close>

fun double_char :: "char \<Rightarrow> string \<Rightarrow> string" where
  "double_char q [] = []"
| "double_char q (c # s) = (if c = q then c # c # double_char q s else c # double_char q s)"

definition quote :: "char \<Rightarrow> string \<Rightarrow> string" where
  "quote q s = q # double_char q s @ [q]"

abbreviation dquote :: char where "dquote \<equiv> CHR 0x22"
abbreviation squote :: char where "squote \<equiv> CHR 0x27"

section \<open>The display renderer\<close>

definition opt_text :: "string option \<Rightarrow> string" where
  "opt_text s = (case s of None \<Rightarrow> [] | Some t \<Rightarrow> t)"

fun duckdb_logical_type_render :: "ltype \<Rightarrow> string"
  and render_members :: "(string option \<times> ltype option) list \<Rightarrow> string list" where
  "duckdb_logical_type_render (LT_geometry crs) =
     ''GEOMETRY'' @ (case crs of None \<Rightarrow> [] | Some c \<Rightarrow>
       if c = [] then [] else ''('' @ [squote] @ double_char squote c @ [squote] @ '')'')"
| "duckdb_logical_type_render (LT_decimal w s) =
     ''DECIMAL('' @ dec_string w @ '','' @ dec_string s @ '')''"
| "duckdb_logical_type_render (LT_list c) =
     (case c of None \<Rightarrow> ''LIST'' | Some t \<Rightarrow> duckdb_logical_type_render t @ ''[]'')"
| "duckdb_logical_type_render (LT_array c n) =
     (case c of None \<Rightarrow> ''ARRAY''
      | Some t \<Rightarrow> duckdb_logical_type_render t @ ''['' @ dec_string n @ '']'')"
| "duckdb_logical_type_render (LT_map k v) =
     (case (k, v) of (Some kt, Some vt) \<Rightarrow>
        ''MAP('' @ duckdb_logical_type_render kt @ '', '' @ duckdb_logical_type_render vt @ '')''
      | _ \<Rightarrow> ''MAP'')"
| "duckdb_logical_type_render (LT_struct ms) = ''STRUCT('' @ join '', '' (render_members ms) @ '')''"
| "duckdb_logical_type_render (LT_union ms) = ''UNION('' @ join '', '' (render_members ms) @ '')''"
| "duckdb_logical_type_render (LT_enum vs) =
     ''ENUM('' @ join '', '' (map (\<lambda>v. [squote] @ opt_text v @ [squote]) vs) @ '')''"
| "duckdb_logical_type_render (LT_prim t a) = duckdb_type_name t"
| "render_members [] = []"
| "render_members ((n, c) # ms) =
     ((case n of None \<Rightarrow> [] | Some name \<Rightarrow> name @ '' '')
      @ (case c of None \<Rightarrow> ''?'' | Some t \<Rightarrow> duckdb_logical_type_render t)) # render_members ms"

section \<open>The SQL declaration\<close>

text \<open>
  \<open>sql_type\<close>; the error is the text of the thrown \<open>std::runtime_error\<close>. A null child handle has
  an invalid type id, which falls to the default case and renders as \<open>UNKNOWN\<close>.
\<close>

fun sql_type :: "ltype \<Rightarrow> nat \<Rightarrow> (string, string) result"
  and sql_otype :: "ltype option \<Rightarrow> nat \<Rightarrow> (string, string) result"
  and sql_members :: "(string option \<times> ltype option) list \<Rightarrow> nat \<Rightarrow> (string, string list) result" where
  "sql_type (LT_decimal w s) depth =
     (if depth > 64 then Inl ''Type exceeds nesting limit''
      else Inr (''DECIMAL('' @ dec_string w @ '','' @ dec_string s @ '')''))"
| "sql_type (LT_list c) depth =
     (if depth > 64 then Inl ''Type exceeds nesting limit''
      else rbind (sql_otype c (depth + 1)) (\<lambda>t. Inr (t @ ''[]'')))"
| "sql_type (LT_array c n) depth =
     (if depth > 64 then Inl ''Type exceeds nesting limit''
      else rbind (sql_otype c (depth + 1)) (\<lambda>t. Inr (t @ ''['' @ dec_string n @ '']'')))"
| "sql_type (LT_map k v) depth =
     (if depth > 64 then Inl ''Type exceeds nesting limit''
      else rbind (sql_otype k (depth + 1)) (\<lambda>kt.
           rbind (sql_otype v (depth + 1)) (\<lambda>vt.
             Inr (''MAP('' @ kt @ '', '' @ vt @ '')''))))"
| "sql_type (LT_struct ms) depth =
     (if depth > 64 then Inl ''Type exceeds nesting limit''
      else rbind (sql_members ms (depth + 1)) (\<lambda>ts. Inr (''STRUCT('' @ join '', '' ts @ '')'')))"
| "sql_type (LT_union ms) depth =
     (if depth > 64 then Inl ''Type exceeds nesting limit''
      else rbind (sql_members ms (depth + 1)) (\<lambda>ts. Inr (''UNION('' @ join '', '' ts @ '')'')))"
| "sql_type (LT_enum vs) depth =
     (if depth > 64 then Inl ''Type exceeds nesting limit''
      else Inr (''ENUM('' @ join '', '' (map (\<lambda>v. quote squote (opt_text v)) vs) @ '')''))"
| "sql_type (LT_geometry crs) depth =
     (if depth > 64 then Inl ''Type exceeds nesting limit''
      else Inr (''GEOMETRY'' @ (case crs of None \<Rightarrow> [] | Some c \<Rightarrow> ''('' @ quote squote c @ '')'')))"
| "sql_type (LT_prim t a) depth =
     (if depth > 64 then Inl ''Type exceeds nesting limit''
      else if t = T_TIME_TZ then Inr ''TIMETZ''
      else if t = T_TIMESTAMP_TZ then Inr ''TIMESTAMPTZ''
      else if a = Some ''JSON'' then Inr ''JSON''
      else Inr (duckdb_type_name t))"
| "sql_otype None depth =
     (if depth > 64 then Inl ''Type exceeds nesting limit'' else Inr (duckdb_type_name T_INVALID))"
| "sql_otype (Some t) depth = sql_type t depth"
| "sql_members [] depth = Inr []"
| "sql_members ((n, c) # ms) depth =
     rbind (sql_otype c depth) (\<lambda>t.
     rbind (sql_members ms depth) (\<lambda>ts.
       Inr ((quote dquote (opt_text n) @ '' '' @ t) # ts)))"

definition duckdb_logical_type_sql :: "ltype \<Rightarrow> (string, string) result" where
  "duckdb_logical_type_sql t = sql_type t 0"

section \<open>Structural equality\<close>

text \<open>\<open>duckdb_vector_types_equal\<close>: a null handle has the invalid id.\<close>

fun duckdb_vector_types_equal :: "ltype \<Rightarrow> ltype \<Rightarrow> bool"
  and otypes_equal :: "ltype option \<Rightarrow> ltype option \<Rightarrow> bool"
  and members_equal :: "(string option \<times> ltype option) list \<Rightarrow> (string option \<times> ltype option) list \<Rightarrow> bool" where
  "duckdb_vector_types_equal (LT_decimal w s) b =
     (case b of LT_decimal w' s' \<Rightarrow> w = w' \<and> s = s' | _ \<Rightarrow> False)"
| "duckdb_vector_types_equal (LT_enum vs) b =
     (case b of LT_enum vs' \<Rightarrow>
        length vs = length vs' \<and> list_all2 (\<lambda>v v'. opt_text v = opt_text v') vs vs'
      | _ \<Rightarrow> False)"
| "duckdb_vector_types_equal (LT_list c) b =
     (case b of LT_list c' \<Rightarrow> otypes_equal c c' | _ \<Rightarrow> False)"
| "duckdb_vector_types_equal (LT_array c n) b =
     (case b of LT_array c' n' \<Rightarrow> n = n' \<and> otypes_equal c c' | _ \<Rightarrow> False)"
| "duckdb_vector_types_equal (LT_map k v) b =
     (case b of LT_map k' v' \<Rightarrow> otypes_equal k k' \<and> otypes_equal v v' | _ \<Rightarrow> False)"
| "duckdb_vector_types_equal (LT_struct ms) b =
     (case b of LT_struct ms' \<Rightarrow> members_equal ms ms' | _ \<Rightarrow> False)"
| "duckdb_vector_types_equal (LT_union ms) b =
     (case b of LT_union ms' \<Rightarrow> members_equal ms ms' | _ \<Rightarrow> False)"
| "duckdb_vector_types_equal (LT_prim t a) b = (t = type_id b)"
| "duckdb_vector_types_equal (LT_geometry crs) b = (T_GEOMETRY = type_id b)"
| "otypes_equal (Some a) (Some b) = duckdb_vector_types_equal a b"
| "otypes_equal None None = True"
| "otypes_equal None (Some b) = (type_id b = T_INVALID)"
| "otypes_equal (Some a) None = (type_id a = T_INVALID)"
| "members_equal [] [] = True"
| "members_equal ((n, c) # ms) ((n', c') # ms') =
     (opt_text n = opt_text n' \<and> otypes_equal c c' \<and> members_equal ms ms')"
| "members_equal _ _ = False"

text \<open>
  The layout a type describes: alias and CRS erased, a null name read as the empty string, a
  null child as the invalid type.
\<close>

fun layout :: "ltype \<Rightarrow> ltype" and olayout :: "ltype option \<Rightarrow> ltype"
  and members_layout :: "(string option \<times> ltype option) list \<Rightarrow> (string option \<times> ltype option) list" where
  "layout (LT_prim t a) = LT_prim t None"
| "layout (LT_decimal w s) = LT_decimal w s"
| "layout (LT_enum vs) = LT_enum (map (\<lambda>v. Some (opt_text v)) vs)"
| "layout (LT_list c) = LT_list (Some (olayout c))"
| "layout (LT_array c n) = LT_array (Some (olayout c)) n"
| "layout (LT_map k v) = LT_map (Some (olayout k)) (Some (olayout v))"
| "layout (LT_struct ms) = LT_struct (members_layout ms)"
| "layout (LT_union ms) = LT_union (members_layout ms)"
| "layout (LT_geometry crs) = LT_geometry None"
| "olayout None = LT_prim T_INVALID None"
| "olayout (Some t) = layout t"
| "members_layout [] = []"
| "members_layout ((n, c) # ms) = (Some (opt_text n), Some (olayout c)) # members_layout ms"

lemma type_id_layout [simp]: "type_id (layout t) = type_id t"
  by (cases t) simp_all

lemma map_opt_text_eq:
  "list_all2 (\<lambda>v v'. opt_text v = opt_text v') vs vs'
     \<longleftrightarrow> map (\<lambda>v. Some (opt_text v)) vs = map (\<lambda>v. Some (opt_text v)) vs'"
  by (induction vs arbitrary: vs') (auto simp: list_all2_Cons1 Cons_eq_map_conv)

lemma layout_eq_prim:
  "ltype_wf t \<Longrightarrow> v \<notin> set family_ids \<Longrightarrow> layout t = LT_prim v None \<longleftrightarrow> type_id t = v"
  "ltype_wf t \<Longrightarrow> v \<notin> set family_ids \<Longrightarrow> LT_prim v None = layout t \<longleftrightarrow> type_id t = v"
  by (cases t; auto simp: family_ids_def)+

lemma layout_eq_geometry:
  "ltype_wf t \<Longrightarrow> layout t = LT_geometry None \<longleftrightarrow> type_id t = T_GEOMETRY"
  "ltype_wf t \<Longrightarrow> LT_geometry None = layout t \<longleftrightarrow> type_id t = T_GEOMETRY"
  by (cases t; auto simp: family_ids_def)+

lemma types_equal_layout_mutual:
  "ltype_wf a \<Longrightarrow> ltype_wf b \<Longrightarrow> duckdb_vector_types_equal a b \<longleftrightarrow> layout a = layout b"
  "oltype_wf c \<Longrightarrow> oltype_wf d \<Longrightarrow> otypes_equal c d \<longleftrightarrow> olayout c = olayout d"
  "members_wf ms \<Longrightarrow> members_wf ns \<Longrightarrow> members_equal ms ns \<longleftrightarrow> members_layout ms = members_layout ns"
proof (induction a b and c d and ms ns rule: duckdb_vector_types_equal_otypes_equal_members_equal.induct)
qed (auto simp: map_opt_text_eq layout_eq_prim layout_eq_geometry family_ids_def
    dest: map_eq_imp_length_eq split: ltype.splits)

lemmas types_equal_layout = types_equal_layout_mutual(1)

text \<open>
  \<open>duckdb_vector_types_equal\<close> decides equality of physical layouts: two types compare equal
  exactly when they agree after aliases and geometry CRS are erased. It is therefore an
  equivalence relation on the types the API returns.
\<close>

theorem vector_types_equal_iff_layout:
  assumes "ltype_wf a" and "ltype_wf b"
  shows "duckdb_vector_types_equal a b \<longleftrightarrow> layout a = layout b"
  using assms by (rule types_equal_layout)

theorem vector_types_equal_iff_layout_witness:
  "duckdb_vector_types_equal (LT_struct [(Some ''a'', Some (LT_prim T_VARCHAR (Some ''JSON'')))])
       (LT_struct [(Some ''a'', Some (LT_prim T_VARCHAR None))])
   \<and> \<not> duckdb_vector_types_equal (LT_decimal 18 3) (LT_decimal 18 2)"
  using vector_types_equal_iff_layout
      [of "LT_struct [(Some ''a'', Some (LT_prim T_VARCHAR (Some ''JSON'')))]"
          "LT_struct [(Some ''a'', Some (LT_prim T_VARCHAR None))]"]
    vector_types_equal_iff_layout [of "LT_decimal 18 3" "LT_decimal 18 2"]
  by (simp add: family_ids_def)

section \<open>Fast writes\<close>

datatype vector_fast_kind =
    FK_none | FK_boolean | FK_int8 | FK_int16 | FK_int32 | FK_int64
  | FK_uint8 | FK_uint16 | FK_uint32 | FK_uint64 | FK_float64 | FK_varchar | FK_blob

fun ltype_alias :: "ltype \<Rightarrow> string option" where
  "ltype_alias (LT_prim t a) = a"
| "ltype_alias _ = None"

definition fast_kinds :: "(duckdb_type \<times> vector_fast_kind) list" where
  "fast_kinds =
    [(T_BOOLEAN, FK_boolean), (T_TINYINT, FK_int8), (T_SMALLINT, FK_int16), (T_INTEGER, FK_int32),
     (T_BIGINT, FK_int64), (T_UTINYINT, FK_uint8), (T_USMALLINT, FK_uint16), (T_UINTEGER, FK_uint32),
     (T_UBIGINT, FK_uint64), (T_DOUBLE, FK_float64), (T_VARCHAR, FK_varchar), (T_BLOB, FK_blob)]"

definition duckdb_vector_fast_kind :: "ltype \<Rightarrow> vector_fast_kind" where
  "duckdb_vector_fast_kind t =
     (if ltype_alias t \<noteq> None then FK_none
      else case map_of fast_kinds (type_id t) of None \<Rightarrow> FK_none | Some k \<Rightarrow> k)"

section \<open>The nesting limit\<close>

text \<open>Levels below the root that \<open>sql_type\<close> descends.\<close>

fun nesting :: "ltype \<Rightarrow> nat" and onesting :: "ltype option \<Rightarrow> nat"
  and members_nesting :: "(string option \<times> ltype option) list \<Rightarrow> nat" where
  "nesting (LT_list c) = Suc (onesting c)"
| "nesting (LT_array c n) = Suc (onesting c)"
| "nesting (LT_map k v) = Suc (max (onesting k) (onesting v))"
| "nesting (LT_struct ms) = members_nesting ms"
| "nesting (LT_union ms) = members_nesting ms"
| "nesting (LT_prim t a) = 0"
| "nesting (LT_decimal w s) = 0"
| "nesting (LT_enum vs) = 0"
| "nesting (LT_geometry crs) = 0"
| "onesting None = 0"
| "onesting (Some t) = nesting t"
| "members_nesting [] = 0"
| "members_nesting ((n, c) # ms) = max (Suc (onesting c)) (members_nesting ms)"

lemma sql_type_defined_mutual:
  "(\<exists>s. sql_type t d = Inr s) \<longleftrightarrow> d + nesting t \<le> 64"
  "(\<exists>s. sql_otype c d = Inr s) \<longleftrightarrow> d + onesting c \<le> 64"
  "0 < d \<Longrightarrow> (\<exists>s. sql_members ms d = Inr s) \<longleftrightarrow> ms = [] \<or> d + members_nesting ms \<le> 65"
proof (induction t d and c d and ms d rule: sql_type_sql_otype_sql_members.induct)
qed (auto simp: rbind_eq_Inr max_def)

lemma sql_type_error_mutual:
  "sql_type t d = Inl e \<Longrightarrow> e = ''Type exceeds nesting limit''"
  "sql_otype c d = Inl e \<Longrightarrow> e = ''Type exceeds nesting limit''"
  "sql_members ms d = Inl e \<Longrightarrow> e = ''Type exceeds nesting limit''"
proof (induction t d and c d and ms d rule: sql_type_sql_otype_sql_members.induct)
qed (auto simp: rbind_eq_Inl split: if_splits)

text \<open>
  \<open>duckdb_logical_type_sql\<close> renders a type exactly when its nesting is at most 64 levels below
  the root; otherwise it fails with the nesting error and with no other error.
\<close>

theorem logical_type_sql_defined:
  "duckdb_logical_type_sql t
     = (if nesting t \<le> 64 then Inr (projr (duckdb_logical_type_sql t))
        else Inl ''Type exceeds nesting limit'')"
proof (cases "duckdb_logical_type_sql t")
  case (Inr s)
  then have "nesting t \<le> 64"
    using sql_type_defined_mutual(1) [of t 0] by (auto simp: duckdb_logical_type_sql_def)
  with Inr show ?thesis by simp
next
  case (Inl e)
  then have "\<not> nesting t \<le> 64"
    using sql_type_defined_mutual(1) [of t 0] by (auto simp: duckdb_logical_type_sql_def)
  moreover have "e = ''Type exceeds nesting limit''"
    using sql_type_error_mutual(1) [of t 0 e] Inl by (simp add: duckdb_logical_type_sql_def)
  ultimately show ?thesis using Inl by simp
qed

end
