(* ===== verification/Type_Decl.thy ===== *)
theory Type_Decl
  imports Prelude Errors Logical_Type
begin

text \<open>
  The type declaration grammar of \<open>src/src/typed_value.cpp\<close> (\<open>struct parser\<close> and
  \<open>duckdb_canonicalize_type\<close>): a lexer, a recursive descent parser that emits the canonical
  text as it goes, and the checks around them. Errors are the texts of the thrown
  \<open>std::runtime_error\<close>. Characters are bytes classified as in the C locale.
\<close>

section \<open>Character classes\<close>

abbreviation char_code :: "char \<Rightarrow> nat" where
  "char_code c \<equiv> of_char c"

definition c_isspace :: "char \<Rightarrow> bool" where
  "c_isspace c \<longleftrightarrow> char_code c = 32 \<or> 9 \<le> char_code c \<and> char_code c \<le> 13"

definition c_isdigit :: "char \<Rightarrow> bool" where
  "c_isdigit c \<longleftrightarrow> 48 \<le> char_code c \<and> char_code c \<le> 57"

definition c_islower :: "char \<Rightarrow> bool" where
  "c_islower c \<longleftrightarrow> 97 \<le> char_code c \<and> char_code c \<le> 122"

definition c_isalpha :: "char \<Rightarrow> bool" where
  "c_isalpha c \<longleftrightarrow> 65 \<le> char_code c \<and> char_code c \<le> 90 \<or> c_islower c"

definition c_toupper :: "char \<Rightarrow> char" where
  "c_toupper c = (if c_islower c then char_of (char_code c - 32) else c)"

abbreviation nul :: char where "nul \<equiv> CHR 0x00"

section \<open>The lexer\<close>

text \<open>
  \<open>kind\<close> is \<open>i\<close> for an identifier, \<open>n\<close> for a number, the delimiter for a quoted token and the
  character itself for punctuation.
\<close>

record token =
  tok_text :: string
  tok_kind :: char

abbreviation tok :: "string \<Rightarrow> char \<Rightarrow> token" where
  "tok t k \<equiv> \<lparr>tok_text = t, tok_kind = k\<rparr>"

definition ident_start :: "char \<Rightarrow> bool" where
  "ident_start c \<longleftrightarrow> c_isalpha c \<or> c = CHR ''_'' \<or> 128 \<le> char_code c"

definition ident_char :: "char \<Rightarrow> bool" where
  "ident_char c \<longleftrightarrow> c_isalpha c \<or> c_isdigit c \<or> c = CHR ''_'' \<or> c = CHR ''$'' \<or> 128 \<le> char_code c"

definition punctuation :: "char list" where
  "punctuation = [CHR ''('', CHR '')'', CHR ''['', CHR '']'', CHR '','', CHR ''.'']"

text \<open>The body of a quoted token after its opening delimiter; \<open>None\<close> if it does not end.\<close>

fun lex_quoted :: "char \<Rightarrow> string \<Rightarrow> (string \<times> string) option" where
  "lex_quoted q [] = None"
| "lex_quoted q [x] = (if x = q then Some ([], []) else None)"
| "lex_quoted q (x # y # s) =
     (if x = q
      then if y = q then map_option (\<lambda>(t, r). (q # t, r)) (lex_quoted q s) else Some ([], y # s)
      else map_option (\<lambda>(t, r). (x # t, r)) (lex_quoted q (y # s)))"

lemma lex_quoted_length: "lex_quoted q s = Some (t, r) \<Longrightarrow> length r < length s"
  by (induction q s arbitrary: t r rule: lex_quoted.induct) (fastforce split: if_splits)+

function tokens_of :: "string \<Rightarrow> (string, token list) result" where
  "tokens_of [] = Inr []"
| "tokens_of (c # s) =
     (if c_isspace c then tokens_of s
      else if c = nul then Inl ''NUL in type declaration''
      else if c = squote \<or> c = dquote then
        (case lex_quoted c s of
           None \<Rightarrow> Inl ''Unterminated quoted token''
         | Some (t, r) \<Rightarrow> rbind (tokens_of r) (\<lambda>ts. Inr (tok t c # ts)))
      else if ident_start c then
        rbind (tokens_of (dropWhile ident_char s))
          (\<lambda>ts. Inr (tok (c # takeWhile ident_char s) (CHR ''i'') # ts))
      else if c_isdigit c then
        rbind (tokens_of (dropWhile c_isdigit s))
          (\<lambda>ts. Inr (tok (c # takeWhile c_isdigit s) (CHR ''n'') # ts))
      else if c \<in> set punctuation then rbind (tokens_of s) (\<lambda>ts. Inr (tok [c] c # ts))
      else Inl ''Invalid token in type declaration'')"
  by pat_completeness auto
termination
proof (relation "measure length")
qed (auto dest: lex_quoted_length intro: le_less_trans [OF length_dropWhile_le])

definition lex_declaration :: "string \<Rightarrow> (string, token list) result" where
  "lex_declaration s = (if nul \<in> set s then Inl ''NUL in type declaration'' else tokens_of s)"

section \<open>The parser\<close>

definition at :: "char \<Rightarrow> token list \<Rightarrow> bool" where
  "at k ts = (case ts of [] \<Rightarrow> False | t # ts' \<Rightarrow> tok_kind t = k)"

definition upper :: "string \<Rightarrow> string" where
  "upper s = map c_toupper s"

definition word :: "string \<Rightarrow> token list \<Rightarrow> bool" where
  "word w ts = (case ts of [] \<Rightarrow> False | t # ts' \<Rightarrow> tok_kind t = CHR ''i'' \<and> upper (tok_text t) = w)"

type_synonym 'a parsed = "(string, 'a \<times> token list) result"

fun ident :: "token list \<Rightarrow> string parsed" where
  "ident [] = Inl ''Expected type or field name''"
| "ident (t # ts) =
     (if tok_kind t = CHR ''i'' then Inr (tok_text t, ts)
      else if tok_kind t = dquote then Inr (quote dquote (tok_text t), ts)
      else Inl ''Expected type or field name'')"

definition need :: "char \<Rightarrow> token list \<Rightarrow> (string, token list) result" where
  "need k ts = (if at k ts then Inr (tl ts) else Inl ''Malformed type declaration'')"

definition internal_types :: "string list" where
  "internal_types =
    [''INVALID'', ''ANY'', ''UNKNOWN'', ''SQLNULL'', ''INTEGER_LITERAL'', ''STRING_LITERAL'',
     ''LAMBDA'', ''TABLE'', ''POINTER'', ''VALIDITY'']"

text \<open>Each step takes the name built so far and the tokens left, and returns both.\<close>

definition type_name_start :: "token list \<Rightarrow> string parsed" where
  "type_name_start ts =
     rbind (ident ts) (\<lambda>(n, ts1).
       let name = (if hd n \<noteq> dquote then upper n else n)
       in if name \<in> set internal_types then Inl ''Internal DuckDB type is not a SQL value type''
          else Inr (name, ts1))"

fun dotted :: "string \<Rightarrow> token list \<Rightarrow> string parsed" where
  "dotted name [] = Inr (name, [])"
| "dotted name [t] =
     (if tok_kind t = CHR ''.'' then Inl ''Expected type or field name'' else Inr (name, [t]))"
| "dotted name (t # u # ts) =
     (if tok_kind t = CHR ''.''
      then rbind (ident (u # ts)) (\<lambda>(n, ts1). dotted (name @ ''.'' @ n) ts)
      else Inr (name, t # u # ts))"

definition double_precision :: "string \<Rightarrow> token list \<Rightarrow> string parsed" where
  "double_precision name ts =
     (if name = ''DOUBLE'' \<and> word ''PRECISION'' ts then Inr (name @ '' PRECISION'', tl ts)
      else Inr (name, ts))"

definition time_zone :: "string \<Rightarrow> token list \<Rightarrow> string parsed" where
  "time_zone name ts =
     (if (name = ''TIME'' \<or> name = ''TIMESTAMP'') \<and> (word ''WITH'' ts \<or> word ''WITHOUT'' ts)
      then let name1 = name @ '' '' @ upper (tok_text (hd ts)); ts1 = tl ts
           in if \<not> word ''TIME'' ts1 then Inl ''Expected TIME ZONE''
              else if \<not> word ''ZONE'' (tl ts1) then Inl ''Expected TIME ZONE''
              else Inr (name1 @ '' TIME ZONE'', tl (tl ts1))
      else Inr (name, ts))"

definition national :: "string \<Rightarrow> token list \<Rightarrow> string parsed" where
  "national name ts =
     (if name = ''NATIONAL''
      then if \<not> word ''CHAR'' ts \<and> \<not> word ''CHARACTER'' ts then Inl ''Expected CHAR or CHARACTER''
           else Inr (name @ '' '' @ upper (tok_text (hd ts)), tl ts)
      else Inr (name, ts))"

definition char_types :: "string list" where
  "char_types = [''CHARACTER'', ''CHAR'', ''NCHAR'', ''NATIONAL CHAR'', ''NATIONAL CHARACTER'']"

definition varying :: "string \<Rightarrow> token list \<Rightarrow> string parsed" where
  "varying name ts =
     (if name \<in> set char_types \<and> word ''VARYING'' ts then Inr (name @ '' VARYING'', tl ts)
      else Inr (name, ts))"

definition interval_units :: "string list" where
  "interval_units = [''YEAR'', ''MONTH'', ''DAY'', ''HOUR'', ''MINUTE'', ''SECOND'']"

definition at_unit :: "token list \<Rightarrow> bool" where
  "at_unit ts = (case ts of [] \<Rightarrow> False
     | t # ts' \<Rightarrow> tok_kind t = CHR ''i'' \<and> upper (tok_text t) \<in> set interval_units)"

definition interval_unit :: "string \<Rightarrow> token list \<Rightarrow> string parsed" where
  "interval_unit name ts =
     (if name = ''INTERVAL'' \<and> at_unit ts
      then let name1 = name @ '' '' @ upper (tok_text (hd ts)); ts1 = tl ts
           in if word ''TO'' ts1
              then if at_unit (tl ts1)
                   then Inr (name1 @ '' TO '' @ upper (tok_text (hd (tl ts1))), tl (tl ts1))
                   else Inl ''Expected INTERVAL unit''
              else Inr (name1, ts1)
      else Inr (name, ts))"

definition type_head :: "token list \<Rightarrow> string parsed" where
  "type_head ts =
     rbind (type_name_start ts) (\<lambda>(n0, ts0).
     rbind (dotted n0 ts0) (\<lambda>(n1, ts1).
     rbind (double_precision n1 ts1) (\<lambda>(n2, ts2).
     rbind (time_zone n2 ts2) (\<lambda>(n3, ts3).
     rbind (national n3 ts3) (\<lambda>(n4, ts4).
     rbind (varying n4 ts4) (\<lambda>(n5, ts5).
     interval_unit n5 ts5))))))"

text \<open>The trailing \<open>[n]\<close> suffixes; each raises the depth.\<close>

fun array_suffix :: "nat \<Rightarrow> string \<Rightarrow> token list \<Rightarrow> string parsed" where
  "array_suffix depth name [] = Inr (name, [])"
| "array_suffix depth name (t # ts) =
     (if tok_kind t = CHR ''['' then
        if depth + 1 > 64 then Inl ''Type declaration exceeds nesting limit''
        else (case ts of
            [] \<Rightarrow> Inl ''Malformed type declaration''
          | u # us \<Rightarrow>
              if tok_kind u = CHR ''n'' then
                (case us of
                   [] \<Rightarrow> Inl ''Malformed type declaration''
                 | v # vs \<Rightarrow> if tok_kind v = CHR '']''
                     then array_suffix (depth + 1) (name @ ''['' @ tok_text u @ '']'') vs
                     else Inl ''Malformed type declaration'')
              else if tok_kind u = CHR '']'' then array_suffix (depth + 1) (name @ ''[]'') us
              else Inl ''Malformed type declaration'')
      else Inr (name, t # ts))"

text \<open>
  \<open>type\<close>, its parameter loop and one parameter. \<open>base\<close> is the name before the parenthesis; the loop
  appends to \<open>name\<close>.
\<close>

definition is_members :: "string \<Rightarrow> bool" where
  "is_members base \<longleftrightarrow> base = ''STRUCT'' \<or> base = ''UNION''"

definition is_nested :: "string \<Rightarrow> bool" where
  "is_nested base \<longleftrightarrow> base = ''MAP'' \<or> base = ''LIST'' \<or> base = ''ARRAY''"

function parse_type :: "nat \<Rightarrow> token list \<Rightarrow> string parsed"
  and type_params :: "string \<Rightarrow> nat \<Rightarrow> bool \<Rightarrow> string \<Rightarrow> token list \<Rightarrow> string parsed"
  and type_param :: "string \<Rightarrow> nat \<Rightarrow> string \<Rightarrow> token list \<Rightarrow> string parsed" where
  "parse_type depth ts =
     (if depth > 64 then Inl ''Type declaration exceeds nesting limit''
      else rbind (type_head ts) (\<lambda>(name, ts1).
        if at (CHR ''('') ts1
        then rbind (type_params name depth True (name @ ''('') (tl ts1)) (\<lambda>(name2, ts2).
               array_suffix depth name2 ts2)
        else array_suffix depth name ts1))"
| "type_params base depth first name ts =
     (if at (CHR '')'') ts
      then if first then Inl ''Empty type parameters'' else Inr (name @ '')'', tl ts)
      else rbind (if first then Inr (name, ts)
                  else rbind (need (CHR '','') ts) (\<lambda>ts1. Inr (name @ '', '', ts1)))
        (\<lambda>(name1, ts1).
           rbind (type_param base depth name1 ts1) (\<lambda>(name2, ts2).
             if ts2 = [] then Inl ''Unterminated type parameters''
             else type_params base depth False name2 ts2)))"
| "type_param base depth name ts =
     (if is_members base then
        rbind (ident ts) (\<lambda>(n, ts1).
        rbind (parse_type (depth + 1) ts1) (\<lambda>(t, ts2).
          Inr (name @ n @ '' '' @ t, ts2)))
      else if is_nested base then
        if at (CHR ''n'') ts then Inr (name @ tok_text (hd ts), tl ts)
        else rbind (parse_type (depth + 1) ts) (\<lambda>(t, ts1). Inr (name @ t, ts1))
      else if at squote ts then Inr (name @ quote squote (tok_text (hd ts)), tl ts)
      else if at (CHR ''n'') ts then Inr (name @ tok_text (hd ts), tl ts)
      else Inl ''Expected type parameter'')"
  by pat_completeness auto

lemma at_Cons [simp]: "at k (t # ts) \<longleftrightarrow> tok_kind t = k"
  by (simp add: at_def)

lemma at_Nil [simp]: "\<not> at k []"
  by (simp add: at_def)

lemma word_Nil [simp]: "\<not> word w []"
  by (simp add: word_def)

lemma at_unit_Nil [simp]: "\<not> at_unit []"
  by (simp add: at_unit_def)

lemma ident_length: "ident ts = Inr (n, ts') \<Longrightarrow> length ts' < length ts"
  by (cases ts) (auto split: if_splits)

lemma dotted_length: "dotted n ts = Inr (n', ts') \<Longrightarrow> length ts' \<le> length ts"
proof (induction n ts arbitrary: n' ts' rule: dotted.induct)
  case (3 name t u ts)
  then show ?case by (fastforce simp: rbind_eq_Inr split: if_splits)
qed (auto split: if_splits)

lemma step_lengths:
  "double_precision n ts = Inr (n', ts') \<Longrightarrow> length ts' \<le> length ts"
  "time_zone n ts = Inr (n', ts') \<Longrightarrow> length ts' \<le> length ts"
  "national n ts = Inr (n', ts') \<Longrightarrow> length ts' \<le> length ts"
  "varying n ts = Inr (n', ts') \<Longrightarrow> length ts' \<le> length ts"
  "interval_unit n ts = Inr (n', ts') \<Longrightarrow> length ts' \<le> length ts"
  by (auto simp: double_precision_def time_zone_def national_def varying_def interval_unit_def Let_def
      split: if_splits)

lemma type_head_length:
  assumes "type_head ts = Inr (n, ts')"
  shows "length ts' < length ts"
  using assms unfolding type_head_def type_name_start_def
  by (auto simp: rbind_eq_Inr Let_def split: if_splits
      dest!: ident_length dotted_length step_lengths)

lemma need_length: "need k ts = Inr ts' \<Longrightarrow> length ts' < length ts"
  by (cases ts) (auto simp: need_def split: if_splits)

lemma array_suffix_length: "array_suffix d n ts = Inr (n', ts') \<Longrightarrow> length ts' \<le> length ts"
proof (induction d n ts arbitrary: n' ts' rule: array_suffix.induct)
  case (2 depth name t ts)
  then show ?case by (fastforce split: if_splits list.splits)
qed simp

lemma parse_lengths:
  "parse_type_type_params_type_param_dom (Inl (d, ts))
     \<Longrightarrow> parse_type d ts = Inr (n, ts') \<Longrightarrow> length ts' < length ts"
  "parse_type_type_params_type_param_dom (Inr (Inl (base, d, first, m, ts)))
     \<Longrightarrow> type_params base d first m ts = Inr (n, ts') \<Longrightarrow> length ts' < length ts"
  "parse_type_type_params_type_param_dom (Inr (Inr (base, d, m, ts)))
     \<Longrightarrow> type_param base d m ts = Inr (n, ts') \<Longrightarrow> length ts' < length ts"
proof (induction d ts and base d first m ts and base d m ts arbitrary: n ts' and n ts' and n ts'
    rule: parse_type_type_params_type_param.pinduct)
  case (1 depth ts)
  show ?case
  proof (cases "depth > 64")
    case True
    with 1 show ?thesis by (simp add: parse_type.psimps)
  next
    case False
    with 1(1,3) obtain name ts1 where h: "type_head ts = Inr (name, ts1)"
      by (auto simp: parse_type.psimps rbind_eq_Inr)
    note len = type_head_length [OF h]
    show ?thesis
    proof (cases "at (CHR ''('') ts1")
      case False
      with 1(1,3) h \<open>\<not> depth > 64\<close> have "array_suffix depth name ts1 = Inr (n, ts')"
        by (simp add: parse_type.psimps)
      with array_suffix_length [OF this] len show ?thesis by simp
    next
      case True
      with 1(1,3) h \<open>\<not> depth > 64\<close> obtain n2 ts2 where
        p: "type_params name depth True (name @ ''('') (tl ts1) = Inr (n2, ts2)" and
        a: "array_suffix depth n2 ts2 = Inr (n, ts')"
        by (auto simp: parse_type.psimps rbind_eq_Inr)
      have "length ts2 < length (tl ts1)" using 1(2) [OF \<open>\<not> depth > 64\<close> h refl True p] .
      with array_suffix_length [OF a] len show ?thesis by simp
    qed
  qed
next
  case (2 base depth first name ts)
  show ?case
  proof (cases "at (CHR '')'') ts")
    case True
    with 2(1,4) show ?thesis
      by (cases ts) (auto simp: type_params.psimps split: if_splits)
  next
    case False
    with 2(1,4) obtain name1 ts1 name2 ts2 where
      s: "(if first then Inr (name, ts)
           else rbind (need (CHR '','') ts) (\<lambda>ts1. Inr (name @ '', '', ts1))) = Inr (name1, ts1)" and
      p: "type_param base depth name1 ts1 = Inr (name2, ts2)" and
      ne: "ts2 \<noteq> []" and
      r: "type_params base depth False name2 ts2 = Inr (n, ts')"
      by (auto simp: type_params.psimps rbind_eq_Inr split: if_splits)
    have "length ts1 \<le> length ts"
      using s by (auto simp: rbind_eq_Inr split: if_splits dest: need_length)
    moreover have "length ts2 < length ts1" using 2(2) [OF False s refl p] .
    moreover have "length ts' < length ts2" using 2(3) [OF False s refl p refl ne r] .
    ultimately show ?thesis by simp
  qed
next
  case (3 base depth name ts)
  show ?case
  proof (cases "is_members base")
    case True
    with 3(1,4) obtain nm ts1 t ts2 where
      i: "ident ts = Inr (nm, ts1)" and p: "parse_type (depth + 1) ts1 = Inr (t, ts2)" and "ts' = ts2"
      by (auto simp: type_param.psimps rbind_eq_Inr)
    with ident_length [OF i] 3(2) [OF True i refl p] show ?thesis by simp
  next
    case False
    show ?thesis
    proof (cases "is_nested base \<and> \<not> at (CHR ''n'') ts")
      case True
      with False 3(1,4) obtain t ts1 where "parse_type (depth + 1) ts = Inr (t, ts1)" "ts' = ts1"
        by (auto simp: type_param.psimps rbind_eq_Inr)
      with 3(3) [OF False] True show ?thesis by simp
    next
      case False
      with \<open>\<not> is_members base\<close> 3(1,4) show ?thesis
        by (cases ts) (auto simp: type_param.psimps split: if_splits)
    qed
  qed
qed

lemma head_call_decreases:
  "type_head ts = Inr (n, ts') \<Longrightarrow> length (tl ts') < length ts"
  by (drule type_head_length) simp

lemma separator_length:
  "(if first then Inr (name, ts)
    else rbind (need (CHR '','') ts) (\<lambda>ts1. Inr (name @ '', '', ts1))) = Inr (n, ts')
     \<Longrightarrow> length ts' \<le> length ts"
  by (auto simp: rbind_eq_Inr split: if_splits dest: need_length)

termination parse_type
proof (relation "inv_image (less_than <*lex*> less_than)
    (\<lambda>x. case x of Inl (d, ts) \<Rightarrow> (length ts, 0)
        | Inr (Inl (base, d, first, m, ts)) \<Rightarrow> (length ts, 2)
        | Inr (Inr (base, d, m, ts)) \<Rightarrow> (length ts, Suc 0))", goal_cases)
  case 2
  then show ?case by (auto dest: head_call_decreases)
next
  case (3 base depth first name ts x n1 ts1)
  then show ?case by (auto dest: separator_length simp: order.order_iff_strict)
next
  case (4 base depth first name ts x n1 ts1 y n2 ts2)
  have "length ts2 < length ts1" using parse_lengths(3) 4 by blast
  with 4 show ?case by (auto dest: separator_length)
next
  case (5 base depth name ts x n ts1)
  then show ?case by (auto dest: ident_length)
qed auto

declare parse_type.simps [simp del] type_params.simps [simp del] type_param.simps [simp del]

section \<open>Canonicalization\<close>

text \<open>\<open>duckdb_canonicalize_type\<close>; a failure is thrown as a \<open>ValueError\<close>.\<close>

definition parse_declaration :: "string \<Rightarrow> (string, string) result" where
  "parse_declaration s =
     rbind (lex_declaration s) (\<lambda>ts.
     rbind (parse_type 0 ts) (\<lambda>(name, rest).
       if rest \<noteq> [] then Inl ''Trailing tokens in type declaration'' else Inr name))"

definition duckdb_canonicalize_type :: "string \<Rightarrow> (throwable, string) result" where
  "duckdb_canonicalize_type s =
     (case parse_declaration s of Inl e \<Rightarrow> Inl (ValueError e) | Inr t \<Rightarrow> Inr t)"

section \<open>Text that spells tokens\<close>

definition boundary :: "string \<Rightarrow> bool" where
  "boundary s \<longleftrightarrow> s = [] \<or> hd s \<in> set (CHR '' '' # punctuation)"

definition spells :: "string \<Rightarrow> token list \<Rightarrow> bool" where
  "spells x c \<longleftrightarrow> (\<forall>s ts. boundary s \<longrightarrow> tokens_of s = Inr ts \<longrightarrow> tokens_of (x @ s) = Inr (c @ ts))"

definition wf_token :: "token \<Rightarrow> bool" where
  "wf_token t =
     (nul \<notin> set (tok_text t) \<and>
      (if tok_kind t = CHR ''i'' then
         tok_text t \<noteq> [] \<and> ident_start (hd (tok_text t)) \<and> list_all ident_char (tl (tok_text t))
       else if tok_kind t = CHR ''n'' then tok_text t \<noteq> [] \<and> list_all c_isdigit (tok_text t)
       else if tok_kind t = squote \<or> tok_kind t = dquote then True
       else tok_kind t \<in> set punctuation \<and> tok_text t = [tok_kind t]))"

lemma boundary_chars:
  "c \<in> set (CHR '' '' # punctuation) \<Longrightarrow>
     \<not> ident_char c \<and> \<not> c_isdigit c \<and> \<not> ident_start c \<and> c \<noteq> squote \<and> c \<noteq> dquote \<and> c \<noteq> nul
     \<and> (c = CHR '' '' \<or> \<not> c_isspace c)"
  by (auto simp: punctuation_def ident_char_def ident_start_def c_isalpha_def c_islower_def
      c_isdigit_def c_isspace_def)

lemma boundary_hd:
  assumes "boundary s"
  shows "s = [] \<or> \<not> ident_char (hd s) \<and> \<not> c_isdigit (hd s) \<and> hd s \<noteq> squote \<and> hd s \<noteq> dquote"
  using assms boundary_chars [of "hd s"] by (auto simp only: boundary_def)

lemma spells_Nil [simp]: "spells [] []"
  by (simp add: spells_def)

lemma boundary_append: "boundary x \<Longrightarrow> boundary s \<Longrightarrow> boundary (x @ s)"
  by (cases x) (auto simp: boundary_def)

lemma spells_append:
  "spells a c \<Longrightarrow> spells b d \<Longrightarrow> boundary b \<Longrightarrow> spells (a @ b) (c @ d)"
  by (simp add: spells_def boundary_append)

lemma spells_punct: "p \<in> set punctuation \<Longrightarrow> spells b d \<Longrightarrow> spells (p # b) (tok [p] p # d)"
  using boundary_chars [of p]
  by (auto simp: spells_def punctuation_def c_isspace_def)

lemma spells_space: "spells b d \<Longrightarrow> spells (CHR '' '' # b) d"
  by (simp add: spells_def c_isspace_def)

lemma ident_start_char:
  assumes "ident_start c"
  shows "ident_char c" "\<not> c_isspace c" "c \<noteq> nul" "c \<noteq> squote" "c \<noteq> dquote"
  using assms by (auto simp: ident_start_def ident_char_def c_isspace_def c_isalpha_def c_islower_def)

lemma digit_char_class:
  assumes "c_isdigit c"
  shows "\<not> ident_start c" "\<not> c_isspace c" "c \<noteq> nul" "c \<noteq> squote" "c \<noteq> dquote"
  using assms by (auto simp: ident_start_def c_isdigit_def c_isspace_def c_isalpha_def c_islower_def)

lemma while_boundary:
  assumes "boundary s"
  shows "takeWhile ident_char s = []" "dropWhile ident_char s = s"
    "takeWhile c_isdigit s = []" "dropWhile c_isdigit s = s"
  using boundary_hd [OF assms] by (cases s; simp)+

lemma span_append:
  "list_all P x \<Longrightarrow> takeWhile P (x @ s) = x @ takeWhile P s"
  "list_all P x \<Longrightarrow> dropWhile P (x @ s) = dropWhile P s"
  by (auto simp: list_all_iff)

lemma spells_ident:
  assumes "x \<noteq> []" "ident_start (hd x)" "list_all ident_char (tl x)"
  shows "spells x [tok x (CHR ''i'')]"
proof -
  obtain c y where x: "x = c # y" using assms by (cases x) auto
  with assms ident_start_char [of c] show ?thesis
    by (simp add: spells_def span_append while_boundary)
qed

lemma spells_number:
  assumes "x \<noteq> []" "list_all c_isdigit x"
  shows "spells x [tok x (CHR ''n'')]"
proof -
  obtain c y where x: "x = c # y" using assms by (cases x) auto
  with assms digit_char_class [of c] show ?thesis
    by (simp add: spells_def span_append while_boundary)
qed

lemma lex_quoted_double:
  "(s = [] \<or> hd s \<noteq> q) \<Longrightarrow> lex_quoted q (double_char q t @ q # s) = Some (t, s)"
proof (induction t)
  case Nil
  then show ?case by (cases s) auto
next
  case (Cons c t)
  then show ?case
    by (cases "double_char q t @ q # s") auto
qed

lemma spells_quote: "q = squote \<or> q = dquote \<Longrightarrow> spells (quote q t) [tok t q]"
  unfolding spells_def
proof (intro allI impI)
  fix s ts assume q: "q = squote \<or> q = dquote" and "boundary s" "tokens_of s = Inr ts"
  then have "s = [] \<or> hd s \<noteq> q" using boundary_hd by blast
  from lex_quoted_double [OF this] q \<open>tokens_of s = Inr ts\<close>
  show "tokens_of (quote q t @ s) = Inr ([tok t q] @ ts)"
    by (auto simp: quote_def c_isspace_def)
qed

section \<open>Steps that reproduce their own output\<close>

text \<open>
  A step only looks at the kind and the upper-cased text of the next token.
\<close>

fun same_head :: "token list \<Rightarrow> token list \<Rightarrow> bool" where
  "same_head [] [] = True"
| "same_head (t # ts) (u # us) = (tok_kind t = tok_kind u \<and> upper (tok_text t) = upper (tok_text u))"
| "same_head _ _ = False"

text \<open>
  The step \<open>F\<close>, run on \<open>name\<close> and the tokens \<open>ts\<close>, appended a text that spells tokens on which
  the same step gives the same result, whatever follows.
\<close>

definition reproduces ::
    "bool \<Rightarrow> (string \<Rightarrow> token list \<Rightarrow> string parsed) \<Rightarrow> string \<Rightarrow> token list \<Rightarrow> string \<Rightarrow> token list \<Rightarrow> bool"
where
  "reproduces b F name ts name' rest \<longleftrightarrow>
     (\<exists>x c. name' = name @ x \<and> nul \<notin> set x \<and> spells x c \<and> (b \<longrightarrow> boundary x)
        \<and> list_all wf_token rest
        \<and> (\<forall>rest'. same_head rest rest' \<longrightarrow>
              same_head ts (c @ rest') \<and> F name (c @ rest') = Inr (name', rest')))"

lemma toupper_idem [simp]: "c_toupper (c_toupper c) = c_toupper c"
  by (auto simp: c_toupper_def c_islower_def)

lemma upper_idem [simp]: "upper (upper s) = upper s"
  by (simp add: upper_def)

lemma toupper_class:
  "ident_char c \<Longrightarrow> ident_char (c_toupper c)" "ident_start c \<Longrightarrow> ident_start (c_toupper c)"
  "c \<noteq> nul \<Longrightarrow> c_toupper c \<noteq> nul"
  by (auto simp: ident_char_def ident_start_def c_toupper_def c_isalpha_def c_islower_def c_isdigit_def
      dest!: arg_cong [of _ nul "of_char :: char \<Rightarrow> nat"])

lemma same_head_at: "same_head ts us \<Longrightarrow> at k us = at k ts"
  by (cases ts; cases us) auto

lemma same_head_word: "same_head ts us \<Longrightarrow> word w us = word w ts"
  by (cases ts; cases us) (auto simp: word_def)

lemma same_head_unit: "same_head ts us \<Longrightarrow> at_unit us = at_unit ts"
  by (cases ts; cases us) (auto simp: at_unit_def)

lemmas same_head_looks = same_head_at same_head_word same_head_unit

lemma same_head_refl [simp]: "same_head ts ts"
  by (cases ts) auto

lemma spells_upper:
  assumes "wf_token t" "tok_kind t = CHR ''i''"
  shows "spells (upper (tok_text t)) [tok (upper (tok_text t)) (CHR ''i'')]"
    and "nul \<notin> set (upper (tok_text t))" and "hd (upper (tok_text t)) \<noteq> dquote"
proof -
  let ?u = "upper (tok_text t)"
  from assms have t: "tok_text t \<noteq> []" "ident_start (hd (tok_text t))"
    "list_all ident_char (tl (tok_text t))" "nul \<notin> set (tok_text t)"
    by (auto simp: wf_token_def)
  then have "?u \<noteq> []" "ident_start (hd ?u)" "list_all ident_char (tl ?u)"
    by (cases "tok_text t"; auto simp: upper_def list_all_iff toupper_class)+
  then show "spells ?u [tok ?u (CHR ''i'')]" "hd ?u \<noteq> dquote"
    using spells_ident ident_start_char by blast+
  show "nul \<notin> set ?u" using t by (auto simp: upper_def) (metis toupper_class(3))
qed

lemma spells_ident_token:
  assumes "wf_token t" "ident (t # ts) = Inr (n, ts')"
  shows "spells n [t]" "nul \<notin> set n" "ts' = ts" "ident (t # us) = Inr (n, us)"
proof -
  have d: "nul \<notin> set s \<Longrightarrow> nul \<notin> set (double_char q s)" for q s
    by (induction s) auto
  show "spells n [t]"
    using assms spells_ident [of "tok_text t"] spells_quote [of dquote "tok_text t"]
    by (cases t) (auto simp: wf_token_def split: if_splits)
  show "nul \<notin> set n" using assms d by (auto simp: wf_token_def quote_def split: if_splits)
  show "ts' = ts" "ident (t # us) = Inr (n, us)" using assms by (auto split: if_splits)
qed

lemma reproduces_skip:
  assumes "list_all wf_token ts" "\<And>us. same_head ts us \<Longrightarrow> F name us = Inr (name, us)"
  shows "reproduces b F name ts name ts"
  unfolding reproduces_def
  by (rule exI [of _ "[]"], rule exI [of _ "[]"]) (use assms in \<open>auto simp: boundary_def\<close>)

lemma reproduces_bind:
  assumes "reproduces b F name ts n1 r1" "reproduces True G n1 r1 n2 r2"
  shows "reproduces b (\<lambda>n ts. rbind (F n ts) (\<lambda>(n, ts). G n ts)) name ts n2 r2"
proof -
  from assms(1) obtain x c where 1: "n1 = name @ x" "nul \<notin> set x" "spells x c" "b \<longrightarrow> boundary x"
    "\<And>us. same_head r1 us \<Longrightarrow> same_head ts (c @ us) \<and> F name (c @ us) = Inr (n1, us)"
    unfolding reproduces_def by blast
  from assms(2) obtain y d where 2: "n2 = n1 @ y" "nul \<notin> set y" "spells y d" "boundary y"
    "list_all wf_token r2"
    "\<And>us. same_head r2 us \<Longrightarrow> same_head r1 (d @ us) \<and> G n1 (d @ us) = Inr (n2, us)"
    unfolding reproduces_def by blast
  have "spells (x @ y) (c @ d)" using 1(3) 2(3,4) by (rule spells_append)
  moreover have "b \<longrightarrow> boundary (x @ y)" using 1(4) 2(4) by (auto intro: boundary_append)
  ultimately show ?thesis unfolding reproduces_def
    by (intro exI [of _ "x @ y"] exI [of _ "c @ d"]) (use 1 2 in auto)
qed

lemma reproduces_cong_head:
  assumes "reproduces b F name ts n r" and eq: "\<And>us. same_head ts us \<Longrightarrow> F name us = G name us"
  shows "reproduces b G name ts n r"
proof -
  from assms(1) obtain x c where x: "n = name @ x" "nul \<notin> set x" "spells x c" "b \<longrightarrow> boundary x"
    "list_all wf_token r"
    "\<And>us. same_head r us \<Longrightarrow> same_head ts (c @ us) \<and> F name (c @ us) = Inr (n, us)"
    unfolding reproduces_def by blast
  then show ?thesis unfolding reproduces_def
    by (intro exI [of _ x] exI [of _ c]) (auto simp flip: eq)
qed

lemma reproduces_cong:
  "reproduces b F name ts n r \<Longrightarrow> (\<And>us. F name us = G name us) \<Longrightarrow> reproduces b G name ts n r"
  by (rule reproduces_cong_head)

text \<open>Appending a space and a keyword read from an identifier token.\<close>

lemma word_Cons: "word w ts \<longleftrightarrow> (\<exists>t us. ts = t # us \<and> tok_kind t = CHR ''i'' \<and> upper (tok_text t) = w)"
  by (cases ts) (auto simp: word_def)

lemma unit_Cons:
  "at_unit ts \<longleftrightarrow> (\<exists>t us. ts = t # us \<and> tok_kind t = CHR ''i'' \<and> upper (tok_text t) \<in> set interval_units)"
  by (cases ts) (auto simp: at_unit_def)

abbreviation itok :: "string \<Rightarrow> token" where
  "itok w \<equiv> tok w (CHR ''i'')"

lemma upper_token:
  assumes "tok_kind t = CHR ''i''" "wf_token t"
  shows "spells (CHR '' '' # upper (tok_text t)) [itok (upper (tok_text t))]"
    and "nul \<notin> set (upper (tok_text t))"
  using spells_upper [OF assms(2,1)] spells_space by auto

lemma boundary_space [simp]: "boundary (CHR '' '' # s)" "boundary []"
  by (auto simp: boundary_def)

lemma punctuation_members [simp]:
  "CHR ''('' \<in> set punctuation" "CHR '')'' \<in> set punctuation" "CHR ''['' \<in> set punctuation"
  "CHR '']'' \<in> set punctuation" "CHR '','' \<in> set punctuation" "CHR ''.'' \<in> set punctuation"
  by (simp_all add: punctuation_def)

lemma boundary_punct [simp]: "p \<in> set punctuation \<Longrightarrow> boundary (p # s)"
  by (simp add: boundary_def)

lemma reproduces_upper:
  assumes "tok_kind t = CHR ''i''" "list_all wf_token (t # ts)"
    and "\<And>us. F name (itok (upper (tok_text t)) # us) = Inr (name @ '' '' @ upper (tok_text t), us)"
  shows "reproduces True F name (t # ts) (name @ '' '' @ upper (tok_text t)) ts"
  unfolding reproduces_def
  by (rule exI [of _ "'' '' @ upper (tok_text t)"], rule exI [of _ "[itok (upper (tok_text t))]"])
     (use assms upper_token [of t] in auto)

lemma word_upper: "word w ts \<Longrightarrow> upper w = w"
  by (auto simp: word_Cons)

lemma word_itok: "word w (itok v # us) \<longleftrightarrow> upper v = w"
  by (simp add: word_def)

lemma reproduces_word:
  assumes "list_all wf_token ts" "word w ts"
    and "\<And>us. F name (itok w # us) = Inr (name @ '' '' @ w, us)"
  shows "reproduces True F name ts (name @ '' '' @ w) (tl ts)"
proof -
  from assms(2) obtain t us where t: "ts = t # us" "tok_kind t = CHR ''i''" "upper (tok_text t) = w"
    by (auto simp: word_Cons)
  then show ?thesis using reproduces_upper [of t us F name] assms(1,3) by simp
qed

lemma reproduces_double:
  assumes "list_all wf_token ts" "double_precision name ts = Inr (n, rest)"
  shows "reproduces True double_precision name ts n rest"
proof (cases "name = ''DOUBLE'' \<and> word ''PRECISION'' ts")
  case True
  with word_upper have "upper ''PRECISION'' = ''PRECISION''" by blast
  with True have "reproduces True double_precision name ts (name @ '' '' @ ''PRECISION'') (tl ts)"
    using assms(1) by (intro reproduces_word) (auto simp: double_precision_def word_itok)
  then show ?thesis using assms True by (simp add: double_precision_def)
next
  case False
  with assms show ?thesis
    by (auto simp: double_precision_def same_head_looks intro!: reproduces_skip split: if_splits)
qed

lemma reproduces_varying:
  assumes "list_all wf_token ts" "varying name ts = Inr (n, rest)"
  shows "reproduces True varying name ts n rest"
proof (cases "name \<in> set char_types \<and> word ''VARYING'' ts")
  case True
  with word_upper have "upper ''VARYING'' = ''VARYING''" by blast
  with True have "reproduces True varying name ts (name @ '' '' @ ''VARYING'') (tl ts)"
    using assms(1) by (intro reproduces_word) (auto simp: varying_def word_itok)
  then show ?thesis using assms True by (simp add: varying_def)
next
  case False
  with assms show ?thesis
    by (auto simp: varying_def same_head_looks intro!: reproduces_skip split: if_splits)
qed

lemma reproduces_national:
  assumes "list_all wf_token ts" "national name ts = Inr (n, rest)"
  shows "reproduces True national name ts n rest"
proof (cases "name = ''NATIONAL''")
  case True
  with assms(2) obtain w where w: "word w ts" "w \<in> {''CHAR'', ''CHARACTER''}"
    and n: "n = name @ '' '' @ w" "rest = tl ts"
    by (auto simp: national_def word_Cons split: if_splits)
  have "reproduces True national name ts (name @ '' '' @ w) (tl ts)"
    using assms(1) w True word_upper [OF w(1)] by (intro reproduces_word) (auto simp: national_def word_itok)
  then show ?thesis using n by simp
next
  case False
  with assms show ?thesis
    by (auto simp: national_def intro!: reproduces_skip)
qed

lemma unit_upper: "at_unit ts \<Longrightarrow> word (upper (tok_text (hd ts))) ts \<and> upper (tok_text (hd ts)) \<in> set interval_units"
  by (auto simp: unit_Cons word_def)

lemma unit_itok: "at_unit (itok v # us) \<longleftrightarrow> upper v \<in> set interval_units"
  by (simp add: at_unit_def)

text \<open>Two more keywords after a first one.\<close>

lemma reproduces_words3:
  assumes wf: "list_all wf_token ts" and w: "word w1 ts" "word w2 (tl ts)" "word w3 (tl (tl ts))"
    and F: "\<And>us. F name (itok w1 # itok w2 # itok w3 # us)
                  = Inr (name @ '' '' @ w1 @ '' '' @ w2 @ '' '' @ w3, us)"
  shows "reproduces True F name ts (name @ '' '' @ w1 @ '' '' @ w2 @ '' '' @ w3) (tl (tl (tl ts)))"
proof -
  from w obtain t1 t2 t3 us where t: "ts = t1 # t2 # t3 # us" "tok_kind t1 = CHR ''i''"
    "tok_kind t2 = CHR ''i''" "tok_kind t3 = CHR ''i''"
    "upper (tok_text t1) = w1" "upper (tok_text t2) = w2" "upper (tok_text t3) = w3"
    by (auto simp: word_Cons)
  have "spells ((CHR '' '' # w1) @ (CHR '' '' # w2) @ (CHR '' '' # w3)) ([itok w1] @ [itok w2] @ [itok w3])"
    using wf t upper_token [of t1] upper_token [of t2] upper_token [of t3]
    by (intro spells_append) auto
  moreover have "nul \<notin> set (w1 @ w2 @ w3)"
    using wf t upper_token [of t1] upper_token [of t2] upper_token [of t3] by auto
  ultimately show ?thesis unfolding reproduces_def
    by (intro exI [of _ "'' '' @ w1 @ '' '' @ w2 @ '' '' @ w3"] exI [of _ "[itok w1, itok w2, itok w3]"])
       (use wf t F in auto)
qed

lemma reproduces_time_zone:
  assumes "list_all wf_token ts" "time_zone name ts = Inr (n, rest)"
  shows "reproduces True time_zone name ts n rest"
proof (cases "(name = ''TIME'' \<or> name = ''TIMESTAMP'') \<and> (word ''WITH'' ts \<or> word ''WITHOUT'' ts)")
  case True
  then obtain w where w: "word w ts" "w \<in> {''WITH'', ''WITHOUT''}" by auto
  with True assms(2) have w': "word ''TIME'' (tl ts)" "word ''ZONE'' (tl (tl ts))"
    and n: "n = name @ '' '' @ w @ '' '' @ ''TIME'' @ '' '' @ ''ZONE''" "rest = tl (tl (tl ts))"
    by (auto simp: time_zone_def Let_def word_Cons split: if_splits)
  have "reproduces True time_zone name ts (name @ '' '' @ w @ '' '' @ ''TIME'' @ '' '' @ ''ZONE'') (tl (tl (tl ts)))"
    using assms(1) w(1) w'
  proof (rule reproduces_words3)
    fix us
    show "time_zone name (itok w # itok ''TIME'' # itok ''ZONE'' # us)
        = Inr (name @ '' '' @ w @ '' '' @ ''TIME'' @ '' '' @ ''ZONE'', us)"
      using True w(2) word_upper [OF w(1)] word_upper [OF w'(1)] word_upper [OF w'(2)]
      by (auto simp: time_zone_def word_itok)
  qed
  with n show ?thesis by simp
next
  case False
  with assms(2) have "n = name" "rest = ts" by (simp_all only: time_zone_def if_False sum.inject prod.inject)
  then show ?thesis
    using False assms(1) reproduces_skip [of ts time_zone name True]
    by (auto simp: time_zone_def same_head_looks)
qed

lemma reproduces_interval:
  assumes "list_all wf_token ts" "interval_unit name ts = Inr (n, rest)"
  shows "reproduces True interval_unit name ts n rest"
proof (cases "name = ''INTERVAL'' \<and> at_unit ts")
  case False
  with assms show ?thesis
    by (auto simp: interval_unit_def same_head_looks intro!: reproduces_skip split: if_splits)
next
  case True
  define w where "w = upper (tok_text (hd ts))"
  have w: "word w ts" "w \<in> set interval_units" using True unit_upper [of ts] by (auto simp: w_def)
  note u = word_upper [OF w(1)]
  show ?thesis
  proof (cases "word ''TO'' (tl ts)")
    case to: True
    define v where "v = upper (tok_text (hd (tl (tl ts))))"
    from to True assms(2) have at: "at_unit (tl (tl ts))"
      by (auto simp: interval_unit_def Let_def split: if_splits)
    then have v: "word v (tl (tl ts))" "v \<in> set interval_units"
      using unit_upper [of "tl (tl ts)"] by (auto simp: v_def)
    have "reproduces True interval_unit name ts (name @ '' '' @ w @ '' '' @ ''TO'' @ '' '' @ v) (tl (tl (tl ts)))"
      using assms(1) w(1) to v(1)
    proof (rule reproduces_words3)
      fix us
      show "interval_unit name (itok w # itok ''TO'' # itok v # us)
          = Inr (name @ '' '' @ w @ '' '' @ ''TO'' @ '' '' @ v, us)"
        using True w v u word_upper [OF v(1)] word_upper [OF to]
        by (simp add: interval_unit_def unit_itok word_itok)
    qed
    moreover have "n = name @ '' '' @ w @ '' '' @ ''TO'' @ '' '' @ v" "rest = tl (tl (tl ts))"
      using assms(2) True to at by (auto simp: interval_unit_def Let_def w_def v_def)
    ultimately show ?thesis by simp
  next
    case no: False
    from w(1) obtain t us where t: "ts = t # us" "tok_kind t = CHR ''i''" "upper (tok_text t) = w"
      by (auto simp: word_Cons)
    have n: "n = name @ '' '' @ w" "rest = us"
      using assms(2) True no t by (auto simp: interval_unit_def Let_def)
    show ?thesis unfolding reproduces_def n
      by (intro exI [of _ "'' '' @ w"] exI [of _ "[itok w]"])
         (use assms(1) t True no u w upper_token [of t] in
           \<open>auto simp: interval_unit_def unit_itok same_head_word\<close>)
  qed
qed

lemma dotted_stop: "\<not> at (CHR ''.'') ts \<Longrightarrow> dotted name ts = Inr (name, ts)"
  by (cases "(name, ts)" rule: dotted.cases) auto

lemma reproduces_dotted:
  assumes "list_all wf_token ts" "dotted name ts = Inr (n, rest)"
  shows "reproduces True dotted name ts n rest"
  using assms
proof (induction name ts rule: dotted.induct)
  case (3 name t u ts)
  show ?case
  proof (cases "tok_kind t = CHR ''.''")
    case False
    with 3(2,3) show ?thesis
      using reproduces_skip [of "t # u # ts" dotted name True]
      by (auto simp: dotted_stop same_head_at)
  next
    case True
    with 3(3) obtain m ts1 where i: "ident (u # ts) = Inr (m, ts1)"
      and d: "dotted (name @ ''.'' @ m) ts = Inr (n, rest)" by (auto simp: rbind_eq_Inr)
    have wf: "wf_token u" "list_all wf_token ts" using 3(2) by auto
    note sp = spells_ident_token [OF wf(1) i]
    have "reproduces True dotted (name @ ''.'' @ m) ts n rest"
      using 3(1) [OF True i refl wf(2) d] .
    then obtain x c where x: "n = (name @ ''.'' @ m) @ x" "nul \<notin> set x" "spells x c" "boundary x"
      "list_all wf_token rest"
      "\<And>us. same_head rest us \<Longrightarrow> same_head ts (c @ us) \<and> dotted (name @ ''.'' @ m) (c @ us) = Inr (n, us)"
      unfolding reproduces_def by blast
    have s: "spells (CHR ''.'' # m @ x) (tok ''.'' (CHR ''.'') # [u] @ c)"
      using sp(1) x(3,4) by (intro spells_punct spells_append) (auto simp: punctuation_def)
    have "wf_token t" using 3(2) by simp
    with True have t: "tok_text t = ''.''" by (simp add: wf_token_def punctuation_def)
    show ?thesis unfolding reproduces_def
      by (intro exI [of _ "CHR ''.'' # m @ x"] exI [of _ "tok ''.'' (CHR ''.'') # [u] @ c"])
         (use x s sp t True in \<open>auto simp: punctuation_def\<close>)
  qed
qed (auto simp: same_head_at dotted_stop intro!: reproduces_skip split: if_splits)

lemma upper_eq_Nil [simp]: "upper s = [] \<longleftrightarrow> s = []"
  by (simp add: upper_def)

lemma reproduces_start:
  assumes "list_all wf_token ts" "type_name_start ts = Inr (n, rest)"
  shows "reproduces False (\<lambda>_. type_name_start) [] ts n rest"
proof -
  from assms(2) obtain m r where m: "ident ts = Inr (m, r)"
    by (cases "ident ts") (auto simp: type_name_start_def)
  with assms(2) have n: "n = (if hd m \<noteq> dquote then upper m else m)" and ok: "n \<notin> set internal_types"
    and i: "ident ts = Inr (m, rest)"
    by (auto simp: type_name_start_def Let_def split: if_splits)
  then obtain t where t: "ts = t # rest" by (cases ts) (auto split: if_splits)
  with assms(1) have wf: "wf_token t" "list_all wf_token rest" by auto
  note sp = spells_ident_token [OF wf(1) i [unfolded t]]
  show ?thesis
  proof (cases "tok_kind t = CHR ''i''")
    case True
    with i t have m: "m = tok_text t" by simp
    have "hd m \<noteq> dquote" using wf(1) True m ident_start_char by (auto simp: wf_token_def)
    with n have n: "n = upper (tok_text t)" using m by simp
    have "type_name_start (itok n # us) = Inr (n, us)" for us
      using ok n spells_upper(3) [OF wf(1) True] by (simp add: type_name_start_def)
    with n wf True spells_upper [OF wf(1) True] t show ?thesis unfolding reproduces_def
      by (intro exI [of _ n] exI [of _ "[itok n]"]) auto
  next
    case False
    with i t have m: "m = quote dquote (tok_text t)" by (auto split: if_splits)
    then have n: "n = m" using n by (simp add: quote_def)
    have "type_name_start (t # us) = Inr (n, us)" for us
      using sp(4) ok n m by (simp add: type_name_start_def quote_def)
    with n wf sp t show ?thesis unfolding reproduces_def
      by (intro exI [of _ n] exI [of _ "[t]"]) auto
  qed
qed

lemma reproduces_wf: "reproduces b F n ts n' rest \<Longrightarrow> list_all wf_token rest"
  by (auto simp: reproduces_def)

lemma reproduces_head:
  assumes "list_all wf_token ts" "type_head ts = Inr (n, rest)"
  shows "reproduces False (\<lambda>_. type_head) [] ts n rest"
proof -
  from assms(2) obtain n0 t0 n1 t1 n2 t2 n3 t3 n4 t4 n5 t5 where
    "type_name_start ts = Inr (n0, t0)" "dotted n0 t0 = Inr (n1, t1)"
    "double_precision n1 t1 = Inr (n2, t2)" "time_zone n2 t2 = Inr (n3, t3)"
    "national n3 t3 = Inr (n4, t4)" "varying n4 t4 = Inr (n5, t5)" "interval_unit n5 t5 = Inr (n, rest)"
    unfolding type_head_def by (auto simp: rbind_eq_Inr)
  note steps = this
  have r0: "reproduces False (\<lambda>_. type_name_start) [] ts n0 t0"
    using assms(1) steps(1) by (rule reproduces_start)
  note r1 = reproduces_dotted [OF reproduces_wf [OF r0] steps(2)]
  note r2 = reproduces_double [OF reproduces_wf [OF r1] steps(3)]
  note r3 = reproduces_time_zone [OF reproduces_wf [OF r2] steps(4)]
  note r4 = reproduces_national [OF reproduces_wf [OF r3] steps(5)]
  note r5 = reproduces_varying [OF reproduces_wf [OF r4] steps(6)]
  note r6 = reproduces_interval [OF reproduces_wf [OF r5] steps(7)]
  note r = reproduces_bind [OF r0 reproduces_bind [OF r1 reproduces_bind [OF r2 reproduces_bind
    [OF r3 reproduces_bind [OF r4 reproduces_bind [OF r5 r6]]]]]]
  show ?thesis by (rule reproduces_cong [OF r]) (simp add: type_head_def)
qed

lemma array_suffix_stop: "\<not> at (CHR ''['') ts \<Longrightarrow> array_suffix d name ts = Inr (name, ts)"
  by (cases ts) auto

lemma array_suffix_step:
  assumes "array_suffix d name ts = Inr (n, rest)" "at (CHR ''['') ts"
  obtains (bare) t u us where "ts = t # u # us" "tok_kind t = CHR ''[''" "tok_kind u = CHR '']''" "d + 1 \<le> 64"
      "array_suffix (d + 1) (name @ ''[]'') us = Inr (n, rest)"
  | (sized) t u v us where "ts = t # u # v # us" "tok_kind t = CHR ''[''" "tok_kind u = CHR ''n''"
      "tok_kind v = CHR '']''" "d + 1 \<le> 64"
      "array_suffix (d + 1) (name @ ''['' @ tok_text u @ '']'') us = Inr (n, rest)"
  using assms by (cases ts) (auto split: if_splits list.splits)

lemma wf_punct: "wf_token t \<Longrightarrow> tok_kind t \<in> set punctuation \<Longrightarrow> t = tok [tok_kind t] (tok_kind t)"
  by (cases t) (auto simp: wf_token_def punctuation_def)

lemma reproduces_suffix:
  assumes "list_all wf_token ts" "array_suffix d name ts = Inr (n, rest)"
  shows "reproduces True (array_suffix d) name ts n rest"
  using assms
proof (induction "length ts" arbitrary: d name ts rule: less_induct)
  case less
  show ?case
  proof (cases "at (CHR ''['') ts")
    case False
    with less(2,3) show ?thesis
      using reproduces_skip [of ts "array_suffix d" name True]
      by (auto simp: array_suffix_stop same_head_at)
  next
    case True
    with less(3) show ?thesis
    proof (cases rule: array_suffix_step)
      case (bare t u us)
      then have "reproduces True (array_suffix (d + 1)) (name @ ''[]'') us n rest"
        using less(1) [of us "d + 1" "name @ ''[]''"] less(2) by simp
      then obtain x c where x: "n = (name @ ''[]'') @ x" "nul \<notin> set x" "spells x c" "boundary x"
        "list_all wf_token rest"
        "\<And>ws. same_head rest ws \<Longrightarrow> same_head us (c @ ws)
            \<and> array_suffix (d + 1) (name @ ''[]'') (c @ ws) = Inr (n, ws)"
        unfolding reproduces_def by blast
      have "spells (CHR ''['' # CHR '']'' # x) (tok ''['' (CHR ''['') # tok '']'' (CHR '']'') # c)"
        using x(3) by (intro spells_punct) (auto simp: punctuation_def)
      moreover have "tok_text t = ''[''" "tok_text u = '']''"
        using less(2) bare by (auto simp: wf_token_def punctuation_def)
      ultimately show ?thesis unfolding reproduces_def
        by (intro exI [of _ "CHR ''['' # CHR '']'' # x"]
            exI [of _ "tok ''['' (CHR ''['') # tok '']'' (CHR '']'') # c"])
           (use x bare less(2) in auto)
    next
      case (sized t u v us)
      let ?m = "name @ ''['' @ tok_text u @ '']''"
      have "reproduces True (array_suffix (d + 1)) ?m us n rest"
        using less(1) [of us "d + 1" ?m] less(2) sized by simp
      then obtain x c where x: "n = ?m @ x" "nul \<notin> set x" "spells x c" "boundary x"
        "list_all wf_token rest"
        "\<And>ws. same_head rest ws \<Longrightarrow> same_head us (c @ ws)
            \<and> array_suffix (d + 1) ?m (c @ ws) = Inr (n, ws)"
        unfolding reproduces_def by blast
      have u: "wf_token u" using less(2) sized by simp
      then have "spells (tok_text u) [u]" using sized(3) spells_number [of "tok_text u"]
        by (cases u) (auto simp: wf_token_def)
      then have "spells (CHR ''['' # tok_text u @ CHR '']'' # x) (tok ''['' (CHR ''['') # [u] @ tok '']'' (CHR '']'') # c)"
        using x(3) by (intro spells_punct spells_append) (auto simp: punctuation_def)
      moreover have "tok_text t = ''[''" "nul \<notin> set (tok_text u)"
        using less(2) sized by (auto simp: wf_token_def punctuation_def)
      ultimately show ?thesis unfolding reproduces_def
        by (intro exI [of _ "CHR ''['' # tok_text u @ CHR '']'' # x"]
            exI [of _ "tok ''['' (CHR ''['') # [u] @ tok '']'' (CHR '']'') # c"])
           (use x sized less(2) u in auto)
    qed
  qed
qed

text \<open>What \<open>type\<close> does after the name.\<close>

definition after_head :: "nat \<Rightarrow> string \<Rightarrow> token list \<Rightarrow> string parsed" where
  "after_head depth name ts1 =
     (if at (CHR ''('') ts1
      then rbind (type_params name depth True (name @ ''('') (tl ts1)) (\<lambda>(name2, ts2).
             array_suffix depth name2 ts2)
      else array_suffix depth name ts1)"

lemma parse_type_head:
  "parse_type depth ts =
     (if depth > 64 then Inl ''Type declaration exceeds nesting limit''
      else rbind (type_head ts) (\<lambda>(name, ts1). after_head depth name ts1))"
  by (simp add: parse_type.simps [of depth ts] after_head_def)

lemma reproduces_after_head:
  assumes wf: "list_all wf_token ts" and a: "after_head d name ts = Inr (n, rest)"
    and params: "\<And>us n2 ts2. ts = hd ts # us \<Longrightarrow> at (CHR ''('') ts \<Longrightarrow> list_all wf_token us \<Longrightarrow>
        type_params name d True (name @ ''('') us = Inr (n2, ts2) \<Longrightarrow>
        reproduces False (type_params name d True) (name @ ''('') us n2 ts2"
  shows "reproduces True (after_head d) name ts n rest"
proof (cases "at (CHR ''('') ts")
  case False
  with a have "array_suffix d name ts = Inr (n, rest)" by (simp add: after_head_def)
  with wf have "reproduces True (array_suffix d) name ts n rest" by (rule reproduces_suffix)
  then show ?thesis
    by (rule reproduces_cong_head) (use False in \<open>simp add: after_head_def same_head_at\<close>)
next
  case True
  then obtain t us where t: "ts = t # us" "tok_kind t = CHR ''(''" by (cases ts) auto
  with a obtain n2 ts2 where p: "type_params name d True (name @ ''('') us = Inr (n2, ts2)"
    and s: "array_suffix d n2 ts2 = Inr (n, rest)"
    by (auto simp: after_head_def rbind_eq_Inr)
  have wf': "wf_token t" "list_all wf_token us" using wf t by auto
  have r1: "reproduces False (type_params name d True) (name @ ''('') us n2 ts2"
    using params [of us] p t wf' by simp
  have r2: "reproduces True (array_suffix d) n2 ts2 n rest"
    using reproduces_wf [OF r1] s by (rule reproduces_suffix)
  from reproduces_bind [OF r1 r2] obtain x c where x: "n = (name @ ''('') @ x" "nul \<notin> set x" "spells x c"
    "list_all wf_token rest"
    "\<And>ws. same_head rest ws \<Longrightarrow> same_head us (c @ ws)
      \<and> rbind (type_params name d True (name @ ''('') (c @ ws)) (\<lambda>(n, ts). array_suffix d n ts) = Inr (n, ws)"
    unfolding reproduces_def by blast
  have "spells (CHR ''('' # x) (tok ''('' (CHR ''('') # c)"
    using x(3) by (intro spells_punct) (auto simp: punctuation_def)
  moreover have "tok_text t = ''(''" using wf' t by (auto simp: wf_token_def punctuation_def)
  ultimately show ?thesis unfolding reproduces_def
    by (intro exI [of _ "CHR ''('' # x"] exI [of _ "tok ''('' (CHR ''('') # c"])
       (use x t wf' in \<open>auto simp: after_head_def\<close>)
qed

lemma reproduces_token:
  assumes "list_all wf_token (t # us)" "spells x [t]" "nul \<notin> set x"
    and "\<And>ws. F name (t # ws) = Inr (name @ x, ws)"
  shows "reproduces False F name (t # us) (name @ x) us"
  unfolding reproduces_def
  by (intro exI [of _ x] exI [of _ "[t]"]) (use assms in auto)

lemma spells_wf_token:
  assumes "wf_token t"
  shows "tok_kind t = CHR ''n'' \<Longrightarrow> spells (tok_text t) [t] \<and> nul \<notin> set (tok_text t)"
    and "tok_kind t = squote \<Longrightarrow> spells (quote squote (tok_text t)) [t] \<and> nul \<notin> set (quote squote (tok_text t))"
proof -
  have d: "nul \<notin> set s \<Longrightarrow> nul \<notin> set (double_char q s)" for q s
    by (induction s) auto
  show "tok_kind t = CHR ''n'' \<Longrightarrow> spells (tok_text t) [t] \<and> nul \<notin> set (tok_text t)"
    using assms spells_number [of "tok_text t"] by (cases t) (auto simp: wf_token_def)
  show "tok_kind t = squote \<Longrightarrow> spells (quote squote (tok_text t)) [t] \<and> nul \<notin> set (quote squote (tok_text t))"
    using assms spells_quote [of squote "tok_text t"] d
    by (cases t) (auto simp: wf_token_def quote_def)
qed

lemma reproduces_parse:
  "list_all wf_token ts \<Longrightarrow> parse_type d ts = Inr (n, rest)
     \<Longrightarrow> reproduces False (\<lambda>_. parse_type d) [] ts n rest"
  "list_all wf_token ts \<Longrightarrow> type_params base d first name ts = Inr (n, rest)
     \<Longrightarrow> reproduces (\<not> first) (type_params base d first) name ts n rest"
  "list_all wf_token ts \<Longrightarrow> type_param base d name ts = Inr (n, rest)
     \<Longrightarrow> reproduces False (type_param base d) name ts n rest"
proof (induction d ts and base d first name ts and base d name ts arbitrary: n rest and n rest and n rest
    rule: parse_type_type_params_type_param.induct)
  case (1 depth ts)
  from 1(3) have d: "\<not> depth > 64" by (auto simp: parse_type_head)
  with 1(3) obtain n0 ts0 where h: "type_head ts = Inr (n0, ts0)" and a: "after_head depth n0 ts0 = Inr (n, rest)"
    by (auto simp: parse_type_head rbind_eq_Inr)
  have r0: "reproduces False (\<lambda>_. type_head) [] ts n0 ts0" using 1(2) h by (rule reproduces_head)
  have "reproduces True (after_head depth) n0 ts0 n rest"
  proof (rule reproduces_after_head [OF reproduces_wf [OF r0] a])
    fix us n2 ts2
    assume "ts0 = hd ts0 # us" "at (CHR ''('') ts0" "list_all wf_token us"
      "type_params n0 depth True (n0 @ ''('') us = Inr (n2, ts2)"
    moreover from this(1) have "us = tl ts0" by (metis list.sel(3))
    ultimately show "reproduces False (type_params n0 depth True) (n0 @ ''('') us n2 ts2"
      using 1(1) [OF d h refl] by auto
  qed
  from reproduces_bind [OF r0 this] show ?case
    by (rule reproduces_cong) (use d in \<open>simp add: parse_type_head\<close>)
next
  case (2 base depth first name ts)
  show ?case
  proof (cases "at (CHR '')'') ts")
    case True
    then have "(if first then Inl ''Empty type parameters'' else Inr (name @ '')'', tl ts)) = Inr (n, rest)"
      using 2(4) by (subst (asm) type_params.simps) simp
    with True obtain t where t: "ts = t # rest" "tok_kind t = CHR '')''" "\<not> first" "n = name @ '')''"
      by (cases ts) (auto split: if_splits)
    with 2(3) have w: "tok_text t = '')''" by (auto simp: wf_token_def punctuation_def)
    have "spells '')'' [tok '')'' (CHR '')'')]" using spells_punct [OF _ spells_Nil] by simp
    then show ?thesis unfolding reproduces_def
      by (intro exI [of _ "'')''"] exI [of _ "[tok '')'' (CHR '')'')]"])
         (use t w 2(3) in \<open>auto simp: type_params.simps\<close>)
  next
    case False
    with 2(4) obtain name1 ts1 name2 ts2 where
      s: "(if first then Inr (name, ts)
           else rbind (need (CHR '','') ts) (\<lambda>ts1. Inr (name @ '', '', ts1))) = Inr (name1, ts1)" and
      p: "type_param base depth name1 ts1 = Inr (name2, ts2)" and
      ne: "ts2 \<noteq> []" and r: "type_params base depth False name2 ts2 = Inr (n, rest)"
      by (auto simp: type_params.simps [of base depth first name ts] rbind_eq_Inr split: if_splits)
    let ?G = "\<lambda>m us. if us = [] then Inl ''Unterminated type parameters'' else type_params base depth False m us"
    let ?H = "\<lambda>m us. rbind (type_param base depth m us) (\<lambda>(m, us). ?G m us)"
    have wf1: "list_all wf_token ts1"
      using s 2(3) by (cases ts) (auto simp: need_def split: if_splits)
    have r1: "reproduces False (type_param base depth) name1 ts1 name2 ts2"
      using 2(1) [OF False s refl wf1 p] .
    have "reproduces True (type_params base depth False) name2 ts2 n rest"
      using 2(2) [OF False s refl p refl ne reproduces_wf [OF r1] r] by simp
    then have "reproduces True ?G name2 ts2 n rest"
      by (rule reproduces_cong_head) (use ne in \<open>cases ts2; auto\<close>)
    from reproduces_bind [OF r1 this] have h: "reproduces False ?H name1 ts1 n rest" .
    have eq: "type_params base depth first m us
        = rbind (if first then Inr (m, us)
                  else rbind (need (CHR '','') us) (\<lambda>us1. Inr (m @ '', '', us1))) (\<lambda>(m, us). ?H m us)"
      if "\<not> at (CHR '')'') us" for m us
      using that by (simp add: type_params.simps [of base depth first m us])
    show ?thesis
    proof (cases first)
      case True
      with s have "name1 = name" "ts1 = ts" by auto
      with h have "reproduces False ?H name ts n rest" by simp
      then have "reproduces False (type_params base depth first) name ts n rest"
        by (rule reproduces_cong_head) (use eq False True in \<open>simp add: same_head_at\<close>)
      with True show ?thesis by simp
    next
      case nf: False
      with s obtain t where t: "ts = t # ts1" "tok_kind t = CHR '',''" "name1 = name @ '', ''"
        by (cases ts) (auto simp: need_def split: if_splits)
      with 2(3) have w: "tok_text t = '',''" by (auto simp: wf_token_def punctuation_def)
      from h obtain x c where x: "n = name1 @ x" "nul \<notin> set x" "spells x c" "list_all wf_token rest"
        "\<And>us. same_head rest us \<Longrightarrow> same_head ts1 (c @ us) \<and> ?H name1 (c @ us) = Inr (n, us)"
        unfolding reproduces_def by blast
      have "spells (CHR '','' # CHR '' '' # x) (tok '','' (CHR '','') # c)"
        using x(3) by (intro spells_punct spells_space) auto
      moreover have "type_params base depth first name (tok '','' (CHR '','') # c @ us) = Inr (n, us)"
        if "same_head rest us" for us
        using x(5) [OF that] nf t by (subst eq) (auto simp: need_def)
      ultimately show ?thesis unfolding reproduces_def
        by (intro exI [of _ "CHR '','' # CHR '' '' # x"] exI [of _ "tok '','' (CHR '','') # c"])
           (use x t w in auto)
    qed
  qed
next
  case (3 base depth name ts)
  have lift: "reproduces False (type_param base depth) name ts n rest"
    if t: "parse_type (Suc depth) ts = Inr (m, rest)" "n = name @ m"
      and r: "reproduces False (\<lambda>_. parse_type (Suc depth)) [] ts m rest"
      and nb: "\<not> is_members base" "is_nested base" "\<not> at (CHR ''n'') ts" for m
  proof -
    from r obtain c where c: "nul \<notin> set m" "spells m c" "list_all wf_token rest"
      "\<And>us. same_head rest us \<Longrightarrow> same_head ts (c @ us) \<and> parse_type (Suc depth) (c @ us) = Inr (m, us)"
      unfolding reproduces_def by auto
    have "type_param base depth name (c @ us) = Inr (n, us)" if "same_head rest us" for us
      using c(4) [OF that] nb t by (auto simp: type_param.simps same_head_at)
    with c t show ?thesis unfolding reproduces_def by (intro exI [of _ m] exI [of _ c]) auto
  qed
  show ?case
  proof (cases "is_members base")
    case True
    with 3(4) obtain nm ts1 m where i: "ident ts = Inr (nm, ts1)"
      and p: "parse_type (depth + 1) ts1 = Inr (m, rest)" and n: "n = name @ nm @ '' '' @ m"
      by (auto simp: type_param.simps rbind_eq_Inr)
    then obtain t where t: "ts = t # ts1" by (cases ts) (auto split: if_splits)
    with 3(3) have wf: "wf_token t" "list_all wf_token ts1" by auto
    note sp = spells_ident_token [OF wf(1) i [unfolded t]]
    have "reproduces False (\<lambda>_. parse_type (depth + 1)) [] ts1 m rest" using 3(1) [OF True i refl wf(2) p] .
    then obtain c where c: "nul \<notin> set m" "spells m c" "list_all wf_token rest"
      "\<And>us. same_head rest us \<Longrightarrow> same_head ts1 (c @ us) \<and> parse_type (depth + 1) (c @ us) = Inr (m, us)"
      unfolding reproduces_def by auto
    have "spells (nm @ CHR '' '' # m) ([t] @ c)"
      using sp(1) c(2) by (intro spells_append spells_space) auto
    moreover have "type_param base depth name (t # c @ us) = Inr (n, us)" if "same_head rest us" for us
      using c(4) [OF that] True sp(4) n by (simp add: type_param.simps)
    ultimately show ?thesis unfolding reproduces_def
      by (intro exI [of _ "nm @ CHR '' '' # m"] exI [of _ "[t] @ c"]) (use c n t sp in auto)
  next
    case nm: False
    show ?thesis
    proof (cases "is_nested base \<and> \<not> at (CHR ''n'') ts")
      case True
      with nm 3(4) obtain m where "parse_type (depth + 1) ts = Inr (m, rest)" "n = name @ m"
        by (auto simp: type_param.simps rbind_eq_Inr)
      with 3(2) [OF nm _ _ 3(3)] True nm lift show ?thesis by auto
    next
      case False
      with nm 3(4) obtain t x where t: "ts = t # rest" "n = name @ x"
        and x: "tok_kind t = CHR ''n'' \<and> x = tok_text t
          \<or> \<not> is_nested base \<and> tok_kind t = squote \<and> x = quote squote (tok_text t)"
        by (cases ts) (auto simp: type_param.simps split: if_splits)
      with 3(3) have "wf_token t" by simp
      then have "spells x [t]" "nul \<notin> set x" using x spells_wf_token by auto
      moreover have "type_param base depth name (t # us) = Inr (name @ x, us)" for us
        using x nm by (auto simp: type_param.simps)
      ultimately show ?thesis using 3(3) t by (auto intro: reproduces_token)
    qed
  qed
qed

lemma lex_quoted_set:
  "lex_quoted q s = Some (t, r) \<Longrightarrow> set t \<subseteq> set s \<and> set r \<subseteq> set s"
  by (induction q s arbitrary: t r rule: lex_quoted.induct) (fastforce split: if_splits)+

lemma wf_tokens: "nul \<notin> set s \<Longrightarrow> tokens_of s = Inr ts \<Longrightarrow> list_all wf_token ts"
proof (induction s arbitrary: ts rule: tokens_of.induct)
  case (2 c s)
  have sub: "nul \<notin> set (takeWhile P s)" "nul \<notin> set (dropWhile P s)" for P
    using 2(6) by (auto dest: set_takeWhileD set_dropWhileD)
  have nn: "c \<noteq> nul" using 2(6) by auto
  consider (space) "c_isspace c" | (quoted) "\<not> c_isspace c" "c = squote \<or> c = dquote"
    | (word) "\<not> c_isspace c" "\<not> (c = squote \<or> c = dquote)" "ident_start c"
    | (num) "\<not> c_isspace c" "\<not> (c = squote \<or> c = dquote)" "\<not> ident_start c" "c_isdigit c"
    | (other) "\<not> c_isspace c" "\<not> (c = squote \<or> c = dquote)" "\<not> ident_start c" "\<not> c_isdigit c"
    by blast
  then show ?case
  proof cases
    case space
    with 2(1,6,7) show ?thesis by simp
  next
    case quoted
    with 2(6,7) obtain t r where l: "lex_quoted c s = Some (t, r)"
      by (cases "lex_quoted c s") (auto split: if_splits)
    with quoted 2(6,7) obtain us where r: "tokens_of r = Inr us" and ts: "ts = tok t c # us"
      by (auto simp: rbind_eq_Inr split: if_splits)
    have "nul \<notin> set t" "nul \<notin> set r" using lex_quoted_set [OF l] 2(6) by auto
    moreover have "list_all wf_token us" using 2(2) [OF quoted(1) nn quoted(2) l refl \<open>nul \<notin> set r\<close> r] .
    moreover have "wf_token (tok t c)" using quoted(2) \<open>nul \<notin> set t\<close> by (auto simp: wf_token_def)
    ultimately show ?thesis using ts by simp
  next
    case word
    with 2(6,7) obtain us where r: "tokens_of (dropWhile ident_char s) = Inr us"
      and ts: "ts = itok (c # takeWhile ident_char s) # us" by (auto simp: rbind_eq_Inr)
    have "list_all wf_token us" using 2(3) [OF word(1) nn word(2,3) sub(2) r] .
    moreover have "list_all ident_char (takeWhile ident_char s)" by (auto simp: list_all_iff dest: set_takeWhileD)
    then have "wf_token (itok (c # takeWhile ident_char s))"
      using word 2(6) sub(1) by (simp add: wf_token_def)
    ultimately show ?thesis using ts by simp
  next
    case num
    with 2(6,7) obtain us where r: "tokens_of (dropWhile c_isdigit s) = Inr us"
      and ts: "ts = tok (c # takeWhile c_isdigit s) (CHR ''n'') # us" by (auto simp: rbind_eq_Inr)
    have "list_all wf_token us" using 2(4) [OF num(1) nn num(2,3,4) sub(2) r] .
    moreover have "list_all c_isdigit (takeWhile c_isdigit s)" by (auto simp: list_all_iff dest: set_takeWhileD)
    then have "wf_token (tok (c # takeWhile c_isdigit s) (CHR ''n''))"
      using num 2(6) sub(1) by (simp add: wf_token_def)
    ultimately show ?thesis using ts by simp
  next
    case other
    with 2(6,7) obtain us where p: "c \<in> set punctuation" and r: "tokens_of s = Inr us"
      and ts: "ts = tok [c] c # us" by (auto simp: rbind_eq_Inr split: if_splits)
    have "list_all wf_token us" using 2(5) [OF other(1) nn other(2,3,4) p _ r] 2(6) by simp
    moreover have "wf_token (tok [c] c)" using p nn by (auto simp: wf_token_def punctuation_def)
    ultimately show ?thesis using ts by simp
  qed
qed simp

lemma canonicalize_idempotent:
  assumes "duckdb_canonicalize_type s = Inr t"
  shows "duckdb_canonicalize_type t = Inr t"
proof -
  from assms have p: "parse_declaration s = Inr t"
    by (auto simp: duckdb_canonicalize_type_def split: sum.splits)
  then obtain ts where l: "nul \<notin> set s" "tokens_of s = Inr ts" and t: "parse_type 0 ts = Inr (t, [])"
    by (auto simp: parse_declaration_def lex_declaration_def rbind_eq_Inr split: if_splits)
  have "reproduces False (\<lambda>_. parse_type 0) [] ts t []"
    using wf_tokens [OF l] t by (rule reproduces_parse(1))
  then obtain c where c: "nul \<notin> set t" "spells t c" and r: "parse_type 0 (c @ []) = Inr (t, [])"
    unfolding reproduces_def by (metis append_Nil same_head_refl)
  have "tokens_of (t @ []) = Inr (c @ [])"
    using c(2) unfolding spells_def by (rule allE [of _ "[]"]) simp
  with c r show ?thesis
    by (simp add: duckdb_canonicalize_type_def parse_declaration_def lex_declaration_def)
qed

text \<open>
  Canonicalization is idempotent: the canonical text of an accepted declaration is itself
  accepted and is its own canonical text. The grammar therefore never emits a declaration that
  it would reject or read differently.
\<close>

theorem canonicalize_type_idempotent:
  assumes "duckdb_canonicalize_type s = Inr t"
  shows "duckdb_canonicalize_type t = Inr t"
  using assms by (rule canonicalize_idempotent)

theorem canonicalize_type_idempotent_witness:
  "duckdb_canonicalize_type ''struct(a decimal(18,3)[], b time with time zone)''
     = Inr ''STRUCT(a DECIMAL(18, 3)[], b TIME WITH TIME ZONE)''
   \<and> duckdb_canonicalize_type ''STRUCT(a DECIMAL(18, 3)[], b TIME WITH TIME ZONE)''
     = Inr ''STRUCT(a DECIMAL(18, 3)[], b TIME WITH TIME ZONE)''"
proof -
  have "duckdb_canonicalize_type ''struct(a decimal(18,3)[], b time with time zone)''
     = Inr ''STRUCT(a DECIMAL(18, 3)[], b TIME WITH TIME ZONE)''"
    by code_simp
  with canonicalize_type_idempotent [OF this] show ?thesis by blast
qed

end
