(* ===== verification/Php_Value.thy ===== *)
theory Php_Value
  imports Prelude Errors Interval Type_Decl
begin

text \<open>
  PHP values as the extension sees them and the storage of \<open>Value\<close> in
  \<open>src/src/typed_value.cpp\<close>: the detached snapshot taken by the constructor, the check for typed
  values inside a value, and the immutable object itself.

  A \<open>zval\<close> is a finite tree. Each array carries the identity of its hash table: the same number
  stands for the same table, which is what the pointer comparisons of the code observe. An array
  that contains itself through a reference is represented by an unrolling in which its identity
  recurs on a path. PHP's date parser is a parameter \<open>date_init\<close>: it takes the text handed to
  \<open>php_date_initialize\<close> and returns the seconds and microseconds of the new object, or nothing.
\<close>

section \<open>Values\<close>

datatype php_key = K_int int | K_str string

datatype zval =
    Z_null
  | Z_bool bool
  | Z_long int
  | Z_double u64
  | Z_string string
  | Z_array nat "(php_key \<times> zval) list"
  | Z_value "string option" zval
  | Z_interval interval
  | Z_datetime bool "(int \<times> int) option"
  | Z_object string
  | Z_resource
  | Z_reference zval

text \<open>\<open>ZVAL_DEREF\<close>\<close>

fun deref :: "zval \<Rightarrow> zval" where
  "deref (Z_reference v) = deref v"
| "deref v = v"

fun zend_zval_type_name :: "zval \<Rightarrow> string" where
  "zend_zval_type_name Z_null = ''null''"
| "zend_zval_type_name (Z_bool b) = ''bool''"
| "zend_zval_type_name (Z_long n) = ''int''"
| "zend_zval_type_name (Z_double d) = ''float''"
| "zend_zval_type_name (Z_string s) = ''string''"
| "zend_zval_type_name (Z_array h es) = ''array''"
| "zend_zval_type_name Z_resource = ''resource''"
| "zend_zval_type_name (Z_reference v) = zend_zval_type_name v"
| "zend_zval_type_name _ = ''object''"

definition zend_array_is_list :: "(php_key \<times> zval) list \<Rightarrow> bool" where
  "zend_array_is_list es \<longleftrightarrow> map fst es = map (\<lambda>i. K_int (int i)) [0..<length es]"

definition hash_find :: "(php_key \<times> zval) list \<Rightarrow> php_key \<Rightarrow> zval option" where
  "hash_find es k = map_of es k"

section \<open>The snapshot of the constructor\<close>

definition value_class :: string where
  "value_class = ''DuckDB'' @ [CHR 0x5C] @ ''Value''"

definition date_text :: "int \<Rightarrow> int \<Rightarrow> string" where
  "date_text sse us = dec_int sse @ ''.'' @ pad_left 6 (dec_int us)"

type_synonym date_parser = "string \<Rightarrow> (int \<times> int) option"

fun snapshot :: "date_parser \<Rightarrow> zval \<Rightarrow> nat \<Rightarrow> nat list \<Rightarrow> (throwable, zval) result"
  and snapshot_entries :: "date_parser \<Rightarrow> (php_key \<times> zval) list \<Rightarrow> nat \<Rightarrow> nat list
      \<Rightarrow> (throwable, (php_key \<times> zval) list) result" where
  "snapshot date_init (Z_reference v) depth seen = snapshot date_init v depth seen"
| "snapshot date_init (Z_array h es) depth seen =
     (if depth > 64 then Inl (ValueError ''Value exceeds nesting limit'')
      else if h \<in> set seen then Inl (ValueError ''Cyclic Value input'')
      else rbind (snapshot_entries date_init es (depth + 1) (h # seen)) (\<lambda>es'. Inr (Z_array h es')))"
| "snapshot date_init (Z_value ty inp) depth seen =
     (if depth > 64 then Inl (ValueError ''Value exceeds nesting limit'')
      else case ty of
        None \<Rightarrow> Inl (TypeError (''Cannot snapshot an uninitialized '' @ value_class @ '' object''))
      | Some t \<Rightarrow> Inr (Z_value ty inp))"
| "snapshot date_init (Z_interval iv) depth seen =
     (if depth > 64 then Inl (ValueError ''Value exceeds nesting limit'') else Inr (Z_interval iv))"
| "snapshot date_init (Z_datetime immutable time) depth seen =
     (if depth > 64 then Inl (ValueError ''Value exceeds nesting limit'')
      else case time of
        None \<Rightarrow> Inl (TypeError ''Cannot snapshot an uninitialized DateTime object'')
      | Some (sse, us) \<Rightarrow>
          (case date_init (date_text sse us) of
             None \<Rightarrow> Inl (TypeError ''Cannot snapshot DateTime input'')
           | Some t \<Rightarrow> Inr (Z_datetime True (Some t))))"
| "snapshot date_init (Z_object name) depth seen =
     (if depth > 64 then Inl (ValueError ''Value exceeds nesting limit'')
      else Inl (TypeError (''Unsupported object in '' @ value_class @ '': '' @ name)))"
| "snapshot date_init Z_resource depth seen =
     (if depth > 64 then Inl (ValueError ''Value exceeds nesting limit'')
      else Inl (TypeError (''Unsupported resource in '' @ value_class)))"
| "snapshot date_init Z_null depth seen =
     (if depth > 64 then Inl (ValueError ''Value exceeds nesting limit'') else Inr Z_null)"
| "snapshot date_init (Z_bool b) depth seen =
     (if depth > 64 then Inl (ValueError ''Value exceeds nesting limit'') else Inr (Z_bool b))"
| "snapshot date_init (Z_long n) depth seen =
     (if depth > 64 then Inl (ValueError ''Value exceeds nesting limit'') else Inr (Z_long n))"
| "snapshot date_init (Z_double d) depth seen =
     (if depth > 64 then Inl (ValueError ''Value exceeds nesting limit'') else Inr (Z_double d))"
| "snapshot date_init (Z_string s) depth seen =
     (if depth > 64 then Inl (ValueError ''Value exceeds nesting limit'') else Inr (Z_string s))"
| "snapshot_entries date_init [] depth seen = Inr []"
| "snapshot_entries date_init ((k, v) # es) depth seen =
     rbind (snapshot date_init v depth seen) (\<lambda>v'.
     rbind (snapshot_entries date_init es depth seen) (\<lambda>es'.
       Inr ((k, v') # es')))"

section \<open>The object\<close>

record value_object =
  vo_type :: "string option"
  vo_input :: zval

definition create :: value_object where
  "create = \<lparr>vo_type = None, vo_input = Z_null\<rparr>"

definition duckdb_value_initialize ::
    "date_parser \<Rightarrow> value_object \<Rightarrow> string \<Rightarrow> zval \<Rightarrow> (throwable, value_object) result" where
  "duckdb_value_initialize date_init v type input =
     (if vo_type v \<noteq> None then Inl (PhpError (value_class @ '' is immutable''))
      else rbind (duckdb_canonicalize_type type) (\<lambda>canonical.
           rbind (snapshot date_init input 0 []) (\<lambda>copy.
             Inr \<lparr>vo_type = Some canonical, vo_input = copy\<rparr>)))"

definition getType :: "value_object \<Rightarrow> (throwable, string) result" where
  "getType v = (case vo_type v of
     None \<Rightarrow> Inl (PhpError (''Uninitialized '' @ value_class)) | Some t \<Rightarrow> Inr t)"

section \<open>Typed values inside a value\<close>

text \<open>\<open>duckdb_value_contains_typed\<close>: a stack of values still to inspect, children pushed in order.\<close>

function contains_typed_loop :: "nat set \<Rightarrow> zval list \<Rightarrow> bool" where
  "contains_typed_loop seen [] = False"
| "contains_typed_loop seen (v # pending) =
     (case deref v of
        Z_value ty inp \<Rightarrow> True
      | Z_array h es \<Rightarrow>
          if h \<in> seen then contains_typed_loop seen pending
          else contains_typed_loop (insert h seen) (rev (map snd es) @ pending)
      | _ \<Rightarrow> contains_typed_loop seen pending)"
  by pat_completeness auto

lemma size_list_values:
  "size_list size (rev (map snd es)) \<le> size_list (size_prod (\<lambda>_. 0) size) es"
  by (induction es) auto

lemma deref_array_size: "deref v = Z_array h es \<Longrightarrow> size_list size (rev (map snd es)) < size v"
proof (induction v)
  case (Z_array t xs)
  then show ?case using size_list_values [of es] by simp
qed auto

termination contains_typed_loop
proof (relation "measure (\<lambda>(seen, pending). size_list size pending)")
qed (auto dest: deref_array_size)

definition duckdb_value_contains_typed :: "zval \<Rightarrow> bool" where
  "duckdb_value_contains_typed root = contains_typed_loop {} [root]"

section \<open>What the check for typed values decides\<close>

text \<open>A typed value occurs somewhere in the tree.\<close>

fun typed_in :: "zval \<Rightarrow> bool" and typed_in_entries :: "(php_key \<times> zval) list \<Rightarrow> bool" where
  "typed_in (Z_reference v) = typed_in v"
| "typed_in (Z_array h es) = typed_in_entries es"
| "typed_in (Z_value ty inp) = True"
| "typed_in (Z_interval iv) = False"
| "typed_in (Z_datetime im t) = False"
| "typed_in (Z_object c) = False"
| "typed_in Z_resource = False"
| "typed_in Z_null = False"
| "typed_in (Z_bool b) = False"
| "typed_in (Z_long n) = False"
| "typed_in (Z_double d) = False"
| "typed_in (Z_string s) = False"
| "typed_in_entries [] = False"
| "typed_in_entries ((k, v) # es) = (typed_in v \<or> typed_in_entries es)"

text \<open>The hash tables of a tree with their contents; equal identities have equal contents.\<close>

fun tables :: "zval \<Rightarrow> (nat \<times> (php_key \<times> zval) list) set"
  and tables_entries :: "(php_key \<times> zval) list \<Rightarrow> (nat \<times> (php_key \<times> zval) list) set" where
  "tables (Z_reference v) = tables v"
| "tables (Z_array h es) = insert (h, es) (tables_entries es)"
| "tables (Z_value ty inp) = {}"
| "tables (Z_interval iv) = {}"
| "tables (Z_datetime im t) = {}"
| "tables (Z_object c) = {}"
| "tables Z_resource = {}"
| "tables Z_null = {}"
| "tables (Z_bool b) = {}"
| "tables (Z_long n) = {}"
| "tables (Z_double d) = {}"
| "tables (Z_string s) = {}"
| "tables_entries [] = {}"
| "tables_entries ((k, v) # es) = tables v \<union> tables_entries es"

definition same_tables :: "(nat \<times> (php_key \<times> zval) list) set \<Rightarrow> bool" where
  "same_tables T \<longleftrightarrow> (\<forall>h es es'. (h, es) \<in> T \<longrightarrow> (h, es') \<in> T \<longrightarrow> es = es')"

lemma typed_in_entries_iff: "typed_in_entries es \<longleftrightarrow> (\<exists>v \<in> set (map snd es). typed_in v)"
  by (induction es) auto

lemma tables_entries_eq: "tables_entries es = (\<Union>v \<in> set (map snd es). tables v)"
  by (induction es) auto

lemma deref_not_reference [simp]: "deref v \<noteq> Z_reference w"
  by (induction v) auto

lemma size_entry: "w \<in> set (map snd es) \<Longrightarrow> size w < size (Z_array h es)"
  by (induction es) force+

lemma typed_in_deref: "typed_in (deref v) = typed_in v"
  by (induction v) auto

lemma tables_deref: "tables (deref v) = tables v"
  by (induction v) auto

lemma size_deref: "size (deref v) \<le> size v"
  by (induction v) auto

lemma deref_cases_typed:
  "(\<And>ty inp. deref v \<noteq> Z_value ty inp) \<Longrightarrow> (\<And>h es. deref v \<noteq> Z_array h es) \<Longrightarrow> \<not> typed_in v"
  using typed_in_deref [of v] by (cases "deref v") auto

lemma loop_sound: "contains_typed_loop seen pending \<Longrightarrow> \<exists>v \<in> set pending. typed_in v"
proof (induction seen pending rule: contains_typed_loop.induct)
  case (2 seen v pending)
  show ?case
  proof (cases "deref v")
    case (Z_value ty inp)
    then have "typed_in v" using typed_in_deref [of v] by simp
    then show ?thesis by simp
  next
    case (Z_array h es)
    show ?thesis
    proof (cases "h \<in> seen")
      case True
      with 2 Z_array show ?thesis by auto
    next
      case False
      with 2 Z_array have "\<exists>w \<in> set (rev (map snd es) @ pending). typed_in w" by auto
      moreover have "typed_in v = typed_in_entries es" using Z_array typed_in_deref [of v] by simp
      ultimately show ?thesis by (auto simp: typed_in_entries_iff)
    qed
  qed (use 2 in auto)
qed simp

text \<open>A value the loop need not look at again: not typed, and its table has been entered.\<close>

definition settled :: "nat set \<Rightarrow> zval \<Rightarrow> bool" where
  "settled seen v \<longleftrightarrow>
     (\<forall>ty inp. deref v \<noteq> Z_value ty inp) \<and> (\<forall>h es. deref v = Z_array h es \<longrightarrow> h \<in> seen)"

definition frontier :: "(nat \<times> (php_key \<times> zval) list) set \<Rightarrow> nat set \<Rightarrow> zval list \<Rightarrow> bool" where
  "frontier T seen pending \<longleftrightarrow>
     (\<forall>(h, es) \<in> T. h \<in> seen \<longrightarrow> (\<forall>v \<in> set (map snd es). settled seen v \<or> v \<in> set pending))"

lemma frontier_empty:
  assumes "frontier T seen []" "tables v \<subseteq> T" "settled seen v"
  shows "\<not> typed_in v"
  using assms(2,3)
proof (induction "size v" arbitrary: v rule: less_induct)
  case less
  show ?case
  proof (cases "deref v")
    case (Z_value ty inp)
    with less(3) show ?thesis by (auto simp: settled_def)
  next
    case (Z_array h es)
    then have h: "h \<in> seen" "(h, es) \<in> T" "tables_entries es \<subseteq> T"
      using less(2,3) tables_deref [of v] by (auto simp: settled_def)
    have "\<not> typed_in w" if w: "w \<in> set (map snd es)" for w
    proof (rule less(1))
      have "size w < size (Z_array h es)"
        using w by (rule size_entry)
      then show "size w < size v" using size_deref [of v] Z_array by simp
      show "tables w \<subseteq> T" using h(3) w by (auto simp: tables_entries_eq)
      show "settled seen w" using assms(1) h w by (auto simp: frontier_def)
    qed
    then show ?thesis using Z_array typed_in_deref [of v] by (auto simp: typed_in_entries_iff)
  qed (use typed_in_deref [of v] in auto)
qed

lemma settled_mono: "settled seen v \<Longrightarrow> settled (insert h seen) v"
  by (auto simp: settled_def)

lemma loop_complete:
  assumes "same_tables T"
  shows "\<not> contains_typed_loop seen pending \<Longrightarrow> frontier T seen pending \<Longrightarrow>
    (\<And>v. v \<in> set pending \<Longrightarrow> tables v \<subseteq> T) \<Longrightarrow>
    \<exists>seen'. frontier T seen' [] \<and> seen \<subseteq> seen' \<and> (\<forall>v \<in> set pending. settled seen' v)"
proof (induction "size_list size pending" arbitrary: seen pending rule: less_induct)
  case less
  have mono: "settled seen w \<Longrightarrow> seen \<subseteq> seen' \<Longrightarrow> settled seen' w" for w seen'
    by (auto simp: settled_def)
  show ?case
  proof (cases pending)
    case Nil
    with less(3) show ?thesis by auto
  next
    case (Cons v rest)
    have skip: ?thesis if v: "settled seen v" and l: "\<not> contains_typed_loop seen rest"
    proof -
      have "frontier T seen rest" using less(3) v Cons by (auto simp: frontier_def)
      moreover have "size_list size rest < size_list size pending" using Cons by simp
      ultimately obtain seen' where "frontier T seen' []" "seen \<subseteq> seen'" "\<forall>v \<in> set rest. settled seen' v"
        using less(1) [of rest seen] l less(4) Cons by auto
      with mono [OF v] Cons show ?thesis by auto
    qed
    show ?thesis
    proof (cases "deref v")
      case (Z_value ty inp)
      with less(2) Cons show ?thesis by simp
    next
      case (Z_array h es)
      have t: "(h, es) \<in> T" "tables_entries es \<subseteq> T"
        using less(4) [of v] Cons Z_array tables_deref [of v] by auto
      show ?thesis
      proof (cases "h \<in> seen")
        case True
        with less(2) Cons Z_array show ?thesis by (intro skip) (auto simp: settled_def)
      next
        case False
        let ?next = "rev (map snd es) @ rest"
        have "size_list size ?next < size_list size pending"
          using Z_array deref_array_size [of v h es] Cons by simp
        moreover have "\<not> contains_typed_loop (insert h seen) ?next"
          using less(2) Cons Z_array False by simp
        moreover have "frontier T (insert h seen) ?next"
          unfolding frontier_def
        proof (clarify)
          fix h' es' w
          assume a: "(h', es') \<in> T" "h' \<in> insert h seen" "w \<in> set (map snd es')" "w \<notin> set ?next"
          show "settled (insert h seen) w"
          proof (cases "h' = h")
            case True
            with assms t(1) a(1) have "es' = es" unfolding same_tables_def by blast
            with a show ?thesis by auto
          next
            case False
            with a less(3) have "settled seen w \<or> w \<in> set pending" by (auto simp: frontier_def)
            with a(4) Cons have "settled seen w \<or> w = v" by auto
            then show ?thesis using Z_array by (auto simp: settled_def)
          qed
        qed
        moreover have "tables w \<subseteq> T" if "w \<in> set ?next" for w
          using that less(4) Cons t(2) by (auto simp: tables_entries_eq)
        ultimately obtain seen' where s: "frontier T seen' []" "insert h seen \<subseteq> seen'"
          "\<forall>v \<in> set ?next. settled seen' v"
          using less(1) [of ?next "insert h seen"] by blast
        moreover have "settled seen' v" using s(2) Z_array by (auto simp: settled_def)
        ultimately show ?thesis using Cons by auto
      qed
    qed (use less(2) Cons skip in \<open>auto simp: settled_def\<close>)
  qed
qed

text \<open>
  \<open>duckdb_value_contains_typed\<close> answers whether a \<open>Value\<close> occurs anywhere in the value:
  skipping the hash tables already visited, which makes it terminate on cyclic arrays, never
  hides one.
\<close>

theorem contains_typed_correct:
  assumes "same_tables (tables v)"
  shows "duckdb_value_contains_typed v \<longleftrightarrow> typed_in v"
proof
  assume "duckdb_value_contains_typed v"
  then have "contains_typed_loop {} [v]" unfolding duckdb_value_contains_typed_def .
  from loop_sound [OF this] show "typed_in v" by simp
next
  assume t: "typed_in v"
  show "duckdb_value_contains_typed v"
  proof (rule ccontr)
    assume "\<not> duckdb_value_contains_typed v"
    then have "\<not> contains_typed_loop {} [v]" unfolding duckdb_value_contains_typed_def .
    from loop_complete [OF assms this]
    obtain seen' where "frontier (tables v) seen' []" "settled seen' v"
      by (auto simp: frontier_def)
    with frontier_empty [of "tables v" seen' v] t show False by simp
  qed
qed

theorem contains_typed_correct_witness:
  "duckdb_value_contains_typed
     (Z_array 1 [(K_int 0, Z_array 2 []), (K_int 1, Z_array 2 []),
                 (K_str ''a'', Z_reference (Z_value (Some ''INTEGER'') Z_null))])"
proof -
  let ?v = "Z_array 1 [(K_int 0, Z_array 2 []), (K_int 1, Z_array 2 []),
                 (K_str ''a'', Z_reference (Z_value (Some ''INTEGER'') Z_null))]"
  have "same_tables (tables ?v)" by (auto simp: same_tables_def)
  from contains_typed_correct [OF this] show ?thesis by simp
qed

section \<open>What the snapshot is\<close>

text \<open>The value with references resolved and every date made immutable.\<close>

fun detach :: "zval \<Rightarrow> zval" and detach_entries :: "(php_key \<times> zval) list \<Rightarrow> (php_key \<times> zval) list" where
  "detach (Z_reference v) = detach v"
| "detach (Z_array h es) = Z_array h (detach_entries es)"
| "detach (Z_datetime im t) = Z_datetime True t"
| "detach (Z_value ty inp) = Z_value ty inp"
| "detach (Z_interval iv) = Z_interval iv"
| "detach (Z_object c) = Z_object c"
| "detach Z_resource = Z_resource"
| "detach Z_null = Z_null"
| "detach (Z_bool b) = Z_bool b"
| "detach (Z_long n) = Z_long n"
| "detach (Z_double d) = Z_double d"
| "detach (Z_string s) = Z_string s"
| "detach_entries [] = []"
| "detach_entries ((k, v) # es) = (k, detach v) # detach_entries es"

text \<open>Array levels below the root.\<close>

fun height :: "zval \<Rightarrow> nat" and height_entries :: "(php_key \<times> zval) list \<Rightarrow> nat" where
  "height (Z_reference v) = height v"
| "height (Z_array h es) = height_entries es"
| "height (Z_datetime im t) = 0"
| "height (Z_value ty inp) = 0"
| "height (Z_interval iv) = 0"
| "height (Z_object c) = 0"
| "height Z_resource = 0"
| "height Z_null = 0"
| "height (Z_bool b) = 0"
| "height (Z_long n) = 0"
| "height (Z_double d) = 0"
| "height (Z_string s) = 0"
| "height_entries [] = 0"
| "height_entries ((k, v) # es) = max (Suc (height v)) (height_entries es)"

text \<open>No table occurs below itself or below a table of \<open>path\<close>.\<close>

fun acyclic_below :: "nat set \<Rightarrow> zval \<Rightarrow> bool"
  and acyclic_entries :: "nat set \<Rightarrow> (php_key \<times> zval) list \<Rightarrow> bool" where
  "acyclic_below path (Z_reference v) = acyclic_below path v"
| "acyclic_below path (Z_array h es) = (h \<notin> path \<and> acyclic_entries (insert h path) es)"
| "acyclic_below path (Z_datetime im t) = True"
| "acyclic_below path (Z_value ty inp) = True"
| "acyclic_below path (Z_interval iv) = True"
| "acyclic_below path (Z_object c) = True"
| "acyclic_below path Z_resource = True"
| "acyclic_below path Z_null = True"
| "acyclic_below path (Z_bool b) = True"
| "acyclic_below path (Z_long n) = True"
| "acyclic_below path (Z_double d) = True"
| "acyclic_below path (Z_string s) = True"
| "acyclic_entries path [] = True"
| "acyclic_entries path ((k, v) # es) = (acyclic_below path v \<and> acyclic_entries path es)"

text \<open>Leaves that can be captured: no resource, foreign object or uninitialized object.\<close>

fun leaves_ok :: "zval \<Rightarrow> bool" and leaves_ok_entries :: "(php_key \<times> zval) list \<Rightarrow> bool" where
  "leaves_ok (Z_reference v) = leaves_ok v"
| "leaves_ok (Z_array h es) = leaves_ok_entries es"
| "leaves_ok (Z_datetime im t) = (case t of None \<Rightarrow> False | Some (sse, us) \<Rightarrow> 0 \<le> us \<and> us < 1000000)"
| "leaves_ok (Z_value ty inp) = (ty \<noteq> None)"
| "leaves_ok (Z_interval iv) = True"
| "leaves_ok (Z_object c) = False"
| "leaves_ok Z_resource = False"
| "leaves_ok Z_null = True"
| "leaves_ok (Z_bool b) = True"
| "leaves_ok (Z_long n) = True"
| "leaves_ok (Z_double d) = True"
| "leaves_ok (Z_string s) = True"
| "leaves_ok_entries [] = True"
| "leaves_ok_entries ((k, v) # es) = (leaves_ok v \<and> leaves_ok_entries es)"

text \<open>Times PHP can hold: the microseconds of a date object are below one million.\<close>

fun times_ok :: "zval \<Rightarrow> bool" and times_ok_entries :: "(php_key \<times> zval) list \<Rightarrow> bool" where
  "times_ok (Z_reference v) = times_ok v"
| "times_ok (Z_array h es) = times_ok_entries es"
| "times_ok (Z_datetime im t) = (case t of None \<Rightarrow> True | Some (sse, us) \<Rightarrow> 0 \<le> us \<and> us < 1000000)"
| "times_ok (Z_value ty inp) = True"
| "times_ok (Z_interval iv) = True"
| "times_ok (Z_object c) = True"
| "times_ok Z_resource = True"
| "times_ok Z_null = True"
| "times_ok (Z_bool b) = True"
| "times_ok (Z_long n) = True"
| "times_ok (Z_double d) = True"
| "times_ok (Z_string s) = True"
| "times_ok_entries [] = True"
| "times_ok_entries ((k, v) # es) = (times_ok v \<and> times_ok_entries es)"

text \<open>
  The documented behaviour of the format \<open>U.u\<close>: it reads back the seconds and microseconds that
  were printed.
\<close>

definition reads_dates :: "date_parser \<Rightarrow> bool" where
  "reads_dates date_init \<longleftrightarrow>
     (\<forall>sse us. 0 \<le> us \<longrightarrow> us < 1000000 \<longrightarrow> date_init (date_text sse us) = Some (sse, us))"

lemma reads_datesD:
  "reads_dates f \<Longrightarrow> 0 \<le> us \<Longrightarrow> us < 1000000 \<Longrightarrow> f (date_text sse us) = Some (sse, us)"
  by (auto simp: reads_dates_def)

lemma snapshot_characterised_mutual:
  "reads_dates date_init \<Longrightarrow> times_ok v \<Longrightarrow> snapshot date_init v d seen = Inr w
     \<longleftrightarrow> d + height v \<le> 64 \<and> acyclic_below (set seen) v \<and> leaves_ok v \<and> w = detach v"
  "reads_dates date_init \<Longrightarrow> times_ok_entries es \<Longrightarrow> 0 < d \<Longrightarrow>
     snapshot_entries date_init es d seen = Inr es'
     \<longleftrightarrow> (es = [] \<or> d + height_entries es \<le> 65) \<and> acyclic_entries (set seen) es
         \<and> leaves_ok_entries es \<and> es' = detach_entries es"
proof (induction date_init v d seen and date_init es d seen arbitrary: w and es'
    rule: snapshot_snapshot_entries.induct)
  case (5 date_init immutable time depth seen)
  then show ?case by (auto simp: reads_datesD split: option.splits)
next
  case (14 date_init k v es depth seen)
  then show ?case by (cases es) (auto simp: rbind_eq_Inr max_def)
next
  case (2 date_init h es depth seen)
  show ?case
  proof (cases "depth > 64 \<or> h \<in> set seen")
    case True
    then show ?thesis by auto
  next
    case False
    have "times_ok_entries es" using 2(3) by simp
    with 2(1) [OF _ _ 2(2)] False show ?thesis
      by (cases es) (auto simp: rbind_eq_Inr)
  qed
next
  case (3 date_init ty inp depth seen)
  then show ?case by (auto split: option.splits)
qed (simp_all, auto)

text \<open>
  The constructor's snapshot succeeds exactly on values that nest at most 64 arrays deep,
  contain themselves nowhere and hold no resource, foreign object or uninitialized object; the
  copy is then the value itself with its references resolved and its dates made immutable.
\<close>

theorem snapshot_correct:
  assumes "reads_dates date_init" and "times_ok v"
  shows "snapshot date_init v 0 [] = Inr w
     \<longleftrightarrow> height v \<le> 64 \<and> acyclic_below {} v \<and> leaves_ok v \<and> w = detach v"
  using snapshot_characterised_mutual(1) [OF assms, of 0 "[]"] by simp

definition sample_date_parser :: date_parser where
  "sample_date_parser s =
     (let w = takeWhile (\<lambda>c. c \<noteq> CHR ''.'') s; f = tl (dropWhile (\<lambda>c. c \<noteq> CHR ''.'') s)
      in Some (if hd w = CHR ''-'' then - int (dec_value (tl w)) else int (dec_value w), int (dec_value f)))"

lemma dec_value_pad: "dec_value (pad_left n s) = dec_value s"
proof -
  have "dec_value (replicate k (CHR ''0'')) = 0" for k
    by (induction k) (auto simp: digit_val_def replicate_append_same [symmetric] simp del: replicate_Suc
        simp add: replicate_Suc)
  then show ?thesis by (simp add: pad_left_def)
qed

lemma is_digit_dot: "is_digit c \<Longrightarrow> c \<noteq> CHR ''.'' \<and> c \<noteq> CHR ''-''"
  by (auto simp: is_digit_def)

lemma sample_reads_dates: "reads_dates sample_date_parser"
  unfolding reads_dates_def
proof (intro allI impI)
  fix sse us :: int
  assume us: "0 \<le> us" "us < 1000000"
  have nd: "c \<noteq> CHR ''.''" if "c \<in> set (dec_int sse)" for c
    using that set_dec_string is_digit_dot by (auto simp: dec_int_def split: if_splits)
  have "takeWhile (\<lambda>c. c \<noteq> CHR ''.'') (date_text sse us) = dec_int sse"
    "dropWhile (\<lambda>c. c \<noteq> CHR ''.'') (date_text sse us) = CHR ''.'' # pad_left 6 (dec_int us)"
    using nd by (auto simp: date_text_def takeWhile_append2 dropWhile_append2)
  moreover have "dec_value (dec_int us) = nat us" using us by (simp add: dec_int_def)
  moreover have "hd (dec_string n) \<noteq> CHR ''-''" for n
    using set_dec_string [of "hd (dec_string n)" n] is_digit_dot by (metis dec_string_nonempty hd_in_set)
  ultimately show "sample_date_parser (date_text sse us) = Some (sse, us)"
    using us by (auto simp: sample_date_parser_def Let_def dec_value_pad dec_int_def)
qed

theorem snapshot_correct_witness:
  "snapshot sample_date_parser
     (Z_array 1 [(K_str ''at'', Z_reference (Z_datetime False (Some (-1, 5)))), (K_int 0, Z_array 2 [])]) 0 []
   = Inr (Z_array 1 [(K_str ''at'', Z_datetime True (Some (-1, 5))), (K_int 0, Z_array 2 [])])"
proof -
  let ?v = "Z_array 1 [(K_str ''at'', Z_reference (Z_datetime False (Some (-1, 5)))), (K_int 0, Z_array 2 [])]"
  have "times_ok ?v" by simp
  from snapshot_correct [OF sample_reads_dates this] show ?thesis by simp
qed

text \<open>
  A \<open>Value\<close> is immutable and its declaration is canonical: initialization succeeds
  only on a fresh object, stores a declaration that is its own canonical form, and a second
  initialization fails whatever its arguments.
\<close>

theorem value_initialize_once:
  assumes "duckdb_value_initialize date_init v type input = Inr v'"
  shows "vo_type v = None
    \<and> (\<exists>t. vo_type v' = Some t \<and> getType v' = Inr t \<and> duckdb_canonicalize_type t = Inr t)
    \<and> duckdb_value_initialize date_init v' type2 input2 = Inl (PhpError (value_class @ '' is immutable''))"
proof -
  from assms obtain t w where v: "vo_type v = None" "duckdb_canonicalize_type type = Inr t"
    "v' = \<lparr>vo_type = Some t, vo_input = w\<rparr>"
    by (auto simp: duckdb_value_initialize_def rbind_eq_Inr split: if_splits)
  then show ?thesis
    using canonicalize_idempotent by (auto simp: getType_def duckdb_value_initialize_def)
qed

theorem value_initialize_once_witness:
  "duckdb_value_initialize sample_date_parser create ''integer'' (Z_long 7)
     = Inr \<lparr>vo_type = Some ''INTEGER'', vo_input = Z_long 7\<rparr>
   \<and> duckdb_value_initialize sample_date_parser \<lparr>vo_type = Some ''INTEGER'', vo_input = Z_long 7\<rparr>
       ''varchar'' Z_null = Inl (PhpError (value_class @ '' is immutable''))"
proof -
  have "duckdb_canonicalize_type ''integer'' = Inr ''INTEGER''" by code_simp
  then have "duckdb_value_initialize sample_date_parser create ''integer'' (Z_long 7)
      = Inr \<lparr>vo_type = Some ''INTEGER'', vo_input = Z_long 7\<rparr>"
    by (simp add: duckdb_value_initialize_def create_def)
  from value_initialize_once [OF this] this show ?thesis by blast
qed

end
