(* ===== verification/Type_Classes.thy ===== *)
theory Type_Classes
  imports Prelude Errors Logical_Type Type_Decl Php_Value
begin

text \<open>
  The typed value constructors of \<open>src/src/type_classes.cpp\<close>: type specifications, field lists and
  one definition per constructor. A constructor takes the object being constructed and its
  arguments after parameter parsing and returns the initialized object or the thrown error. The
  constructors assemble a declaration; \<open>duckdb_value_initialize\<close> canonicalizes it.
\<close>

section \<open>Type specifications\<close>

text \<open>\<open>DUCKDB_SCALAR_VALUE_CLASSES\<close> of \<open>type_classes.h\<close>.\<close>

definition scalar_value_classes :: "(string \<times> string) list" where
  "scalar_value_classes =
    [(''Boolean'', ''BOOLEAN''), (''TinyInt'', ''TINYINT''), (''SmallInt'', ''SMALLINT''),
     (''Integer'', ''INTEGER''), (''BigInt'', ''BIGINT''), (''UTinyInt'', ''UTINYINT''),
     (''USmallInt'', ''USMALLINT''), (''UInteger'', ''UINTEGER''), (''UBigInt'', ''UBIGINT''),
     (''HugeInt'', ''HUGEINT''), (''UHugeInt'', ''UHUGEINT''), (''BigNum'', ''BIGNUM''),
     (''Float32'', ''FLOAT''), (''Double'', ''DOUBLE''), (''Varchar'', ''VARCHAR''),
     (''Blob'', ''BLOB''), (''Bit'', ''BIT''), (''Uuid'', ''UUID''), (''Json'', ''JSON''),
     (''Date'', ''DATE''), (''Time'', ''TIME''), (''TimeNs'', ''TIME_NS''), (''TimeTz'', ''TIMETZ''),
     (''TimestampS'', ''TIMESTAMP_S''), (''TimestampMs'', ''TIMESTAMP_MS''),
     (''Timestamp'', ''TIMESTAMP''), (''TimestampNs'', ''TIMESTAMP_NS''),
     (''TimestampTz'', ''TIMESTAMPTZ''), (''IntervalValue'', ''INTERVAL''), (''Variant'', ''VARIANT'')]"

definition class_prefix :: string where
  "class_prefix = ''DuckDB'' @ [CHR 0x5C]"

text \<open>The leading backslash of a fully qualified name is skipped; case does not matter.\<close>

definition class_name_part :: "string \<Rightarrow> string" where
  "class_name_part s = (case s of [] \<Rightarrow> [] | c # s' \<Rightarrow> if c = CHR 0x5C then s' else s)"

fun match_scalar :: "(string \<times> string) list \<Rightarrow> string \<Rightarrow> string option" where
  "match_scalar [] name = None"
| "match_scalar ((cls, sql) # rest) name =
     (if upper name = upper (class_prefix @ cls) then Some sql else match_scalar rest name)"

fun type_spec :: "zval \<Rightarrow> (throwable, string) result" where
  "type_spec (Z_reference v) = type_spec v"
| "type_spec (Z_string s) =
     (case match_scalar scalar_value_classes (class_name_part s) of
        Some sql \<Rightarrow> Inr sql
      | None \<Rightarrow> duckdb_canonicalize_type s)"
| "type_spec (Z_value ty inp) = getType \<lparr>vo_type = ty, vo_input = inp\<rparr>"
| "type_spec _ = Inl (TypeError
     (''A type specification must be a SQL string, scalar value class name, or '' @ value_class))"

fun key_text :: "php_key \<Rightarrow> string" where
  "key_text (K_int i) = dec_int i"
| "key_text (K_str s) = s"

fun field_list :: "string \<Rightarrow> (php_key \<times> zval) list \<Rightarrow> bool \<Rightarrow> string \<Rightarrow> (throwable, string) result" where
  "field_list kind [] first type = Inr type"
| "field_list kind ((key, spec) # fs) first type =
     rbind (type_spec spec) (\<lambda>child.
       if key_text key = [] then Inl (ValueError (kind @ '' field names must not be empty''))
       else field_list kind fs False
              (type @ (if first then [] else '', '') @ quote dquote (key_text key) @ '' '' @ child))"

definition field_type :: "string \<Rightarrow> (php_key \<times> zval) list \<Rightarrow> (throwable, string) result" where
  "field_type kind fs =
     (if fs = [] then Inl (ValueError (kind @ '' requires at least one declared field''))
      else rbind (field_list kind fs True (kind @ ''('')) (\<lambda>type. Inr (type @ '')'')))"

section \<open>Constructors\<close>

definition scalar_construct ::
    "date_parser \<Rightarrow> string \<Rightarrow> value_object \<Rightarrow> zval \<Rightarrow> (throwable, value_object) result" where
  "scalar_construct date_init sql this v = duckdb_value_initialize date_init this sql v"

definition Decimal_construct ::
    "date_parser \<Rightarrow> value_object \<Rightarrow> zval \<Rightarrow> int \<Rightarrow> int \<Rightarrow> (throwable, value_object) result" where
  "Decimal_construct date_init this v precision scale =
     (if precision < 1 \<or> precision > 38 \<or> scale < 0 \<or> scale > precision
      then Inl (ValueError ''Decimal requires precision between 1 and 38 and scale between 0 and precision'')
      else duckdb_value_initialize date_init this
             (''DECIMAL('' @ dec_int precision @ '','' @ dec_int scale @ '')'') v)"

fun enum_labels :: "(php_key \<times> zval) list \<Rightarrow> bool \<Rightarrow> string \<Rightarrow> (throwable, string) result" where
  "enum_labels [] first type = Inr type"
| "enum_labels ((k, label) # labels) first type =
     (case deref label of
        Z_string s \<Rightarrow> enum_labels labels False
          (type @ (if first then [] else '', '') @ quote squote s)
      | _ \<Rightarrow> Inl (TypeError ''Enum labels must be strings''))"

definition Enum_construct ::
    "date_parser \<Rightarrow> value_object \<Rightarrow> zval \<Rightarrow> (php_key \<times> zval) list \<Rightarrow> (throwable, value_object) result" where
  "Enum_construct date_init this v labels =
     (if \<not> zend_array_is_list labels \<or> labels = []
      then Inl (ValueError ''Enum labels must be a non-empty sequential array of strings'')
      else rbind (enum_labels labels True ''ENUM('') (\<lambda>type.
             duckdb_value_initialize date_init this (type @ '')'') v))"

definition ListValue_construct ::
    "date_parser \<Rightarrow> value_object \<Rightarrow> zval \<Rightarrow> zval \<Rightarrow> (throwable, value_object) result" where
  "ListValue_construct date_init this v element =
     rbind (type_spec element) (\<lambda>type. duckdb_value_initialize date_init this (type @ ''[]'') v)"

definition ArrayValue_construct ::
    "date_parser \<Rightarrow> value_object \<Rightarrow> zval \<Rightarrow> zval \<Rightarrow> int \<Rightarrow> (throwable, value_object) result" where
  "ArrayValue_construct date_init this v element len =
     (if len < 1 then Inl (ValueError ''ArrayValue length must be positive'')
      else rbind (type_spec element) (\<lambda>type.
             duckdb_value_initialize date_init this (type @ ''['' @ dec_int len @ '']'') v))"

definition Struct_construct ::
    "date_parser \<Rightarrow> value_object \<Rightarrow> zval \<Rightarrow> (php_key \<times> zval) list \<Rightarrow> (throwable, value_object) result" where
  "Struct_construct date_init this v fs =
     rbind (field_type ''STRUCT'' fs) (\<lambda>type. duckdb_value_initialize date_init this type v)"

definition Map_construct ::
    "date_parser \<Rightarrow> value_object \<Rightarrow> zval \<Rightarrow> zval \<Rightarrow> zval \<Rightarrow> (throwable, value_object) result" where
  "Map_construct date_init this v key item =
     rbind (type_spec key) (\<lambda>kt.
     rbind (type_spec item) (\<lambda>vt.
       duckdb_value_initialize date_init this (''MAP('' @ kt @ '', '' @ vt @ '')'') v))"

text \<open>
  \<open>zend_symtable_exists\<close> looks a decimal string up as the integer it denotes. The table built for
  a tagged value is new: \<open>fresh\<close> is its identity.
\<close>

definition symtable_key :: "string \<Rightarrow> php_key" where
  "symtable_key s =
     (let neg = (s \<noteq> [] \<and> hd s = CHR ''-''); d = (if neg then tl s else s); n = int (dec_value d);
          i = (if neg then - n else n)
      in if d \<noteq> [] \<and> list_all is_digit d \<and> dec_int i = s \<and> - (2 ^ 63) \<le> i \<and> i < 2 ^ 63
         then K_int i else K_str s)"

definition zend_symtable_exists :: "(php_key \<times> zval) list \<Rightarrow> string \<Rightarrow> bool" where
  "zend_symtable_exists es s \<longleftrightarrow> hash_find es (symtable_key s) \<noteq> None"

definition Union_construct ::
    "date_parser \<Rightarrow> nat \<Rightarrow> value_object \<Rightarrow> zval \<Rightarrow> string option \<Rightarrow> (php_key \<times> zval) list
      \<Rightarrow> (throwable, value_object) result" where
  "Union_construct date_init fresh this v tag members =
     rbind (field_type ''UNION'' members) (\<lambda>type.
       case tag of
         None \<Rightarrow> if v \<noteq> Z_null then Inl (ValueError ''A null Union tag requires a null value'')
                 else duckdb_value_initialize date_init this type v
       | Some t \<Rightarrow>
           if \<not> zend_symtable_exists members t then Inl (ValueError ''Unknown Union tag'')
           else duckdb_value_initialize date_init this type
                  (Z_array fresh [(K_str ''tag'', Z_string t), (K_str ''value'', deref v)]))"

definition Geometry_construct ::
    "date_parser \<Rightarrow> value_object \<Rightarrow> zval \<Rightarrow> string option \<Rightarrow> (throwable, value_object) result" where
  "Geometry_construct date_init this v crs =
     duckdb_value_initialize date_init this
       (''GEOMETRY'' @ (case crs of None \<Rightarrow> [] | Some c \<Rightarrow> ''('' @ quote squote c @ '')'')) v"

definition CatalogValue_construct ::
    "date_parser \<Rightarrow> value_object \<Rightarrow> zval \<Rightarrow> string \<Rightarrow> string option \<Rightarrow> string option
      \<Rightarrow> (throwable, value_object) result" where
  "CatalogValue_construct date_init this v name schema catalog =
     (if name = [] \<or> schema = Some [] \<or> (catalog \<noteq> None \<and> (catalog = Some [] \<or> schema = None))
      then Inl (ValueError ''CatalogValue requires non-empty identifiers and a schema when catalog is specified'')
      else duckdb_value_initialize date_init this
             ((case catalog of None \<Rightarrow> [] | Some c \<Rightarrow> quote dquote c @ ''.'')
              @ (case schema of None \<Rightarrow> [] | Some s \<Rightarrow> quote dquote s @ ''.'')
              @ quote dquote name) v)"

section \<open>The declarations the constructors store\<close>

lemma canonicalize_spelled:
  assumes "nul \<notin> set s" "spells s c" "parse_type 0 c = Inr (t, [])"
  shows "duckdb_canonicalize_type s = Inr t"
proof -
  have "tokens_of (s @ []) = Inr (c @ [])"
    using assms(2) unfolding spells_def by (rule allE [of _ "[]"]) (simp add: boundary_def)
  with assms show ?thesis
    by (simp add: duckdb_canonicalize_type_def parse_declaration_def lex_declaration_def)
qed

lemma digits_spell:
  "spells (dec_string n) [tok (dec_string n) (CHR ''n'')]" "nul \<notin> set (dec_string n)"
proof -
  have d: "is_digit c \<Longrightarrow> c_isdigit c" for c by (simp add: is_digit_def c_isdigit_def)
  show "spells (dec_string n) [tok (dec_string n) (CHR ''n'')]"
    by (rule spells_number) (auto simp: list_all_iff intro: d set_dec_string)
  show "nul \<notin> set (dec_string n)" using set_dec_string [of nul n] by (auto simp: is_digit_def)
qed

lemma wf_token_nul: "wf_token t \<Longrightarrow> nul \<notin> set (tok_text t)"
  by (simp add: wf_token_def)

lemma nul_quote: "nul \<notin> set (quote q s) \<longleftrightarrow> q \<noteq> nul \<and> nul \<notin> set s"
proof -
  have "nul \<in> set (double_char q s) \<longleftrightarrow> nul \<in> set s" for q by (induction s) auto
  then show ?thesis by (auto simp: quote_def)
qed

text \<open>A name token with no qualifier that starts none of the multi-word types.\<close>

definition plain_name :: "string \<Rightarrow> bool" where
  "plain_name n \<longleftrightarrow> upper n = n \<and> n \<notin> set internal_types \<and> n \<noteq> [] \<and> hd n \<noteq> dquote
     \<and> n \<notin> set (''DOUBLE'' # ''TIME'' # ''TIMESTAMP'' # ''NATIONAL'' # ''INTERVAL'' # char_types)"

lemma type_head_plain:
  assumes "plain_name n" "\<not> at (CHR ''.'') ts"
  shows "type_head (itok n # ts) = Inr (n, ts)"
  using assms
  by (simp add: plain_name_def type_head_def type_name_start_def dotted_stop double_precision_def
      time_zone_def national_def varying_def interval_unit_def)

text \<open>Parameters of a type that takes only strings and numbers.\<close>

fun param_texts :: "token list \<Rightarrow> string list" where
  "param_texts [] = []"
| "param_texts (t # ts) =
     (if tok_kind t = squote then quote squote (tok_text t) else tok_text t) # param_texts ts"

fun separated :: "token list \<Rightarrow> token list" where
  "separated [] = [tok '')'' (CHR '')'')]"
| "separated (t # ts) = tok '','' (CHR '','') # t # separated ts"

lemma type_params_leaves:
  assumes base: "\<not> is_members base" "\<not> is_nested base"
  shows "\<forall>t \<in> set ps. tok_kind t = squote \<or> tok_kind t = CHR ''n'' \<Longrightarrow>
    type_params base d False name (separated ps @ rest)
      = Inr (name @ concat (map (\<lambda>p. CHR '','' # CHR '' '' # p) (param_texts ps)) @ '')'', rest)"
proof (induction ps arbitrary: name)
  case Nil
  then show ?case by (simp add: type_params.simps)
next
  case (Cons p ps)
  then have k: "tok_kind p = squote \<or> tok_kind p = CHR ''n''" by simp
  have "separated ps @ rest \<noteq> []" by (cases ps) auto
  with Cons k base show ?case
    by (subst type_params.simps) (auto simp: need_def type_param.simps)
qed

lemma type_params_leaves_first:
  assumes base: "\<not> is_members base" "\<not> is_nested base"
    and ps: "\<forall>t \<in> set (p # ps). tok_kind t = squote \<or> tok_kind t = CHR ''n''"
  shows "type_params base d True name (p # separated ps @ rest)
      = Inr (name @ join '', '' (param_texts (p # ps)) @ '')'', rest)"
proof -
  have j: "join '', '' (x # xs) = x @ concat (map (\<lambda>p. CHR '','' # CHR '' '' # p) xs)" for x xs
    by (induction xs arbitrary: x) auto
  have "separated ps @ rest \<noteq> []" by (cases ps) auto
  with ps base type_params_leaves [OF base, of ps d _ rest] show ?thesis
    by (subst type_params.simps) (auto simp: type_param.simps j)
qed

lemma spells_separated:
  "\<forall>t \<in> set ps. wf_token t \<and> (tok_kind t = squote \<or> tok_kind t = CHR ''n'') \<Longrightarrow>
     spells (concat (map (\<lambda>p. CHR '','' # sp @ p) (param_texts ps)) @ '')'') (separated ps)"
  if "sp = [] \<or> sp = '' ''" for sp
proof (induction ps)
  case Nil
  then show ?case using spells_punct [OF _ spells_Nil] by simp
next
  case (Cons p ps)
  have "wf_token p" "tok_kind p = squote \<or> tok_kind p = CHR ''n''" using Cons(2) by auto
  then have p: "spells (if tok_kind p = squote then quote squote (tok_text p) else tok_text p) [p]"
    using spells_wf_token [of p] by auto
  have b: "boundary (concat (map (\<lambda>p. CHR '','' # sp @ p) (param_texts ps)) @ '')'')"
    by (cases ps) auto
  have "spells (concat (map (\<lambda>p. CHR '','' # sp @ p) (param_texts ps)) @ '')'') (separated ps)"
    using Cons by simp
  from spells_append [OF p this b] show ?case
    using that by (auto intro!: spells_punct spells_space)
qed

lemma parse_leaf_type:
  assumes "plain_name n" "\<not> is_members n" "\<not> is_nested n"
    and "\<forall>t \<in> set (p # ps). tok_kind t = squote \<or> tok_kind t = CHR ''n''"
  shows "parse_type 0 (itok n # tok ''('' (CHR ''('') # p # separated ps)
      = Inr (n @ ''('' @ join '', '' (param_texts (p # ps)) @ '')'', [])"
proof -
  have "type_head (itok n # tok ''('' (CHR ''('') # p # separated ps)
      = Inr (n, tok ''('' (CHR ''('') # p # separated ps)"
    using assms(1) by (intro type_head_plain) auto
  with type_params_leaves_first [OF assms(2-4), of 0 "n @ ''(''" "[]"] show ?thesis
    by (simp add: parse_type.simps del: param_texts.simps)
qed

lemma canonicalize_leaf_type:
  assumes n: "plain_name n" "\<not> is_members n" "\<not> is_nested n" "list_all ident_char (tl n)"
      "ident_start (hd n)" "nul \<notin> set n"
    and ps: "\<forall>t \<in> set (p # ps). wf_token t \<and> (tok_kind t = squote \<or> tok_kind t = CHR ''n'')"
    and sp: "sp = [] \<or> sp = '' ''"
    and x: "x = (case param_texts (p # ps) of a # as \<Rightarrow> a @ concat (map (\<lambda>p. CHR '','' # sp @ p) as))"
  shows "duckdb_canonicalize_type (n @ ''('' @ x @ '')'')
      = Inr (n @ ''('' @ join '', '' (param_texts (p # ps)) @ '')'')"
proof (rule canonicalize_spelled)
  have k: "\<forall>t \<in> set (p # ps). tok_kind t = squote \<or> tok_kind t = CHR ''n''" using ps by auto
  show "parse_type 0 (itok n # tok ''('' (CHR ''('') # p # separated ps)
      = Inr (n @ ''('' @ join '', '' (param_texts (p # ps)) @ '')'', [])"
    using n k by (intro parse_leaf_type) auto
  have first: "spells (if tok_kind p = squote then quote squote (tok_text p) else tok_text p) [p]"
    using ps spells_wf_token [of p] by auto
  have "boundary (concat (map (\<lambda>p. CHR '','' # sp @ p) (param_texts ps)) @ '')'')"
    by (cases ps) auto
  moreover have "spells (concat (map (\<lambda>p. CHR '','' # sp @ p) (param_texts ps)) @ '')'') (separated ps)"
    using ps sp by (intro spells_separated) auto
  ultimately have "spells (x @ '')'') (p # separated ps)"
    using spells_append [OF first] unfolding x by simp
  then have "spells (CHR ''('' # x @ '')'') (tok ''('' (CHR ''('') # p # separated ps)"
    by (intro spells_punct) auto
  moreover have "spells n [itok n]" using n by (intro spells_ident) (auto simp: plain_name_def)
  ultimately show "spells (n @ ''('' @ x @ '')'') (itok n # tok ''('' (CHR ''('') # p # separated ps)"
    using spells_append [of n "[itok n]" "CHR ''('' # x @ '')''"] by simp
  have "nul \<notin> set (concat (map (\<lambda>p. CHR '','' # sp @ p) (param_texts qs)))"
    if "\<forall>t \<in> set qs. wf_token t \<and> (tok_kind t = squote \<or> tok_kind t = CHR ''n'')" for qs
    using that sp by (induction qs) (auto simp: nul_quote wf_token_nul)
  then show "nul \<notin> set (n @ ''('' @ x @ '')'')"
    using n ps unfolding x by (auto simp: nul_quote wf_token_nul)
qed

lemma initialize_type:
  "duckdb_value_initialize date_init v type input = Inr v' \<Longrightarrow> duckdb_canonicalize_type type = Inr t
     \<Longrightarrow> vo_type v' = Some t"
  by (auto simp: duckdb_value_initialize_def rbind_eq_Inr split: if_splits)

lemma initialize_canonical:
  "duckdb_value_initialize date_init v type input = Inr v' \<Longrightarrow> vo_type v' = Some t
     \<Longrightarrow> duckdb_canonicalize_type type = Inr t"
  by (auto simp: duckdb_value_initialize_def rbind_eq_Inr split: if_splits)

lemmas plain_name_simps = plain_name_def upper_def c_toupper_def c_islower_def internal_types_def
  char_types_def is_members_def is_nested_def ident_char_def ident_start_def c_isalpha_def c_isdigit_def

lemma canonicalize_decimal:
  "duckdb_canonicalize_type (''DECIMAL('' @ dec_string p @ '','' @ dec_string s @ '')'')
     = Inr (''DECIMAL('' @ dec_string p @ '', '' @ dec_string s @ '')'')"
proof -
  let ?t = "\<lambda>n. tok (dec_string n) (CHR ''n'')"
  have d: "is_digit c \<Longrightarrow> c_isdigit c" for c by (simp add: is_digit_def c_isdigit_def)
  have wf: "wf_token (?t n)" for n
    using digits_spell(2) [of n] by (auto simp: wf_token_def list_all_iff intro: d set_dec_string)
  have "duckdb_canonicalize_type (''DECIMAL'' @ ''('' @ (dec_string p @ concat (map (\<lambda>p. CHR '','' # [] @ p) [dec_string s])) @ '')'')
      = Inr (''DECIMAL'' @ ''('' @ join '', '' (param_texts (?t p # [?t s])) @ '')'')"
    using wf by (intro canonicalize_leaf_type) (simp_all add: plain_name_simps)
  then show ?thesis by simp
qed

text \<open>
  \<open>Decimal\<close> accepts exactly precisions 1 to 38 with a scale from 0 to the precision (given a
  value that can be captured), and the declaration it stores names those two numbers.
\<close>

theorem decimal_constructor:
  "(1 \<le> precision \<and> precision \<le> 38 \<and> 0 \<le> scale \<and> scale \<le> precision
     \<and> Decimal_construct date_init create v precision scale
        = rbind (snapshot date_init v 0 []) (\<lambda>copy.
            Inr \<lparr>vo_type = Some (''DECIMAL('' @ dec_int precision @ '', '' @ dec_int scale @ '')''),
                 vo_input = copy\<rparr>))
   \<or> (\<not> (1 \<le> precision \<and> precision \<le> 38 \<and> 0 \<le> scale \<and> scale \<le> precision)
     \<and> Decimal_construct date_init create v precision scale
        = Inl (ValueError ''Decimal requires precision between 1 and 38 and scale between 0 and precision''))"
proof (cases "1 \<le> precision \<and> precision \<le> 38 \<and> 0 \<le> scale \<and> scale \<le> precision")
  case True
  then have "dec_int precision = dec_string (nat precision)" "dec_int scale = dec_string (nat scale)"
    by (simp_all add: dec_int_def)
  with True canonicalize_decimal show ?thesis
    by (simp add: Decimal_construct_def duckdb_value_initialize_def create_def)
next
  case False
  then show ?thesis by (auto simp: Decimal_construct_def)
qed

lemma enum_labels_strings:
  "enum_labels (map (\<lambda>(k, s). (k, Z_string s)) ls) first type
     = Inr (type @ (if ls = [] then [] else if first then join '', '' (map (quote squote \<circ> snd) ls)
                    else concat (map (\<lambda>l. '', '' @ quote squote (snd l)) ls)))"
proof (induction ls arbitrary: first type)
  case (Cons l ls)
  have j: "join '', '' (x # xs) = x @ concat (map (\<lambda>p. '', '' @ p) xs)" for x xs
    by (induction xs arbitrary: x) auto
  show ?case using Cons by (cases l) (auto simp: j comp_def)
qed simp

lemma canonicalize_enum:
  assumes "labels \<noteq> []" "\<forall>s \<in> set labels. nul \<notin> set s"
  shows "duckdb_canonicalize_type (''ENUM('' @ join '', '' (map (quote squote) labels) @ '')'')
      = Inr (''ENUM('' @ join '', '' (map (quote squote) labels) @ '')'')"
proof -
  obtain l ls where l: "labels = l # ls" using assms(1) by (cases labels) auto
  let ?ps = "map (\<lambda>s. tok s squote) labels"
  have p: "param_texts (map (\<lambda>s. tok s squote) xs) = map (quote squote) xs" for xs
    by (induction xs) auto
  have j: "join '', '' (x # xs) = x @ concat (map (\<lambda>p. CHR '','' # '' '' @ p) xs)" for x xs
    by (induction xs arbitrary: x) auto
  have "duckdb_canonicalize_type (''ENUM'' @ ''('' @ join '', '' (map (quote squote) labels) @ '')'')
      = Inr (''ENUM'' @ ''('' @ join '', '' (param_texts (tok l squote # map (\<lambda>s. tok s squote) ls)) @ '')'')"
    using assms(2) l p [of labels]
    by (intro canonicalize_leaf_type [where sp = "'' ''"])
       (auto simp: plain_name_simps wf_token_def p j simp del: join.simps)
  then show ?thesis using p [of labels] l by simp
qed

text \<open>
  The declaration an \<open>Enum\<close> stores quotes every label so that the labels can be read back:
  for labels without a NUL byte it is accepted unchanged, whatever quotes, commas or
  parentheses they contain.
\<close>

theorem enum_constructor:
  assumes "labels \<noteq> []" and "\<forall>s \<in> set labels. nul \<notin> set s"
  shows "Enum_construct date_init create v (map (\<lambda>(i, s). (K_int (int i), Z_string s)) (enumerate 0 labels))
     = rbind (snapshot date_init v 0 []) (\<lambda>copy.
         Inr \<lparr>vo_type = Some (''ENUM('' @ join '', '' (map (quote squote) labels) @ '')''), vo_input = copy\<rparr>)"
proof -
  let ?ls = "map (\<lambda>(i, s). (K_int (int i), s)) (enumerate 0 labels)"
  have e: "map (\<lambda>(i, s). (K_int (int i), Z_string s)) (enumerate 0 labels) = map (\<lambda>(k, s). (k, Z_string s)) ?ls"
    by (auto simp: comp_def split_def)
  have "map fst ?ls = map (\<lambda>i. K_int (int i)) [0..<length labels]"
    by (intro nth_equalityI) (auto simp: nth_enumerate_eq)
  then have "zend_array_is_list (map (\<lambda>(k, s). (k, Z_string s)) ?ls)"
    by (simp add: zend_array_is_list_def comp_def split_def)
  moreover have "map (quote squote \<circ> snd) ?ls = map (quote squote) labels"
    by (intro nth_equalityI) (auto simp: nth_enumerate_eq)
  moreover have "?ls \<noteq> []" using assms(1) by (cases labels) auto
  ultimately show ?thesis
    unfolding e Enum_construct_def enum_labels_strings using canonicalize_enum [OF assms]
    by (simp add: duckdb_value_initialize_def create_def)
qed

theorem enum_constructor_witness:
  "Enum_construct sample_date_parser create Z_null
      [(K_int 0, Z_string (''it'' @ [squote] @ ''s'')), (K_int 1, Z_string ''a, b)'')]
     = Inr \<lparr>vo_type = Some (''ENUM('' @ [squote] @ ''it'' @ [squote, squote] @ ''s'' @ [squote] @ '', ''
         @ [squote] @ ''a, b)'' @ [squote] @ '')''), vo_input = Z_null\<rparr>"
  using enum_constructor [of "[''it'' @ [squote] @ ''s'', ''a, b)'']" sample_date_parser Z_null]
  by (simp add: quote_def)

lemma match_scalar_in: "match_scalar tbl name = Some sql \<Longrightarrow> sql \<in> set (map snd tbl)"
  by (induction tbl name rule: match_scalar.induct) (auto split: if_splits)

lemma scalar_classes_canonical:
  "\<forall>sql \<in> set (map snd scalar_value_classes). duckdb_canonicalize_type sql = Inr sql"
proof -
  have "list_all (\<lambda>sql. duckdb_canonicalize_type sql = Inr sql) (map snd scalar_value_classes)"
    by code_simp
  then show ?thesis by (simp add: list_all_iff)
qed

text \<open>
  Every type specification resolves to a canonical declaration: a class name to a SQL
  spelling that is its own canonical form, a SQL string to its canonical form, and an existing
  \<open>Value\<close> to the canonical declaration it stores.
\<close>

theorem type_spec_canonical:
  assumes "type_spec v = Inr t"
    and "\<And>ty inp. deref v = Z_value (Some ty) inp \<Longrightarrow> duckdb_canonicalize_type ty = Inr ty"
  shows "duckdb_canonicalize_type t = Inr t"
  using assms
proof (induction v rule: type_spec.induct)
  case (2 s)
  then show ?case
    using scalar_classes_canonical canonicalize_idempotent
    by (auto split: option.splits dest!: match_scalar_in)
next
  case (3 ty inp)
  then show ?case by (auto simp: getType_def split: option.splits)
qed auto

theorem type_spec_canonical_witness:
  "type_spec (Z_reference (Z_string ([CHR 0x5C] @ ''duckdb'' @ [CHR 0x5C] @ ''boolean''))) = Inr ''BOOLEAN''
   \<and> duckdb_canonicalize_type ''BOOLEAN'' = Inr ''BOOLEAN''"
proof -
  let ?v = "Z_reference (Z_string ([CHR 0x5C] @ ''duckdb'' @ [CHR 0x5C] @ ''boolean''))"
  have t: "type_spec ?v = Inr ''BOOLEAN''" by code_simp
  then have "duckdb_canonicalize_type ''BOOLEAN'' = Inr ''BOOLEAN''"
    by (rule type_spec_canonical) simp
  with t show ?thesis by simp
qed

lemma quoted_name:
  "name = dquote # r \<Longrightarrow> name \<notin> set internal_types"
  "name = dquote # r \<Longrightarrow> double_precision name ts = Inr (name, ts)"
  "name = dquote # r \<Longrightarrow> time_zone name ts = Inr (name, ts)"
  "name = dquote # r \<Longrightarrow> national name ts = Inr (name, ts)"
  "name = dquote # r \<Longrightarrow> varying name ts = Inr (name, ts)"
  "name = dquote # r \<Longrightarrow> interval_unit name ts = Inr (name, ts)"
  by (simp_all add: internal_types_def double_precision_def time_zone_def national_def varying_def
      interval_unit_def char_types_def)

lemma parse_quoted:
  assumes "dotted (quote dquote n) ts = Inr (dquote # r, [])"
  shows "parse_type 0 (tok n dquote # ts) = Inr (dquote # r, [])"
proof -
  have "type_name_start (tok n dquote # ts) = Inr (quote dquote n, ts)"
    using quoted_name(1) [of "quote dquote n"] by (simp add: type_name_start_def quote_def)
  then have "type_head (tok n dquote # ts) = Inr (dquote # r, [])"
    using assms by (simp add: type_head_def quoted_name)
  then show ?thesis by (subst parse_type.simps) simp
qed

lemma parse_catalog:
  "parse_type 0 [tok n dquote] = Inr (quote dquote n, [])"
  "parse_type 0 [tok s dquote, tok ''.'' (CHR ''.''), tok n dquote]
     = Inr (quote dquote s @ ''.'' @ quote dquote n, [])"
  "parse_type 0 [tok c dquote, tok ''.'' (CHR ''.''), tok s dquote, tok ''.'' (CHR ''.''), tok n dquote]
     = Inr (quote dquote c @ ''.'' @ quote dquote s @ ''.'' @ quote dquote n, [])"
  by (simp_all add: quote_def parse_quoted)

lemma canonicalize_catalog:
  assumes "nul \<notin> set n"
  shows "duckdb_canonicalize_type (quote dquote n) = Inr (quote dquote n)"
    and "nul \<notin> set s \<Longrightarrow> duckdb_canonicalize_type (quote dquote s @ ''.'' @ quote dquote n)
      = Inr (quote dquote s @ ''.'' @ quote dquote n)"
    and "nul \<notin> set c \<Longrightarrow> nul \<notin> set s \<Longrightarrow>
      duckdb_canonicalize_type (quote dquote c @ ''.'' @ quote dquote s @ ''.'' @ quote dquote n)
      = Inr (quote dquote c @ ''.'' @ quote dquote s @ ''.'' @ quote dquote n)"
proof -
  have q: "spells (quote dquote x) [tok x dquote]" for x by (rule spells_quote) simp
  have d: "spells (quote dquote x @ ''.'' @ y) ([tok x dquote] @ tok ''.'' (CHR ''.'') # ts)"
    if "spells y ts" for x y ts
    using spells_append [OF q, of "''.'' @ y" "tok ''.'' (CHR ''.'') # ts" x] spells_punct [OF _ that]
    by simp
  show "duckdb_canonicalize_type (quote dquote n) = Inr (quote dquote n)"
    using assms q parse_catalog(1) by (intro canonicalize_spelled) (auto simp: nul_quote)
  show "duckdb_canonicalize_type (quote dquote s @ ''.'' @ quote dquote n)
      = Inr (quote dquote s @ ''.'' @ quote dquote n)" if "nul \<notin> set s"
    using assms that d [OF q] parse_catalog(2)
    by (intro canonicalize_spelled) (auto simp: nul_quote)
  show "duckdb_canonicalize_type (quote dquote c @ ''.'' @ quote dquote s @ ''.'' @ quote dquote n)
      = Inr (quote dquote c @ ''.'' @ quote dquote s @ ''.'' @ quote dquote n)"
    if "nul \<notin> set c" "nul \<notin> set s"
    using assms that d [OF d [OF q]] parse_catalog(3)
    by (intro canonicalize_spelled) (auto simp: nul_quote)
qed

text \<open>
  \<open>CatalogValue\<close> quotes each identifier so that it survives unchanged: for identifiers
  without a NUL byte the stored declaration is exactly the qualified, quoted name.
\<close>

theorem catalog_constructor:
  assumes "name \<noteq> []" "schema \<noteq> []" "catalog \<noteq> []"
    and "nul \<notin> set (name @ schema @ catalog)"
  shows "CatalogValue_construct date_init create v name (Some schema) (Some catalog)
     = rbind (snapshot date_init v 0 []) (\<lambda>copy.
         Inr \<lparr>vo_type = Some (quote dquote catalog @ ''.'' @ quote dquote schema @ ''.'' @ quote dquote name),
              vo_input = copy\<rparr>)
   \<and> CatalogValue_construct date_init create v name None (Some catalog)
     = Inl (ValueError ''CatalogValue requires non-empty identifiers and a schema when catalog is specified'')"
  using assms canonicalize_catalog(3) [of name catalog schema]
  by (simp add: CatalogValue_construct_def duckdb_value_initialize_def create_def)

theorem catalog_constructor_witness:
  "CatalogValue_construct sample_date_parser create (Z_long 1) ''mood'' (Some ''my.schema'') (Some ''db'')
     = Inr \<lparr>vo_type = Some (quote dquote ''db'' @ ''.'' @ quote dquote ''my.schema'' @ ''.'' @ quote dquote ''mood''),
            vo_input = Z_long 1\<rparr>"
  using catalog_constructor [of "''mood''" "''my.schema''" "''db''" sample_date_parser "Z_long 1"]
  by simp

end
