(* ===== verification/Log_Storage.thy ===== *)
theory Log_Storage
  imports Prelude Errors Logical_Type Type_Decl "HOL-Library.Sublist"
begin

text \<open>
  The bounded log storage of \<open>src/src/logging.cpp\<close>: the write callback that runs on engine threads,
  \<open>drain\<close> and \<open>droppedCount\<close>, the constructor, and the registration of a storage in a database.
  \<open>esz\<close> stands for \<open>sizeof(native_log_entry)\<close>, which the platform chooses. What the scheduler and
  the allocator may do during a write is an argument: the mutex is free or taken, an allocation
  fails before or after the eviction.
\<close>

section \<open>State\<close>

record native_log_entry =
  timestamp :: int
  level :: string
  log_type :: string
  message :: string

definition entry_bytes :: "nat \<Rightarrow> native_log_entry \<Rightarrow> nat" where
  "entry_bytes esz e = esz + length (level e) + length (log_type e) + length (message e)"

record log_storage_state =
  entries :: "native_log_entry list"
  capacity :: nat
  stored_bytes :: nat
  dropped :: nat

definition log_storage_max_bytes :: nat where
  "log_storage_max_bytes = 8 * 1024 * 1024"

definition zend_long_max :: nat where
  "zend_long_max = 2 ^ 63 - 1"

text \<open>\<open>drop\<close>: the counter saturates.\<close>

definition drop_one :: "log_storage_state \<Rightarrow> log_storage_state" where
  "drop_one s = (if dropped s < zend_long_max then s\<lparr>dropped := dropped s + 1\<rparr> else s)"

section \<open>Writing\<close>

text \<open>
  \<open>log_string_length\<close> on a C string (\<open>None\<close> for a null pointer; the characters before the NUL
  otherwise): the length and what remains of the budget, or \<open>None\<close> when the string is too long.
\<close>

fun scan_length :: "string \<Rightarrow> nat \<Rightarrow> nat \<Rightarrow> nat option" where
  "scan_length [] remaining n = Some n"
| "scan_length (c # s) remaining n = (if n < remaining then scan_length s remaining (n + 1) else None)"

definition log_string_length :: "string option \<Rightarrow> nat \<Rightarrow> (nat \<times> nat) option" where
  "log_string_length v remaining =
     (case v of None \<Rightarrow> Some (0, remaining)
      | Some s \<Rightarrow> (case scan_length s remaining 0 of None \<Rightarrow> None | Some n \<Rightarrow> Some (n, remaining - n)))"

definition c_string :: "string option \<Rightarrow> nat \<Rightarrow> string" where
  "c_string v n = (case v of None \<Rightarrow> [] | Some s \<Rightarrow> take n s)"

datatype write_chance = W_free | W_busy | W_entry_alloc_fails | W_push_alloc_fails

text \<open>
  The eviction loop. Taking the front of an empty deque is undefined behaviour: \<open>None\<close>.
\<close>

fun evict_loop :: "nat \<Rightarrow> nat \<Rightarrow> native_log_entry list \<Rightarrow> log_storage_state \<Rightarrow> log_storage_state option" where
  "evict_loop esz bytes [] s =
     (if 0 \<ge> capacity s \<or> stored_bytes s > log_storage_max_bytes - bytes then None
      else Some (s\<lparr>entries := []\<rparr>))"
| "evict_loop esz bytes (e # es) s =
     (if length (e # es) \<ge> capacity s \<or> stored_bytes s > log_storage_max_bytes - bytes
      then evict_loop esz bytes es
             (drop_one (s\<lparr>stored_bytes := stored_bytes s - entry_bytes esz e\<rparr>))
      else Some (s\<lparr>entries := e # es\<rparr>))"

definition log_storage_write ::
    "nat \<Rightarrow> write_chance \<Rightarrow> int option \<Rightarrow> string option \<Rightarrow> string option \<Rightarrow> string option
      \<Rightarrow> log_storage_state \<Rightarrow> log_storage_state option" where
  "log_storage_write esz chance ts lvl ty msg s =
     (case log_string_length lvl (log_storage_max_bytes - esz) of
        None \<Rightarrow> Some (drop_one s)
      | Some (ll, r1) \<Rightarrow>
     (case log_string_length ty r1 of
        None \<Rightarrow> Some (drop_one s)
      | Some (yl, r2) \<Rightarrow>
     (case log_string_length msg r2 of
        None \<Rightarrow> Some (drop_one s)
      | Some (ml, r3) \<Rightarrow>
          if chance = W_entry_alloc_fails \<or> chance = W_busy then Some (drop_one s)
          else
            let entry = \<lparr>timestamp = (case ts of None \<Rightarrow> 0 | Some t \<Rightarrow> t), level = c_string lvl ll,
                         log_type = c_string ty yl, message = c_string msg ml\<rparr>;
                bytes = entry_bytes esz entry
            in case evict_loop esz bytes (entries s) s of
                 None \<Rightarrow> None
               | Some s' \<Rightarrow>
                   if chance = W_push_alloc_fails then Some (drop_one s')
                   else Some (s'\<lparr>entries := entries s' @ [entry], stored_bytes := stored_bytes s' + bytes\<rparr>))))"

section \<open>The PHP methods\<close>

definition log_storage_construct ::
    "log_storage_state option \<Rightarrow> int \<Rightarrow> (throwable, log_storage_state) result" where
  "log_storage_construct this cap =
     (if this \<noteq> None then Inl (PhpError (''DuckDB'' @ [CHR 0x5C] @ ''LogStorage object is already initialized''))
      else if cap \<le> 0 then Inl (ArgValueError 1 ''must be greater than zero'')
      else Inr \<lparr>entries = [], capacity = nat cap, stored_bytes = 0, dropped = 0\<rparr>)"

text \<open>\<open>drain\<close> returns the rows (timestamp, level, type, message) and leaves the storage empty.\<close>

definition drain :: "log_storage_state \<Rightarrow> native_log_entry list \<times> log_storage_state" where
  "drain s = (entries s, s\<lparr>entries := [], stored_bytes := 0\<rparr>)"

definition droppedCount :: "log_storage_state \<Rightarrow> nat" where
  "droppedCount s = dropped s"

definition not_initialized :: "string \<Rightarrow> throwable" where
  "not_initialized cls =
     PhpError (''DuckDB'' @ [CHR 0x5C] @ cls @ '' object is not initialized (its constructor was bypassed)'')"

text \<open>
  Registration in a database. \<open>storages\<close> maps the lower-cased names to the storages the database
  keeps alive; the engine's answer is an argument, \<open>None\<close> if the native handle cannot be created.
\<close>

definition c_tolower :: "char \<Rightarrow> char" where
  "c_tolower c = (if 65 \<le> char_code c \<and> char_code c \<le> 90 then char_of (char_code c + 32) else c)"

definition built_in_storages :: "string list" where
  "built_in_storages = [''memory'', ''stdout'', ''file'']"

definition registerLogStorage ::
    "bool option \<Rightarrow> bool \<Rightarrow> bool \<Rightarrow> string \<Rightarrow> 'storage \<Rightarrow> (string \<rightharpoonup> 'storage)
      \<Rightarrow> (throwable, unit) result \<times> (string \<rightharpoonup> 'storage)" where
  "registerLogStorage engine db_initialized storage_initialized name storage storages =
     (if \<not> db_initialized then (Inl (not_initialized ''Database''), storages)
      else if \<not> storage_initialized then (Inl (not_initialized ''LogStorage''), storages)
      else if name = [] \<or> nul \<in> set name
        then (Inl (ArgValueError 1 ''must be non-empty and contain no NUL byte''), storages)
      else
        let lower = map c_tolower name
        in if lower \<in> set built_in_storages
           then (Inl (ArgValueError 1 ''must not name a built-in log storage''), storages)
           else if storages lower \<noteq> None
           then (Inl (ArgValueError 1 ''is already registered in this database''), storages)
           else (case engine of
               None \<Rightarrow> (Inl (duckdb_throw_msg (Some ''std::bad_alloc'')), storages)
             | Some ok \<Rightarrow>
                 if ok then (Inr (), storages(lower \<mapsto> storage))
                 else (Inl (duckdb_throw_msg (Some ''Failed to register custom log storage'')),
                       (storages(lower \<mapsto> storage))(lower := None))))"

section \<open>The bound\<close>

definition total_bytes :: "nat \<Rightarrow> native_log_entry list \<Rightarrow> nat" where
  "total_bytes esz es = sum_list (map (entry_bytes esz) es)"

definition storage_ok :: "nat \<Rightarrow> log_storage_state \<Rightarrow> bool" where
  "storage_ok esz s \<longleftrightarrow>
     0 < capacity s \<and> length (entries s) \<le> capacity s
     \<and> stored_bytes s = total_bytes esz (entries s) \<and> stored_bytes s \<le> log_storage_max_bytes
     \<and> dropped s \<le> zend_long_max"

text \<open>Operations of the engine's threads and of the PHP thread, in the order the mutex serializes them.\<close>

datatype log_op =
    Op_write write_chance "int option" "string option" "string option" "string option"
  | Op_drain

text \<open>The storage together with everything drained so far.\<close>

fun log_step :: "nat \<Rightarrow> log_op \<Rightarrow> native_log_entry list \<times> log_storage_state
    \<Rightarrow> (native_log_entry list \<times> log_storage_state) option" where
  "log_step esz (Op_write chance ts lvl ty msg) (out, s) =
     map_option (\<lambda>s'. (out, s')) (log_storage_write esz chance ts lvl ty msg s)"
| "log_step esz Op_drain (out, s) = (case drain s of (rows, s') \<Rightarrow> Some (out @ rows, s'))"

lemma drop_one_simps [simp]:
  "entries (drop_one s) = entries s" "capacity (drop_one s) = capacity s"
  "stored_bytes (drop_one s) = stored_bytes s"
  "dropped (drop_one s) = (if dropped s < zend_long_max then dropped s + 1 else dropped s)"
  by (auto simp: drop_one_def)

lemma total_bytes_simps [simp]:
  "total_bytes esz [] = 0" "total_bytes esz (e # es) = entry_bytes esz e + total_bytes esz es"
  "total_bytes esz (es @ fs) = total_bytes esz es + total_bytes esz fs"
  by (auto simp: total_bytes_def)

lemma scan_length_eq: "scan_length s r n = (if n + length s \<le> r \<or> s = [] then Some (n + length s) else None)"
  by (induction s arbitrary: n) auto

lemma log_string_length_eq:
  "log_string_length v r = (let n = (case v of None \<Rightarrow> 0 | Some s \<Rightarrow> length s)
      in if n \<le> r then Some (n, r - n) else None)"
  by (auto simp: log_string_length_def scan_length_eq Let_def split: option.splits)

text \<open>How many entries the loop evicts, and that it stops before the deque is empty.\<close>

lemma evict_loop_spec:
  assumes "bytes \<le> log_storage_max_bytes" "0 < capacity s" "stored_bytes s = total_bytes esz es"
    "dropped s \<le> zend_long_max"
  shows "\<exists>k s'. evict_loop esz bytes es s = Some s' \<and> k \<le> length es \<and> entries s' = drop k es
    \<and> capacity s' = capacity s \<and> stored_bytes s' = total_bytes esz (drop k es)
    \<and> dropped s' = min zend_long_max (dropped s + k)
    \<and> length (drop k es) < capacity s \<and> stored_bytes s' + bytes \<le> log_storage_max_bytes"
  using assms
proof (induction es arbitrary: s)
  case Nil
  then show ?case by (intro exI [of _ 0] exI [of _ "s\<lparr>entries := []\<rparr>"]) auto
next
  case (Cons e es)
  show ?case
  proof (cases "length (e # es) \<ge> capacity s \<or> stored_bytes s > log_storage_max_bytes - bytes")
    case False
    with Cons(2-) show ?thesis
      by (intro exI [of _ 0] exI [of _ "s\<lparr>entries := e # es\<rparr>"]) auto
  next
    case True
    let ?s = "drop_one (s\<lparr>stored_bytes := stored_bytes s - entry_bytes esz e\<rparr>)"
    have "stored_bytes ?s = total_bytes esz es" "dropped ?s \<le> zend_long_max" "capacity ?s = capacity s"
      "dropped ?s = min zend_long_max (Suc (dropped s))"
      using Cons(4,5) by auto
    with Cons(1) [of ?s] Cons(2,3) obtain k s' where
      "evict_loop esz bytes es ?s = Some s'" "k \<le> length es" "entries s' = drop k es"
      "capacity s' = capacity s" "stored_bytes s' = total_bytes esz (drop k es)"
      "dropped s' = min zend_long_max (min zend_long_max (Suc (dropped s)) + k)"
      "length (drop k es) < capacity s" "stored_bytes s' + bytes \<le> log_storage_max_bytes"
      by (metis (no_types, lifting))
    with True show ?thesis
      by (intro exI [of _ "Suc k"] exI [of _ s']) auto
  qed
qed

definition accepted_entry :: "int option \<Rightarrow> string option \<Rightarrow> string option \<Rightarrow> string option \<Rightarrow> native_log_entry" where
  "accepted_entry ts lvl ty msg =
     \<lparr>timestamp = (case ts of None \<Rightarrow> 0 | Some t \<Rightarrow> t), level = opt_text lvl,
      log_type = opt_text ty, message = opt_text msg\<rparr>"




definition fits :: "nat \<Rightarrow> string option \<Rightarrow> string option \<Rightarrow> string option \<Rightarrow> bool" where
  "fits esz lvl ty msg \<longleftrightarrow>
     length (opt_text lvl) + length (opt_text ty) + length (opt_text msg) \<le> log_storage_max_bytes - esz"

text \<open>Every write either keeps its entry, evicting the oldest ones it must, or counts as dropped.\<close>

lemma log_storage_write_spec:
  assumes ok: "storage_ok esz s" and esz: "esz \<le> log_storage_max_bytes"
  shows "\<exists>s'. log_storage_write esz chance ts lvl ty msg s = Some s' \<and> storage_ok esz s'
    \<and> capacity s' = capacity s
    \<and> (if fits esz lvl ty msg \<and> chance \<in> {W_free, W_push_alloc_fails}
       then \<exists>k. k \<le> length (entries s)
         \<and> (chance = W_free \<longrightarrow> entries s' = drop k (entries s) @ [accepted_entry ts lvl ty msg]
              \<and> dropped s' = min zend_long_max (dropped s + k))
         \<and> (chance = W_push_alloc_fails \<longrightarrow> entries s' = drop k (entries s)
              \<and> dropped s' = min zend_long_max (dropped s + k + 1))
       else entries s' = entries s \<and> dropped s' = min zend_long_max (dropped s + 1))"
proof (cases "fits esz lvl ty msg \<and> chance \<in> {W_free, W_push_alloc_fails}")
  case False
  then have "log_storage_write esz chance ts lvl ty msg s = Some (drop_one s)"
    by (cases lvl; cases ty; cases msg; cases chance)
       (auto simp: log_storage_write_def log_string_length_eq fits_def opt_text_def Let_def)
  with ok False show ?thesis by (auto simp: storage_ok_def)
next
  case True
  define e where "e = accepted_entry ts lvl ty msg"
  have len: "\<exists>r. log_string_length lvl (log_storage_max_bytes - esz) = Some (length (opt_text lvl), r)
      \<and> (\<exists>r'. log_string_length ty r = Some (length (opt_text ty), r')
      \<and> (\<exists>r''. log_string_length msg r' = Some (length (opt_text msg), r'')))"
    using True by (cases lvl; cases ty; cases msg)
      (auto simp: log_string_length_eq fits_def opt_text_def Let_def)
  have c: "c_string v (length (opt_text v)) = opt_text v" for v
    by (cases v) (auto simp: c_string_def opt_text_def)
  have b: "entry_bytes esz e \<le> log_storage_max_bytes"
    using True esz by (auto simp: e_def accepted_entry_def entry_bytes_def fits_def)
  have "0 < capacity s" "stored_bytes s = total_bytes esz (entries s)" "dropped s \<le> zend_long_max"
    using ok by (simp_all add: storage_ok_def)
  from evict_loop_spec [OF b this] obtain k s1 where
    ev: "evict_loop esz (entry_bytes esz e) (entries s) s = Some s1" "k \<le> length (entries s)"
    "entries s1 = drop k (entries s)" "capacity s1 = capacity s"
    "stored_bytes s1 = total_bytes esz (drop k (entries s))"
    "dropped s1 = min zend_long_max (dropped s + k)" "length (drop k (entries s)) < capacity s"
    "stored_bytes s1 + entry_bytes esz e \<le> log_storage_max_bytes"
    by blast
  have w: "log_storage_write esz chance ts lvl ty msg s
      = (if chance = W_push_alloc_fails then Some (drop_one s1)
         else Some (s1\<lparr>entries := entries s1 @ [e], stored_bytes := stored_bytes s1 + entry_bytes esz e\<rparr>))"
    using True len ev(1) by (auto simp: log_storage_write_def Let_def c e_def accepted_entry_def)
  show ?thesis
  proof (cases "chance = W_push_alloc_fails")
    case True
    with w ev ok \<open>fits esz lvl ty msg \<and> _\<close> show ?thesis
      by (intro exI [of _ "drop_one s1"]) (auto simp: storage_ok_def)
  next
    case False
    with w ev ok \<open>fits esz lvl ty msg \<and> _\<close> show ?thesis
      by (intro exI [of _ "s1\<lparr>entries := entries s1 @ [e], stored_bytes := stored_bytes s1 + entry_bytes esz e\<rparr>"])
         (auto simp: storage_ok_def e_def)
  qed
qed

section \<open>Histories\<close>

fun is_write :: "log_op \<Rightarrow> bool" where
  "is_write (Op_write chance ts lvl ty msg) = True"
| "is_write Op_drain = False"

fun offered :: "log_op \<Rightarrow> native_log_entry list" where
  "offered (Op_write chance ts lvl ty msg) = [accepted_entry ts lvl ty msg]"
| "offered Op_drain = []"

definition log_history :: "nat \<Rightarrow> nat \<Rightarrow> log_op list \<Rightarrow> native_log_entry list \<times> log_storage_state \<Rightarrow> bool" where
  "log_history esz cap h st \<longleftrightarrow>
     storage_ok esz (snd st) \<and> capacity (snd st) = cap
     \<and> subseq (fst st @ entries (snd st)) (concat (map offered h))
     \<and> length (fst st) + length (entries (snd st)) \<le> length (filter is_write h)
     \<and> dropped (snd st)
        = min zend_long_max (length (filter is_write h) - length (fst st) - length (entries (snd st)))"

lemma subseq_kept: "subseq (out @ es) off \<Longrightarrow> subseq (out @ drop k es) (off @ new)"
proof -
  assume a: "subseq (out @ es) off"
  have "subseq (out @ drop k es) (out @ es)"
    by (simp add: subseq_append' suffix_imp_subseq suffix_drop)
  moreover have "subseq off (off @ new)" by (simp add: prefix_imp_subseq)
  ultimately show ?thesis using a subseq_order.trans by blast
qed

lemma saturated_add:
  "a \<le> w \<Longrightarrow> min m (min m (w - a) + k) = min m (w + k - (a :: nat))"
  by (auto simp: min_def)

lemma log_history_step:
  assumes esz: "esz \<le> log_storage_max_bytes" and h: "log_history esz cap h st"
  shows "\<exists>st'. log_step esz op st = Some st' \<and> log_history esz cap (h @ [op]) st'"
proof (cases op)
  case Op_drain
  with h show ?thesis
    by (cases st) (auto simp: log_history_def drain_def storage_ok_def)
next
  case (Op_write chance ts lvl ty msg)
  obtain out s where st: "st = (out, s)" by (cases st)
  let ?e = "accepted_entry ts lvl ty msg" and ?off = "concat (map offered h)"
  from h st have ok: "storage_ok esz s" "capacity s = cap" and sub: "subseq (out @ entries s) ?off"
    and n: "length out + length (entries s) \<le> length (filter is_write h)"
      "dropped s = min zend_long_max (length (filter is_write h) - length out - length (entries s))"
    by (auto simp: log_history_def)
  from log_storage_write_spec [OF ok(1) esz, of chance ts lvl ty msg] obtain s' where
    w: "log_storage_write esz chance ts lvl ty msg s = Some s'" "storage_ok esz s'" "capacity s' = capacity s"
    and c: "if fits esz lvl ty msg \<and> chance \<in> {W_free, W_push_alloc_fails}
       then \<exists>k. k \<le> length (entries s)
         \<and> (chance = W_free \<longrightarrow> entries s' = drop k (entries s) @ [?e]
              \<and> dropped s' = min zend_long_max (dropped s + k))
         \<and> (chance = W_push_alloc_fails \<longrightarrow> entries s' = drop k (entries s)
              \<and> dropped s' = min zend_long_max (dropped s + k + 1))
       else entries s' = entries s \<and> dropped s' = min zend_long_max (dropped s + 1)"
    by blast
  then consider (kept) k where "k \<le> length (entries s)" "entries s' = drop k (entries s) @ [?e]"
        "dropped s' = min zend_long_max (dropped s + k)"
    | (lost) k where "k \<le> length (entries s)" "entries s' = drop k (entries s)"
        "dropped s' = min zend_long_max (dropped s + k + 1)"
  proof (cases "fits esz lvl ty msg \<and> chance \<in> {W_free, W_push_alloc_fails}")
    case True
    with c that show ?thesis by (cases "chance = W_free") auto
  next
    case False
    with c that(2) [of 0] show ?thesis by simp
  qed
  then have "log_history esz cap (h @ [op]) (out, s')"
  proof cases
    case kept
    have "subseq (out @ drop k (entries s)) ?off" using subseq_kept [OF sub, of k "[]"] by simp
    then have "subseq ((out @ drop k (entries s)) @ [?e]) (?off @ [?e])"
      by (rule list_emb_append_mono) simp
    then show ?thesis
      using kept w(2,3) ok n Op_write saturated_add [OF n(1), of zend_long_max k]
      by (simp add: log_history_def) linarith
  next
    case lost
    have "subseq (out @ drop k (entries s)) (?off @ [?e])" by (rule subseq_kept [OF sub])
    with lost w(2,3) ok n Op_write saturated_add [OF n(1), of zend_long_max "Suc k"] show ?thesis
      by (simp add: log_history_def) linarith
  qed
  with w(1) Op_write st show ?thesis by auto
qed

text \<open>
  The two contracts on the model. \<open>esz\<close> is at most the byte limit: an entry header is far smaller
  than 8 MiB.
\<close>

interpretation log_histories: history_system "log_step (min esz log_storage_max_bytes)"
    "log_history (min esz log_storage_max_bytes) cap" for esz cap
  by unfold_locales (rule log_history_step; simp)

text \<open>
  C39. A log storage, whatever the engine's threads write and however the writes, allocation
  failures, contended locks and drains are ordered, never reads the front of an empty queue,
  never holds more than its capacity of entries nor more than 8 MiB, hands out and keeps entries
  in the order they were written, and accounts for every write: it was drained, is still held,
  or is in the (saturating) dropped count.
\<close>

theorem log_storage_accounting:
  assumes "esz \<le> log_storage_max_bytes" and "log_storage_construct None cap = Inr s0"
  shows "\<exists>out s. run (log_step esz) ops ([], s0) = Some (out, s)
    \<and> length (entries s) \<le> nat cap \<and> total_bytes esz (entries s) \<le> log_storage_max_bytes
    \<and> subseq (out @ entries s) (concat (map offered ops))
    \<and> droppedCount s
        = min zend_long_max (length (filter is_write ops) - length out - length (entries s))"
proof -
  from assms(2) have s0: "0 < cap" "s0 = \<lparr>entries = [], capacity = nat cap, stored_bytes = 0, dropped = 0\<rparr>"
    by (auto simp: log_storage_construct_def split: if_splits)
  then have "log_history (min esz log_storage_max_bytes) (nat cap) [] ([], s0)"
    by (auto simp: log_history_def storage_ok_def)
  from log_histories.run_hist [OF this, of ops] assms(1) show ?thesis
    by (auto simp: log_history_def storage_ok_def droppedCount_def)
qed

theorem log_storage_accounting_witness:
  "\<exists>out s. run (log_step 104)
      [Op_write W_free (Some 1) (Some ''INFO'') None (Some ''a''),
       Op_write W_busy None None None None, Op_drain,
       Op_write W_free (Some 2) (Some ''INFO'') None (Some ''b'')]
      ([], \<lparr>entries = [], capacity = 1, stored_bytes = 0, dropped = 0\<rparr>) = Some (out, s)
    \<and> length (entries s) \<le> 1 \<and> droppedCount s = min zend_long_max (3 - length out - length (entries s))"
proof -
  have "log_storage_construct None 1 = Inr \<lparr>entries = [], capacity = 1, stored_bytes = 0, dropped = 0\<rparr>"
    by (simp add: log_storage_construct_def)
  moreover have "104 \<le> log_storage_max_bytes" by (simp add: log_storage_max_bytes_def)
  ultimately show ?thesis
    using log_storage_accounting [of 104 1 "\<lparr>entries = [], capacity = 1, stored_bytes = 0, dropped = 0\<rparr>"
      "[Op_write W_free (Some 1) (Some ''INFO'') None (Some ''a''),
       Op_write W_busy None None None None, Op_drain,
       Op_write W_free (Some 2) (Some ''INFO'') None (Some ''b'')]"]
    by fastforce
qed

text \<open>
  A write whose entry fits in the byte limit and that obtains the lock and its memory always
  succeeds: its entry becomes the newest one, only the oldest entries are given up for it, and
  the dropped count grows by exactly their number.
\<close>

theorem log_write_keeps_newest:
  assumes "storage_ok esz s" and "fits esz lvl ty msg" and "esz \<le> log_storage_max_bytes"
  shows "\<exists>k s'. log_storage_write esz W_free ts lvl ty msg s = Some s' \<and> k \<le> length (entries s)
    \<and> entries s' = drop k (entries s) @ [accepted_entry ts lvl ty msg]
    \<and> droppedCount s' = min zend_long_max (droppedCount s + k)"
  using log_storage_write_spec [OF assms(1,3), of W_free ts lvl ty msg] assms(2)
  by (auto simp: droppedCount_def)

theorem log_write_keeps_newest_witness:
  "\<exists>s'. log_storage_write 104 W_free (Some 7) (Some ''INFO'') None (Some ''hello'')
      \<lparr>entries = [], capacity = 1, stored_bytes = 0, dropped = 3\<rparr> = Some s'
    \<and> entries s' = [\<lparr>timestamp = 7, level = ''INFO'', log_type = [], message = ''hello''\<rparr>]
    \<and> droppedCount s' = 3"
proof -
  let ?s = "\<lparr>entries = [], capacity = 1, stored_bytes = 0, dropped = 3\<rparr>"
  have "storage_ok 104 ?s" "fits 104 (Some ''INFO'') None (Some ''hello'')" "104 \<le> log_storage_max_bytes"
    by (simp_all add: storage_ok_def fits_def log_storage_max_bytes_def zend_long_max_def opt_text_def)
  from log_write_keeps_newest [OF this, of "Some 7"] show ?thesis
    by (auto simp: accepted_entry_def opt_text_def droppedCount_def zend_long_max_def)
qed

section \<open>Registration\<close>

text \<open>
  Registration changes the database only when it succeeds, and then binds exactly the
  lower-cased name, which was free and is not a built-in storage, to the given storage; a name
  already taken in any capitalization is refused.
\<close>

theorem register_log_storage_correct:
  "registerLogStorage engine True True name storage storages = (r, storages') \<Longrightarrow>
     (case r of
        Inr u \<Rightarrow> name \<noteq> [] \<and> nul \<notin> set name \<and> map c_tolower name \<notin> set built_in_storages
          \<and> storages (map c_tolower name) = None
          \<and> storages' = storages(map c_tolower name \<mapsto> storage)
          \<and> fst (registerLogStorage e2 True True name2 st2 storages')
              = (if map c_tolower name2 = map c_tolower name \<and> name2 \<noteq> [] \<and> nul \<notin> set name2
                 then Inl (ArgValueError 1 ''is already registered in this database'')
                 else fst (registerLogStorage e2 True True name2 st2 storages'))
      | Inl e \<Rightarrow> storages' = storages)"
  by (auto simp: registerLogStorage_def Let_def split: if_splits option.splits sum.splits)

theorem register_log_storage_correct_witness:
  "registerLogStorage (Some True) True True ''Audit'' (7 :: nat) Map.empty
     = (Inr (), Map.empty(''audit'' \<mapsto> 7))
   \<and> fst (registerLogStorage (Some True) True True ''AUDIT'' (8 :: nat) (Map.empty(''audit'' \<mapsto> 7)))
     = Inl (ArgValueError 1 ''is already registered in this database'')"
proof -
  have l: "map c_tolower ''Audit'' = ''audit''" "map c_tolower ''AUDIT'' = ''audit''" by code_simp+
  have "registerLogStorage (Some True) True True ''Audit'' (7 :: nat) Map.empty
      = (Inr (), Map.empty(''audit'' \<mapsto> 7))"
    unfolding registerLogStorage_def l by (simp add: built_in_storages_def)
  from register_log_storage_correct [OF this, of "Some True" "''AUDIT''" 8] this l show ?thesis by simp
qed

end
