(* ===== verification/Statement.thy ===== *)
theory Statement
  imports Prelude Errors Interval Logical_Type Type_Decl Php_Value
begin

text \<open>
  Prepared statements, \<open>src/src/statement.cpp\<close>: parameter resolution, collection of parameter
  arrays, native and deferred bindings, and the metadata methods. A typed value is not bound
  natively: the PHP object keeps it and converts it again at each execution. What the engine
  answers for the prepared statement is the record \<open>engine\<close>; \<open>convert\<close> is
  \<open>duckdb_convert_values\<close> and \<open>convert_one\<close> is \<open>duckdb_php_to_duckdb_value\<close>.
\<close>

section \<open>The engine\<close>

record 'v engine =
  nparams :: nat
  name_index :: "string \<Rightarrow> nat option"
  bind_accepts :: "nat \<Rightarrow> 'v \<Rightarrow> bool"
  convert :: "zval list \<Rightarrow> (throwable, 'v list) result"
  convert_one :: "zval \<Rightarrow> (throwable, 'v) result"
  create_blob :: "string \<Rightarrow> 'v"
  parameter_name :: "nat \<Rightarrow> string option"
  param_type :: "nat \<Rightarrow> ltype option"
  column_count :: nat
  column_name :: "nat \<Rightarrow> string option"
  column_type :: "nat \<Rightarrow> ltype option"

text \<open>Conversion gives one value per input.\<close>

definition converts_all :: "'v engine \<Rightarrow> bool" where
  "converts_all e \<longleftrightarrow> (\<forall>zs vs. convert e zs = Inr vs \<longrightarrow> length vs = length zs)"

section \<open>Parameter resolution\<close>

definition int_text :: "nat \<Rightarrow> string" where
  "int_text n = dec_int (to_int32 (int n))"

definition strip_prefix :: "string \<Rightarrow> string" where
  "strip_prefix s = (case s of [] \<Rightarrow> [] | c # s' \<Rightarrow> if c = CHR ''$'' \<or> c = CHR '':'' then s' else s)"

definition c_str :: "string \<Rightarrow> string" where
  "c_str s = takeWhile (\<lambda>c. c \<noteq> nul) s"

definition binder_error :: "string \<Rightarrow> throwable" where
  "binder_error m = DuckException (duckdb_exception_ce_for_type E_Binder) m (error_code E_Binder)"

fun duckdb_resolve_param_index :: "'v engine \<Rightarrow> zval \<Rightarrow> (throwable, nat) result" where
  "duckdb_resolve_param_index e (Z_long i) =
     (if i < 1 \<or> int (nparams e) < i
      then Inl (ValueError (''Invalid parameter index '' @ dec_int i
             @ '': parameters are 1-based and this statement has '' @ int_text (nparams e) @ '' parameter(s)''))
      else Inr (nat i))"
| "duckdb_resolve_param_index e (Z_string s) =
     (let name = strip_prefix s
      in if name = [] then Inl (ValueError ''Invalid empty parameter name'')
         else (case name_index e (c_str name) of
             None \<Rightarrow> Inl (binder_error (''Unknown named parameter '' @ [dquote] @ c_str name @ [dquote]))
           | Some i \<Rightarrow> Inr i))"
| "duckdb_resolve_param_index e v =
     Inl (TypeError (''Parameter must be an integer position or a string name, got '' @ zend_zval_type_name v))"

fun key_zval :: "php_key \<Rightarrow> zval" where
  "key_zval (K_int i) = Z_long i"
| "key_zval (K_str s) = Z_string s"

fun collect_loop ::
    "'v engine \<Rightarrow> bool \<Rightarrow> nat \<Rightarrow> (php_key \<times> zval) list \<Rightarrow> (throwable, (nat \<times> zval) list) result" where
  "collect_loop e positional position [] = Inr []"
| "collect_loop e positional position ((k, v) # ps) =
     rbind (if positional then Inr position else duckdb_resolve_param_index e (key_zval k)) (\<lambda>index.
     rbind (collect_loop e positional (position + 1) ps) (\<lambda>rest. Inr ((index, v) # rest)))"

definition duckdb_collect_params ::
    "'v engine \<Rightarrow> (php_key \<times> zval) list \<Rightarrow> (throwable, (nat \<times> zval) list) result" where
  "duckdb_collect_params e params =
     (let positional = zend_array_is_list params
      in if positional \<and> nparams e < length params
         then Inl (ValueError (''Too many values: statement has '' @ int_text (nparams e)
                @ '' parameter(s), '' @ int_text (length params) @ '' given''))
         else collect_loop e positional 1 params)"

section \<open>Bindings\<close>

text \<open>
  The native bindings of the statement, and the deferred wrappers of the PHP object in insertion
  order (absent until the first one).
\<close>

record 'v statement =
  native :: "nat \<rightharpoonup> 'v"
  deferred :: "(nat \<times> zval) list option"

fun hash_update :: "(nat \<times> zval) list \<Rightarrow> nat \<Rightarrow> zval \<Rightarrow> (nat \<times> zval) list" where
  "hash_update [] i v = [(i, v)]"
| "hash_update ((j, w) # es) i v = (if j = i then (i, v) # es else (j, w) # hash_update es i v)"

definition hash_del :: "(nat \<times> zval) list \<Rightarrow> nat \<Rightarrow> (nat \<times> zval) list" where
  "hash_del es i = filter (\<lambda>(j, w). j \<noteq> i) es"

fun duckdb_bind_converted ::
    "'v engine \<Rightarrow> (nat \<times> 'v) list \<Rightarrow> (nat \<rightharpoonup> 'v) \<Rightarrow> (throwable, unit) result \<times> (nat \<rightharpoonup> 'v)" where
  "duckdb_bind_converted e [] m = (Inr (), m)"
| "duckdb_bind_converted e ((i, v) # ps) m =
     (if bind_accepts e i v then duckdb_bind_converted e ps (m(i \<mapsto> v))
      else (Inl (binder_error (''Failed to bind parameter '' @ int_text i)), m))"

definition duckdb_bind_params_array ::
    "'v engine \<Rightarrow> (php_key \<times> zval) list \<Rightarrow> (nat \<rightharpoonup> 'v) \<Rightarrow> (throwable, unit) result \<times> (nat \<rightharpoonup> 'v)" where
  "duckdb_bind_params_array e params m =
     (case duckdb_collect_params e params of
        Inl err \<Rightarrow> (Inl err, m)
      | Inr ps \<Rightarrow>
     (case convert e (map snd ps) of
        Inl err \<Rightarrow> (Inl err, m)
      | Inr vs \<Rightarrow> duckdb_bind_converted e (zip (map fst ps) vs) m))"

text \<open>The wrappers overwritten, kept alive until the lock is released: \<open>duckdb_statement_retained\<close>.\<close>

definition keep :: "(nat \<times> zval) list option \<Rightarrow> nat \<Rightarrow> zval list \<Rightarrow> zval list" where
  "keep bindings i retained =
     (case bindings of None \<Rightarrow> retained
      | Some es \<Rightarrow> (case map_of es i of None \<Rightarrow> retained | Some old \<Rightarrow> retained @ [old]))"

definition update_deferred :: "(nat \<times> zval) list option \<Rightarrow> nat \<Rightarrow> zval \<Rightarrow> (nat \<times> zval) list option" where
  "update_deferred d i v = Some (hash_update (case d of None \<Rightarrow> [] | Some es \<Rightarrow> es) i (deref v))"

definition delete_deferred :: "(nat \<times> zval) list option \<Rightarrow> nat \<Rightarrow> (nat \<times> zval) list option" where
  "delete_deferred d i = map_option (\<lambda>es. hash_del es i) d"

fun persist ::
    "(nat \<times> zval) list \<Rightarrow> (nat \<times> zval) list option \<times> zval list \<Rightarrow> (nat \<times> zval) list option \<times> zval list" where
  "persist [] (d, retained) = (d, retained)"
| "persist ((i, v) # ps) (d, retained) =
     persist ps
       (if duckdb_value_contains_typed v then update_deferred d i v else delete_deferred d i,
        keep d i retained)"

definition not_overridden :: "(nat \<times> zval) list option \<Rightarrow> nat list \<Rightarrow> (nat \<times> zval) list" where
  "not_overridden d supplied =
     filter (\<lambda>(i, v). i \<notin> set supplied) (case d of None \<Rightarrow> [] | Some es \<Rightarrow> es)"

definition duckdb_statement_bind_execution ::
    "'v engine \<Rightarrow> (php_key \<times> zval) list option \<Rightarrow> 'v statement
      \<Rightarrow> (throwable, zval list) result \<times> 'v statement" where
  "duckdb_statement_bind_execution e params s =
     (case (case params of None \<Rightarrow> Inr [] | Some ps \<Rightarrow> duckdb_collect_params e ps) of
        Inl err \<Rightarrow> (Inl err, s)
      | Inr supplied \<Rightarrow>
          let all = supplied @ not_overridden (deferred s) (map fst supplied)
          in case convert e (map snd all) of
               Inl err \<Rightarrow> (Inl err, s)
             | Inr vs \<Rightarrow>
                 (case duckdb_bind_converted e (zip (map fst all) vs) (native s) of
                    (Inl err, m) \<Rightarrow> (Inl err, s\<lparr>native := m\<rparr>)
                  | (Inr u, m) \<Rightarrow>
                      (case persist supplied (deferred s, []) of
                         (d, retained) \<Rightarrow> (Inr retained, s\<lparr>native := m, deferred := d\<rparr>))))"

text \<open>
  \<open>bindValue\<close> and \<open>bindBlob\<close>. \<open>gate\<close> is what the checks before and the lock refuse with, if they
  do.
\<close>

definition duckdb_statement_bind_impl ::
    "'v engine \<Rightarrow> throwable option \<Rightarrow> bool \<Rightarrow> zval \<Rightarrow> zval \<Rightarrow> 'v statement
      \<Rightarrow> (throwable, zval list) result \<times> 'v statement" where
  "duckdb_statement_bind_impl e gate as_blob param v s =
     (if as_blob \<and> (\<forall>str. v \<noteq> Z_string str)
      then (Inl (ArgTypeError 2 (''must be of type string, '' @ zend_zval_type_name v @ '' given'')), s)
      else (case gate of
        Some err \<Rightarrow> (Inl err, s)
      | None \<Rightarrow>
     (case duckdb_resolve_param_index e param of
        Inl err \<Rightarrow> (Inl err, s)
      | Inr index \<Rightarrow>
          if \<not> as_blob \<and> duckdb_value_contains_typed v
          then (Inr (keep (deferred s) index []), s\<lparr>deferred := update_deferred (deferred s) index v\<rparr>)
          else (case (case (as_blob, v) of (True, Z_string str) \<Rightarrow> Inr (create_blob e str)
                      | _ \<Rightarrow> convert_one e v) of
             Inl err \<Rightarrow> (Inl err, s)
           | Inr dv \<Rightarrow>
               if bind_accepts e index dv
               then (Inr (keep (deferred s) index []),
                     s\<lparr>native := (native s)(index \<mapsto> dv), deferred := delete_deferred (deferred s) index\<rparr>)
               else (Inl (binder_error (''Failed to bind parameter '' @ int_text index)), s)))))"

definition clearBindings :: "throwable option \<Rightarrow> 'v statement \<Rightarrow> (throwable, unit) result \<times> 'v statement" where
  "clearBindings gate s =
     (case gate of
        Some err \<Rightarrow> (Inl err, s)
      | None \<Rightarrow> (Inr (), s\<lparr>native := Map.empty,
          deferred := (case deferred s of None \<Rightarrow> None | Some es \<Rightarrow> if es = [] then Some es else Some [])\<rparr>))"

section \<open>Metadata\<close>

definition parameterCount :: "'v engine \<Rightarrow> int" where
  "parameterCount e = int (nparams e)"

definition parameterName :: "'v engine \<Rightarrow> int \<Rightarrow> (throwable, zval) result" where
  "parameterName e param =
     (if param < 1 \<or> int (nparams e) < param
      then Inl (ArgValueError 1 (''must be between 1 and '' @ int_text (nparams e)))
      else (case parameter_name e (nat param) of
          None \<Rightarrow> Inr (Z_long param) | Some n \<Rightarrow> Inr (Z_string n)))"

definition rendered_type :: "ltype option \<Rightarrow> string" where
  "rendered_type t = (case t of None \<Rightarrow> ''UNKNOWN'' | Some t \<Rightarrow> duckdb_logical_type_render t)"

definition parameterType :: "'v engine \<Rightarrow> zval \<Rightarrow> (throwable, string) result" where
  "parameterType e param =
     rbind (duckdb_resolve_param_index e param) (\<lambda>i. Inr (rendered_type (param_type e i)))"

definition columnCount :: "'v engine \<Rightarrow> int" where
  "columnCount e = int (column_count e)"

definition column_range_error :: "nat \<Rightarrow> throwable" where
  "column_range_error n =
     ArgValueError 1 (''must be between 0 and '' @ dec_int (if n > 0 then to_int32 (int n) - 1 else 0))"

definition columnName :: "'v engine \<Rightarrow> int \<Rightarrow> (throwable, string) result" where
  "columnName e index =
     (if index < 0 \<or> int (column_count e) \<le> index then Inl (column_range_error (column_count e))
      else (case column_name e (nat index) of
          None \<Rightarrow> Inl (column_range_error (column_count e)) | Some n \<Rightarrow> Inr n))"

definition columnType :: "'v engine \<Rightarrow> int \<Rightarrow> (throwable, string) result" where
  "columnType e index =
     (if index < 0 \<or> int (column_count e) \<le> index then Inl (column_range_error (column_count e))
      else Inr (rendered_type (column_type e (nat index))))"

section \<open>What an execution binds\<close>

definition deferred_map :: "(nat \<times> zval) list option \<Rightarrow> nat \<rightharpoonup> zval" where
  "deferred_map d = (case d of None \<Rightarrow> Map.empty | Some es \<Rightarrow> map_of es)"

text \<open>The last of several values supplied for an index.\<close>

definition supplied_for :: "(nat \<times> 'a) list \<Rightarrow> nat \<rightharpoonup> 'a" where
  "supplied_for ps = map_of (rev ps)"

lemma map_of_hash_update: "map_of (hash_update es i v) = (map_of es)(i \<mapsto> v)"
  by (induction es i v rule: hash_update.induct) auto

lemma map_of_hash_del: "map_of (hash_del es i) = (map_of es)(i := None)"
  by (induction es) (auto simp: hash_del_def)

lemma deferred_map_simps [simp]:
  "deferred_map None = Map.empty" "deferred_map (Some es) = map_of es"
  "deferred_map (update_deferred d i v) = (deferred_map d)(i \<mapsto> deref v)"
  "deferred_map (delete_deferred d i) = (deferred_map d)(i := None)"
  by (auto simp: deferred_map_def update_deferred_def delete_deferred_def map_of_hash_update map_of_hash_del
      split: option.splits)

lemma supplied_for_simps:
  "supplied_for [] = Map.empty"
  "supplied_for ((i, v) # ps) j = (case supplied_for ps j of Some w \<Rightarrow> Some w | None \<Rightarrow> if j = i then Some v else None)"
  by (auto simp: supplied_for_def map_add_def split: option.splits)

lemma bind_converted_Inr:
  "duckdb_bind_converted e ps m = (Inr u, m') \<Longrightarrow>
     m' j = (case supplied_for ps j of Some v \<Rightarrow> Some v | None \<Rightarrow> m j)"
proof (induction e ps m rule: duckdb_bind_converted.induct)
  case (1 e m)
  then show ?case by (simp add: supplied_for_simps)
next
  case (2 e i v ps m)
  then have a: "bind_accepts e i v" and r: "duckdb_bind_converted e ps (m(i \<mapsto> v)) = (Inr u, m')"
    by (auto split: if_splits)
  from 2(1) [OF a r] show ?case by (simp add: supplied_for_simps split: option.splits)
qed

lemma persist_map:
  "persist ps (d, r) = (d', r') \<Longrightarrow>
     deferred_map d' j = (case supplied_for ps j of
        None \<Rightarrow> deferred_map d j
      | Some v \<Rightarrow> if duckdb_value_contains_typed v then Some (deref v) else None)"
proof (induction ps "(d, r)" arbitrary: d r d' r' rule: persist.induct)
  case (1 d r)
  then show ?case by (simp add: supplied_for_simps)
next
  case (2 i v ps d r)
  from 2(2) have "persist ps (if duckdb_value_contains_typed v then update_deferred d i v else delete_deferred d i,
      keep d i r) = (d', r')" by simp
  from 2(1) [OF this] show ?case
    by (auto simp: supplied_for_simps split: option.splits)
qed

lemma collect_loop_props:
  "collect_loop e positional n params = Inr ps \<Longrightarrow>
     map snd ps = map snd params \<and> (positional \<longrightarrow> map fst ps = [n..<n + length params])"
proof (induction e positional n params arbitrary: ps rule: collect_loop.induct)
  case (2 e positional n k v params)
  from 2(2) obtain j rest where j: "(if positional then Inr n else duckdb_resolve_param_index e (key_zval k)) = Inr j"
    and rest: "collect_loop e positional (n + 1) params = Inr rest" and ps: "ps = (j, v) # rest"
    by (auto simp: rbind_eq_Inr)
  have "[n..<n + length ((k, v) # params)] = n # [n + 1..<(n + 1) + length params]"
    by (simp add: upt_conv_Cons del: upt_Suc)
  with 2(1) [OF j rest] j ps show ?case by (simp del: upt_Suc split: if_splits)
qed auto

definition engine_ok :: "'v engine \<Rightarrow> bool" where
  "engine_ok e \<longleftrightarrow> converts_all e \<and> (\<forall>n i. name_index e n = Some i \<longrightarrow> 1 \<le> i \<and> i \<le> nparams e)"

lemma resolve_range:
  "engine_ok e \<Longrightarrow> duckdb_resolve_param_index e p = Inr i \<Longrightarrow> 1 \<le> i \<and> i \<le> nparams e"
  by (cases "(e, p)" rule: duckdb_resolve_param_index.cases)
     (auto simp: engine_ok_def Let_def split: if_splits option.splits)

lemma collect_loop_range:
  "engine_ok e \<Longrightarrow> collect_loop e positional n params = Inr ps \<Longrightarrow> 1 \<le> n \<Longrightarrow>
     (positional \<longrightarrow> n + length params \<le> Suc (nparams e)) \<Longrightarrow>
     (i, v) \<in> set ps \<Longrightarrow> 1 \<le> i \<and> i \<le> nparams e"
proof (induction e positional n params arbitrary: ps rule: collect_loop.induct)
  case (2 e positional n k w params)
  from 2(3) obtain j rest where j: "(if positional then Inr n else duckdb_resolve_param_index e (key_zval k)) = Inr j"
    and rest: "collect_loop e positional (n + 1) params = Inr rest" and ps: "ps = (j, w) # rest"
    by (auto simp: rbind_eq_Inr)
  have "1 \<le> j \<and> j \<le> nparams e"
    using j 2(2,4,5) resolve_range [OF 2(2)] by (auto split: if_splits)
  moreover have "(i, v) \<in> set rest \<Longrightarrow> ?case" using 2(1) [OF j 2(2) rest] 2(4,5) by simp
  ultimately show ?case using 2(6) ps by auto
qed simp

lemma collect_params_range:
  assumes "engine_ok e" "duckdb_collect_params e params = Inr ps"
  shows "\<forall>(i, v) \<in> set ps. 1 \<le> i \<and> i \<le> nparams e"
proof (clarify)
  fix i v assume i: "(i, v) \<in> set ps"
  from assms(2) have c: "collect_loop e (zend_array_is_list params) 1 params = Inr ps"
    and n: "zend_array_is_list params \<longrightarrow> length params \<le> nparams e"
    by (auto simp: duckdb_collect_params_def Let_def split: if_splits)
  show "1 \<le> i \<and> i \<le> nparams e"
    by (rule collect_loop_range [OF assms(1) c _ _ i]) (use n in auto)
qed

text \<open>
  Parameter arrays are resolved as a whole: a collected array keeps the values in order, every
  index lies between 1 and the number of parameters, and a list is numbered from 1.
\<close>

theorem collect_params_correct:
  assumes "engine_ok e" and "duckdb_collect_params e params = Inr ps"
  shows "map snd ps = map snd params
    \<and> (\<forall>i v. (i, v) \<in> set ps \<longrightarrow> 1 \<le> i \<and> i \<le> nparams e)
    \<and> (zend_array_is_list params \<longrightarrow> map fst ps = [1..<Suc (length params)] \<and> length params \<le> nparams e)"
proof -
  from assms(2) have c: "collect_loop e (zend_array_is_list params) 1 params = Inr ps"
    and n: "zend_array_is_list params \<longrightarrow> length params \<le> nparams e"
    by (auto simp: duckdb_collect_params_def Let_def split: if_splits)
  from collect_loop_props [OF c] collect_loop_range [OF assms(1) c] n show ?thesis by auto
qed

lemma bind_execution_Inr:
  assumes "duckdb_statement_bind_execution e params s = (Inr retained, s')"
  obtains supplied vs m d where
    "(case params of None \<Rightarrow> Inr [] | Some ps \<Rightarrow> duckdb_collect_params e ps) = Inr supplied"
    "convert e (map snd (supplied @ not_overridden (deferred s) (map fst supplied))) = Inr vs"
    "duckdb_bind_converted e (zip (map fst (supplied @ not_overridden (deferred s) (map fst supplied))) vs)
       (native s) = (Inr (), m)"
    "persist supplied (deferred s, []) = (d, retained)"
    "s' = s\<lparr>native := m, deferred := d\<rparr>"
  using assms unfolding duckdb_statement_bind_execution_def Let_def
  by (auto split: sum.splits prod.splits)

lemma bind_converted_error:
  "duckdb_bind_converted e ps m = (Inl err, m') \<Longrightarrow>
     \<exists>i. err = binder_error (''Failed to bind parameter '' @ int_text i)"
  by (induction e ps m rule: duckdb_bind_converted.induct) (auto split: if_splits)

lemma bind_execution_keeps:
  "duckdb_statement_bind_execution e params s = (Inl err, s') \<Longrightarrow> deferred s' = deferred s
     \<and> (s' \<noteq> s \<longrightarrow> (\<exists>i. err = binder_error (''Failed to bind parameter '' @ int_text i)))"
  unfolding duckdb_statement_bind_execution_def Let_def
  by (auto split: sum.splits prod.splits dest!: bind_converted_error)

text \<open>
  A failed execution never loses a deferred wrapper, and until the values have been
  converted it changes nothing at all.
\<close>

theorem bind_execution_error:
  "duckdb_statement_bind_execution e params s = (r, s') \<Longrightarrow>
     (case r of Inr x \<Rightarrow> True
      | Inl err \<Rightarrow> deferred s' = deferred s
         \<and> (s' \<noteq> s \<longrightarrow> (\<exists>i. err = binder_error (''Failed to bind parameter '' @ int_text i))))"
  using bind_execution_keeps [of e params s _ s'] by (cases r) auto

section \<open>Sequences of bindings and executions\<close>

datatype binding_op =
    Bind "throwable option" bool zval zval
  | Clear "throwable option"
  | Execute "(php_key \<times> zval) list option"

fun binding_step :: "'v engine \<Rightarrow> binding_op \<Rightarrow> 'v statement \<Rightarrow> 'v statement option" where
  "binding_step e (Bind gate as_blob param v) s = Some (snd (duckdb_statement_bind_impl e gate as_blob param v s))"
| "binding_step e (Clear gate) s = Some (snd (clearBindings gate s))"
| "binding_step e (Execute params) s = Some (snd (duckdb_statement_bind_execution e params s))"

definition wrappers :: "'v statement \<Rightarrow> (nat \<times> zval) list" where
  "wrappers s = (case deferred s of None \<Rightarrow> [] | Some es \<Rightarrow> es)"

definition wrappers_ok :: "nat \<Rightarrow> (nat \<times> zval) list option \<Rightarrow> bool" where
  "wrappers_ok n d \<longleftrightarrow> (case d of None \<Rightarrow> True | Some es \<Rightarrow>
     distinct (map fst es) \<and> (\<forall>(i, v) \<in> set es. 1 \<le> i \<and> i \<le> n \<and> duckdb_value_contains_typed v))"

lemma contains_typed_deref [simp]: "duckdb_value_contains_typed (deref v) = duckdb_value_contains_typed v"
proof -
  have d: "deref (deref v) = deref v" by (induction v) auto
  show ?thesis unfolding duckdb_value_contains_typed_def contains_typed_loop.simps d ..
qed

lemma set_hash_update: "set (hash_update es i v) \<subseteq> insert (i, v) (set es)"
  by (induction es i v rule: hash_update.induct) auto

lemma keys_hash_update:
  "map fst (hash_update es i v) = map fst es @ (if i \<in> fst ` set es then [] else [i])"
  by (induction es i v rule: hash_update.induct) auto

lemma wrappers_ok_update:
  "wrappers_ok n d \<Longrightarrow> 1 \<le> i \<Longrightarrow> i \<le> n \<Longrightarrow> duckdb_value_contains_typed v
     \<Longrightarrow> wrappers_ok n (update_deferred d i v)"
  using set_hash_update [of "case d of None \<Rightarrow> [] | Some es \<Rightarrow> es" i "deref v"]
  by (auto simp: wrappers_ok_def update_deferred_def keys_hash_update split: option.splits)

lemma wrappers_ok_delete: "wrappers_ok n d \<Longrightarrow> wrappers_ok n (delete_deferred d i)"
  by (auto simp: wrappers_ok_def delete_deferred_def hash_del_def intro: distinct_map_filter split: option.splits)

lemma wrappers_ok_persist:
  "persist ps (d, r) = (d', r') \<Longrightarrow> wrappers_ok n d \<Longrightarrow> \<forall>(i, v) \<in> set ps. 1 \<le> i \<and> i \<le> n
     \<Longrightarrow> wrappers_ok n d'"
proof (induction ps "(d, r)" arbitrary: d r rule: persist.induct)
  case (2 i v ps d r)
  from 2(2) have "persist ps (if duckdb_value_contains_typed v then update_deferred d i v else delete_deferred d i,
      keep d i r) = (d', r')" by simp
  from 2(1) [OF this] 2(3,4) wrappers_ok_update [of n d i v] wrappers_ok_delete [of n d i]
  show ?case by (cases "duckdb_value_contains_typed v") auto
qed simp

lemma wrappers_ok_step:
  assumes e: "engine_ok e" and ok: "wrappers_ok (nparams e) (deferred s)"
  shows "\<exists>s'. binding_step e op s = Some s' \<and> wrappers_ok (nparams e) (deferred s')"
proof (cases op)
  case (Bind gate as_blob param v)
  show ?thesis
  proof (cases "duckdb_resolve_param_index e param")
    case (Inl err)
    with ok Bind show ?thesis by (auto simp: duckdb_statement_bind_impl_def split: option.splits)
  next
    case (Inr i)
    with resolve_range [OF e Inr] ok Bind show ?thesis
      by (auto simp: duckdb_statement_bind_impl_def split: option.splits sum.splits
          intro: wrappers_ok_update wrappers_ok_delete)
  qed
next
  case (Clear gate)
  with ok show ?thesis by (auto simp: clearBindings_def wrappers_ok_def split: option.splits)
next
  case (Execute params)
  obtain r s' where x: "duckdb_statement_bind_execution e params s = (r, s')" by fastforce
  have "wrappers_ok (nparams e) (deferred s')"
  proof (cases r)
    case (Inl err)
    with x ok bind_execution_keeps [of e params s err s'] show ?thesis by simp
  next
    case (Inr u)
    with x have "duckdb_statement_bind_execution e params s = (Inr u, s')" by simp
    from bind_execution_Inr [OF this] obtain supplied vs m d where
      c: "(case params of None \<Rightarrow> Inr [] | Some ps \<Rightarrow> duckdb_collect_params e ps) = Inr supplied" and
      p: "persist supplied (deferred s, []) = (d, u)" and s'': "s' = s\<lparr>native := m, deferred := d\<rparr>" .
    then have s': "deferred s' = d" by simp
    have "\<forall>(i, v) \<in> set supplied. 1 \<le> i \<and> i \<le> nparams e"
    proof (cases params)
      case None
      with c show ?thesis by simp
    next
      case (Some ps)
      with c collect_params_range [OF e, of ps supplied] show ?thesis by simp
    qed
    with wrappers_ok_persist [OF p ok] s' show ?thesis by simp
  qed
  with x Execute show ?thesis by simp
qed

interpretation bindings: op_system "binding_step e" "\<lambda>s. engine_ok e \<and> wrappers_ok (nparams e) (deferred s)" for e
  by unfold_locales (use wrappers_ok_step in blast)

text \<open>
  Whatever is bound, cleared and executed on a statement, in any order and with any
  failures, each deferred wrapper holds a typed value for one existing parameter, and no
  parameter has two.
\<close>

theorem deferred_wrappers_invariant:
  assumes "engine_ok e"
  shows "\<exists>s. run (binding_step e) ops \<lparr>native = Map.empty, deferred = None\<rparr> = Some s
    \<and> distinct (map fst (wrappers s))
    \<and> (\<forall>i v. (i, v) \<in> set (wrappers s) \<longrightarrow> 1 \<le> i \<and> i \<le> nparams e \<and> duckdb_value_contains_typed v)"
proof -
  have "engine_ok e \<and> wrappers_ok (nparams e) (deferred \<lparr>native = Map.empty, deferred = None\<rparr>)"
    using assms by (simp add: wrappers_ok_def)
  from bindings.run_safe [OF this, of ops] obtain s where
    s: "run (binding_step e) ops \<lparr>native = Map.empty, deferred = None\<rparr> = Some s"
    and ok: "wrappers_ok (nparams e) (deferred s)" by auto
  from ok have "distinct (map fst (wrappers s))
    \<and> (\<forall>i v. (i, v) \<in> set (wrappers s) \<longrightarrow> 1 \<le> i \<and> i \<le> nparams e \<and> duckdb_value_contains_typed v)"
    by (cases "deferred s") (auto simp: wrappers_ok_def wrappers_def)
  with s show ?thesis by blast
qed

section \<open>What an execution binds after any history\<close>

text \<open>
  The value in force for a parameter: the last one supplied for it, else the wrapper left by an earlier call. It speaks of
  maps only, not of how the code puts the two together.
\<close>

definition effective_value :: "'v statement \<Rightarrow> (nat \<times> zval) list \<Rightarrow> nat \<rightharpoonup> zval" where
  "effective_value s supplied = deferred_map (deferred s) ++ supplied_for supplied"

lemma supplied_for_append: "supplied_for (xs @ ys) = supplied_for xs ++ supplied_for ys"
  by (simp add: supplied_for_def)

lemma supplied_for_distinct: "distinct (map fst xs) \<Longrightarrow> supplied_for xs = map_of xs"
  unfolding supplied_for_def by (rule map_of_inject_set [THEN iffD2]) (simp_all add: rev_map [symmetric])

lemma map_of_filter_keys: "map_of (filter (\<lambda>(k, v). k \<notin> S) es) i = (if i \<in> S then None else map_of es i)"
  by (induction es) auto

lemma supplied_for_not_overridden:
  assumes "wrappers_ok n d"
  shows "supplied_for (supplied @ not_overridden d (map fst supplied)) = deferred_map d ++ supplied_for supplied"
proof
  fix i
  let ?es = "case d of None \<Rightarrow> [] | Some es \<Rightarrow> es"
  have "distinct (map fst ?es)" using assms by (auto simp: wrappers_ok_def split: option.splits)
  then have "supplied_for (not_overridden d (map fst supplied)) i = map_of (not_overridden d (map fst supplied)) i"
    by (simp add: supplied_for_distinct not_overridden_def distinct_map_filter)
  also have "\<dots> = (if i \<in> fst ` set supplied then None else map_of ?es i)"
    unfolding not_overridden_def map_of_filter_keys by simp
  finally have kept: "supplied_for (not_overridden d (map fst supplied)) i = (if i \<in> fst ` set supplied then None else deferred_map d i)"
    by (simp add: deferred_map_def split: option.split)
  have "supplied_for supplied i = None \<longleftrightarrow> i \<notin> fst ` set supplied"
    by (simp add: supplied_for_def map_of_eq_None_iff)
  then show "supplied_for (supplied @ not_overridden d (map fst supplied)) i = (deferred_map d ++ supplied_for supplied) i"
    using kept by (auto simp: supplied_for_append map_add_def split: option.split)
qed

lemma not_overridden_effective:
  assumes "wrappers_ok n (deferred s)" "(i, v) \<in> set (not_overridden (deferred s) (map fst supplied))"
  shows "effective_value s supplied i = Some v"
proof -
  obtain es where es: "deferred s = Some es" "(i, v) \<in> set es" "i \<notin> fst ` set supplied"
    using assms(2) by (cases "deferred s") (auto simp: not_overridden_def)
  then have "map_of es i = Some v" using assms(1) by (simp add: wrappers_ok_def)
  moreover have "supplied_for supplied i = None" using es(3) by (simp add: supplied_for_def map_of_eq_None_iff)
  ultimately show ?thesis using es(1) by (simp add: effective_value_def map_add_def)
qed

text \<open>Binding a converted list binds each index to the conversion of its last value.\<close>

lemma supplied_for_zip_None:
  "length vs = length ps \<Longrightarrow> supplied_for (zip (map fst ps) vs) i = None \<longleftrightarrow> supplied_for ps i = None"
  by (simp add: supplied_for_def map_of_eq_None_iff set_map [symmetric] del: set_map)

lemma supplied_for_zip:
  "length vs = length ps \<Longrightarrow> supplied_for ps i = Some v
    \<Longrightarrow> \<exists>j < length ps. ps ! j = (i, v) \<and> supplied_for (zip (map fst ps) vs) i = Some (vs ! j)"
proof (induction vs ps rule: list_induct2)
  case (Cons x vs p ps)
  obtain k w where p: "p = (k, w)" by (rule prod.exhaust)
  show ?case
  proof (cases "supplied_for ps i")
    case None
    then have "i = k" "v = w" using Cons.prems p by (simp_all add: supplied_for_simps split: if_splits)
    then show ?thesis
      using None supplied_for_zip_None [OF Cons.hyps, of i] p by (intro exI [of _ 0]) (simp add: supplied_for_simps)
  next
    case (Some u)
    then have "supplied_for ps i = Some v" using Cons.prems p by (simp add: supplied_for_simps)
    from Cons.IH [OF this] obtain j where
      "j < length ps" "ps ! j = (i, v)" "supplied_for (zip (map fst ps) vs) i = Some (vs ! j)" by blast
    then show ?thesis using p by (intro exI [of _ "Suc j"]) (simp add: supplied_for_simps)
  qed
qed (simp add: supplied_for_def)

text \<open>
  C29. Whatever was bound, cleared and executed before, an execution that binds successfully leaves each parameter bound to
  the conversion of the value in force for it: the last one supplied for it, else its deferred wrapper, else what was
  bound before. Nothing else is converted. Among the supplied values exactly the typed ones stay deferred, for
  conversion at the next execution; wrappers of parameters not supplied stay.
\<close>

theorem bind_execution_correct:
  assumes "engine_ok e" "run (binding_step e) ops \<lparr>native = Map.empty, deferred = None\<rparr> = Some s"
    and "duckdb_statement_bind_execution e params s = (Inr retained, s')"
  shows "\<exists>supplied inputs vs.
      (case params of None \<Rightarrow> Inr [] | Some ps \<Rightarrow> duckdb_collect_params e ps) = Inr supplied
    \<and> convert e (map snd inputs) = Inr vs \<and> length vs = length inputs
    \<and> (\<forall>(i, v) \<in> set inputs. (i, v) \<in> set supplied \<or> effective_value s supplied i = Some v)
    \<and> (\<forall>i. case effective_value s supplied i of
             None \<Rightarrow> native s' i = native s i
           | Some v \<Rightarrow> \<exists>j < length inputs. inputs ! j = (i, v) \<and> native s' i = Some (vs ! j))
    \<and> (\<forall>i. deferred_map (deferred s') i = (case supplied_for supplied i of
             None \<Rightarrow> deferred_map (deferred s) i
           | Some v \<Rightarrow> if duckdb_value_contains_typed v then Some (deref v) else None))"
proof -
  have "engine_ok e \<and> wrappers_ok (nparams e) (deferred \<lparr>native = Map.empty, deferred = None\<rparr>)"
    using assms(1) by (simp add: wrappers_ok_def)
  from bindings.run_safe [OF this, of ops] have ok: "wrappers_ok (nparams e) (deferred s)" using assms(2) by auto
  from bind_execution_Inr [OF assms(3)] obtain supplied vs m d where
    1: "(case params of None \<Rightarrow> Inr [] | Some ps \<Rightarrow> duckdb_collect_params e ps) = Inr supplied" and
    2: "convert e (map snd (supplied @ not_overridden (deferred s) (map fst supplied))) = Inr vs" and
    3: "duckdb_bind_converted e (zip (map fst (supplied @ not_overridden (deferred s) (map fst supplied))) vs)
          (native s) = (Inr (), m)" and
    4: "persist supplied (deferred s, []) = (d, retained)" and
    5: "s' = s\<lparr>native := m, deferred := d\<rparr>" .
  define inputs where "inputs = supplied @ not_overridden (deferred s) (map fst supplied)"
  have len: "length vs = length inputs" using assms(1) 2 by (auto simp: engine_ok_def converts_all_def inputs_def)
  have eff: "supplied_for inputs = effective_value s supplied"
    unfolding effective_value_def inputs_def by (rule supplied_for_not_overridden [OF ok])
  note bound = bind_converted_Inr [OF 3, folded inputs_def]
  have native: "case effective_value s supplied i of
             None \<Rightarrow> native s' i = native s i
           | Some v \<Rightarrow> \<exists>j < length inputs. inputs ! j = (i, v) \<and> native s' i = Some (vs ! j)" for i
  proof (cases "effective_value s supplied i")
    case None
    then show ?thesis using bound [of i] supplied_for_zip_None [OF len, of i] 5 by (simp add: eff)
  next
    case (Some v)
    then show ?thesis using bound [of i] supplied_for_zip [OF len, of i v] 5 by (auto simp: eff)
  qed
  have inputs: "\<forall>(i, v) \<in> set inputs. (i, v) \<in> set supplied \<or> effective_value s supplied i = Some v"
    using not_overridden_effective [OF ok] by (auto simp: inputs_def)
  have "deferred_map (deferred s') i = (case supplied_for supplied i of
             None \<Rightarrow> deferred_map (deferred s) i
           | Some v \<Rightarrow> if duckdb_value_contains_typed v then Some (deref v) else None)" for i
    using persist_map [OF 4] 5 by simp
  then show ?thesis using 1 2 [folded inputs_def] len native inputs by blast
qed

section \<open>A sample engine\<close>

definition sample_engine :: "zval engine" where
  "sample_engine =
     \<lparr>nparams = 2, name_index = (\<lambda>n. if n = ''a'' then Some 1 else None),
      bind_accepts = (\<lambda>i v. v \<noteq> Z_resource), convert = Inr, convert_one = Inr, create_blob = Z_string,
      parameter_name = (\<lambda>i. None), param_type = (\<lambda>i. None), column_count = 0,
      column_name = (\<lambda>i. None), column_type = (\<lambda>i. None)\<rparr>"

lemma sample_engine_ok: "engine_ok sample_engine"
  by (auto simp: engine_ok_def converts_all_def sample_engine_def split: if_splits)

lemma sample_collect: "duckdb_collect_params sample_engine [(K_str ''$a'', Z_long 5)] = Inr [(1, Z_long 5)]"
  by (simp add: duckdb_collect_params_def zend_array_is_list_def strip_prefix_def c_str_def sample_engine_def)

theorem collect_params_correct_witness:
  "duckdb_collect_params sample_engine [(K_str ''$a'', Z_long 5)] = Inr [(1, Z_long 5)]
   \<and> map snd [(1 :: nat, Z_long 5)] = map snd [(K_str ''$a'', Z_long 5)]"
  using collect_params_correct [OF sample_engine_ok sample_collect] sample_collect by blast

lemma sample_typed:
  "duckdb_value_contains_typed (Z_value ty inp)" "\<not> duckdb_value_contains_typed (Z_long n)"
  "\<not> duckdb_value_contains_typed Z_resource"
  by (simp_all add: duckdb_value_contains_typed_def)

text \<open>Parameter 1 has a deferred date when an integer is supplied for it: the integer is bound, and the date forgotten.\<close>

theorem bind_execution_correct_witness:
  "\<exists>s s'. run (binding_step sample_engine) [Bind None False (Z_long 1) (Z_value (Some ''DATE'') Z_null)]
      \<lparr>native = Map.empty, deferred = None\<rparr> = Some s
    \<and> duckdb_statement_bind_execution sample_engine (Some [(K_str ''$a'', Z_long 5)]) s = (Inr [Z_value (Some ''DATE'') Z_null], s')
    \<and> native s' 1 = Some (Z_long 5) \<and> deferred_map (deferred s') 1 = None"
proof -
  let ?s = "\<lparr>native = Map.empty, deferred = Some [(1, Z_value (Some ''DATE'') Z_null)]\<rparr> :: zval statement"
  have s: "run (binding_step sample_engine) [Bind None False (Z_long 1) (Z_value (Some ''DATE'') Z_null)]
      \<lparr>native = Map.empty, deferred = None\<rparr> = Some ?s"
    by (simp add: duckdb_statement_bind_impl_def sample_typed update_deferred_def) (simp add: sample_engine_def)
  obtain s' where x: "duckdb_statement_bind_execution sample_engine (Some [(K_str ''$a'', Z_long 5)]) ?s
      = (Inr [Z_value (Some ''DATE'') Z_null], s')"
    unfolding duckdb_statement_bind_execution_def
    by (simp add: sample_collect not_overridden_def sample_typed)
       (simp add: sample_engine_def keep_def)
  have eff: "effective_value ?s [(1, Z_long 5)] 1 = Some (Z_long 5)"
    by (simp add: effective_value_def supplied_for_simps)
  from bind_execution_correct [OF sample_engine_ok s x] obtain supplied inputs vs where
    c: "(case Some [(K_str ''$a'', Z_long 5)] of None \<Rightarrow> Inr [] | Some ps \<Rightarrow> duckdb_collect_params sample_engine ps) = Inr supplied" and
    v: "convert sample_engine (map snd inputs) = Inr vs" and
    n: "\<forall>i. case effective_value ?s supplied i of None \<Rightarrow> native s' i = native ?s i
       | Some v \<Rightarrow> \<exists>j < length inputs. inputs ! j = (i, v) \<and> native s' i = Some (vs ! j)" and
    d: "\<forall>i. deferred_map (deferred s') i = (case supplied_for supplied i of None \<Rightarrow> deferred_map (deferred ?s) i
       | Some v \<Rightarrow> if duckdb_value_contains_typed v then Some (deref v) else None)"
    by (elim exE conjE) (rule that; assumption)
  have supplied: "supplied = [(1, Z_long 5)]" using c by (simp add: sample_collect)
  then have "native s' 1 = Some (Z_long 5)" using spec [OF n, of 1] v eff by (auto simp: sample_engine_def)
  moreover have "deferred_map (deferred s') 1 = None"
    using spec [OF d, of 1] supplied by (simp add: supplied_for_simps sample_typed)
  ultimately show ?thesis using s x by blast
qed

theorem bind_execution_error_witness:
  "\<exists>s'. duckdb_statement_bind_execution sample_engine (Some [(K_int 0, Z_resource)])
      \<lparr>native = Map.empty, deferred = Some [(2, Z_value (Some ''DATE'') Z_null)]\<rparr>
      = (Inl (binder_error ''Failed to bind parameter 1''), s')
    \<and> deferred s' = Some [(2, Z_value (Some ''DATE'') Z_null)]"
proof -
  let ?s = "\<lparr>native = Map.empty, deferred = Some [(2, Z_value (Some ''DATE'') Z_null)]\<rparr>"
  have c: "duckdb_collect_params sample_engine [(K_int 0, Z_resource)] = Inr [(1, Z_resource)]"
    by (simp add: duckdb_collect_params_def zend_array_is_list_def sample_engine_def)
  have t: "int_text 1 = ''1''" by (simp add: int_text_def to_int32_def dec_int_def)
  obtain s' where x: "duckdb_statement_bind_execution sample_engine (Some [(K_int 0, Z_resource)]) ?s
      = (Inl (binder_error ''Failed to bind parameter 1''), s')"
    unfolding duckdb_statement_bind_execution_def
    by (simp add: c not_overridden_def) (simp add: sample_engine_def t [simplified])
  from bind_execution_error [OF x] x show ?thesis by auto
qed

theorem deferred_wrappers_invariant_witness:
  "\<exists>s. run (binding_step sample_engine)
      [Bind None False (Z_string '':a'') (Z_value (Some ''DATE'') Z_null), Execute None, Bind None False (Z_long 1) (Z_long 3)]
      \<lparr>native = Map.empty, deferred = None\<rparr> = Some s \<and> distinct (map fst (wrappers s))"
  using deferred_wrappers_invariant [OF sample_engine_ok] by blast

end
