(* ===== verification/Selection.thy ===== *)
theory Selection
  imports Prelude Errors Php_Value Log_Storage
begin

text \<open>
  Selection vectors, \<open>src/src/selection.cpp\<close>: validation of index lists, the cached largest index,
  the bound check against a source, the gather between native vectors, and the methods.

  Native vectors live in a store that maps a handle to its rows; \<open>None\<close> is a NULL row. The row
  copier of the engine, \<open>duckdb_vector_copy_sel\<close>, is a parameter about which only the behaviour on
  two different vectors is assumed (\<open>copier_ok\<close>): a copy of a vector onto itself may do anything
  to that vector.
\<close>

section \<open>Selections\<close>

record selection_data =
  selection :: "u32 list"
  sel_count :: nat
  max_index :: nat

definition max_selection_index :: int where
  "max_selection_index = 2 ^ 32 - 2"

fun validate_entries :: "nat \<Rightarrow> (php_key \<times> zval) list \<Rightarrow> (throwable, unit) result" where
  "validate_entries arg [] = Inr ()"
| "validate_entries arg ((k, v) # es) =
     (case deref v of
        Z_long n \<Rightarrow>
          if n < 0 \<or> max_selection_index < n
          then Inl (ArgValueError arg (''must contain only integers between 0 and '' @ dec_int max_selection_index))
          else validate_entries arg es
      | _ \<Rightarrow> Inl (ArgTypeError arg ''must contain only integers''))"

fun long_value :: "zval \<Rightarrow> int" where
  "long_value (Z_long n) = n"
| "long_value _ = 0"

fun fill_selection :: "(php_key \<times> zval) list \<Rightarrow> u32 list \<times> nat \<Rightarrow> u32 list \<times> nat" where
  "fill_selection [] (out, m) = (out, m)"
| "fill_selection ((k, v) # es) (out, m) =
     (let index = nat (long_value (deref v))
      in fill_selection es (out @ [of_nat index], if index > m then index else m))"

text \<open>\<open>alloc\<close> tells whether the native allocation succeeds; \<open>std::bad_alloc\<close> reaches the caller as an error.\<close>

definition selection_from_list ::
    "bool \<Rightarrow> (php_key \<times> zval) list \<Rightarrow> nat \<Rightarrow> (throwable, selection_data) result" where
  "selection_from_list alloc es arg =
     (if \<not> zend_array_is_list es then Inl (ArgValueError arg ''must be a list'')
      else rbind (validate_entries arg es) (\<lambda>_.
        if \<not> alloc then Inl (duckdb_throw_msg (Some ''std::bad_alloc''))
        else case fill_selection es ([], 0) of
               (out, m) \<Rightarrow> Inr \<lparr>selection = out, sel_count = length es, max_index = m\<rparr>))"

text \<open>An argument: a \<open>SelectionVector\<close> object (perhaps uninitialized) or any other value.\<close>

datatype selection_arg = SA_selection "selection_data option" | SA_zval zval

definition selection_class :: string where
  "selection_class = ''DuckDB'' @ [CHR 0x5C] @ ''SelectionVector''"

fun is_object :: "zval \<Rightarrow> bool" where
  "is_object (Z_value ty inp) = True"
| "is_object (Z_interval iv) = True"
| "is_object (Z_datetime im t) = True"
| "is_object (Z_object c) = True"
| "is_object _ = False"

definition duckdb_selection_from_arg ::
    "(zval \<Rightarrow> string) \<Rightarrow> bool \<Rightarrow> selection_arg \<Rightarrow> nat \<Rightarrow> (throwable, selection_data) result" where
  "duckdb_selection_from_arg class_name alloc a arg =
     (case a of
        SA_selection None \<Rightarrow> Inl (not_initialized ''SelectionVector'')
      | SA_selection (Some d) \<Rightarrow> Inr d
      | SA_zval v \<Rightarrow>
          (case deref v of
             Z_array h es \<Rightarrow> selection_from_list alloc es arg
           | w \<Rightarrow> Inl (ArgTypeError arg (''must be of type '' @ selection_class @ ''|array, ''
                    @ (if is_object w then class_name w else zend_zval_type_name w) @ '' given''))))"

definition duckdb_selection_check_source :: "selection_data \<Rightarrow> nat \<Rightarrow> nat \<Rightarrow> (throwable, unit) result" where
  "duckdb_selection_check_source s src_size arg =
     (if sel_count s = 0 then Inr ()
      else if src_size = 0 then Inl (ArgValueError arg ''must be empty for an empty source'')
      else if max_index s \<ge> src_size
      then Inl (ArgValueError arg (''must contain only indices less than '' @ dec_string src_size
             @ '', '' @ dec_string (max_index s) @ '' given''))
      else Inr ())"

section \<open>Native vectors\<close>

type_synonym 'c rows = "'c option list"
type_synonym 'c store = "nat \<Rightarrow> 'c rows"

text \<open>\<open>copy_sel source target selection source_count source_offset target_offset\<close>\<close>

type_synonym 'c copier = "nat \<Rightarrow> nat \<Rightarrow> u32 list \<Rightarrow> nat \<Rightarrow> nat \<Rightarrow> nat \<Rightarrow> 'c store \<Rightarrow> 'c store"

definition place :: "nat \<Rightarrow> 'c rows \<Rightarrow> 'c rows \<Rightarrow> 'c rows" where
  "place off new old = take off old @ new @ drop (off + length new) old"

definition copier_ok :: "'c copier \<Rightarrow> bool" where
  "copier_ok copy_sel \<longleftrightarrow>
     (\<forall>src tgt sel n so to st.
        src \<noteq> tgt \<longrightarrow> so \<le> n \<longrightarrow> n \<le> length sel
        \<longrightarrow> (\<forall>i. so \<le> i \<longrightarrow> i < n \<longrightarrow> unat (sel ! i) < length (st src))
        \<longrightarrow> to + (n - so) \<le> length (st tgt)
        \<longrightarrow> copy_sel src tgt sel n so to st
            = st(tgt := place to (map (\<lambda>i. st src ! unat (sel ! i)) [so..<n]) (st tgt)))"

text \<open>
  The engine's constructor of a vector: uninitialized rows, or nothing when it cannot allocate.
\<close>

type_synonym 'c creator = "nat \<Rightarrow> 'c rows option"

definition creator_ok :: "'c creator \<Rightarrow> bool" where
  "creator_ok create_vector \<longleftrightarrow> (\<forall>n rows. create_vector n = Some rows \<longrightarrow> length rows = n)"

text \<open>
  \<open>duckdb_vector_copy_rows\<close> of \<open>vector.cpp\<close>: a selection of all rows up to the end of the range,
  whose entries before the range are never read (here 0).
\<close>

definition copy_rows :: "'c copier \<Rightarrow> nat \<Rightarrow> nat \<Rightarrow> nat \<Rightarrow> nat \<Rightarrow> nat \<Rightarrow> 'c store \<Rightarrow> 'c store" where
  "copy_rows copy_sel src tgt so n to st =
     (if n = 0 then st
      else copy_sel src tgt (replicate so 0 @ map of_nat [so..<so + n]) (so + n) so to st)"

definition duckdb_selection_gather ::
    "'c copier \<Rightarrow> 'c creator \<Rightarrow> nat \<Rightarrow> nat \<Rightarrow> nat \<Rightarrow> selection_data \<Rightarrow> nat \<Rightarrow> 'c store
      \<Rightarrow> (throwable, unit) result \<times> 'c store" where
  "duckdb_selection_gather copy_sel create_vector staged src tgt s to st =
     (if sel_count s = 0 then (Inr (), st)
      else if src \<noteq> tgt then (Inr (), copy_sel src tgt (selection s) (sel_count s) 0 to st)
      else (case create_vector (sel_count s) of
          None \<Rightarrow> (Inl (duckdb_throw_msg (Some ''std::bad_alloc'')), st)
        | Some rows \<Rightarrow>
            let st1 = copy_sel src staged (selection s) (sel_count s) 0 0 (st(staged := rows))
            in (Inr (), copy_rows copy_sel staged tgt 0 (sel_count s) to st1)))"

section \<open>Methods\<close>

definition selection_construct ::
    "bool \<Rightarrow> selection_data option \<Rightarrow> (php_key \<times> zval) list \<Rightarrow> (throwable, selection_data) result" where
  "selection_construct alloc this es =
     (if this \<noteq> None then Inl (PhpError (selection_class @ '' object is already initialized''))
      else selection_from_list alloc es 1)"

definition selection_count :: "selection_data \<Rightarrow> int" where
  "selection_count d = int (sel_count d)"

definition selection_get :: "selection_data \<Rightarrow> int \<Rightarrow> (throwable, int) result" where
  "selection_get d position =
     (if position < 0 \<or> int (sel_count d) \<le> position
      then if sel_count d = 0 then Inl (ArgValueError 1 ''must be a position in a non-empty selection'')
           else Inl (ArgValueError 1 (''must be between 0 and '' @ dec_string (sel_count d - 1)))
      else Inr (uint (selection d ! nat position)))"

definition selection_toArray :: "selection_data \<Rightarrow> int list" where
  "selection_toArray d = map uint (take (sel_count d) (selection d))"

section \<open>Validated selections\<close>

definition selection_ok :: "selection_data \<Rightarrow> bool" where
  "selection_ok d \<longleftrightarrow> length (selection d) = sel_count d
     \<and> (sel_count d \<noteq> 0 \<longrightarrow> max_index d \<in> unat ` set (selection d))
     \<and> (\<forall>x \<in> set (selection d). unat x \<le> max_index d)"

definition index_entry :: "zval \<Rightarrow> bool" where
  "index_entry v \<longleftrightarrow> (case deref v of Z_long n \<Rightarrow> 0 \<le> n \<and> n \<le> max_selection_index | _ \<Rightarrow> False)"

lemma validate_entries_Inr:
  "validate_entries arg es = Inr () \<longleftrightarrow> (\<forall>(k, v) \<in> set es. index_entry v)"
  by (induction arg es rule: validate_entries.induct) (auto simp: index_entry_def split: zval.splits)

lemma fill_selection_eq:
  "fill_selection es (out, m)
     = (out @ map (\<lambda>(k, v). of_nat (nat (long_value (deref v)))) es,
        foldl max m (map (\<lambda>(k, v). nat (long_value (deref v))) es))"
  by (induction es "(out, m)" arbitrary: out m rule: fill_selection.induct)
     (auto simp: Let_def max_def)

lemma foldl_max_mem: "foldl max m xs \<in> insert m (set xs)" for m :: nat
proof (induction xs arbitrary: m)
  case (Cons x xs)
  show ?case using Cons [of "max m x"] by (auto simp: max_def split: if_splits)
qed simp

lemma foldl_max_ge: "x \<in> insert m (set xs) \<Longrightarrow> x \<le> foldl max m xs" for m :: nat
proof (induction xs arbitrary: m x)
  case (Cons y xs)
  then consider "x = m" | "x = y" | "x \<in> set xs" by auto
  then show ?case
  proof cases
    case 1
    have "max m y \<le> foldl max (max m y) xs" by (rule Cons(1)) simp
    with 1 show ?thesis by simp
  next
    case 2
    have "max m y \<le> foldl max (max m y) xs" by (rule Cons(1)) simp
    with 2 show ?thesis by simp
  qed (use Cons(1) in simp)
qed simp

lemma index_entry_nonneg: "index_entry v \<Longrightarrow> 0 \<le> long_value (deref v)"
  by (cases "deref v") (auto simp: index_entry_def)

lemma index_entry_unat:
  "index_entry v \<Longrightarrow> unat (of_nat (nat (long_value (deref v))) :: u32) = nat (long_value (deref v))"
  by (auto simp: index_entry_def max_selection_index_def unat_of_nat split: zval.splits
      intro!: mod_less) 

lemma selection_from_list_ok:
  assumes "selection_from_list alloc es arg = Inr d"
  shows "zend_array_is_list es" "alloc" "\<forall>(k, v) \<in> set es. index_entry v" "selection_ok d"
    "selection_toArray d = map (\<lambda>(k, v). long_value (deref v)) es" "sel_count d = length es"
proof -
  let ?idx = "map (\<lambda>(k, v). nat (long_value (deref v))) es"
  from assms have l: "zend_array_is_list es" "alloc" "validate_entries arg es = Inr ()"
    and d: "d = \<lparr>selection = map of_nat ?idx, sel_count = length es, max_index = foldl max 0 ?idx\<rparr>"
    by (auto simp: selection_from_list_def rbind_eq_Inr fill_selection_eq comp_def split_def split: if_splits)
  show 1: "zend_array_is_list es" "alloc" by (fact l)+
  show v: "\<forall>(k, v) \<in> set es. index_entry v" using l(3) validate_entries_Inr by blast
  have u: "map (unat :: u32 \<Rightarrow> nat) (map of_nat ?idx) = ?idx"
    using v index_entry_unat by (auto simp: comp_def split_def)
  then have s: "unat ` set (selection d) = set ?idx" unfolding d by (metis list.set_map selection_data.select_convs(1))
  show "sel_count d = length es" using d by simp
  show "selection_ok d"
  proof -
    have "max_index d \<in> set ?idx" if "es \<noteq> []"
    proof -
      have "foldl max 0 ?idx \<in> insert 0 (set ?idx)" by (rule foldl_max_mem)
      moreover have "0 \<in> set ?idx" if "foldl max 0 ?idx = 0"
        using that \<open>es \<noteq> []\<close> foldl_max_ge [of "hd ?idx" 0 ?idx] hd_in_set [of ?idx] by fastforce
      ultimately show ?thesis using d by auto
    qed
    moreover have "\<forall>x \<in> set (selection d). unat x \<le> max_index d"
    proof
      fix x assume "x \<in> set (selection d)"
      then have "unat x \<in> set ?idx" using s by blast
      then show "unat x \<le> max_index d" using foldl_max_ge [of "unat x" 0 ?idx] d by simp
    qed
    ultimately show ?thesis using s d by (auto simp: selection_ok_def)
  qed
  have "map (uint :: u32 \<Rightarrow> int) (map of_nat ?idx) = map int (map unat (map of_nat ?idx :: u32 list))"
    by simp
  also have "\<dots> = map (\<lambda>(k, v). long_value (deref v)) es"
    unfolding u using v index_entry_nonneg by auto
  finally show "selection_toArray d = map (\<lambda>(k, v). long_value (deref v)) es"
    unfolding d by (simp add: selection_toArray_def)
qed

lemma selection_bound:
  assumes "selection_ok d"
  shows "duckdb_selection_check_source d n arg = Inr () \<longleftrightarrow> (\<forall>x \<in> set (selection d). unat x < n)"
  using assms
  unfolding selection_ok_def duckdb_selection_check_source_def
  by (auto intro: le_less_trans) (metis not_le)

text \<open>
  A selection built from a PHP list has exactly the listed indices in order, caches their
  largest one, and its bound check therefore accepts a source exactly when every index is a row
  of it. A list is refused unless it is sequential and holds only integers from 0 to
  \<open>UINT32_MAX - 1\<close>.
\<close>

theorem selection_from_list_correct:
  "(case selection_from_list True es arg of
      Inl err \<Rightarrow> \<not> (zend_array_is_list es \<and> (\<forall>(k, v) \<in> set es. index_entry v))
    | Inr d \<Rightarrow> zend_array_is_list es
        \<and> selection_toArray d = map (\<lambda>(k, v). long_value (deref v)) es
        \<and> selection_count d = int (length es)
        \<and> (duckdb_selection_check_source d n arg = Inr ()
             \<longleftrightarrow> (\<forall>i \<in> set (selection_toArray d). 0 \<le> i \<and> i < int n)))"
proof (cases "selection_from_list True es arg")
  case (Inl err)
  then show ?thesis
    using validate_entries_Inr [of arg es]
    by (cases "validate_entries arg es")
       (auto simp: selection_from_list_def fill_selection_eq split: if_splits)
next
  case (Inr d)
  note ok = selection_from_list_ok [OF Inr]
  have len: "length (selection d) = sel_count d" using ok(4) by (simp add: selection_ok_def)
  have u: "unat x < n \<longleftrightarrow> uint x < int n" for x :: u32
    using of_nat_less_iff [of "unat x" n, where 'a = int] by simp
  have "(\<forall>x \<in> set (selection d). unat x < n) \<longleftrightarrow> (\<forall>i \<in> set (selection_toArray d). 0 \<le> i \<and> i < int n)"
    using len u by (simp add: selection_toArray_def)
  with Inr ok selection_bound [OF ok(4), of n arg] show ?thesis by (simp add: selection_count_def)
qed

theorem selection_from_list_correct_witness:
  "selection_from_list True [(K_int 0, Z_long 3), (K_int 1, Z_reference (Z_long 1))] 1
     = Inr \<lparr>selection = [3, 1], sel_count = 2, max_index = 3\<rparr>
   \<and> duckdb_selection_check_source \<lparr>selection = [3, 1], sel_count = 2, max_index = 3\<rparr> 4 1 = Inr ()"
proof -
  have x: "selection_from_list True [(K_int 0, Z_long 3), (K_int 1, Z_reference (Z_long 1))] 1
     = Inr \<lparr>selection = [3, 1], sel_count = 2, max_index = 3\<rparr>"
    by (simp add: selection_from_list_def zend_array_is_list_def max_selection_index_def upt_rec)
  have "\<forall>i \<in> set (selection_toArray \<lparr>selection = [3, 1], sel_count = 2, max_index = 3\<rparr>). 0 \<le> i \<and> i < int 4"
    by (simp add: selection_toArray_def)
  with selection_from_list_correct [where es = "[(K_int 0, Z_long 3), (K_int 1, Z_reference (Z_long 1))]"
      and arg = 1 and n = 4] x
  show ?thesis by simp
qed

section \<open>Gathering rows\<close>

lemma place_length [simp]: "off + length new \<le> length old \<Longrightarrow> length (place off new old) = length old"
  by (simp add: place_def)

lemma copier_okD:
  assumes "copier_ok copy_sel" "src \<noteq> tgt" "so \<le> n" "n \<le> length sel"
    "\<And>i. so \<le> i \<Longrightarrow> i < n \<Longrightarrow> unat (sel ! i) < length (st src)" "to + (n - so) \<le> length (st tgt)"
  shows "copy_sel src tgt sel n so to st
    = st(tgt := place to (map (\<lambda>i. st src ! unat (sel ! i)) [so..<n]) (st tgt))"
  using assms unfolding copier_ok_def by blast

lemma copy_rows_correct:
  assumes "copier_ok copy_sel" "src \<noteq> tgt" "so + n \<le> length (st src)" "to + n \<le> length (st tgt)"
    "length (st src) < 2 ^ 32"
  shows "copy_rows copy_sel src tgt so n to st = st(tgt := place to (take n (drop so (st src))) (st tgt))"
proof (cases "n = 0")
  case True
  then show ?thesis by (simp add: copy_rows_def place_def)
next
  case False
  let ?sel = "replicate so 0 @ map of_nat [so..<so + n] :: u32 list"
  have u: "unat (of_nat i :: u32) = i" if "i < so + n" for i
    using that assms(3,5) by (simp add: unat_of_nat)
  have sel: "unat (?sel ! i) = i" if "so \<le> i" "i < so + n" for i
    using that u [of i] by (simp add: nth_append)
  have "copy_sel src tgt ?sel (so + n) so to st
      = st(tgt := place to (map (\<lambda>i. st src ! unat (?sel ! i)) [so..<so + n]) (st tgt))"
    using assms sel by (intro copier_okD) auto
  also have "map (\<lambda>i. st src ! unat (?sel ! i)) [so..<so + n] = take n (drop so (st src))"
    using sel assms(3) by (intro nth_equalityI) auto
  finally show ?thesis using False unfolding copy_rows_def by (simp only: if_False)
qed

lemma gather_correct:
  assumes "copier_ok copy_sel" "creator_ok create_vector" "selection_ok d"
    "\<forall>x \<in> set (selection d). unat x < length (st src)" "to + sel_count d \<le> length (st tgt)"
    "length (st tgt) < 2 ^ 32" "staged \<noteq> src" "staged \<noteq> tgt"
    "duckdb_selection_gather copy_sel create_vector staged src tgt d to st = (Inr (), st')"
  shows "st' tgt = place to (map (\<lambda>x. st src ! unat x) (selection d)) (st tgt)"
    "h \<noteq> tgt \<Longrightarrow> h \<noteq> staged \<Longrightarrow> st' h = st h"
proof -
  have len: "length (selection d) = sel_count d" using assms(3) by (simp add: selection_ok_def)
  have m: "map (\<lambda>i. r ! unat (selection d ! i)) [0..<sel_count d] = map (\<lambda>x. r ! unat x) (selection d)" for r
    by (intro nth_equalityI) (auto simp: len)
  have bnd: "unat (selection d ! i) < length (st src)" if "i < sel_count d" for i
    using assms(4) len that by simp
  have "st' = (if staged = staged \<and> src = tgt \<and> sel_count d \<noteq> 0 then st' else
      st(tgt := place to (map (\<lambda>x. st src ! unat x) (selection d)) (st tgt)))"
  proof (cases "sel_count d = 0")
    case True
    with assms(9) len show ?thesis by (simp add: duckdb_selection_gather_def place_def)
  next
    case False
    with assms(9) copier_okD [OF assms(1), of src tgt 0 "sel_count d" "selection d" st to] assms(5) bnd len
    show ?thesis by (auto simp: duckdb_selection_gather_def m [of "st src"])
  qed
  moreover have "st' tgt = place to (map (\<lambda>x. st src ! unat x) (selection d)) (st tgt)
      \<and> (h \<noteq> tgt \<longrightarrow> h \<noteq> staged \<longrightarrow> st' h = st h)" if self: "src = tgt" "sel_count d \<noteq> 0"
  proof -
    from assms(9) self obtain rows where r: "create_vector (sel_count d) = Some rows"
      and st': "st' = copy_rows copy_sel staged tgt 0 (sel_count d) to
          (copy_sel src staged (selection d) (sel_count d) 0 0 (st(staged := rows)))"
      by (auto simp: duckdb_selection_gather_def Let_def split: option.splits)
    have lr: "length rows = sel_count d" using r assms(2) by (auto simp: creator_ok_def)
    let ?g = "map (\<lambda>x. st src ! unat x) (selection d)"
    have "copy_sel src staged (selection d) (sel_count d) 0 0 (st(staged := rows))
        = (st(staged := rows))(staged := place 0 (map (\<lambda>i. (st(staged := rows)) src ! unat (selection d ! i))
            [0..<sel_count d]) ((st(staged := rows)) staged))"
      using assms(1,7) bnd len lr by (intro copier_okD) auto
    then have s1: "copy_sel src staged (selection d) (sel_count d) 0 0 (st(staged := rows)) = st(staged := ?g)"
      using assms(7) lr len by (simp add: place_def m [of "st src"])
    have "copy_rows copy_sel staged tgt 0 (sel_count d) to (st(staged := ?g))
        = (st(staged := ?g))(tgt := place to (take (sel_count d) (drop 0 ((st(staged := ?g)) staged))) ((st(staged := ?g)) tgt))"
      using assms len by (intro copy_rows_correct) auto
    with st' s1 len assms(8) show ?thesis by simp
  qed
  ultimately show "st' tgt = place to (map (\<lambda>x. st src ! unat x) (selection d)) (st tgt)"
    "h \<noteq> tgt \<Longrightarrow> h \<noteq> staged \<Longrightarrow> st' h = st h"
    by (cases "src = tgt \<and> sel_count d \<noteq> 0"; auto)+
qed

text \<open>
  A gather writes \<open>source[selection[i]]\<close> to \<open>target[offset + i]\<close>, reading the rows as they were
  before the call even when source and target are the same vector, and changes no other vector
  than the target (and the staging vector it created).
\<close>

theorem selection_gather_correct:
  assumes "copier_ok copy_sel" and "creator_ok create_vector" and "selection_ok d"
    and "duckdb_selection_check_source d (length (st src)) arg = Inr ()"
    and "to + sel_count d \<le> length (st tgt)" and "length (st tgt) < 2 ^ 32"
    and "staged \<noteq> src" and "staged \<noteq> tgt"
    and "duckdb_selection_gather copy_sel create_vector staged src tgt d to st = (Inr (), st')"
  shows "st' tgt = place to (map (\<lambda>x. st src ! unat x) (selection d)) (st tgt)
    \<and> (\<forall>h. h \<noteq> tgt \<longrightarrow> h \<noteq> staged \<longrightarrow> st' h = st h)"
  using gather_correct [OF assms(1-3) _ assms(5-9)] assms(4) selection_bound [OF assms(3)] by blast

text \<open>A copier and a constructor with the documented behaviour.\<close>

definition sample_copier :: "'c copier" where
  "sample_copier src tgt sel n so to st =
     st(tgt := place to (map (\<lambda>i. st src ! unat (sel ! i)) [so..<n]) (st tgt))"

definition sample_creator :: "'c creator" where
  "sample_creator n = Some (replicate n None)"

lemma sample_engine_vectors: "copier_ok sample_copier" "creator_ok sample_creator"
  by (auto simp: copier_ok_def creator_ok_def sample_copier_def sample_creator_def)

theorem selection_gather_correct_witness:
  "\<exists>st'. duckdb_selection_gather sample_copier sample_creator 9 1 1
        \<lparr>selection = [0, 1], sel_count = 2, max_index = 1\<rparr> 1 ((\<lambda>h. [])(1 := [Some (10 :: int), None, Some 30])) = (Inr (), st')
     \<and> st' 1 = [Some 10, Some 10, None]"
proof -
  let ?d = "\<lparr>selection = [0, 1], sel_count = 2, max_index = 1\<rparr>"
  let ?st = "(\<lambda>h. [])(1 := [Some (10 :: int), None, Some 30]) :: int store"
  obtain st' where g: "duckdb_selection_gather sample_copier sample_creator 9 1 1 ?d 1 ?st = (Inr (), st')"
    by (simp add: duckdb_selection_gather_def sample_creator_def Let_def)
  have d: "selection_ok ?d" by (simp add: selection_ok_def)
  have "duckdb_selection_check_source ?d (length (?st 1)) 1 = Inr ()"
    by (simp add: duckdb_selection_check_source_def)
  from selection_gather_correct [OF sample_engine_vectors d this _ _ _ _ g] g show ?thesis
    by (simp add: place_def)
qed

end
