(* ===== verification/Vectors.thy ===== *)
theory Vectors
  imports Prelude Errors Logical_Type Php_Value Type_Classes Log_Storage Selection
begin

text \<open>
  Owned flat vectors, \<open>src/src/vector.cpp\<close>: the fast write path for plain scalars, conversion of
  everything else in batches, the all-or-nothing write of several rows, range checks, and the
  methods. The store of native vectors, the copier and the constructor are those of \<open>Selection\<close>.
  A converted value has type \<open>'v\<close>.
\<close>

section \<open>Fast cells\<close>

text \<open>What a fast write stores: a machine value of the column's width, or the bytes of a string.\<close>

datatype fast_cell =
    C_bool bool
  | C_i8 "8 word" | C_i16 "16 word" | C_i32 "32 word" | C_i64 "64 word"
  | C_u8 "8 word" | C_u16 "16 word" | C_u32 "32 word" | C_u64 "64 word"
  | C_f64 u64
  | C_string string

datatype 'v cell = Fast fast_cell | Native 'v

text \<open>\<open>fits<T>\<close> for a signed or unsigned \<open>T\<close> of \<open>w\<close> bits.\<close>

definition fits_type :: "bool \<Rightarrow> nat \<Rightarrow> int \<Rightarrow> bool" where
  "fits_type is_signed w n =
     (if n < 0 \<and> \<not> is_signed then False
      else if is_signed then - (2 ^ (w - 1)) \<le> n \<and> n \<le> 2 ^ (w - 1) - 1
      else n \<le> 2 ^ w - 1)"

definition duckdb_vector_can_write_fast :: "(string \<Rightarrow> bool) \<Rightarrow> vector_fast_kind \<Rightarrow> zval \<Rightarrow> bool" where
  "duckdb_vector_can_write_fast valid_utf8 kind v =
     (case kind of
        FK_boolean \<Rightarrow> (case v of Z_bool b \<Rightarrow> True | _ \<Rightarrow> False)
      | FK_int8 \<Rightarrow> (case v of Z_long n \<Rightarrow> fits_type True 8 n | _ \<Rightarrow> False)
      | FK_int16 \<Rightarrow> (case v of Z_long n \<Rightarrow> fits_type True 16 n | _ \<Rightarrow> False)
      | FK_int32 \<Rightarrow> (case v of Z_long n \<Rightarrow> fits_type True 32 n | _ \<Rightarrow> False)
      | FK_int64 \<Rightarrow> (case v of Z_long n \<Rightarrow> True | _ \<Rightarrow> False)
      | FK_uint8 \<Rightarrow> (case v of Z_long n \<Rightarrow> fits_type False 8 n | _ \<Rightarrow> False)
      | FK_uint16 \<Rightarrow> (case v of Z_long n \<Rightarrow> fits_type False 16 n | _ \<Rightarrow> False)
      | FK_uint32 \<Rightarrow> (case v of Z_long n \<Rightarrow> fits_type False 32 n | _ \<Rightarrow> False)
      | FK_uint64 \<Rightarrow> (case v of Z_long n \<Rightarrow> n \<ge> 0 | _ \<Rightarrow> False)
      | FK_float64 \<Rightarrow> (case v of Z_double d \<Rightarrow> True | _ \<Rightarrow> False)
      | FK_varchar \<Rightarrow> (case v of Z_string s \<Rightarrow> nul \<notin> set s \<and> valid_utf8 s | _ \<Rightarrow> False)
      | FK_blob \<Rightarrow> (case v of Z_string s \<Rightarrow> True | _ \<Rightarrow> False)
      | FK_none \<Rightarrow> False)"

text \<open>\<open>Z_LVAL\<close>, \<open>Z_DVAL\<close> and \<open>Z_STR\<close> of a value the check above accepted.\<close>

fun z_lval :: "zval \<Rightarrow> int" where "z_lval (Z_long n) = n" | "z_lval _ = 0"
fun z_dval :: "zval \<Rightarrow> u64" where "z_dval (Z_double d) = d" | "z_dval _ = 0"
fun z_str :: "zval \<Rightarrow> string" where "z_str (Z_string s) = s" | "z_str _ = []"

definition duckdb_vector_write_fast :: "vector_fast_kind \<Rightarrow> zval \<Rightarrow> fast_cell option" where
  "duckdb_vector_write_fast kind v =
     (case kind of
        FK_boolean \<Rightarrow> Some (C_bool (v = Z_bool True))
      | FK_int8 \<Rightarrow> Some (C_i8 (of_int (z_lval v)))
      | FK_int16 \<Rightarrow> Some (C_i16 (of_int (z_lval v)))
      | FK_int32 \<Rightarrow> Some (C_i32 (of_int (z_lval v)))
      | FK_int64 \<Rightarrow> Some (C_i64 (of_int (z_lval v)))
      | FK_uint8 \<Rightarrow> Some (C_u8 (of_int (z_lval v)))
      | FK_uint16 \<Rightarrow> Some (C_u16 (of_int (z_lval v)))
      | FK_uint32 \<Rightarrow> Some (C_u32 (of_int (z_lval v)))
      | FK_uint64 \<Rightarrow> Some (C_u64 (of_int (z_lval v)))
      | FK_float64 \<Rightarrow> Some (C_f64 (z_dval v))
      | FK_varchar \<Rightarrow> Some (C_string (z_str v))
      | FK_blob \<Rightarrow> Some (C_string (z_str v))
      | FK_none \<Rightarrow> None)"

text \<open>The PHP value a stored cell stands for.\<close>

fun cell_value :: "fast_cell \<Rightarrow> zval" where
  "cell_value (C_bool b) = Z_bool b"
| "cell_value (C_i8 w) = Z_long (sint w)"
| "cell_value (C_i16 w) = Z_long (sint w)"
| "cell_value (C_i32 w) = Z_long (sint w)"
| "cell_value (C_i64 w) = Z_long (sint w)"
| "cell_value (C_u8 w) = Z_long (uint w)"
| "cell_value (C_u16 w) = Z_long (uint w)"
| "cell_value (C_u32 w) = Z_long (uint w)"
| "cell_value (C_u64 w) = Z_long (uint w)"
| "cell_value (C_f64 d) = Z_double d"
| "cell_value (C_string s) = Z_string s"

section \<open>Vectors and the engine\<close>

record vector_data =
  vd_vector :: nat
  vd_type :: ltype
  vd_declaration :: string
  vd_capacity :: nat
  vd_fast :: vector_fast_kind

text \<open>
  The services a write uses: the engine's UTF-8 check, \<open>duckdb_convert_values\<close>, the type of a
  converted value, and whether entering the connection or allocating the constant vector is
  refused. \<open>native_row\<close> is the row a converted value becomes: a NULL value is a NULL row.
\<close>

record 'v services =
  valid_utf8 :: "string \<Rightarrow> bool"
  date_init :: date_parser
  convert_values :: "zval list \<Rightarrow> (throwable, 'v list) result"
  value_type :: "'v \<Rightarrow> ltype"
  native_row :: "'v \<Rightarrow> 'v cell option"
  enter_refused :: "throwable option"
  constant_allocates :: bool

section \<open>Conversion\<close>

definition conversion_batch :: nat where "conversion_batch = 1024"

fun wrap_inputs :: "'v services \<Rightarrow> string \<Rightarrow> zval list \<Rightarrow> (throwable, zval list) result" where
  "wrap_inputs sv decl [] = Inr []"
| "wrap_inputs sv decl (v # vs) =
     rbind (duckdb_value_initialize (date_init sv) create decl v) (\<lambda>obj.
     rbind (wrap_inputs sv decl vs) (\<lambda>rest. Inr (Z_value (vo_type obj) (vo_input obj) # rest)))"

fun check_types :: "'v services \<Rightarrow> vector_data \<Rightarrow> 'v list \<Rightarrow> (throwable, 'v list) result" where
  "check_types sv d [] = Inr []"
| "check_types sv d (v # vs) =
     (if \<not> duckdb_vector_types_equal (value_type sv v) (vd_type d)
      then Inl (duckdb_throw_error E_Conversion
             (Some (''Converted '' @ duckdb_logical_type_render (value_type sv v) @ '' value does not match the ''
                    @ duckdb_logical_type_render (vd_type d) @ '' vector type'')))
      else rbind (check_types sv d vs) (\<lambda>rest. Inr (v # rest)))"

definition convert_batch :: "'v services \<Rightarrow> vector_data \<Rightarrow> zval list \<Rightarrow> (throwable, 'v list) result" where
  "convert_batch sv d inputs =
     rbind (wrap_inputs sv (vd_declaration d) inputs) (\<lambda>ws.
     rbind (convert_values sv ws) (check_types sv d))"

function convert_inputs :: "'v services \<Rightarrow> vector_data \<Rightarrow> zval list \<Rightarrow> (throwable, 'v list) result" where
  "convert_inputs sv d inputs =
     (if inputs = [] then Inr []
      else rbind (convert_batch sv d (take conversion_batch inputs)) (\<lambda>vs.
           rbind (convert_inputs sv d (drop conversion_batch inputs)) (\<lambda>rest. Inr (vs @ rest))))"
  by pat_completeness auto
termination
  by (relation "measure (\<lambda>(sv, d, inputs). length inputs)") (auto simp: conversion_batch_def)

declare convert_inputs.simps [simp del]

section \<open>Writing rows\<close>

datatype pending_write = P_null nat | P_fast nat zval | P_converted nat nat

fun classify ::
    "'v services \<Rightarrow> vector_fast_kind \<Rightarrow> (nat \<times> zval) list \<Rightarrow> zval list \<Rightarrow> pending_write list \<times> zval list" where
  "classify sv kind [] inputs = ([], inputs)"
| "classify sv kind ((row, v) # ws) inputs =
     (if deref v = Z_null then (case classify sv kind ws inputs of (ps, is) \<Rightarrow> (P_null row # ps, is))
      else if duckdb_vector_can_write_fast (valid_utf8 sv) kind (deref v)
      then (case classify sv kind ws inputs of (ps, is) \<Rightarrow> (P_fast row (deref v) # ps, is))
      else (case classify sv kind ws (inputs @ [deref v]) of
              (ps, is) \<Rightarrow> (P_converted row (length inputs) # ps, is)))"

fun write_rows :: "vector_fast_kind \<Rightarrow> 'v list \<Rightarrow> pending_write list \<Rightarrow> 'v cell rows
    \<Rightarrow> 'v cell rows \<times> (nat \<times> 'v) list" where
  "write_rows kind vs [] rows = (rows, [])"
| "write_rows kind vs (P_null r # ps) rows = write_rows kind vs ps (rows[r := None])"
| "write_rows kind vs (P_fast r v # ps) rows =
     write_rows kind vs ps (rows[r := map_option Fast (duckdb_vector_write_fast kind v)])"
| "write_rows kind vs (P_converted r i # ps) rows =
     (case write_rows kind vs ps rows of (rows', copies) \<Rightarrow> (rows', (r, vs ! i) # copies))"

fun write_converted :: "'v services \<Rightarrow> (nat \<times> 'v) list \<Rightarrow> 'v cell rows \<Rightarrow> 'v cell rows" where
  "write_converted sv [] rows = rows"
| "write_converted sv ((r, v) # copies) rows = write_converted sv copies (rows[r := native_row sv v])"

definition write_values ::
    "'v services \<Rightarrow> vector_data \<Rightarrow> (nat \<times> zval) list \<Rightarrow> 'v cell store
      \<Rightarrow> (throwable, unit) result \<times> 'v cell store" where
  "write_values sv d writes st =
     (case classify sv (vd_fast d) writes [] of
        (ps, inputs) \<Rightarrow>
          (case (if inputs = [] then Inr []
                 else case enter_refused sv of
                        Some err \<Rightarrow> Inl err
                      | None \<Rightarrow> convert_inputs sv d inputs) of
             Inl err \<Rightarrow> (Inl err, st)
           | Inr vs \<Rightarrow>
               (case write_rows (vd_fast d) vs ps (st (vd_vector d)) of
                  (rows, copies) \<Rightarrow>
                    if copies \<noteq> [] \<and> \<not> constant_allocates sv
                    then (Inl (duckdb_throw_msg (Some ''std::bad_alloc'')), st(vd_vector d := rows))
                    else (Inr (), st(vd_vector d := write_converted sv copies rows)))))"

section \<open>Ranges\<close>

definition check_row :: "vector_data \<Rightarrow> int \<Rightarrow> nat \<Rightarrow> (throwable, unit) result" where
  "check_row d row arg =
     (if row < 0 \<or> int (vd_capacity d) \<le> row
      then if vd_capacity d = 0 then Inl (ArgValueError arg ''must be a row of a non-empty vector'')
           else Inl (ArgValueError arg (''must be between 0 and '' @ dec_string (vd_capacity d - 1)))
      else Inr ())"

definition check_range :: "vector_data \<Rightarrow> int \<Rightarrow> nat \<Rightarrow> nat \<Rightarrow> (throwable, unit) result" where
  "check_range d off n arg =
     (if off < 0 \<or> int (vd_capacity d) < off \<or> vd_capacity d - nat off < n
      then Inl (ArgValueError arg (''must leave the range within the vector capacity of '' @ dec_string (vd_capacity d)))
      else Inr ())"

definition duckdb_vector_allocate ::
    "'c creator \<Rightarrow> nat \<Rightarrow> ltype \<Rightarrow> nat \<Rightarrow> 'c store \<Rightarrow> (throwable, vector_data \<times> 'c store) result" where
  "duckdb_vector_allocate create_vector fresh t n st =
     (case create_vector n of
        None \<Rightarrow> Inl (duckdb_throw_msg (Some ''DuckDB could not allocate the vector''))
      | Some rows \<Rightarrow>
          (case duckdb_logical_type_sql t of
             Inl e \<Rightarrow> Inl (duckdb_throw_msg (Some e))
           | Inr decl \<Rightarrow> Inr (\<lparr>vd_vector = fresh, vd_type = t, vd_declaration = decl, vd_capacity = n,
                                vd_fast = duckdb_vector_fast_kind t\<rparr>, st(fresh := rows))))"

section \<open>Methods\<close>

text \<open>
  \<open>Connection::createVector\<close>: the declaration is resolved by converting a typed NULL on the
  connection, and the converted value initializes every row. \<open>fresh\<close> and \<open>constant\<close> are the
  handles of the two vectors it creates; \<open>conn_closed\<close> is what the connection guard throws.
\<close>

definition max_vector_capacity :: int where "max_vector_capacity = 2 ^ 32 - 1"

definition null_values :: "'v services \<Rightarrow> string \<Rightarrow> (throwable, 'v list) result" where
  "null_values sv decl =
     (case enter_refused sv of
        Some err \<Rightarrow> Inl err
      | None \<Rightarrow> rbind (wrap_inputs sv decl [Z_null]) (convert_values sv))"

definition createVector ::
    "'v services \<Rightarrow> 'v cell copier \<Rightarrow> 'v cell creator \<Rightarrow> nat \<Rightarrow> nat \<Rightarrow> throwable option \<Rightarrow> nat \<Rightarrow> zval \<Rightarrow> int option
      \<Rightarrow> 'v cell store \<Rightarrow> (throwable, vector_data) result \<times> 'v cell store" where
  "createVector sv copy_sel create_vector fresh constant conn_closed vector_size type_arg capacity_arg st =
     (let cap = (case capacity_arg of None \<Rightarrow> int vector_size | Some c \<Rightarrow> c) in
      if cap < 0 \<or> max_vector_capacity < cap
      then (Inl (ArgValueError 2 (''must be between 0 and '' @ dec_int max_vector_capacity)), st)
      else case rbind (type_spec type_arg) (\<lambda>decl.
             case conn_closed of Some err \<Rightarrow> Inl err | None \<Rightarrow> null_values sv decl) of
        Inl err \<Rightarrow> (Inl err, st)
      | Inr vs \<Rightarrow>
          (case duckdb_vector_allocate create_vector fresh (value_type sv (hd vs)) (nat cap) st of
             Inl err \<Rightarrow> (Inl err, st)
           | Inr (d, st1) \<Rightarrow>
               if cap = 0 then (Inr d, st1)
               else (case create_vector 1 of
                   None \<Rightarrow> (Inl (duckdb_throw_msg (Some ''std::bad_alloc'')), st1)
                 | Some rows \<Rightarrow>
                     (Inr d, copy_sel constant fresh (replicate (nat cap) 0) (nat cap) 0 0
                               (st1(constant := [native_row sv (hd vs)]))))))"

definition vector_isNull :: "vector_data \<Rightarrow> 'c store \<Rightarrow> int \<Rightarrow> (throwable, bool) result" where
  "vector_isNull d st row =
     rbind (check_row d row 1) (\<lambda>_. Inr (st (vd_vector d) ! nat row = None))"

definition vector_set ::
    "'v services \<Rightarrow> throwable option \<Rightarrow> vector_data \<Rightarrow> int \<Rightarrow> zval \<Rightarrow> 'v cell store
      \<Rightarrow> (throwable, unit) result \<times> 'v cell store" where
  "vector_set sv closed d row v st =
     (case check_row d row 2 of
        Inl err \<Rightarrow> (Inl err, st)
      | Inr _ \<Rightarrow> (case closed of
            Some err \<Rightarrow> (Inl err, st)
          | None \<Rightarrow> write_values sv d [(nat row, v)] st))"

definition vector_setValues ::
    "'v services \<Rightarrow> throwable option \<Rightarrow> vector_data \<Rightarrow> (php_key \<times> zval) list \<Rightarrow> int \<Rightarrow> 'v cell store
      \<Rightarrow> (throwable, unit) result \<times> 'v cell store" where
  "vector_setValues sv closed d vals off st =
     (if \<not> zend_array_is_list vals then (Inl (ArgValueError 2 ''must be a list''), st)
      else case check_range d off (length vals) 3 of
        Inl err \<Rightarrow> (Inl err, st)
      | Inr _ \<Rightarrow> (case closed of
            Some err \<Rightarrow> (Inl err, st)
          | None \<Rightarrow> write_values sv d (zip [nat off..<nat off + length vals] (map snd vals)) st))"

definition vector_setNull :: "vector_data \<Rightarrow> int \<Rightarrow> 'c store \<Rightarrow> (throwable, unit) result \<times> 'c store" where
  "vector_setNull d row st =
     (case check_row d row 1 of
        Inl err \<Rightarrow> (Inl err, st)
      | Inr _ \<Rightarrow> (Inr (), st(vd_vector d := (st (vd_vector d))[nat row := None])))"

definition type_mismatch :: "vector_data \<Rightarrow> vector_data \<Rightarrow> throwable" where
  "type_mismatch src tgt =
     ArgTypeError 1 (''must have type '' @ duckdb_logical_type_render (vd_type tgt) @ '', ''
       @ duckdb_logical_type_render (vd_type src) @ '' given'')"

definition vector_copyFrom ::
    "'c copier \<Rightarrow> 'c creator \<Rightarrow> nat \<Rightarrow> vector_data \<Rightarrow> vector_data \<Rightarrow> int \<Rightarrow> int option \<Rightarrow> int \<Rightarrow> 'c store
      \<Rightarrow> (throwable, unit) result \<times> 'c store" where
  "vector_copyFrom copy_sel create_vector staged tgt src src_off n tgt_off st =
     (if src_off < 0 \<or> int (vd_capacity src) < src_off
      then (Inl (ArgValueError 2 (''must be between 0 and '' @ dec_string (vd_capacity src))), st)
      else let cnt = (case n of None \<Rightarrow> int (vd_capacity src - nat src_off) | Some c \<Rightarrow> c)
      in if cnt < 0 then (Inl (ArgValueError 3 ''must be greater than or equal to 0''), st)
      else case rbind (check_range src src_off (nat cnt) 3) (\<lambda>_. check_range tgt tgt_off (nat cnt) 4) of
        Inl err \<Rightarrow> (Inl err, st)
      | Inr _ \<Rightarrow>
          if \<not> duckdb_vector_types_equal (vd_type src) (vd_type tgt) then (Inl (type_mismatch src tgt), st)
          else if vd_vector src = vd_vector tgt
          then (case duckdb_vector_allocate create_vector staged (vd_type src) (nat cnt) st of
              Inl err \<Rightarrow> (Inl err, st)
            | Inr (d, st1) \<Rightarrow>
                let st2 = copy_rows copy_sel (vd_vector src) (vd_vector d) (nat src_off) (nat cnt) 0 st1
                in (Inr (), copy_rows copy_sel (vd_vector d) (vd_vector tgt) 0 (nat cnt) (nat tgt_off) st2))
          else (Inr (), copy_rows copy_sel (vd_vector src) (vd_vector tgt) (nat src_off) (nat cnt) (nat tgt_off) st))"

definition vector_select ::
    "'c copier \<Rightarrow> 'c creator \<Rightarrow> nat \<Rightarrow> nat \<Rightarrow> (throwable, selection_data) result \<Rightarrow> vector_data \<Rightarrow> 'c store
      \<Rightarrow> (throwable, vector_data) result \<times> 'c store" where
  "vector_select copy_sel create_vector fresh staged sel src st =
     (case rbind sel (\<lambda>s. rbind (duckdb_selection_check_source s (vd_capacity src) 1) (\<lambda>_. Inr s)) of
        Inl err \<Rightarrow> (Inl err, st)
      | Inr s \<Rightarrow>
          (case duckdb_vector_allocate create_vector fresh (vd_type src) (sel_count s) st of
             Inl err \<Rightarrow> (Inl err, st)
           | Inr (d, st1) \<Rightarrow>
               (case duckdb_selection_gather copy_sel create_vector staged (vd_vector src) (vd_vector d) s 0 st1 of
                  (Inl err, st2) \<Rightarrow> (Inl err, st2)
                | (Inr _, st2) \<Rightarrow> (Inr d, st2))))"

definition vector_copySelected ::
    "'c copier \<Rightarrow> 'c creator \<Rightarrow> nat \<Rightarrow> (throwable, selection_data) result \<Rightarrow> vector_data \<Rightarrow> vector_data
      \<Rightarrow> int \<Rightarrow> 'c store \<Rightarrow> (throwable, unit) result \<times> 'c store" where
  "vector_copySelected copy_sel create_vector staged sel tgt src off st =
     (case rbind sel (\<lambda>s. rbind (duckdb_selection_check_source s (vd_capacity src) 2) (\<lambda>_.
             rbind (check_range tgt off (sel_count s) 3) (\<lambda>_. Inr s))) of
        Inl err \<Rightarrow> (Inl err, st)
      | Inr s \<Rightarrow>
          if \<not> duckdb_vector_types_equal (vd_type src) (vd_type tgt) then (Inl (type_mismatch src tgt), st)
          else duckdb_selection_gather copy_sel create_vector staged (vd_vector src) (vd_vector tgt) s (nat off) st)"

text \<open>
  \<open>get\<close> and \<open>toArray\<close>; \<open>decode\<close> is \<open>duckdb_decode_vector_value\<close>.
\<close>

definition vector_get ::
    "('c option \<Rightarrow> (throwable, zval) result) \<Rightarrow> vector_data \<Rightarrow> 'c store \<Rightarrow> int \<Rightarrow> (throwable, zval) result" where
  "vector_get decode d st row = rbind (check_row d row 1) (\<lambda>_. decode (st (vd_vector d) ! nat row))"

fun decode_rows :: "('c option \<Rightarrow> (throwable, zval) result) \<Rightarrow> 'c rows \<Rightarrow> (throwable, zval list) result" where
  "decode_rows decode [] = Inr []"
| "decode_rows decode (r # rs) =
     rbind (decode r) (\<lambda>v. rbind (decode_rows decode rs) (\<lambda>vs. Inr (v # vs)))"

definition vector_toArray ::
    "('c option \<Rightarrow> (throwable, zval) result) \<Rightarrow> vector_data \<Rightarrow> 'c store \<Rightarrow> int \<Rightarrow> int option
      \<Rightarrow> (throwable, zval list) result" where
  "vector_toArray decode d st off len =
     (if off < 0 \<or> int (vd_capacity d) < off
      then Inl (ArgValueError 1 (''must be between 0 and '' @ dec_string (vd_capacity d)))
      else let n = (case len of None \<Rightarrow> int (vd_capacity d - nat off) | Some l \<Rightarrow> l)
      in if n < 0 then Inl (ArgValueError 2 ''must be greater than or equal to 0'')
      else rbind (check_range d off (nat n) 2) (\<lambda>_.
             decode_rows decode (take (nat n) (drop (nat off) (st (vd_vector d))))))"


section \<open>The fast path is exact\<close>

definition php_zval :: "zval \<Rightarrow> bool" where
  "php_zval v = (case v of Z_long n \<Rightarrow> - (2 ^ 63) \<le> n \<and> n < 2 ^ 63 | _ \<Rightarrow> True)"

lemma sint_of_int_iff:
  "sint (of_int n :: 8 word) = n \<longleftrightarrow> - 128 \<le> n \<and> n \<le> 127"
  "sint (of_int n :: 16 word) = n \<longleftrightarrow> - 32768 \<le> n \<and> n \<le> 32767"
  "sint (of_int n :: 32 word) = n \<longleftrightarrow> - 2147483648 \<le> n \<and> n \<le> 2147483647"
  "sint (of_int n :: 64 word) = n \<longleftrightarrow> - (2 ^ 63) \<le> n \<and> n < 2 ^ 63"
  by (auto simp: signed_of_int signed_take_bit_int_eq_self_iff)

lemma uint_of_int_iff:
  "uint (of_int n :: 'w::len word) = n \<longleftrightarrow> 0 \<le> n \<and> n < 2 ^ LENGTH('w)"
  by (simp add: unsigned_of_int take_bit_int_eq_self_iff)

text \<open>
  C22. The fast path of a vector takes a value exactly when the cell it would write stands for
  that same value (and, in a VARCHAR, the text has no NUL byte and is valid UTF-8): every other
  value goes to typed conversion.
\<close>

theorem fast_path_exact:
  assumes "php_zval v"
  shows "duckdb_vector_can_write_fast u kind v
    \<longleftrightarrow> (\<exists>c. duckdb_vector_write_fast kind v = Some c \<and> cell_value c = v)
       \<and> (kind = FK_varchar \<longrightarrow> nul \<notin> set (z_str v) \<and> u (z_str v))"
proof (cases v)
  case (Z_long n)
  with assms have r: "- (2 ^ 63) \<le> n" "n < 2 ^ 63" by (simp_all add: php_zval_def)
  show ?thesis
    using r unfolding Z_long
    by (cases kind) (auto simp: duckdb_vector_can_write_fast_def duckdb_vector_write_fast_def fits_type_def
        sint_of_int_iff uint_of_int_iff)
qed (cases kind; auto simp: duckdb_vector_can_write_fast_def duckdb_vector_write_fast_def)+

theorem fast_path_exact_witness:
  "\<not> duckdb_vector_can_write_fast (\<lambda>s. True) FK_int8 (Z_long 200)
   \<and> duckdb_vector_can_write_fast (\<lambda>s. True) FK_uint8 (Z_long 200)"
  using fast_path_exact [of "Z_long 200" "\<lambda>s. True" FK_int8] fast_path_exact [of "Z_long 200" "\<lambda>s. True" FK_uint8]
  by (simp add: php_zval_def duckdb_vector_write_fast_def sint_of_int_iff uint_of_int_iff)


section \<open>Writes of several rows\<close>

definition is_fast_input :: "'v services \<Rightarrow> vector_fast_kind \<Rightarrow> zval \<Rightarrow> bool" where
  "is_fast_input sv kind v \<longleftrightarrow> duckdb_vector_can_write_fast (valid_utf8 sv) kind (deref v)"

definition is_slow_input :: "'v services \<Rightarrow> vector_fast_kind \<Rightarrow> zval \<Rightarrow> bool" where
  "is_slow_input sv kind v \<longleftrightarrow> deref v \<noteq> Z_null \<and> \<not> is_fast_input sv kind v"

definition slow_inputs :: "'v services \<Rightarrow> vector_fast_kind \<Rightarrow> (nat \<times> zval) list \<Rightarrow> zval list" where
  "slow_inputs sv kind ws = map (deref \<circ> snd) (filter (is_slow_input sv kind \<circ> snd) ws)"

definition classified :: "'v services \<Rightarrow> vector_fast_kind \<Rightarrow> nat \<times> zval \<Rightarrow> nat \<Rightarrow> pending_write" where
  "classified sv kind w k =
     (if deref (snd w) = Z_null then P_null (fst w)
      else if is_fast_input sv kind (snd w) then P_fast (fst w) (deref (snd w))
      else P_converted (fst w) k)"

fun write_row :: "pending_write \<Rightarrow> nat" where
  "write_row (P_null r) = r" | "write_row (P_fast r v) = r" | "write_row (P_converted r i) = r"

lemma classify_inputs: "snd (classify sv kind ws inputs) = inputs @ slow_inputs sv kind ws"
  by (induction ws arbitrary: inputs)
     (auto simp: slow_inputs_def is_slow_input_def is_fast_input_def split_beta)

lemma classify_length: "length (fst (classify sv kind ws inputs)) = length ws"
  by (induction ws arbitrary: inputs) (auto simp: split_beta)

lemma classify_nth:
  "i < length ws \<Longrightarrow> fst (classify sv kind ws inputs) ! i
     = classified sv kind (ws ! i) (length inputs + length (slow_inputs sv kind (take i ws)))"
proof (induction ws arbitrary: i inputs)
  case (Cons w ws)
  show ?case
  proof (cases i)
    case 0
    then show ?thesis
      by (cases w) (simp add: classified_def is_fast_input_def slow_inputs_def split_beta)
  next
    case (Suc j)
    with Cons show ?thesis
      by (cases w) (simp add: slow_inputs_def is_slow_input_def is_fast_input_def split_beta)
  qed
qed simp

lemma classify_rows: "map write_row (fst (classify sv kind ws inputs)) = map fst ws"
  by (intro nth_equalityI) (auto simp: classify_length classify_nth classified_def)

fun copies_of :: "'v list \<Rightarrow> pending_write list \<Rightarrow> (nat \<times> 'v) list" where
  "copies_of vs [] = []"
| "copies_of vs (P_converted r i # ps) = (r, vs ! i) # copies_of vs ps"
| "copies_of vs (p # ps) = copies_of vs ps"

lemma write_rows_copies: "snd (write_rows kind vs ps rows) = copies_of vs ps"
  by (induction kind vs ps rows rule: write_rows.induct) (auto split: prod.splits)

lemma copies_of_rows: "fst ` set (copies_of vs ps) \<subseteq> write_row ` set ps"
  by (induction vs ps rule: copies_of.induct) auto

lemma copies_of_mem: "(r, v) \<in> set (copies_of vs ps) \<longleftrightarrow> (\<exists>i. P_converted r i \<in> set ps \<and> v = vs ! i)"
  by (induction vs ps rule: copies_of.induct) auto

lemma copies_of_distinct: "distinct (map write_row ps) \<Longrightarrow> distinct (map fst (copies_of vs ps))"
  using copies_of_rows by (induction vs ps rule: copies_of.induct) fastforce+

lemma write_rows_length [simp]: "length (fst (write_rows kind vs ps rows)) = length rows"
  by (induction kind vs ps rows rule: write_rows.induct) (auto split: prod.splits)

lemma write_rows_other:
  "(\<And>p. p \<in> set ps \<Longrightarrow> write_row p = r \<Longrightarrow> \<exists>i. p = P_converted r i)
     \<Longrightarrow> fst (write_rows kind vs ps rows) ! r = rows ! r"
proof (induction kind vs ps rows rule: write_rows.induct)
  case (2 kind vs q ps rows)
  then have "q \<noteq> r" by (metis list.set_intros(1) pending_write.distinct(3) write_row.simps(1))
  with 2 show ?case by simp
next
  case (3 kind vs q v ps rows)
  then have "q \<noteq> r" by (metis list.set_intros(1) pending_write.distinct(5) write_row.simps(2))
  with 3 show ?case by simp
qed (auto split: prod.splits)

definition direct_cell :: "vector_fast_kind \<Rightarrow> pending_write \<Rightarrow> 'v cell option" where
  "direct_cell kind p =
     (case p of P_fast r v \<Rightarrow> map_option Fast (duckdb_vector_write_fast kind v) | _ \<Rightarrow> None)"

lemma write_rows_direct:
  assumes "distinct (map write_row ps)" "p \<in> set ps" "\<And>r i. p \<noteq> P_converted r i" "write_row p < length rows"
  shows "fst (write_rows kind vs ps rows) ! write_row p = direct_cell kind p"
  using assms
proof (induction kind vs ps rows rule: write_rows.induct)
  case (2 kind vs q ps rows)
  show ?case
  proof (cases "p = P_null q")
    case True
    have "fst (write_rows kind vs ps (rows[q := None])) ! q = rows[q := None] ! q"
      by (rule write_rows_other) (use 2(2) in force)
    with True 2(5) show ?thesis by (simp add: direct_cell_def)
  qed (use 2 in auto)
next
  case (3 kind vs q v ps rows)
  let ?rows = "rows[q := map_option Fast (duckdb_vector_write_fast kind v)]"
  show ?case
  proof (cases "p = P_fast q v")
    case True
    have "fst (write_rows kind vs ps ?rows) ! q = ?rows ! q"
      by (rule write_rows_other) (use 3(2) in force)
    with True 3(5) show ?thesis by (simp add: direct_cell_def)
  qed (use 3 in auto)
qed (auto split: prod.splits)

lemma write_converted_length [simp]: "length (write_converted sv cs rows) = length rows"
  by (induction sv cs rows rule: write_converted.induct) auto

lemma write_converted_other: "r \<notin> fst ` set cs \<Longrightarrow> write_converted sv cs rows ! r = rows ! r"
  by (induction sv cs rows rule: write_converted.induct) auto

lemma write_converted_mem:
  "distinct (map fst cs) \<Longrightarrow> (r, v) \<in> set cs \<Longrightarrow> r < length rows
     \<Longrightarrow> write_converted sv cs rows ! r = native_row sv v"
proof (induction sv cs rows rule: write_converted.induct)
  case (2 sv q w copies rows)
  then show ?case by (cases "q = r \<and> w = v") (auto simp: write_converted_other rev_image_eqI)
qed simp

lemma convert_inputs_types:
  "convert_inputs sv d inputs = Inr vs \<Longrightarrow> \<forall>v \<in> set vs. duckdb_vector_types_equal (value_type sv v) (vd_type d)"
proof (induction sv d inputs arbitrary: vs rule: convert_inputs.induct)
  case (1 sv d inputs)
  have check: "check_types sv d us = Inr ws \<Longrightarrow> \<forall>v \<in> set ws. duckdb_vector_types_equal (value_type sv v) (vd_type d)" for us ws
    by (induction us arbitrary: ws) (auto simp: rbind_eq_Inr split: if_splits)
  show ?case
  proof (cases "inputs = []")
    case False
    then obtain ws rest where "convert_batch sv d (take conversion_batch inputs) = Inr ws"
        "convert_inputs sv d (drop conversion_batch inputs) = Inr rest" "vs = ws @ rest"
      using 1(2) by (subst (asm) convert_inputs.simps) (auto simp: rbind_eq_Inr)
    with 1(1) [OF False this(1,2)] check show ?thesis by (auto simp: convert_batch_def rbind_eq_Inr)
  qed (use 1(2) in \<open>simp add: convert_inputs.simps\<close>)
qed


text \<open>The cell row \<open>i\<close> of a write ends up with, given the converted values.\<close>

definition final_cell :: "'v services \<Rightarrow> vector_fast_kind \<Rightarrow> (nat \<times> zval) list \<Rightarrow> 'v list \<Rightarrow> nat \<Rightarrow> 'v cell option" where
  "final_cell sv kind ws vs i =
     (let v = deref (snd (ws ! i)) in
      if v = Z_null then None
      else if is_fast_input sv kind v then map_option Fast (duckdb_vector_write_fast kind v)
      else native_row sv (vs ! length (slow_inputs sv kind (take i ws))))"

lemma deref_deref [simp]: "deref (deref v) = deref v"
  by (induction v rule: deref.induct) auto

lemma rows_written:
  fixes ws :: "(nat \<times> zval) list"
  assumes d: "distinct (map fst ws)" and len: "\<forall>r \<in> set (map fst ws). r < length rows"
    and c: "classify sv kind ws [] = (ps, inputs)"
    and w: "write_rows kind vs ps rows = (rows', copies)"
  shows "\<And>i. i < length ws \<Longrightarrow> write_converted sv copies rows' ! fst (ws ! i) = final_cell sv kind ws vs i"
    "\<And>r. r \<notin> set (map fst ws) \<Longrightarrow> write_converted sv copies rows' ! r = rows ! r"
proof -
  have copies: "copies = copies_of vs ps" and rows': "rows' = fst (write_rows kind vs ps rows)"
    using w write_rows_copies [of kind vs ps rows] by auto
  have ps: "ps = fst (classify sv kind ws [])" using c by simp
  have rws: "map write_row ps = map fst ws" unfolding ps by (rule classify_rows)
  have dp: "distinct (map write_row ps)" using d rws by simp
  have lp: "length ps = length ws" unfolding ps by (rule classify_length)
  have len': "length rows' = length rows" unfolding rows' by simp
  show "write_converted sv copies rows' ! r = rows ! r" if "r \<notin> set (map fst ws)" for r
  proof -
    have n: "r \<notin> write_row ` set ps" using that rws by (metis list.set_map)
    then have "r \<notin> fst ` set copies" using copies_of_rows [of vs ps] copies by blast
    moreover have "rows' ! r = rows ! r"
      unfolding rows' using n by (intro write_rows_other) auto
    ultimately show ?thesis by (simp add: write_converted_other)
  qed
  show "write_converted sv copies rows' ! fst (ws ! i) = final_cell sv kind ws vs i" if i: "i < length ws" for i
  proof -
    let ?k = "length (slow_inputs sv kind (take i ws))" and ?v = "deref (snd (ws ! i))"
    have pi: "ps ! i = classified sv kind (ws ! i) ?k" unfolding ps using classify_nth [OF i, of sv kind "[]"] by simp
    have mem: "ps ! i \<in> set ps" using i lp by simp
    have row: "write_row (ps ! i) = fst (ws ! i)" using pi by (simp add: classified_def)
    have lt: "fst (ws ! i) < length rows" using len i by simp
    have only: "q = ps ! i" if "q \<in> set ps" "write_row q = fst (ws ! i)" for q
      using that dp mem row by (metis distinct_map inj_onD)
    show ?thesis
    proof (cases "?v \<noteq> Z_null \<and> \<not> is_fast_input sv kind (snd (ws ! i))")
      case True
      then have "ps ! i = P_converted (fst (ws ! i)) ?k" using pi by (simp add: classified_def)
      then have "(fst (ws ! i), vs ! ?k) \<in> set copies" using mem copies copies_of_mem by metis
      then have "write_converted sv copies rows' ! fst (ws ! i) = native_row sv (vs ! ?k)"
        using copies_of_distinct [OF dp] copies lt len' by (intro write_converted_mem) auto
      with True show ?thesis by (simp add: final_cell_def is_fast_input_def Let_def)
    next
      case False
      then have nc: "ps ! i \<noteq> P_converted r k" for r k using pi by (auto simp: classified_def)
      have "fst (ws ! i) \<notin> fst ` set copies"
      proof
        assume "fst (ws ! i) \<in> fst ` set copies"
        then obtain v where "(fst (ws ! i), v) \<in> set (copies_of vs ps)" using copies by auto
        then obtain k where "P_converted (fst (ws ! i)) k \<in> set ps" unfolding copies_of_mem by blast
        with only [of "P_converted (fst (ws ! i)) k"] nc show False by (metis write_row.simps(3))
      qed
      then have "write_converted sv copies rows' ! fst (ws ! i) = rows' ! fst (ws ! i)"
        by (rule write_converted_other)
      also have "\<dots> = direct_cell kind (ps ! i)"
        using write_rows_direct [OF dp mem nc, of rows kind vs] row lt rows' by simp
      finally show ?thesis
        using False pi by (auto simp: final_cell_def direct_cell_def classified_def is_fast_input_def Let_def)
    qed
  qed
qed

text \<open>
  C30. A write of several distinct rows is all or nothing: when entering the connection or a
  conversion fails the store is unchanged; when it succeeds every row holds its own input (NULL,
  the fast cell, or its own converted value, which has the vector's type), and no other row and no
  other vector changed. Only an allocation failure after a successful conversion can leave the
  vector with its fast rows written.
\<close>

theorem write_values_all_or_nothing:
  assumes "distinct (map fst ws)" and "\<forall>r \<in> set (map fst ws). r < length (st (vd_vector d))"
  shows "(case write_values sv d ws st of
      (Inl err, st') \<Rightarrow> constant_allocates sv \<longrightarrow> st' = st
    | (Inr _, st') \<Rightarrow> \<exists>vs. convert_inputs sv d (slow_inputs sv (vd_fast d) ws) = Inr vs
        \<and> (\<forall>v \<in> set vs. duckdb_vector_types_equal (value_type sv v) (vd_type d))
        \<and> (\<forall>i < length ws. st' (vd_vector d) ! fst (ws ! i) = final_cell sv (vd_fast d) ws vs i)
        \<and> (\<forall>r. r \<notin> set (map fst ws) \<longrightarrow> st' (vd_vector d) ! r = st (vd_vector d) ! r)
        \<and> length (st' (vd_vector d)) = length (st (vd_vector d))
        \<and> (\<forall>h. h \<noteq> vd_vector d \<longrightarrow> st' h = st h))"
proof -
  let ?slow = "slow_inputs sv (vd_fast d) ws"
  obtain ps where c: "classify sv (vd_fast d) ws [] = (ps, ?slow)"
    using classify_inputs [of sv "vd_fast d" ws "[]"] by (metis append_Nil prod.collapse)
  define conv where "conv = (if ?slow = [] then Inr []
      else case enter_refused sv of Some err \<Rightarrow> Inl err | None \<Rightarrow> convert_inputs sv d ?slow)"
  show ?thesis
  proof (cases conv)
    case (Inl err)
    then show ?thesis by (simp add: write_values_def c conv_def [symmetric])
  next
    case (Inr vs)
    then have cv: "convert_inputs sv d ?slow = Inr vs"
      by (auto simp: conv_def convert_inputs.simps [of sv d "[]"] split: if_splits option.splits)
    obtain rows copies where w: "write_rows (vd_fast d) vs ps (st (vd_vector d)) = (rows, copies)" by fastforce
    note wr = rows_written [OF assms c w]
    have len: "length rows = length (st (vd_vector d))"
      using write_rows_length [of "vd_fast d" vs ps "st (vd_vector d)"] w by simp
    show ?thesis
      using wr len cv convert_inputs_types [OF cv]
      by (simp add: write_values_def c conv_def [symmetric] Inr w)
  qed
qed

definition sample_services :: "int services" where
  "sample_services = \<lparr>valid_utf8 = (\<lambda>s. True), date_init = (\<lambda>s. None),
     convert_values = (\<lambda>vs. Inr (map (\<lambda>v. 7) vs)), value_type = (\<lambda>v. LT_prim T_INTEGER None),
     native_row = (\<lambda>v. Some (Native v)), enter_refused = None, constant_allocates = True\<rparr>"


definition sample_vector :: vector_data where
  "sample_vector = \<lparr>vd_vector = 0, vd_type = LT_prim T_INTEGER None, vd_declaration = ''INTEGER'',
     vd_capacity = 3, vd_fast = FK_int32\<rparr>"

lemma sample_conversion:
  "convert_inputs sample_services sample_vector [Z_string ''9''] = Inr [7]"
proof -
  have "duckdb_canonicalize_type ''INTEGER'' = Inr ''INTEGER''" by code_simp
  then show ?thesis
    by (simp add: convert_inputs.simps convert_batch_def conversion_batch_def sample_services_def
        sample_vector_def duckdb_value_initialize_def create_def)
qed

theorem write_values_all_or_nothing_witness:
  "\<exists>st'. write_values sample_services sample_vector [(0, Z_null), (2, Z_long 5), (1, Z_string ''9'')]
        ((\<lambda>h. [])(0 := [Some (Native 1), Some (Native 2), None])) = (Inr (), st')
     \<and> st' 0 ! 1 = Some (Native 7) \<and> st' 0 ! 2 = Some (Fast (C_i32 5))"
proof -
  let ?ws = "[(0, Z_null), (2, Z_long 5), (1, Z_string ''9'')] :: (nat \<times> zval) list"
  let ?st = "(\<lambda>h. [])(0 := [Some (Native 1), Some (Native 2), None]) :: int cell store"
  have slow: "slow_inputs sample_services FK_int32 ?ws = [Z_string ''9'']"
    by (simp add: slow_inputs_def is_slow_input_def is_fast_input_def duckdb_vector_can_write_fast_def fits_type_def)
  have fk: "vd_fast sample_vector = FK_int32" and h: "vd_vector sample_vector = 0"
    by (simp_all add: sample_vector_def)
  obtain st' where w: "write_values sample_services sample_vector ?ws ?st = (Inr (), st')"
    using sample_conversion
    by (simp add: write_values_def fk h duckdb_vector_can_write_fast_def fits_type_def)
       (simp add: sample_services_def)
  have "st' 0 ! 1 = final_cell sample_services FK_int32 ?ws [7] 2
      \<and> st' 0 ! 2 = final_cell sample_services FK_int32 ?ws [7] 1"
  proof -
    have "distinct (map fst ?ws)" "\<forall>r \<in> set (map fst ?ws). r < length (?st (vd_vector sample_vector))"
      by (simp_all add: h)
    from write_values_all_or_nothing [where ws = ?ws and st = ?st and d = sample_vector and sv = sample_services,
        OF this, unfolded w fk h slow prod.case sum.case]
    obtain vs where "convert_inputs sample_services sample_vector [Z_string ''9''] = Inr vs"
      and all: "\<forall>i < length ?ws. st' 0 ! fst (?ws ! i) = final_cell sample_services FK_int32 ?ws vs i"
      by blast
    then have vs: "vs = [7]" using sample_conversion by simp
    show ?thesis using all [rule_format, of 2] all [rule_format, of 1] unfolding vs by simp
  qed
  then show ?thesis
    using w by (simp add: final_cell_def slow_inputs_def is_slow_input_def is_fast_input_def
      duckdb_vector_can_write_fast_def duckdb_vector_write_fast_def fits_type_def sample_services_def)
qed


section \<open>Copies, selections and reads\<close>

definition vector_ok :: "vector_data \<Rightarrow> 'c store \<Rightarrow> bool" where
  "vector_ok d st \<longleftrightarrow> length (st (vd_vector d)) = vd_capacity d \<and> int (vd_capacity d) \<le> max_vector_capacity"

lemma vector_ok_less: "vector_ok d st \<Longrightarrow> length (st (vd_vector d)) < 2 ^ 32"
  by (simp add: vector_ok_def max_vector_capacity_def)

lemma check_range_Inr:
  "check_range d off n arg = Inr u \<longleftrightarrow> 0 \<le> off \<and> nat off + n \<le> vd_capacity d"
  by (auto simp: check_range_def)

lemma allocate_Inr:
  assumes "duckdb_vector_allocate create_vector fresh t n st = Inr (d, st1)" "creator_ok create_vector"
  shows "\<exists>rows. st1 = st(fresh := rows) \<and> length rows = n" "vd_vector d = fresh" "vd_capacity d = n" "vd_type d = t"
  using assms by (auto simp: duckdb_vector_allocate_def creator_ok_def split: option.splits sum.splits)

definition copy_count :: "vector_data \<Rightarrow> int \<Rightarrow> int option \<Rightarrow> int" where
  "copy_count src off n = (case n of None \<Rightarrow> int (vd_capacity src - nat off) | Some c \<Rightarrow> c)"

definition copy_accepted :: "vector_data \<Rightarrow> vector_data \<Rightarrow> int \<Rightarrow> int option \<Rightarrow> int \<Rightarrow> bool" where
  "copy_accepted src tgt src_off n tgt_off \<longleftrightarrow>
     0 \<le> src_off \<and> 0 \<le> tgt_off \<and> 0 \<le> copy_count src src_off n
     \<and> src_off + copy_count src src_off n \<le> int (vd_capacity src)
     \<and> tgt_off + copy_count src src_off n \<le> int (vd_capacity tgt)
     \<and> duckdb_vector_types_equal (vd_type src) (vd_type tgt)"

definition copy_performed ::
    "'c copier \<Rightarrow> 'c creator \<Rightarrow> nat \<Rightarrow> vector_data \<Rightarrow> vector_data \<Rightarrow> nat \<Rightarrow> nat \<Rightarrow> nat \<Rightarrow> 'c store
      \<Rightarrow> (throwable, unit) result \<times> 'c store" where
  "copy_performed copy_sel create_vector staged tgt src src_off cnt tgt_off st =
     (if vd_vector src = vd_vector tgt
      then (case duckdb_vector_allocate create_vector staged (vd_type src) cnt st of
              Inl err \<Rightarrow> (Inl err, st)
            | Inr (d, st1) \<Rightarrow> (Inr (), copy_rows copy_sel (vd_vector d) (vd_vector tgt) 0 cnt tgt_off
                (copy_rows copy_sel (vd_vector src) (vd_vector d) src_off cnt 0 st1)))
      else (Inr (), copy_rows copy_sel (vd_vector src) (vd_vector tgt) src_off cnt tgt_off st))"

lemma copyFrom_accepted:
  assumes "copy_accepted src tgt src_off n tgt_off"
  shows "vector_copyFrom copy_sel create_vector staged tgt src src_off n tgt_off st
    = copy_performed copy_sel create_vector staged tgt src (nat src_off) (nat (copy_count src src_off n)) (nat tgt_off) st"
proof -
  from assms have "check_range src src_off (nat (copy_count src src_off n)) 3 = Inr ()"
      "check_range tgt tgt_off (nat (copy_count src src_off n)) 4 = Inr ()"
    by (auto simp: check_range_Inr copy_accepted_def)
  with assms show ?thesis
    unfolding vector_copyFrom_def copy_count_def [symmetric] copy_performed_def
    by (simp add: copy_accepted_def Let_def split: sum.splits prod.splits)
qed

lemma copyFrom_refused:
  assumes "\<not> copy_accepted src tgt src_off n tgt_off"
  shows "\<exists>err. vector_copyFrom copy_sel create_vector staged tgt src src_off n tgt_off st = (Inl err, st)"
proof (cases "0 \<le> src_off \<and> src_off \<le> int (vd_capacity src) \<and> 0 \<le> copy_count src src_off n")
  case True
  let ?c = "rbind (check_range src src_off (nat (copy_count src src_off n)) 3)
      (\<lambda>_. check_range tgt tgt_off (nat (copy_count src src_off n)) 4)"
  have "?c \<noteq> Inr () \<or> \<not> duckdb_vector_types_equal (vd_type src) (vd_type tgt)"
    using assms True by (auto simp: copy_accepted_def rbind_eq_Inr check_range_Inr)
  with True show ?thesis
    unfolding vector_copyFrom_def copy_count_def [symmetric]
    by (cases ?c) (auto simp: Let_def)
next
  case False
  then show ?thesis
    unfolding vector_copyFrom_def copy_count_def [symmetric] by (auto simp: Let_def)
qed


lemma copy_performed_correct:
  assumes "copier_ok copy_sel" "creator_ok create_vector" "vector_ok src st" "vector_ok tgt st"
    "staged \<noteq> vd_vector src" "staged \<noteq> vd_vector tgt" "so + n \<le> vd_capacity src" "to + n \<le> vd_capacity tgt"
    "copy_performed copy_sel create_vector staged tgt src so n to st = (Inr (), st')"
  shows "st' (vd_vector tgt) = place to (take n (drop so (st (vd_vector src)))) (st (vd_vector tgt))"
    "\<And>h. h \<noteq> vd_vector tgt \<Longrightarrow> h \<noteq> staged \<Longrightarrow> st' h = st h"
proof -
  let ?rows = "take n (drop so (st (vd_vector src)))"
  note lens = assms(3,4,7,8) vector_ok_less [OF assms(3)] vector_ok_less [OF assms(4)]
  have "\<exists>st0. st' = st0(vd_vector tgt := place to ?rows (st (vd_vector tgt))) \<and> (\<forall>h. h \<noteq> staged \<longrightarrow> st0 h = st h)"
  proof (cases "vd_vector src = vd_vector tgt")
    case False
    then have "copy_rows copy_sel (vd_vector src) (vd_vector tgt) so n to st
        = st(vd_vector tgt := place to ?rows (st (vd_vector tgt)))"
      using lens by (intro copy_rows_correct [OF assms(1)]) (auto simp: vector_ok_def)
    with False assms(9) show ?thesis by (auto simp: copy_performed_def)
  next
    case True
    with assms(9) obtain d st1 where a: "duckdb_vector_allocate create_vector staged (vd_type src) n st = Inr (d, st1)"
      and st': "st' = copy_rows copy_sel (vd_vector d) (vd_vector tgt) 0 n to
          (copy_rows copy_sel (vd_vector src) (vd_vector d) so n 0 st1)"
      by (auto simp: copy_performed_def split: sum.splits)
    obtain rows where st1: "st1 = st(staged := rows)" "length rows = n" and d: "vd_vector d = staged"
      using allocate_Inr [OF a assms(2)] by blast
    have lr: "length ?rows = n" using assms(3,7) by (simp add: vector_ok_def)
    have "copy_rows copy_sel (vd_vector src) staged so n 0 st1
        = st1(staged := place 0 (take n (drop so (st1 (vd_vector src)))) (st1 staged))"
      using lens st1 assms(5) by (intro copy_rows_correct [OF assms(1)]) (auto simp: vector_ok_def)
    then have s1: "copy_rows copy_sel (vd_vector src) staged so n 0 st1 = st(staged := ?rows)"
      using st1 assms(5) lr by (simp add: place_def)
    have "copy_rows copy_sel staged (vd_vector tgt) 0 n to (st(staged := ?rows))
        = (st(staged := ?rows))(vd_vector tgt := place to (take n (drop 0 ((st(staged := ?rows)) staged)))
            ((st(staged := ?rows)) (vd_vector tgt)))"
      using lens lr assms(6) by (intro copy_rows_correct [OF assms(1)]) (auto simp: vector_ok_def)
    with st' s1 d lr assms(6) show ?thesis by (intro exI [of _ "st(staged := ?rows)"]) auto
  qed
  then show "st' (vd_vector tgt) = place to ?rows (st (vd_vector tgt))"
    "\<And>h. h \<noteq> vd_vector tgt \<Longrightarrow> h \<noteq> staged \<Longrightarrow> st' h = st h" by auto
qed

text \<open>
  \<open>Vector::copyFrom\<close> behaves like \<open>memmove\<close>: it is refused, with nothing changed, unless both
  ranges lie inside their vectors and the types agree; otherwise the target range receives the rows
  the source range had before the call, also when source and target are the same vector and the
  ranges overlap, and no other row or vector changes (a self-copy may leave its staging vector).
\<close>

theorem copyFrom_memmove:
  assumes "copier_ok copy_sel" and "creator_ok create_vector" and "vector_ok src st" and "vector_ok tgt st"
    and "staged \<noteq> vd_vector src" and "staged \<noteq> vd_vector tgt"
  shows "(case vector_copyFrom copy_sel create_vector staged tgt src src_off n tgt_off st of
      (Inl err, st') \<Rightarrow> st' = st
        \<and> (copy_accepted src tgt src_off n tgt_off \<longrightarrow> vd_vector src = vd_vector tgt)
    | (Inr _, st') \<Rightarrow> copy_accepted src tgt src_off n tgt_off
        \<and> st' (vd_vector tgt) = place (nat tgt_off)
            (take (nat (copy_count src src_off n)) (drop (nat src_off) (st (vd_vector src)))) (st (vd_vector tgt))
        \<and> (\<forall>h. h \<noteq> vd_vector tgt \<longrightarrow> h \<noteq> staged \<longrightarrow> st' h = st h))"
proof (cases "copy_accepted src tgt src_off n tgt_off")
  case False
  then show ?thesis
    using copyFrom_refused [OF False, of copy_sel create_vector staged st] by auto
next
  case True
  obtain r st' where p: "copy_performed copy_sel create_vector staged tgt src (nat src_off)
      (nat (copy_count src src_off n)) (nat tgt_off) st = (r, st')" by fastforce
  have rng: "nat src_off + nat (copy_count src src_off n) \<le> vd_capacity src"
      "nat tgt_off + nat (copy_count src src_off n) \<le> vd_capacity tgt"
    using True by (auto simp: copy_accepted_def)
  show ?thesis
  proof (cases r)
    case (Inl err)
    then have "st' = st \<and> vd_vector src = vd_vector tgt"
      using p by (auto simp: copy_performed_def split: if_splits sum.splits)
    with True p Inl show ?thesis by (simp add: copyFrom_accepted)
  next
    case (Inr u)
    then show ?thesis
      using True p copy_performed_correct [OF assms rng] by (simp add: copyFrom_accepted)
  qed
qed

theorem copyFrom_memmove_witness:
  "\<exists>st'. vector_copyFrom sample_copier sample_creator 9 sample_vector sample_vector 0 (Some 2) 1
        ((\<lambda>h. [])(0 := [Some (10 :: int), None, Some 30])) = (Inr (), st')
     \<and> st' 0 = [Some 10, Some 10, None]"
proof -
  let ?st = "(\<lambda>h. [])(0 := [Some (10 :: int), None, Some 30]) :: int store"
  have ok: "vector_ok sample_vector ?st" by (simp add: vector_ok_def sample_vector_def max_vector_capacity_def)
  have acc: "copy_accepted sample_vector sample_vector 0 (Some 2) 1"
    by (simp add: copy_accepted_def copy_count_def sample_vector_def)
  have sql: "duckdb_logical_type_sql (LT_prim T_INTEGER None) = Inr ''INTEGER''" by code_simp
  obtain st' where w: "vector_copyFrom sample_copier sample_creator 9 sample_vector sample_vector 0 (Some 2) 1 ?st
      = (Inr (), st')"
    by (simp add: copyFrom_accepted [OF acc] copy_performed_def duckdb_vector_allocate_def sample_creator_def
        sql sample_vector_def [THEN arg_cong [where f = vd_type], simplified])
  have n: "9 \<noteq> vd_vector sample_vector" by (simp add: sample_vector_def)
  from copyFrom_memmove [OF sample_engine_vectors ok ok n n, of 0 "Some 2" 1] w show ?thesis
    by (simp add: place_def copy_count_def sample_vector_def)
qed

lemma decode_rows_Inr:
  "decode_rows decode rs = Inr vs \<longleftrightarrow> length vs = length rs \<and> (\<forall>i < length rs. decode (rs ! i) = Inr (vs ! i))"
proof (induction rs arbitrary: vs)
  case (Cons r rs)
  show ?case
  proof (cases vs)
    case Nil
    then show ?thesis by (auto simp: rbind_eq_Inr)
  next
    case (Cons w ws)
    show ?thesis
      unfolding Cons by (auto simp: rbind_eq_Inr Cons.IH All_less_Suc2)
  qed
qed auto

text \<open>
  \<open>Vector::toArray\<close> returns exactly the values \<open>get\<close> returns for the rows of the range, in
  order; a range that leaves the vector is refused.
\<close>

theorem toArray_is_get:
  assumes "vector_ok d st" and "vector_toArray decode d st off len = Inr vs"
  shows "0 \<le> off \<and> off + int (length vs) \<le> int (vd_capacity d)
    \<and> (case len of None \<Rightarrow> off + int (length vs) = int (vd_capacity d) | Some n \<Rightarrow> int (length vs) = n)
    \<and> (\<forall>i < length vs. vector_get decode d st (off + int i) = Inr (vs ! i))"
proof -
  let ?n = "case len of None \<Rightarrow> int (vd_capacity d - nat off) | Some l \<Rightarrow> l"
  from assms(2) have r: "0 \<le> off" "off \<le> int (vd_capacity d)" "0 \<le> ?n" "nat off + nat ?n \<le> vd_capacity d"
    and dec: "decode_rows decode (take (nat ?n) (drop (nat off) (st (vd_vector d)))) = Inr vs"
    by (auto simp: vector_toArray_def Let_def rbind_eq_Inr check_range_Inr split: if_splits)
  have l: "length (take (nat ?n) (drop (nat off) (st (vd_vector d)))) = nat ?n"
    using r assms(1) by (cases len) (auto simp: vector_ok_def)
  then have len: "length vs = nat ?n" using dec by (simp only: decode_rows_Inr)
  have get: "\<forall>i < length vs. decode (st (vd_vector d) ! (nat off + i)) = Inr (vs ! i)"
  proof (intro allI impI)
    fix i assume i: "i < length vs"
    with dec have "decode (take (nat ?n) (drop (nat off) (st (vd_vector d))) ! i) = Inr (vs ! i)"
      by (simp only: decode_rows_Inr)
    moreover have "nat off \<le> length (st (vd_vector d))" using r assms(1) by (simp add: vector_ok_def)
    ultimately show "decode (st (vd_vector d) ! (nat off + i)) = Inr (vs ! i)"
      using i len by (simp add: nth_append)
  qed
  have "vector_get decode d st (off + int i) = Inr (vs ! i)" if "i < length vs" for i
  proof -
    have "nat off + length vs \<le> vd_capacity d" using r len by simp
    then have "\<not> (off + int i < 0 \<or> int (vd_capacity d) \<le> off + int i)" using that r(1) by linarith
    moreover have "nat (off + int i) = nat off + i" using r(1) by simp
    ultimately show ?thesis using that get by (simp add: vector_get_def check_row_def)
  qed
  moreover have "case len of None \<Rightarrow> off + int (length vs) = int (vd_capacity d) | Some n \<Rightarrow> int (length vs) = n"
    using r len by (auto split: option.splits)
  moreover have "off + int (length vs) \<le> int (vd_capacity d)"
  proof -
    have "nat off + length vs \<le> vd_capacity d" using r len by simp
    then show ?thesis using r(1) by linarith
  qed
  ultimately show ?thesis using r(1) by simp
qed

theorem toArray_is_get_witness:
  "vector_get (\<lambda>c. Inr (Z_long (case c of None \<Rightarrow> 0 | Some n \<Rightarrow> n))) sample_vector
      ((\<lambda>h. [])(0 := [Some 10, None, Some 30])) 2 = Inr (Z_long 30)"
proof -
  let ?dec = "\<lambda>c. Inr (Z_long (case c of None \<Rightarrow> 0 | Some n \<Rightarrow> n))"
  let ?st = "(\<lambda>h. [])(0 := [Some (10 :: int), None, Some 30]) :: int store"
  have ok: "vector_ok sample_vector ?st" by (simp add: vector_ok_def sample_vector_def max_vector_capacity_def)
  have "vector_toArray ?dec sample_vector ?st 1 None = Inr [Z_long 0, Z_long 30]"
    by (simp add: vector_toArray_def sample_vector_def check_range_def)
  from toArray_is_get [OF ok this] show ?thesis by (auto simp: All_less_Suc2 numeral_2_eq_2)
qed

end
