(* ===== verification/Byte_Reader.thy ===== *)
theory Byte_Reader
  imports Prelude
begin

text \<open>
  The bounds-checked byte reader of \<open>src/src/variant_decode.cpp\<close> and the text helpers beside it:
  little-endian integers, the LEB128 \<open>varint\<close>, floating point text and JSON quoting.

  An \<open>invalid(message)\<close> exception is \<open>Invalid message\<close>. \<open>Undefined_read\<close> is an access past the end of the payload or of
  another native array; the theorems of \<open>Variant\<close> show it never occurs on well-formed engine vectors.
\<close>

datatype decode_error = Invalid string | Undefined_read

record reader =
  rd_data :: "u8 list"
  rd_position :: nat

type_synonym 'a read = "reader \<Rightarrow> (decode_error, 'a \<times> reader) result"

definition rd_return :: "'a \<Rightarrow> 'a read" where
  "rd_return x r = Inr (x, r)"

definition rd_fail :: "string \<Rightarrow> 'a read" where
  "rd_fail msg r = Inl (Invalid msg)"

definition rd_bind :: "'a read \<Rightarrow> ('a \<Rightarrow> 'b read) \<Rightarrow> 'b read" where
  "rd_bind m f r = rbind (m r) (\<lambda>(x, r'). f x r')"

definition rd_lift :: "(decode_error, 'a) result \<Rightarrow> 'a read" where
  "rd_lift x r = rbind x (\<lambda>y. Inr (y, r))"

section \<open>The reader\<close>

text \<open>A payload pointer; \<open>None\<close> is a null pointer.\<close>

definition reader_init :: "u8 list option \<Rightarrow> (decode_error, reader) result" where
  "reader_init bytes = (case bytes of
     None \<Rightarrow> Inl (Invalid ''Missing VARIANT payload'')
   | Some d \<Rightarrow> Inr \<lparr>rd_data = d, rd_position = 0\<rparr>)"

text \<open>The subtraction is one of \<open>size_t\<close>: behind the end it wraps around to a huge number.\<close>

definition remaining :: "reader \<Rightarrow> nat" where
  "remaining r =
     (if rd_position r \<le> length (rd_data r) then length (rd_data r) - rd_position r
      else 2 ^ 64 - (rd_position r - length (rd_data r)))"

definition reader_offset :: "nat \<Rightarrow> reader \<Rightarrow> (decode_error, reader) result" where
  "reader_offset v r =
     (if v > length (rd_data r) then Inl (Invalid ''VARIANT byte offset is out of bounds'')
      else Inr (r\<lparr>rd_position := v\<rparr>))"

text \<open>The access itself: the bytes from the position on. Nothing stops it at the end of the payload.\<close>

definition rd_load :: "nat \<Rightarrow> reader \<Rightarrow> (decode_error, u8 list) result" where
  "rd_load n r =
     (if rd_position r + n \<le> length (rd_data r) then Inr (take n (drop (rd_position r) (rd_data r))) else Inl Undefined_read)"

definition take_bytes :: "nat \<Rightarrow> u8 list read" where
  "take_bytes n r =
     (if n > remaining r then Inl (Invalid ''Truncated VARIANT payload'')
      else rbind (rd_load n r) (\<lambda>bs. Inr (bs, r\<lparr>rd_position := rd_position r + n\<rparr>)))"

text \<open>\<open>native<T>\<close> and \<open>Read<T>\<close> on a little-endian host: the bytes of \<open>T\<close>, lowest first.\<close>

fun le_value :: "u8 list \<Rightarrow> nat" where
  "le_value [] = 0"
| "le_value (b # bs) = unat b + 256 * le_value bs"

text \<open>Bytes as the characters of a string, and back.\<close>

definition bytes_text :: "u8 list \<Rightarrow> string" where
  "bytes_text bs = map (\<lambda>b. char_of (unat b)) bs"

definition text_bytes :: "string \<Rightarrow> u8 list" where
  "text_bytes s = map (\<lambda>c. of_nat (of_char c)) s"

lemma bytes_text_bytes [simp]: "bytes_text (text_bytes s) = s"
proof -
  have "char_of (unat (of_nat (of_char c) :: u8)) = c" for c :: char
    by (simp add: unat_of_nat take_bit_eq_mod [symmetric])
  then show ?thesis by (simp add: bytes_text_def text_bytes_def comp_def)
qed

lemma text_bytes_text [simp]: "text_bytes (bytes_text bs) = bs"
proof -
  have "(of_nat (of_char (char_of (unat b) :: char)) :: u8) = b" for b :: u8
    using unat_bound [of b] by (simp add: of_char_of)
  then show ?thesis by (simp add: bytes_text_def text_bytes_def comp_def)
qed

lemma length_text_bytes [simp]: "length (text_bytes s) = length s"
  by (simp add: text_bytes_def)

definition read_u8 :: "u8 read" where
  "read_u8 = rd_bind (take_bytes 1) (\<lambda>bs. rd_return (of_nat (le_value bs)))"
definition read_u16 :: "u16 read" where
  "read_u16 = rd_bind (take_bytes 2) (\<lambda>bs. rd_return (of_nat (le_value bs)))"
definition read_u32 :: "u32 read" where
  "read_u32 = rd_bind (take_bytes 4) (\<lambda>bs. rd_return (of_nat (le_value bs)))"
definition read_u64 :: "u64 read" where
  "read_u64 = rd_bind (take_bytes 8) (\<lambda>bs. rd_return (of_nat (le_value bs)))"

fun varint_loop :: "nat \<Rightarrow> nat \<Rightarrow> u32 \<Rightarrow> u32 read" where
  "varint_loop 0 shift value = rd_fail ''Invalid VARIANT varint''"
| "varint_loop (Suc n) shift value =
     rd_bind read_u8 (\<lambda>byte.
       if shift = 28 \<and> byte AND 0xf0 \<noteq> 0 then rd_fail ''Invalid VARIANT varint''
       else let value' = value OR push_bit shift (ucast (byte AND 127))
            in if byte AND 128 = 0 then rd_return value' else varint_loop n (shift + 7) value')"

text \<open>The loop runs for the shifts 0, 7, 14, 21 and 28.\<close>

definition varint :: "u32 read" where
  "varint = varint_loop 5 0 0"

section \<open>Floating point text\<close>

text \<open>Bit patterns of IEEE doubles.\<close>

definition is_nan :: "u64 \<Rightarrow> bool" where
  "is_nan d \<longleftrightarrow> (drop_bit 52 d AND 0x7ff) = 0x7ff \<and> d AND 0xfffffffffffff \<noteq> 0"

definition is_inf :: "u64 \<Rightarrow> bool" where
  "is_inf d \<longleftrightarrow> (drop_bit 52 d AND 0x7ff) = 0x7ff \<and> d AND 0xfffffffffffff = 0"

definition is_zero :: "u64 \<Rightarrow> bool" where
  "is_zero d \<longleftrightarrow> d AND 0x7fffffffffffffff = 0"

definition signbit :: "u64 \<Rightarrow> bool" where
  "signbit d \<longleftrightarrow> bit d 63"

text \<open>
  \<open>zend_dtoa(value, 0, 0, \<dots>)\<close> of the PHP engine: the shortest digits that read back as the value,
  the position of the decimal point and the sign; \<open>None\<close> when it cannot allocate.
\<close>

type_synonym dtoa = "u64 \<Rightarrow> (string \<times> int \<times> bool) option"

definition exponent_text :: "bool \<Rightarrow> int \<Rightarrow> string" where
  "exponent_text geometry e =
     ''e'' @ (if geometry \<and> 0 \<le> e then ''+'' else [])
     @ (if geometry \<and> \<bar>e\<bar> < 10 then (if e < 0 then ''-0'' else ''0'') else if e < 0 then ''-'' else [])
     @ dec_string (nat \<bar>e\<bar>)"

definition fixed_text :: "bool \<Rightarrow> string \<Rightarrow> int \<Rightarrow> string" where
  "fixed_text geometry digits point =
     (if point \<le> 0 then ''0.'' @ replicate (nat (- point)) (CHR ''0'') @ digits
      else if length digits \<le> nat point
      then digits @ replicate (nat point - length digits) (CHR ''0'') @ (if geometry then [] else ''.0'')
      else take (nat point) digits @ ''.'' @ drop (nat point) digits)"

definition scientific_text :: "bool \<Rightarrow> string \<Rightarrow> int \<Rightarrow> string" where
  "scientific_text geometry digits e =
     take 1 digits @ (if length digits > 1 then ''.'' @ drop 1 digits else []) @ exponent_text geometry e"

definition real_text :: "dtoa \<Rightarrow> bool \<Rightarrow> u64 \<Rightarrow> (decode_error, string) result" where
  "real_text dtoa geometry d =
     (if is_nan d then Inr (if geometry then ''nan'' else ''NaN'')
      else if is_inf d
      then Inr (if geometry then (if signbit d then ''-inf'' else ''inf'')
                else if signbit d then ''-Infinity'' else ''Infinity'')
      else if is_zero d
      then Inr (if signbit d then (if geometry then ''-0'' else ''-0.0'') else if geometry then ''0'' else ''0.0'')
      else (case dtoa d of
          None \<Rightarrow> Inl (Invalid ''Unable to render VARIANT floating point value'')
        | Some (digits, point, negative) \<Rightarrow>
            if digits = [] then Inl (Invalid ''Unexpected floating point representation'')
            else let e = point - 1
              in Inr ((if negative then ''-'' else [])
                @ (if e \<ge> (if geometry then - 4 else - 6) \<and> e < (if geometry then 16 else 21)
                   then fixed_text geometry digits point else scientific_text geometry digits e))))"

text \<open>The conversion \<open>double(float)\<close>, exact for every float.\<close>

definition float_to_double :: "u32 \<Rightarrow> u64" where
  "float_to_double f =
     (let s = push_bit 63 (ucast (drop_bit 31 f)) :: u64;
          e = unat (drop_bit 23 f AND 0xff);
          m = f AND 0x7fffff
      in s OR
        (if e = 0xff then push_bit 52 0x7ff OR push_bit 29 (ucast m)
         else if e = 0 \<and> m = 0 then 0
         else if e = 0
         then let k = length (takeWhile (\<lambda>i. \<not> bit m i) (rev [0..<23]))
              in push_bit 52 (of_nat (896 - k)) OR (push_bit (30 + k) (ucast m) AND 0xfffffffffffff)
         else push_bit 52 (of_nat (e + 896)) OR push_bit 29 (ucast m)))"

section \<open>JSON quoting\<close>

definition byte_of :: "char \<Rightarrow> nat" where
  "byte_of c = of_char c"

definition quote_char :: "char \<Rightarrow> string" where
  "quote_char c =
     (if c = CHR 0x22 then [CHR 0x5C, CHR 0x22]
      else if c = CHR 0x5C then [CHR 0x5C, CHR 0x5C]
      else if byte_of c = 8 then [CHR 0x5C] @ ''b''
      else if byte_of c = 12 then [CHR 0x5C] @ ''f''
      else if byte_of c = 10 then [CHR 0x5C] @ ''n''
      else if byte_of c = 13 then [CHR 0x5C] @ ''r''
      else if byte_of c = 9 then [CHR 0x5C] @ ''t''
      else if byte_of c < 32
      then [CHR 0x5C] @ ''u00'' @ [hex_char (byte_of c div 16), hex_char (byte_of c mod 16)]
      else [c])"

definition quote :: "string \<Rightarrow> string" where
  "quote s = CHR 0x22 # concat (map quote_char s) @ [CHR 0x22]"

section \<open>Reading back what an encoder wrote\<close>

text \<open>\<open>reads m bs x\<close>: wherever the bytes \<open>bs\<close> lie in a payload, \<open>m\<close> reads exactly them and returns \<open>x\<close>.\<close>

definition reads :: "'a read \<Rightarrow> u8 list \<Rightarrow> 'a \<Rightarrow> bool" where
  "reads m bs x \<longleftrightarrow> (\<forall>pre post.
     m \<lparr>rd_data = pre @ bs @ post, rd_position = length pre\<rparr>
       = Inr (x, \<lparr>rd_data = pre @ bs @ post, rd_position = length pre + length bs\<rparr>))"

named_theorems reads_intros \<open>reads of composed readers\<close>

lemma reads_return [reads_intros]: "reads (rd_return x) [] x"
  by (simp add: reads_def rd_return_def)

lemma reads_lift [reads_intros]: "v = Inr x \<Longrightarrow> reads (rd_lift v) [] x"
  by (simp add: reads_def rd_lift_def)

lemma reads_bind [reads_intros]:
  assumes "reads m bs x" "reads (f x) cs y"
  shows "reads (rd_bind m f) (bs @ cs) y"
  unfolding reads_def
proof (intro allI)
  fix pre post
  have "m \<lparr>rd_data = pre @ bs @ cs @ post, rd_position = length pre\<rparr>
      = Inr (x, \<lparr>rd_data = pre @ bs @ cs @ post, rd_position = length pre + length bs\<rparr>)"
    using assms(1) [unfolded reads_def, rule_format, of pre "cs @ post"] by simp
  moreover have "f x \<lparr>rd_data = pre @ bs @ cs @ post, rd_position = length pre + length bs\<rparr>
      = Inr (y, \<lparr>rd_data = pre @ bs @ cs @ post, rd_position = length pre + length bs + length cs\<rparr>)"
    using assms(2) [unfolded reads_def, rule_format, of "pre @ bs" post] by simp
  ultimately show "rd_bind m f \<lparr>rd_data = pre @ (bs @ cs) @ post, rd_position = length pre\<rparr>
      = Inr (y, \<lparr>rd_data = pre @ (bs @ cs) @ post, rd_position = length pre + length (bs @ cs)\<rparr>)"
    by (simp add: rd_bind_def)
qed

lemma reads_bind': "reads m bs x \<Longrightarrow> reads (f x) cs y \<Longrightarrow> ds = bs @ cs \<Longrightarrow> reads (rd_bind m f) ds y"
  by (simp only: reads_bind)

lemma reads_last: "reads m bs x \<Longrightarrow> reads (f x) [] y \<Longrightarrow> reads (rd_bind m f) bs y"
  using reads_bind [of m bs x f "[]" y] by simp

lemma reads_take: "length bs = n \<Longrightarrow> reads (take_bytes n) bs bs"
  by (auto simp: reads_def take_bytes_def rd_load_def remaining_def)

text \<open>The little-endian bytes of a value.\<close>

fun le_bytes :: "nat \<Rightarrow> nat \<Rightarrow> u8 list" where
  "le_bytes 0 n = []"
| "le_bytes (Suc w) n = of_nat (n mod 256) # le_bytes w (n div 256)"

lemma length_le_bytes [simp]: "length (le_bytes w n) = w"
  by (induction w arbitrary: n) auto

lemma le_value_bytes [simp]: "n < 256 ^ w \<Longrightarrow> le_value (le_bytes w n) = n"
proof (induction w arbitrary: n)
  case (Suc w)
  have "n div 256 < 256 ^ w" using Suc.prems by (simp add: less_mult_imp_div_less)
  moreover have "unat (of_nat (n mod 256) :: u8) = n mod 256" by (simp add: unat_of_nat)
  ultimately show ?case using Suc.IH by simp
qed simp

lemma le_value_less: "le_value bs < 256 ^ length bs"
proof (induction bs)
  case (Cons b bs)
  have "unat b < 256" using unat_bound [of b] by simp
  then show ?case using Cons by simp
qed simp

lemma le_bytes_value: "le_bytes (length bs) (le_value bs) = bs"
proof (induction bs)
  case (Cons b bs)
  have "unat b < 256" using unat_bound [of b] by simp
  then show ?case using Cons by simp
qed simp

lemma le_bytes_not_empty [simp]: "0 < w \<Longrightarrow> le_bytes w n \<noteq> []"
  by (cases w) auto

lemma reads_u8 [reads_intros]: "reads read_u8 [b] b"
proof -
  have "reads (take_bytes 1) [b] [b]" by (rule reads_take) simp
  then show ?thesis unfolding read_u8_def by (rule reads_last) (simp add: reads_return)
qed

lemma reads_u16: "reads read_u16 (le_bytes 2 (unat w)) w"
proof -
  have "le_value (le_bytes 2 (unat w)) = unat w" using unat_bound [of w] by (intro le_value_bytes) simp
  then show ?thesis unfolding read_u16_def
    by (intro reads_last [OF reads_take]) (simp_all add: reads_return)
qed

lemma reads_u32 [reads_intros]: "reads read_u32 (le_bytes 4 (unat w)) w"
proof -
  have "le_value (le_bytes 4 (unat w)) = unat w" using unat_bound [of w] by (intro le_value_bytes) simp
  then show ?thesis unfolding read_u32_def
    by (intro reads_last [OF reads_take]) (simp_all add: reads_return)
qed

lemma reads_u64 [reads_intros]: "reads read_u64 (le_bytes 8 (unat w)) w"
proof -
  have "le_value (le_bytes 8 (unat w)) = unat w" using unat_bound [of w] by (intro le_value_bytes) simp
  then show ?thesis unfolding read_u64_def
    by (intro reads_last [OF reads_take]) (simp_all add: reads_return)
qed

subsection \<open>Variable-length integers\<close>

fun leb128 :: "nat \<Rightarrow> nat \<Rightarrow> u8 list" where
  "leb128 0 n = []"
| "leb128 (Suc k) n =
     (if n < 128 then [of_nat n] else of_nat (n mod 128 + 128) # leb128 k (n div 128))"

lemma varint_bytes:
  "\<forall>m \<in> set [0..<128]. (of_nat m :: u8) AND 128 = 0 \<and> (ucast ((of_nat m :: u8) AND 127) :: u32) = of_nat m
     \<and> (of_nat (m + 128) :: u8) AND 128 \<noteq> 0 \<and> (ucast ((of_nat (m + 128) :: u8) AND 127) :: u32) = of_nat m
     \<and> (m < 16 \<longrightarrow> (of_nat m :: u8) AND 0xf0 = 0)"
  unfolding Ball_set by code_simp

lemma varint_byte:
  assumes "m < 128"
  shows "(of_nat m :: u8) AND 128 = 0" "(ucast ((of_nat m :: u8) AND 127) :: u32) = of_nat m"
    "(of_nat (m + 128) :: u8) AND 128 \<noteq> 0" "(ucast ((of_nat (m + 128) :: u8) AND 127) :: u32) = of_nat m"
    "m < 16 \<Longrightarrow> (of_nat m :: u8) AND 0xf0 = 0"
  using varint_bytes assms by (simp_all only: set_upt atLeastLessThan_iff Ball_def) auto

lemma or_shifted:
  fixes v :: u32
  assumes "unat v < 2 ^ s" and "unat v + m * 2 ^ s < 2 ^ 32"
  shows "v OR push_bit s (of_nat m) = of_nat (unat v + m * 2 ^ s)"
proof -
  have tb: "take_bit s v = v" using assms(1)
    by (intro unat_eqD) (simp add: unsigned_take_bit_eq take_bit_nat_eq_self)
  have "v OR push_bit s (of_nat m) = v + push_bit s (of_nat m)"
  proof (rule disjunctive_add [symmetric])
    fix i show "\<not> bit v i \<or> \<not> bit (push_bit s (of_nat m) :: u32) i"
      by (subst tb [symmetric]) (auto simp: bit_simps)
  qed
  also have "\<dots> = of_nat (unat v + m * 2 ^ s)" by (simp add: push_bit_eq_mult)
  finally show ?thesis .
qed

lemma reads_varint_loop:
  assumes "shift + 7 * k = 35" "0 < k" "unat v < 2 ^ shift" "unat v + n * 2 ^ shift < 2 ^ 32"
  shows "reads (varint_loop k shift v) (leb128 k n) (of_nat (unat v + n * 2 ^ shift))"
  using assms
proof (induction k arbitrary: shift v n)
  case (Suc k)
  let ?m = "n mod 128"
  have lowest: "?m * 2 ^ shift \<le> n * 2 ^ shift" by simp
  have acc: "v OR push_bit shift (of_nat ?m) = of_nat (unat v + ?m * 2 ^ shift)"
    using Suc.prems(3,4) lowest by (intro or_shifted) linarith+
  have small: "n < 16" if "shift = 28"
    using Suc.prems(4) unfolding that by simp
  show ?case
  proof (cases "n < 128")
    case True
    then have "leb128 (Suc k) n = [of_nat n]" by simp
    moreover have "reads (varint_loop (Suc k) shift v) [of_nat n] (of_nat (unat v + n * 2 ^ shift))"
      unfolding varint_loop.simps using True small acc
      by (intro reads_last [OF reads_u8]) (auto simp: varint_byte Let_def intro: reads_return)
    ultimately show ?thesis by simp
  next
    case False
    then have "shift \<noteq> 28" using small by auto
    then have sh: "shift < 28" "k > 0" using Suc.prems(1) by presburger+
    let ?v = "of_nat (unat v + ?m * 2 ^ shift) :: u32"
    have uv: "unat ?v = unat v + ?m * 2 ^ shift"
    proof -
      have "unat v + ?m * 2 ^ shift < 2 ^ 32" using Suc.prems(4) lowest by linarith
      then show ?thesis by (simp only: unat_of_nat) simp
    qed
    have split: "n * 2 ^ shift = ?m * 2 ^ shift + n div 128 * 2 ^ (shift + 7)"
    proof -
      have "n * 2 ^ shift = (n div 128 * 128 + ?m) * 2 ^ shift" by (simp only: div_mult_mod_eq)
      then show ?thesis by (simp only: power_add add_mult_distrib mult.assoc) simp
    qed
    have "?m * 2 ^ shift \<le> 127 * 2 ^ shift" by (rule mult_le_mono1) (simp add: less_Suc_eq_le [symmetric])
    then have "unat v + ?m * 2 ^ shift < 128 * 2 ^ shift" using Suc.prems(3) by linarith
    then have "unat ?v < 2 ^ (shift + 7)" unfolding uv by (simp add: power_add)
    moreover have "unat ?v + n div 128 * 2 ^ (shift + 7) < 2 ^ 32"
      using Suc.prems(4) unfolding uv split by simp
    ultimately have "reads (varint_loop k (shift + 7) ?v) (leb128 k (n div 128))
        (of_nat (unat ?v + n div 128 * 2 ^ (shift + 7)))"
      using sh Suc.prems(1) by (intro Suc.IH) auto
    moreover have "unat ?v + n div 128 * 2 ^ (shift + 7) = unat v + n * 2 ^ shift"
      unfolding uv split by simp
    ultimately have "reads (varint_loop k (shift + 7) ?v) (leb128 k (n div 128)) (of_nat (unat v + n * 2 ^ shift))"
      by (simp only:)
    then show ?thesis
      unfolding varint_loop.simps leb128.simps using False sh acc
      by (intro reads_bind' [OF reads_u8]) (auto simp: varint_byte Let_def simp del: of_nat_add of_nat_mult)
  qed
qed simp

lemma reads_varint [reads_intros]: "reads varint (leb128 5 (unat w)) w"
proof -
  have "reads (varint_loop 5 0 0) (leb128 5 (unat w)) (of_nat (unat (0 :: u32) + unat w * 2 ^ 0))"
    using unat_bound [of w] by (intro reads_varint_loop) auto
  then show ?thesis by (simp add: varint_def)
qed

section \<open>JSON strings read back\<close>

text \<open>A JSON string after its opening quote (RFC 8259): the characters and the text after the closing quote.\<close>

definition json_escape :: "char \<Rightarrow> char option" where
  "json_escape c = map_of [(CHR 0x22, CHR 0x22), (CHR 0x5C, CHR 0x5C), (CHR ''/'', CHR ''/''), (CHR ''b'', CHR 0x08),
     (CHR ''f'', CHR 0x0C), (CHR ''n'', CHR 0x0A), (CHR ''r'', CHR 0x0D), (CHR ''t'', CHR 0x09)] c"

function json_chars :: "string \<Rightarrow> (string \<times> string) option" where
  "json_chars [] = None"
| "json_chars (c # cs) =
     (if c = CHR 0x22 then Some ([], cs)
      else if byte_of c < 32 then None
      else if c \<noteq> CHR 0x5C then map_option (\<lambda>(s, r). (c # s, r)) (json_chars cs)
      else if take 1 cs = ''u''
      then (if length cs < 5 then None
            else map_option (\<lambda>(s, r). (char_of (hex_value (take 4 (drop 1 cs))) # s, r)) (json_chars (drop 5 cs)))
      else (case cs of [] \<Rightarrow> None
            | e # ds \<Rightarrow> (case json_escape e of None \<Rightarrow> None
                | Some x \<Rightarrow> map_option (\<lambda>(s, r). (x # s, r)) (json_chars ds))))"
  by pat_completeness auto
termination
  by (relation "measure length") auto

lemma json_chars_quote_char:
  "json_chars (quote_char c @ t) = map_option (\<lambda>(s, r). (c # s, r)) (json_chars t)"
proof -
  have hex: "hex_value [CHR ''0'', CHR ''0'', hex_char (n div 16), hex_char (n mod 16)] = n" if "n < 32" for n
  proof -
    have "hex_fixed 4 n = [hex_char 0, hex_char 0, hex_char (n div 16), hex_char (n mod 16)]"
    proof -
      have "n div 16 div 16 = 0" "n div 16 div 16 div 16 = 0" "n div 16 mod 16 = n div 16" using that by auto
      moreover have "(4 :: nat) = Suc (Suc (Suc (Suc 0)))" by simp
      ultimately show ?thesis by (simp only: hex_fixed.simps append.simps mod_0)
    qed
    then show ?thesis using hex_value_fixed [of 4 n] that by (simp add: hex_char_def)
  qed
  have cs: "char_of (byte_of c) = c" by (simp add: byte_of_def)
  have chars: "char_of (8 :: nat) = CHR 0x08" "char_of (12 :: nat) = CHR 0x0C" "char_of (10 :: nat) = CHR 0x0A"
    "char_of (13 :: nat) = CHR 0x0D" "char_of (9 :: nat) = CHR 0x09" by code_simp+
  have bytes: "byte_of (CHR 0x5C) = 92" "byte_of (CHR ''u'') = 117" "byte_of (CHR 0x22) = 34" by code_simp+
  consider "c = CHR 0x22" | "c = CHR 0x5C" | "byte_of c \<in> {8, 12, 10, 13, 9}"
    | "c \<noteq> CHR 0x22" "c \<noteq> CHR 0x5C" "byte_of c \<notin> {8, 12, 10, 13, 9}" "byte_of c < 32"
    | "c \<noteq> CHR 0x22" "c \<noteq> CHR 0x5C" "byte_of c \<notin> {8, 12, 10, 13, 9}" "\<not> byte_of c < 32"
    by blast
  then show ?thesis
  proof cases
    case 3
    then have "c \<in> {CHR 0x08, CHR 0x0C, CHR 0x0A, CHR 0x0D, CHR 0x09}" using cs chars by (metis insert_iff empty_iff)
    then show ?thesis by (auto simp: quote_char_def byte_of_def json_escape_def)
  next
    case 4
    then have "quote_char c = [CHR 0x5C, CHR ''u'', CHR ''0'', CHR ''0'', hex_char (byte_of c div 16), hex_char (byte_of c mod 16)]"
      by (simp add: quote_char_def)
    then show ?thesis using hex [OF 4(4)] cs by (simp add: bytes)
  next
    case 5
    then show ?thesis by (simp add: quote_char_def)
  qed (simp_all add: quote_char_def bytes json_escape_def)
qed

text \<open>
  A quoted text is a JSON string that reads back as the original bytes, whatever follows it;
  control characters, quotes and backslashes never appear raw.
\<close>

theorem quote_roundtrip:
  "quote s = CHR 0x22 # tl (quote s) \<and> json_chars (tl (quote s) @ rest) = Some (s, rest)"
proof -
  have "json_chars (concat (map quote_char s) @ CHR 0x22 # rest) = Some (s, rest)" for s
    by (induction s) (simp_all add: json_chars_quote_char)
  then show ?thesis by (simp add: quote_def)
qed

end
