(* ===== verification/Geometry.thy ===== *)
theory Geometry
  imports Byte_Reader
begin

text \<open>
  WKB to WKT, \<open>ToStringRecursive\<close> and \<open>geometry\<close> of \<open>src/src/variant_decode.cpp\<close>. The text a C++
  loop writes piece by piece is the joined result of reading its items one after the other; the
  depth counter is kept as the number of levels left below \<open>maximum_depth\<close>. The second half gives
  an abstract geometry, its WKB encoding and its WKT text, and shows the decoder maps one to the other.
\<close>

definition maximum_depth :: nat where "maximum_depth = 64"

fun rd_each :: "nat \<Rightarrow> 'a read \<Rightarrow> 'a list read" where
  "rd_each 0 item = rd_return []"
| "rd_each (Suc n) item = rd_bind item (\<lambda>x. rd_bind (rd_each n item) (\<lambda>xs. rd_return (x # xs)))"

definition invalid_geometry :: "'a read" where
  "invalid_geometry = rd_fail ''Invalid VARIANT geometry payload''"

text \<open>Byte order, type and dimension flags of a (part of a) geometry.\<close>

definition geometry_header :: "(nat \<times> bool \<times> bool) read" where
  "geometry_header =
     rd_bind read_u8 (\<lambda>byte_order.
       if byte_order \<noteq> 1 then invalid_geometry
       else rd_bind read_u32 (\<lambda>meta.
         let low = unat (meta AND 0xFFFF); flag = low div 1000
         in rd_return (low mod 1000, odd flag, odd (flag div 2))))"

definition dimensions :: "bool \<Rightarrow> bool \<Rightarrow> nat" where
  "dimensions z m = 2 + (if z then 1 else 0) + (if m then 1 else 0)"

definition flag_str :: "bool \<Rightarrow> bool \<Rightarrow> string" where
  "flag_str z m = (if z then (if m then '' ZM '' else '' Z '') else if m then '' M '' else '' '')"

definition read_coordinate :: "dtoa \<Rightarrow> string read" where
  "read_coordinate dtoa = rd_bind read_u64 (\<lambda>d. rd_lift (real_text dtoa True d))"

definition read_vertex :: "dtoa \<Rightarrow> nat \<Rightarrow> string read" where
  "read_vertex dtoa dims = rd_bind (rd_each dims (read_coordinate dtoa)) (\<lambda>ts. rd_return (join '' '' ts))"

fun real_texts :: "dtoa \<Rightarrow> u64 list \<Rightarrow> (decode_error, string list) result" where
  "real_texts dtoa [] = Inr []"
| "real_texts dtoa (d # ds) = rbind (real_text dtoa True d) (\<lambda>t. rbind (real_texts dtoa ds) (\<lambda>ts. Inr (t # ts)))"

text \<open>The body of a POINT, whose parentheses a MULTIPOINT omits.\<close>

definition point_body :: "dtoa \<Rightarrow> bool \<Rightarrow> nat \<Rightarrow> string read" where
  "point_body dtoa parens dims =
     rd_bind (rd_each dims read_u64) (\<lambda>vert.
       if list_all is_nan vert then rd_return ''EMPTY''
       else rd_bind (rd_lift (real_texts dtoa vert)) (\<lambda>ts.
         rd_return (if parens then ''('' @ join '' '' ts @ '')'' else join '' '' ts)))"

text \<open>A counted list in parentheses, \<open>EMPTY\<close> when the count is zero.\<close>

definition counted :: "string read \<Rightarrow> string read" where
  "counted item =
     rd_bind read_u32 (\<lambda>cnt.
       if cnt = 0 then rd_return ''EMPTY''
       else rd_bind (rd_each (unat cnt) item) (\<lambda>ts. rd_return (''('' @ join '', '' ts @ '')'')))"

definition line_body :: "dtoa \<Rightarrow> nat \<Rightarrow> string read" where
  "line_body dtoa dims = counted (read_vertex dtoa dims)"

definition polygon_body :: "dtoa \<Rightarrow> nat \<Rightarrow> string read" where
  "polygon_body dtoa dims = counted (line_body dtoa dims)"

definition part :: "nat \<Rightarrow> bool \<Rightarrow> bool \<Rightarrow> string read \<Rightarrow> string read" where
  "part tag z m body =
     rd_bind geometry_header (\<lambda>(part_type, part_z, part_m).
       if part_type \<noteq> tag then invalid_geometry
       else if z \<noteq> part_z \<or> m \<noteq> part_m then invalid_geometry
       else body)"

definition named :: "string \<Rightarrow> bool \<Rightarrow> bool \<Rightarrow> string read \<Rightarrow> string read" where
  "named name z m body = rd_bind body (\<lambda>t. rd_return (name @ flag_str z m @ t))"

text \<open>The cases of the \<open>switch\<close>.\<close>

definition point_case :: "dtoa \<Rightarrow> bool \<Rightarrow> bool \<Rightarrow> string read" where
  "point_case dtoa z m = named ''POINT'' z m (point_body dtoa True (dimensions z m))"

definition linestring_case :: "dtoa \<Rightarrow> bool \<Rightarrow> bool \<Rightarrow> string read" where
  "linestring_case dtoa z m = named ''LINESTRING'' z m (line_body dtoa (dimensions z m))"

definition polygon_case :: "dtoa \<Rightarrow> bool \<Rightarrow> bool \<Rightarrow> string read" where
  "polygon_case dtoa z m = named ''POLYGON'' z m (polygon_body dtoa (dimensions z m))"

definition multipoint_case :: "dtoa \<Rightarrow> bool \<Rightarrow> bool \<Rightarrow> string read" where
  "multipoint_case dtoa z m = named ''MULTIPOINT'' z m (counted (part 1 z m (point_body dtoa False (dimensions z m))))"

definition multilinestring_case :: "dtoa \<Rightarrow> bool \<Rightarrow> bool \<Rightarrow> string read" where
  "multilinestring_case dtoa z m = named ''MULTILINESTRING'' z m (counted (part 2 z m (line_body dtoa (dimensions z m))))"

definition multipolygon_case :: "dtoa \<Rightarrow> bool \<Rightarrow> bool \<Rightarrow> string read" where
  "multipolygon_case dtoa z m = named ''MULTIPOLYGON'' z m (counted (part 3 z m (polygon_body dtoa (dimensions z m))))"

lemmas geometry_case_defs = point_case_def linestring_case_def polygon_case_def multipoint_case_def multilinestring_case_def multipolygon_case_def

fun ToStringRecursive :: "dtoa \<Rightarrow> nat \<Rightarrow> bool \<Rightarrow> bool \<Rightarrow> string read" where
  "ToStringRecursive dtoa 0 parent_z parent_m = invalid_geometry"
| "ToStringRecursive dtoa (Suc left) parent_z parent_m =
     rd_bind geometry_header (\<lambda>(type, z, m).
       if Suc left \<noteq> maximum_depth \<and> (parent_z \<noteq> z \<or> parent_m \<noteq> m) then invalid_geometry
       else if type = 1 then point_case dtoa z m
       else if type = 2 then linestring_case dtoa z m
       else if type = 3 then polygon_case dtoa z m
       else if type = 4 then multipoint_case dtoa z m
       else if type = 5 then multilinestring_case dtoa z m
       else if type = 6 then multipolygon_case dtoa z m
       else if type = 7 then named ''GEOMETRYCOLLECTION'' z m (counted (ToStringRecursive dtoa left z m))
       else invalid_geometry)"

definition geometry :: "dtoa \<Rightarrow> u8 list \<Rightarrow> (decode_error, string) result" where
  "geometry dtoa bytes =
     rbind (reader_init (Some bytes)) (\<lambda>r.
     rbind (ToStringRecursive dtoa maximum_depth False False r) (\<lambda>(text, r').
       if remaining r' \<noteq> 0 then Inl (Invalid ''Trailing VARIANT geometry bytes'') else Inr text))"

section \<open>Abstract geometries\<close>

type_synonym vertex = "u64 list"

datatype geom =
    Point vertex
  | LineString "vertex list"
  | Polygon "vertex list list"
  | MultiPoint "vertex list"
  | MultiLineString "vertex list list"
  | MultiPolygon "vertex list list list"
  | Collection "geom list"

fun geom_type :: "geom \<Rightarrow> nat" where
  "geom_type (Point v) = 1" | "geom_type (LineString vs) = 2" | "geom_type (Polygon rs) = 3"
| "geom_type (MultiPoint vs) = 4" | "geom_type (MultiLineString ls) = 5" | "geom_type (MultiPolygon ps) = 6"
| "geom_type (Collection gs) = 7"

definition wkb_header :: "nat \<Rightarrow> bool \<Rightarrow> bool \<Rightarrow> u8 list" where
  "wkb_header tag z m = 1 # le_bytes 4 (tag + 1000 * ((if z then 1 else 0) + (if m then 2 else 0)))"

definition wkb_double :: "u64 \<Rightarrow> u8 list" where
  "wkb_double d = le_bytes 8 (unat d)"

definition wkb_vertex :: "vertex \<Rightarrow> u8 list" where
  "wkb_vertex v = concat (map wkb_double v)"

definition wkb_list :: "('a \<Rightarrow> u8 list) \<Rightarrow> 'a list \<Rightarrow> u8 list" where
  "wkb_list enc xs = le_bytes 4 (length xs) @ concat (map enc xs)"

lemma wkb_list_cong [fundef_cong]:
  "xs = ys \<Longrightarrow> (\<And>x. x \<in> set ys \<Longrightarrow> enc x = enc' x) \<Longrightarrow> wkb_list enc xs = wkb_list enc' ys"
  by (auto simp: wkb_list_def cong: map_cong)

fun wkb :: "bool \<Rightarrow> bool \<Rightarrow> geom \<Rightarrow> u8 list" where
  "wkb z m (Point v) = wkb_header 1 z m @ wkb_vertex v"
| "wkb z m (LineString vs) = wkb_header 2 z m @ wkb_list wkb_vertex vs"
| "wkb z m (Polygon rs) = wkb_header 3 z m @ wkb_list (wkb_list wkb_vertex) rs"
| "wkb z m (MultiPoint vs) = wkb_header 4 z m @ wkb_list (\<lambda>v. wkb_header 1 z m @ wkb_vertex v) vs"
| "wkb z m (MultiLineString ls) = wkb_header 5 z m @ wkb_list (\<lambda>l. wkb_header 2 z m @ wkb_list wkb_vertex l) ls"
| "wkb z m (MultiPolygon ps) = wkb_header 6 z m @ wkb_list (\<lambda>p. wkb_header 3 z m @ wkb_list (wkb_list wkb_vertex) p) ps"
| "wkb z m (Collection gs) = wkb_header 7 z m @ wkb_list (wkb z m) gs"

text \<open>Well-formed below \<open>left\<close> levels: every vertex has all dimensions, every count fits 32 bits.\<close>

definition list_ok :: "('a \<Rightarrow> bool) \<Rightarrow> 'a list \<Rightarrow> bool" where
  "list_ok P xs \<longleftrightarrow> length xs < 2 ^ 32 \<and> (\<forall>x \<in> set xs. P x)"

definition vertex_ok :: "nat \<Rightarrow> vertex \<Rightarrow> bool" where
  "vertex_ok dims v \<longleftrightarrow> length v = dims"

lemma list_ok_cong [fundef_cong]:
  "xs = ys \<Longrightarrow> (\<And>x. x \<in> set ys \<Longrightarrow> P x = Q x) \<Longrightarrow> list_ok P xs = list_ok Q ys"
  by (auto simp: list_ok_def)

fun geom_ok :: "nat \<Rightarrow> nat \<Rightarrow> geom \<Rightarrow> bool" where
  "geom_ok 0 dims g = False"
| "geom_ok (Suc left) dims (Point v) = vertex_ok dims v"
| "geom_ok (Suc left) dims (LineString vs) = list_ok (vertex_ok dims) vs"
| "geom_ok (Suc left) dims (Polygon rs) = list_ok (list_ok (vertex_ok dims)) rs"
| "geom_ok (Suc left) dims (MultiPoint vs) = list_ok (vertex_ok dims) vs"
| "geom_ok (Suc left) dims (MultiLineString ls) = list_ok (list_ok (vertex_ok dims)) ls"
| "geom_ok (Suc left) dims (MultiPolygon ps) = list_ok (list_ok (list_ok (vertex_ok dims))) ps"
| "geom_ok (Suc left) dims (Collection gs) = list_ok (geom_ok left dims) gs"

text \<open>WKT, with the text of a coordinate given.\<close>

definition wkt_vertex :: "(u64 \<Rightarrow> string) \<Rightarrow> vertex \<Rightarrow> string" where
  "wkt_vertex num v = join '' '' (map num v)"

definition wkt_list :: "('a \<Rightarrow> string) \<Rightarrow> 'a list \<Rightarrow> string" where
  "wkt_list f xs = (if xs = [] then ''EMPTY'' else ''('' @ join '', '' (map f xs) @ '')'')"

lemma wkt_list_cong [fundef_cong]:
  "xs = ys \<Longrightarrow> (\<And>x. x \<in> set ys \<Longrightarrow> f x = g x) \<Longrightarrow> wkt_list f xs = wkt_list g ys"
  by (auto simp: wkt_list_def cong: map_cong)

definition wkt_point :: "(u64 \<Rightarrow> string) \<Rightarrow> bool \<Rightarrow> vertex \<Rightarrow> string" where
  "wkt_point num parens v =
     (if list_all is_nan v then ''EMPTY''
      else if parens then ''('' @ wkt_vertex num v @ '')'' else wkt_vertex num v)"

fun wkt :: "(u64 \<Rightarrow> string) \<Rightarrow> bool \<Rightarrow> bool \<Rightarrow> geom \<Rightarrow> string" where
  "wkt num z m (Point v) = ''POINT'' @ flag_str z m @ wkt_point num True v"
| "wkt num z m (LineString vs) = ''LINESTRING'' @ flag_str z m @ wkt_list (wkt_vertex num) vs"
| "wkt num z m (Polygon rs) = ''POLYGON'' @ flag_str z m @ wkt_list (wkt_list (wkt_vertex num)) rs"
| "wkt num z m (MultiPoint vs) = ''MULTIPOINT'' @ flag_str z m @ wkt_list (wkt_point num False) vs"
| "wkt num z m (MultiLineString ls) =
     ''MULTILINESTRING'' @ flag_str z m @ wkt_list (wkt_list (wkt_vertex num)) ls"
| "wkt num z m (MultiPolygon ps) =
     ''MULTIPOLYGON'' @ flag_str z m @ wkt_list (wkt_list (wkt_list (wkt_vertex num))) ps"
| "wkt num z m (Collection gs) = ''GEOMETRYCOLLECTION'' @ flag_str z m @ wkt_list (wkt num z m) gs"

section \<open>The decoder reads the encoding\<close>

definition dtoa_ok :: "dtoa \<Rightarrow> (u64 \<Rightarrow> string) \<Rightarrow> bool" where
  "dtoa_ok dtoa num \<longleftrightarrow> (\<forall>d. real_text dtoa True d = Inr (num d))"

lemma reads_each:
  assumes "\<And>x. x \<in> set xs \<Longrightarrow> reads item (enc x) (out x)"
  shows "reads (rd_each (length xs) item) (concat (map enc xs)) (map out xs)"
  using assms
proof (induction xs)
  case (Cons x xs)
  have "reads (rd_bind item (\<lambda>x. rd_bind (rd_each (length xs) item) (\<lambda>xs. rd_return (x # xs))))
      (enc x @ (concat (map enc xs) @ [])) (out x # map out xs)"
    using Cons by (intro reads_bind [OF _ reads_bind [OF _ reads_return]]) auto
  then show ?case by simp
qed (simp add: reads_return)

lemma reads_header:
  assumes "0 < tag" "tag < 8"
  shows "reads geometry_header (wkb_header tag z m) (tag, z, m)"
proof -
  define n where "n = tag + 1000 * ((if z then 1 else 0) + (if m then 2 else 0))"
  have n: "n < 2 ^ 16" using assms by (simp add: n_def)
  have u: "unat (of_nat n :: u32) = n" using n by (simp add: unat_of_nat)
  have low: "unat ((of_nat n :: u32) AND 0xFFFF) = n"
  proof -
    have "(0xFFFF :: u32) = mask 16" by (simp add: mask_eq_exp_minus_1)
    then have "unat ((of_nat n :: u32) AND 0xFFFF) = take_bit 16 (unat (of_nat n :: u32))"
      by (simp only: take_bit_eq_mask [symmetric] unsigned_take_bit_eq)
    with n u show ?thesis by (simp add: take_bit_nat_eq_self)
  qed
  have div: "n mod 1000 = tag" "odd (n div 1000) = z" "odd (n div 1000 div 2) = m"
  proof -
    define f :: nat where "f = (if z then 1 else 0) + (if m then 2 else 0)"
    have f: "odd f = z" "odd (f div 2) = m" by (auto simp: f_def)
    have nf: "n = tag + 1000 * f" by (simp add: n_def f_def)
    then have d: "n div 1000 = f" "n mod 1000 = tag" using assms by simp_all
    show "n mod 1000 = tag" by (fact d(2))
    show "odd (n div 1000) = z" "odd (n div 1000 div 2) = m" unfolding d(1) by (fact f)+
  qed
  have r32: "reads read_u32 (le_bytes 4 n) (of_nat n)" using reads_u32 [of "of_nat n"] u by simp
  have hdr: "wkb_header tag z m = [1] @ le_bytes 4 n" by (simp add: wkb_header_def n_def)
  show ?thesis
    unfolding geometry_header_def hdr
    by (rule reads_bind [OF reads_u8], simp only: not_True_eq_False if_False simp_thms,
        rule reads_last [OF r32]) (simp add: low div Let_def reads_return)
qed


lemma reads_coordinate: "dtoa_ok dtoa num \<Longrightarrow> reads (read_coordinate dtoa) (wkb_double d) (num d)"
  unfolding read_coordinate_def wkb_double_def
  by (rule reads_last [OF reads_u64 reads_lift]) (simp add: dtoa_ok_def)

lemma reads_vertex:
  assumes "dtoa_ok dtoa num" "vertex_ok dims v"
  shows "reads (read_vertex dtoa dims) (wkb_vertex v) (wkt_vertex num v)"
proof -
  have "reads (rd_each (length v) (read_coordinate dtoa)) (concat (map wkb_double v)) (map num v)"
    by (rule reads_each) (rule reads_coordinate [OF assms(1)])
  with assms(2) show ?thesis
    unfolding read_vertex_def wkb_vertex_def wkt_vertex_def
    by (intro reads_last) (auto simp: vertex_ok_def intro: reads_return)
qed

lemma real_texts_ok: "dtoa_ok dtoa num \<Longrightarrow> real_texts dtoa v = Inr (map num v)"
  by (induction v) (auto simp: dtoa_ok_def)

lemma reads_point_body:
  assumes "dtoa_ok dtoa num" "vertex_ok dims v"
  shows "reads (point_body dtoa parens dims) (wkb_vertex v) (wkt_point num parens v)"
proof -
  have "reads (rd_each (length v) read_u64) (concat (map wkb_double v)) (map id v)"
    by (rule reads_each) (simp add: wkb_double_def reads_u64)
  then have v: "reads (rd_each dims read_u64) (wkb_vertex v) v"
    using assms(2) by (simp add: vertex_ok_def wkb_vertex_def)
  have "reads (rd_bind (rd_lift (real_texts dtoa v))
      (\<lambda>ts. rd_return (if parens then ''('' @ join '' '' ts @ '')'' else join '' '' ts))) []
      (if parens then ''('' @ wkt_vertex num v @ '')'' else wkt_vertex num v)"
    unfolding wkt_vertex_def by (rule reads_last [OF reads_lift [OF real_texts_ok [OF assms(1)]] reads_return])
  with v show ?thesis
    unfolding point_body_def wkt_point_def by (intro reads_last) (auto intro: reads_return)
qed

lemma reads_counted:
  assumes "length xs < 2 ^ 32" "\<And>x. x \<in> set xs \<Longrightarrow> reads item (enc x) (f x)"
  shows "reads (counted item) (wkb_list enc xs) (wkt_list f xs)"
proof -
  have u: "unat (of_nat (length xs) :: u32) = length xs" using assms(1) by (simp add: unat_of_nat)
  then have c: "reads read_u32 (le_bytes 4 (length xs)) (of_nat (length xs))"
    using reads_u32 [of "of_nat (length xs)"] by simp
  have z: "(of_nat (length xs) :: u32) = 0 \<longleftrightarrow> xs = []"
  proof
    assume "(of_nat (length xs) :: u32) = 0"
    then have "length xs = 0" using u by simp
    then show "xs = []" by simp
  qed simp
  show ?thesis
  proof (cases "xs = []")
    case True
    then have "reads (counted item) (le_bytes 4 (length xs)) ''EMPTY''"
      unfolding counted_def using z by (intro reads_last [OF c]) (simp add: reads_return)
    with True show ?thesis by (simp add: wkb_list_def wkt_list_def)
  next
    case False
    have "reads (rd_each (length xs) item) (concat (map enc xs)) (map f xs)"
      using assms(2) by (rule reads_each)
    then have "reads (rd_bind (rd_each (length xs) item) (\<lambda>ts. rd_return (''('' @ join '', '' ts @ '')'')))
        (concat (map enc xs)) (''('' @ join '', '' (map f xs) @ '')'')"
      by (rule reads_last) (rule reads_return)
    with False show ?thesis
      unfolding counted_def wkb_list_def wkt_list_def using z u
      by (intro reads_bind [OF c]) simp
  qed
qed

lemma reads_line_body:
  assumes "dtoa_ok dtoa num" "list_ok (vertex_ok dims) vs"
  shows "reads (line_body dtoa dims) (wkb_list wkb_vertex vs) (wkt_list (wkt_vertex num) vs)"
  using assms unfolding line_body_def by (intro reads_counted reads_vertex) (auto simp: list_ok_def)

lemma reads_polygon_body:
  assumes "dtoa_ok dtoa num" "list_ok (list_ok (vertex_ok dims)) rs"
  shows "reads (polygon_body dtoa dims) (wkb_list (wkb_list wkb_vertex) rs) (wkt_list (wkt_list (wkt_vertex num)) rs)"
  using assms unfolding polygon_body_def by (intro reads_counted reads_line_body) (auto simp: list_ok_def)

lemma reads_part:
  assumes "0 < tag" "tag < 8" "reads body bs t"
  shows "reads (part tag z m body) (wkb_header tag z m @ bs) t"
  unfolding part_def using assms(3) by (intro reads_bind [OF reads_header [OF assms(1,2)]]) simp

lemma reads_named:
  "reads body bs t \<Longrightarrow> u = name @ flag_str z m @ t \<Longrightarrow> reads (named name z m body) bs u"
  unfolding named_def by (simp only:) (erule reads_last, rule reads_return)

text \<open>One level of the decoder, after its header.\<close>

definition level_body :: "dtoa \<Rightarrow> nat \<Rightarrow> bool \<Rightarrow> bool \<Rightarrow> nat \<Rightarrow> string read" where
  "level_body dtoa left z m tag =
     (if tag = 1 then point_case dtoa z m
      else if tag = 2 then linestring_case dtoa z m
      else if tag = 3 then polygon_case dtoa z m
      else if tag = 4 then multipoint_case dtoa z m
      else if tag = 5 then multilinestring_case dtoa z m
      else if tag = 6 then multipolygon_case dtoa z m
      else if tag = 7 then named ''GEOMETRYCOLLECTION'' z m (counted (ToStringRecursive dtoa left z m))
      else invalid_geometry)"

lemma reads_level:
  assumes "0 < tag" "tag < 8" "Suc left = maximum_depth \<or> pz = z \<and> pm = m" "reads (level_body dtoa left z m tag) bs t"
  shows "reads (ToStringRecursive dtoa (Suc left) pz pm) (wkb_header tag z m @ bs) t"
proof -
  have c: "\<not> (Suc left \<noteq> maximum_depth \<and> (pz \<noteq> z \<or> pm \<noteq> m))" using assms(3) by blast
  show ?thesis
    unfolding ToStringRecursive.simps
    by (rule reads_bind [OF reads_header [OF assms(1,2)]])
       (simp only: prod.case c if_False level_body_def [symmetric] assms(4))
qed

lemmas reads_bodies = reads_named reads_point_body reads_line_body reads_polygon_body reads_counted reads_part

lemma reads_ToString:
  assumes "dtoa_ok dtoa num" "geom_ok left (dimensions z m) g" "left \<le> maximum_depth"
    "left = maximum_depth \<or> pz = z \<and> pm = m"
  shows "reads (ToStringRecursive dtoa left pz pm) (wkb z m g) (wkt num z m g)"
  using assms(2-)
proof (induction g arbitrary: left pz pm)
  case (Collection gs)
  then obtain l where l: "left = Suc l" by (cases left) auto
  show ?case
    unfolding l wkb.simps wkt.simps using Collection l
    by (intro reads_level) (auto simp: level_body_def geometry_case_defs list_ok_def intro!: reads_named reads_counted)
next
  case (Point v)
  then obtain l where l: "left = Suc l" by (cases left) auto
  show ?case
    unfolding l wkb.simps wkt.simps using Point l
    by (intro reads_level) (auto simp: level_body_def geometry_case_defs intro!: reads_bodies assms(1))
next
  case (LineString vs)
  then obtain l where l: "left = Suc l" by (cases left) auto
  show ?case
    unfolding l wkb.simps wkt.simps using LineString l
    by (intro reads_level) (auto simp: level_body_def geometry_case_defs intro!: reads_named reads_line_body assms(1))
next
  case (Polygon rs)
  then obtain l where l: "left = Suc l" by (cases left) auto
  show ?case
    unfolding l wkb.simps wkt.simps using Polygon l
    by (intro reads_level) (auto simp: level_body_def geometry_case_defs intro!: reads_named reads_polygon_body assms(1))
next
  case (MultiPoint vs)
  then obtain l where l: "left = Suc l" by (cases left) auto
  show ?case
    unfolding l wkb.simps wkt.simps using MultiPoint l
    by (intro reads_level) (auto simp: level_body_def geometry_case_defs list_ok_def
        intro!: reads_named reads_counted reads_part reads_point_body assms(1))
next
  case (MultiLineString ls)
  then obtain l where l: "left = Suc l" by (cases left) auto
  show ?case
    unfolding l wkb.simps wkt.simps using MultiLineString l
    by (intro reads_level) (auto simp: level_body_def geometry_case_defs list_ok_def [of "list_ok (vertex_ok (dimensions z m))"]
        intro!: reads_named reads_counted reads_part reads_line_body assms(1))
next
  case (MultiPolygon ps)
  then obtain l where l: "left = Suc l" by (cases left) auto
  show ?case
    unfolding l wkb.simps wkt.simps using MultiPolygon l
    by (intro reads_level) (auto simp: level_body_def geometry_case_defs list_ok_def [of "list_ok (list_ok (vertex_ok (dimensions z m)))"]
        intro!: reads_named reads_counted reads_part reads_polygon_body assms(1))
qed

text \<open>
  C11. A VARIANT geometry payload is decoded to the WKT text of the geometry its WKB bytes
  encode, for every geometry type, every dimension flag and up to 64 nested levels; a payload with
  anything after the geometry is refused.
\<close>

theorem geometry_roundtrip:
  assumes "dtoa_ok dtoa num" and "geom_ok maximum_depth (dimensions z m) g"
  shows "geometry dtoa (wkb z m g) = Inr (wkt num z m g)
    \<and> geometry dtoa (wkb z m g @ b # bs) = Inl (Invalid ''Trailing VARIANT geometry bytes'')"
proof -
  have r: "reads (ToStringRecursive dtoa maximum_depth False False) (wkb z m g) (wkt num z m g)"
    using reads_ToString [OF assms] by simp
  have "ToStringRecursive dtoa maximum_depth False False \<lparr>rd_data = wkb z m g @ post, rd_position = 0\<rparr>
      = Inr (wkt num z m g, \<lparr>rd_data = wkb z m g @ post, rd_position = length (wkb z m g)\<rparr>)" for post
    using r [unfolded reads_def, rule_format, of "[]" post] by simp
  from this [of "[]"] this [of "b # bs"] show ?thesis
    by (simp add: geometry_def reader_init_def remaining_def)
qed

definition sample_dtoa :: dtoa where
  "sample_dtoa d = Some (''15'', 1, signbit d)"

definition sample_num :: "u64 \<Rightarrow> string" where
  "sample_num d = (case real_text sample_dtoa True d of Inr t \<Rightarrow> t | Inl e \<Rightarrow> [])"

lemma sample_dtoa_ok: "dtoa_ok sample_dtoa sample_num"
  unfolding dtoa_ok_def sample_num_def
  by (auto simp: real_text_def sample_dtoa_def Let_def split: sum.splits)

theorem geometry_roundtrip_witness:
  "geometry sample_dtoa (wkb False False (MultiPoint [[0x3ff8000000000000, 0], [0x7ff8000000000000, 0x7ff8000000000000]]))
     = Inr ''MULTIPOINT (1.5 0, EMPTY)''"
proof -
  let ?g = "MultiPoint [[0x3ff8000000000000, 0], [0x7ff8000000000000, 0x7ff8000000000000]]"
  have depth: "maximum_depth = Suc 63" by (simp add: maximum_depth_def)
  have ok: "geom_ok maximum_depth (dimensions False False) ?g"
    unfolding depth geom_ok.simps by (simp add: list_ok_def vertex_ok_def dimensions_def)
  have wkt: "wkt sample_num False False ?g = ''MULTIPOINT (1.5 0, EMPTY)''" by code_simp
  show ?thesis using geometry_roundtrip [OF sample_dtoa_ok ok] unfolding wkt by blast
qed

end
