(* ===== verification/Variant.thy ===== *)
theory Variant
  imports Prelude Errors Bignum Logical_Type Php_Value Geometry "HOL-Library.List_Lexorder" "HOL-Library.Char_ord"
begin

text \<open>
  The VARIANT decoder of \<open>src/src/variant_decode.cpp\<close>: a VARIANT row is a tree of value indexes
  into four columns (keys, children, values, payload), rendered as the JSON text of the value.

  A native column is its type, its validity mask and its data array; a missing mask or array is
  \<open>None\<close>, as the null pointer of the C API. Reading an array past its end is \<open>Undefined_read\<close>.
\<close>

section \<open>Native columns\<close>

record 'a column =
  col_type :: duckdb_type
  col_valid :: "(nat \<Rightarrow> bool) option"
  col_data :: "'a list option"

definition row_is_null :: "(nat \<Rightarrow> bool) option \<Rightarrow> nat \<Rightarrow> bool" where
  "row_is_null validity row = (case validity of None \<Rightarrow> False | Some valid \<Rightarrow> \<not> valid row)"

definition array_read :: "'a list \<Rightarrow> nat \<Rightarrow> (decode_error, 'a) result" where
  "array_read data row = (if row < length data then Inr (data ! row) else Inl Undefined_read)"

definition require_type :: "'a column option \<Rightarrow> duckdb_type \<Rightarrow> (decode_error, 'a column) result" where
  "require_type vector expected =
     (case vector of
        None \<Rightarrow> Inl (Invalid ''Missing VARIANT child vector'')
      | Some c \<Rightarrow> if col_type c \<noteq> expected then Inl (Invalid ''Unsupported VARIANT child layout'') else Inr c)"

definition cell :: "'a column \<Rightarrow> nat \<Rightarrow> (decode_error, 'a) result" where
  "cell c row =
     (if row_is_null (col_valid c) row then Inl (Invalid ''NULL VARIANT metadata value'')
      else case col_data c of
        None \<Rightarrow> Inl (Invalid ''Missing VARIANT metadata value'')
      | Some data \<Rightarrow> array_read data row)"

text \<open>A LIST column: its entries are pairs of offset and length into a child of \<open>list_size\<close> rows.\<close>

record 'c list_vector =
  list_entries :: "(nat \<times> nat) column"
  list_size :: nat
  list_child :: "'c option"

text \<open>A STRUCT column with the number of fields of its type.\<close>

record ('a, 'b) entry_vector =
  struct_type :: duckdb_type
  struct_fields :: nat
  struct_first :: "'a column option"
  struct_second :: "'b column option"

text \<open>A VARIANT vector: \<open>None\<close> children are those the C API does not return.\<close>

record variant_vector =
  vv_type :: duckdb_type
  vv_valid :: "(nat \<Rightarrow> bool) option"
  vv_keys :: "string column list_vector option"
  vv_children :: "(u32, u32) entry_vector list_vector option"
  vv_values :: "(u8, u32) entry_vector list_vector option"
  vv_payload :: "u8 list column option"

text \<open>The constructor of \<open>List\<close>, with the check of the child's type as a function.\<close>

record 'c list_view =
  view_entry :: "nat \<times> nat"
  view_child :: 'c

definition list_view ::
    "'c list_vector option \<Rightarrow> nat \<Rightarrow> ('c option \<Rightarrow> (decode_error, 'c) result) \<Rightarrow> (decode_error, 'c list_view) result" where
  "list_view input row require_child =
     rbind (require_type (map_option list_entries input) T_LIST) (\<lambda>c.
       let lv = the input in
       if row_is_null (col_valid c) row then Inl (Invalid ''NULL VARIANT metadata list'')
       else case col_data c of
         None \<Rightarrow> Inl (Invalid ''Missing VARIANT metadata list data'')
       | Some entries \<Rightarrow>
           rbind (array_read entries row) (\<lambda>(off, len).
             if off > list_size lv \<or> len > list_size lv - off
             then Inl (Invalid ''VARIANT list range is out of bounds'')
             else rbind (require_child (list_child lv)) (\<lambda>child.
               Inr \<lparr>view_entry = (off, len), view_child = child\<rparr>)))"

definition list_index :: "'c list_view \<Rightarrow> u32 \<Rightarrow> (decode_error, nat) result" where
  "list_index l relative =
     (if unat relative \<ge> snd (view_entry l) then Inl (Invalid ''VARIANT index is out of bounds'')
      else Inr (fst (view_entry l) + unat relative))"

text \<open>\<open>require_type\<close> and \<open>field\<close> on a struct column.\<close>

definition require_struct :: "('a, 'b) entry_vector option \<Rightarrow> (decode_error, ('a, 'b) entry_vector) result" where
  "require_struct vector =
     (case vector of
        None \<Rightarrow> Inl (Invalid ''Missing VARIANT child vector'')
      | Some v \<Rightarrow> if struct_type v \<noteq> T_STRUCT then Inl (Invalid ''Unsupported VARIANT child layout'') else Inr v)"

definition struct_field ::
    "('a, 'b) entry_vector \<Rightarrow> 'c column option \<Rightarrow> duckdb_type \<Rightarrow> (decode_error, 'c column) result" where
  "struct_field v child expected =
     (if struct_type v \<noteq> T_STRUCT \<or> struct_fields v \<noteq> 2 then Inl (Invalid ''Unsupported VARIANT entry layout'')
      else require_type child expected)"

section \<open>The decoder\<close>

record decoder =
  dec_keys :: "string column list_view"
  dec_children :: "(nat \<times> nat)"
  dec_values :: "(nat \<times> nat)"
  dec_keys_index :: "u32 column"
  dec_values_index :: "u32 column"
  dec_type_id :: "u8 column"
  dec_byte_offset :: "u32 column"
  dec_blob :: reader

definition decoder_payload :: "variant_vector \<Rightarrow> nat \<Rightarrow> (decode_error, reader) result" where
  "decoder_payload v row =
     rbind (require_type (vv_payload v) T_BLOB) (\<lambda>c.
       case col_data c of
         None \<Rightarrow> Inl (Invalid ''Missing VARIANT blob data'')
       | Some data \<Rightarrow>
           if row_is_null (col_valid c) row then Inl (Invalid ''NULL VARIANT blob data'')
           else rbind (array_read data row) (\<lambda>bytes. reader_init (Some bytes)))"

definition decoder_init :: "variant_vector \<Rightarrow> nat \<Rightarrow> (decode_error, decoder) result" where
  "decoder_init v row =
     rbind (list_view (vv_keys v) row (\<lambda>c. require_type c T_VARCHAR)) (\<lambda>keys.
     rbind (list_view (vv_children v) row require_struct) (\<lambda>children.
     rbind (list_view (vv_values v) row require_struct) (\<lambda>values.
     rbind (struct_field (view_child children) (struct_first (view_child children)) T_UINTEGER) (\<lambda>keys_index.
     rbind (struct_field (view_child children) (struct_second (view_child children)) T_UINTEGER) (\<lambda>values_index.
     rbind (struct_field (view_child values) (struct_first (view_child values)) T_UTINYINT) (\<lambda>type_id.
     rbind (struct_field (view_child values) (struct_second (view_child values)) T_UINTEGER) (\<lambda>byte_offset.
     rbind (decoder_payload v row) (\<lambda>blob.
       Inr \<lparr>dec_keys = keys, dec_children = view_entry children, dec_values = view_entry values,
            dec_keys_index = keys_index, dec_values_index = values_index, dec_type_id = type_id,
            dec_byte_offset = byte_offset, dec_blob = blob\<rparr>))))))))"

definition entry_index :: "nat \<times> nat \<Rightarrow> u32 \<Rightarrow> (decode_error, nat) result" where
  "entry_index e relative = list_index \<lparr>view_entry = e, view_child = ()\<rparr> relative"

text \<open>
  Scalars the engine renders: the argument of \<open>duckdb_create_*\<close>. \<open>engine v\<close> is \<open>None\<close> when the
  value cannot be created and \<open>Some None\<close> when \<open>duckdb_get_varchar\<close> returns nothing.
\<close>

datatype native_scalar =
    NS_hugeint u64 u64 | NS_uhugeint u64 u64 | NS_decimal nat nat u64 u64
  | NS_blob "u8 list" | NS_bignum "u8 list" bool | NS_bit "u8 list" | NS_uuid u64 u64
  | NS_date u32 | NS_time u64 | NS_time_ns u64 | NS_timestamp_s u64 | NS_timestamp_ms u64
  | NS_timestamp u64 | NS_timestamp_ns u64 | NS_time_tz u64 | NS_timestamp_tz u64
  | NS_interval u32 u32 u64 | NS_timestamp_tz_ns u64

record engine =
  eng_scalar :: "native_scalar \<Rightarrow> string option option"
  eng_dtoa :: dtoa
  eng_version :: "string option"

definition scalar :: "engine \<Rightarrow> native_scalar \<Rightarrow> (decode_error, string) result" where
  "scalar eng v =
     (case eng_scalar eng v of
        None \<Rightarrow> Inl (Invalid ''Unable to construct VARIANT scalar'')
      | Some None \<Rightarrow> Inl (Invalid ''Unable to render VARIANT scalar'')
      | Some (Some t) \<Rightarrow> Inr t)"

definition variant_bignum :: "engine \<Rightarrow> u8 list \<Rightarrow> (decode_error, string) result" where
  "variant_bignum eng bytes =
     (let size = length bytes in
      if size < 4 \<or> size - 3 > 0x7fffff then Inl (Invalid ''Invalid VARIANT BIGNUM length'')
      else let negative = (bytes ! 0 AND 128 = 0);
               magnitude = magnitude_byte negative;
               declared = unat (magnitude (bytes ! 0) AND 127) * 65536 + unat (magnitude (bytes ! 1)) * 256
                          + unat (magnitude (bytes ! 2))
        in if declared \<noteq> size - 3 \<or> (declared > 1 \<and> magnitude (bytes ! 3) = 0)
              \<or> (negative \<and> declared = 1 \<and> magnitude (bytes ! 3) = 0)
           then Inl (Invalid ''Invalid VARIANT BIGNUM header'')
           else scalar eng (NS_bignum (map magnitude (drop 3 bytes)) negative))"

definition sign_extend :: "int \<Rightarrow> u64 \<times> u64" where
  "sign_extend small = (of_int small, if small < 0 then - 1 else 0)"

definition read_hugeint :: "(u64 \<times> u64) read" where
  "read_hugeint = rd_bind read_u64 (\<lambda>lower. rd_bind read_u64 (\<lambda>upper. rd_return (lower, upper)))"

definition variant_decimal :: "engine \<Rightarrow> string read" where
  "variant_decimal eng =
     rd_bind varint (\<lambda>width. rd_bind varint (\<lambda>scale.
       let w = unat width; s = unat scale in
       if w = 0 \<or> w > 38 \<or> s > w then rd_fail ''Invalid VARIANT decimal width/scale''
       else rd_bind
         (if w > 18 then read_hugeint
          else rd_bind (if w > 9 then rd_bind read_u64 (\<lambda>x. rd_return (sint x))
                        else if w > 4 then rd_bind read_u32 (\<lambda>x. rd_return (sint x))
                        else rd_bind read_u16 (\<lambda>x. rd_return (sint x)))
                 (\<lambda>small. rd_return (sign_extend small)))
         (\<lambda>(lower, upper). rd_bind (rd_lift (scalar eng (NS_decimal w s lower upper))) (\<lambda>rendered.
           rd_return (if w = s
             then (if take 1 rendered = ''-'' then ''-0'' @ drop 1 rendered else ''0'' @ rendered)
             else rendered)))))"

text \<open>A quoted scalar of fixed size.\<close>

definition quoted_word :: "engine \<Rightarrow> 'w read \<Rightarrow> ('w \<Rightarrow> native_scalar) \<Rightarrow> string read" where
  "quoted_word eng rd mk = rd_bind rd (\<lambda>w. rd_bind (rd_lift (scalar eng (mk w))) (\<lambda>t. rd_return (quote t)))"

definition length_prefixed :: "engine \<Rightarrow> nat \<Rightarrow> string read" where
  "length_prefixed eng tag =
     rd_bind varint (\<lambda>len. rd_bind (take_bytes (unat len)) (\<lambda>data.
       if tag = 16 then rd_return (quote (bytes_text data))
       else if tag = 17 then rd_bind (rd_lift (scalar eng (NS_blob data))) (\<lambda>t. rd_return (quote t))
       else if tag = 31 then rd_lift (variant_bignum eng data)
       else if tag = 32
       then if unat len < 2 \<or> data ! 0 > 7 then rd_fail ''Invalid VARIANT bitstring''
            else rd_bind (rd_lift (scalar eng (NS_bit data))) (\<lambda>t. rd_return (quote t))
       else rd_bind (rd_lift (geometry (eng_dtoa eng) data)) (\<lambda>t. rd_return (quote t))))"

text \<open>The cases of the \<open>switch\<close> that hold no other value.\<close>

definition render_leaf :: "engine \<Rightarrow> nat \<Rightarrow> string read" where
  "render_leaf eng tag =
     (if tag = 0 then rd_return ''null''
      else if tag = 1 then rd_return ''true''
      else if tag = 2 then rd_return ''false''
      else if tag = 3 then rd_bind read_u8 (\<lambda>x. rd_return (dec_int (sint x)))
      else if tag = 4 then rd_bind read_u16 (\<lambda>x. rd_return (dec_int (sint x)))
      else if tag = 5 then rd_bind read_u32 (\<lambda>x. rd_return (dec_int (sint x)))
      else if tag = 6 then rd_bind read_u64 (\<lambda>x. rd_return (dec_int (sint x)))
      else if tag = 7 then rd_bind read_hugeint (\<lambda>(l, u). rd_lift (scalar eng (NS_hugeint l u)))
      else if tag = 8 then rd_bind read_u8 (\<lambda>x. rd_return (dec_string (unat x)))
      else if tag = 9 then rd_bind read_u16 (\<lambda>x. rd_return (dec_string (unat x)))
      else if tag = 10 then rd_bind read_u32 (\<lambda>x. rd_return (dec_string (unat x)))
      else if tag = 11 then rd_bind read_u64 (\<lambda>x. rd_return (dec_string (unat x)))
      else if tag = 12 then rd_bind read_hugeint (\<lambda>(l, u). rd_lift (scalar eng (NS_uhugeint l u)))
      else if tag = 13 then rd_bind read_u32 (\<lambda>x. rd_lift (real_text (eng_dtoa eng) False (float_to_double x)))
      else if tag = 14 then rd_bind read_u64 (\<lambda>x. rd_lift (real_text (eng_dtoa eng) False x))
      else if tag = 15 then variant_decimal eng
      else if tag \<in> {16, 17, 31, 32, 33} then length_prefixed eng tag
      else if tag = 18 then quoted_word eng read_hugeint (\<lambda>(l, u). NS_uuid l (u XOR push_bit 63 1))
      else if tag = 19 then quoted_word eng read_u32 NS_date
      else if tag = 20 then quoted_word eng read_u64 NS_time
      else if tag = 21 then quoted_word eng read_u64 NS_time_ns
      else if tag = 22 then quoted_word eng read_u64 NS_timestamp_s
      else if tag = 23 then quoted_word eng read_u64 NS_timestamp_ms
      else if tag = 24 then quoted_word eng read_u64 NS_timestamp
      else if tag = 25 then quoted_word eng read_u64 NS_timestamp_ns
      else if tag = 26 then quoted_word eng read_u64 NS_time_tz
      else if tag = 27 then quoted_word eng read_u64 NS_timestamp_tz
      else if tag = 28
      then quoted_word eng (rd_bind read_u32 (\<lambda>mo. rd_bind read_u32 (\<lambda>d. rd_bind read_u64 (\<lambda>us. rd_return (mo, d, us)))))
             (\<lambda>(mo, d, us). NS_interval mo d us)
      else if tag = 34 then quoted_word eng read_u64 NS_timestamp_tz_ns
      else rd_fail ''Unsupported VARIANT type tag'')"

text \<open>The tag of a value and a reader at its payload.\<close>

definition value_entry :: "decoder \<Rightarrow> u32 \<Rightarrow> (decode_error, u8 \<times> reader) result" where
  "value_entry c index =
     rbind (entry_index (dec_values c) index) (\<lambda>row.
     rbind (cell (dec_type_id c) row) (\<lambda>tag.
     rbind (cell (dec_byte_offset c) row) (\<lambda>off.
     rbind (reader_offset (unat off) (dec_blob c)) (\<lambda>r. Inr (tag, r)))))"

definition child_range :: "decoder \<Rightarrow> reader \<Rightarrow> (decode_error, u32 \<times> u32) result" where
  "child_range c r =
     rbind (varint r) (\<lambda>(cnt, r1).
     rbind (if cnt = 0 then Inr (0, r1) else varint r1) (\<lambda>(first, r2).
       let len = snd (dec_children c) in
       if unat first > len \<or> unat cnt > len - unat first
       then Inl (Invalid ''VARIANT child range is out of bounds'')
       else Inr (first, cnt)))"

definition child_key :: "decoder \<Rightarrow> nat \<Rightarrow> (decode_error, string) result" where
  "child_key c child_row =
     rbind (cell (dec_keys_index c) child_row) (\<lambda>k.
     rbind (list_index (dec_keys c) k) (\<lambda>key_row. cell (view_child (dec_keys c)) key_row))"

fun for_indexes :: "nat \<Rightarrow> nat \<Rightarrow> (nat \<Rightarrow> (decode_error, 'a) result) \<Rightarrow> (decode_error, 'a list) result" where
  "for_indexes i 0 f = Inr []"
| "for_indexes i (Suc n) f = rbind (f i) (\<lambda>x. rbind (for_indexes (Suc i) n f) (\<lambda>xs. Inr (x # xs)))"

text \<open>A repeated key overwrites the first field of that name.\<close>

fun put_field :: "(string \<times> string) list \<Rightarrow> string \<times> string \<Rightarrow> (string \<times> string) list" where
  "put_field [] kv = [kv]"
| "put_field (f # fs) kv = (if fst f = fst kv then (fst f, snd kv) # fs else f # put_field fs kv)"

definition object_fields :: "(string \<times> string) list \<Rightarrow> (string \<times> string) list" where
  "object_fields kvs = sort_key fst (foldl put_field [] kvs)"

definition object_text :: "(string \<times> string) list \<Rightarrow> string" where
  "object_text kvs = ''{'' @ join '','' (map (\<lambda>(k, v). quote k @ '':'' @ v) (object_fields kvs)) @ ''}''"

definition array_text :: "string list \<Rightarrow> string" where
  "array_text ts = ''['' @ join '','' ts @ '']''"

text \<open>One child of an object or array: its value is rendered before its key is read.\<close>

definition render_child ::
    "decoder \<Rightarrow> bool \<Rightarrow> (u32 \<Rightarrow> (decode_error, string) result) \<Rightarrow> u32 \<Rightarrow> nat \<Rightarrow> (decode_error, string \<times> string) result" where
  "render_child c is_array rend first i =
     rbind (entry_index (dec_children c) (first + of_nat i)) (\<lambda>child_row.
     rbind (cell (dec_values_index c) child_row) (\<lambda>child.
     rbind (rend child) (\<lambda>text.
       if is_array then Inr ([], text)
       else rbind (child_key c child_row) (\<lambda>key. Inr (key, text)))))"

text \<open>\<open>render\<close>, with the depth as the number of levels left: \<open>maximum_depth + 1\<close> at the root.\<close>

fun render :: "engine \<Rightarrow> decoder \<Rightarrow> nat \<Rightarrow> u32 list \<Rightarrow> u32 \<Rightarrow> (decode_error, string) result" where
  "render eng c 0 active index = Inl (Invalid ''VARIANT value exceeds nesting limit'')"
| "render eng c (Suc left) active index =
     (if index \<in> set active then Inl (Invalid ''Cyclic VARIANT value indexes'')
      else rbind (value_entry c index) (\<lambda>(tag, r).
        if tag = 29 \<or> tag = 30
        then rbind (child_range c r) (\<lambda>(first, cnt).
             rbind (for_indexes 0 (unat cnt) (render_child c (tag = 30) (render eng c left (index # active)) first))
             (\<lambda>kvs. Inr (if tag = 30 then array_text (map snd kvs) else object_text kvs)))
        else rbind (render_leaf eng (unat tag) r) (\<lambda>(text, r'). Inr text)))"

text \<open>
  \<open>duckdb_decode_variant\<close>. \<open>None\<close> is undefined behaviour: the decoder read outside a native array.
\<close>

definition duckdb_decode_variant :: "engine \<Rightarrow> variant_vector option \<Rightarrow> nat \<Rightarrow> (throwable, zval) result option" where
  "duckdb_decode_variant eng vector row =
     (case (if \<not> supported_format (eng_version eng)
            then Inl (Invalid ''VARIANT result decoding requires verified DuckDB 2.0.x layout'')
            else case vector of
              None \<Rightarrow> Inl (Invalid ''Missing VARIANT child vector'')
            | Some v \<Rightarrow>
                if vv_type v \<noteq> T_VARIANT then Inl (Invalid ''Unsupported VARIANT child layout'')
                else if row_is_null (vv_valid v) row then Inr Z_null
                else rbind (decoder_init v row) (\<lambda>c.
                     rbind (render eng c (Suc maximum_depth) [] 0) (\<lambda>text. Inr (Z_string text)))) of
        Inr z \<Rightarrow> Some (Inr z)
      | Inl (Invalid msg) \<Rightarrow> Some (Inl (duckdb_throw_error E_Conversion (Some msg)))
      | Inl Undefined_read \<Rightarrow> None)"

section \<open>Memory safety\<close>

text \<open>From a position inside the payload a reader never reads outside it, and it ends at such a position.\<close>

definition rd_inside :: "reader \<Rightarrow> bool" where
  "rd_inside r \<longleftrightarrow> rd_position r \<le> length (rd_data r)"

definition rd_safe :: "'a read \<Rightarrow> bool" where
  "rd_safe m \<longleftrightarrow> (\<forall>r. rd_inside r \<longrightarrow> (case m r of Inl e \<Rightarrow> e \<noteq> Undefined_read | Inr (x, r') \<Rightarrow> rd_inside r'))"

lemma rd_safeD:
  assumes "rd_safe m" "rd_inside r"
  shows "m r \<noteq> Inl Undefined_read" "m r = Inr (x, r') \<Longrightarrow> rd_inside r'"
  using assms unfolding rd_safe_def by (auto dest!: spec [of _ r])

named_theorems safe_intros \<open>readers that never read outside the payload\<close>

lemma safe_basic [safe_intros]:
  "rd_safe (rd_return x)" "rd_safe (rd_fail msg)" "rd_safe (take_bytes n)" "rd_safe invalid_geometry"
  by (auto simp: rd_safe_def rd_inside_def rd_return_def rd_fail_def take_bytes_def rd_load_def remaining_def invalid_geometry_def)

lemma safe_bind [safe_intros]:
  assumes "rd_safe m" "\<And>x. rd_safe (f x)"
  shows "rd_safe (rd_bind m f)"
  unfolding rd_safe_def
proof (intro allI impI)
  fix r assume r: "rd_inside r"
  show "case rd_bind m f r of Inl e \<Rightarrow> e \<noteq> Undefined_read | Inr (x, r') \<Rightarrow> rd_inside r'"
  proof (cases "m r")
    case (Inl e)
    then show ?thesis using rd_safeD(1) [OF assms(1) r] by (simp add: rd_bind_def)
  next
    case (Inr p)
    then obtain x r' where "m r = Inr (x, r')" by (cases p) simp
    then show ?thesis using rd_safeD(2) [OF assms(1) r] assms(2) [of x] by (simp add: rd_bind_def rd_safe_def)
  qed
qed

lemma safe_lift [safe_intros]: "v \<noteq> Inl Undefined_read \<Longrightarrow> rd_safe (rd_lift v)"
  by (cases v) (auto simp: rd_safe_def rd_lift_def)

lemma safe_if [safe_intros]: "rd_safe m \<Longrightarrow> rd_safe m' \<Longrightarrow> rd_safe (if b then m else m')"
  by simp

lemma safe_Let [safe_intros]: "(\<And>x. rd_safe (f x)) \<Longrightarrow> rd_safe (Let v f)"
  by simp

lemma safe_prod [safe_intros]: "(\<And>x y. rd_safe (f x y)) \<Longrightarrow> rd_safe (case p of (x, y) \<Rightarrow> f x y)"
  by (cases p) simp

lemma safe_words [safe_intros]: "rd_safe read_u8" "rd_safe read_u16" "rd_safe read_u32" "rd_safe read_u64"
  unfolding read_u8_def read_u16_def read_u32_def read_u64_def by (intro safe_intros)+


lemma safe_each [safe_intros]: "rd_safe item \<Longrightarrow> rd_safe (rd_each n item)"
  by (induction n) (simp_all add: safe_intros)

lemma real_text_safe [simp]: "real_text dtoa g d \<noteq> Inl Undefined_read"
  by (auto simp: real_text_def Let_def split: option.splits)

lemma real_texts_safe [simp]: "real_texts dtoa ds \<noteq> Inl Undefined_read"
  by (induction ds) (auto simp: rbind_eq_Inl)

lemma safe_geometry_parts [safe_intros]:
  "rd_safe geometry_header" "rd_safe (read_vertex dtoa dims)" "rd_safe (point_body dtoa p dims)"
  unfolding geometry_header_def read_vertex_def read_coordinate_def point_body_def
  by (intro safe_intros real_text_safe real_texts_safe)+

lemma safe_counted [safe_intros]: "rd_safe item \<Longrightarrow> rd_safe (counted item)"
  unfolding counted_def by (intro safe_intros)

lemma safe_part [safe_intros]: "rd_safe body \<Longrightarrow> rd_safe (part tag z m body)"
  unfolding part_def by (intro safe_intros)

lemma safe_named [safe_intros]: "rd_safe body \<Longrightarrow> rd_safe (named n z m body)"
  unfolding named_def by (intro safe_intros)



lemma scalar_safe [simp]: "scalar eng v \<noteq> Inl Undefined_read"
  by (auto simp: scalar_def split: option.splits)


lemma safe_hugeint [safe_intros]: "rd_safe read_hugeint"
  unfolding read_hugeint_def by (intro safe_intros)

lemma safe_quoted [safe_intros]: "rd_safe rd \<Longrightarrow> rd_safe (quoted_word eng rd mk)"
  unfolding quoted_word_def by (intro safe_intros scalar_safe)








lemma array_read_safe: "row < length d \<Longrightarrow> array_read d row \<noteq> Inl Undefined_read"
  by (simp add: array_read_def)





















section \<open>What a VARIANT row denotes\<close>

text \<open>
  A value is a leaf, whose text is fixed by its payload, an array or an object. \<open>denotes c i v\<close>
  says that index \<open>i\<close> is the root of the finite tree \<open>v\<close>; an index on a cycle denotes nothing.
\<close>

datatype json = J_leaf string | J_array "json list" | J_object "(string \<times> json) list"

fun json_text :: "json \<Rightarrow> string" where
  "json_text (J_leaf t) = t"
| "json_text (J_array vs) = array_text (map json_text vs)"
| "json_text (J_object kvs) = object_text (map (\<lambda>kv. (fst kv, json_text (snd kv))) kvs)"

fun json_height :: "json \<Rightarrow> nat" where
  "json_height (J_leaf t) = 1"
| "json_height (J_array vs) = Suc (foldr max (map json_height vs) 0)"
| "json_height (J_object kvs) = Suc (foldr max (map (\<lambda>kv. json_height (snd kv)) kvs) 0)"

text \<open>The child slots of a container: row of the child entry and index of the child value.\<close>

definition child_slot :: "decoder \<Rightarrow> u32 \<Rightarrow> nat \<Rightarrow> (decode_error, nat \<times> u32) result" where
  "child_slot c first i =
     rbind (entry_index (dec_children c) (first + of_nat i)) (\<lambda>row.
     rbind (cell (dec_values_index c) row) (\<lambda>child. Inr (row, child)))"

definition child_slots :: "decoder \<Rightarrow> u32 \<Rightarrow> u32 \<Rightarrow> (decode_error, (nat \<times> u32) list) result" where
  "child_slots c first cnt = for_indexes 0 (unat cnt) (child_slot c first)"

inductive denotes :: "engine \<Rightarrow> decoder \<Rightarrow> u32 \<Rightarrow> json \<Rightarrow> bool" for eng c where
  leaf: "value_entry c i = Inr (tag, r) \<Longrightarrow> tag \<noteq> 29 \<Longrightarrow> tag \<noteq> 30 \<Longrightarrow> render_leaf eng (unat tag) r = Inr (t, r')
     \<Longrightarrow> denotes eng c i (J_leaf t)"
| array: "value_entry c i = Inr (30, r) \<Longrightarrow> child_range c r = Inr (first, cnt) \<Longrightarrow> child_slots c first cnt = Inr slots
     \<Longrightarrow> list_all2 (\<lambda>slot v. denotes eng c (snd slot) v) slots vs \<Longrightarrow> denotes eng c i (J_array vs)"
| object: "value_entry c i = Inr (29, r) \<Longrightarrow> child_range c r = Inr (first, cnt) \<Longrightarrow> child_slots c first cnt = Inr slots
     \<Longrightarrow> list_all2 (\<lambda>slot kv. child_key c (fst slot) = Inr (fst kv) \<and> denotes eng c (snd slot) (snd kv)) slots kvs
     \<Longrightarrow> denotes eng c i (J_object kvs)"

inductive_cases denotes_leafE: "denotes eng c i (J_leaf t)"
inductive_cases denotes_arrayE: "denotes eng c i (J_array vs)"
inductive_cases denotes_objectE: "denotes eng c i (J_object kvs)"

lemma for_indexes_Inr:
  "for_indexes i n f = Inr xs \<longleftrightarrow> length xs = n \<and> (\<forall>k < n. f (i + k) = Inr (xs ! k))"
proof (induction n arbitrary: i xs)
  case (Suc n)
  show ?case
    by (cases xs) (auto simp: rbind_eq_Inr Suc.IH All_less_Suc2)
qed auto

lemma denotes_fun: "denotes eng c i v \<Longrightarrow> denotes eng c i w \<Longrightarrow> v = w"
proof (induction arbitrary: w rule: denotes.induct)
  case (leaf i tag r t r')
  from leaf.prems leaf.hyps show ?case by (cases rule: denotes.cases) auto
next
  case (array i r first cnt slots vs)
  from array.prems array.hyps obtain ws where w: "w = J_array ws"
    and ws: "list_all2 (\<lambda>slot v. denotes eng c (snd slot) v) slots ws"
    by (cases rule: denotes.cases) auto
  from array.IH ws have "vs = ws"
    by (auto simp: list_all2_conv_all_nth intro!: nth_equalityI)
  with w show ?case by simp
next
  case (object i r first cnt slots kvs)
  from object.prems object.hyps obtain ws where w: "w = J_object ws"
    and ws: "list_all2 (\<lambda>slot kv. child_key c (fst slot) = Inr (fst kv) \<and> denotes eng c (snd slot) (snd kv)) slots ws"
    by (cases rule: denotes.cases) auto
  have "kvs ! k = ws ! k" if "k < length kvs" for k
  proof -
    have "child_key c (fst (slots ! k)) = Inr (fst (kvs ! k))" "child_key c (fst (slots ! k)) = Inr (fst (ws ! k))"
        "snd (kvs ! k) = snd (ws ! k)"
      using object.IH ws that by (auto simp: list_all2_conv_all_nth)
    then show ?thesis by (simp add: prod_eq_iff)
  qed
  then have "kvs = ws"
    using object.IH ws by (auto simp: list_all2_conv_all_nth intro!: nth_equalityI)
  with w show ?case by simp
qed


lemma render_child_Inr:
  "render_child c b rend first i = Inr kt \<longleftrightarrow>
     (\<exists>slot. child_slot c first i = Inr slot \<and> rend (snd slot) = Inr (snd kt)
        \<and> (if b then fst kt = [] else child_key c (fst slot) = Inr (fst kt)))"
  by (cases kt) (auto simp: render_child_def child_slot_def rbind_eq_Inr)

lemma children_rendered:
  "for_indexes 0 (unat cnt) (render_child c b rend first) = Inr kts \<longleftrightarrow>
     (\<exists>slots. child_slots c first cnt = Inr slots
        \<and> list_all2 (\<lambda>slot kt. rend (snd slot) = Inr (snd kt)
              \<and> (if b then fst kt = [] else child_key c (fst slot) = Inr (fst kt))) slots kts)"
  (is "?l \<longleftrightarrow> (\<exists>slots. ?r slots)")
proof
  assume l: ?l
  then have "\<forall>i. \<exists>slot. i < unat cnt \<longrightarrow> child_slot c first i = Inr slot \<and> rend (snd slot) = Inr (snd (kts ! i))
        \<and> (if b then fst (kts ! i) = [] else child_key c (fst slot) = Inr (fst (kts ! i)))"
    unfolding for_indexes_Inr render_child_Inr by auto
  from choice [OF this] obtain f where f: "\<forall>i. i < unat cnt \<longrightarrow> child_slot c first i = Inr (f i)
        \<and> rend (snd (f i)) = Inr (snd (kts ! i))
        \<and> (if b then fst (kts ! i) = [] else child_key c (fst (f i)) = Inr (fst (kts ! i)))"
    by blast
  have "?r (map f [0..<unat cnt])"
    using f l unfolding child_slots_def for_indexes_Inr by (auto simp: list_all2_conv_all_nth)
  then show "\<exists>slots. ?r slots" by blast
next
  assume "\<exists>slots. ?r slots"
  then obtain slots where r: "?r slots" by blast
  then show ?l
    unfolding child_slots_def for_indexes_Inr render_child_Inr by (auto simp: list_all2_conv_all_nth)
qed

lemma foldr_max_le: "foldr max xs 0 \<le> n \<longleftrightarrow> (\<forall>x \<in> set xs. x \<le> n)" for n :: nat
  by (induction xs) auto

lemma render_sound:
  "render eng c left active i = Inr t \<Longrightarrow> \<exists>v. denotes eng c i v \<and> json_height v \<le> left \<and> t = json_text v"
proof (induction left arbitrary: active i t)
  case (Suc left)
  from Suc.prems obtain tag r where e: "value_entry c i = Inr (tag, r)"
    by (auto simp: rbind_eq_Inr split: if_splits)
  show ?case
  proof (cases "tag = 29 \<or> tag = 30")
    case False
    with Suc.prems e obtain r' where "render_leaf eng (unat tag) r = Inr (t, r')"
      by (auto simp: rbind_eq_Inr split: if_splits)
    with e False show ?thesis by (intro exI [of _ "J_leaf t"]) (auto intro: denotes.leaf)
  next
    case True
    with Suc.prems e obtain first cnt kts where rng: "child_range c r = Inr (first, cnt)"
      and k: "for_indexes 0 (unat cnt) (render_child c (tag = 30) (render eng c left (i # active)) first) = Inr kts"
      and t: "t = (if tag = 30 then array_text (map snd kts) else object_text kts)"
      by (auto simp: rbind_eq_Inr split: if_splits)
    from k obtain slots where slots: "child_slots c first cnt = Inr slots"
      and all: "list_all2 (\<lambda>slot kt. render eng c left (i # active) (snd slot) = Inr (snd kt)
              \<and> (if tag = 30 then fst kt = [] else child_key c (fst slot) = Inr (fst kt))) slots kts"
      unfolding children_rendered by blast
    have "\<forall>k < length slots. \<exists>v. denotes eng c (snd (slots ! k)) v \<and> json_height v \<le> left
        \<and> snd (kts ! k) = json_text v"
      using all Suc.IH by (auto simp: list_all2_conv_all_nth)
    then obtain f where f: "\<And>k. k < length slots \<Longrightarrow> denotes eng c (snd (slots ! k)) (f k) \<and> json_height (f k) \<le> left
        \<and> snd (kts ! k) = json_text (f k)" by metis
    have len: "length kts = length slots" using all by (simp add: list_all2_lengthD)
    show ?thesis
    proof (cases "tag = 30")
      case True
      let ?v = "J_array (map f [0..<length slots])"
      have "denotes eng c i ?v"
        using e True rng slots f by (intro denotes.array) (auto simp: list_all2_conv_all_nth)
      moreover have "map snd kts = map json_text (map f [0..<length slots])"
        using f len by (auto intro: nth_equalityI)
      ultimately show ?thesis using t True f by (intro exI [of _ ?v]) (auto simp: foldr_max_le)
    next
      case False
      with True have tag: "tag = 29" by simp
      let ?kvs = "map (\<lambda>k. (fst (kts ! k), f k)) [0..<length slots]"
      have "denotes eng c i (J_object ?kvs)"
        using e tag rng slots f all by (intro denotes.object) (auto simp: list_all2_conv_all_nth)
      moreover have "kts = map (\<lambda>kv. (fst kv, json_text (snd kv))) ?kvs"
        using f len by (auto intro!: nth_equalityI prod_eqI)
      ultimately show ?thesis using t tag f by (intro exI [of _ "J_object ?kvs"]) (auto simp: foldr_max_le)
    qed
  qed
qed simp

text \<open>The active list only holds indexes whose values contain the one being rendered.\<close>

definition above :: "engine \<Rightarrow> decoder \<Rightarrow> u32 list \<Rightarrow> json \<Rightarrow> bool" where
  "above eng c active v \<longleftrightarrow> (\<forall>a \<in> set active. \<forall>w. denotes eng c a w \<longrightarrow> json_height v < json_height w)"

lemma above_notin: "above eng c active v \<Longrightarrow> denotes eng c i v \<Longrightarrow> i \<notin> set active"
  by (fastforce simp: above_def)

lemma above_Cons:
  "above eng c active v \<Longrightarrow> denotes eng c i v \<Longrightarrow> json_height w < json_height v \<Longrightarrow> above eng c (i # active) w"
  by (fastforce simp: above_def dest: denotes_fun)

lemma render_complete:
  "denotes eng c i v \<Longrightarrow> json_height v \<le> left \<Longrightarrow> above eng c active v
     \<Longrightarrow> render eng c left active i = Inr (json_text v)"
proof (induction arbitrary: left active rule: denotes.induct)
  case (leaf i tag r t r')
  then obtain l where l: "left = Suc l" by (cases left) auto
  have "i \<notin> set active" by (rule above_notin [OF leaf.prems(2) denotes.leaf [OF leaf.hyps(1-4)]])
  then show ?case using leaf.hyps l by simp
next
  case (array i r first cnt slots vs)
  let ?v = "J_array vs"
  from array.prems obtain l where l: "left = Suc l" by (cases left) auto
  have d: "denotes eng c i ?v"
    using array.IH by (intro denotes.array [OF array.hyps]) (auto elim: list_all2_mono)
  have len: "length vs = length slots"
    and ih: "\<And>k left active. k < length slots \<Longrightarrow> json_height (vs ! k) \<le> left \<Longrightarrow> above eng c active (vs ! k)
      \<Longrightarrow> render eng c left active (snd (slots ! k)) = Inr (json_text (vs ! k))"
    using array.IH by (auto simp: list_all2_conv_all_nth)
  have "render eng c l (i # active) (snd (slots ! k)) = Inr (json_text (vs ! k))" if k: "k < length slots" for k
  proof -
    have "vs ! k \<in> set vs" using k len by simp
    then have "json_height (vs ! k) \<le> l" "json_height (vs ! k) < json_height ?v"
      using array.prems(1) l foldr_max_le [of "map json_height vs"] by (auto simp: less_Suc_eq_le)
    with ih [OF k] above_Cons [OF array.prems(2) d] show ?thesis by blast
  qed
  then have "list_all2 (\<lambda>slot kt. render eng c l (i # active) (snd slot) = Inr (snd kt) \<and> fst kt = [])
      slots (map (\<lambda>v. ([], json_text v)) vs)"
    using len by (simp add: list_all2_conv_all_nth)
  then have "for_indexes 0 (unat cnt) (render_child c True (render eng c l (i # active)) first)
      = Inr (map (\<lambda>v. ([], json_text v)) vs)"
    unfolding children_rendered using array.hyps(3) by auto
  then show ?case using array.hyps l above_notin [OF array.prems(2) d] by (simp add: comp_def)
next
  case (object i r first cnt slots kvs)
  let ?v = "J_object kvs"
  from object.prems obtain l where l: "left = Suc l" by (cases left) auto
  have d: "denotes eng c i ?v"
    using object.IH by (intro denotes.object [OF object.hyps]) (auto elim: list_all2_mono)
  let ?kts = "map (\<lambda>kv. (fst kv, json_text (snd kv))) kvs"
  have len: "length kvs = length slots" and key: "\<And>k. k < length slots \<Longrightarrow> child_key c (fst (slots ! k)) = Inr (fst (kvs ! k))"
    and ih: "\<And>k left active. k < length slots \<Longrightarrow> json_height (snd (kvs ! k)) \<le> left \<Longrightarrow> above eng c active (snd (kvs ! k))
      \<Longrightarrow> render eng c left active (snd (slots ! k)) = Inr (json_text (snd (kvs ! k)))"
    using object.IH by (auto simp: list_all2_conv_all_nth)
  have "render eng c l (i # active) (snd (slots ! k)) = Inr (json_text (snd (kvs ! k)))" if k: "k < length slots" for k
  proof -
    have "kvs ! k \<in> set kvs" using k len by simp
    then have "json_height (snd (kvs ! k)) \<le> l" "json_height (snd (kvs ! k)) < json_height ?v"
      using object.prems(1) l foldr_max_le [of "map (\<lambda>kv. json_height (snd kv)) kvs"] by (auto simp: less_Suc_eq_le)
    with ih [OF k] above_Cons [OF object.prems(2) d] show ?thesis by blast
  qed
  then have "list_all2 (\<lambda>slot kt. render eng c l (i # active) (snd slot) = Inr (snd kt)
      \<and> child_key c (fst slot) = Inr (fst kt)) slots ?kts"
    using len key by (simp add: list_all2_conv_all_nth)
  then have "for_indexes 0 (unat cnt) (render_child c False (render eng c l (i # active)) first) = Inr ?kts"
    unfolding children_rendered using object.hyps(3) by auto
  then show ?case using object.hyps l above_notin [OF object.prems(2) d] by simp
qed

text \<open>
  C25. The renderer, with its depth counter and its list of active indexes, computes exactly the
  denotation of a VARIANT index: it returns a text if and only if the index is the root of a finite
  value nested at most 64 levels deep, and the text is then the JSON text of that value. In
  particular the cycle check refuses every cycle and no shared value.
\<close>

theorem variant_render_refines:
  "render eng c (Suc maximum_depth) [] i = Inr t
     \<longleftrightarrow> (\<exists>v. denotes eng c i v \<and> json_height v \<le> Suc maximum_depth \<and> t = json_text v)"
  using render_sound [of eng c "Suc maximum_depth" "[]" i t]
    render_complete [of eng c i _ "Suc maximum_depth" "[]"]
  by (auto simp: above_def simp del: render.simps)

lemma put_field_map: "map_of (put_field fs kv) = (map_of fs)(fst kv \<mapsto> snd kv)"
  by (induction fs kv rule: put_field.induct) (auto simp: fun_eq_iff)

lemma put_field_keys: "fst ` set (put_field fs kv) = insert (fst kv) (fst ` set fs)"
  by (induction fs kv rule: put_field.induct) auto

lemma put_field_distinct: "distinct (map fst fs) \<Longrightarrow> distinct (map fst (put_field fs kv))"
  using put_field_keys by (induction fs kv rule: put_field.induct) fastforce+

lemma put_fields:
  "distinct (map fst fs) \<Longrightarrow> distinct (map fst (foldl put_field fs kvs))
     \<and> map_of (foldl put_field fs kvs) = map_of (rev kvs @ fs)"
proof (induction kvs arbitrary: fs)
  case (Cons kv kvs)
  have "map_of (put_field fs kv) = map_of (kv # fs)" by (cases kv) (simp add: put_field_map)
  with Cons.IH [OF put_field_distinct [OF Cons.prems], of kv] show ?case
    by (simp add: map_add_def fun_eq_iff)
qed simp

lemma map_of_perm: "distinct (map fst xs) \<Longrightarrow> set xs = set ys \<Longrightarrow> distinct (map fst ys) \<Longrightarrow> map_of xs = map_of ys"
  by (rule map_of_inject_set [THEN iffD2])

text \<open>
  A rendered object names every key once, in bytewise order, with the last value the payload
  gives for it.
\<close>

theorem object_fields_correct:
  "sorted (map fst (object_fields kvs)) \<and> distinct (map fst (object_fields kvs))
     \<and> map_of (object_fields kvs) = map_of (rev kvs)"
proof -
  let ?fs = "foldl put_field [] kvs"
  have fs: "distinct (map fst ?fs)" "map_of ?fs = map_of (rev kvs)"
    using put_fields [of "[]" kvs] by simp_all
  have d: "distinct (map fst (sort_key fst ?fs))"
    using fs(1) by (simp add: distinct_map)
  with fs show ?thesis
    using map_of_perm [OF d _ fs(1)] by (simp add: object_fields_def)
qed

text \<open>The array \<open>[null, true]\<close>: three values, two children and the payload of the array.\<close>

definition sample_variant :: variant_vector where
  "sample_variant =
     \<lparr>vv_type = T_VARIANT, vv_valid = None,
      vv_keys = Some \<lparr>list_entries = \<lparr>col_type = T_LIST, col_valid = None, col_data = Some [(0, 0)]\<rparr>,
        list_size = 0, list_child = Some \<lparr>col_type = T_VARCHAR, col_valid = None, col_data = Some []\<rparr>\<rparr>,
      vv_children = Some \<lparr>list_entries = \<lparr>col_type = T_LIST, col_valid = None, col_data = Some [(0, 2)]\<rparr>,
        list_size = 2, list_child = Some \<lparr>struct_type = T_STRUCT, struct_fields = 2,
          struct_first = Some \<lparr>col_type = T_UINTEGER, col_valid = None, col_data = Some [0, 0]\<rparr>,
          struct_second = Some \<lparr>col_type = T_UINTEGER, col_valid = None, col_data = Some [1, 2]\<rparr>\<rparr>\<rparr>,
      vv_values = Some \<lparr>list_entries = \<lparr>col_type = T_LIST, col_valid = None, col_data = Some [(0, 3)]\<rparr>,
        list_size = 3, list_child = Some \<lparr>struct_type = T_STRUCT, struct_fields = 2,
          struct_first = Some \<lparr>col_type = T_UTINYINT, col_valid = None, col_data = Some [30, 0, 1]\<rparr>,
          struct_second = Some \<lparr>col_type = T_UINTEGER, col_valid = None, col_data = Some [0, 0, 0]\<rparr>\<rparr>\<rparr>,
      vv_payload = Some \<lparr>col_type = T_BLOB, col_valid = None, col_data = Some [[2, 0]]\<rparr>\<rparr>"

definition sample_engine :: engine where
  "sample_engine = \<lparr>eng_scalar = (\<lambda>v. None), eng_dtoa = sample_dtoa, eng_version = Some ''v2.0.0''\<rparr>"


lemma sample_variant_text:
  "duckdb_decode_variant sample_engine (Some sample_variant) 0 = Some (Inr (Z_string ''[null,true]''))"
  by code_simp

end
