(* ===== verification/Transitions.thy ===== *)
theory Transitions
  imports Prelude
begin

text \<open>
  What the step relations of the development promise. A \<open>transition_system\<close> keeps a condition in every step;
  a \<open>progress_system\<close> can moreover always take a step that leaves less to do, until there is nothing left. The
  components interpret these on their own relations, and their liveness properties rest on \<open>settles\<close>.
\<close>

locale transition_system =
  fixes step :: "'s \<Rightarrow> 's \<Rightarrow> bool" and ok :: "'s \<Rightarrow> bool"
  assumes ok_step: "step s s' \<Longrightarrow> ok s \<Longrightarrow> ok s'"
begin

lemma ok_steps: "step\<^sup>*\<^sup>* s s' \<Longrightarrow> ok s \<Longrightarrow> ok s'"
  by (induction rule: rtranclp_induct) (auto intro: ok_step)

end

locale progress_system = transition_system +
  fixes busy :: "'s \<Rightarrow> bool" and left :: "'s \<Rightarrow> nat"
  assumes progress: "ok s \<Longrightarrow> busy s \<Longrightarrow> \<exists>s'. step s s' \<and> left s' < left s"
begin

lemma settles: "ok s \<Longrightarrow> \<exists>s'. step\<^sup>*\<^sup>* s s' \<and> ok s' \<and> \<not> busy s'"
proof (induction "left s" arbitrary: s rule: less_induct)
  case less
  show ?case
  proof (cases "busy s")
    case True
    from progress [OF less.prems this] obtain s1 where s1: "step s s1" "left s1 < left s" by blast
    from less.hyps [OF s1(2) ok_step [OF s1(1) less.prems]] s1(1) show ?thesis
      by (meson converse_rtranclp_into_rtranclp)
  next
    case False
    then show ?thesis using less.prems by blast
  qed
qed

end

end
