(* ===== verification/Connection.thy ===== *)
theory Connection
  imports Prelude Errors Transitions "HOL-Library.Multiset"
begin

text \<open>
  The connection core of \<open>src/duckdb.cpp\<close> and \<open>src/php_duckdb.h\<close>: entering a connection, the registry of
  open results, the cleanup that waits for a running PHP handler, and the prepared statements that
  wait for asynchronous workers.

  Threads and native handles are numbers. The closures the destructors defer are the constructors of
  \<open>work\<close>. Native calls are appended to a log, so that the theorems can speak of what was destroyed
  when. Every function is one critical section; \<open>conn_step\<close> interleaves them. The error text a failed
  stream keeps, the COPY and scalar registrations, the helper thread and the connection id are left out:
  no operation here reads them.
\<close>

type_synonym thread = nat
type_synonym handle = nat

section \<open>State\<close>

datatype open_result_state = OR_open | OR_errored | OR_drained | OR_destroyed

record open_result =
  or_state :: open_result_state
  or_result :: handle
  or_streaming :: bool
  or_pending :: "handle option"
  or_session :: "nat option"
  or_holds :: bool

text \<open>Deferred closures: \<open>~stmt_inner\<close> in a handler, \<open>~result_data\<close> and \<open>~async_task\<close>. A record is its number.\<close>

datatype work =
    W_prepare handle
  | W_result nat
  | W_task "nat option" "handle option" "handle option"

datatype native_call =
    N_session_close nat string
  | N_interrupt
  | N_execute_pending handle
  | N_destroy_pending handle
  | N_destroy_result handle
  | N_destroy_prepare handle
  | N_destroy_extracted handle
  | N_destroy_value handle
  | N_free handle
  | N_disconnect

record conn =
  conn_closed :: bool
  conn_lock :: "thread option"
  records :: "open_result list"
  open_results :: "nat list"
  handler_depth :: nat
  handler_thread :: thread
  deferred :: "work list"
  waiting :: "thread \<Rightarrow> nat"
  workers :: nat
  worker_prepares :: "handle list"
  natives :: "native_call list"

definition log_native :: "native_call list \<Rightarrow> conn \<Rightarrow> conn" where
  "log_native ns s = s\<lparr>natives := natives s @ ns\<rparr>"

section \<open>Entering\<close>

text \<open>\<open>None\<close> is a \<open>Connection\<close> object whose constructor was bypassed.\<close>

definition duckdb_connection_guard :: "conn option \<Rightarrow> (throwable, unit) result" where
  "duckdb_connection_guard c =
     (case c of
        None \<Rightarrow> Inl (PhpError (''DuckDB'' @ [CHR 0x5C]
                  @ ''Connection object is not initialized (its constructor was bypassed)''))
      | Some s \<Rightarrow> if conn_closed s then Inl (duckdb_throw_error E_Connection (Some ''Connection is closed'')) else Inr ())"

definition duckdb_conn_busy_here :: "thread \<Rightarrow> conn \<Rightarrow> bool" where
  "duckdb_conn_busy_here t s = (if handler_depth s = 0 then False else handler_thread s = t)"

definition duckdb_conn_check_not_busy :: "thread \<Rightarrow> conn \<Rightarrow> (throwable, unit) result" where
  "duckdb_conn_check_not_busy t s =
     (if duckdb_conn_busy_here t s
      then Inl (duckdb_throw_error E_Connection
             (Some ''Connection is busy executing a COPY handler; use another connection''))
      else Inr ())"

text \<open>The lock is taken when the mutex is free; a thread that finds it taken waits.\<close>

definition duckdb_conn_enter :: "thread \<Rightarrow> conn \<Rightarrow> (throwable, conn) result" where
  "duckdb_conn_enter t s = rbind (duckdb_conn_check_not_busy t s) (\<lambda>_. Inr (s\<lparr>conn_lock := Some t\<rparr>))"

text \<open>\<open>duckdb_callback_call\<close> and \<open>duckdb_callback_zval_release\<close> of \<open>copy.cpp\<close> around the PHP call.\<close>

definition handler_begin :: "thread \<Rightarrow> conn \<Rightarrow> conn" where
  "handler_begin t s = s\<lparr>handler_thread := t, handler_depth := Suc (handler_depth s)\<rparr>"

definition handler_end :: "conn \<Rightarrow> conn" where
  "handler_end s = s\<lparr>handler_depth := handler_depth s - 1\<rparr>"

section \<open>Open results\<close>

definition set_record :: "nat \<Rightarrow> open_result \<Rightarrow> conn \<Rightarrow> conn" where
  "set_record i r s = s\<lparr>records := (records s)[i := r]\<rparr>"

text \<open>
  \<open>duckdb_discard_pending\<close> of \<open>pending.cpp\<close>; \<open>failed h\<close> tells whether DuckDB already reports an
  error for the pending query. The result of the discarded execution never leaves the function; its handle is \<open>r\<close> where
  a caller accounts for it (\<open>Pump\<close>), and \<open>None\<close> in this theory.
\<close>

definition destroy_result_if :: "handle option \<Rightarrow> native_call list" where
  "destroy_result_if r = (case r of None \<Rightarrow> [] | Some h \<Rightarrow> [N_destroy_result h])"

lemma destroy_result_if_simps [simp]: "destroy_result_if None = []" "destroy_result_if (Some h) = [N_destroy_result h]"
  by (simp_all add: destroy_result_if_def)

definition duckdb_discard_pending :: "(handle \<Rightarrow> bool) \<Rightarrow> handle \<Rightarrow> handle option \<Rightarrow> conn \<Rightarrow> conn" where
  "duckdb_discard_pending failed h r s =
     log_native ((if failed h then [] else [N_interrupt]) @ [N_execute_pending h] @ destroy_result_if r @ [N_destroy_pending h]) s"

definition duckdb_open_result_release :: "(handle \<Rightarrow> bool) \<Rightarrow> nat \<Rightarrow> string \<Rightarrow> conn \<Rightarrow> conn" where
  "duckdb_open_result_release failed i reason s =
     (let s1 = (case or_session (records s ! i) of
                  None \<Rightarrow> s
                | Some n \<Rightarrow> log_native [N_session_close n (if reason = [] then ''Result destroyed'' else reason)] s);
          s2 = (case or_pending (records s1 ! i) of
                  None \<Rightarrow> s1
                | Some h \<Rightarrow> set_record i ((records s1 ! i)\<lparr>or_pending := None\<rparr>) (duckdb_discard_pending failed h None s1))
      in if or_streaming (records s2 ! i)
         then set_record i ((records s2 ! i)\<lparr>or_streaming := False\<rparr>) (log_native [N_destroy_result (or_result (records s2 ! i))] s2)
         else s2)"

definition duckdb_open_result_unregister :: "nat \<Rightarrow> conn \<Rightarrow> conn" where
  "duckdb_open_result_unregister i s = s\<lparr>open_results := filter (\<lambda>j. j \<noteq> i) (open_results s)\<rparr>"

definition add_record :: "open_result \<Rightarrow> conn \<Rightarrow> conn" where
  "add_record r s = s\<lparr>records := records s @ [r], open_results := open_results s @ [length (records s)]\<rparr>"

definition duckdb_open_result_stream :: "handle \<Rightarrow> nat option \<Rightarrow> conn \<Rightarrow> conn" where
  "duckdb_open_result_stream h session =
     add_record \<lparr>or_state = OR_open, or_result = h, or_streaming = True, or_pending = None,
                 or_session = session, or_holds = True\<rparr>"

definition duckdb_open_result_pending :: "handle \<Rightarrow> nat option \<Rightarrow> conn \<Rightarrow> conn" where
  "duckdb_open_result_pending h session =
     add_record \<lparr>or_state = OR_open, or_result = 0, or_streaming = False, or_pending = Some h,
                 or_session = session, or_holds = True\<rparr>"

definition set_state :: "nat \<Rightarrow> open_result_state \<Rightarrow> conn \<Rightarrow> conn" where
  "set_state i st s = set_record i ((records s ! i)\<lparr>or_state := st\<rparr>) s"

definition duckdb_open_result_drained :: "nat \<Rightarrow> conn \<Rightarrow> conn" where
  "duckdb_open_result_drained i s = duckdb_open_result_unregister i (set_state i OR_drained s)"

definition duckdb_open_result_destroy :: "(handle \<Rightarrow> bool) \<Rightarrow> nat \<Rightarrow> string \<Rightarrow> conn \<Rightarrow> conn" where
  "duckdb_open_result_destroy failed i reason s =
     duckdb_open_result_unregister i (set_state i OR_destroyed (duckdb_open_result_release failed i reason s))"

text \<open>
  \<open>probe\<close> is the outcome of preparing \<open>SELECT 1\<close>: \<open>None\<close> when DuckDB accepts it, otherwise the
  message of its error.
\<close>

definition duckdb_conn_check_no_open_result ::
    "string option option \<Rightarrow> conn \<Rightarrow> (throwable, unit) result \<times> conn" where
  "duckdb_conn_check_no_open_result probe s =
     (if \<not> (\<exists>i \<in> set (open_results s). or_state (records s ! i) = OR_open \<and> or_holds (records s ! i))
      then (Inr (), s)
      else if (case probe of Some (Some msg) \<Rightarrow> duckdb_classify_error_message (Some msg) = E_ResourceInUse | _ \<Rightarrow> False)
      then (Inl (duckdb_throw_error E_ResourceInUse
             (Some ''Resource In Use Error: connection has an open result; drain or destroy it before starting a new query'')), s)
      else (Inr (), s\<lparr>records := map (\<lambda>i. let r = records s ! i in
              if i \<in> set (open_results s) then r\<lparr>or_holds := False\<rparr> else r) [0..<length (records s)]\<rparr>))"

section \<open>Workers and prepared statements\<close>

definition duckdb_conn_worker_begin :: "conn \<Rightarrow> conn" where
  "duckdb_conn_worker_begin s = s\<lparr>workers := workers s + 1\<rparr>"

definition duckdb_conn_worker_end :: "conn \<Rightarrow> conn" where
  "duckdb_conn_worker_end s =
     (let s1 = s\<lparr>workers := workers s - 1\<rparr>;
          released = (if workers s1 = 0 then worker_prepares s1 else []);
          s2 = (if workers s1 = 0 then s1\<lparr>worker_prepares := []\<rparr> else s1)
      in log_native (map N_destroy_prepare released) s2)"

section \<open>Deferred cleanup\<close>

fun run_work :: "(handle \<Rightarrow> bool) \<Rightarrow> work \<Rightarrow> conn \<Rightarrow> conn" where
  "run_work failed (W_prepare h) s = log_native [N_destroy_prepare h] s"
| "run_work failed (W_result i) s = duckdb_open_result_destroy failed i [] s"
| "run_work failed (W_task i result stmt) s =
     (let s1 = (case i of None \<Rightarrow> s | Some j \<Rightarrow> duckdb_open_result_destroy failed j ''PendingQuery discarded'' s);
          s2 = (case result of None \<Rightarrow> s1 | Some h \<Rightarrow> log_native [N_destroy_result h] s1)
      in case stmt of None \<Rightarrow> s2 | Some h \<Rightarrow> log_native [N_destroy_prepare h] s2)"

definition duckdb_conn_cleanup :: "(handle \<Rightarrow> bool) \<Rightarrow> thread \<Rightarrow> work \<Rightarrow> conn \<Rightarrow> conn" where
  "duckdb_conn_cleanup failed t w s =
     (if duckdb_conn_busy_here t s
      then s\<lparr>deferred := deferred s @ [w], waiting := (waiting s)(t := Suc (waiting s t))\<rparr>
      else run_work failed w s)"

definition duckdb_conn_destroy_prepare :: "(handle \<Rightarrow> bool) \<Rightarrow> thread \<Rightarrow> handle \<Rightarrow> conn \<Rightarrow> conn" where
  "duckdb_conn_destroy_prepare failed t h s =
     (if workers s > 0 then s\<lparr>worker_prepares := worker_prepares s @ [h]\<rparr>
      else if duckdb_conn_busy_here t s then duckdb_conn_cleanup failed t (W_prepare h) s
      else log_native [N_destroy_prepare h] s)"

definition duckdb_conn_drain_deferred :: "(handle \<Rightarrow> bool) \<Rightarrow> conn \<Rightarrow> conn" where
  "duckdb_conn_drain_deferred failed s = fold (run_work failed) (deferred s) (s\<lparr>deferred := []\<rparr>)"

text \<open>The thread's list of waiting connections holds this one \<open>waiting s t\<close> times.\<close>

fun drain_waiting :: "(handle \<Rightarrow> bool) \<Rightarrow> thread \<Rightarrow> nat \<Rightarrow> conn \<Rightarrow> conn" where
  "drain_waiting failed t 0 s = s"
| "drain_waiting failed t (Suc n) s =
     (if duckdb_conn_busy_here t s
      then drain_waiting failed t n (s\<lparr>waiting := (waiting s)(t := Suc (waiting s t))\<rparr>)
      else drain_waiting failed t n (duckdb_conn_drain_deferred failed s))"

definition duckdb_drain_deferred_connections :: "(handle \<Rightarrow> bool) \<Rightarrow> thread \<Rightarrow> conn \<Rightarrow> conn" where
  "duckdb_drain_deferred_connections failed t s =
     drain_waiting failed t (waiting s t) (s\<lparr>waiting := (waiting s)(t := 0)\<rparr>)"

text \<open>\<open>~conn_inner\<close>, whose helper thread is outside this model.\<close>

definition conn_destructor :: "(handle \<Rightarrow> bool) \<Rightarrow> conn \<Rightarrow> conn" where
  "conn_destructor failed s = log_native [N_disconnect] (duckdb_conn_drain_deferred failed s)"

section \<open>Interleavings\<close>

text \<open>
  \<open>owned\<close> are the native handles that live C++ owners hold (statements, materialized results, results
  about to be registered), \<open>created\<close> all handles DuckDB ever returned. One rule per critical section;
  the premises say which lock the code holds and which handle the acting owner still has.
\<close>

record system =
  sys_conn :: conn
  owned :: "handle set"
  created :: "handle set"

definition initial_conn :: conn where
  "initial_conn = \<lparr>conn_closed = False, conn_lock = None, records = [], open_results = [], handler_depth = 0,
     handler_thread = 0, deferred = [], waiting = (\<lambda>t. 0), workers = 0, worker_prepares = [], natives = []\<rparr>"

definition initial_system :: system where
  "initial_system = \<lparr>sys_conn = initial_conn, owned = {}, created = {}\<rparr>"

abbreviation on_conn :: "(conn \<Rightarrow> conn) \<Rightarrow> system \<Rightarrow> system" where
  "on_conn f s \<equiv> s\<lparr>sys_conn := f (sys_conn s)\<rparr>"

definition unlock :: "conn \<Rightarrow> conn" where "unlock c = c\<lparr>conn_lock := None\<rparr>"
definition close_connection :: "conn \<Rightarrow> conn" where "close_connection c = c\<lparr>conn_closed := True\<rparr>"

text \<open>\<open>duckdb_task_finish_pending\<close>: the executed pending handle is destroyed and the record drained.\<close>

definition finish_pending :: "nat \<Rightarrow> conn \<Rightarrow> conn" where
  "finish_pending i c =
     (case or_pending (records c ! i) of
        None \<Rightarrow> duckdb_open_result_drained i c
      | Some h \<Rightarrow> duckdb_open_result_drained i
          (set_record i ((records c ! i)\<lparr>or_pending := None\<rparr>) (log_native [N_destroy_pending h] c)))"

inductive conn_step :: "(handle \<Rightarrow> bool) \<Rightarrow> system \<Rightarrow> system \<Rightarrow> bool" for failed where
  enter: "conn_lock (sys_conn s) = None \<Longrightarrow> duckdb_conn_enter t (sys_conn s) = Inr c
     \<Longrightarrow> conn_step failed s (s\<lparr>sys_conn := c\<rparr>)"
| leave: "conn_lock (sys_conn s) = Some t \<Longrightarrow> conn_step failed s (on_conn unlock s)"
| handler_begins: "handler_depth (sys_conn s) = 0 \<or> handler_thread (sys_conn s) = t
     \<Longrightarrow> conn_step failed s (on_conn (handler_begin t) s)"
| handler_ends: "0 < handler_depth (sys_conn s) \<Longrightarrow> conn_step failed s (on_conn handler_end s)"
| create: "conn_lock (sys_conn s) = Some t \<Longrightarrow> h \<notin> created s
     \<Longrightarrow> conn_step failed s (s\<lparr>owned := insert h (owned s), created := insert h (created s)\<rparr>)"
| stream: "conn_lock (sys_conn s) = Some t \<Longrightarrow> h \<in> owned s
     \<Longrightarrow> conn_step failed s (on_conn (duckdb_open_result_stream h session) (s\<lparr>owned := owned s - {h}\<rparr>))"
| pending: "conn_lock (sys_conn s) = Some t \<Longrightarrow> h \<in> owned s
     \<Longrightarrow> conn_step failed s (on_conn (duckdb_open_result_pending h session) (s\<lparr>owned := owned s - {h}\<rparr>))"
| fetch_fails: "conn_lock (sys_conn s) = Some t \<Longrightarrow> i \<in> set (open_results (sys_conn s))
     \<Longrightarrow> conn_step failed s (on_conn (set_state i OR_errored) s)"
| drains: "conn_lock (sys_conn s) = Some t \<Longrightarrow> i \<in> set (open_results (sys_conn s))
     \<Longrightarrow> conn_step failed s (on_conn (finish_pending i) s)"
| check_open: "conn_lock (sys_conn s) = Some t
     \<Longrightarrow> conn_step failed s (on_conn (\<lambda>c. snd (duckdb_conn_check_no_open_result probe c)) s)"
| result_dies: "duckdb_conn_busy_here t (sys_conn s) \<or> conn_lock (sys_conn s) = None \<Longrightarrow> i < length (records (sys_conn s))
     \<Longrightarrow> conn_step failed s (on_conn (duckdb_conn_cleanup failed t (W_result i)) s)"
| task_dies: "duckdb_conn_busy_here t (sys_conn s) \<or> conn_lock (sys_conn s) = None
     \<Longrightarrow> pred_option (\<lambda>i. i < length (records (sys_conn s))) i \<Longrightarrow> set_option r \<subseteq> owned s \<Longrightarrow> set_option p \<subseteq> owned s
     \<Longrightarrow> set_option r \<inter> set_option p = {}
     \<Longrightarrow> conn_step failed s (on_conn (duckdb_conn_cleanup failed t (W_task i r p))
           (s\<lparr>owned := owned s - set_option r - set_option p\<rparr>))"
| statement_dies: "h \<in> owned s
     \<Longrightarrow> conn_step failed s (on_conn (duckdb_conn_destroy_prepare failed t h) (s\<lparr>owned := owned s - {h}\<rparr>))"
| worker_begins: "conn_step failed s (on_conn duckdb_conn_worker_begin s)"
| worker_ends: "conn_lock (sys_conn s) = Some t \<Longrightarrow> 0 < workers (sys_conn s)
     \<Longrightarrow> conn_step failed s (on_conn duckdb_conn_worker_end s)"
| method_returns: "conn_lock (sys_conn s) = None
     \<Longrightarrow> conn_step failed s (on_conn (duckdb_drain_deferred_connections failed t) s)"
| closes: "conn_step failed s (on_conn close_connection s)"

inductive reachable :: "(handle \<Rightarrow> bool) \<Rightarrow> system \<Rightarrow> bool" for failed where
  start: "reachable failed initial_system"
| step: "reachable failed s \<Longrightarrow> conn_step failed s s' \<Longrightarrow> reachable failed s'"

section \<open>Every handle has exactly one place\<close>

fun work_handles :: "work \<Rightarrow> handle multiset" where
  "work_handles (W_prepare h) = {#h#}"
| "work_handles (W_result i) = {#}"
| "work_handles (W_task i r p) = mset_set (set_option r) + mset_set (set_option p)"

definition record_handles :: "open_result \<Rightarrow> handle multiset" where
  "record_handles r = (if or_streaming r then {#or_result r#} else {#}) + mset_set (set_option (or_pending r))"

fun destroyed_by :: "native_call \<Rightarrow> handle list" where
  "destroyed_by (N_destroy_pending h) = [h]"
| "destroyed_by (N_destroy_result h) = [h]"
| "destroyed_by (N_destroy_prepare h) = [h]"
| "destroyed_by (N_destroy_extracted h) = [h]"
| "destroyed_by (N_destroy_value h) = [h]"
| "destroyed_by (N_free h) = [h]"
| "destroyed_by _ = []"

definition destroyed :: "conn \<Rightarrow> handle list" where
  "destroyed c = concat (map destroyed_by (natives c))"

definition placed :: "conn \<Rightarrow> handle multiset" where
  "placed c = sum_list (map record_handles (records c)) + sum_list (map work_handles (deferred c))
     + mset (worker_prepares c) + mset (destroyed c)"

fun work_ok :: "nat \<Rightarrow> work \<Rightarrow> bool" where
  "work_ok n (W_prepare h) = True"
| "work_ok n (W_result i) = (i < n)"
| "work_ok n (W_task i r p) = pred_option (\<lambda>i. i < n) i"

lemma work_ok_mono: "work_ok n w \<Longrightarrow> n \<le> m \<Longrightarrow> work_ok m w"
  by (cases "(n, w)" rule: work_ok.cases) (auto simp: option.pred_set)

lemma sum_list_update:
  "i < length xs \<Longrightarrow> sum_list (map f (xs[i := y])) + f (xs ! i) = sum_list (map f xs) + (f y :: 'a multiset)"
proof (induction xs arbitrary: i)
  case (Cons x xs)
  then show ?case by (cases i) (auto simp: ac_simps)
qed simp

lemma placed_set_record:
  "i < length (records c) \<Longrightarrow> placed (set_record i r c) + record_handles (records c ! i) = placed c + record_handles r"
  using sum_list_update [of i "records c" record_handles r]
  by (simp add: placed_def set_record_def destroyed_def ac_simps)

lemma placed_log: "placed (log_native ns c) = placed c + mset (concat (map destroyed_by ns))"
  by (simp add: placed_def log_native_def destroyed_def)

lemma placed_frame [simp]:
  "placed (c\<lparr>open_results := x\<rparr>) = placed c" "placed (c\<lparr>conn_lock := l\<rparr>) = placed c"
  "placed (c\<lparr>handler_depth := d\<rparr>) = placed c" "placed (c\<lparr>handler_thread := t\<rparr>) = placed c"
  "placed (c\<lparr>waiting := w\<rparr>) = placed c" "placed (c\<lparr>workers := k\<rparr>) = placed c" "placed (c\<lparr>conn_closed := b\<rparr>) = placed c"
  by (simp_all add: placed_def destroyed_def)

lemma length_records [simp]:
  "length (records (set_record i r c)) = length (records c)" "records (log_native ns c) = records c"
  "length (records (set_state i st c)) = length (records c)"
  "records (duckdb_open_result_unregister i c) = records c"
  by (simp_all add: set_record_def log_native_def set_state_def duckdb_open_result_unregister_def)

lemma record_set_record [simp]: "i < length (records c) \<Longrightarrow> records (set_record i r c) ! i = r"
  by (simp add: set_record_def)

lemma record_handles_frame [simp]:
  "record_handles (r\<lparr>or_state := st\<rparr>) = record_handles r" "record_handles (r\<lparr>or_holds := b\<rparr>) = record_handles r"
  by (cases r; simp add: record_handles_def)+

lemma placed_set_state [simp]: "i < length (records c) \<Longrightarrow> placed (set_state i st c) = placed c"
  using placed_set_record [of i c "(records c ! i)\<lparr>or_state := st\<rparr>"]
  by (simp add: set_state_def)

lemma placed_unregister [simp]: "placed (duckdb_open_result_unregister i c) = placed c"
  by (simp add: duckdb_open_result_unregister_def)

text \<open>Closing a record moves its handles to the destroyed ones and leaves none in it.\<close>

lemma open_result_release_placed:
  assumes "i < length (records c)"
  shows "placed (duckdb_open_result_release failed i reason c) = placed c"
    "length (records (duckdb_open_result_release failed i reason c)) = length (records c)"
    "record_handles (records (duckdb_open_result_release failed i reason c) ! i) = {#}"
proof -
  define s1 where "s1 = (case or_session (records c ! i) of None \<Rightarrow> c
      | Some n \<Rightarrow> log_native [N_session_close n (if reason = [] then ''Result destroyed'' else reason)] c)"
  have s1: "placed s1 = placed c" "records s1 = records c"
    by (auto simp: s1_def placed_log split: option.splits)
  define s2 where "s2 = (case or_pending (records s1 ! i) of None \<Rightarrow> s1
      | Some h \<Rightarrow> set_record i ((records s1 ! i)\<lparr>or_pending := None\<rparr>) (duckdb_discard_pending failed h None s1))"
  have s2: "placed s2 = placed s1" "length (records s2) = length (records c)" "or_pending (records s2 ! i) = None"
  proof -
    have "placed (set_record i ((records s1 ! i)\<lparr>or_pending := None\<rparr>) (duckdb_discard_pending failed h None s1)) = placed s1"
      if h: "or_pending (records s1 ! i) = Some h" for h
    proof -
      let ?s = "duckdb_discard_pending failed h None s1" and ?r = "(records s1 ! i)\<lparr>or_pending := None\<rparr>"
      have "placed ?s = placed s1 + {#h#}" "records ?s = records s1"
        by (simp_all add: duckdb_discard_pending_def placed_log)
      moreover have "record_handles (records s1 ! i) = record_handles ?r + {#h#}"
        using h by (simp add: record_handles_def)
      ultimately show ?thesis
        using placed_set_record [of i ?s ?r] assms s1(2) by (simp add: ac_simps)
    qed
    then show "placed s2 = placed s1" by (auto simp: s2_def split: option.splits)
    show "length (records s2) = length (records c)" "or_pending (records s2 ! i) = None"
      using assms s1(2) by (auto simp: s2_def duckdb_discard_pending_def split: option.splits)
  qed
  have res: "duckdb_open_result_release failed i reason c =
      (if or_streaming (records s2 ! i)
       then set_record i ((records s2 ! i)\<lparr>or_streaming := False\<rparr>) (log_native [N_destroy_result (or_result (records s2 ! i))] s2)
       else s2)"
    by (simp add: duckdb_open_result_release_def s1_def [symmetric] s2_def [symmetric] Let_def)
  show "placed (duckdb_open_result_release failed i reason c) = placed c"
  proof (cases "or_streaming (records s2 ! i)")
    case True
    let ?s = "log_native [N_destroy_result (or_result (records s2 ! i))] s2" and ?r = "(records s2 ! i)\<lparr>or_streaming := False\<rparr>"
    have "placed ?s = placed s2 + {#or_result (records s2 ! i)#}" by (simp add: placed_log)
    moreover have "record_handles (records s2 ! i) = record_handles ?r + {#or_result (records s2 ! i)#}"
      using True by (simp add: record_handles_def)
    ultimately show ?thesis
      using True placed_set_record [of i ?s ?r] assms s1 s2 by (simp add: res ac_simps)
  qed (simp add: res s1 s2)
  show "length (records (duckdb_open_result_release failed i reason c)) = length (records c)"
    by (simp add: res s2)
  show "record_handles (records (duckdb_open_result_release failed i reason c) ! i) = {#}"
    using assms s2 by (simp add: res record_handles_def)
qed


lemma open_result_destroy_placed:
  assumes "i < length (records c)"
  shows "placed (duckdb_open_result_destroy failed i reason c) = placed c"
    "length (records (duckdb_open_result_destroy failed i reason c)) = length (records c)"
  using assms open_result_release_placed [OF assms] by (simp_all add: duckdb_open_result_destroy_def)

lemma run_work_placed:
  assumes "work_ok (length (records c)) w"
  shows "placed (run_work failed w c) = placed c + work_handles w"
    "length (records (run_work failed w c)) = length (records c)"
  using assms open_result_destroy_placed
  by (cases w; auto simp: placed_log option.pred_set split: option.splits)+

lemma run_works_placed:
  "\<forall>w \<in> set ws. work_ok (length (records c)) w \<Longrightarrow>
     placed (fold (run_work failed) ws c) = placed c + sum_list (map work_handles ws)
     \<and> length (records (fold (run_work failed) ws c)) = length (records c)"
proof (induction ws arbitrary: c)
  case (Cons w ws)
  with run_work_placed [of c w failed] show ?case by simp
qed simp

definition works_ok :: "conn \<Rightarrow> bool" where
  "works_ok c \<longleftrightarrow> (\<forall>w \<in> set (deferred c). work_ok (length (records c)) w)"


lemma record_handles_empty [simp]:
  "record_handles \<lparr>or_state = st, or_result = h, or_streaming = True, or_pending = None, or_session = n, or_holds = b\<rparr> = {#h#}"
  "record_handles \<lparr>or_state = st, or_result = h, or_streaming = False, or_pending = Some k, or_session = n, or_holds = b\<rparr> = {#k#}"
  by (simp_all add: record_handles_def)

lemma add_record_placed:
  "placed (add_record r c) = placed c + record_handles r" "length (records (add_record r c)) = Suc (length (records c))"
  "deferred (add_record r c) = deferred c" "set (open_results (add_record r c)) = insert (length (records c)) (set (open_results c))"
  by (simp_all add: placed_def add_record_def destroyed_def ac_simps)

text \<open>The fields that closing results and running deferred work leave alone.\<close>

definition rest :: "conn \<Rightarrow> _" where
  "rest c = (conn_closed c, conn_lock c, handler_depth c, handler_thread c, deferred c, waiting c, workers c, worker_prepares c)"

lemma rest_simps:
  "rest (log_native ns c) = rest c" "rest (set_record i r c) = rest c" "rest (set_state i st c) = rest c"
  "rest (duckdb_open_result_unregister i c) = rest c" "rest (duckdb_discard_pending failed h d c) = rest c"
  by (simp_all add: rest_def log_native_def set_record_def set_state_def duckdb_open_result_unregister_def duckdb_discard_pending_def)

lemma registry_simps:
  "open_results (log_native ns c) = open_results c" "open_results (set_record i r c) = open_results c"
  "open_results (set_state i st c) = open_results c" "open_results (duckdb_discard_pending failed h d c) = open_results c"
  "open_results (duckdb_open_result_unregister i c) = filter (\<lambda>j. j \<noteq> i) (open_results c)"
  by (simp_all add: log_native_def set_record_def set_state_def duckdb_open_result_unregister_def duckdb_discard_pending_def)

lemma open_result_release_frame:
  "rest (duckdb_open_result_release failed i reason c) = rest c"
  "open_results (duckdb_open_result_release failed i reason c) = open_results c"
  by (simp_all add: duckdb_open_result_release_def Let_def rest_simps registry_simps split: option.split)

lemma open_result_destroy_frame:
  "rest (duckdb_open_result_destroy failed i reason c) = rest c"
  "set (open_results (duckdb_open_result_destroy failed i reason c)) = set (open_results c) - {i}"
  by (auto simp: duckdb_open_result_destroy_def rest_simps registry_simps open_result_release_frame)

lemma run_work_frame:
  "rest (run_work failed w c) = rest c" "set (open_results (run_work failed w c)) \<subseteq> set (open_results c)"
  by (cases w; auto simp: rest_simps registry_simps open_result_destroy_frame split: option.splits)+

lemma run_works_frame:
  "rest (fold (run_work failed) ws c) = rest c \<and> set (open_results (fold (run_work failed) ws c)) \<subseteq> set (open_results c)"
proof (induction ws arbitrary: c)
  case (Cons w ws)
  show ?case using Cons.IH [of "run_work failed w c"] run_work_frame [of failed w c] by auto
qed simp

section \<open>The invariant of a connection\<close>

text \<open>
  Every deferred closure and every registry entry names an existing record, prepared statements wait
  only while a worker runs, and deferred cleanup always has a thread that will come back for it.
\<close>

definition conn_ok :: "conn \<Rightarrow> bool" where
  "conn_ok c \<longleftrightarrow> works_ok c \<and> (\<forall>i \<in> set (open_results c). i < length (records c))
     \<and> (workers c = 0 \<longrightarrow> worker_prepares c = []) \<and> (deferred c \<noteq> [] \<longrightarrow> (\<exists>t. waiting c t > 0))"

lemma conn_ok_frame:
  "conn_ok c \<Longrightarrow> rest c' = rest c \<Longrightarrow> length (records c') = length (records c)
     \<Longrightarrow> set (open_results c') \<subseteq> set (open_results c) \<Longrightarrow> conn_ok c'"
  by (auto simp: conn_ok_def works_ok_def rest_def)

lemma run_work_ok:
  "conn_ok c \<Longrightarrow> work_ok (length (records c)) w \<Longrightarrow> conn_ok (run_work failed w c)"
  using conn_ok_frame [of c "run_work failed w c"] run_work_frame [of failed w c] run_work_placed [of c w failed] by simp

lemma drain_deferred_ok:
  assumes w: "works_ok c" and c: "conn_ok (c\<lparr>deferred := []\<rparr>)"
  shows "conn_ok (duckdb_conn_drain_deferred failed c)" "placed (duckdb_conn_drain_deferred failed c) = placed c"
    "rest (duckdb_conn_drain_deferred failed c) = rest (c\<lparr>deferred := []\<rparr>)"
proof -
  let ?c = "c\<lparr>deferred := []\<rparr>" and ?d = "duckdb_conn_drain_deferred failed c"
  have ok: "\<forall>w \<in> set (deferred c). work_ok (length (records ?c)) w"
    using w by (simp add: works_ok_def)
  have p: "placed c = placed ?c + sum_list (map work_handles (deferred c))"
    by (simp add: placed_def destroyed_def ac_simps)
  show "placed ?d = placed c"
    using run_works_placed [OF ok, of failed] p by (simp add: duckdb_conn_drain_deferred_def)
  show r: "rest ?d = rest ?c"
    using run_works_frame [of failed "deferred c" ?c] by (simp add: duckdb_conn_drain_deferred_def)
  show "conn_ok ?d"
    using run_works_placed [OF ok, of failed] run_works_frame [of failed "deferred c" ?c] conn_ok_frame [OF c]
    by (simp add: duckdb_conn_drain_deferred_def)
qed

lemma cleanup_ok:
  assumes "conn_ok c" "work_ok (length (records c)) w"
  shows "conn_ok (duckdb_conn_cleanup failed t w c)" "placed (duckdb_conn_cleanup failed t w c) = placed c + work_handles w"
proof -
  let ?d = "c\<lparr>deferred := deferred c @ [w], waiting := (waiting c)(t := Suc (waiting c t))\<rparr>"
  have "conn_ok ?d" using assms by (auto simp: conn_ok_def works_ok_def)
  then show "conn_ok (duckdb_conn_cleanup failed t w c)"
    using run_work_ok [OF assms] by (simp add: duckdb_conn_cleanup_def)
  have "placed ?d = placed c + work_handles w" by (simp add: placed_def destroyed_def ac_simps)
  then show "placed (duckdb_conn_cleanup failed t w c) = placed c + work_handles w"
    using run_work_placed [OF assms(2)] by (simp add: duckdb_conn_cleanup_def)
qed

lemma destroy_prepare_ok:
  assumes "conn_ok c"
  shows "conn_ok (duckdb_conn_destroy_prepare failed t h c)" "placed (duckdb_conn_destroy_prepare failed t h c) = placed c + {#h#}"
proof -
  have "conn_ok (log_native [N_destroy_prepare h] c)"
    using run_work_ok [OF assms, of "W_prepare h" failed] by simp
  then show "conn_ok (duckdb_conn_destroy_prepare failed t h c)"
    using assms cleanup_ok(1) [OF assms, of "W_prepare h" failed t]
    by (auto simp: duckdb_conn_destroy_prepare_def conn_ok_def works_ok_def)
  show "placed (duckdb_conn_destroy_prepare failed t h c) = placed c + {#h#}"
    using cleanup_ok(2) [OF assms, of "W_prepare h" failed t]
    by (simp add: duckdb_conn_destroy_prepare_def placed_log) (simp add: placed_def destroyed_def ac_simps)
qed

lemma worker_end_ok:
  assumes "conn_ok c" "0 < workers c"
  shows "conn_ok (duckdb_conn_worker_end c)" "placed (duckdb_conn_worker_end c) = placed c"
proof -
  have d: "concat (map (destroyed_by \<circ> N_destroy_prepare) hs) = hs" for hs by (induction hs) auto
  show "conn_ok (duckdb_conn_worker_end c)"
    using assms by (auto simp: duckdb_conn_worker_end_def conn_ok_def works_ok_def log_native_def Let_def)
  show "placed (duckdb_conn_worker_end c) = placed c"
    by (simp add: duckdb_conn_worker_end_def Let_def placed_log d) (simp add: placed_def destroyed_def)
qed

lemma finish_pending_ok:
  assumes "conn_ok c" "i \<in> set (open_results c)"
  shows "conn_ok (finish_pending i c)" "placed (finish_pending i c) = placed c"
proof -
  have i: "i < length (records c)" using assms by (simp add: conn_ok_def)
  show "conn_ok (finish_pending i c)"
    by (rule conn_ok_frame [OF assms(1)])
       (auto simp: finish_pending_def duckdb_open_result_drained_def rest_simps registry_simps split: option.split)
  show "placed (finish_pending i c) = placed c"
  proof (cases "or_pending (records c ! i)")
    case (Some h)
    let ?s = "log_native [N_destroy_pending h] c" and ?r = "(records c ! i)\<lparr>or_pending := None\<rparr>"
    have "record_handles (records c ! i) = record_handles ?r + {#h#}"
      using Some by (simp add: record_handles_def)
    then show ?thesis
      using Some i placed_set_record [of i ?s ?r]
      by (simp add: finish_pending_def duckdb_open_result_drained_def placed_log ac_simps)
  qed (simp add: finish_pending_def duckdb_open_result_drained_def i)
qed

lemma check_open_ok:
  assumes "conn_ok c"
  shows "conn_ok (snd (duckdb_conn_check_no_open_result probe c))"
    "placed (snd (duckdb_conn_check_no_open_result probe c)) = placed c"
proof -
  let ?rs = "map (\<lambda>i. let r = records c ! i in if i \<in> set (open_results c) then r\<lparr>or_holds := False\<rparr> else r)
               [0..<length (records c)]"
  have "map record_handles ?rs = map record_handles (records c)"
    by (intro nth_equalityI) (simp_all add: Let_def)
  then have "placed (c\<lparr>records := ?rs\<rparr>) = placed c" by (simp add: placed_def destroyed_def)
  moreover have "conn_ok (c\<lparr>records := ?rs\<rparr>)" by (rule conn_ok_frame [OF assms]) (simp_all add: rest_def)
  moreover have "snd (duckdb_conn_check_no_open_result probe c) = c
      \<or> snd (duckdb_conn_check_no_open_result probe c) = c\<lparr>records := ?rs\<rparr>"
    by (simp add: duckdb_conn_check_no_open_result_def)
  ultimately show "conn_ok (snd (duckdb_conn_check_no_open_result probe c))"
    "placed (snd (duckdb_conn_check_no_open_result probe c)) = placed c"
    using assms by auto
qed

text \<open>One visit empties the queue, so further entries of the same connection find nothing to do.\<close>

lemma busy_here_iff: "duckdb_conn_busy_here t c \<longleftrightarrow> handler_depth c \<noteq> 0 \<and> handler_thread c = t"
  by (simp add: duckdb_conn_busy_here_def)

lemma drain_waiting_busy:
  "duckdb_conn_busy_here t c \<Longrightarrow> drain_waiting failed t n c = c\<lparr>waiting := (waiting c)(t := waiting c t + n)\<rparr>"
proof (induction n arbitrary: c)
  case (Suc n)
  then show ?case
    using Suc.IH [of "c\<lparr>waiting := (waiting c)(t := Suc (waiting c t))\<rparr>"]
    by (simp add: busy_here_iff fun_upd_def cong: if_cong)
qed (simp add: fun_upd_idem)

lemma drain_deferred_rest:
  "rest (duckdb_conn_drain_deferred failed c) = rest (c\<lparr>deferred := []\<rparr>)"
  using run_works_frame [of failed "deferred c" "c\<lparr>deferred := []\<rparr>"] by (simp add: duckdb_conn_drain_deferred_def)

lemma drain_waiting_idle:
  "\<not> duckdb_conn_busy_here t c \<Longrightarrow> drain_waiting failed t n c = (if n = 0 then c else duckdb_conn_drain_deferred failed c)"
proof (induction n arbitrary: c)
  case (Suc n)
  let ?d = "duckdb_conn_drain_deferred failed c"
  have r: "rest ?d = rest (c\<lparr>deferred := []\<rparr>)" by (rule drain_deferred_rest)
  then have "\<not> duckdb_conn_busy_here t ?d" using Suc.prems by (simp add: rest_def busy_here_iff)
  moreover have "duckdb_conn_drain_deferred failed ?d = ?d"
    using r by (simp add: duckdb_conn_drain_deferred_def [of failed ?d] rest_def)
  ultimately show ?case using Suc.IH [of ?d] Suc.prems by simp
qed simp

lemma drain_connections_ok:
  assumes "conn_ok c"
  shows "conn_ok (duckdb_drain_deferred_connections failed t c)"
    "placed (duckdb_drain_deferred_connections failed t c) = placed c"
proof -
  let ?c = "c\<lparr>waiting := (waiting c)(t := 0)\<rparr>"
  have b: "duckdb_conn_busy_here t ?c = duckdb_conn_busy_here t c" by (simp add: busy_here_iff)
  have e: "duckdb_drain_deferred_connections failed t c =
      (if duckdb_conn_busy_here t c \<or> waiting c t = 0 then c else duckdb_conn_drain_deferred failed ?c)"
    by (auto simp: duckdb_drain_deferred_connections_def drain_waiting_busy drain_waiting_idle b fun_upd_idem)
  have w: "works_ok ?c" "conn_ok (?c\<lparr>deferred := []\<rparr>)"
    using assms by (auto simp: conn_ok_def works_ok_def)
  show "conn_ok (duckdb_drain_deferred_connections failed t c)"
    "placed (duckdb_drain_deferred_connections failed t c) = placed c"
    using drain_deferred_ok [OF w, of failed] assms by (simp_all add: e)
qed

section \<open>Reachable states\<close>

definition system_ok :: "system \<Rightarrow> bool" where
  "system_ok s \<longleftrightarrow> conn_ok (sys_conn s) \<and> finite (created s) \<and> owned s \<subseteq> created s
     \<and> mset_set (created s) = mset_set (owned s) + placed (sys_conn s)"

lemma system_ok_conn:
  "system_ok s \<Longrightarrow> conn_ok c \<Longrightarrow> placed c = placed (sys_conn s) \<Longrightarrow> system_ok (s\<lparr>sys_conn := c\<rparr>)"
  by (simp add: system_ok_def)

lemma mset_set_give:
  assumes "finite A" "B \<subseteq> A"
  shows "mset_set (A - B) + mset_set B = mset_set A"
  using assms by (simp add: mset_set_Diff subset_imp_msubset_mset_set finite_subset)

text \<open>An owner that gives up the handles \<open>B\<close> puts each of them somewhere in the connection.\<close>

lemma system_ok_give:
  assumes "system_ok s" "B \<subseteq> owned s" "conn_ok c" "placed c = placed (sys_conn s) + mset_set B"
  shows "system_ok (s\<lparr>owned := owned s - B, sys_conn := c\<rparr>)"
proof -
  have "finite (owned s)" using assms(1) by (auto simp: system_ok_def dest: finite_subset)
  then have "mset_set (owned s - B) + mset_set B = mset_set (owned s)" using assms(2) by (rule mset_set_give)
  then show ?thesis using assms by (auto simp: system_ok_def ac_simps)
qed

lemma add_record_ok: "conn_ok c \<Longrightarrow> conn_ok (add_record r c)"
  by (auto simp: conn_ok_def works_ok_def add_record_def less_SucI intro: work_ok_mono)

lemma conn_step_ok: "conn_step failed s s' \<Longrightarrow> system_ok s \<Longrightarrow> system_ok s'"
proof (induction rule: conn_step.induct)
  case (enter s t c)
  then have "c = (sys_conn s)\<lparr>conn_lock := Some t\<rparr>"
    by (auto simp: duckdb_conn_enter_def duckdb_conn_check_not_busy_def split: if_splits)
  with enter show ?case by (auto intro!: system_ok_conn simp: system_ok_def conn_ok_def works_ok_def)
next
  case (create s t h)
  then have "finite (owned s)" "h \<notin> owned s" by (auto simp: system_ok_def dest: finite_subset)
  with create show ?case by (auto simp: system_ok_def)
next
  case (stream s t h session)
  then have "conn_ok (sys_conn s)" by (simp add: system_ok_def)
  then have "system_ok (s\<lparr>owned := owned s - {h}, sys_conn := duckdb_open_result_stream h session (sys_conn s)\<rparr>)"
    using stream by (intro system_ok_give) (auto simp: duckdb_open_result_stream_def add_record_placed add_record_ok)
  then show ?case by simp
next
  case (pending s t h session)
  then have "conn_ok (sys_conn s)" by (simp add: system_ok_def)
  then have "system_ok (s\<lparr>owned := owned s - {h}, sys_conn := duckdb_open_result_pending h session (sys_conn s)\<rparr>)"
    using pending by (intro system_ok_give) (auto simp: duckdb_open_result_pending_def add_record_placed add_record_ok)
  then show ?case by simp
next
  case (fetch_fails s t i)
  then have i: "i < length (records (sys_conn s))" "conn_ok (sys_conn s)" by (auto simp: system_ok_def conn_ok_def)
  moreover have "conn_ok (set_state i OR_errored (sys_conn s))"
    by (rule conn_ok_frame [OF i(2)]) (simp_all add: rest_simps registry_simps)
  ultimately show ?case using fetch_fails by (auto intro!: system_ok_conn)
next
  case (drains s t i)
  then have "conn_ok (sys_conn s)" by (simp add: system_ok_def)
  with drains show ?case by (auto intro!: system_ok_conn finish_pending_ok)
next
  case (check_open s t probe)
  then have "conn_ok (sys_conn s)" by (simp add: system_ok_def)
  with check_open show ?case by (auto intro!: system_ok_conn check_open_ok)
next
  case (result_dies t s i)
  then have "conn_ok (sys_conn s)" by (simp add: system_ok_def)
  with result_dies cleanup_ok [of "sys_conn s" "W_result i" failed t] show ?case by (auto intro!: system_ok_conn)
next
  case (task_dies t s i r p)
  then have c: "conn_ok (sys_conn s)" by (simp add: system_ok_def)
  have e: "mset_set (set_option r \<union> set_option p) = work_handles (W_task i r p)"
    using task_dies by (simp add: mset_set_Union)
  have "system_ok (s\<lparr>owned := owned s - (set_option r \<union> set_option p),
      sys_conn := duckdb_conn_cleanup failed t (W_task i r p) (sys_conn s)\<rparr>)"
    using task_dies cleanup_ok [OF c, of "W_task i r p" failed t] e by (intro system_ok_give) auto
  then show ?case by (simp add: Diff_eq Int_assoc Compl_Un)
next
  case (statement_dies h s t)
  then have c: "conn_ok (sys_conn s)" by (simp add: system_ok_def)
  have "system_ok (s\<lparr>owned := owned s - {h}, sys_conn := duckdb_conn_destroy_prepare failed t h (sys_conn s)\<rparr>)"
    using statement_dies destroy_prepare_ok [OF c, of failed t h] by (intro system_ok_give) auto
  then show ?case by simp
next
  case (worker_ends s t)
  then have "conn_ok (sys_conn s)" by (simp add: system_ok_def)
  with worker_ends show ?case by (auto intro!: system_ok_conn worker_end_ok)
next
  case (method_returns s t)
  then have "conn_ok (sys_conn s)" by (simp add: system_ok_def)
  with method_returns show ?case by (auto intro!: system_ok_conn drain_connections_ok)
qed (auto simp: system_ok_def conn_ok_def works_ok_def unlock_def handler_begin_def handler_end_def
       duckdb_conn_worker_begin_def close_connection_def)

lemma reachable_ok: "reachable failed s \<Longrightarrow> system_ok s"
proof (induction rule: reachable.induct)
  case start
  then show ?case
    by (simp add: system_ok_def initial_system_def initial_conn_def conn_ok_def works_ok_def placed_def destroyed_def)
qed (rule conn_step_ok)

lemma distinct_below: "mset xs \<subseteq># mset_set A \<Longrightarrow> distinct xs"
proof (induction xs)
  case (Cons x xs)
  have "count (mset (x # xs)) x \<le> count (mset_set A) x" using Cons.prems by (rule mset_subset_eq_count)
  also have "\<dots> \<le> 1" by (simp add: count_mset_set')
  finally have "x \<notin> set xs" by simp
  moreover have "distinct xs"
    using Cons.prems by (intro Cons.IH) (auto intro: subset_mset.order_trans [of _ "mset (x # xs)"])
  ultimately show ?case by simp
qed simp

text \<open>
  C1. In every interleaving, each native handle DuckDB ever returned is either still held by its owner
  or has exactly one place in the connection: an open result's record, a deferred closure, the list of
  statements waiting for a worker, or the log of destroyed handles. So no handle is lost and none is
  destroyed twice or while somebody still holds it.
\<close>

theorem handles_conserved:
  assumes "reachable failed s"
  shows "mset_set (created s) = mset_set (owned s) + placed (sys_conn s)
     \<and> distinct (destroyed (sys_conn s)) \<and> set (destroyed (sys_conn s)) \<subseteq> created s - owned s"
proof -
  have ok: "system_ok s" using assms by (rule reachable_ok)
  then have m: "mset_set (created s) = mset_set (owned s) + placed (sys_conn s)" by (simp add: system_ok_def)
  have f: "finite (owned s)" "finite (created s)" using ok by (auto simp: system_ok_def dest: finite_subset)
  have "mset_set (created s - owned s) + mset_set (owned s) = mset_set (created s)"
    using ok f by (intro mset_set_give) (simp_all add: system_ok_def)
  then have p: "placed (sys_conn s) = mset_set (created s - owned s)"
    using m by (metis add.commute add_left_cancel)
  then have le: "mset (destroyed (sys_conn s)) \<subseteq># mset_set (created s - owned s)"
    unfolding placed_def by (metis mset_subset_eq_add_right)
  have "distinct (destroyed (sys_conn s))" using le by (rule distinct_below)
  moreover have "set (destroyed (sys_conn s)) \<subseteq> created s - owned s"
    using set_mset_mono [OF le] f by simp
  ultimately show ?thesis using m by blast
qed

section \<open>Nothing waits forever\<close>

text \<open>
  What is still to come once no handler runs and the connection is free: a thread whose list of waiting connections
  holds this one returns from its method, and a worker that was begun completes, in one critical section. Nothing new
  begins.
\<close>

inductive wind_down :: "(handle \<Rightarrow> bool) \<Rightarrow> system \<Rightarrow> system \<Rightarrow> bool" for failed where
  waiting_returns: "conn_lock (sys_conn s) = None \<Longrightarrow> 0 < waiting (sys_conn s) t
     \<Longrightarrow> wind_down failed s (on_conn (duckdb_drain_deferred_connections failed t) s)"
| worker_completes: "conn_lock (sys_conn s) = None \<Longrightarrow> 0 < workers (sys_conn s) \<Longrightarrow> duckdb_conn_enter t (sys_conn s) = Inr c
     \<Longrightarrow> wind_down failed s (s\<lparr>sys_conn := unlock (duckdb_conn_worker_end c)\<rparr>)"

lemma worker_end_fields [simp]:
  "conn_lock (duckdb_conn_worker_end c) = conn_lock c" "workers (duckdb_conn_worker_end c) = workers c - 1"
  "deferred (duckdb_conn_worker_end c) = deferred c" "handler_depth (duckdb_conn_worker_end c) = handler_depth c"
  by (simp_all add: duckdb_conn_worker_end_def log_native_def Let_def)

lemma unlock_fields [simp]:
  "conn_lock (unlock c) = None" "workers (unlock c) = workers c" "deferred (unlock c) = deferred c"
  "handler_depth (unlock c) = handler_depth c" "waiting (unlock c) = waiting c"
  by (simp_all add: unlock_def)

lemma enter_result: "duckdb_conn_enter t c = Inr c' \<Longrightarrow> c' = c\<lparr>conn_lock := Some t\<rparr>"
  by (auto simp: duckdb_conn_enter_def duckdb_conn_check_not_busy_def split: if_splits)

text \<open>These are steps of the interleaving.\<close>

lemma wind_down_steps: "wind_down failed s s' \<Longrightarrow> (conn_step failed)\<^sup>*\<^sup>* s s'"
proof (induction rule: wind_down.induct)
  case (waiting_returns s t)
  then show ?case by (blast intro: conn_step.method_returns)
next
  case (worker_completes s t c)
  then have c: "c = (sys_conn s)\<lparr>conn_lock := Some t\<rparr>" by (simp add: enter_result)
  have "conn_step failed s (s\<lparr>sys_conn := c\<rparr>)"
    using worker_completes by (blast intro: conn_step.enter)
  moreover have "conn_step failed (s\<lparr>sys_conn := c\<rparr>) (on_conn duckdb_conn_worker_end (s\<lparr>sys_conn := c\<rparr>))"
    using worker_completes c by (intro conn_step.worker_ends [of _ t]) simp_all
  moreover have "conn_step failed (on_conn duckdb_conn_worker_end (s\<lparr>sys_conn := c\<rparr>))
      (on_conn unlock (on_conn duckdb_conn_worker_end (s\<lparr>sys_conn := c\<rparr>)))"
    using c by (intro conn_step.leave [of _ t]) simp
  ultimately show ?case by simp
qed

definition conn_idle :: "system \<Rightarrow> bool" where
  "conn_idle s \<longleftrightarrow> system_ok s \<and> conn_lock (sys_conn s) = None \<and> handler_depth (sys_conn s) = 0"

lemma drain_connections_idle:
  assumes "handler_depth c = 0" "0 < waiting c t"
  shows "rest (duckdb_drain_deferred_connections failed t c) = rest (c\<lparr>waiting := (waiting c)(t := 0), deferred := []\<rparr>)"
proof -
  have "\<not> duckdb_conn_busy_here t (c\<lparr>waiting := (waiting c)(t := 0)\<rparr>)" using assms(1) by (simp add: busy_here_iff)
  then show ?thesis
    using assms(2) drain_deferred_rest [of failed "c\<lparr>waiting := (waiting c)(t := 0)\<rparr>"]
    by (simp add: duckdb_drain_deferred_connections_def drain_waiting_idle)
qed

lemma wind_down_ok:
  assumes "wind_down failed s s'" "conn_idle s"
  shows "conn_idle s'"
proof -
  have "(conn_step failed)\<^sup>*\<^sup>* s s'" using assms(1) by (rule wind_down_steps)
  then have "system_ok s'"
    using assms(2) by (induction rule: rtranclp_induct) (auto simp: conn_idle_def intro: conn_step_ok)
  moreover have "conn_lock (sys_conn s') = None \<and> handler_depth (sys_conn s') = 0"
    using assms
  proof cases
    case (waiting_returns t)
    then show ?thesis using drain_connections_idle [of "sys_conn s" t failed] assms(2) by (simp add: conn_idle_def rest_def)
  next
    case (worker_completes t c)
    then show ?thesis using assms(2) enter_result [of t "sys_conn s" c] by (simp add: conn_idle_def)
  qed
  ultimately show ?thesis by (simp add: conn_idle_def)
qed

definition unfinished :: "system \<Rightarrow> bool" where
  "unfinished s \<longleftrightarrow> deferred (sys_conn s) \<noteq> [] \<or> 0 < workers (sys_conn s)"

definition unfinished_steps :: "system \<Rightarrow> nat" where
  "unfinished_steps s = workers (sys_conn s) + (if deferred (sys_conn s) = [] then 0 else 1)"

text \<open>Queued work always has a thread that comes back for it.\<close>

lemma wind_down_progress:
  assumes ok: "conn_idle s" and left: "unfinished s"
  shows "\<exists>s'. wind_down failed s s' \<and> unfinished_steps s' < unfinished_steps s"
proof (cases "deferred (sys_conn s) = []")
  case False
  then obtain t where t: "0 < waiting (sys_conn s) t" using ok by (auto simp: conn_idle_def system_ok_def conn_ok_def)
  let ?s = "on_conn (duckdb_drain_deferred_connections failed t) s"
  have "rest (sys_conn ?s) = rest ((sys_conn s)\<lparr>waiting := (waiting (sys_conn s))(t := 0), deferred := []\<rparr>)"
    using drain_connections_idle [OF _ t, of failed] ok by (simp add: conn_idle_def)
  then have "unfinished_steps ?s < unfinished_steps s" using False by (simp add: rest_def unfinished_steps_def)
  then show ?thesis using wind_down.waiting_returns [OF _ t, of failed] ok by (auto simp: conn_idle_def)
next
  case True
  then have w: "0 < workers (sys_conn s)" using left by (simp add: unfinished_def)
  have "duckdb_conn_enter 0 (sys_conn s) = Inr ((sys_conn s)\<lparr>conn_lock := Some 0\<rparr>)"
    using ok by (simp add: conn_idle_def duckdb_conn_enter_def duckdb_conn_check_not_busy_def busy_here_iff)
  from wind_down.worker_completes [OF _ w this, of failed] ok w True show ?thesis
    by (force simp: conn_idle_def unfinished_steps_def)
qed

interpretation connection_cleanup: progress_system "wind_down failed" conn_idle unfinished unfinished_steps for failed
  by unfold_locales (auto intro: wind_down_ok wind_down_progress)

lemma wind_down_owners: "(wind_down failed)\<^sup>*\<^sup>* s s' \<Longrightarrow> owned s' = owned s \<and> created s' = created s"
  by (induction rule: rtranclp_induct) (auto elim!: wind_down.cases)

text \<open>
  C13. Deferred cleanup is never stranded. From every reachable state in which no handler runs and the connection is
  free, the returns of the threads that have cleanup waiting and the completions of the workers that run, and nothing
  else, lead to a state where no worker runs and every handle that is neither held by its owner nor part of an open
  result has been destroyed.
\<close>

theorem deferred_cleanup_completes:
  assumes "reachable failed s" "conn_lock (sys_conn s) = None" "handler_depth (sys_conn s) = 0"
  shows "\<exists>s'. (wind_down failed)\<^sup>*\<^sup>* s s' \<and> created s' = created s \<and> owned s' = owned s
     \<and> deferred (sys_conn s') = [] \<and> workers (sys_conn s') = 0 \<and> worker_prepares (sys_conn s') = []
     \<and> created s = owned s \<union> set_mset (sum_list (map record_handles (records (sys_conn s')))) \<union> set (destroyed (sys_conn s'))"
proof -
  have "conn_idle s" using assms reachable_ok by (simp add: conn_idle_def)
  from connection_cleanup.settles [OF this] obtain s' where
    s': "(wind_down failed)\<^sup>*\<^sup>* s s'" "conn_idle s'" "\<not> unfinished s'" by blast
  have same: "owned s' = owned s" "created s' = created s" using wind_down_owners [OF s'(1)] by simp_all
  have over: "deferred (sys_conn s') = []" "workers (sys_conn s') = 0" "worker_prepares (sys_conn s') = []"
    using s'(2,3) by (auto simp: unfinished_def conn_idle_def system_ok_def conn_ok_def)
  have f: "finite (owned s)" "finite (created s)" and e: "mset_set (created s) = mset_set (owned s) + placed (sys_conn s')"
    using s'(2) same by (auto simp: conn_idle_def system_ok_def dest: finite_subset)
  have "set_mset (mset_set (created s)) = set_mset (mset_set (owned s) + placed (sys_conn s'))" by (simp only: e)
  then have "created s = owned s \<union> set_mset (sum_list (map record_handles (records (sys_conn s')))) \<union> set (destroyed (sys_conn s'))"
    using f over by (simp add: placed_def Un_assoc)
  then show ?thesis using s'(1) same over by blast
qed

text \<open>
  While a handler of this connection runs on a thread, that thread can neither enter the connection
  nor reach DuckDB through any destructor or returning method: closing a result or a task or freeing a
  statement only queues work, so the thread never waits for the lock its own statement holds.
\<close>

theorem handler_thread_only_queues:
  assumes "duckdb_conn_busy_here t c"
  shows "duckdb_conn_enter t c = Inl (DuckException ConnectionException
           ''Connection is busy executing a COPY handler; use another connection'' (error_code E_Connection))
     \<and> duckdb_conn_cleanup failed t w c
       = c\<lparr>deferred := deferred c @ [w], waiting := (waiting c)(t := Suc (waiting c t))\<rparr>
     \<and> natives (duckdb_conn_destroy_prepare failed t h c) = natives c
     \<and> duckdb_drain_deferred_connections failed t c = c"
proof -
  have "duckdb_conn_busy_here t (c\<lparr>waiting := (waiting c)(t := 0)\<rparr>)" using assms by (simp add: busy_here_iff)
  then show ?thesis
    using assms
    by (simp add: duckdb_conn_enter_def duckdb_conn_check_not_busy_def duckdb_throw_error_def
        duckdb_exception_ce_for_type_def message_or_unknown_def duckdb_conn_cleanup_def duckdb_conn_destroy_prepare_def
        duckdb_drain_deferred_connections_def drain_waiting_busy fun_upd_idem)
qed

section \<open>A run\<close>

text \<open>
  A streaming result and a statement are created, the statement dies while a worker runs and the result
  dies inside a handler of its connection.
\<close>

abbreviation run_entered :: system where
  "run_entered \<equiv> initial_system\<lparr>sys_conn := (sys_conn initial_system)\<lparr>conn_lock := Some 1\<rparr>\<rparr>"

definition run_created :: system where
  "run_created = (let s = run_entered\<lparr>owned := {5}, created := {5}\<rparr> in s\<lparr>owned := insert 6 (owned s), created := insert 6 (created s)\<rparr>)"

definition run_registered :: system where
  "run_registered = on_conn (duckdb_open_result_stream 5 None) (run_created\<lparr>owned := owned run_created - {5}\<rparr>)"

definition run_waiting :: system where
  "run_waiting = (let s = on_conn duckdb_conn_worker_begin run_registered
     in on_conn (duckdb_conn_destroy_prepare (\<lambda>h. False) 1 6) (s\<lparr>owned := owned s - {6}\<rparr>))"

definition run_handler :: system where
  "run_handler = on_conn (duckdb_conn_cleanup (\<lambda>h. False) 1 (W_result 0)) (on_conn (handler_begin 1) run_waiting)"

definition run_left :: system where
  "run_left = on_conn unlock (on_conn handler_end run_handler)"

lemmas run_defs = run_created_def run_registered_def run_waiting_def run_handler_def run_left_def Let_def
  initial_system_def initial_conn_def duckdb_open_result_stream_def add_record_def busy_here_iff
  duckdb_conn_worker_begin_def duckdb_conn_destroy_prepare_def handler_begin_def duckdb_conn_cleanup_def
  handler_end_def unlock_def

lemma run_reachable: "reachable (\<lambda>h. False) run_left"
proof -
  let ?F = "\<lambda>h::handle. False"
  have "reachable ?F run_entered"
    by (rule reachable.step [OF reachable.start], rule conn_step.enter [where t = 1])
       (simp_all add: initial_system_def initial_conn_def duckdb_conn_enter_def duckdb_conn_check_not_busy_def busy_here_iff)
  then have "reachable ?F (run_entered\<lparr>owned := {5}, created := {5}\<rparr>)"
    using conn_step.create [of run_entered 1 5 ?F] by (auto intro: reachable.step simp: initial_system_def)
  then have "reachable ?F run_created"
    unfolding run_created_def Let_def by (rule reachable.step) (rule conn_step.create [where t = 1], simp_all)
  then have "reachable ?F run_registered"
    unfolding run_registered_def
    by (rule reachable.step) (rule conn_step.stream [where t = 1], simp_all add: run_created_def)
  then have "reachable ?F (on_conn duckdb_conn_worker_begin run_registered)"
    by (rule reachable.step) (rule conn_step.worker_begins)
  then have "reachable ?F run_waiting"
    unfolding run_waiting_def Let_def
    by (rule reachable.step) (rule conn_step.statement_dies, simp add: run_registered_def run_created_def)
  then have "reachable ?F (on_conn (handler_begin 1) run_waiting)"
    by (rule reachable.step) (rule conn_step.handler_begins, simp add: run_defs)
  then have "reachable ?F run_handler"
    unfolding run_handler_def by (rule reachable.step) (rule conn_step.result_dies, simp_all add: run_defs)
  then have "reachable ?F (on_conn handler_end run_handler)"
    by (rule reachable.step) (rule conn_step.handler_ends, simp add: run_defs)
  then show ?thesis
    unfolding run_left_def by (rule reachable.step) (rule conn_step.leave [where t = 1], simp add: run_defs)
qed

lemma run_left_state:
  "created run_left = {6, 5}" "owned run_left = {}" "conn_lock (sys_conn run_left) = None" "handler_depth (sys_conn run_left) = 0"
  "deferred (sys_conn run_left) = [W_result 0]" "worker_prepares (sys_conn run_left) = [6]" "destroyed (sys_conn run_left) = []"
  by (auto simp: run_defs destroyed_def)

lemma handles_conserved_witness:
  "mset_set (created run_left) = mset_set (owned run_left) + placed (sys_conn run_left)"
  using handles_conserved [OF run_reachable] by blast

lemma deferred_cleanup_completes_witness:
  "\<exists>s'. (wind_down (\<lambda>h. False))\<^sup>*\<^sup>* run_left s' \<and> deferred (sys_conn s') = [] \<and> worker_prepares (sys_conn s') = []"
  using deferred_cleanup_completes [OF run_reachable run_left_state(3,4)] by blast

lemma handler_thread_only_queues_witness:
  "natives (duckdb_conn_destroy_prepare (\<lambda>h. False) 1 7 (handler_begin 1 initial_conn)) = []"
proof -
  have "duckdb_conn_busy_here 1 (handler_begin 1 initial_conn)" by (simp add: busy_here_iff handler_begin_def initial_conn_def)
  then have "natives (duckdb_conn_destroy_prepare (\<lambda>h. False) 1 7 (handler_begin 1 initial_conn)) = natives (handler_begin 1 initial_conn)"
    using handler_thread_only_queues [of 1 "handler_begin 1 initial_conn" "\<lambda>h. False" "W_prepare 0" 7] by blast
  then show ?thesis by (simp add: handler_begin_def initial_conn_def)
qed

end
