(* ===== verification/Appender.thy ===== *)
theory Appender
  imports Prelude Errors Php_Value Statement Connection
begin

text \<open>
  \<open>DuckDB\Appender\<close>, \<open>src/src/appender.cpp\<close>: the methods of an appender, the destructor, and
  the protocol their native calls follow. The native appender is the parameter \<open>api\<close>; every native call
  and whether it succeeded is kept in a log, so that the theorems speak of all histories. Converted
  values and the rows of a data chunk are of type \<open>'v\<close> and \<open>'v list\<close>.
\<close>

section \<open>The native appender\<close>

datatype 'v appender_call =
    A_begin_row
  | A_value 'v
  | A_default
  | A_end_row
  | A_chunk "'v list list"
  | A_flush
  | A_close
  | A_clear
  | A_destroy

text \<open>
  \<open>error_data\<close> is \<open>None\<close> where \<open>duckdb_appender_error_data\<close> returns no object, otherwise whether it
  has an error, its message and its category.
\<close>

record ('n, 'v) appender_api =
  native_call :: "'n \<Rightarrow> 'v appender_call \<Rightarrow> bool \<times> 'n"
  error_data :: "'n \<Rightarrow> (bool \<times> string option \<times> duckdb_error_type) option"
  appender_columns :: "'n \<Rightarrow> nat"

record ('n, 'v) appender =
  ap_handle :: "'n option"
  ap_closed :: bool
  ap_failed :: bool
  ap_row_open :: bool
  ap_log :: "('v appender_call \<times> bool) list"

text \<open>\<open>Connection::appender()\<close> after \<open>duckdb_appender_create_ext\<close> succeeded.\<close>

definition new_appender :: "'n \<Rightarrow> ('n, 'v) appender" where
  "new_appender h = \<lparr>ap_handle = Some h, ap_closed = False, ap_failed = False, ap_row_open = False, ap_log = []\<rparr>"

text \<open>What a method meets when it is called.\<close>

record 'v call_env =
  env_thread :: thread
  env_conn :: conn
  env_probe :: "string option option"
  env_convert :: "zval list \<Rightarrow> (throwable, 'v list) result"

section \<open>Errors\<close>

definition duckdb_appender_throw :: "('n, 'v) appender_api \<Rightarrow> 'n \<Rightarrow> string \<Rightarrow> throwable" where
  "duckdb_appender_throw api h fallback =
     (case error_data api h of
        None \<Rightarrow> duckdb_throw_error E_Invalid (Some fallback)
      | Some (has_error, msg, t) \<Rightarrow>
          if has_error then duckdb_throw_error t (Some (case msg of None \<Rightarrow> fallback | Some m \<Rightarrow> m))
          else duckdb_throw_error E_Invalid (Some fallback))"

definition duckdb_appender_fail ::
    "('n, 'v) appender_api \<Rightarrow> string \<Rightarrow> ('n, 'v) appender \<Rightarrow> (throwable, unit) result \<times> ('n, 'v) appender" where
  "duckdb_appender_fail api fallback a =
     (Inl (duckdb_appender_throw api (the (ap_handle a)) fallback), a\<lparr>ap_failed := True\<rparr>)"

definition duckdb_appender_get :: "conn \<Rightarrow> ('n, 'v) appender option \<Rightarrow> (throwable, 'n) result" where
  "duckdb_appender_get c obj =
     (case obj of
        None \<Rightarrow> Inl (PhpError (''DuckDB'' @ [CHR 0x5C] @ ''Appender object is not initialized (its constructor was bypassed)''))
      | Some a \<Rightarrow>
          (if ap_closed a then Inl (duckdb_throw_msg (Some ''Appender is closed''))
           else case ap_handle a of
             None \<Rightarrow> Inl (duckdb_throw_msg (Some ''Appender is closed''))
           | Some h \<Rightarrow>
               (if ap_failed a
                then Inl (duckdb_throw_msg (Some ''Appender has failed; call clear() before reusing it''))
                else rbind (duckdb_connection_guard (Some c)) (\<lambda>_. Inr h))))"

definition duckdb_appender_enter_write :: "'v call_env \<Rightarrow> (throwable, unit) result" where
  "duckdb_appender_enter_write e =
     rbind (duckdb_conn_enter (env_thread e) (env_conn e)) (\<lambda>c. fst (duckdb_conn_check_no_open_result (env_probe e) c))"

text \<open>\<open>conn_entry::plain\<close>: only the lock.\<close>

definition enter_plain :: "'v call_env \<Rightarrow> (throwable, unit) result" where
  "enter_plain e = rbind (duckdb_conn_enter (env_thread e) (env_conn e)) (\<lambda>c. Inr ())"

section \<open>Methods\<close>

text \<open>One native call on the handle, appended to the log.\<close>

definition call_native ::
    "('n, 'v) appender_api \<Rightarrow> 'v appender_call \<Rightarrow> ('n, 'v) appender \<Rightarrow> bool \<times> ('n, 'v) appender" where
  "call_native api op a =
     (case native_call api (the (ap_handle a)) op of
        (ok, h) \<Rightarrow> (ok, a\<lparr>ap_handle := Some h, ap_log := ap_log a @ [(op, ok)]\<rparr>))"

text \<open>Call, and fail the appender when DuckDB reports an error.\<close>

definition call_or_fail ::
    "('n, 'v) appender_api \<Rightarrow> 'v appender_call \<Rightarrow> string \<Rightarrow> ('n, 'v) appender
     \<Rightarrow> (throwable, unit) result \<times> ('n, 'v) appender" where
  "call_or_fail api op fallback a =
     (case call_native api op a of (ok, a') \<Rightarrow> if ok then (Inr (), a') else duckdb_appender_fail api fallback a')"

definition row_already_open :: throwable where
  "row_already_open = PhpError (''DuckDB'' @ [CHR 0x5C] @ ''Appender: a row is already open (call endRow() first)'')"

definition no_row_open :: throwable where
  "no_row_open = PhpError (''DuckDB'' @ [CHR 0x5C] @ ''Appender: no row is open (call beginRow() first)'')"

definition beginRow where
  "beginRow api e a =
     (case duckdb_appender_get (env_conn e) (Some a) of
        Inl err \<Rightarrow> (Inl err, a)
      | Inr h \<Rightarrow>
          if ap_row_open a then (Inl row_already_open, a)
          else case enter_plain e of
            Inl err \<Rightarrow> (Inl err, a)
          | Inr _ \<Rightarrow>
              (case call_or_fail api A_begin_row ''Failed to begin appender row'' a of
                 (Inl err, a') \<Rightarrow> (Inl err, a')
               | (Inr _, a') \<Rightarrow> (Inr (), a'\<lparr>ap_row_open := True\<rparr>)))"

definition append_value where
  "append_value api e value a =
     (case duckdb_appender_get (env_conn e) (Some a) of
        Inl err \<Rightarrow> (Inl err, a)
      | Inr h \<Rightarrow>
          if \<not> ap_row_open a then (Inl no_row_open, a)
          else case enter_plain e of
            Inl err \<Rightarrow> (Inl err, a)
          | Inr _ \<Rightarrow>
              (case env_convert e [value] of
                 Inl err \<Rightarrow> (Inl err, a)
               | Inr converted \<Rightarrow> call_or_fail api (A_value (converted ! 0)) ''Failed to append value'' a))"

definition appendDefault where
  "appendDefault api e a =
     (case duckdb_appender_get (env_conn e) (Some a) of
        Inl err \<Rightarrow> (Inl err, a)
      | Inr h \<Rightarrow>
          if \<not> ap_row_open a then (Inl no_row_open, a)
          else case enter_plain e of
            Inl err \<Rightarrow> (Inl err, a)
          | Inr _ \<Rightarrow> call_or_fail api A_default ''Failed to append column default'' a)"

definition endRow where
  "endRow api e a =
     (case duckdb_appender_get (env_conn e) (Some a) of
        Inl err \<Rightarrow> (Inl err, a)
      | Inr h \<Rightarrow>
          if \<not> ap_row_open a then (Inl no_row_open, a)
          else case duckdb_appender_enter_write e of
            Inl err \<Rightarrow> (Inl err, a)
          | Inr _ \<Rightarrow> call_or_fail api A_end_row ''Failed to finish appender row (missing values for some columns?)''
              (a\<lparr>ap_row_open := False\<rparr>))"

text \<open>The loop over the converted values stops at the first one DuckDB refuses.\<close>

fun append_values :: "('n, 'v) appender_api \<Rightarrow> 'v list \<Rightarrow> ('n, 'v) appender \<Rightarrow> bool \<times> ('n, 'v) appender" where
  "append_values api [] a = (True, a)"
| "append_values api (v # vs) a =
     (case call_native api (A_value v) a of (ok, a') \<Rightarrow> if ok then append_values api vs a' else (False, a'))"

definition submit_row where
  "submit_row api vs a =
     (case call_native api A_begin_row a of
        (False, a1) \<Rightarrow> (False, a1)
      | (True, a1) \<Rightarrow>
          (case append_values api vs a1 of
             (False, a2) \<Rightarrow> (False, a2)
           | (True, a2) \<Rightarrow> call_native api A_end_row a2))"

definition appendRow where
  "appendRow api e values a =
     (case duckdb_appender_get (env_conn e) (Some a) of
        Inl err \<Rightarrow> (Inl err, a)
      | Inr h \<Rightarrow>
          if ap_row_open a then (Inl row_already_open, a)
          else if length values \<noteq> appender_columns api h
          then (Inl (ArgValueError 1 (''must contain exactly '' @ int_text (appender_columns api h)
                 @ '' values (one per column), '' @ int_text (length values) @ '' given'')), a)
          else case duckdb_appender_enter_write e of
            Inl err \<Rightarrow> (Inl err, a)
          | Inr _ \<Rightarrow>
              (case env_convert e values of
                 Inl err \<Rightarrow> (Inl err, a)
               | Inr converted \<Rightarrow>
                   (case submit_row api converted a of
                      (True, a') \<Rightarrow> (Inr (), a')
                    | (False, a') \<Rightarrow> duckdb_appender_fail api ''Failed to append row'' a')))"

definition append_flush where
  "append_flush api e a =
     (case duckdb_appender_get (env_conn e) (Some a) of
        Inl err \<Rightarrow> (Inl err, a)
      | Inr h \<Rightarrow>
          (case duckdb_appender_enter_write e of
             Inl err \<Rightarrow> (Inl err, a)
           | Inr _ \<Rightarrow> call_or_fail api A_flush ''Failed to flush appender'' a))"

text \<open>
  The loop of \<open>duckdb_appender_append_chunk\<close> over batches of at most \<open>n\<close> rows, DuckDB's vector size. The
  64-bit offset cannot wrap: a chunk is far smaller than \<open>2 ^ 64\<close> rows.
\<close>

definition chunk_batch :: "nat \<Rightarrow> 'v list list \<Rightarrow> nat \<Rightarrow> 'v list list" where
  "chunk_batch n rows offset = take (min n (length rows - offset)) (drop offset rows)"

partial_function (option) submit_batches ::
    "('n, 'v) appender_api \<Rightarrow> nat \<Rightarrow> 'v list list \<Rightarrow> nat \<Rightarrow> ('n, 'v) appender
     \<Rightarrow> ((throwable, unit) result \<times> ('n, 'v) appender) option" where
  "submit_batches api n rows offset a =
     (if offset < length rows
      then (case call_native api (A_chunk (chunk_batch n rows offset)) a of
              (ok, a') \<Rightarrow>
                if ok then submit_batches api n rows (offset + n) a'
                else Some (duckdb_appender_fail api ''Failed to append data chunk'' a'))
      else Some (Inr (), a))"

text \<open>
  \<open>source\<close> is the chunk the argument stands for: the rows of a \<open>DataChunk\<close>, or the outcome of
  importing an Arrow chunk on the connection.
\<close>

definition duckdb_appender_append_chunk where
  "duckdb_appender_append_chunk api n e source a =
     (case duckdb_appender_get (env_conn e) (Some a) of
        Inl err \<Rightarrow> Some (Inl err, a)
      | Inr h \<Rightarrow>
          if ap_row_open a then Some (Inl row_already_open, a)
          else case duckdb_appender_enter_write e of
            Inl err \<Rightarrow> Some (Inl err, a)
          | Inr _ \<Rightarrow>
              (case source of
                 Inl err \<Rightarrow> Some (Inl err, a)
               | Inr rows \<Rightarrow>
                   if length rows \<le> n
                   then Some (call_or_fail api (A_chunk rows) ''Failed to append data chunk'' a)
                   else submit_batches api n rows 0 a))"

definition clear_appender where
  "clear_appender api e a =
     (if ap_closed a \<or> ap_handle a = None then (Inl (duckdb_throw_msg (Some ''Appender is closed'')), a)
      else case duckdb_connection_guard (Some (env_conn e)) of
        Inl err \<Rightarrow> (Inl err, a)
      | Inr _ \<Rightarrow>
          (case enter_plain e of
             Inl err \<Rightarrow> (Inl err, a)
           | Inr _ \<Rightarrow>
               (case call_or_fail api A_clear ''Failed to clear appender'' a of
                  (Inl err, a') \<Rightarrow> (Inl err, a')
                | (Inr _, a') \<Rightarrow> (Inr (), a'\<lparr>ap_row_open := False, ap_failed := False\<rparr>))))"

definition close_appender where
  "close_appender api e a =
     (if ap_closed a then (Inr (), a)
      else if \<not> ap_failed a \<and> ap_handle a \<noteq> None
      then (case duckdb_appender_enter_write e of
              Inl err \<Rightarrow> (Inl err, a)
            | Inr _ \<Rightarrow> call_or_fail api A_close ''Failed to close appender'' (a\<lparr>ap_closed := True, ap_row_open := False\<rparr>))
      else let a' = a\<lparr>ap_closed := True, ap_row_open := False\<rparr> in
           if ap_failed a'
           then (case enter_plain e of
                   Inl err \<Rightarrow> (Inl err, a')
                 | Inr _ \<Rightarrow>
                     (case call_native api A_clear a' of
                        (True, a'') \<Rightarrow> (Inr (), a'')
                      | (False, a'') \<Rightarrow>
                          (Inl (duckdb_appender_throw api (the (ap_handle a'')) ''Failed to discard appender buffers''), a'')))
           else (Inr (), a'))"

text \<open>
  \<open>~appender_inner\<close>. Its closure runs under the connection's lock, at once or when the running handler
  has returned (\<open>Connection.duckdb_conn_cleanup\<close>).
\<close>

definition appender_destructor :: "('n, 'v) appender_api \<Rightarrow> ('n, 'v) appender \<Rightarrow> ('n, 'v) appender" where
  "appender_destructor api a =
     (case ap_handle a of
        None \<Rightarrow> a
      | Some h \<Rightarrow>
          let a1 = (if ap_failed a then snd (call_native api A_clear a) else a);
              a2 = (if \<not> ap_closed a \<and> \<not> ap_failed a
                    then (case call_native api A_close a1 of
                            (True, a') \<Rightarrow> a'
                          | (False, a') \<Rightarrow> snd (call_native api A_clear a'))
                    else a1);
              a3 = snd (call_native api A_destroy a2)
          in a3\<lparr>ap_handle := None\<rparr>)"

datatype 'v appender_op =
    Op_beginRow
  | Op_append zval
  | Op_appendDefault
  | Op_endRow
  | Op_appendRow "zval list"
  | Op_flush
  | Op_appendChunk "(throwable, 'v list list) result"
  | Op_clear
  | Op_close

fun appender_method where
  "appender_method api n e Op_beginRow a = Some (beginRow api e a)"
| "appender_method api n e (Op_append z) a = Some (append_value api e z a)"
| "appender_method api n e Op_appendDefault a = Some (appendDefault api e a)"
| "appender_method api n e Op_endRow a = Some (endRow api e a)"
| "appender_method api n e (Op_appendRow zs) a = Some (appendRow api e zs a)"
| "appender_method api n e Op_flush a = Some (append_flush api e a)"
| "appender_method api n e (Op_appendChunk source) a = duckdb_appender_append_chunk api n e source a"
| "appender_method api n e Op_clear a = Some (clear_appender api e a)"
| "appender_method api n e Op_close a = Some (close_appender api e a)"

fun appender_step where
  "appender_step api n (e, op) a = map_option snd (appender_method api n e op a)"

section \<open>The loop over batches\<close>

text \<open>The batches of a chunk, from an offset on.\<close>

function batches :: "nat \<Rightarrow> 'v list list \<Rightarrow> nat \<Rightarrow> 'v list list list" where
  "batches n rows offset =
     (if offset < length rows \<and> 0 < n then chunk_batch n rows offset # batches n rows (offset + n) else [])"
  by pat_completeness auto
termination by (relation "measure (\<lambda>(n, rows, offset). length rows - offset)") auto

declare batches.simps [simp del]

lemma batches_concat: "0 < n \<Longrightarrow> concat (batches n rows offset) = drop offset rows"
proof (induction n rows offset rule: batches.induct)
  case (1 n rows offset)
  show ?case
  proof (cases "offset < length rows")
    case True
    have "take (min n (length rows - offset)) (drop offset rows) @ drop (offset + n) rows = drop offset rows"
      by (metis add.commute append_take_drop_id drop_drop min.commute take_take length_drop take_all_iff le_refl)
    then show ?thesis using True 1 by (subst batches.simps) (simp add: chunk_batch_def)
  qed (subst batches.simps, simp)
qed

lemma batches_bounded: "b \<in> set (batches n rows offset) \<Longrightarrow> 0 < length b \<and> length b \<le> n"
proof (induction n rows offset rule: batches.induct)
  case (1 n rows offset)
  then show ?case by (subst (asm) batches.simps) (auto simp: chunk_batch_def split: if_splits)
qed

section \<open>The protocol of native calls\<close>

text \<open>
  \<open>In_row\<close>: a native row is open; \<open>Buffered\<close>: complete rows may wait in the buffer; \<open>Broken\<close>: a call
  failed, so only clearing is allowed; \<open>Uncleared\<close>: clearing was tried and failed. A handle is destroyed
  only when nothing is buffered that has not been closed or cleared first.
\<close>

datatype phase = Empty | Buffered | In_row | Broken | Uncleared | Closed | Gone

fun protocol :: "phase \<Rightarrow> 'v appender_call \<times> bool \<Rightarrow> phase option" where
  "protocol p (A_begin_row, ok) = (if p \<in> {Empty, Buffered} then Some (if ok then In_row else Broken) else None)"
| "protocol p (A_value v, ok) = (if p = In_row then Some (if ok then In_row else Broken) else None)"
| "protocol p (A_default, ok) = (if p = In_row then Some (if ok then In_row else Broken) else None)"
| "protocol p (A_end_row, ok) = (if p = In_row then Some (if ok then Buffered else Broken) else None)"
| "protocol p (A_chunk rows, ok) = (if p \<in> {Empty, Buffered} then Some (if ok then Buffered else Broken) else None)"
| "protocol p (A_flush, ok) = (if p \<in> {Empty, Buffered, In_row} then Some (if ok then p else Broken) else None)"
| "protocol p (A_close, ok) = (if p \<in> {Empty, Buffered, In_row} then Some (if ok then Closed else Broken) else None)"
| "protocol p (A_clear, ok) = (if p \<in> {Empty, Buffered, In_row, Broken, Uncleared} then Some (if ok then Empty else Uncleared) else None)"
| "protocol p (A_destroy, ok) = (if p \<in> {Empty, Closed, Uncleared} then Some Gone else None)"

fun protocol_run :: "phase \<Rightarrow> ('v appender_call \<times> bool) list \<Rightarrow> phase option" where
  "protocol_run p [] = Some p"
| "protocol_run p (x # xs) = (case protocol p x of None \<Rightarrow> None | Some p' \<Rightarrow> protocol_run p' xs)"

lemma protocol_run_append:
  "protocol_run p (xs @ ys) = (case protocol_run p xs of None \<Rightarrow> None | Some p' \<Rightarrow> protocol_run p' ys)"
  by (induction xs arbitrary: p) (auto split: option.splits)

text \<open>The flags of the object agree with the phase of its handle.\<close>

definition flags_agree :: "('n, 'v) appender \<Rightarrow> phase \<Rightarrow> bool" where
  "flags_agree a p \<longleftrightarrow>
     (if ap_closed a then p \<in> (if ap_failed a then {Broken, Empty, Uncleared} else {Closed})
      else if ap_failed a then p \<in> {Broken, Uncleared}
      else if ap_row_open a then p = In_row else p \<in> {Empty, Buffered})"

definition in_phase :: "phase \<Rightarrow> ('n, 'v) appender \<Rightarrow> bool" where
  "in_phase p a \<longleftrightarrow> ap_handle a \<noteq> None \<and> protocol_run Empty (ap_log a) = Some p"

definition appender_ok :: "('n, 'v) appender \<Rightarrow> bool" where
  "appender_ok a \<longleftrightarrow> (\<exists>p. in_phase p a \<and> flags_agree a p)"

lemma in_phase_flags [simp]:
  "in_phase p (a\<lparr>ap_closed := b\<rparr>) = in_phase p a" "in_phase p (a\<lparr>ap_failed := b\<rparr>) = in_phase p a"
  "in_phase p (a\<lparr>ap_row_open := b\<rparr>) = in_phase p a"
  by (simp_all add: in_phase_def)

text \<open>A native call moves the phase and leaves the flags alone.\<close>

lemma call_native_phase:
  assumes "in_phase p a" "call_native api op a = (ok, a')" "protocol p (op, ok) = Some p'"
  shows "in_phase p' a'" "ap_closed a' = ap_closed a" "ap_failed a' = ap_failed a" "ap_row_open a' = ap_row_open a"
    "ap_log a' = ap_log a @ [(op, ok)]"
  using assms by (auto simp: call_native_def in_phase_def protocol_run_append split: prod.splits)

lemma call_or_fail_phase:
  assumes "in_phase p a" "call_or_fail api op fallback a = (r, a')" "\<And>ok. protocol p (op, ok) = Some (next_phase ok)"
  shows "(r = Inr () \<and> in_phase (next_phase True) a' \<and> ap_failed a' = ap_failed a
      \<and> ap_log a' = ap_log a @ [(op, True)]) \<or> (\<exists>err. r = Inl err \<and> in_phase (next_phase False) a' \<and> ap_failed a')"
    "ap_closed a' = ap_closed a" "ap_row_open a' = ap_row_open a"
proof -
  obtain ok a1 where c: "call_native api op a = (ok, a1)" by fastforce
  note ph = call_native_phase [OF assms(1) c assms(3)]
  show "(r = Inr () \<and> in_phase (next_phase True) a' \<and> ap_failed a' = ap_failed a
      \<and> ap_log a' = ap_log a @ [(op, True)]) \<or> (\<exists>err. r = Inl err \<and> in_phase (next_phase False) a' \<and> ap_failed a')"
    "ap_closed a' = ap_closed a" "ap_row_open a' = ap_row_open a"
    using assms(2) ph c by (cases ok; auto simp: call_or_fail_def duckdb_appender_fail_def)+
qed

text \<open>
  A method settles when it keeps the object consistent, makes exactly the given native calls on success,
  and otherwise either changes nothing or leaves the appender failed.
\<close>

definition settles ::
    "('n, 'v) appender \<Rightarrow> 'v appender_call list \<Rightarrow> (throwable, unit) result \<times> ('n, 'v) appender \<Rightarrow> bool" where
  "settles a calls = (\<lambda>(r, a'). appender_ok a' \<and>
     (case r of Inr _ \<Rightarrow> ap_log a' = ap_log a @ map (\<lambda>c. (c, True)) calls | Inl err \<Rightarrow> a' = a \<or> ap_failed a'))"

lemma settles_refused: "appender_ok a \<Longrightarrow> settles a calls (Inl err, a)"
  by (simp add: settles_def)

lemma settles_failed:
  "in_phase p a' \<Longrightarrow> p \<in> {Broken, Uncleared} \<Longrightarrow> settles a calls (duckdb_appender_fail api fallback a')"
  by (auto simp: settles_def duckdb_appender_fail_def appender_ok_def flags_agree_def)

lemma appender_get_Inr:
  assumes "duckdb_appender_get c (Some a) = Inr h" "appender_ok a"
  shows "\<not> ap_closed a" "\<not> ap_failed a" "ap_handle a = Some h"
    "\<exists>p. in_phase p a \<and> (if ap_row_open a then p = In_row else p \<in> {Empty, Buffered})"
  using assms by (auto simp: duckdb_appender_get_def appender_ok_def flags_agree_def rbind_eq_Inr
      split: if_splits option.splits)

lemma settles_beginRow:
  assumes "appender_ok a"
  shows "settles a [A_begin_row] (beginRow api e a)"
proof (cases "duckdb_appender_get (env_conn e) (Some a)")
  case (Inr h)
  note g = appender_get_Inr [OF Inr assms]
  show ?thesis
  proof (cases "ap_row_open a \<or> (\<exists>err. enter_plain e = Inl err)")
    case True
    then show ?thesis using Inr assms by (auto simp: beginRow_def settles_refused split: sum.split)
  next
    case False
    then obtain p where u: "enter_plain e = Inr ()" and p: "in_phase p a" "p \<in> {Empty, Buffered}"
      using g by (cases "enter_plain e") auto
    obtain r a' where c: "call_or_fail api A_begin_row ''Failed to begin appender row'' a = (r, a')" by fastforce
    have ph: "\<And>ok. protocol p (A_begin_row, ok) = Some (if ok then In_row else Broken)" using p by auto
    have "beginRow api e a = (case r of Inl err \<Rightarrow> (Inl err, a') | Inr _ \<Rightarrow> (Inr (), a'\<lparr>ap_row_open := True\<rparr>))"
      using Inr False u c by (simp add: beginRow_def)
    with call_or_fail_phase [OF p(1) c ph] show ?thesis
      using False g by (auto simp: settles_def appender_ok_def flags_agree_def split: if_splits)
  qed
qed (simp add: beginRow_def settles_refused assms)

lemma settles_call:
  assumes "in_phase p a" "\<not> ap_closed a" "\<not> ap_failed a" "ap_log a = ap_log b"
    "\<And>ok. protocol p (op, ok) = Some (if ok then q else Broken)" "if ap_row_open a then q = In_row else q \<in> {Empty, Buffered}"
  shows "settles b [op] (call_or_fail api op fallback a)"
proof -
  obtain r a' where c: "call_or_fail api op fallback a = (r, a')" by fastforce
  from call_or_fail_phase [OF assms(1) c assms(5)] show ?thesis
    using c assms by (auto simp: settles_def appender_ok_def flags_agree_def split: if_splits)
qed

lemma settles_append_value:
  assumes "appender_ok a" "\<And>vs. env_convert e [z] = Inr vs \<Longrightarrow> v = vs ! 0"
  shows "settles a [A_value v] (append_value api e z a)"
proof (cases "duckdb_appender_get (env_conn e) (Some a)")
  case (Inr h)
  note g = appender_get_Inr [OF Inr assms(1)]
  show ?thesis
  proof (cases "\<not> ap_row_open a \<or> (\<exists>err. enter_plain e = Inl err) \<or> (\<exists>err. env_convert e [z] = Inl err)")
    case True
    then show ?thesis using Inr assms by (auto simp: append_value_def settles_refused split: sum.split)
  next
    case False
    then obtain u vs where "enter_plain e = Inr u" "env_convert e [z] = Inr vs" "ap_row_open a"
      by (cases "enter_plain e"; cases "env_convert e [z]") auto
    then show ?thesis
      using Inr g assms(2) settles_call [of In_row a a "A_value v" In_row] by (simp add: append_value_def)
  qed
qed (simp add: append_value_def settles_refused assms)

lemma settles_appendDefault:
  assumes "appender_ok a"
  shows "settles a [A_default] (appendDefault api e a)"
proof (cases "duckdb_appender_get (env_conn e) (Some a)")
  case (Inr h)
  note g = appender_get_Inr [OF Inr assms]
  show ?thesis
    using Inr g settles_refused [OF assms] settles_call [of In_row a a A_default In_row]
    by (auto simp: appendDefault_def split: sum.split)
qed (simp add: appendDefault_def settles_refused assms)

lemma settles_endRow:
  assumes "appender_ok a"
  shows "settles a [A_end_row] (endRow api e a)"
proof (cases "duckdb_appender_get (env_conn e) (Some a)")
  case (Inr h)
  note g = appender_get_Inr [OF Inr assms]
  show ?thesis
    using Inr g settles_refused [OF assms] settles_call [of In_row "a\<lparr>ap_row_open := False\<rparr>" a A_end_row Buffered]
    by (auto simp: endRow_def split: sum.split)
qed (simp add: endRow_def settles_refused assms)

lemma settles_flush:
  assumes "appender_ok a"
  shows "settles a [A_flush] (append_flush api e a)"
proof (cases "duckdb_appender_get (env_conn e) (Some a)")
  case (Inr h)
  note g = appender_get_Inr [OF Inr assms]
  then obtain p where "in_phase p a" "if ap_row_open a then p = In_row else p \<in> {Empty, Buffered}" by blast
  then show ?thesis
    using Inr g settles_refused [OF assms] settles_call [of p a a A_flush p]
    by (auto simp: append_flush_def split: sum.split if_splits)
qed (simp add: append_flush_def settles_refused assms)

text \<open>The values of a row: the phase stays \<open>In_row\<close> until one is refused.\<close>

lemma append_values_phase:
  assumes "in_phase In_row a" "append_values api vs a = (ok, a')"
  shows "in_phase (if ok then In_row else Broken) a' \<and> ap_closed a' = ap_closed a \<and> ap_failed a' = ap_failed a
     \<and> ap_row_open a' = ap_row_open a \<and> (ok \<longrightarrow> ap_log a' = ap_log a @ map (\<lambda>v. (A_value v, True)) vs)"
  using assms
proof (induction vs arbitrary: a)
  case (Cons v vs)
  obtain ok1 a1 where c: "call_native api (A_value v) a = (ok1, a1)" by fastforce
  have "protocol In_row (A_value v, ok1) = Some (if ok1 then In_row else Broken)" by simp
  note ph = call_native_phase [OF Cons.prems(1) c this]
  show ?case
  proof (cases ok1)
    case True
    then show ?thesis using Cons.IH [of a1] Cons.prems(2) ph c by simp
  next
    case False
    then show ?thesis using Cons.prems(2) ph c by simp
  qed
qed simp

lemma submit_row_phase:
  assumes "in_phase p a" "p \<in> {Empty, Buffered}" "submit_row api vs a = (ok, a')"
  shows "in_phase (if ok then Buffered else Broken) a' \<and> ap_closed a' = ap_closed a \<and> ap_failed a' = ap_failed a
     \<and> ap_row_open a' = ap_row_open a
     \<and> (ok \<longrightarrow> ap_log a' = ap_log a @ map (\<lambda>c. (c, True)) (A_begin_row # map A_value vs @ [A_end_row]))"
proof -
  obtain ok1 a1 where c1: "call_native api A_begin_row a = (ok1, a1)" by fastforce
  have "protocol p (A_begin_row, ok1) = Some (if ok1 then In_row else Broken)" using assms(2) by auto
  note p1 = call_native_phase [OF assms(1) c1 this]
  show ?thesis
  proof (cases ok1)
    case False
    then show ?thesis using assms(3) c1 p1 by (auto simp: submit_row_def)
  next
    case ok1: True
    obtain ok2 a2 where c2: "append_values api vs a1 = (ok2, a2)" by fastforce
    have i1: "in_phase In_row a1" using p1(1) ok1 by simp
    note p2 = append_values_phase [OF i1 c2]
    show ?thesis
    proof (cases ok2)
      case False
      then show ?thesis using assms(3) c1 c2 p1 p2 ok1 by (auto simp: submit_row_def)
    next
      case ok2: True
      obtain ok3 a3 where c3: "call_native api A_end_row a2 = (ok3, a3)" by fastforce
      have i2: "in_phase In_row a2" using p2 ok2 by simp
      have "protocol In_row (A_end_row, ok3) = Some (if ok3 then Buffered else Broken)" by simp
      note p3 = call_native_phase [OF i2 c3 this]
      show ?thesis using assms(3) c1 c2 c3 p1 p2 p3 ok1 ok2 by (auto simp: submit_row_def comp_def)
    qed
  qed
qed

lemma settles_appendRow:
  assumes "appender_ok a" "\<And>ws. env_convert e zs = Inr ws \<Longrightarrow> vs = ws"
  shows "settles a (A_begin_row # map A_value vs @ [A_end_row]) (appendRow api e zs a)"
proof (cases "\<exists>h vs'. duckdb_appender_get (env_conn e) (Some a) = Inr h \<and> \<not> ap_row_open a
      \<and> length zs = appender_columns api h \<and> duckdb_appender_enter_write e = Inr () \<and> env_convert e zs = Inr vs'")
  case True
  then obtain h where h: "duckdb_appender_get (env_conn e) (Some a) = Inr h" "\<not> ap_row_open a"
      "length zs = appender_columns api h" "duckdb_appender_enter_write e = Inr ()" "env_convert e zs = Inr vs"
    using assms(2) by blast
  note g = appender_get_Inr [OF h(1) assms(1)]
  then obtain p where p: "in_phase p a" "p \<in> {Empty, Buffered}" using h(2) by auto
  obtain ok a' where c: "submit_row api vs a = (ok, a')" by fastforce
  note ph = submit_row_phase [OF p c]
  show ?thesis
  proof (cases ok)
    case True
    then show ?thesis using ph h g c by (auto simp: appendRow_def settles_def appender_ok_def flags_agree_def)
  next
    case False
    then have "in_phase Broken a'" using ph by simp
    then show ?thesis using False h c settles_failed [of Broken a'] by (simp add: appendRow_def)
  qed
next
  case False
  then show ?thesis using settles_refused [OF assms(1)] by (auto simp: appendRow_def split: sum.split)
qed

abbreviation chunk_calls :: "'v list list list \<Rightarrow> ('v appender_call \<times> bool) list" where
  "chunk_calls bs \<equiv> map (\<lambda>b. (A_chunk b, True)) bs"

text \<open>
  The outcome of submitting batches: all accepted, or stopped at the first one DuckDB refuses.
\<close>

definition batches_outcome where
  "batches_outcome a bs r a' \<longleftrightarrow> ap_closed a' = ap_closed a \<and> ap_row_open a' = ap_row_open a
     \<and> ((r = Inr () \<and> ap_failed a' = ap_failed a \<and> (\<exists>q \<in> {Empty, Buffered}. in_phase q a')
          \<and> ap_log a' = ap_log a @ chunk_calls bs)
        \<or> ((\<exists>err. r = Inl err) \<and> ap_failed a' \<and> in_phase Broken a'
          \<and> (\<exists>before b after. bs = before @ b # after
               \<and> ap_log a' = ap_log a @ chunk_calls before @ [(A_chunk b, False)])))"

lemma batches_outcome_accepted:
  assumes "batches_outcome a1 bs r a'" "ap_closed a1 = ap_closed a" "ap_failed a1 = ap_failed a"
    "ap_row_open a1 = ap_row_open a" "ap_log a1 = ap_log a @ [(A_chunk b, True)]"
  shows "batches_outcome a (b # bs) r a'"
proof (cases r)
  case (Inl err)
  with assms obtain before c after where "bs = before @ c # after"
      "ap_log a' = ap_log a1 @ chunk_calls before @ [(A_chunk c, False)]" "ap_failed a'" "in_phase Broken a'"
    by (auto simp: batches_outcome_def)
  then have "b # bs = (b # before) @ c # after"
      "ap_log a' = ap_log a @ chunk_calls (b # before) @ [(A_chunk c, False)]"
    using assms(5) by simp_all
  then show ?thesis using assms Inl unfolding batches_outcome_def by (metis Inl_Inr_False)
qed (use assms in \<open>auto simp: batches_outcome_def\<close>)

lemma batches_outcome_refused:
  assumes "in_phase Broken a1" "ap_closed a1 = ap_closed a" "ap_row_open a1 = ap_row_open a"
    "ap_log a1 = ap_log a @ [(A_chunk b, False)]" "duckdb_appender_fail api fallback a1 = (r, a')"
  shows "batches_outcome a (b # bs) r a'"
proof -
  have "\<exists>before c after. b # bs = before @ c # after \<and> ap_log a' = ap_log a @ chunk_calls before @ [(A_chunk c, False)]"
    by (rule exI [of _ "[]"], rule exI [of _ b], rule exI [of _ bs]) (use assms in \<open>auto simp: duckdb_appender_fail_def\<close>)
  then show ?thesis
    unfolding batches_outcome_def using assms by (auto simp: duckdb_appender_fail_def simp del: list.map)
qed

lemma submit_batches_result:
  assumes "in_phase p a" "p \<in> {Empty, Buffered}" "0 < n"
  shows "\<exists>r a'. submit_batches api n rows offset a = Some (r, a') \<and> batches_outcome a (batches n rows offset) r a'"
  using assms
proof (induction n rows offset arbitrary: a p rule: batches.induct)
  case (1 n rows offset)
  show ?case
  proof (cases "offset < length rows")
    case False
    then show ?thesis
      using 1 by (subst submit_batches.simps) (auto simp: batches.simps [of n rows offset] batches_outcome_def)
  next
    case True
    let ?b = "chunk_batch n rows offset"
    have bs: "batches n rows offset = ?b # batches n rows (offset + n)"
      using True 1 by (subst batches.simps) simp
    obtain ok a1 where c: "call_native api (A_chunk ?b) a = (ok, a1)" by fastforce
    have "protocol p (A_chunk ?b, ok) = Some (if ok then Buffered else Broken)" using 1 by auto
    note ph = call_native_phase [OF 1(2) c this]
    show ?thesis
    proof (cases ok)
      case False
      then have "submit_batches api n rows offset a = Some (duckdb_appender_fail api ''Failed to append data chunk'' a1)"
        using True c by (subst submit_batches.simps) simp
      then show ?thesis
        using False ph batches_outcome_refused [of a1 a ?b api "''Failed to append data chunk''"]
        by (cases "duckdb_appender_fail api ''Failed to append data chunk'' a1") (auto simp: bs)
    next
      case ok: True
      have "submit_batches api n rows offset a = submit_batches api n rows (offset + n) a1"
        using True c ok by (subst submit_batches.simps) simp
      moreover have "in_phase Buffered a1" using ph ok by simp
      then obtain r a' where "submit_batches api n rows (offset + n) a1 = Some (r, a')"
          "batches_outcome a1 (batches n rows (offset + n)) r a'"
        using 1(1) [of Buffered a1] True 1(4) by auto
      ultimately show ?thesis
        using ph ok batches_outcome_accepted [of a1 "batches n rows (offset + n)" r a' a ?b] by (simp add: bs)
    qed
  qed
qed

text \<open>The batches of \<open>appendChunk\<close>: the chunk itself when it fits the vector size.\<close>

definition chunk_batches :: "nat \<Rightarrow> 'v list list \<Rightarrow> 'v list list list" where
  "chunk_batches n rows = (if length rows \<le> n then [rows] else batches n rows 0)"

lemma append_chunk_accepted:
  assumes "appender_ok a" "duckdb_appender_get (env_conn e) (Some a) = Inr h" "\<not> ap_row_open a"
    "duckdb_appender_enter_write e = Inr ()" "0 < n"
  shows "\<exists>r a'. duckdb_appender_append_chunk api n e (Inr rows) a = Some (r, a')
     \<and> batches_outcome a (chunk_batches n rows) r a'"
proof -
  obtain p where p: "in_phase p a" "p \<in> {Empty, Buffered}" using appender_get_Inr(4) [OF assms(2,1)] assms(3) by auto
  show ?thesis
  proof (cases "length rows \<le> n")
    case True
    obtain ok a1 where c: "call_native api (A_chunk rows) a = (ok, a1)" by fastforce
    have "protocol p (A_chunk rows, ok) = Some (if ok then Buffered else Broken)" using p by auto
    note ph = call_native_phase [OF p(1) c this]
    have "\<exists>r a'. call_or_fail api (A_chunk rows) ''Failed to append data chunk'' a = (r, a') \<and> batches_outcome a [rows] r a'"
    proof (cases ok)
      case True
      then show ?thesis using c ph by (auto simp: call_or_fail_def batches_outcome_def)
    next
      case False
      then show ?thesis
        using c ph batches_outcome_refused [of a1 a rows api "''Failed to append data chunk''"]
        by (cases "duckdb_appender_fail api ''Failed to append data chunk'' a1") (auto simp: call_or_fail_def)
    qed
    then show ?thesis using True assms by (auto simp: duckdb_appender_append_chunk_def chunk_batches_def)
  next
    case False
    then show ?thesis
      using assms submit_batches_result [OF p assms(5), of api rows 0]
      by (simp add: duckdb_appender_append_chunk_def chunk_batches_def)
  qed
qed

lemma settles_outcome:
  assumes "batches_outcome a bs r a'" "\<not> ap_closed a" "\<not> ap_failed a" "\<not> ap_row_open a"
  shows "settles a (map A_chunk bs) (r, a')"
  using assms by (auto simp: batches_outcome_def settles_def appender_ok_def flags_agree_def comp_def)

lemma settles_append_chunk:
  assumes "appender_ok a" "0 < n"
  shows "\<exists>x. duckdb_appender_append_chunk api n e source a = Some x
     \<and> settles a (case source of Inl err \<Rightarrow> [] | Inr rows \<Rightarrow> map A_chunk (chunk_batches n rows)) x"
proof (cases "\<exists>h rows. duckdb_appender_get (env_conn e) (Some a) = Inr h \<and> \<not> ap_row_open a
      \<and> duckdb_appender_enter_write e = Inr () \<and> source = Inr rows")
  case True
  then obtain h rows where h: "duckdb_appender_get (env_conn e) (Some a) = Inr h" "\<not> ap_row_open a"
      "duckdb_appender_enter_write e = Inr ()" "source = Inr rows" by blast
  then show ?thesis
    using append_chunk_accepted [OF assms(1) h(1-3) assms(2), of api rows] appender_get_Inr [OF h(1) assms(1)]
      settles_outcome [of a "chunk_batches n rows"] by fastforce
next
  case False
  then show ?thesis
    using settles_refused [OF assms(1)] by (auto simp: duckdb_appender_append_chunk_def split: sum.split)
qed

lemma settles_clear:
  assumes "appender_ok a"
  shows "settles a [A_clear] (clear_appender api e a)"
proof (cases "ap_closed a \<or> ap_handle a = None \<or> duckdb_connection_guard (Some (env_conn e)) \<noteq> Inr () \<or> enter_plain e \<noteq> Inr ()")
  case True
  then show ?thesis
    using settles_refused [OF assms] by (auto simp: clear_appender_def split: sum.split)
next
  case False
  obtain p where p: "in_phase p a" "flags_agree a p" using assms by (auto simp: appender_ok_def)
  obtain r a' where c: "call_or_fail api A_clear ''Failed to clear appender'' a = (r, a')" by fastforce
  have "\<And>ok. protocol p (A_clear, ok) = Some (if ok then Empty else Uncleared)"
    using p(2) False by (auto simp: flags_agree_def split: if_splits)
  note ph = call_or_fail_phase [OF p(1) c this]
  have "clear_appender api e a
      = (case r of Inl err \<Rightarrow> (Inl err, a') | Inr _ \<Rightarrow> (Inr (), a'\<lparr>ap_row_open := False, ap_failed := False\<rparr>))"
    using False c by (auto simp: clear_appender_def)
  with ph show ?thesis using False by (auto simp: settles_def appender_ok_def flags_agree_def split: if_splits)
qed

text \<open>What \<open>close()\<close> does depends on the flags: nothing, a native close, or clearing failed buffers.\<close>

definition close_calls :: "('n, 'v) appender \<Rightarrow> 'v appender_call list" where
  "close_calls a = (if ap_closed a then [] else if ap_failed a then [A_clear] else [A_close])"

lemma settles_close:
  assumes "appender_ok a"
  shows "settles a (close_calls a) (close_appender api e a)"
proof -
  obtain p where p: "in_phase p a" "flags_agree a p" using assms by (auto simp: appender_ok_def)
  then have h: "ap_handle a \<noteq> None" by (simp add: in_phase_def)
  let ?a = "a\<lparr>ap_closed := True, ap_row_open := False\<rparr>"
  have pa: "in_phase p ?a" using p(1) by simp
  consider "ap_closed a" | "\<not> ap_closed a" "\<not> ap_failed a" | "\<not> ap_closed a" "ap_failed a" by blast
  then show ?thesis
  proof cases
    case 1
    then show ?thesis using assms by (simp add: close_appender_def close_calls_def settles_def)
  next
    case 2
    obtain r a' where c: "call_or_fail api A_close ''Failed to close appender'' ?a = (r, a')" by fastforce
    have "\<And>ok. protocol p (A_close, ok) = Some (if ok then Closed else Broken)"
      using p(2) 2 by (auto simp: flags_agree_def split: if_splits)
    note ph = call_or_fail_phase [OF pa c this]
    have "settles a [A_close] (r, a')"
      using ph 2 by (auto simp: settles_def appender_ok_def flags_agree_def)
    then show ?thesis
      using 2 h c settles_refused [OF assms] by (auto simp: close_appender_def close_calls_def split: sum.split)
  next
    case 3
    obtain ok a' where c: "call_native api A_clear ?a = (ok, a')" by fastforce
    have "protocol p (A_clear, ok) = Some (if ok then Empty else Uncleared)"
      using p(2) 3 by (auto simp: flags_agree_def)
    note ph = call_native_phase [OF pa c this]
    have "appender_ok a'"
      unfolding appender_ok_def using ph 3 by (intro exI [of _ "if ok then Empty else Uncleared"]) (simp add: flags_agree_def)
    moreover have "appender_ok ?a" using p 3 by (auto simp: appender_ok_def flags_agree_def)
    ultimately show ?thesis
      using 3 c ph
      by (cases "enter_plain e"; cases ok) (simp_all add: close_appender_def close_calls_def settles_def Let_def)
  qed
qed

lemma destructor_protocol:
  assumes "appender_ok a"
  shows "protocol_run Empty (ap_log (appender_destructor api a)) = Some Gone" "ap_handle (appender_destructor api a) = None"
proof -
  obtain p where p: "in_phase p a" "flags_agree a p" using assms by (auto simp: appender_ok_def)
  then obtain h where h: "ap_handle a = Some h" by (auto simp: in_phase_def)
  define a1 where "a1 = (if ap_failed a then snd (call_native api A_clear a) else a)"
  define a2 where "a2 = (if \<not> ap_closed a \<and> \<not> ap_failed a
      then (case call_native api A_close a1 of (True, a') \<Rightarrow> a' | (False, a') \<Rightarrow> snd (call_native api A_clear a')) else a1)"
  have d: "appender_destructor api a = (snd (call_native api A_destroy a2))\<lparr>ap_handle := None\<rparr>"
    by (simp add: appender_destructor_def h a1_def a2_def Let_def)
  then show "ap_handle (appender_destructor api a) = None" by simp
  have clear: "\<exists>q \<in> {Empty, Uncleared}. in_phase q (snd (call_native api A_clear b))"
    if b: "in_phase q b" "q \<in> {Empty, Broken, Uncleared}" for q b
  proof -
    obtain ok b' where c: "call_native api A_clear b = (ok, b')" by fastforce
    have "protocol q (A_clear, ok) = Some (if ok then Empty else Uncleared)" using b(2) by auto
    from call_native_phase(1) [OF b(1) c this] show ?thesis by (simp add: c split: if_splits)
  qed
  have "\<exists>q \<in> {Empty, Uncleared, Closed}. in_phase q a2"
  proof (cases "ap_failed a")
    case True
    then have "p \<in> {Empty, Broken, Uncleared}" using p(2) by (auto simp: flags_agree_def split: if_splits)
    then show ?thesis using clear [OF p(1)] True by (auto simp: a1_def a2_def)
  next
    case ok: False
    show ?thesis
    proof (cases "ap_closed a")
      case True
      then show ?thesis using p ok by (auto simp: a1_def a2_def flags_agree_def)
    next
      case False
      obtain res a3 where c: "call_native api A_close a = (res, a3)" by fastforce
      have "protocol p (A_close, res) = Some (if res then Closed else Broken)"
        using p(2) ok False by (auto simp: flags_agree_def split: if_splits)
      note ph = call_native_phase(1) [OF p(1) c this]
      show ?thesis
      proof (cases res)
        case True
        then show ?thesis using c ph ok False by (simp add: a1_def a2_def)
      next
        case no: False
        then have "in_phase Broken a3" using ph by simp
        then show ?thesis using clear [of Broken a3] c no ok False by (auto simp: a1_def a2_def)
      qed
    qed
  qed
  then obtain q where q: "in_phase q a2" "q \<in> {Empty, Uncleared, Closed}" by blast
  obtain ok a4 where c: "call_native api A_destroy a2 = (ok, a4)" by fastforce
  have "protocol q (A_destroy, ok) = Some Gone" using q(2) by auto
  from call_native_phase(1) [OF q(1) c this] show "protocol_run Empty (ap_log (appender_destructor api a)) = Some Gone"
    by (simp add: d c in_phase_def)
qed

section \<open>All histories\<close>

text \<open>The native calls of each successful method.\<close>

fun method_calls :: "nat \<Rightarrow> 'v call_env \<Rightarrow> 'v appender_op \<Rightarrow> ('n, 'v) appender \<Rightarrow> 'v appender_call list" where
  "method_calls n e Op_beginRow a = [A_begin_row]"
| "method_calls n e (Op_append z) a = (case env_convert e [z] of Inl err \<Rightarrow> [] | Inr vs \<Rightarrow> [A_value (vs ! 0)])"
| "method_calls n e Op_appendDefault a = [A_default]"
| "method_calls n e Op_endRow a = [A_end_row]"
| "method_calls n e (Op_appendRow zs) a =
     (case env_convert e zs of Inl err \<Rightarrow> [] | Inr vs \<Rightarrow> A_begin_row # map A_value vs @ [A_end_row])"
| "method_calls n e Op_flush a = [A_flush]"
| "method_calls n e (Op_appendChunk source) a =
     (case source of Inl err \<Rightarrow> [] | Inr rows \<Rightarrow> map A_chunk (chunk_batches n rows))"
| "method_calls n e Op_clear a = [A_clear]"
| "method_calls n e Op_close a = close_calls a"

lemma method_settles:
  assumes "appender_ok a" "0 < n"
  shows "\<exists>x. appender_method api n e op a = Some x \<and> settles a (method_calls n e op a) x"
proof (cases op)
  case (Op_append z)
  show ?thesis
  proof (cases "env_convert e [z]")
    case (Inl err)
    then have "\<exists>err. append_value api e z a = (Inl err, a)"
      by (auto simp: append_value_def split: sum.split)
    then show ?thesis
      using Op_append Inl settles_refused [OF assms(1)] by fastforce
  next
    case (Inr vs)
    then show ?thesis using Op_append settles_append_value [OF assms(1), of e z "vs ! 0" api] by simp
  qed
next
  case (Op_appendChunk source)
  then show ?thesis using settles_append_chunk [OF assms] by simp
next
  case (Op_appendRow zs)
  show ?thesis
  proof (cases "env_convert e zs")
    case (Inl err)
    then have "\<exists>err. appendRow api e zs a = (Inl err, a)"
      by (auto simp: appendRow_def split: sum.split)
    then show ?thesis
      using Op_appendRow Inl settles_refused [OF assms(1)] by fastforce
  next
    case (Inr vs)
    then show ?thesis using Op_appendRow settles_appendRow [OF assms(1), of e zs vs api] by simp
  qed
qed (simp_all add: settles_beginRow settles_appendDefault settles_endRow settles_flush
       settles_clear settles_close assms)

interpretation appenders: op_system "appender_step api (Suc n)" appender_ok for api n
proof unfold_locales
  fix api :: "('a, 'b) appender_api" and n and a :: "('a, 'b) appender" and op :: "'b call_env \<times> 'b appender_op"
  assume "appender_ok a"
  then show "\<exists>a'. appender_step api (Suc n) op a = Some a' \<and> appender_ok a'"
    using method_settles [of a "Suc n" api "fst op" "snd op"] by (cases op) (auto simp: settles_def split: prod.splits)
qed

lemma new_appender_ok: "appender_ok (new_appender h)"
  by (auto simp: appender_ok_def in_phase_def flags_agree_def new_appender_def)

lemma run_appender_ok:
  assumes "0 < n" "run (appender_step api n) ops (new_appender h) = Some a"
  shows "appender_ok a"
  using appenders.run_keeps [OF new_appender_ok, of api "n - 1" ops h a] assms by simp

text \<open>
  C9. Whatever methods are called in whatever order, with whatever native failures, every method returns
  and the native calls follow the protocol up to the destructor: values only inside a row, nothing but
  clearing after a failure, and the handle destroyed exactly once, after its rows were closed or cleared.
\<close>

theorem appender_protocol:
  assumes "0 < n"
  shows "\<exists>a. run (appender_step api n) ops (new_appender h) = Some a
     \<and> protocol_run Empty (ap_log (appender_destructor api a)) = Some Gone"
proof -
  obtain a where "run (appender_step api n) ops (new_appender h) = Some a" "appender_ok a"
    using appenders.run_safe [OF new_appender_ok, of api "n - 1" ops h] assms by auto
  then show ?thesis using destructor_protocol by blast
qed

section \<open>The rows of an appender\<close>

text \<open>
  What an appender holds for its user: rows already flushed, rows accepted since, and the open row. A
  default is \<open>None\<close>. DuckDB may write accepted rows to the table earlier; the buffer counts explicit
  flushes.
\<close>

record 'v buffer =
  bf_flushed :: "'v option list list"
  bf_batch :: "'v option list list"
  bf_row :: "'v option list option"

definition append_cell :: "'v option \<Rightarrow> 'v buffer \<Rightarrow> 'v buffer" where
  "append_cell v b = b\<lparr>bf_row := map_option (\<lambda>r. r @ [v]) (bf_row b)\<rparr>"

definition flush_rows :: "'v buffer \<Rightarrow> 'v buffer" where
  "flush_rows b = b\<lparr>bf_flushed := bf_flushed b @ bf_batch b, bf_batch := []\<rparr>"

definition drop_rows :: "'v buffer \<Rightarrow> 'v buffer" where
  "drop_rows b = b\<lparr>bf_batch := [], bf_row := None\<rparr>"

definition end_row :: "'v buffer \<Rightarrow> 'v buffer" where
  "end_row b = b\<lparr>bf_batch := bf_batch b @ (case bf_row b of None \<Rightarrow> [] | Some r \<Rightarrow> [r]), bf_row := None\<rparr>"

definition add_rows :: "'v list list \<Rightarrow> 'v buffer \<Rightarrow> 'v buffer" where
  "add_rows rows b = b\<lparr>bf_batch := bf_batch b @ map (map Some) rows\<rparr>"

fun accepted_call :: "'v buffer \<Rightarrow> 'v appender_call \<times> bool \<Rightarrow> 'v buffer" where
  "accepted_call b (call, False) = b"
| "accepted_call b (A_begin_row, True) = b\<lparr>bf_row := Some []\<rparr>"
| "accepted_call b (A_value v, True) = append_cell (Some v) b"
| "accepted_call b (A_default, True) = append_cell None b"
| "accepted_call b (A_end_row, True) = end_row b"
| "accepted_call b (A_chunk rows, True) = add_rows rows b"
| "accepted_call b (A_flush, True) = flush_rows b"
| "accepted_call b (A_close, True) = flush_rows b"
| "accepted_call b (A_clear, True) = drop_rows b"
| "accepted_call b (A_destroy, True) = b"

definition buffer_of :: "('n, 'v) appender \<Rightarrow> 'v buffer" where
  "buffer_of a = foldl accepted_call \<lparr>bf_flushed = [], bf_batch = [], bf_row = None\<rparr> (ap_log a)"

text \<open>What the documentation promises of each method, with the object's flags.\<close>

fun buffer_method :: "'v call_env \<Rightarrow> 'v appender_op \<Rightarrow> bool \<Rightarrow> bool \<Rightarrow> 'v buffer \<Rightarrow> 'v buffer" where
  "buffer_method e Op_beginRow closed failed b = b\<lparr>bf_row := Some []\<rparr>"
| "buffer_method e (Op_append z) closed failed b =
     (case env_convert e [z] of Inl err \<Rightarrow> b | Inr vs \<Rightarrow> append_cell (Some (vs ! 0)) b)"
| "buffer_method e Op_appendDefault closed failed b = append_cell None b"
| "buffer_method e Op_endRow closed failed b = end_row b"
| "buffer_method e (Op_appendRow zs) closed failed b =
     (case env_convert e zs of Inl err \<Rightarrow> b | Inr vs \<Rightarrow> add_rows [vs] (b\<lparr>bf_row := None\<rparr>))"
| "buffer_method e Op_flush closed failed b = flush_rows b"
| "buffer_method e (Op_appendChunk source) closed failed b =
     (case source of Inl err \<Rightarrow> b | Inr rows \<Rightarrow> add_rows rows b)"
| "buffer_method e Op_clear closed failed b = drop_rows b"
| "buffer_method e Op_close closed failed b = (if closed then b else if failed then drop_rows b else flush_rows b)"

lemma accepted_values:
  "foldl accepted_call b (map (\<lambda>v. (A_value v, True)) vs) = b\<lparr>bf_row := map_option (\<lambda>r. r @ map Some vs) (bf_row b)\<rparr>"
proof (induction vs arbitrary: b)
  case (Cons v vs)
  show ?case by (simp add: Cons append_cell_def option.map_comp comp_def)
qed (simp add: option.map_ident)

lemma accepted_chunks:
  "foldl accepted_call b (chunk_calls bs) = add_rows (concat bs) b"
  by (induction bs arbitrary: b) (simp_all add: add_rows_def)

lemma concat_chunk_batches: "0 < n \<Longrightarrow> concat (chunk_batches n rows) = rows"
  by (simp add: chunk_batches_def batches_concat)

lemma accepted_method:
  assumes "0 < n"
  shows "foldl accepted_call b (map (\<lambda>c. (c, True)) (method_calls n e op a))
     = buffer_method e op (ap_closed a) (ap_failed a) b"
proof (cases op)
  case (Op_appendRow zs)
  show ?thesis
  proof (cases "env_convert e zs")
    case (Inr vs)
    have "foldl accepted_call (b\<lparr>bf_row := Some []\<rparr>) (map (\<lambda>v. (A_value v, True)) vs) = b\<lparr>bf_row := Some (map Some vs)\<rparr>"
      by (simp add: accepted_values)
    then show ?thesis using Op_appendRow Inr by (simp add: comp_def end_row_def add_rows_def)
  qed (simp add: Op_appendRow)
next
  case (Op_appendChunk source)
  then show ?thesis
    using accepted_chunks [of b "chunk_batches n rows" for rows] assms
    by (auto simp: concat_chunk_batches comp_def add_rows_def split: sum.split)
qed (auto simp: close_calls_def split: sum.split)

text \<open>
  C24. The methods implement the row buffer. From every state a history of calls can lead to, a method that
  returns normally has exactly its documented effect on the flushed rows, the accepted rows and the open
  row; one that throws either changed nothing or marked the appender as failed.
\<close>

theorem appender_refines_buffer:
  assumes "0 < n" "run (appender_step api n) ops (new_appender h) = Some a"
  shows "\<exists>r a'. appender_method api n e op a = Some (r, a')
     \<and> (case r of
          Inr _ \<Rightarrow> buffer_of a' = buffer_method e op (ap_closed a) (ap_failed a) (buffer_of a)
        | Inl err \<Rightarrow> a' = a \<or> ap_failed a')"
proof -
  obtain r a' where m: "appender_method api n e op a = Some (r, a')" "settles a (method_calls n e op a) (r, a')"
    using method_settles [OF run_appender_ok [OF assms] assms(1), of api e op] by auto
  show ?thesis
    using m accepted_method [OF assms(1)]
    by (intro exI [of _ r] exI [of _ a']) (auto simp: settles_def buffer_of_def foldl_append split: sum.splits)
qed

text \<open>
  \<open>appendChunk\<close> returns for every chunk, whatever its size: it submits consecutive batches of at most
  the vector size, and on success they are together exactly the rows of the chunk.
\<close>

theorem append_chunk_terminates:
  assumes "0 < n" "run (appender_step api n) ops (new_appender h) = Some a"
  shows "\<exists>r a' bs. duckdb_appender_append_chunk api n e (Inr rows) a = Some (r, a')
     \<and> map fst (ap_log a') = map fst (ap_log a) @ map A_chunk bs \<and> (\<forall>b \<in> set bs. length b \<le> n)
     \<and> (\<exists>others. rows = concat bs @ others) \<and> (r = Inr () \<longrightarrow> concat bs = rows)"
proof (cases "\<exists>h. duckdb_appender_get (env_conn e) (Some a) = Inr h \<and> \<not> ap_row_open a
      \<and> duckdb_appender_enter_write e = Inr ()")
  case True
  then obtain r a' where c: "duckdb_appender_append_chunk api n e (Inr rows) a = Some (r, a')"
      and o: "batches_outcome a (chunk_batches n rows) r a'"
    using append_chunk_accepted [OF run_appender_ok [OF assms] _ _ _ assms(1)] by blast
  have b: "\<forall>b \<in> set (chunk_batches n rows). length b \<le> n" using batches_bounded by (auto simp: chunk_batches_def)
  have k: "concat (chunk_batches n rows) = rows" by (rule concat_chunk_batches [OF assms(1)])
  show ?thesis
  proof (cases r)
    case (Inr u)
    then show ?thesis
      using c o b k by (intro exI [of _ r] exI [of _ a'] exI [of _ "chunk_batches n rows"])
        (auto simp: batches_outcome_def comp_def)
  next
    case (Inl err)
    then obtain before b' after where "chunk_batches n rows = before @ b' # after"
        "ap_log a' = ap_log a @ chunk_calls before @ [(A_chunk b', False)]"
      using o by (auto simp: batches_outcome_def)
    then show ?thesis
      using c b k Inl
      by (intro exI [of _ r] exI [of _ a'] exI [of _ "before @ [b']"]) (auto simp: comp_def)
  qed
next
  case False
  then have "\<exists>err. duckdb_appender_append_chunk api n e (Inr rows) a = Some (Inl err, a)"
    by (auto simp: duckdb_appender_append_chunk_def split: sum.split)
  then show ?thesis by fastforce
qed

section \<open>A run\<close>

text \<open>A native appender of two columns that accepts everything but its sixth call.\<close>

definition sample_api :: "(nat, nat) appender_api" where
  "sample_api = \<lparr>native_call = (\<lambda>h op. (h \<noteq> 5, Suc h)), error_data = (\<lambda>h. None), appender_columns = (\<lambda>h. 2)\<rparr>"

definition sample_env :: "nat call_env" where
  "sample_env = \<lparr>env_thread = 1, env_conn = initial_conn, env_probe = None, env_convert = (\<lambda>zs. Inr (map (\<lambda>z. 7) zs))\<rparr>"

definition sample_row :: "(nat, nat) appender" where
  "sample_row = \<lparr>ap_handle = Some 4, ap_closed = False, ap_failed = False, ap_row_open = False,
     ap_log = [(A_begin_row, True), (A_value 7, True), (A_value 7, True), (A_end_row, True)]\<rparr>"

lemmas sample_method_defs = sample_api_def sample_env_def initial_conn_def duckdb_appender_get_def duckdb_connection_guard_def
  duckdb_appender_enter_write_def duckdb_conn_enter_def duckdb_conn_check_not_busy_def busy_here_iff
  duckdb_conn_check_no_open_result_def

lemma sample_run:
  "run (appender_step sample_api 2) [(sample_env, Op_appendRow [Z_null, Z_null])] (new_appender 0) = Some sample_row"
  by (simp add: appendRow_def submit_row_def call_native_def new_appender_def sample_row_def sample_method_defs)

lemma appender_protocol_witness:
  "\<exists>a. run (appender_step sample_api 2) [(sample_env, Op_appendRow [Z_null, Z_null])] (new_appender 0) = Some a
     \<and> protocol_run Empty (ap_log (appender_destructor sample_api a)) = Some Gone"
  using appender_protocol [of 2 sample_api "[(sample_env, Op_appendRow [Z_null, Z_null])]" 0] by simp

lemma appender_refines_buffer_witness:
  "\<exists>a'. appender_method sample_api 2 sample_env Op_flush sample_row = Some (Inr (), a')
     \<and> buffer_of a' = \<lparr>bf_flushed = [[Some 7, Some 7]], bf_batch = [], bf_row = None\<rparr>"
proof -
  have f: "appender_method sample_api 2 sample_env Op_flush sample_row
      = Some (Inr (), sample_row\<lparr>ap_handle := Some 5, ap_log := ap_log sample_row @ [(A_flush, True)]\<rparr>)"
    by (simp add: append_flush_def call_or_fail_def call_native_def sample_row_def sample_method_defs)
  have b: "buffer_of sample_row = \<lparr>bf_flushed = [], bf_batch = [[Some 7, Some 7]], bf_row = None\<rparr>"
    by (simp add: buffer_of_def sample_row_def append_cell_def end_row_def)
  show ?thesis
    using appender_refines_buffer [OF _ sample_run, of sample_env Op_flush] f b by (simp add: flush_rows_def)
qed

lemma append_chunk_terminates_witness:
  "\<exists>r a' bs. duckdb_appender_append_chunk sample_api 2 sample_env (Inr [[1, 2], [3, 4], [5, 6]]) sample_row = Some (r, a')
     \<and> map fst (ap_log a') = map fst (ap_log sample_row) @ map A_chunk bs \<and> (\<forall>b \<in> set bs. length b \<le> 2)
     \<and> (\<exists>others. [[1, 2], [3, 4], [5, 6]] = concat bs @ others) \<and> (r = Inr () \<longrightarrow> concat bs = [[1, 2], [3, 4], [5, 6]])"
  by (rule append_chunk_terminates [OF _ sample_run]) simp

end
