(* ===== verification/Php_Array.thy ===== *)
theory Php_Array
  imports Prelude Php_Value
begin

text \<open>
  PHP arrays as the extension builds them: insertion-ordered hash tables with integer and string keys,
  and the Zend functions \<open>add_assoc_zval_ex\<close>, \<open>add_assoc_zval\<close>, \<open>add_index_zval\<close> and
  \<open>add_next_index_zval\<close>. A string key that spells a machine integer is stored as that integer.
\<close>

section \<open>Keys\<close>

definition long_min :: int where "long_min = - (2 ^ 63)"
definition long_max :: int where "long_max = 2 ^ 63 - 1"

fun numeric_value :: "string \<Rightarrow> int" where
  "numeric_value [] = 0"
| "numeric_value (c # s) = (if c = CHR ''-'' then - int (dec_value s) else int (dec_value (c # s)))"

text \<open>\<open>ZEND_HANDLE_NUMERIC_STR\<close>: exactly the canonical decimal texts of machine integers.\<close>

definition symtable_key :: "string \<Rightarrow> php_key" where
  "symtable_key s =
     (let i = numeric_value s in if s = dec_int i \<and> long_min \<le> i \<and> i \<le> long_max then K_int i else K_str s)"

lemma is_digit_minus [simp]: "\<not> is_digit (CHR ''-'')"
  by code_simp

lemma numeric_value_dec_int [simp]: "numeric_value (dec_int i) = i"
proof (cases "i < 0")
  case False
  obtain c s where cs: "dec_string (nat i) = c # s" by (cases "dec_string (nat i)") auto
  then have "is_digit c" using set_dec_string [of c "nat i"] by simp
  then have "c \<noteq> CHR ''-''" by (metis is_digit_minus)
  moreover have "int (dec_value (c # s)) = i" using False by (simp add: cs [symmetric])
  ultimately show ?thesis using False cs by (simp add: dec_int_def)
qed (simp add: dec_int_def)

lemma symtable_key_dec_int [simp]: "long_min \<le> i \<Longrightarrow> i \<le> long_max \<Longrightarrow> symtable_key (dec_int i) = K_int i"
  by (simp add: symtable_key_def)

lemma symtable_key_text: "\<not> is_digit c \<Longrightarrow> c \<noteq> CHR ''-'' \<Longrightarrow> symtable_key (c # s) = K_str (c # s)"
proof -
  assume c: "\<not> is_digit c" "c \<noteq> CHR ''-''"
  have "c # s \<noteq> dec_int i" for i
  proof
    assume "c # s = dec_int i"
    then have "c = CHR ''-'' \<or> c \<in> set (dec_string (nat i))" by (auto simp: dec_int_def split: if_splits dest: sym)
    then show False using c set_dec_string by auto
  qed
  then show ?thesis by (simp add: symtable_key_def Let_def)
qed

lemma symtable_key_inj: "symtable_key s = symtable_key t \<longleftrightarrow> s = t"
  by (auto simp: symtable_key_def Let_def split: if_splits)

section \<open>Updates\<close>

fun hash_put :: "(php_key \<times> 'v) list \<Rightarrow> php_key \<Rightarrow> 'v \<Rightarrow> (php_key \<times> 'v) list" where
  "hash_put [] k v = [(k, v)]"
| "hash_put ((j, w) # es) k v = (if j = k then (k, v) # es else (j, w) # hash_put es k v)"

definition add_assoc_zval_ex :: "string \<Rightarrow> 'v \<Rightarrow> (php_key \<times> 'v) list \<Rightarrow> (php_key \<times> 'v) list" where
  "add_assoc_zval_ex s v es = hash_put es (symtable_key s) v"

text \<open>A C string ends at its first NUL byte.\<close>

definition c_string :: "string \<Rightarrow> string" where
  "c_string s = takeWhile (\<lambda>c. c \<noteq> CHR 0x00) s"

definition add_assoc_zval :: "string \<Rightarrow> 'v \<Rightarrow> (php_key \<times> 'v) list \<Rightarrow> (php_key \<times> 'v) list" where
  "add_assoc_zval s v es = add_assoc_zval_ex (c_string s) v es"

definition add_index_zval :: "int \<Rightarrow> 'v \<Rightarrow> (php_key \<times> 'v) list \<Rightarrow> (php_key \<times> 'v) list" where
  "add_index_zval i v es = hash_put es (K_int i) v"

text \<open>
  \<open>nNextFreeElement\<close>: one more than the largest integer key so far, 0 when there is none. This is PHP 8.3;
  older versions start at 0 when only negative keys are present. Entries are never removed here.
\<close>

fun next_index :: "(php_key \<times> 'v) list \<Rightarrow> int option" where
  "next_index [] = None"
| "next_index ((K_int i, v) # es) = Some (case next_index es of None \<Rightarrow> i + 1 | Some n \<Rightarrow> max n (i + 1))"
| "next_index ((K_str s, v) # es) = next_index es"

text \<open>The insertion fails, and leaves the array alone, when the largest integer is already a key.\<close>

definition add_next_index_zval :: "'v \<Rightarrow> (php_key \<times> 'v) list \<Rightarrow> (php_key \<times> 'v) list" where
  "add_next_index_zval v es =
     (let i = (case next_index es of None \<Rightarrow> 0 | Some n \<Rightarrow> n) in if i > long_max then es else hash_put es (K_int i) v)"

lemma map_of_hash_put: "map_of (hash_put es k v) = (map_of es)(k \<mapsto> v)"
  by (induction es k v rule: hash_put.induct) auto

lemma keys_hash_put: "fst ` set (hash_put es k v) = insert k (fst ` set es)"
  by (induction es k v rule: hash_put.induct) auto

lemma distinct_hash_put: "distinct (map fst es) \<Longrightarrow> distinct (map fst (hash_put es k v))"
proof (induction es k v rule: hash_put.induct)
  case (2 j w es k v)
  then show ?case using keys_hash_put [of es k v] by (auto simp: image_iff)
qed simp

lemma hash_put_new: "k \<notin> fst ` set es \<Longrightarrow> hash_put es k v = es @ [(k, v)]"
  by (induction es k v rule: hash_put.induct) auto

section \<open>Lists\<close>

text \<open>The array of a list: consecutive keys from 0.\<close>

definition list_array :: "'v list \<Rightarrow> (php_key \<times> 'v) list" where
  "list_array vs = map (\<lambda>(i, v). (K_int (int i), v)) (enumerate 0 vs)"

lemma next_index_int_keys:
  "next_index (map (\<lambda>(i, v). (K_int (int i), v)) (enumerate n vs)) = (if vs = [] then None else Some (int (n + length vs)))"
  by (induction vs arbitrary: n) auto

lemma add_next_list_array:
  assumes "int (length vs) \<le> long_max"
  shows "add_next_index_zval v (list_array vs) = list_array (vs @ [v])"
proof -
  have "K_int (int (length vs)) \<notin> fst ` set (list_array vs)"
    by (auto simp: list_array_def in_set_enumerate_eq)
  moreover have "(case next_index (list_array vs) of None \<Rightarrow> 0 | Some n \<Rightarrow> n) = int (length vs)"
    using next_index_int_keys [of 0 vs] by (simp add: list_array_def)
  ultimately show ?thesis
    using assms by (simp add: add_next_index_zval_def hash_put_new list_array_def enumerate_append_eq)
qed

lemma foldl_add_next:
  "int (length us + length vs) \<le> long_max
     \<Longrightarrow> foldl (\<lambda>es v. add_next_index_zval v es) (list_array us) vs = list_array (us @ vs)"
proof (induction vs arbitrary: us)
  case (Cons v vs)
  then show ?case using Cons.IH [of "us @ [v]"] by (simp add: add_next_list_array)
qed simp

lemma list_array_Nil [simp]: "list_array [] = []"
  by (simp add: list_array_def)

end
