(* ===== verification/Decode.thy ===== *)
theory Decode
  imports Prelude Errors Bignum Interval Logical_Type Decimal_Text Php_Value Php_Array Byte_Reader Variant
begin

text \<open>
  The vector decoder of \<open>src/src/result.cpp\<close>: one cell of a native result vector as a PHP value, for every
  logical type the extension supports, nested ones included.

  A native vector is its validity mask, its data array and its child vectors. Reading past an array, a
  missing child or a cell of another width than the type's is \<open>None\<close>, undefined behaviour of the C++
  code. Arrays a decoder returns are fresh, so their identity is not tracked and is 0. The calendar
  functions of DuckDB, PHP's date parser and the engine's text of extreme timestamps are parameters.
\<close>

section \<open>Outcomes\<close>

type_synonym 'a decoding = "(throwable, 'a) result option"

definition dret :: "'a \<Rightarrow> 'a decoding" where "dret x = Some (Inr x)"
definition dthrow :: "throwable \<Rightarrow> 'a decoding" where "dthrow e = Some (Inl e)"

definition dbind :: "'a decoding \<Rightarrow> ('a \<Rightarrow> 'b decoding) \<Rightarrow> 'b decoding" where
  "dbind m f = (case m of None \<Rightarrow> None | Some (Inl e) \<Rightarrow> Some (Inl e) | Some (Inr x) \<Rightarrow> f x)"

fun dmap :: "('a \<Rightarrow> 'b decoding) \<Rightarrow> 'a list \<Rightarrow> 'b list decoding" where
  "dmap f [] = dret []"
| "dmap f (x # xs) = dbind (f x) (\<lambda>y. dbind (dmap f xs) (\<lambda>ys. dret (y # ys)))"

lemma dbind_simps [simp]:
  "dbind (dret x) f = f x" "dbind (dthrow e) f = dthrow e" "dbind None f = None"
  "dbind (Some (Inr x)) f = f x" "dbind (Some (Inl e)) f = Some (Inl e)"
  by (simp_all add: dbind_def dret_def dthrow_def)

lemma dmap_cong [fundef_cong]: "xs = ys \<Longrightarrow> (\<And>x. x \<in> set ys \<Longrightarrow> f x = g x) \<Longrightarrow> dmap f xs = dmap g ys"
  by (induction ys arbitrary: xs) (auto simp: dbind_def)

section \<open>Native vectors\<close>

text \<open>What \<open>data[row]\<close> is, by the width the engine stores. A list entry is its offset and length.\<close>

datatype data_cell =
    C_bool bool
  | C_8 u8
  | C_16 u16
  | C_32 u32
  | C_64 u64
  | C_128 hugeint
  | C_decimal decimal_cell
  | C_string "u8 list"
  | C_interval interval
  | C_entry nat nat

datatype dvec =
    Vec "(nat \<Rightarrow> bool) option" "data_cell list" "dvec list"
  | Variant_vec variant_vector

fun validity :: "dvec \<Rightarrow> (nat \<Rightarrow> bool) option" where
  "validity (Vec v cs ch) = v"
| "validity (Variant_vec v) = vv_valid v"

fun cell_at :: "dvec \<Rightarrow> nat \<Rightarrow> data_cell option" where
  "cell_at (Vec v cs ch) row = (if row < length cs then Some (cs ! row) else None)"
| "cell_at (Variant_vec v) row = None"

fun child_at :: "dvec \<Rightarrow> nat \<Rightarrow> dvec option" where
  "child_at (Vec v cs ch) i = (if i < length ch then Some (ch ! i) else None)"
| "child_at (Variant_vec v) i = None"

definition duckdb_vector_row_is_null :: "dvec \<Rightarrow> nat \<Rightarrow> bool" where
  "duckdb_vector_row_is_null vec row = (case validity vec of None \<Rightarrow> False | Some valid \<Rightarrow> \<not> valid row)"

section \<open>The environment\<close>

datatype rendered = R_text string | R_nothing | R_throws string | R_throws_other

datatype timestamp_scalar = SV_timestamp_s int | SV_timestamp_ms int

type_synonym clock = "int \<times> int \<times> int \<times> int"

record decode_env =
  de_date_init :: date_parser
  de_is_finite_date :: "int \<Rightarrow> bool"
  de_from_date :: "int \<Rightarrow> int \<times> int \<times> int"
  de_from_time :: "int \<Rightarrow> clock"
  de_from_time_tz :: "u64 \<Rightarrow> clock \<times> int"
  de_is_finite_timestamp :: "int \<Rightarrow> bool"
  de_is_finite_timestamp_s :: "int \<Rightarrow> bool"
  de_is_finite_timestamp_ms :: "int \<Rightarrow> bool"
  de_is_finite_timestamp_ns :: "int \<Rightarrow> bool"
  de_from_timestamp :: "int \<Rightarrow> (int \<times> int \<times> int) \<times> clock"
  de_get_varchar :: "timestamp_scalar \<Rightarrow> rendered"
  de_enum_internal_type :: "string option list \<Rightarrow> duckdb_type"
  de_platform :: platform
  de_version :: "string option"
  de_variant :: engine

section \<open>Dates and times\<close>

definition two :: "int \<Rightarrow> string" where "two i = format_0d 2 (to_int32 i)"

definition clock_text :: "int \<Rightarrow> int \<Rightarrow> int \<Rightarrow> string" where
  "clock_text h m s = two h @ '':'' @ two m @ '':'' @ two s"

definition duckdb_make_datetime :: "decode_env \<Rightarrow> int \<times> int \<times> int \<Rightarrow> clock \<Rightarrow> zval" where
  "duckdb_make_datetime env = (\<lambda>(year, month, day) (hour, minute, second, us).
     let buf = format_0d 4 (to_int32 year) @ ''-'' @ two month @ ''-'' @ two day @ '' '' @ clock_text hour minute second
               @ (if us \<noteq> 0 then ''.'' @ format_0d 6 (to_int32 us) else []) @ '' UTC''
     in case de_date_init env buf of None \<Rightarrow> Z_string buf | Some t \<Rightarrow> Z_datetime True (Some t))"

definition infinity_text :: "int \<Rightarrow> zval" where
  "infinity_text i = Z_string (if i > 0 then ''infinity'' else ''-infinity'')"

definition duckdb_make_datetime_from_micros :: "decode_env \<Rightarrow> int \<Rightarrow> bool \<Rightarrow> zval" where
  "duckdb_make_datetime_from_micros env instant fin =
     (if \<not> fin then infinity_text instant
      else (case de_from_timestamp env instant of (date, time) \<Rightarrow> duckdb_make_datetime env date time))"

text \<open>\<open>None\<close> is the refusal; the product of two accepted values is taken in 64 bits.\<close>

definition duckdb_timestamp_scale_to_micros :: "int \<Rightarrow> int \<Rightarrow> int option" where
  "duckdb_timestamp_scale_to_micros magnitude factor =
     (if magnitude > long_max sdiv factor \<or> magnitude < long_min sdiv factor then None
      else Some (sint (word_of_int magnitude * word_of_int factor :: u64)))"

definition duckdb_render_scalar :: "decode_env \<Rightarrow> timestamp_scalar \<Rightarrow> zval decoding" where
  "duckdb_render_scalar env v =
     (case de_get_varchar env v of
        R_text t \<Rightarrow> dret (Z_string (c_string t))
      | R_nothing \<Rightarrow> dthrow (duckdb_throw_msg (Some ''DuckDB could not render the result value''))
      | R_throws msg \<Rightarrow> dthrow (duckdb_throw_error E_Conversion (Some msg))
      | R_throws_other \<Rightarrow> dthrow (duckdb_throw_msg (Some ''DuckDB could not render the result value'')))"

definition decode_date :: "decode_env \<Rightarrow> u32 \<Rightarrow> zval" where
  "decode_date env d =
     (let days = sint d in
      if \<not> de_is_finite_date env days then infinity_text days
      else duckdb_make_datetime env (de_from_date env days) (0, 0, 0, 0))"

definition decode_time :: "decode_env \<Rightarrow> u64 \<Rightarrow> zval" where
  "decode_time env t =
     (case de_from_time env (sint t) of (h, m, s, us) \<Rightarrow>
        Z_string (clock_text h m s @ (if us \<noteq> 0 then ''.'' @ format_0d 6 (to_int32 us) else [])))"

definition decode_time_tz :: "decode_env \<Rightarrow> u64 \<Rightarrow> zval" where
  "decode_time_tz env t =
     (case de_from_time_tz env t of ((h, m, s, us), off) \<Rightarrow>
        let sign = (if off < 0 then ''-'' else ''+'');
            offset = (if off < 0 then to_int32 (- off) else off)
        in Z_string (clock_text h m s @ (if us \<noteq> 0 then ''.'' @ format_0d 6 (to_int32 us) else [])
             @ sign @ two (offset sdiv 3600) @ '':'' @ two ((offset sdiv 60) smod 60)
             @ (if offset smod 60 \<noteq> 0 then '':'' @ two (offset smod 60) else [])))"

definition decode_time_ns :: "u64 \<Rightarrow> zval" where
  "decode_time_ns t =
     (let ns = sint t;
          hours = ns sdiv 3600000000000;
          minutes = (ns sdiv 60000000000) smod 60;
          seconds = (ns sdiv 1000000000) smod 60;
          fraction = ns smod 1000000000
      in Z_string (clock_text hours minutes seconds
           @ (if fraction \<noteq> 0 then ''.'' @ format_0d 9 (to_int32 fraction) else [])))"

definition decode_timestamp_s :: "decode_env \<Rightarrow> u64 \<Rightarrow> zval decoding" where
  "decode_timestamp_s env ts =
     (let seconds = sint ts in
      if \<not> de_is_finite_timestamp_s env seconds then dret (infinity_text seconds)
      else case duckdb_timestamp_scale_to_micros seconds 1000000 of
        None \<Rightarrow> duckdb_render_scalar env (SV_timestamp_s seconds)
      | Some instant \<Rightarrow> dret (duckdb_make_datetime_from_micros env instant (de_is_finite_timestamp_s env seconds)))"

definition decode_timestamp_ms :: "decode_env \<Rightarrow> u64 \<Rightarrow> zval decoding" where
  "decode_timestamp_ms env ts =
     (let millis = sint ts in
      if \<not> de_is_finite_timestamp_ms env millis then dret (infinity_text millis)
      else case duckdb_timestamp_scale_to_micros millis 1000 of
        None \<Rightarrow> duckdb_render_scalar env (SV_timestamp_ms millis)
      | Some instant \<Rightarrow> dret (duckdb_make_datetime_from_micros env instant (de_is_finite_timestamp_ms env millis)))"

definition decode_timestamp_ns :: "decode_env \<Rightarrow> u64 \<Rightarrow> zval" where
  "decode_timestamp_ns env ts =
     duckdb_make_datetime_from_micros env (sint ts sdiv 1000) (de_is_finite_timestamp_ns env (sint ts))"

section \<open>Scalars\<close>

definition decode_ubigint :: "u64 \<Rightarrow> zval" where
  "decode_ubigint v = (if uint v \<le> long_max then Z_long (sint v) else Z_string (dec_string (unat v)))"

definition decode_hugeint :: "hugeint \<Rightarrow> zval" where
  "decode_hugeint v =
     (if Decimal_Text.upper v = 0 \<and> uint (lower v) \<le> long_max then Z_long (sint (lower v))
      else if Decimal_Text.upper v = - 1 \<and> lower v \<ge> push_bit 63 1 then Z_long (sint (lower v))
      else Z_string (duckdb_hugeint_to_string v))"

definition decode_uhugeint :: "hugeint \<Rightarrow> zval" where
  "decode_uhugeint v =
     (if Decimal_Text.upper v = 0 \<and> uint (lower v) \<le> long_max then Z_long (sint (lower v))
      else Z_string (duckdb_uhugeint_to_string v))"

text \<open>The bits of one byte from \<open>bit_idx\<close> on, most significant first, at most \<open>n\<close> of them.\<close>

definition byte_bits :: "u8 \<Rightarrow> nat \<Rightarrow> nat \<Rightarrow> string" where
  "byte_bits b bit_idx n = map (\<lambda>i. if bit b (7 - i) then CHR ''1'' else CHR ''0'') (take n [bit_idx..<8])"

fun later_bits :: "u8 list \<Rightarrow> nat \<Rightarrow> string" where
  "later_bits [] n = []"
| "later_bits (b # bs) n =
     (if n = 0 then [] else let t = byte_bits b 0 n in t @ later_bits bs (n - length t))"

text \<open>\<open>bit_count\<close> is a 32-bit unsigned number.\<close>

definition duckdb_decode_bit :: "u8 list \<Rightarrow> string" where
  "duckdb_decode_bit bytes =
     (if length bytes \<le> 1 then []
      else let padding = unat (bytes ! 0);
               bit_count = unat ((of_nat (length bytes) - 1) * 8 - ucast (bytes ! 0) :: u32);
               first = byte_bits (bytes ! 1) padding bit_count
           in first @ later_bits (drop 2 bytes) (bit_count - length first))"

definition decode_enum :: "decode_env \<Rightarrow> string option list \<Rightarrow> data_cell option \<Rightarrow> zval decoding" where
  "decode_enum env labels oc =
     (case (if de_enum_internal_type env labels = T_UTINYINT then (case oc of Some (C_8 w) \<Rightarrow> Some (unat w) | _ \<Rightarrow> None)
            else if de_enum_internal_type env labels = T_USMALLINT then (case oc of Some (C_16 w) \<Rightarrow> Some (unat w) | _ \<Rightarrow> None)
            else (case oc of Some (C_32 w) \<Rightarrow> Some (unat w) | _ \<Rightarrow> None)) of
        None \<Rightarrow> None
      | Some dictionary_index \<Rightarrow>
          if dictionary_index < length labels
          then dret (case labels ! dictionary_index of None \<Rightarrow> Z_null | Some s \<Rightarrow> Z_string (c_string s))
          else None)"

definition cannot_decode :: "duckdb_type \<Rightarrow> throwable" where
  "cannot_decode t = DuckException BaseException (''Values of type '' @ duckdb_type_name t @ '' cannot be decoded'') 0"

abbreviation with_8 where "with_8 oc f \<equiv> (case oc of Some (C_8 w) \<Rightarrow> dret (f w) | _ \<Rightarrow> None)"
abbreviation with_16 where "with_16 oc f \<equiv> (case oc of Some (C_16 w) \<Rightarrow> dret (f w) | _ \<Rightarrow> None)"
abbreviation with_32 where "with_32 oc f \<equiv> (case oc of Some (C_32 w) \<Rightarrow> dret (f w) | _ \<Rightarrow> None)"
abbreviation with_64 where "with_64 oc f \<equiv> (case oc of Some (C_64 w) \<Rightarrow> f w | _ \<Rightarrow> None)"
abbreviation with_128 where "with_128 oc f \<equiv> (case oc of Some (C_128 h) \<Rightarrow> dret (f h) | _ \<Rightarrow> None)"
abbreviation with_bytes where "with_bytes oc f \<equiv> (case oc of Some (C_string bs) \<Rightarrow> f bs | _ \<Rightarrow> None)"

definition decode_bignum_cell :: "decode_env \<Rightarrow> u8 list \<Rightarrow> zval decoding" where
  "decode_bignum_cell env bs =
     (case duckdb_decode_bignum (de_platform env) (de_version env) (Some (\<lambda>row. Str bs)) 0 of
        Inl e \<Rightarrow> dthrow e
      | Inr t \<Rightarrow> dret (Z_string t))"

text \<open>The cases of \<open>duckdb_decode_value\<close> whose value is one cell.\<close>

definition decode_scalar :: "decode_env \<Rightarrow> ltype \<Rightarrow> data_cell option \<Rightarrow> zval decoding" where
  "decode_scalar env ty oc =
     (case type_id ty of
        T_BOOLEAN \<Rightarrow> (case oc of Some (C_bool b) \<Rightarrow> dret (Z_bool b) | _ \<Rightarrow> None)
      | T_TINYINT \<Rightarrow> with_8 oc (\<lambda>w. Z_long (sint w))
      | T_SMALLINT \<Rightarrow> with_16 oc (\<lambda>w. Z_long (sint w))
      | T_INTEGER \<Rightarrow> with_32 oc (\<lambda>w. Z_long (sint w))
      | T_BIGINT \<Rightarrow> with_64 oc (\<lambda>w. dret (Z_long (sint w)))
      | T_UTINYINT \<Rightarrow> with_8 oc (\<lambda>w. Z_long (uint w))
      | T_USMALLINT \<Rightarrow> with_16 oc (\<lambda>w. Z_long (uint w))
      | T_UINTEGER \<Rightarrow> with_32 oc (\<lambda>w. Z_long (uint w))
      | T_UBIGINT \<Rightarrow> with_64 oc (\<lambda>w. dret (decode_ubigint w))
      | T_BIGNUM \<Rightarrow> with_bytes oc (decode_bignum_cell env)
      | T_HUGEINT \<Rightarrow> with_128 oc decode_hugeint
      | T_UHUGEINT \<Rightarrow> with_128 oc decode_uhugeint
      | T_FLOAT \<Rightarrow> with_32 oc (\<lambda>w. Z_double (float_to_double w))
      | T_DOUBLE \<Rightarrow> with_64 oc (\<lambda>w. dret (Z_double w))
      | T_DECIMAL \<Rightarrow> (case (ty, oc) of
            (LT_decimal w s, Some (C_decimal d)) \<Rightarrow> dret (Z_string (duckdb_decimal_render (of_nat s) d)) | _ \<Rightarrow> None)
      | T_VARCHAR \<Rightarrow> with_bytes oc (\<lambda>bs. dret (Z_string (bytes_text bs)))
      | T_BLOB \<Rightarrow> with_bytes oc (\<lambda>bs. dret (Z_string (bytes_text bs)))
      | T_GEOMETRY \<Rightarrow> with_bytes oc (\<lambda>bs. dret (Z_string (bytes_text bs)))
      | T_BIT \<Rightarrow> with_bytes oc (\<lambda>bs. dret (Z_string (duckdb_decode_bit bs)))
      | T_UUID \<Rightarrow> with_128 oc (\<lambda>h. Z_string (duckdb_uuid_to_string h))
      | T_ENUM \<Rightarrow> (case ty of LT_enum labels \<Rightarrow> decode_enum env labels oc | _ \<Rightarrow> None)
      | T_DATE \<Rightarrow> with_32 oc (decode_date env)
      | T_TIME \<Rightarrow> with_64 oc (\<lambda>w. dret (decode_time env w))
      | T_TIME_TZ \<Rightarrow> with_64 oc (\<lambda>w. dret (decode_time_tz env w))
      | T_TIME_NS \<Rightarrow> with_64 oc (\<lambda>w. dret (decode_time_ns w))
      | T_TIMESTAMP \<Rightarrow> with_64 oc (\<lambda>w. dret (duckdb_make_datetime_from_micros env (sint w) (de_is_finite_timestamp env (sint w))))
      | T_TIMESTAMP_TZ \<Rightarrow> with_64 oc (\<lambda>w. dret (duckdb_make_datetime_from_micros env (sint w) (de_is_finite_timestamp env (sint w))))
      | T_TIMESTAMP_S \<Rightarrow> with_64 oc (decode_timestamp_s env)
      | T_TIMESTAMP_MS \<Rightarrow> with_64 oc (decode_timestamp_ms env)
      | T_TIMESTAMP_NS \<Rightarrow> with_64 oc (\<lambda>w. dret (decode_timestamp_ns env w))
      | T_TIMESTAMP_TZ_NS \<Rightarrow> with_64 oc (\<lambda>w. dret (decode_timestamp_ns env w))
      | T_INTERVAL \<Rightarrow> (case oc of Some (C_interval iv) \<Rightarrow> dret (Z_interval iv) | _ \<Rightarrow> None)
      | T_SQLNULL \<Rightarrow> dret Z_null
      | t \<Rightarrow> dthrow (cannot_decode t))"

section \<open>Nested values\<close>

text \<open>
  The element decoders are arguments: \<open>decode_child\<close> on the element's vector and row.
\<close>

type_synonym cell_decoder = "dvec \<Rightarrow> nat \<Rightarrow> zval decoding"

definition fresh_list :: "zval list \<Rightarrow> zval" where
  "fresh_list vs = Z_array 0 (foldl (\<lambda>es v. add_next_index_zval v es) [] vs)"

definition duckdb_decode_list :: "cell_decoder \<Rightarrow> dvec \<Rightarrow> nat \<Rightarrow> zval decoding" where
  "duckdb_decode_list child vec row =
     (case (cell_at vec row, child_at vec 0) of
        (Some (C_entry off len), Some ch) \<Rightarrow> dbind (dmap (\<lambda>i. child ch (off + i)) [0..<len]) (\<lambda>vs. dret (fresh_list vs))
      | _ \<Rightarrow> None)"

definition duckdb_decode_array :: "cell_decoder \<Rightarrow> nat \<Rightarrow> dvec \<Rightarrow> nat \<Rightarrow> zval decoding" where
  "duckdb_decode_array child n vec row =
     (case child_at vec 0 of
        Some ch \<Rightarrow> dbind (dmap (\<lambda>i. child ch (row * n + i)) [0..<n]) (\<lambda>vs. dret (fresh_list vs))
      | None \<Rightarrow> None)"

definition member_name :: "string option \<Rightarrow> string" where
  "member_name name = (case name of None \<Rightarrow> ''?'' | Some n \<Rightarrow> n)"

fun decode_fields :: "(string option \<times> cell_decoder) list \<Rightarrow> nat \<Rightarrow> dvec \<Rightarrow> nat \<Rightarrow> (string \<times> zval) list decoding" where
  "decode_fields [] i vec row = dret []"
| "decode_fields ((name, child) # ms) i vec row =
     (case child_at vec i of
        None \<Rightarrow> None
      | Some ch \<Rightarrow> dbind (child ch row) (\<lambda>v. dbind (decode_fields ms (Suc i) vec row) (\<lambda>vs. dret ((member_name name, v) # vs))))"

definition duckdb_decode_struct :: "(string option \<times> cell_decoder) list \<Rightarrow> dvec \<Rightarrow> nat \<Rightarrow> zval decoding" where
  "duckdb_decode_struct ms vec row =
     dbind (decode_fields ms 0 vec row) (\<lambda>vs. dret (Z_array 0 (foldl (\<lambda>es (n, v). add_assoc_zval n v es) [] vs)))"

definition scalar_key_type :: "duckdb_type \<Rightarrow> bool" where
  "scalar_key_type t \<longleftrightarrow> t \<in> {T_TINYINT, T_SMALLINT, T_INTEGER, T_BIGINT, T_UTINYINT, T_USMALLINT, T_UINTEGER, T_UBIGINT,
     T_VARCHAR, T_ENUM}"

fun map_entry :: "bool \<Rightarrow> (php_key \<times> zval) list \<Rightarrow> zval \<times> zval \<Rightarrow> (php_key \<times> zval) list" where
  "map_entry True es (Z_long i, v) = add_index_zval i v es"
| "map_entry True es (Z_string s, v) = add_assoc_zval s v es"
| "map_entry True es (k, v) = add_assoc_zval [] v es"
| "map_entry False es (k, v) =
     add_next_index_zval (Z_array 0 (add_assoc_zval ''value'' v (add_assoc_zval ''key'' k []))) es"

definition duckdb_decode_map :: "duckdb_type \<Rightarrow> cell_decoder \<Rightarrow> cell_decoder \<Rightarrow> dvec \<Rightarrow> nat \<Rightarrow> zval decoding" where
  "duckdb_decode_map key_id key_child value_child vec row =
     (case (cell_at vec row, child_at vec 0) of
        (Some (C_entry off len), Some struct_vec) \<Rightarrow>
          (case (child_at struct_vec 0, child_at struct_vec 1) of
             (Some key_vec, Some value_vec) \<Rightarrow>
               dbind (dmap (\<lambda>i. dbind (key_child key_vec (off + i)) (\<lambda>k. dbind (value_child value_vec (off + i)) (\<lambda>v. dret (k, v)))) [0..<len])
                 (\<lambda>ps. dret (Z_array 0 (foldl (map_entry (scalar_key_type key_id)) [] ps)))
           | _ \<Rightarrow> None)
      | _ \<Rightarrow> None)"

definition duckdb_decode_union :: "cell_decoder list \<Rightarrow> dvec \<Rightarrow> nat \<Rightarrow> zval decoding" where
  "duckdb_decode_union members vec row =
     (case child_at vec 0 of
        None \<Rightarrow> None
      | Some tag_vec \<Rightarrow>
          (case cell_at tag_vec row of
             Some (C_8 tag) \<Rightarrow>
               if unat tag \<ge> length members then dret Z_null
               else (case child_at vec (Suc (unat tag)) of None \<Rightarrow> None | Some member \<Rightarrow> (members ! unat tag) member row)
           | _ \<Rightarrow> None))"

definition max_nesting_depth :: nat where "max_nesting_depth = 512"

definition too_deep :: throwable where
  "too_deep = DuckException BaseException
     (''Value is nested deeper than '' @ dec_string max_nesting_depth @ '' levels and cannot be decoded'') 0"

definition otype_id :: "ltype option \<Rightarrow> duckdb_type" where
  "otype_id o_ty = (case o_ty of None \<Rightarrow> T_INVALID | Some t \<Rightarrow> type_id t)"

text \<open>A missing child type has the id \<open>INVALID\<close>.\<close>

lemma member_type_size:
  "(n, c) \<in> set ms \<Longrightarrow> size_option size c < Suc (size_list (size_prod (\<lambda>x. 0) (size_option size)) ms)"
  by (induction ms) auto

function duckdb_decode_value :: "decode_env \<Rightarrow> nat \<Rightarrow> ltype \<Rightarrow> dvec \<Rightarrow> nat \<Rightarrow> zval decoding"
  and duckdb_decode_child :: "decode_env \<Rightarrow> nat \<Rightarrow> ltype option \<Rightarrow> dvec \<Rightarrow> nat \<Rightarrow> zval decoding" where
  "duckdb_decode_value env depth ty vec row =
     (if duckdb_vector_row_is_null vec row then dret Z_null
      else case ty of
        LT_list c \<Rightarrow> duckdb_decode_list (\<lambda>cv r. duckdb_decode_child env depth c cv r) vec row
      | LT_array c n \<Rightarrow> duckdb_decode_array (\<lambda>cv r. duckdb_decode_child env depth c cv r) n vec row
      | LT_struct ms \<Rightarrow> duckdb_decode_struct (map (\<lambda>(name, c). (name, \<lambda>cv r. duckdb_decode_child env depth c cv r)) ms) vec row
      | LT_map k v \<Rightarrow> duckdb_decode_map (otype_id k) (\<lambda>cv r. duckdb_decode_child env depth k cv r) (\<lambda>cv r. duckdb_decode_child env depth v cv r) vec row
      | LT_union ms \<Rightarrow> duckdb_decode_union (map (\<lambda>(name, c) cv r. duckdb_decode_child env depth c cv r) ms) vec row
      | _ \<Rightarrow>
          if type_id ty = T_VARIANT
          then (case vec of Variant_vec v \<Rightarrow> duckdb_decode_variant (de_variant env) (Some v) row | _ \<Rightarrow> None)
          else decode_scalar env ty (cell_at vec row))"
| "duckdb_decode_child env depth oty vec row =
     (if depth \<ge> max_nesting_depth then dthrow too_deep
      else case oty of
        Some ty \<Rightarrow> duckdb_decode_value env (Suc depth) ty vec row
      | None \<Rightarrow> if duckdb_vector_row_is_null vec row then dret Z_null else dthrow (cannot_decode T_INVALID))"
  by pat_completeness auto
termination
proof (relation "measure (\<lambda>x. case x of Inl (env, d, ty, v, r) \<Rightarrow> 2 * size ty | Inr (env, d, oty, v, r) \<Rightarrow> 2 * size_option size oty - 1)", goal_cases)
qed (auto dest: member_type_size)

declare duckdb_decode_value.simps [simp del] duckdb_decode_child.simps [simp del]

section \<open>Integers\<close>

text \<open>The number an integer cell stands for.\<close>

definition integer_value :: "duckdb_type \<Rightarrow> data_cell \<Rightarrow> int option" where
  "integer_value t c =
     (case c of
        C_8 w \<Rightarrow> if t = T_TINYINT then Some (sint w) else if t = T_UTINYINT then Some (uint w) else None
      | C_16 w \<Rightarrow> if t = T_SMALLINT then Some (sint w) else if t = T_USMALLINT then Some (uint w) else None
      | C_32 w \<Rightarrow> if t = T_INTEGER then Some (sint w) else if t = T_UINTEGER then Some (uint w) else None
      | C_64 w \<Rightarrow> if t = T_BIGINT then Some (sint w) else if t = T_UBIGINT then Some (uint w) else None
      | C_128 h \<Rightarrow> if t = T_HUGEINT then Some (hugeint_value h)
          else if t = T_UHUGEINT then Some (uint (Decimal_Text.upper h) * 2 ^ 64 + uint (lower h)) else None
      | _ \<Rightarrow> None)"

definition php_integer :: "int \<Rightarrow> zval" where
  "php_integer i = (if long_min \<le> i \<and> i \<le> long_max then Z_long i else Z_string (dec_int i))"

lemma sint_long: "long_min \<le> sint (w :: u64)" "sint w \<le> long_max"
  using sint_range_size [of w] by (auto simp: long_min_def long_max_def word_size)

lemma sint_small_long:
  fixes w :: "'a::len word"
  assumes "LENGTH('a) \<le> 64"
  shows "long_min \<le> sint w" "sint w \<le> long_max"
proof -
  have "(2::int) ^ (LENGTH('a) - 1) \<le> 2 ^ 63" using assms by (intro power_increasing) auto
  then show "long_min \<le> sint w" "sint w \<le> long_max"
    using sint_greater_eq [of w] sint_lt [of w] by (auto simp: long_min_def long_max_def)
qed

lemma long_bounds: "long_min = - 9223372036854775808" "long_max = 9223372036854775807" "(2 :: int) ^ 64 = 18446744073709551616"
    "(2 :: int) ^ 63 = 9223372036854775808"
  by (simp_all add: long_min_def long_max_def)

lemma sint_of_small:
  assumes "uint (w :: u64) \<le> long_max"
  shows "sint w = uint w"
proof -
  have "uint w < 2 ^ (LENGTH(64) - 1)" using assms unfolding long_bounds by simp
  then show "sint w = uint w" unfolding sint_eq_uint [of w] by (rule if_P)
qed

lemma uint_small_long:
  fixes w :: "'a::len word"
  assumes "LENGTH('a) < 64"
  shows "uint w \<le> long_max" "long_min \<le> uint w"
proof -
  have "uint w < 2 ^ LENGTH('a)" by (rule uint_lt2p)
  also have "\<dots> \<le> 2 ^ 63" using assms by (intro power_increasing) auto
  finally show "uint w \<le> long_max" "long_min \<le> uint w" using uint_ge_0 [of w] unfolding long_bounds by linarith+
qed

lemma php_integer_word:
  fixes w :: "'a::len word"
  assumes "LENGTH('a) \<le> 64"
  shows "php_integer (sint w) = Z_long (sint w)"
  using sint_small_long [OF assms, of w] by (simp add: php_integer_def)

lemma php_integer_unsigned:
  fixes w :: "'a::len word"
  shows "LENGTH('a) < 64 \<Longrightarrow> php_integer (uint w) = Z_long (uint w)"
  using uint_small_long [of w] by (simp add: php_integer_def)

lemma dec_int_nonneg: "0 \<le> i \<Longrightarrow> dec_int i = dec_string (nat i)"
  by (simp add: dec_int_def)

lemma decode_ubigint_exact: "decode_ubigint w = php_integer (uint w)"
proof (cases "uint w \<le> long_max")
  case True
  then have "sint w = uint w" by (rule sint_of_small)
  moreover have "long_min \<le> uint w" using uint_ge_0 [of w] unfolding long_bounds by linarith
  ultimately show ?thesis using True by (simp add: decode_ubigint_def php_integer_def)
next
  case False
  then show ?thesis by (simp add: decode_ubigint_def php_integer_def dec_int_nonneg)
qed

lemma upper_zero_iff: "(u :: u64) = 0 \<longleftrightarrow> sint u = 0"
  by (rule signed_eq_0_iff [symmetric])

lemma upper_minus_one_iff: "(u :: u64) = - 1 \<longleftrightarrow> sint u = - 1"
proof
  assume "sint u = - 1"
  then have "signed u = (signed (- 1 :: u64) :: int)" by simp
  then show "u = - 1" by (simp only: signed_word_eqI)
qed simp

lemma lower_top_iff: "(l :: u64) \<ge> push_bit 63 1 \<longleftrightarrow> 9223372036854775808 \<le> uint l"
proof -
  have "uint (push_bit 63 1 :: u64) = 9223372036854775808" by code_simp
  then show ?thesis by (simp only: word_le_def)
qed

text \<open>The halves of a 128-bit value that fits 64 bits.\<close>

lemma pair_fits_iff:
  assumes "0 \<le> (l :: int)" "l < 18446744073709551616"
  shows "(- 9223372036854775808 \<le> u * 18446744073709551616 + l \<and> u * 18446744073709551616 + l \<le> 9223372036854775807)
     \<longleftrightarrow> (u = 0 \<and> l \<le> 9223372036854775807) \<or> (u = - 1 \<and> 9223372036854775808 \<le> l)"
proof -
  consider "u \<le> - 2" | "u = - 1" | "u = 0" | "u \<ge> 1" by linarith
  then show ?thesis using assms by cases auto
qed

lemma uint_64_bound: "uint (w :: u64) < 18446744073709551616"
  using uint_lt2p [of w] by simp

lemma hugeint_long_iff:
  "long_min \<le> hugeint_value h \<and> hugeint_value h \<le> long_max \<longleftrightarrow>
     (Decimal_Text.upper h = 0 \<and> uint (lower h) \<le> long_max) \<or> (Decimal_Text.upper h = - 1 \<and> lower h \<ge> push_bit 63 1)"
  using pair_fits_iff [OF uint_ge_0 uint_64_bound, of "sint (Decimal_Text.upper h)" "lower h"]
  unfolding upper_zero_iff upper_minus_one_iff lower_top_iff hugeint_value_def long_bounds .

lemma decode_hugeint_exact: "decode_hugeint h = php_integer (hugeint_value h)"
proof -
  consider "Decimal_Text.upper h = 0 \<and> uint (lower h) \<le> long_max" | "Decimal_Text.upper h = - 1 \<and> lower h \<ge> push_bit 63 1"
    | "\<not> (long_min \<le> hugeint_value h \<and> hugeint_value h \<le> long_max)"
    unfolding hugeint_long_iff by blast
  then show ?thesis
  proof cases
    case 1
    then have "hugeint_value h = sint (lower h)" using sint_of_small by (simp add: hugeint_value_def)
    then show ?thesis using 1 hugeint_long_iff [of h] by (simp add: decode_hugeint_def php_integer_def)
  next
    case 2
    then have "hugeint_value h = sint (lower h)"
      using sint_eq_uint [of "lower h"] lower_top_iff [of "lower h"] by (simp add: hugeint_value_def)
    moreover have "Decimal_Text.upper h \<noteq> 0" using 2 by simp
    ultimately show ?thesis using 2 hugeint_long_iff [of h] by (simp add: decode_hugeint_def php_integer_def)
  next
    case 3
    then have "\<not> (Decimal_Text.upper h = 0 \<and> uint (lower h) \<le> long_max)"
      "\<not> (Decimal_Text.upper h = - 1 \<and> lower h \<ge> push_bit 63 1)" unfolding hugeint_long_iff by blast+
    then have "decode_hugeint h = Z_string (duckdb_hugeint_to_string h)" unfolding decode_hugeint_def by presburger
    moreover have "php_integer (hugeint_value h) = Z_string (dec_int (hugeint_value h))"
      using 3 unfolding php_integer_def by presburger
    ultimately show ?thesis by (simp only: hugeint_to_string_correct)
  qed
qed

lemma decode_uhugeint_exact:
  "decode_uhugeint h = php_integer (uint (Decimal_Text.upper h) * 2 ^ 64 + uint (lower h))"
proof -
  let ?u = "uint (Decimal_Text.upper h)" and ?l = "uint (lower h)"
  have l: "0 \<le> ?l" "0 \<le> ?u" by simp_all
  have fits: "long_min \<le> ?u * 2 ^ 64 + ?l \<and> ?u * 2 ^ 64 + ?l \<le> long_max \<longleftrightarrow> ?u = 0 \<and> ?l \<le> long_max"
    using pair_fits_iff [OF uint_ge_0 uint_64_bound, of ?u "lower h"] l unfolding long_bounds by linarith
  have z: "Decimal_Text.upper h = 0 \<longleftrightarrow> ?u = 0" by (simp add: uint_0_iff)
  show ?thesis
  proof (cases "?u = 0 \<and> ?l \<le> long_max")
    case True
    then have "sint (lower h) = ?l" using sint_of_small by simp
    then show ?thesis using True fits z by (simp add: decode_uhugeint_def php_integer_def)
  next
    case False
    have "decode_uhugeint h = Z_string (duckdb_uhugeint_to_string h)"
      using False z unfolding decode_uhugeint_def by presburger
    moreover have "php_integer (?u * 2 ^ 64 + ?l) = Z_string (dec_int (?u * 2 ^ 64 + ?l))"
      using False fits unfolding php_integer_def by presburger
    moreover have "nat (?u * 2 ^ 64 + ?l) = unat (Decimal_Text.upper h) * 2 ^ 64 + unat (lower h)"
      by (simp add: nat_add_distrib nat_mult_distrib)
    ultimately show ?thesis
      using l by (simp add: dec_int_nonneg duckdb_uhugeint_to_string_def u128_to_string_correct)
  qed
qed

text \<open>
  C40. Integers of every width arrive exactly: as a PHP int when they fit 64 bits, otherwise as their decimal
  text, for the signed and unsigned types up to 128 bits.
\<close>

theorem decode_integers_exact:
  assumes "integer_value t c = Some i"
  shows "decode_scalar env (LT_prim t a) (Some c) = dret (php_integer i)"
  using assms
  by (cases c) (auto simp: integer_value_def decode_scalar_def decode_ubigint_exact decode_hugeint_exact
      decode_uhugeint_exact php_integer_word php_integer_unsigned split: if_splits)

text \<open>
  The scaling of \<open>TIMESTAMP_S\<close> and \<open>TIMESTAMP_MS\<close> to microseconds never wraps: it gives the exact
  product when that fits 64 bits and refuses every other instant.
\<close>

theorem timestamp_scale_exact:
  assumes "long_min \<le> m" "m \<le> long_max" "factor \<in> {1000, 1000000}"
  shows "duckdb_timestamp_scale_to_micros m factor
     = (if long_min \<le> m * factor \<and> m * factor \<le> long_max then Some (m * factor) else None)"
proof -
  have q: "long_max sdiv factor = (if factor = 1000 then 9223372036854775 else 9223372036854)"
      "long_min sdiv factor = (if factor = 1000 then - 9223372036854775 else - 9223372036854)"
    using assms(3) by (auto simp: long_bounds signed_divide_int_def)
  have fits: "\<not> (m > long_max sdiv factor \<or> m < long_min sdiv factor) \<longleftrightarrow> long_min \<le> m * factor \<and> m * factor \<le> long_max"
    unfolding q using assms(3) unfolding long_bounds by auto
  have "sint (word_of_int m * word_of_int factor :: u64) = m * factor" if "long_min \<le> m * factor" "m * factor \<le> long_max"
  proof -
    have "word_of_int m * word_of_int factor = (word_of_int (m * factor) :: u64)" by simp
    then show ?thesis using that unfolding long_bounds by (simp only: signed_of_int) (simp add: signed_take_bit_int_eq_self)
  qed
  then show ?thesis unfolding duckdb_timestamp_scale_to_micros_def using fits by auto
qed

lemma timestamp_scale_exact_witness:
  "duckdb_timestamp_scale_to_micros 9223372036855 1000000 = None \<and> duckdb_timestamp_scale_to_micros (- 5) 1000 = Some (- 5000)"
  using timestamp_scale_exact [of 9223372036855 1000000] timestamp_scale_exact [of "- 5" 1000] by (simp add: long_bounds)

lemma decode_integers_exact_witness:
  "\<forall>env. decode_scalar env (LT_prim T_UTINYINT None) (Some (C_8 255)) = dret (Z_long 255)
   \<and> decode_scalar env (LT_prim T_UBIGINT None) (Some (C_64 18446744073709551615))
     = dret (Z_string (dec_int 18446744073709551615))"
proof (intro allI conjI)
  fix env
  have "uint (255 :: u8) = 255" "uint (18446744073709551615 :: u64) = 18446744073709551615" by code_simp+
  then show "decode_scalar env (LT_prim T_UTINYINT None) (Some (C_8 255)) = dret (Z_long 255)"
    "decode_scalar env (LT_prim T_UBIGINT None) (Some (C_64 18446744073709551615)) = dret (Z_string (dec_int 18446744073709551615))"
    using decode_integers_exact [of T_UTINYINT "C_8 255" 255 env None]
      decode_integers_exact [of T_UBIGINT "C_64 18446744073709551615" 18446744073709551615 env None]
    unfolding integer_value_def php_integer_def long_bounds by simp_all
qed

section \<open>How the engine stores values\<close>

text \<open>
  SQL values, and the vectors DuckDB's documentation describes for a column of them: list entries are
  consecutive ranges of the child vector, an array's elements are at its row times its size, struct and
  union members have the rows of their parent, and a NULL row still has (NULL) rows in the children of
  fixed shape.
\<close>

datatype sql =
    S_null
  | S_cell data_cell
  | S_list "sql list"
  | S_struct "sql list"
  | S_map "(sql \<times> sql) list"
  | S_union nat sql

definition null_mask :: "sql list \<Rightarrow> (nat \<Rightarrow> bool) option" where
  "null_mask vals = (if S_null \<in> set vals then Some (\<lambda>i. i < length vals \<and> vals ! i \<noteq> S_null) else None)"

fun elements :: "sql \<Rightarrow> sql list" where
  "elements (S_list es) = es"
| "elements _ = []"

fun array_elements :: "nat \<Rightarrow> sql \<Rightarrow> sql list" where
  "array_elements n (S_list es) = es"
| "array_elements n _ = replicate n S_null"

fun entries_of :: "sql \<Rightarrow> (sql \<times> sql) list" where
  "entries_of (S_map ps) = ps"
| "entries_of _ = []"

fun field_of :: "nat \<Rightarrow> sql \<Rightarrow> sql" where
  "field_of i (S_struct vs) = vs ! i"
| "field_of i _ = S_null"

fun member_of :: "nat \<Rightarrow> sql \<Rightarrow> sql" where
  "member_of i (S_union j v) = (if i = j then v else S_null)"
| "member_of i _ = S_null"

fun union_tag :: "sql \<Rightarrow> data_cell" where
  "union_tag (S_union j v) = C_8 (of_nat j)"
| "union_tag _ = C_8 0"

fun scalar_cell :: "sql \<Rightarrow> data_cell" where
  "scalar_cell (S_cell c) = c"
| "scalar_cell _ = C_8 0"

fun list_entries_of :: "nat \<Rightarrow> nat list \<Rightarrow> data_cell list" where
  "list_entries_of off [] = []"
| "list_entries_of off (n # ns) = C_entry off n # list_entries_of (off + n) ns"

definition scalar_vector :: "sql list \<Rightarrow> dvec" where
  "scalar_vector vals = Vec (null_mask vals) (map scalar_cell vals) []"

lemma in_set_enumerate_snd: "(i, x) \<in> set (enumerate n xs) \<Longrightarrow> x \<in> set xs"
  by (induction xs arbitrary: n) auto

function vector_of :: "ltype \<Rightarrow> sql list \<Rightarrow> dvec" and child_vector_of :: "ltype option \<Rightarrow> sql list \<Rightarrow> dvec" where
  "vector_of ty vals =
     (case ty of
        LT_list c \<Rightarrow> Vec (null_mask vals) (list_entries_of 0 (map (\<lambda>v. length (elements v)) vals))
            [child_vector_of c (concat (map elements vals))]
      | LT_array c n \<Rightarrow> Vec (null_mask vals) [] [child_vector_of c (concat (map (array_elements n) vals))]
      | LT_map k v \<Rightarrow> Vec (null_mask vals) (list_entries_of 0 (map (\<lambda>v. length (entries_of v)) vals))
            [Vec None [] [child_vector_of k (map fst (concat (map entries_of vals))),
                          child_vector_of v (map snd (concat (map entries_of vals)))]]
      | LT_struct ms \<Rightarrow> Vec (null_mask vals) []
            (map (\<lambda>(i, n, c). child_vector_of c (map (field_of i) vals)) (enumerate 0 ms))
      | LT_union ms \<Rightarrow> Vec (null_mask vals) []
            (Vec None (map union_tag vals) [] # map (\<lambda>(i, n, c). child_vector_of c (map (member_of i) vals)) (enumerate 0 ms))
      | _ \<Rightarrow> scalar_vector vals)"
| "child_vector_of oty vals = (case oty of Some ty \<Rightarrow> vector_of ty vals | None \<Rightarrow> scalar_vector vals)"
  by pat_completeness auto
termination
proof (relation "measure (\<lambda>x. case x of Inl (ty, vals) \<Rightarrow> 2 * size ty | Inr (oty, vals) \<Rightarrow> 2 * size_option size oty - 1)", goal_cases)
qed (auto dest!: in_set_enumerate_snd dest: member_type_size)

section \<open>Decoding what the engine stored\<close>

function typed :: "ltype \<Rightarrow> sql \<Rightarrow> bool" and child_typed :: "ltype option \<Rightarrow> sql \<Rightarrow> bool" where
  "typed ty v =
     (if v = S_null then True
      else case ty of
        LT_list c \<Rightarrow> (case v of S_list es \<Rightarrow> int (length es) \<le> long_max \<and> (\<forall>e \<in> set es. child_typed c e) | _ \<Rightarrow> False)
      | LT_array c n \<Rightarrow>
          (case v of S_list es \<Rightarrow> length es = n \<and> int n \<le> long_max \<and> (\<forall>e \<in> set es. child_typed c e) | _ \<Rightarrow> False)
      | LT_map k w \<Rightarrow> (case v of S_map ps \<Rightarrow> \<forall>p \<in> set ps. child_typed k (fst p) \<and> child_typed w (snd p) | _ \<Rightarrow> False)
      | LT_struct ms \<Rightarrow>
          (case v of S_struct vs \<Rightarrow> \<forall>m \<in> set (enumerate 0 ms). child_typed (snd (snd m)) (vs ! fst m) | _ \<Rightarrow> False)
      | LT_union ms \<Rightarrow>
          (case v of S_union i x \<Rightarrow> i < length ms \<and> i < 256
             \<and> (\<forall>m \<in> set (enumerate 0 ms). fst m = i \<longrightarrow> child_typed (snd (snd m)) x) | _ \<Rightarrow> False)
      | _ \<Rightarrow> type_id ty \<noteq> T_VARIANT \<and> (case v of S_cell c \<Rightarrow> True | _ \<Rightarrow> False))"
| "child_typed oty v = (case oty of Some ty \<Rightarrow> typed ty v | None \<Rightarrow> v = S_null)"
  by pat_completeness auto
termination
proof (relation "measure (\<lambda>x. case x of Inl (ty, vals) \<Rightarrow> 2 * size ty | Inr (oty, vals) \<Rightarrow> 2 * size_option size oty - 1)", goal_cases)
qed (auto dest!: in_set_enumerate_snd dest: member_type_size)

text \<open>
  The PHP value of an SQL value: NULL is null, lists and arrays are PHP lists, structs are arrays by member
  name, maps follow \<open>map_entry\<close>, a union is its member's value.
\<close>

definition struct_array :: "(string \<times> zval) list \<Rightarrow> zval" where
  "struct_array fs = Z_array 0 (foldl (\<lambda>es (n, x). add_assoc_zval n x es) [] fs)"

function php_value :: "decode_env \<Rightarrow> ltype \<Rightarrow> sql \<Rightarrow> zval decoding"
  and php_child :: "decode_env \<Rightarrow> ltype option \<Rightarrow> sql \<Rightarrow> zval decoding" where
  "php_value env ty v =
     (if v = S_null then dret Z_null
      else case ty of
        LT_list c \<Rightarrow> dbind (dmap (\<lambda>e. php_child env c e) (elements v)) (\<lambda>vs. dret (Z_array 0 (list_array vs)))
      | LT_array c n \<Rightarrow> dbind (dmap (\<lambda>e. php_child env c e) (elements v)) (\<lambda>vs. dret (Z_array 0 (list_array vs)))
      | LT_map k w \<Rightarrow> dbind
          (dmap (\<lambda>p. dbind (php_child env k (fst p)) (\<lambda>x. dbind (php_child env w (snd p)) (\<lambda>y. dret (x, y)))) (entries_of v))
          (\<lambda>ps. dret (Z_array 0 (foldl (map_entry (scalar_key_type (otype_id k))) [] ps)))
      | LT_struct ms \<Rightarrow> dbind
          (dmap (\<lambda>m. dbind (php_child env (snd (snd m)) (field_of (fst m) v)) (\<lambda>x. dret (member_name (fst (snd m)), x))) (enumerate 0 ms))
          (\<lambda>fs. dret (struct_array fs))
      | LT_union ms \<Rightarrow>
          (case v of S_union i x \<Rightarrow> map (\<lambda>m. php_child env (snd m) x) ms ! i | _ \<Rightarrow> None)
      | _ \<Rightarrow> decode_scalar env ty (Some (scalar_cell v)))"
| "php_child env oty v =
     (case oty of Some ty \<Rightarrow> php_value env ty v
      | None \<Rightarrow> if v = S_null then dret Z_null else dthrow (cannot_decode T_INVALID))"
  by pat_completeness auto
termination
proof (relation "measure (\<lambda>x. case x of Inl (e, ty, vals) \<Rightarrow> 2 * size ty | Inr (e, oty, vals) \<Rightarrow> 2 * size_option size oty - 1)", goal_cases)
qed (auto dest!: in_set_enumerate_snd dest: member_type_size)

declare vector_of.simps [simp del] child_vector_of.simps [simp del] typed.simps [simp del] child_typed.simps [simp del]
  php_value.simps [simp del] php_child.simps [simp del]

fun nesting :: "ltype \<Rightarrow> nat" and child_nesting :: "ltype option \<Rightarrow> nat"
  and members_nesting :: "(string option \<times> ltype option) list \<Rightarrow> nat" where
  "nesting (LT_list c) = Suc (child_nesting c)"
| "nesting (LT_array c n) = Suc (child_nesting c)"
| "nesting (LT_map k w) = Suc (max (child_nesting k) (child_nesting w))"
| "nesting (LT_struct ms) = Suc (members_nesting ms)"
| "nesting (LT_union ms) = Suc (members_nesting ms)"
| "nesting _ = 0"
| "child_nesting None = 0"
| "child_nesting (Some t) = nesting t"
| "members_nesting [] = 0"
| "members_nesting ((n, c) # ms) = max (child_nesting c) (members_nesting ms)"

lemma member_nesting: "(n, c) \<in> set ms \<Longrightarrow> child_nesting c \<le> members_nesting ms"
  by (induction ms) auto

text \<open>The rows of a child vector decode to the values stored there.\<close>

definition child_decodes :: "decode_env \<Rightarrow> nat \<Rightarrow> ltype option \<Rightarrow> bool" where
  "child_decodes env depth c \<longleftrightarrow> (\<forall>vals i. (\<forall>v \<in> set vals. child_typed c v) \<longrightarrow> i < length vals \<longrightarrow>
     duckdb_decode_child env depth c (child_vector_of c vals) i = php_child env c (vals ! i))"

lemma child_decodesD:
  "child_decodes env depth c \<Longrightarrow> \<forall>v \<in> set vals. child_typed c v \<Longrightarrow> i < length vals \<Longrightarrow>
     duckdb_decode_child env depth c (child_vector_of c vals) i = php_child env c (vals ! i)"
  by (simp add: child_decodes_def)

lemma concat_nth:
  "r < length xss \<Longrightarrow> i < length (xss ! r) \<Longrightarrow>
     concat xss ! (sum_list (map length (take r xss)) + i) = xss ! r ! i
     \<and> sum_list (map length (take r xss)) + i < length (concat xss)"
proof (induction xss arbitrary: r)
  case (Cons xs xss)
  then show ?case by (cases r) (auto simp: nth_append)
qed simp

lemma length_list_entries [simp]: "length (list_entries_of off ns) = length ns"
  by (induction ns arbitrary: off) auto

lemma list_entries_nth: "r < length ns \<Longrightarrow> list_entries_of off ns ! r = C_entry (off + sum_list (take r ns)) (ns ! r)"
proof (induction ns arbitrary: off r)
  case (Cons n ns)
  then show ?case by (cases r) auto
qed simp

lemma dmap_map: "dmap f (map g xs) = dmap (\<lambda>x. f (g x)) xs"
  by (induction xs) simp_all

lemma dmap_upt:
  assumes "length xs = n" "\<And>i. i < n \<Longrightarrow> f i = g (xs ! i)"
  shows "dmap f [0..<n] = dmap g xs"
proof -
  have "dmap g (map (\<lambda>i. xs ! i) [0..<n]) = dmap g xs" using assms(1) map_nth [of xs] by simp
  moreover have "dmap f [0..<n] = dmap (\<lambda>i. g (xs ! i)) [0..<n]" using assms(2) by (intro dmap_cong) auto
  ultimately show ?thesis by (simp add: dmap_map)
qed

lemma dmap_length: "dmap f xs = Some (Inr ys) \<Longrightarrow> length ys = length xs"
proof (induction xs arbitrary: ys)
  case (Cons x xs)
  then show ?case
    by (cases "f x"; cases "dmap f xs") (auto simp: dbind_def dret_def split: sum.splits option.splits)
qed (simp add: dret_def)

lemma null_mask_row: "r < length vals \<Longrightarrow> duckdb_vector_row_is_null (Vec (null_mask vals) cs ch) r \<longleftrightarrow> vals ! r = S_null"
  by (cases "S_null \<in> set vals") (simp_all add: duckdb_vector_row_is_null_def null_mask_def, metis nth_mem)

lemma fresh_list_eq: "int (length vs) \<le> long_max \<Longrightarrow> fresh_list vs = Z_array 0 (list_array vs)"
  using foldl_add_next [of "[]" vs] by (simp add: fresh_list_def)

lemma dbind_cong2: "m = m' \<Longrightarrow> (\<And>x. m' = Some (Inr x) \<Longrightarrow> f x = g x) \<Longrightarrow> dbind m f = dbind m' g"
  by (auto simp: dbind_def split: option.splits sum.splits)

abbreviation child_decoder where
  "child_decoder env depth c \<equiv> (\<lambda>cv r. duckdb_decode_child env depth c cv r)"

lemma list_elements:
  assumes "int (length es) \<le> long_max" "dmap (\<lambda>i. f (off + i)) [0..<length es] = dmap g es"
  shows "dbind (dmap (\<lambda>i. f (off + i)) [0..<length es]) (\<lambda>vs. dret (fresh_list vs))
       = dbind (dmap g es) (\<lambda>vs. dret (Z_array 0 (list_array vs)))"
  unfolding assms(2) using assms(1) by (intro dbind_cong2) (auto dest: dmap_length simp: fresh_list_eq)

lemma child_typed_null [simp]: "child_typed c S_null"
  by (simp add: child_typed.simps typed.simps split: option.split)

lemma decode_list_stored:
  assumes "child_decodes env depth c" "\<forall>v \<in> set vals. typed (LT_list c) v" "r < length vals" "vals ! r \<noteq> S_null"
  shows "duckdb_decode_list (child_decoder env depth c) (vector_of (LT_list c) vals) r = php_value env (LT_list c) (vals ! r)"
proof -
  let ?xss = "map elements vals" and ?es = "elements (vals ! r)"
  let ?off = "sum_list (map length (take r ?xss))"
  have typed_row: "typed (LT_list c) (vals ! r)" using assms by simp
  then obtain es where es: "vals ! r = S_list es" "int (length es) \<le> long_max"
    using assms(4) by (cases "vals ! r") (auto simp: typed.simps)
  have ok: "\<forall>v \<in> set (concat ?xss). child_typed c v"
  proof
    fix v assume "v \<in> set (concat ?xss)"
    then obtain w where w: "w \<in> set vals" "v \<in> set (elements w)" by auto
    then have "typed (LT_list c) w" using assms(2) by blast
    then show "child_typed c v" using w(2) by (cases w) (auto simp: typed.simps)
  qed
  let ?f = "\<lambda>i. duckdb_decode_child env depth c (child_vector_of c (concat ?xss)) i"
  have "?f (?off + i) = php_child env c (?es ! i)" if "i < length ?es" for i
    using concat_nth [of r ?xss i] that assms(3) child_decodesD [OF assms(1) ok, of "?off + i"] by simp
  then have d: "dmap (\<lambda>i. ?f (?off + i)) [0..<length ?es] = dmap (php_child env c) ?es" by (intro dmap_upt) simp_all
  have "cell_at (vector_of (LT_list c) vals) r = Some (C_entry ?off (length ?es))"
    using assms(3) by (simp add: vector_of.simps list_entries_nth take_map comp_def)
  then have "duckdb_decode_list (child_decoder env depth c) (vector_of (LT_list c) vals) r
      = dbind (dmap (\<lambda>i. ?f (?off + i)) [0..<length ?es]) (\<lambda>vs. dret (fresh_list vs))"
    by (simp add: duckdb_decode_list_def vector_of.simps)
  also have "\<dots> = dbind (dmap (php_child env c) ?es) (\<lambda>vs. dret (Z_array 0 (list_array vs)))"
    using es d by (intro list_elements) simp_all
  finally show ?thesis using es by (simp add: php_value.simps)
qed

lemma sum_list_same: "\<forall>x \<in> set xs. length x = n \<Longrightarrow> r \<le> length xs \<Longrightarrow> sum_list (map length (take r xs)) = r * n"
proof (induction xs arbitrary: r)
  case (Cons x xs)
  then show ?case by (cases r) auto
qed simp

lemma decode_array_stored:
  assumes "child_decodes env depth c" "\<forall>v \<in> set vals. typed (LT_array c n) v" "r < length vals" "vals ! r \<noteq> S_null"
  shows "duckdb_decode_array (child_decoder env depth c) n (vector_of (LT_array c n) vals) r = php_value env (LT_array c n) (vals ! r)"
proof -
  let ?xss = "map (array_elements n) vals" and ?es = "elements (vals ! r)"
  have "typed (LT_array c n) (vals ! r)" using assms by simp
  then obtain es where es: "vals ! r = S_list es" "length es = n" "int n \<le> long_max"
    using assms(4) by (cases "vals ! r") (auto simp: typed.simps)
  have shape: "length (array_elements n w) = n \<and> (\<forall>v \<in> set (array_elements n w). child_typed c v)" if "w \<in> set vals" for w
  proof -
    have "typed (LT_array c n) w" using assms(2) that by blast
    then show ?thesis by (cases w) (auto simp: typed.simps)
  qed
  then have ok: "\<forall>v \<in> set (concat ?xss). child_typed c v" by auto
  have off: "sum_list (map length (take r ?xss)) = r * n" using shape assms(3) by (intro sum_list_same) auto
  let ?f = "\<lambda>i. duckdb_decode_child env depth c (child_vector_of c (concat ?xss)) i"
  have "?f (r * n + i) = php_child env c (?es ! i)" if "i < length ?es" for i
    using concat_nth [of r ?xss i] that assms(3) es child_decodesD [OF assms(1) ok, of "r * n + i"] off by simp
  then have d: "dmap (\<lambda>i. ?f (r * n + i)) [0..<length ?es] = dmap (php_child env c) ?es" by (intro dmap_upt) simp_all
  have "duckdb_decode_array (child_decoder env depth c) n (vector_of (LT_array c n) vals) r
      = dbind (dmap (\<lambda>i. ?f (r * n + i)) [0..<length ?es]) (\<lambda>vs. dret (fresh_list vs))"
    using es by (simp add: duckdb_decode_array_def vector_of.simps)
  also have "\<dots> = dbind (dmap (php_child env c) ?es) (\<lambda>vs. dret (Z_array 0 (list_array vs)))"
    using es d by (intro list_elements) simp_all
  finally show ?thesis using es by (simp add: php_value.simps)
qed

lemma decode_map_stored:
  assumes "child_decodes env depth k" "child_decodes env depth w" "\<forall>v \<in> set vals. typed (LT_map k w) v"
    "r < length vals" "vals ! r \<noteq> S_null"
  shows "duckdb_decode_map (otype_id k) (child_decoder env depth k) (child_decoder env depth w) (vector_of (LT_map k w) vals) r
     = php_value env (LT_map k w) (vals ! r)"
proof -
  let ?xss = "map entries_of vals" and ?ps = "entries_of (vals ! r)"
  let ?off = "sum_list (map length (take r ?xss))" and ?all = "concat (map entries_of vals)"
  have "typed (LT_map k w) (vals ! r)" using assms by simp
  then obtain ps where ps: "vals ! r = S_map ps" using assms(5) by (cases "vals ! r") (auto simp: typed.simps)
  have ok: "child_typed k (fst p) \<and> child_typed w (snd p)" if p: "p \<in> set ?all" for p
  proof -
    obtain v where v: "v \<in> set vals" "p \<in> set (entries_of v)" using p by auto
    then have "typed (LT_map k w) v" using assms(3) by blast
    then show ?thesis using v(2) by (cases v) (auto simp: typed.simps)
  qed
  let ?k = "\<lambda>i. duckdb_decode_child env depth k (child_vector_of k (map fst ?all)) i"
  let ?w = "\<lambda>i. duckdb_decode_child env depth w (child_vector_of w (map snd ?all)) i"
  have "?k (?off + i) = php_child env k (fst (?ps ! i)) \<and> ?w (?off + i) = php_child env w (snd (?ps ! i))"
    if "i < length ?ps" for i
  proof -
    have n: "?all ! (?off + i) = ?ps ! i" "?off + i < length ?all"
      using concat_nth [of r ?xss i] that assms(4) by simp_all
    then show ?thesis
      using ok child_decodesD [OF assms(1), of "map fst ?all" "?off + i"] child_decodesD [OF assms(2), of "map snd ?all" "?off + i"]
      by simp
  qed
  then have d: "dmap (\<lambda>i. dbind (?k (?off + i)) (\<lambda>x. dbind (?w (?off + i)) (\<lambda>y. dret (x, y)))) [0..<length ?ps]
      = dmap (\<lambda>p. dbind (php_child env k (fst p)) (\<lambda>x. dbind (php_child env w (snd p)) (\<lambda>y. dret (x, y)))) ?ps"
    by (intro dmap_upt) simp_all
  have "cell_at (vector_of (LT_map k w) vals) r = Some (C_entry ?off (length ?ps))"
    using assms(4) by (simp add: vector_of.simps list_entries_nth take_map comp_def)
  then have "duckdb_decode_map (otype_id k) (child_decoder env depth k) (child_decoder env depth w) (vector_of (LT_map k w) vals) r
      = dbind (dmap (\<lambda>i. dbind (?k (?off + i)) (\<lambda>x. dbind (?w (?off + i)) (\<lambda>y. dret (x, y)))) [0..<length ?ps])
          (\<lambda>ps. dret (Z_array 0 (foldl (map_entry (scalar_key_type (otype_id k))) [] ps)))"
    by (simp add: duckdb_decode_map_def vector_of.simps)
  then show ?thesis unfolding d using ps by (simp add: php_value.simps)
qed

lemma decode_fields_stored:
  assumes "\<And>i n c. (i, n, c) \<in> set (enumerate j ms) \<Longrightarrow>
      child_at vec i = Some (child i c) \<and> duckdb_decode_child env depth c (child i c) r = php_child env c (field i)"
  shows "decode_fields (map (\<lambda>(n, c). (n, child_decoder env depth c)) ms) j vec r
     = dmap (\<lambda>m. dbind (php_child env (snd (snd m)) (field (fst m))) (\<lambda>x. dret (member_name (fst (snd m)), x))) (enumerate j ms)"
  using assms
proof (induction ms arbitrary: j)
  case (Cons m ms)
  obtain n c where m: "m = (n, c)" by fastforce
  have "(j, n, c) \<in> set (enumerate j (m # ms))" by (simp add: m)
  note head = Cons.prems [OF this]
  have assoc: "dbind (dbind a (\<lambda>x. dret (y, x))) f = dbind a (\<lambda>x. f (y, x))" for a :: "zval decoding" and y :: string
      and f :: "string \<times> zval \<Rightarrow> (string \<times> zval) list decoding"
    by (simp add: dbind_def dret_def split: option.split sum.split)
  have "decode_fields (map (\<lambda>(n, c). (n, child_decoder env depth c)) ms) (Suc j) vec r
     = dmap (\<lambda>m. dbind (php_child env (snd (snd m)) (field (fst m))) (\<lambda>x. dret (member_name (fst (snd m)), x))) (enumerate (Suc j) ms)"
  proof (rule Cons.IH)
    fix i n' c' assume "(i, n', c') \<in> set (enumerate (Suc j) ms)"
    then show "child_at vec i = Some (child i c') \<and> duckdb_decode_child env depth c' (child i c') r = php_child env c' (field i)"
      using Cons.prems [of i n' c'] by simp
  qed
  then show ?case using head by (simp add: m assoc)
qed simp

lemma child_at_members:
  "(i, n, c) \<in> set (enumerate 0 ms) \<Longrightarrow> map g (enumerate 0 ms) ! i = g (i, n, c) \<and> i < length ms"
  by (auto simp: in_set_enumerate_eq nth_enumerate_eq)

lemma decode_struct_stored:
  assumes "\<And>n c. (n, c) \<in> set ms \<Longrightarrow> child_decodes env depth c" "\<forall>v \<in> set vals. typed (LT_struct ms) v"
    "r < length vals" "vals ! r \<noteq> S_null"
  shows "duckdb_decode_struct (map (\<lambda>(n, c). (n, child_decoder env depth c)) ms) (vector_of (LT_struct ms) vals) r
     = php_value env (LT_struct ms) (vals ! r)"
proof -
  have ok: "\<forall>v \<in> set (map (field_of i) vals). child_typed c v" if "(i, n, c) \<in> set (enumerate 0 ms)" for i n c
  proof
    fix v assume "v \<in> set (map (field_of i) vals)"
    then obtain u where u: "u \<in> set vals" "v = field_of i u" by auto
    then have "typed (LT_struct ms) u" using assms(2) by blast
    then show "child_typed c v" using u(2) that by (cases u) (auto simp: typed.simps)
  qed
  let ?child = "\<lambda>i c. child_vector_of c (map (field_of i) vals)"
  have "decode_fields (map (\<lambda>(n, c). (n, child_decoder env depth c)) ms) 0 (vector_of (LT_struct ms) vals) r
      = dmap (\<lambda>m. dbind (php_child env (snd (snd m)) (field_of (fst m) (vals ! r))) (\<lambda>x. dret (member_name (fst (snd m)), x))) (enumerate 0 ms)"
  proof (rule decode_fields_stored)
    fix i n c assume m: "(i, n, c) \<in> set (enumerate 0 ms)"
    have "child_at (vector_of (LT_struct ms) vals) i = Some (?child i c)"
      using child_at_members [OF m, of "\<lambda>(i, n, c). ?child i c"] by (simp add: vector_of.simps)
    moreover have "duckdb_decode_child env depth c (?child i c) r = php_child env c (map (field_of i) vals ! r)"
      using assms(1) [OF in_set_enumerate_snd [OF m]] ok [OF m] assms(3) by (intro child_decodesD) simp_all
    ultimately show "child_at (vector_of (LT_struct ms) vals) i = Some (?child i c)
        \<and> duckdb_decode_child env depth c (?child i c) r = php_child env c (field_of i (vals ! r))"
      using assms(3) by simp
  qed
  then show ?thesis using assms(4) by (simp add: duckdb_decode_struct_def php_value.simps struct_array_def)
qed

lemma decode_union_stored:
  assumes "\<And>n c. (n, c) \<in> set ms \<Longrightarrow> child_decodes env depth c" "\<forall>v \<in> set vals. typed (LT_union ms) v"
    "r < length vals" "vals ! r \<noteq> S_null"
  shows "duckdb_decode_union (map (\<lambda>(n, c). child_decoder env depth c) ms) (vector_of (LT_union ms) vals) r
     = php_value env (LT_union ms) (vals ! r)"
proof -
  have "typed (LT_union ms) (vals ! r)" using assms by simp
  then obtain i x where x: "vals ! r = S_union i x" "i < length ms" "i < 256"
    using assms(4) by (cases "vals ! r") (auto simp: typed.simps)
  obtain n c where c: "ms ! i = (n, c)" by fastforce
  then have m: "(i, n, c) \<in> set (enumerate 0 ms)" using x by (auto simp: in_set_enumerate_eq)
  have ok: "\<forall>v \<in> set (map (member_of i) vals). child_typed c v"
  proof
    fix v assume "v \<in> set (map (member_of i) vals)"
    then obtain u where u: "u \<in> set vals" "v = member_of i u" by auto
    then have "typed (LT_union ms) u" using assms(2) by blast
    then show "child_typed c v" using u(2) m by (cases u) (auto simp: typed.simps)
  qed
  let ?child = "child_vector_of c (map (member_of i) vals)"
  have "unat (of_nat i :: u8) = i" using x(3) by (simp add: unat_of_nat)
  moreover have "child_at (vector_of (LT_union ms) vals) (Suc i) = Some ?child"
    using child_at_members [OF m, of "\<lambda>(i, n, c). child_vector_of c (map (member_of i) vals)"] by (simp add: vector_of.simps)
  moreover have "child_at (vector_of (LT_union ms) vals) 0 = Some (Vec None (map union_tag vals) [])"
    by (simp add: vector_of.simps)
  ultimately have "duckdb_decode_union (map (\<lambda>(n, c). child_decoder env depth c) ms) (vector_of (LT_union ms) vals) r
      = duckdb_decode_child env depth c ?child r"
    using x c assms(3) by (simp add: duckdb_decode_union_def)
  also have "\<dots> = php_child env c (map (member_of i) vals ! r)"
    using assms(1) [OF in_set_enumerate_snd [OF m]] ok assms(3) by (intro child_decodesD) simp_all
  finally show ?thesis using x c assms(3,4) by (simp add: php_value.simps)
qed

lemma decode_stored:
  assumes "\<forall>v \<in> set vals. typed ty v" "r < length vals" "depth + nesting ty \<le> max_nesting_depth"
  shows "duckdb_decode_value env depth ty (vector_of ty vals) r = php_value env ty (vals ! r)"
  using assms
proof (induction "size ty" arbitrary: ty vals r depth rule: less_induct)
  case less
  have child: "child_decodes env depth c"
    if c: "size_option size c < Suc (size ty)" "child_nesting c < nesting ty" for c
    unfolding child_decodes_def
  proof (intro allI impI)
    fix vs i assume vs: "\<forall>v \<in> set vs. child_typed c v" "i < length vs"
    have d: "depth < max_nesting_depth" using less.prems(3) c(2) by simp
    show "duckdb_decode_child env depth c (child_vector_of c vs) i = php_child env c (vs ! i)"
    proof (cases c)
      case None
      then have "vs ! i = S_null" using vs by (simp add: child_typed.simps)
      moreover have "duckdb_vector_row_is_null (scalar_vector vs) i"
        using calculation vs(2) by (simp add: scalar_vector_def null_mask_row)
      ultimately show ?thesis using None d
        by (simp add: duckdb_decode_child.simps child_vector_of.simps php_child.simps)
    next
      case (Some t)
      have "duckdb_decode_value env (Suc depth) t (vector_of t vs) i = php_value env t (vs ! i)"
        using Some c vs less.prems(3) by (intro less.hyps) (auto simp: child_typed.simps)
      then show ?thesis using Some d by (simp add: duckdb_decode_child.simps child_vector_of.simps php_child.simps)
    qed
  qed
  show ?case
  proof (cases "vals ! r = S_null")
    case True
    then have "duckdb_vector_row_is_null (vector_of ty vals) r"
      using less.prems(2) by (cases ty) (simp_all add: vector_of.simps scalar_vector_def null_mask_row)
    then show ?thesis using True by (simp add: duckdb_decode_value.simps php_value.simps)
  next
    case False
    have tr: "typed ty (vals ! r)" using less.prems(1,2) by simp
    from False have nn: "\<not> duckdb_vector_row_is_null (vector_of ty vals) r"
      using less.prems(2) by (cases ty) (simp_all add: vector_of.simps scalar_vector_def null_mask_row)
    show ?thesis
    proof (cases ty)
      case (LT_list c)
      then show ?thesis
        using decode_list_stored [of env depth c vals r] child [of c] less.prems False nn
        by (simp add: duckdb_decode_value.simps)
    next
      case (LT_array c n)
      then show ?thesis
        using decode_array_stored [of env depth c vals n r] child [of c] less.prems False nn
        by (simp add: duckdb_decode_value.simps)
    next
      case (LT_map k w)
      then show ?thesis
        using decode_map_stored [of env depth k w vals r] child [of k] child [of w] less.prems False nn
        by (simp add: duckdb_decode_value.simps)
    next
      case (LT_struct ms)
      then have "\<And>n c. (n, c) \<in> set ms \<Longrightarrow> child_decodes env depth c"
        using member_type_size member_nesting by (intro child) (fastforce simp: le_imp_less_Suc)+
      then show ?thesis
        using decode_struct_stored [of ms env depth vals r] LT_struct less.prems False nn
        by (simp add: duckdb_decode_value.simps)
    next
      case (LT_union ms)
      then have "\<And>n c. (n, c) \<in> set ms \<Longrightarrow> child_decodes env depth c"
        using member_type_size member_nesting by (intro child) (fastforce simp: le_imp_less_Suc)+
      then show ?thesis
        using decode_union_stored [of ms env depth vals r] LT_union less.prems False nn
        by (simp add: duckdb_decode_value.simps)
    qed (use less.prems(2) False nn tr in \<open>simp_all add: duckdb_decode_value.simps php_value.simps
      vector_of.simps scalar_vector_def typed.simps\<close>)
  qed
qed

text \<open>
  C2. The decoder reads back what the engine stored. For every column whose type has all its members and
  nests at most 512 levels, and every row, the value decoded from the column's vectors is the PHP value of
  the SQL value in that row, whatever other rows, NULLs and ranges the shared child vectors hold.
\<close>

theorem decode_stored_value:
  assumes "\<forall>v \<in> set vals. typed ty v" "r < length vals" "depth + nesting ty \<le> max_nesting_depth"
  shows "duckdb_decode_value env depth ty (vector_of ty vals) r = php_value env ty (vals ! r)"
  using assms by (rule decode_stored)

definition sample_env :: decode_env where
  "sample_env = \<lparr>de_date_init = (\<lambda>s. None), de_is_finite_date = (\<lambda>d. True), de_from_date = (\<lambda>d. (1970, 1, 1)),
     de_from_time = (\<lambda>t. (0, 0, 0, 0)), de_from_time_tz = (\<lambda>t. ((0, 0, 0, 0), 0)), de_is_finite_timestamp = (\<lambda>t. True),
     de_is_finite_timestamp_s = (\<lambda>t. True), de_is_finite_timestamp_ms = (\<lambda>t. True), de_is_finite_timestamp_ns = (\<lambda>t. True),
     de_from_timestamp = (\<lambda>t. ((1970, 1, 1), (0, 0, 0, 0))), de_get_varchar = (\<lambda>t. R_nothing),
     de_enum_internal_type = (\<lambda>l. T_UTINYINT), de_platform = \<lparr>size_max = 2 ^ 64 - 1, vector_max = 2 ^ 61 - 1, zstr_max_len = 2 ^ 63 - 1\<rparr>,
     de_version = None, de_variant = \<lparr>eng_scalar = (\<lambda>v. None), eng_dtoa = (\<lambda>d. None), eng_version = None\<rparr>\<rparr>"

definition sample_list_type :: ltype where
  "sample_list_type = LT_list (Some (LT_prim T_INTEGER None))"

definition sample_column :: "sql list" where
  "sample_column = [S_list [S_cell (C_32 5)], S_null, S_list [S_cell (C_32 7), S_null]]"

lemma decode_stored_value_witness:
  "duckdb_decode_value sample_env 0 sample_list_type (vector_of sample_list_type sample_column) 2
     = dret (Z_array 0 [(K_int 0, Z_long 7), (K_int 1, Z_null)])"
proof -
  have t: "\<forall>v \<in> set sample_column. typed sample_list_type v"
    by (simp add: sample_column_def sample_list_type_def typed.simps child_typed.simps long_bounds)
  have "duckdb_decode_value sample_env 0 sample_list_type (vector_of sample_list_type sample_column) 2
      = php_value sample_env sample_list_type (sample_column ! 2)"
    using t by (intro decode_stored_value) (simp_all add: sample_column_def sample_list_type_def max_nesting_depth_def)
  then show ?thesis
    by (simp add: sample_column_def sample_list_type_def php_value.simps php_child.simps decode_scalar_def list_array_def)
qed

section \<open>Bit strings\<close>

text \<open>The bits of a byte, most significant first.\<close>

definition msb_bits :: "u8 \<Rightarrow> bool list" where
  "msb_bits b = map (\<lambda>i. bit b (7 - i)) [0..<8]"

definition bit_chars :: "bool list \<Rightarrow> string" where
  "bit_chars bs = map (\<lambda>b. if b then CHR ''1'' else CHR ''0'') bs"

lemma byte_bits_all: "8 - p \<le> n \<Longrightarrow> byte_bits b p n = bit_chars (drop p (msb_bits b))"
  by (simp add: byte_bits_def bit_chars_def msb_bits_def drop_map)

lemma later_bits_all: "later_bits bs (8 * length bs) = bit_chars (concat (map msb_bits bs))"
proof (induction bs)
  case (Cons b bs)
  have "byte_bits b 0 (8 * length (b # bs)) = bit_chars (msb_bits b)" by (simp add: byte_bits_all)
  moreover have "length (msb_bits b) = 8" by (simp add: msb_bits_def)
  ultimately show ?case using Cons by (simp add: bit_chars_def)
qed (simp add: bit_chars_def)

text \<open>
  A BIT value prints its bits in order, most significant first: exactly the bits of the stored bytes
  after the padding the first byte counts.
\<close>

theorem decode_bit_correct:
  assumes "bytes \<noteq> []" "p < 8" "8 * length bytes < 2 ^ 32"
  shows "duckdb_decode_bit (of_nat p # bytes) = bit_chars (drop p (concat (map msb_bits bytes)))"
proof -
  obtain b bs where b: "bytes = b # bs" using assms(1) by (cases bytes) auto
  have p: "unat (of_nat p :: u8) = p" using assms(2) by (simp add: unat_of_nat)
  have "(of_nat (length (of_nat p # bytes)) - 1) * 8 - ucast (of_nat p :: u8) = (of_nat (8 * length bytes - p) :: u32)"
  proof -
    have "(ucast (of_nat p :: u8) :: u32) = of_nat p" using of_nat_unat [of "of_nat p :: u8", where 'a = u32] p by simp
    moreover have "p \<le> 8 * length bytes" using assms(2) b by simp
    ultimately show ?thesis by (simp add: of_nat_diff)
  qed
  then have n: "unat ((of_nat (length (of_nat p # bytes)) - 1) * 8 - ucast ((of_nat p # bytes) ! 0 :: u8) :: u32) = 8 * length bytes - p"
    using assms(3) by (simp add: unat_of_nat)
  have l: "length (msb_bits b) = 8" by (simp add: msb_bits_def)
  have f: "byte_bits b p (8 * length bytes - p) = bit_chars (drop p (msb_bits b))"
    using b assms(2) by (intro byte_bits_all) simp
  have "8 * length bytes - p - length (bit_chars (drop p (msb_bits b))) = 8 * length bs"
    using b l assms(2) by (simp add: bit_chars_def)
  then have "duckdb_decode_bit (of_nat p # bytes) = bit_chars (drop p (msb_bits b)) @ later_bits bs (8 * length bs)"
    unfolding duckdb_decode_bit_def Let_def n using b f p by simp
  then show ?thesis using b l assms(2) by (simp add: later_bits_all bit_chars_def)
qed

lemma decode_bit_correct_witness: "duckdb_decode_bit [5, 0xFD] = ''101''"
proof -
  have "msb_bits 0xFD = [True, True, True, True, True, True, False, True]" by code_simp
  then show ?thesis using decode_bit_correct [of "[0xFD]" 5] by (simp add: bit_chars_def)
qed

section \<open>String keys of a MAP\<close>

text \<open>
  A string key is handed to PHP as a C string, so two keys that differ only after a NUL byte become one.
\<close>

lemma not_digit_a: "\<not> is_digit (CHR ''a'')"
  by code_simp

lemma map_keys_cut_at_nul:
  "foldl (map_entry True) [] [(Z_string [CHR ''a'', CHR 0x00, CHR ''b''], Z_long 1), (Z_string [CHR ''a'', CHR 0x00, CHR ''c''], Z_long 2)]
     = [(K_str ''a'', Z_long 2)]"
  by (simp add: add_assoc_zval_def add_assoc_zval_ex_def c_string_def symtable_key_text not_digit_a)

end
