(* ===== verification/Fetch.thy ===== *)
theory Fetch
  imports Prelude Errors Php_Value Php_Array Statement Connection Decode
begin

text \<open>
  \<open>DuckDB\Result\<close> and \<open>DuckDB\ResultIterator\<close>, the row fetching of \<open>src/src/result.cpp\<close>: chunks, rows in
  the three fetch modes, materialized and streaming results, re-fetching after an error, and the iterator.

  The engine's answers to \<open>duckdb_fetch_chunk\<close> are a list, consumed one by one. A streaming result owns the
  record with its number in the connection (\<open>Connection\<close>). The exceptions of PHP callbacks that a pumped
  stream keeps as the cause of a later error are not modelled.
\<close>

section \<open>Rows\<close>

datatype fetch_mode = Mode_assoc | Mode_num | Mode_both

text \<open>The name of the \<open>FetchMode\<close> case, when it is a string.\<close>

definition duckdb_parse_fetch_mode :: "string option \<Rightarrow> fetch_mode" where
  "duckdb_parse_fetch_mode name =
     (case name of
        None \<Rightarrow> Mode_assoc
      | Some s \<Rightarrow> if s = ''Num'' then Mode_num else if s = ''Both'' then Mode_both else Mode_assoc)"

definition add_column :: "fetch_mode \<Rightarrow> (php_key \<times> zval) list \<Rightarrow> string \<times> zval \<Rightarrow> (php_key \<times> zval) list" where
  "add_column mode es = (\<lambda>(name, v).
     let es1 = (if mode = Mode_assoc \<or> mode = Mode_both then add_assoc_zval_ex name v es else es)
     in if mode = Mode_num \<or> mode = Mode_both then add_next_index_zval v es1 else es1)"

definition row_array :: "fetch_mode \<Rightarrow> string list \<Rightarrow> zval list \<Rightarrow> (php_key \<times> zval) list" where
  "row_array mode names vals = foldl (add_column mode) [] (zip names vals)"

section \<open>State\<close>

text \<open>
  An answer of \<open>duckdb_fetch_chunk\<close>: a chunk with its number of rows, a null pointer with the result's
  error, or, for a pumped stream, a lease of the helper thread that failed.
\<close>

datatype native_fetch =
    NF_chunk "dvec list" nat
  | NF_null "(duckdb_error_type \<times> string option) option"
  | NF_lease_failed string

record result_data =
  rs_names :: "string list"
  rs_types :: "ltype list"
  rs_chunk :: "(dvec list \<times> nat) option"
  rs_pos :: nat
  rs_row_index :: nat
  rs_exhausted :: bool
  rs_iterator_taken :: bool
  rs_record :: "nat option"
  rs_failed :: "(duckdb_error_type \<times> string) option"
  rs_conn :: conn
  rs_source :: "native_fetch list"

record fetch_env =
  fe_thread :: thread
  fe_decode :: decode_env
  fe_lease_failure :: "nat \<Rightarrow> string option \<Rightarrow> string \<Rightarrow> string"

text \<open>The engine keeps answering that there is nothing left.\<close>

definition next_fetch :: "result_data \<Rightarrow> native_fetch \<times> result_data" where
  "next_fetch d =
     (case rs_source d of [] \<Rightarrow> (NF_null None, d) | x # xs \<Rightarrow> (x, d\<lparr>rs_source := xs\<rparr>))"

section \<open>Chunks\<close>

definition streaming_failed :: string where
  "streaming_failed = ''Query failed during streaming''"

definition duckdb_throw_start_error :: "string \<Rightarrow> throwable" where
  "duckdb_throw_start_error msg =
     (let t = duckdb_classify_error_message (Some msg)
      in duckdb_throw_error (if t = E_Invalid then E_Internal else t) (Some msg))"

definition end_session :: "nat option \<Rightarrow> string \<Rightarrow> conn \<Rightarrow> conn" where
  "end_session session reason c = (case session of None \<Rightarrow> c | Some n \<Rightarrow> log_native [N_session_close n reason] c)"

definition duckdb_result_stream_drained :: "nat \<Rightarrow> result_data \<Rightarrow> result_data" where
  "duckdb_result_stream_drained i d =
     d\<lparr>rs_conn := end_session (or_session (records (rs_conn d) ! i)) [] (duckdb_open_result_drained i (rs_conn d)),
       rs_exhausted := True\<rparr>"

definition duckdb_result_fetch_stream_chunk ::
    "fetch_env \<Rightarrow> nat \<Rightarrow> result_data \<Rightarrow> (throwable, bool) result \<times> result_data" where
  "duckdb_result_fetch_stream_chunk e i d =
     (case duckdb_conn_enter (fe_thread e) (rs_conn d) of
        Inl err \<Rightarrow> (Inl err, d)
      | Inr _ \<Rightarrow>
          (case rs_failed d of
             Some (t, msg) \<Rightarrow> (Inl (duckdb_throw_error t (Some msg)), d)
           | None \<Rightarrow>
               let session = or_session (records (rs_conn d) ! i); (answer, d1) = next_fetch d
               in (case answer of
                     NF_lease_failed msg \<Rightarrow> (Inl (duckdb_throw_start_error msg), d1)
                   | NF_null (Some (t, err)) \<Rightarrow>
                       let msg = (case session of
                                    Some n \<Rightarrow> fe_lease_failure e n err streaming_failed
                                  | None \<Rightarrow> (case err of None \<Rightarrow> streaming_failed | Some m \<Rightarrow> m))
                       in (Inl (duckdb_throw_error t (Some msg)),
                           d1\<lparr>rs_failed := Some (t, msg),
                              rs_conn := end_session session msg (set_state i OR_errored (rs_conn d1))\<rparr>)
                   | NF_null None \<Rightarrow> (Inr False, duckdb_result_stream_drained i d1)
                   | NF_chunk cols n \<Rightarrow>
                       if n = 0 then (Inr False, duckdb_result_stream_drained i d1)
                       else (Inr True, d1\<lparr>rs_chunk := Some (cols, n), rs_pos := 0\<rparr>))))"

definition fetch_materialized_chunk :: "result_data \<Rightarrow> (throwable, bool) result \<times> result_data" where
  "fetch_materialized_chunk d =
     (case next_fetch d of (answer, d1) \<Rightarrow>
        (case answer of
           NF_null (Some (t, err)) \<Rightarrow>
             (Inl (duckdb_throw_error t (Some (case err of None \<Rightarrow> streaming_failed | Some m \<Rightarrow> m))), d1)
         | NF_null None \<Rightarrow> (Inr False, d1\<lparr>rs_exhausted := True\<rparr>)
         | NF_chunk cols n \<Rightarrow>
             if n = 0 then (Inr False, d1\<lparr>rs_exhausted := True\<rparr>)
             else (Inr True, d1\<lparr>rs_chunk := Some (cols, n), rs_pos := 0\<rparr>)
         | NF_lease_failed msg \<Rightarrow> (Inl (duckdb_throw_start_error msg), d1)))"

definition duckdb_result_fetch_chunk :: "fetch_env \<Rightarrow> result_data \<Rightarrow> (throwable, bool) result \<times> result_data" where
  "duckdb_result_fetch_chunk e d =
     (if (case rs_chunk d of None \<Rightarrow> False | Some (cols, n) \<Rightarrow> rs_pos d < n) then (Inr True, d)
      else let d1 = d\<lparr>rs_chunk := None\<rparr>
           in (case rs_record d of
                 Some i \<Rightarrow> duckdb_result_fetch_stream_chunk e i d1
               | None \<Rightarrow> fetch_materialized_chunk d1))"

section \<open>Rows of a result\<close>

text \<open>The cells of one row, left to right; \<open>None\<close> is undefined behaviour of the decoder.\<close>

fun decode_columns :: "decode_env \<Rightarrow> ltype list \<Rightarrow> dvec list \<Rightarrow> nat \<Rightarrow> nat \<Rightarrow> zval list decoding" where
  "decode_columns env [] cols col row = dret []"
| "decode_columns env (ty # tys) cols col row =
     (if col < length cols
      then dbind (duckdb_decode_value env 0 ty (cols ! col) row) (\<lambda>v.
             dbind (decode_columns env tys cols (Suc col) row) (\<lambda>vs. dret (v # vs)))
      else None)"

definition duckdb_result_fetch_row_into ::
    "fetch_env \<Rightarrow> fetch_mode \<Rightarrow> result_data \<Rightarrow> ((throwable, zval option) result \<times> result_data) option" where
  "duckdb_result_fetch_row_into e mode d =
     (if rs_exhausted d then Some (Inr None, d)
      else case duckdb_result_fetch_chunk e d of
        (Inl err, d1) \<Rightarrow> Some (Inl err, d1)
      | (Inr False, d1) \<Rightarrow> Some (Inr None, d1)
      | (Inr True, d1) \<Rightarrow>
          (case rs_chunk d1 of
             None \<Rightarrow> None
           | Some (cols, n) \<Rightarrow>
               (case decode_columns (fe_decode e) (rs_types d1) cols 0 (rs_pos d1) of
                  None \<Rightarrow> None
                | Some (Inl err) \<Rightarrow> Some (Inl err, d1)
                | Some (Inr vals) \<Rightarrow>
                    Some (Inr (Some (Z_array 0 (row_array mode (rs_names d1) vals))),
                          d1\<lparr>rs_pos := Suc (rs_pos d1), rs_row_index := Suc (rs_row_index d1)\<rparr>))))"

section \<open>The methods\<close>

definition fetchRow where
  "fetchRow e mode d =
     map_option (\<lambda>(r, d'). (case r of Inl err \<Rightarrow> Inl err | Inr None \<Rightarrow> Inr Z_null | Inr (Some row) \<Rightarrow> Inr row, d'))
       (duckdb_result_fetch_row_into e mode d)"

text \<open>\<open>None\<close> also stands for a loop that never ends.\<close>

partial_function (option) fetch_rows ::
    "fetch_env \<Rightarrow> fetch_mode \<Rightarrow> (php_key \<times> zval) list \<Rightarrow> result_data
     \<Rightarrow> ((throwable, (php_key \<times> zval) list) result \<times> result_data) option" where
  "fetch_rows e mode acc d =
     (case duckdb_result_fetch_row_into e mode d of
        None \<Rightarrow> None
      | Some (r, d') \<Rightarrow>
          (case r of
             Inl err \<Rightarrow> Some (Inl err, d')
           | Inr None \<Rightarrow> Some (Inr acc, d')
           | Inr (Some row) \<Rightarrow> fetch_rows e mode (add_next_index_zval row acc) d'))"

definition fetchAll where
  "fetchAll e mode d =
     map_option (\<lambda>(r, d'). (case r of Inl err \<Rightarrow> Inl err | Inr rows \<Rightarrow> Inr (Z_array 0 rows), d')) (fetch_rows e mode [] d)"

definition duckdb_result_check_column :: "result_data \<Rightarrow> int \<Rightarrow> (throwable, unit) result" where
  "duckdb_result_check_column d index =
     (if index < 0 \<or> index \<ge> int (length (rs_types d))
      then Inl (ArgValueError 1 (''must be between 0 and ''
             @ dec_int (if length (rs_types d) > 0 then to_int32 (int (length (rs_types d))) - 1 else 0)))
      else Inr ())"

definition columnName :: "result_data \<Rightarrow> int \<Rightarrow> (throwable, string) result" where
  "columnName d index = rbind (duckdb_result_check_column d index) (\<lambda>_. Inr (rs_names d ! nat index))"

definition columnType :: "result_data \<Rightarrow> int \<Rightarrow> (throwable, string) result" where
  "columnType d index =
     rbind (duckdb_result_check_column d index) (\<lambda>_. Inr (c_string (duckdb_logical_type_render (rs_types d ! nat index))))"

definition result_columns :: "result_data \<Rightarrow> zval" where
  "result_columns d = Z_array 0 (foldl (\<lambda>es (name, ty).
     add_next_index_zval (Z_array 0 (add_assoc_zval ''type'' (Z_string (c_string (duckdb_logical_type_render ty)))
       (add_assoc_zval ''name'' (Z_string name) []))) es) [] (zip (rs_names d) (rs_types d)))"

definition fetchColumn where
  "fetchColumn e index d =
     (case duckdb_result_check_column d index of
        Inl err \<Rightarrow> Some (Inl err, d)
      | Inr _ \<Rightarrow>
          map_option (\<lambda>(r, d'). (case r of
               Inl err \<Rightarrow> Inl err
             | Inr None \<Rightarrow> Inr Z_null
             | Inr (Some row) \<Rightarrow>
                 (case row of Z_array h es \<Rightarrow> Inr (case hash_find es (K_int index) of None \<Rightarrow> Z_null | Some v \<Rightarrow> v)
                  | _ \<Rightarrow> Inr Z_null), d'))
            (duckdb_result_fetch_row_into e Mode_num d))"

section \<open>Arrow chunks\<close>

text \<open>
  \<open>fetchArrowChunk\<close> takes the rest of the stream a whole chunk at a time. The export of a chunk's columns is
  DuckDB's; it either throws or gives the exported chunk.
\<close>

definition fetchArrowChunk ::
    "fetch_env \<Rightarrow> (dvec list \<times> nat \<Rightarrow> (throwable, 'arrow) result) \<Rightarrow> result_data
     \<Rightarrow> (throwable, ('arrow \<times> nat) option) result \<times> result_data" where
  "fetchArrowChunk e export d =
     (if (case rs_chunk d of None \<Rightarrow> False | Some (cols, n) \<Rightarrow> rs_pos d > 0 \<and> rs_pos d < n)
      then (Inl (duckdb_throw_msg (Some (''Cannot fetch an Arrow chunk after partially reading its rows; ''
              @ ''finish the current chunk first''))), d)
      else if rs_exhausted d then (Inr None, d)
      else case duckdb_result_fetch_chunk e d of
        (Inl err, d1) \<Rightarrow> (Inl err, d1)
      | (Inr False, d1) \<Rightarrow> (Inr None, d1)
      | (Inr True, d1) \<Rightarrow>
          (case duckdb_conn_enter (fe_thread e) (rs_conn d1) of
             Inl err \<Rightarrow> (Inl err, d1)
           | Inr _ \<Rightarrow>
               (case rs_chunk d1 of
                  None \<Rightarrow> (Inr None, d1)
                | Some (cols, n) \<Rightarrow>
                    (case export (cols, n) of
                       Inl err \<Rightarrow> (Inl err, d1)
                     | Inr arrow \<Rightarrow> (Inr (Some (arrow, n)), d1\<lparr>rs_row_index := rs_row_index d1 + n, rs_pos := n\<rparr>)))))"

section \<open>Rows of a data chunk\<close>

text \<open>
  \<open>DuckDB\DataChunk::toRows\<close> copies windows of at most \<open>duckdb_vector_size\<close> rows into flat vectors with the
  engine's \<open>duckdb_vector_copy_sel\<close> and decodes those.
\<close>

fun window_rows ::
    "decode_env \<Rightarrow> fetch_mode \<Rightarrow> string list \<Rightarrow> ltype list \<Rightarrow> dvec list \<Rightarrow> nat list \<Rightarrow> (php_key \<times> zval) list
     \<Rightarrow> (php_key \<times> zval) list decoding" where
  "window_rows env mode names types batch [] acc = dret acc"
| "window_rows env mode names types batch (pos # ps) acc =
     dbind (decode_columns env types batch 0 pos) (\<lambda>vals.
       window_rows env mode names types batch ps (add_next_index_zval (Z_array 0 (row_array mode names vals)) acc))"

partial_function (option) chunk_rows_from ::
    "decode_env \<Rightarrow> nat \<Rightarrow> (dvec \<Rightarrow> nat \<Rightarrow> nat \<Rightarrow> dvec) \<Rightarrow> fetch_mode \<Rightarrow> string list \<Rightarrow> ltype list \<Rightarrow> dvec list \<Rightarrow> nat
     \<Rightarrow> nat \<Rightarrow> (php_key \<times> zval) list \<Rightarrow> (php_key \<times> zval) list decoding" where
  "chunk_rows_from env vector_size copy_sel mode names types cols nrows offset acc =
     (if offset < nrows then
        let count = min vector_size (nrows - offset);
            batch = map (\<lambda>c. copy_sel c offset count) cols
        in (case window_rows env mode names types batch [0..<count] acc of
              None \<Rightarrow> None
            | Some (Inl err) \<Rightarrow> Some (Inl err)
            | Some (Inr acc') \<Rightarrow>
                chunk_rows_from env vector_size copy_sel mode names types cols nrows (offset + vector_size) acc')
      else Some (Inr acc))"

definition duckdb_data_chunk_rows where
  "duckdb_data_chunk_rows env vector_size copy_sel mode names types cols nrows =
     dbind (chunk_rows_from env vector_size copy_sel mode names types cols nrows 0 []) (\<lambda>rows. dret (Z_array 0 rows))"

section \<open>The iterator\<close>

record iterator =
  it_started :: bool
  it_key :: int
  it_current :: "zval option"
  it_data :: result_data

definition getIterator :: "result_data \<Rightarrow> (throwable, iterator) result \<times> result_data" where
  "getIterator d =
     (if rs_iterator_taken d
      then (Inl (duckdb_throw_msg (Some (''DuckDB'' @ [CHR 0x5C]
              @ ''Result is forward-only: an iterator was already created for this result''))), d)
      else let d' = d\<lparr>rs_iterator_taken := True\<rparr>
           in (Inr \<lparr>it_started = False, it_key = 0, it_current = None, it_data = d'\<rparr>, d'))"

definition iterator_current :: "iterator \<Rightarrow> zval" where
  "iterator_current it = (case it_current it of None \<Rightarrow> Z_null | Some v \<Rightarrow> v)"

definition iterator_valid :: "iterator \<Rightarrow> bool" where
  "iterator_valid it = (it_current it \<noteq> None)"

definition iterator_next :: "fetch_env \<Rightarrow> iterator \<Rightarrow> ((throwable, unit) result \<times> iterator) option" where
  "iterator_next e it =
     map_option (\<lambda>(r, d'). (case r of
          Inl err \<Rightarrow> (Inl err, it\<lparr>it_current := None, it_data := d'\<rparr>)
        | Inr None \<Rightarrow> (Inr (), it\<lparr>it_current := None, it_data := d'\<rparr>)
        | Inr (Some row) \<Rightarrow> (Inr (), it\<lparr>it_current := Some row, it_key := it_key it + 1, it_data := d'\<rparr>)))
       (duckdb_result_fetch_row_into e Mode_assoc (it_data it))"

definition iterator_rewind :: "fetch_env \<Rightarrow> iterator \<Rightarrow> ((throwable, unit) result \<times> iterator) option" where
  "iterator_rewind e it =
     (if it_started it \<or> rs_row_index (it_data it) > 0 \<or> rs_exhausted (it_data it)
      then Some (Inl (duckdb_throw_msg (Some (''Cannot rewind a DuckDB'' @ [CHR 0x5C]
             @ ''ResultIterator (results are forward-only)''))), it)
      else map_option (\<lambda>(r, d'). (case r of
          Inl err \<Rightarrow> (Inl err, it\<lparr>it_started := True, it_key := 0, it_current := None, it_data := d'\<rparr>)
        | Inr row \<Rightarrow> (Inr (), it\<lparr>it_started := True, it_key := 0, it_current := row, it_data := d'\<rparr>)))
       (duckdb_result_fetch_row_into e Mode_assoc (it_data it)))"

text \<open>\<open>foreach\<close>: rewind, then current and next while valid. The visited keys and rows.\<close>

partial_function (option) iterate_rest ::
    "fetch_env \<Rightarrow> (int \<times> zval) list \<Rightarrow> iterator \<Rightarrow> ((throwable, (int \<times> zval) list) result \<times> iterator) option" where
  "iterate_rest e acc it =
     (if \<not> iterator_valid it then Some (Inr acc, it)
      else (case iterator_next e it of
              None \<Rightarrow> None
            | Some (Inl err, it') \<Rightarrow> Some (Inl err, it')
            | Some (Inr _, it') \<Rightarrow> iterate_rest e (acc @ [(it_key it, iterator_current it)]) it'))"

definition foreach_rows where
  "foreach_rows e it =
     (case iterator_rewind e it of
        None \<Rightarrow> None
      | Some (Inl err, it') \<Rightarrow> Some (Inl err, it')
      | Some (Inr _, it') \<Rightarrow> iterate_rest e [] it')"

section \<open>What a result still holds\<close>

text \<open>A chunk of \<open>n\<close> rows whose cells decode to the rows of a table.\<close>

definition chunk_holds :: "decode_env \<Rightarrow> ltype list \<Rightarrow> dvec list \<times> nat \<Rightarrow> zval list list \<Rightarrow> bool" where
  "chunk_holds env types = (\<lambda>(cols, n) table. length table = n \<and> (\<forall>r < n. decode_columns env types cols 0 r = dret (table ! r)))"

definition can_fetch :: "fetch_env \<Rightarrow> result_data \<Rightarrow> bool" where
  "can_fetch e d \<longleftrightarrow> rs_exhausted d = False \<and> rs_failed d = None
     \<and> (rs_record d \<noteq> None \<longrightarrow> \<not> duckdb_conn_busy_here (fe_thread e) (rs_conn d))"

definition answers :: "(dvec list \<times> nat) list \<Rightarrow> native_fetch list" where
  "answers cs = map (\<lambda>(cols, n). NF_chunk cols n) cs"

text \<open>
  The rows still to come: those left in the current chunk, then those of the chunks the engine will
  deliver before it answers \<open>ends\<close>.
\<close>

definition holds_rows :: "fetch_env \<Rightarrow> result_data \<Rightarrow> zval list list \<Rightarrow> native_fetch list \<Rightarrow> bool" where
  "holds_rows e d rows ends \<longleftrightarrow> can_fetch e d \<and>
     (\<exists>now cs tables.
        (case rs_chunk d of
           None \<Rightarrow> now = []
         | Some (cols, n) \<Rightarrow> \<exists>table. chunk_holds (fe_decode e) (rs_types d) (cols, n) table \<and> now = drop (rs_pos d) table)
        \<and> list_all2 (\<lambda>c table. snd c > 0 \<and> chunk_holds (fe_decode e) (rs_types d) c table) cs tables
        \<and> rs_source d = answers cs @ ends \<and> rows = now @ concat tables)"

lemma enter_iff: "duckdb_conn_enter t c
    = (if duckdb_conn_busy_here t c
       then Inl (duckdb_throw_error E_Connection (Some ''Connection is busy executing a COPY handler; use another connection''))
       else Inr (c\<lparr>conn_lock := Some t\<rparr>))"
  by (simp add: duckdb_conn_enter_def duckdb_conn_check_not_busy_def)

text \<open>A chunk the engine delivers becomes the current one, for both kinds of result.\<close>

lemma fetch_chunk_delivered:
  assumes "can_fetch e d" "rs_source d = NF_chunk cols n # later" "0 < n"
    "case rs_chunk d of None \<Rightarrow> True | Some (cs, k) \<Rightarrow> k \<le> rs_pos d"
  shows "duckdb_result_fetch_chunk e d = (Inr True, d\<lparr>rs_chunk := Some (cols, n), rs_pos := 0, rs_source := later\<rparr>)"
  using assms
  by (auto simp: duckdb_result_fetch_chunk_def fetch_materialized_chunk_def duckdb_result_fetch_stream_chunk_def
      next_fetch_def can_fetch_def enter_iff Let_def split: option.splits)

lemma fetch_chunk_ready:
  "rs_chunk d = Some (cols, n) \<Longrightarrow> rs_pos d < n \<Longrightarrow> duckdb_result_fetch_chunk e d = (Inr True, d)"
  by (simp add: duckdb_result_fetch_chunk_def)

lemma fetch_row_current:
  assumes "\<not> rs_exhausted d" "duckdb_result_fetch_chunk e d = (Inr True, d1)" "rs_chunk d1 = Some (cols, n)"
    "chunk_holds (fe_decode e) (rs_types d1) (cols, n) table" "rs_pos d1 < n"
  shows "duckdb_result_fetch_row_into e mode d
     = Some (Inr (Some (Z_array 0 (row_array mode (rs_names d1) (table ! rs_pos d1)))),
             d1\<lparr>rs_pos := Suc (rs_pos d1), rs_row_index := Suc (rs_row_index d1)\<rparr>)"
  using assms by (simp add: duckdb_result_fetch_row_into_def chunk_holds_def dret_def)

text \<open>One row is delivered, in the requested mode, and the rest is still there.\<close>

lemma fetch_row_next:
  assumes "holds_rows e d (row # rows) ends"
  shows "\<exists>d'. duckdb_result_fetch_row_into e mode d = Some (Inr (Some (Z_array 0 (row_array mode (rs_names d) row))), d')
     \<and> holds_rows e d' rows ends \<and> rs_names d' = rs_names d \<and> rs_record d' = rs_record d
     \<and> rs_conn d' = rs_conn d \<and> rs_row_index d' = Suc (rs_row_index d)"
proof -
  obtain now cs tables where cf: "can_fetch e d"
    and now: "case rs_chunk d of None \<Rightarrow> now = []
       | Some (cols, n) \<Rightarrow> \<exists>table. chunk_holds (fe_decode e) (rs_types d) (cols, n) table \<and> now = drop (rs_pos d) table"
    and cs: "list_all2 (\<lambda>c table. snd c > 0 \<and> chunk_holds (fe_decode e) (rs_types d) c table) cs tables"
    and src: "rs_source d = answers cs @ ends" and rows: "row # rows = now @ concat tables"
    using assms unfolding holds_rows_def by blast
  have ex: "\<not> rs_exhausted d" using cf by (simp add: can_fetch_def)
  show ?thesis
  proof (cases now)
    case (Cons r now')
    then obtain cols n table where c: "rs_chunk d = Some (cols, n)"
        "chunk_holds (fe_decode e) (rs_types d) (cols, n) table" "now = drop (rs_pos d) table"
      using now by (auto split: option.splits)
    then have pos: "rs_pos d < n" using Cons by (auto simp: chunk_holds_def intro!: not_le_imp_less)
    then have d: "drop (rs_pos d) table = table ! rs_pos d # drop (Suc (rs_pos d)) table"
      using c(2) by (simp add: chunk_holds_def Cons_nth_drop_Suc)
    let ?d = "d\<lparr>rs_pos := Suc (rs_pos d), rs_row_index := Suc (rs_row_index d)\<rparr>"
    have "duckdb_result_fetch_row_into e mode d = Some (Inr (Some (Z_array 0 (row_array mode (rs_names d) row))), ?d)"
      using fetch_row_current [OF ex fetch_chunk_ready [OF c(1) pos] c(1,2) pos] rows c(3) d by simp
    moreover have "holds_rows e ?d rows ends"
      unfolding holds_rows_def using cf c cs src rows d
      by (intro conjI exI [of _ "drop (Suc (rs_pos d)) table"] exI [of _ cs] exI [of _ tables]) (auto simp: can_fetch_def)
    ultimately show ?thesis by auto
  next
    case Nil
    then obtain c cs' table tables' where l: "cs = c # cs'" "tables = table # tables'" "snd c > 0"
        "chunk_holds (fe_decode e) (rs_types d) c table"
        "list_all2 (\<lambda>c table. snd c > 0 \<and> chunk_holds (fe_decode e) (rs_types d) c table) cs' tables'"
      using cs rows by (cases cs; cases tables) auto
    obtain cols n where cn: "c = (cols, n)" by fastforce
    have n: "0 < n" "length table = n" using l cn by (simp_all add: chunk_holds_def)
    then obtain r0 table' where t: "table = r0 # table'" by (cases table) auto
    have drained: "case rs_chunk d of None \<Rightarrow> True | Some (cs, k) \<Rightarrow> k \<le> rs_pos d"
      using now Nil by (auto simp: chunk_holds_def split: option.splits)
    let ?d1 = "d\<lparr>rs_chunk := Some (cols, n), rs_pos := 0, rs_source := answers cs' @ ends\<rparr>"
    have f: "duckdb_result_fetch_chunk e d = (Inr True, ?d1)"
      using fetch_chunk_delivered [OF cf _ n(1) drained] src l cn by (simp add: answers_def)
    let ?d = "?d1\<lparr>rs_pos := Suc 0, rs_row_index := Suc (rs_row_index d)\<rparr>"
    have "duckdb_result_fetch_row_into e mode d = Some (Inr (Some (Z_array 0 (row_array mode (rs_names d) row))), ?d)"
      using fetch_row_current [OF ex f, of cols n table] n l cn rows Nil t by simp
    moreover have "holds_rows e ?d rows ends"
      unfolding holds_rows_def using cf l cn rows Nil t
      by (intro conjI exI [of _ table'] exI [of _ cs'] exI [of _ tables']) (auto simp: can_fetch_def)
    ultimately show ?thesis by auto
  qed
qed

fun ended :: "native_fetch list \<Rightarrow> bool" where
  "ended [] = True"
| "ended (NF_null err # xs) = (err = None)"
| "ended (NF_chunk cols n # xs) = (n = 0)"
| "ended (NF_lease_failed msg # xs) = False"

text \<open>With no rows left, the next answer of the engine is one of \<open>ends\<close>.\<close>

lemma no_rows_left:
  assumes "holds_rows e d [] ends"
  shows "can_fetch e d" "rs_source d = ends" "case rs_chunk d of None \<Rightarrow> True | Some (cs, k) \<Rightarrow> k \<le> rs_pos d"
proof -
  obtain now cs tables where cf: "can_fetch e d"
    and now: "case rs_chunk d of None \<Rightarrow> now = []
       | Some (cols, n) \<Rightarrow> \<exists>table. chunk_holds (fe_decode e) (rs_types d) (cols, n) table \<and> now = drop (rs_pos d) table"
    and cs: "list_all2 (\<lambda>c table. snd c > 0 \<and> chunk_holds (fe_decode e) (rs_types d) c table) cs tables"
    and src: "rs_source d = answers cs @ ends" and rows: "[] = now @ concat tables"
    using assms unfolding holds_rows_def by blast
  have "cs = []"
    using cs rows by (cases cs; cases tables) (auto simp: chunk_holds_def)
  then show "can_fetch e d" "rs_source d = ends" using cf src by (simp_all add: answers_def)
  show "case rs_chunk d of None \<Rightarrow> True | Some (cs, k) \<Rightarrow> k \<le> rs_pos d"
    using now rows by (auto simp: chunk_holds_def split: option.splits)
qed

lemma fetch_chunk_answer:
  assumes "holds_rows e d [] ends"
  shows "duckdb_result_fetch_chunk e d
     = (case rs_record d of
          Some i \<Rightarrow> duckdb_result_fetch_stream_chunk e i (d\<lparr>rs_chunk := None\<rparr>)
        | None \<Rightarrow> fetch_materialized_chunk (d\<lparr>rs_chunk := None\<rparr>))"
  using no_rows_left(3) [OF assms] by (auto simp: duckdb_result_fetch_chunk_def Let_def split: option.splits)

lemma fetch_row_end:
  assumes "holds_rows e d [] ends" "ended ends"
  shows "\<exists>d'. duckdb_result_fetch_row_into e mode d = Some (Inr None, d') \<and> rs_exhausted d'"
proof -
  note s = no_rows_left [OF assms(1)]
  have "\<exists>d'. duckdb_result_fetch_chunk e d = (Inr False, d') \<and> rs_exhausted d'"
    unfolding fetch_chunk_answer [OF assms(1)]
    using s(1,2) assms(2)
    by (cases ends rule: ended.cases; cases "rs_record d")
       (auto simp: duckdb_result_fetch_stream_chunk_def fetch_materialized_chunk_def next_fetch_def can_fetch_def
          enter_iff Let_def duckdb_result_stream_drained_def)
  then show ?thesis using s(1) by (auto simp: duckdb_result_fetch_row_into_def can_fetch_def)
qed

lemma fetch_rows_all:
  assumes "holds_rows e d rows ends" "ended ends" "int (length us + length rows) \<le> long_max"
  shows "\<exists>d'. fetch_rows e mode (list_array us) d
     = Some (Inr (list_array (us @ map (\<lambda>vs. Z_array 0 (row_array mode (rs_names d) vs)) rows)), d') \<and> rs_exhausted d'"
  using assms
proof (induction rows arbitrary: d us)
  case Nil
  then show ?case using fetch_row_end [of e d ends mode] by (subst fetch_rows.simps) auto
next
  case (Cons row rows)
  obtain d1 where d1: "duckdb_result_fetch_row_into e mode d = Some (Inr (Some (Z_array 0 (row_array mode (rs_names d) row))), d1)"
      "holds_rows e d1 rows ends" "rs_names d1 = rs_names d"
    using fetch_row_next [OF Cons.prems(1), of mode] by blast
  let ?us = "us @ [Z_array 0 (row_array mode (rs_names d) row)]"
  have "add_next_index_zval (Z_array 0 (row_array mode (rs_names d) row)) (list_array us) = list_array ?us"
    using Cons.prems(3) by (intro add_next_list_array) simp
  then have "fetch_rows e mode (list_array us) d = fetch_rows e mode (list_array ?us) d1"
    using d1(1) by (subst fetch_rows.simps) simp
  then show ?case using Cons.IH [OF d1(2) Cons.prems(2), of ?us] Cons.prems(3) d1(3) by simp
qed

text \<open>
  C20. \<open>fetchAll\<close> returns, and its list has exactly the rows the engine delivers, in order and none twice,
  across all chunk boundaries, starting where earlier \<open>fetchRow\<close> calls stopped, for materialized and
  streaming results alike. Afterwards the result stays exhausted.
\<close>

theorem fetch_all_rows:
  assumes "holds_rows e d rows ends" "ended ends" "int (length rows) \<le> long_max"
  shows "\<exists>d'. fetchAll e mode d
       = Some (Inr (Z_array 0 (list_array (map (\<lambda>vs. Z_array 0 (row_array mode (rs_names d) vs)) rows))), d')
     \<and> rs_exhausted d' \<and> fetchRow e mode d' = Some (Inr Z_null, d')"
  using fetch_rows_all [of e d rows ends "[]" mode] assms
  by (auto simp: fetchAll_def fetchRow_def duckdb_result_fetch_row_into_def)

section \<open>Failing results\<close>

text \<open>
  What the exception says of an engine's error: the engine's message, or for a pumped stream what
  \<open>duckdb_lease_failure\<close> makes of it.
\<close>

definition session_of :: "result_data \<Rightarrow> nat option" where
  "session_of d = Option.bind (rs_record d) (\<lambda>i. or_session (records (rs_conn d) ! i))"

definition failure_text :: "fetch_env \<Rightarrow> result_data \<Rightarrow> string option \<Rightarrow> string" where
  "failure_text e d err =
     (case session_of d of
        None \<Rightarrow> (case err of None \<Rightarrow> streaming_failed | Some m \<Rightarrow> m)
      | Some n \<Rightarrow> fe_lease_failure e n err streaming_failed)"

text \<open>A stream that failed with \<open>t\<close> and \<open>msg\<close>; \<open>c\<close> is its connection before.\<close>

definition failed_with :: "duckdb_error_type \<Rightarrow> string \<Rightarrow> nat option \<Rightarrow> conn \<Rightarrow> result_data \<Rightarrow> bool" where
  "failed_with t msg session c d \<longleftrightarrow> rs_exhausted d = False \<and> rs_chunk d = None
     \<and> (case rs_record d of None \<Rightarrow> True
        | Some i \<Rightarrow> rs_failed d = Some (t, msg) \<and> rs_conn d = end_session session msg (set_state i OR_errored c))"

lemma fetch_row_fails:
  assumes "holds_rows e d [] (NF_null (Some (t, err)) # later)"
  shows "\<exists>d'. duckdb_result_fetch_row_into e mode d = Some (Inl (duckdb_throw_error t (Some (failure_text e d err))), d')
     \<and> rs_record d' = rs_record d \<and> failed_with t (failure_text e d err) (session_of d) (rs_conn d) d'"
  using no_rows_left [OF assms(1)]
  by (cases "rs_record d")
     (auto simp: duckdb_result_fetch_row_into_def fetch_chunk_answer [OF assms(1)] duckdb_result_fetch_stream_chunk_def
        fetch_materialized_chunk_def next_fetch_def can_fetch_def enter_iff Let_def failure_text_def session_of_def failed_with_def
        split: option.split)

lemma fetch_rows_fails:
  assumes "holds_rows e d rows (NF_null (Some (t, err)) # later)"
  shows "\<exists>d'. fetch_rows e mode acc d = Some (Inl (duckdb_throw_error t (Some (failure_text e d err))), d')
     \<and> rs_record d' = rs_record d \<and> failed_with t (failure_text e d err) (session_of d) (rs_conn d) d'"
  using assms
proof (induction rows arbitrary: d acc)
  case Nil
  then show ?case using fetch_row_fails [of e d t err later mode] by (subst fetch_rows.simps) auto
next
  case (Cons row rows)
  obtain d1 where d1: "duckdb_result_fetch_row_into e mode d = Some (Inr (Some (Z_array 0 (row_array mode (rs_names d) row))), d1)"
      "holds_rows e d1 rows (NF_null (Some (t, err)) # later)" "rs_record d1 = rs_record d" "rs_conn d1 = rs_conn d"
    using fetch_row_next [OF Cons.prems(1), of mode] by blast
  then have "fetch_rows e mode acc d = fetch_rows e mode (add_next_index_zval (Z_array 0 (row_array mode (rs_names d) row)) acc) d1"
    by (subst fetch_rows.simps) simp
  moreover have "session_of d1 = session_of d" "failure_text e d1 err = failure_text e d err"
    using d1(3,4) by (simp_all add: session_of_def failure_text_def)
  ultimately show ?case using Cons.IH [OF d1(2)] d1(3,4) by simp
qed

text \<open>
  C32. A query that fails while it is fetched never passes for a complete one. When the engine reports an
  error after any number of rows, \<open>fetchAll\<close> throws that error instead of returning the rows so far, and a
  failed stream, pumped or not, throws the same error on every later fetch without asking the engine again.
\<close>

theorem fetch_error_sticks:
  assumes "holds_rows e d rows (NF_null (Some (t, err)) # later)"
  shows "\<exists>d'. fetchAll e mode d = Some (Inl (duckdb_throw_error t (Some (failure_text e d err))), d')
     \<and> (rs_record d \<noteq> None \<longrightarrow> fetchRow e mode2 d' = Some (Inl (duckdb_throw_error t (Some (failure_text e d err))), d'))"
proof -
  obtain d' where d': "fetch_rows e mode [] d = Some (Inl (duckdb_throw_error t (Some (failure_text e d err))), d')"
      "rs_record d' = rs_record d" "failed_with t (failure_text e d err) (session_of d) (rs_conn d) d'"
    using fetch_rows_fails [OF assms, of mode "[]"] by blast
  have "fetchRow e mode2 d' = Some (Inl (duckdb_throw_error t (Some (failure_text e d err))), d')" if r: "rs_record d = Some i" for i
  proof -
    have f: "rs_failed d' = Some (t, failure_text e d err)" "rs_exhausted d' = False" "rs_chunk d' = None"
        "rs_conn d' = end_session (session_of d) (failure_text e d err) (set_state i OR_errored (rs_conn d))"
      using d'(2,3) r by (simp_all add: failed_with_def)
    have "\<not> duckdb_conn_busy_here (fe_thread e) (rs_conn d)"
      using assms(1) r by (auto simp: holds_rows_def can_fetch_def)
    then have "\<not> duckdb_conn_busy_here (fe_thread e) (rs_conn d')"
      by (simp add: f(4) busy_here_iff set_state_def set_record_def end_session_def log_native_def split: option.split)
    moreover have "d'\<lparr>rs_chunk := None\<rparr> = d'" using f(3) by simp
    ultimately show ?thesis
      using d'(2) f(1-3) r
      by (simp add: fetchRow_def duckdb_result_fetch_row_into_def duckdb_result_fetch_chunk_def
          duckdb_result_fetch_stream_chunk_def enter_iff)
  qed
  then show ?thesis using d'(1) by (auto simp: fetchAll_def)
qed

section \<open>Iteration\<close>

lemma iterate_rest_all:
  assumes "holds_rows e (it_data it) rows ends" "ended ends" "it_current it = Some row" "rs_names (it_data it) = names"
  shows "\<exists>it'. iterate_rest e acc it
     = Some (Inr (acc @ (it_key it, row)
         # map (\<lambda>(i, vs). (it_key it + 1 + int i, Z_array 0 (row_array Mode_assoc names vs))) (enumerate 0 rows)), it')"
  using assms
proof (induction rows arbitrary: it acc row)
  case Nil
  obtain d' where d': "duckdb_result_fetch_row_into e Mode_assoc (it_data it) = Some (Inr None, d')"
    using fetch_row_end [OF Nil(1,2)] by blast
  let ?it = "it\<lparr>it_current := None, it_data := d'\<rparr>"
  have "iterator_next e it = Some (Inr (), ?it)" using d' by (simp add: iterator_next_def)
  then have "iterate_rest e acc it = iterate_rest e (acc @ [(it_key it, row)]) ?it"
    using Nil(3) by (subst iterate_rest.simps) (simp add: iterator_valid_def iterator_current_def)
  moreover have "iterate_rest e (acc @ [(it_key it, row)]) ?it = Some (Inr (acc @ [(it_key it, row)]), ?it)"
    by (subst iterate_rest.simps) (simp add: iterator_valid_def)
  ultimately show ?case by simp
next
  case (Cons r rows)
  let ?row = "Z_array 0 (row_array Mode_assoc names r)"
  obtain d1 where d1: "duckdb_result_fetch_row_into e Mode_assoc (it_data it) = Some (Inr (Some ?row), d1)"
      "holds_rows e d1 rows ends" "rs_names d1 = names"
    using fetch_row_next [OF Cons.prems(1), of Mode_assoc] Cons.prems(4) by blast
  let ?it = "it\<lparr>it_current := Some ?row, it_key := it_key it + 1, it_data := d1\<rparr>"
  have "iterator_next e it = Some (Inr (), ?it)" using d1(1) by (simp add: iterator_next_def)
  then have s: "iterate_rest e acc it = iterate_rest e (acc @ [(it_key it, row)]) ?it"
    using Cons.prems(3) by (subst iterate_rest.simps) (simp add: iterator_valid_def iterator_current_def)
  have "map (\<lambda>(i, vs). (it_key it + 1 + int i, Z_array 0 (row_array Mode_assoc names vs))) (enumerate 0 (r # rows))
      = (it_key it + 1, ?row) # map (\<lambda>(i, vs). (it_key it + 1 + 1 + int i, Z_array 0 (row_array Mode_assoc names vs))) (enumerate 0 rows)"
    by (simp add: enumerate_Suc_eq comp_def case_prod_unfold)
  then show ?case
    using Cons.IH [of ?it ?row "acc @ [(it_key it, row)]"] d1 Cons.prems(2) by (simp add: s)
qed

text \<open>
  \<open>foreach\<close> over a fresh result visits the rows \<open>fetchAll\<close> would return, in the same order, with the
  keys 0, 1, 2 and so on.
\<close>

theorem foreach_is_fetch_all:
  assumes "holds_rows e (it_data it) rows ends" "ended ends" "int (length rows) \<le> long_max"
    "\<not> it_started it" "rs_row_index (it_data it) = 0"
  shows "\<exists>visited it' d'. foreach_rows e it = Some (Inr visited, it')
     \<and> map fst visited = map int [0..<length rows]
     \<and> fetchAll e Mode_assoc (it_data it) = Some (Inr (Z_array 0 (list_array (map snd visited))), d')"
proof -
  let ?d = "it_data it" and ?row = "\<lambda>vs. Z_array 0 (row_array Mode_assoc (rs_names (it_data it)) vs)"
  have fresh: "\<not> rs_exhausted ?d" using assms(1) by (simp add: holds_rows_def can_fetch_def)
  have "\<exists>it'. foreach_rows e it = Some (Inr (map (\<lambda>(i, vs). (int i, ?row vs)) (enumerate 0 rows)), it')"
  proof (cases rows)
    case Nil
    then obtain d' where "duckdb_result_fetch_row_into e Mode_assoc ?d = Some (Inr None, d')"
      using fetch_row_end [of e ?d ends Mode_assoc] assms(1,2) by blast
    then show ?thesis
      using assms(4,5) fresh Nil
      by (simp add: foreach_rows_def iterator_rewind_def) (subst iterate_rest.simps, simp add: iterator_valid_def)
  next
    case (Cons r rs)
    then obtain d1 where d1: "duckdb_result_fetch_row_into e Mode_assoc ?d = Some (Inr (Some (?row r)), d1)"
        "holds_rows e d1 rs ends" "rs_names d1 = rs_names ?d"
      using fetch_row_next [of e ?d r rs ends Mode_assoc] assms(1) by blast
    let ?it = "it\<lparr>it_started := True, it_key := 0, it_current := Some (?row r), it_data := d1\<rparr>"
    have "foreach_rows e it = iterate_rest e [] ?it"
      using d1(1) assms(4,5) fresh by (simp add: foreach_rows_def iterator_rewind_def)
    moreover obtain it' where "iterate_rest e [] ?it
        = Some (Inr ((0, ?row r) # map (\<lambda>(i, vs). (1 + int i, ?row vs)) (enumerate 0 rs)), it')"
      using iterate_rest_all [of e ?it rs ends "?row r" "rs_names ?d" "[]"] d1(2,3) assms(2) by auto
    ultimately show ?thesis using Cons by (simp add: enumerate_Suc_eq comp_def case_prod_unfold)
  qed
  moreover have "map fst (map (\<lambda>(i, vs). (int i, ?row vs)) (enumerate 0 rows)) = map int [0..<length rows]"
    by (rule nth_equalityI) (simp_all add: nth_enumerate_eq)
  moreover have "map snd (map (\<lambda>(i, vs). (int i, ?row vs)) (enumerate 0 rows)) = map ?row rows"
    by (rule nth_equalityI) (simp_all add: nth_enumerate_eq)
  moreover obtain d' where "fetchAll e Mode_assoc ?d = Some (Inr (Z_array 0 (list_array (map ?row rows))), d')"
    using fetch_rows_all [of e ?d rows ends "[]" Mode_assoc] assms(1-3) by (auto simp: fetchAll_def)
  ultimately show ?thesis by metis
qed

section \<open>The three fetch modes\<close>

text \<open>A column name PHP would store as an integer key.\<close>

definition integer_name :: "string \<Rightarrow> bool" where
  "integer_name s \<longleftrightarrow> (\<exists>i. symtable_key s = K_int i)"

lemma next_index_None: "next_index es = None \<longleftrightarrow> (\<forall>k \<in> fst ` set es. \<exists>s. k = K_str s)"
proof (induction es)
  case (Cons e es)
  then show ?case by (cases e; cases "fst e") auto
qed simp

lemma row_array_num:
  assumes "length names = length vals" "int (length us + length vals) \<le> long_max"
  shows "foldl (add_column Mode_num) (list_array us) (zip names vals) = list_array (us @ vals)"
  using assms
proof (induction vals arbitrary: us names)
  case (Cons v vals)
  then obtain n ns where n: "names = n # ns" by (cases names) auto
  have "add_column Mode_num (list_array us) (n, v) = list_array (us @ [v])"
    using Cons.prems by (simp add: add_column_def add_next_list_array)
  then show ?case using Cons.IH [of ns "us @ [v]"] Cons.prems n by simp
qed simp

lemma row_array_assoc:
  "map_of (foldl (add_column Mode_assoc) es (zip names vals))
     = map_of es ++ map_of (rev (zip (map symtable_key names) vals))"
proof (induction names arbitrary: es vals)
  case (Cons n names)
  show ?case
  proof (cases vals)
    case (Cons v vs)
    then show ?thesis
      using Cons.IH [of "add_column Mode_assoc es (n, v)" vs]
      by (simp add: add_column_def add_assoc_zval_ex_def map_of_hash_put fun_eq_iff map_add_def split: option.split)
  qed simp
qed simp

text \<open>With names that are not integers, the positional keys of \<open>Both\<close> count the columns.\<close>

definition both_keys_ok :: "nat \<Rightarrow> (php_key \<times> zval) list \<Rightarrow> bool" where
  "both_keys_ok k es \<longleftrightarrow> next_index es = (if k = 0 then None else Some (int k))"

lemma next_index_hash_put_str: "next_index (hash_put es (K_str s) v) = next_index es"
proof (induction es)
  case (Cons e es)
  then show ?case by (cases e; cases "fst e") auto
qed simp

lemma next_index_bound: "next_index es = Some m \<Longrightarrow> K_int i \<in> fst ` set es \<Longrightarrow> i < m"
proof (induction es arbitrary: m)
  case (Cons e es)
  obtain k w where e: "e = (k, w)" by fastforce
  show ?case
  proof (cases "next_index es")
    case None
    then have "K_int i \<notin> fst ` set es" by (auto simp: next_index_None)
    then show ?thesis using Cons.prems e None by (cases k) auto
  next
    case (Some n)
    then show ?thesis using Cons.prems Cons.IH [of n] e by (cases k) fastforce+
  qed
qed simp

lemma next_index_append_int:
  "next_index (es @ [(K_int i, v)]) = Some (case next_index es of None \<Rightarrow> i + 1 | Some n \<Rightarrow> max n (i + 1))"
proof (induction es)
  case (Cons e es)
  obtain k w where e: "e = (k, w)" by fastforce
  then show ?case using Cons by (cases k) (auto split: option.splits)
qed simp

lemma add_column_both:
  assumes "both_keys_ok k es" "\<not> integer_name n" "int k \<le> long_max"
  shows "both_keys_ok (Suc k) (add_column Mode_both es (n, v))"
    "map_of (add_column Mode_both es (n, v)) = (map_of es)(K_str n \<mapsto> v, K_int (int k) \<mapsto> v)"
proof -
  have key: "symtable_key n = K_str n" using assms(2) by (auto simp: integer_name_def symtable_key_def Let_def)
  let ?e1 = "hash_put es (K_str n) v"
  have ni: "next_index ?e1 = (if k = 0 then None else Some (int k))"
    using assms(1) by (simp add: both_keys_ok_def next_index_hash_put_str)
  have fresh: "K_int (int k) \<notin> fst ` set ?e1"
    using ni next_index_bound [of ?e1 "int k" "int k"] next_index_None [of ?e1] by (cases "k = 0") auto
  have "(case next_index ?e1 of None \<Rightarrow> 0 | Some m \<Rightarrow> m) = int k" using ni by simp
  then have "add_next_index_zval v ?e1 = hash_put ?e1 (K_int (int k)) v"
    unfolding add_next_index_zval_def using assms(3) by (simp only: Let_def) simp
  then have a: "add_column Mode_both es (n, v) = ?e1 @ [(K_int (int k), v)]"
    using key hash_put_new [OF fresh, of v] by (simp add: add_column_def add_assoc_zval_ex_def)
  show "both_keys_ok (Suc k) (add_column Mode_both es (n, v))"
    using ni by (simp add: a both_keys_ok_def next_index_append_int)
  have "map_of (?e1 @ [(K_int (int k), v)]) = map_of (hash_put ?e1 (K_int (int k)) v)"
    by (simp only: hash_put_new [OF fresh])
  then show "map_of (add_column Mode_both es (n, v)) = (map_of es)(K_str n \<mapsto> v, K_int (int k) \<mapsto> v)"
    unfolding a by (simp only: map_of_hash_put)
qed

lemma row_array_both:
  assumes "both_keys_ok k es" "\<forall>n \<in> set names. \<not> integer_name n" "length names = length vals"
    "int (k + length vals) \<le> long_max"
  shows "map_of (foldl (add_column Mode_both) es (zip names vals))
     = map_of es ++ map_of (rev (zip (map K_str names) vals)) ++ map_of (map (\<lambda>(i, v). (K_int (int i), v)) (enumerate k vals))"
  using assms
proof (induction names arbitrary: es vals k)
  case (Cons n names)
  then obtain v vs where v: "vals = v # vs" by (cases vals) auto
  note col = add_column_both [OF Cons.prems(1), of n v]
  have n: "\<not> integer_name n" "int k \<le> long_max" using Cons.prems v by simp_all
  have ih: "map_of (foldl (add_column Mode_both) (add_column Mode_both es (n, v)) (zip names vs))
      = map_of (add_column Mode_both es (n, v)) ++ map_of (rev (zip (map K_str names) vs))
        ++ map_of (map (\<lambda>(i, v). (K_int (int i), v)) (enumerate (Suc k) vs))"
    using Cons.prems v col(1) [OF n] by (intro Cons.IH) simp_all
  have str: "map_of (rev (zip (map K_str names) vs)) (K_int i) = None" for i
    by (auto simp: map_of_eq_None_iff dest: set_zip_leftD)
  have up: "map_of (map (\<lambda>(i, v). (K_int (int i), v)) (enumerate (Suc k) vs)) (K_int (int k)) = None"
    by (auto simp: map_of_eq_None_iff in_set_enumerate_eq)
  have str2: "map_of (map (\<lambda>(i, v). (K_int (int i), v)) (enumerate (Suc k) vs)) (K_str s) = None" for s
    by (auto simp: map_of_eq_None_iff)
  show ?case
  proof
    fix x
    show "map_of (foldl (add_column Mode_both) es (zip (n # names) vals)) x
      = (map_of es ++ map_of (rev (zip (map K_str (n # names)) vals)) ++ map_of (map (\<lambda>(i, v). (K_int (int i), v)) (enumerate k vals))) x"
    proof (cases x)
      case (K_int i)
      then show ?thesis
        using ih col(2) [OF n] v str up by (cases "i = int k") (simp_all add: map_add_def split: option.split)
    next
      case (K_str s)
      then show ?thesis
        using ih col(2) [OF n] v str2 by (cases "s = n") (simp_all add: map_add_def split: option.split)
    qed
  qed
qed (simp add: both_keys_ok_def)


text \<open>
  The three fetch modes. \<open>Num\<close> is the list of the values; \<open>Assoc\<close> maps every column name to the value
  of the last column with that name; \<open>Both\<close> has both kinds of entries, provided no column name spells an
  integer.
\<close>

theorem row_modes_correct:
  assumes "length names = length vals" "int (length vals) \<le> long_max"
  shows "row_array Mode_num names vals = list_array vals
     \<and> map_of (row_array Mode_assoc names vals) = map_of (rev (zip (map symtable_key names) vals))
     \<and> ((\<forall>n \<in> set names. \<not> integer_name n) \<longrightarrow>
          (\<forall>i < length vals. map_of (row_array Mode_both names vals) (K_int (int i)) = Some (vals ! i))
        \<and> (\<forall>s. map_of (row_array Mode_both names vals) (K_str s) = map_of (rev (zip names vals)) s))"
proof -
  have num: "row_array Mode_num names vals = list_array vals"
    using row_array_num [of names vals "[]"] assms by (simp add: row_array_def)
  have assoc: "map_of (row_array Mode_assoc names vals) = map_of (rev (zip (map symtable_key names) vals))"
    using row_array_assoc [of "[]" names vals] by (simp add: row_array_def)
  have both: "map_of (row_array Mode_both names vals)
      = map_of (rev (zip (map K_str names) vals)) ++ map_of (map (\<lambda>(i, v). (K_int (int i), v)) (enumerate 0 vals))"
    if "\<forall>n \<in> set names. \<not> integer_name n"
    using row_array_both [OF _ that assms(1), of 0 "[]"] assms(2) by (simp add: row_array_def both_keys_ok_def)
  have pos: "map_of (map (\<lambda>(i, v). (K_int (int i), v)) (enumerate k vs)) (K_int (int (k + i))) = Some (vs ! i)"
    if "i < length vs" for i k and vs :: "zval list"
    using that
  proof (induction vs arbitrary: i k)
    case (Cons v vs)
    then show ?case using Cons.IH [of "i - 1" "Suc k"] by (cases i) simp_all
  qed simp
  have no: "map_of (map (\<lambda>(i, v). (K_int (int i), v)) (enumerate 0 vals)) (K_str s) = None" for s
    by (auto simp: map_of_eq_None_iff)
  have str: "map_of (map (\<lambda>(n, v). (K_str n, v)) es) (K_str s) = map_of es s" for es :: "(string \<times> zval) list" and s
    by (induction es) auto
  have z: "zip (map K_str names) vals = map (\<lambda>(n, v). (K_str n, v)) (zip names vals)"
    by (rule nth_equalityI) (simp_all add: assms(1))
  show ?thesis
    using num assoc both pos [of _ vals 0] no str [of "rev (zip names vals)"]
    by (auto simp: z rev_map map_add_def split: option.splits)
qed

lemma row_modes_correct_witness:
  "row_array Mode_num [''id''] [Z_long 7] = list_array [Z_long 7]
   \<and> map_of (row_array Mode_both [''id''] [Z_long 7]) (K_int 0) = Some (Z_long 7)"
proof -
  have "\<not> integer_name ''id''"
    using symtable_key_text [of "CHR ''i''" "''d''"] by (auto simp: integer_name_def) code_simp
  then show ?thesis using row_modes_correct [of "[''id'']" "[Z_long 7]"] by (auto simp: long_bounds)
qed

text \<open>
  With integer column names, as of \<open>SELECT 1, 2\<close>, \<open>Both\<close> keeps no positional keys: the first column is
  missing under 0, and each name replaces or shifts the position it spells.
\<close>

lemma both_mode_numeric_names:
  "row_array Mode_both [''1'', ''2''] [Z_long 1, Z_long 2] = [(K_int 1, Z_long 1), (K_int 2, Z_long 2), (K_int 3, Z_long 2)]"
proof -
  have "symtable_key ''1'' = K_int 1" "symtable_key ''2'' = K_int 2" by code_simp+
  then show ?thesis
    by (simp add: row_array_def add_column_def add_assoc_zval_ex_def add_next_index_zval_def long_bounds)
qed


section \<open>Examples\<close>

text \<open>One integer column, two chunks, of a streaming result whose connection is idle.\<close>

definition sample_fetch_env :: fetch_env where
  "sample_fetch_env = \<lparr>fe_thread = 1, fe_decode = sample_env, fe_lease_failure = (\<lambda>n err fallback. fallback)\<rparr>"

definition sample_chunk :: "u32 \<Rightarrow> dvec list \<times> nat" where
  "sample_chunk w = ([Vec None [C_32 w] []], 1)"

definition sample_result :: "native_fetch list \<Rightarrow> result_data" where
  "sample_result ends = \<lparr>rs_names = [''n''], rs_types = [LT_prim T_INTEGER None], rs_chunk = None, rs_pos = 0, rs_row_index = 0,
     rs_exhausted = False, rs_iterator_taken = False, rs_record = Some 0, rs_failed = None,
     rs_conn = initial_conn\<lparr>records := [\<lparr>or_state = OR_open, or_result = 3, or_streaming = True, or_pending = None,
                                       or_session = None, or_holds = True\<rparr>], open_results := [0]\<rparr>,
     rs_source = answers [sample_chunk 5, sample_chunk 7] @ ends\<rparr>"

lemma sample_chunk_holds: "chunk_holds sample_env [LT_prim T_INTEGER None] (sample_chunk w) [[Z_long (sint w)]]"
  by (simp add: chunk_holds_def sample_chunk_def duckdb_decode_value.simps duckdb_vector_row_is_null_def decode_scalar_def)

lemma sample_holds_rows: "holds_rows sample_fetch_env (sample_result ends) [[Z_long 5], [Z_long 7]] ends"
proof -
  have "list_all2 (\<lambda>c table. snd c > 0 \<and> chunk_holds sample_env [LT_prim T_INTEGER None] c table)
      [sample_chunk 5, sample_chunk 7] [[[Z_long 5]], [[Z_long 7]]]"
    using sample_chunk_holds [of 5] sample_chunk_holds [of 7] by (simp add: sample_chunk_def)
  then show ?thesis
    unfolding holds_rows_def
    by (intro conjI exI [of _ "[]"] exI [of _ "[sample_chunk 5, sample_chunk 7]"] exI [of _ "[[[Z_long 5]], [[Z_long 7]]]"])
       (simp_all add: sample_result_def sample_fetch_env_def can_fetch_def busy_here_iff initial_conn_def)
qed

lemma fetch_all_rows_witness:
  "\<exists>d'. fetchAll sample_fetch_env Mode_num (sample_result [])
     = Some (Inr (Z_array 0 [(K_int 0, Z_array 0 [(K_int 0, Z_long 5)]), (K_int 1, Z_array 0 [(K_int 0, Z_long 7)])]), d')"
proof -
  have "\<exists>d'. fetchAll sample_fetch_env Mode_num (sample_result [])
      = Some (Inr (Z_array 0 (list_array (map (\<lambda>vs. Z_array 0 (row_array Mode_num [''n''] vs)) [[Z_long 5], [Z_long 7]]))), d')"
    using fetch_all_rows [OF sample_holds_rows [of "[]"], of Mode_num] by (auto simp: long_bounds sample_result_def)
  then show ?thesis by (simp add: list_array_def row_array_def add_column_def add_next_index_zval_def long_bounds)
qed

lemma fetch_error_sticks_witness:
  "\<exists>d'. fetchAll sample_fetch_env Mode_num (sample_result [NF_null (Some (E_Io, Some ''disk''))])
     = Some (Inl (duckdb_throw_error E_Io (Some ''disk'')), d')
   \<and> fetchRow sample_fetch_env Mode_assoc d' = Some (Inl (duckdb_throw_error E_Io (Some ''disk'')), d')"
  using fetch_error_sticks [OF sample_holds_rows [of "[NF_null (Some (E_Io, Some ''disk''))]"], of Mode_num Mode_assoc]
  by (simp add: sample_result_def failure_text_def session_of_def)

lemma foreach_is_fetch_all_witness:
  "\<exists>visited it'. foreach_rows sample_fetch_env \<lparr>it_started = False, it_key = 0, it_current = None, it_data = sample_result []\<rparr>
     = Some (Inr visited, it') \<and> map fst visited = [0, 1]"
proof -
  let ?it = "\<lparr>it_started = False, it_key = 0, it_current = None, it_data = sample_result []\<rparr>"
  have h: "holds_rows sample_fetch_env (it_data ?it) [[Z_long 5], [Z_long 7]] []" using sample_holds_rows by simp
  have "rs_row_index (it_data ?it) = 0" by (simp add: sample_result_def)
  then have "\<exists>visited it' d'. foreach_rows sample_fetch_env ?it = Some (Inr visited, it')
     \<and> map fst visited = map int [0..<length [[Z_long 5], [Z_long 7]]]
     \<and> fetchAll sample_fetch_env Mode_assoc (it_data ?it) = Some (Inr (Z_array 0 (list_array (map snd visited))), d')"
    by (intro foreach_is_fetch_all [OF h]) (simp_all add: long_bounds)
  then show ?thesis by (auto simp: numeral_2_eq_2)
qed


section \<open>Windows of a data chunk\<close>

definition copies_rows :: "decode_env \<Rightarrow> (dvec \<Rightarrow> nat \<Rightarrow> nat \<Rightarrow> dvec) \<Rightarrow> ltype list \<Rightarrow> dvec list \<Rightarrow> nat \<Rightarrow> bool" where
  "copies_rows env copy_sel types cols nrows \<longleftrightarrow>
     (\<forall>offset count r. r < count \<and> offset + count \<le> nrows \<longrightarrow>
        decode_columns env types (map (\<lambda>c. copy_sel c offset count) cols) 0 r = decode_columns env types cols 0 (offset + r))"

lemma window_rows_all:
  assumes "\<And>p. p \<in> set ps \<Longrightarrow> decode_columns env types batch 0 p = dret (vals p)" "int (length us + length ps) \<le> long_max"
  shows "window_rows env mode names types batch ps (list_array us)
     = dret (list_array (us @ map (\<lambda>p. Z_array 0 (row_array mode names (vals p))) ps))"
  using assms
proof (induction ps arbitrary: us)
  case (Cons p ps)
  then show ?case
    using Cons.IH [of "us @ [Z_array 0 (row_array mode names (vals p))]"] by (simp add: add_next_list_array)
qed simp

lemma chunk_rows_from_all:
  assumes "0 < vector_size" "copies_rows env copy_sel types cols nrows" "length table = nrows"
    "\<forall>r < nrows. decode_columns env types cols 0 r = dret (table ! r)" "int nrows \<le> long_max" "offset \<le> nrows"
  shows "chunk_rows_from env vector_size copy_sel mode names types cols nrows offset
       (list_array (map (\<lambda>vs. Z_array 0 (row_array mode names vs)) (take offset table)))
     = dret (list_array (map (\<lambda>vs. Z_array 0 (row_array mode names vs)) table))"
  using assms(6)
proof (induction "nrows - offset" arbitrary: offset rule: less_induct)
  case less
  let ?rows = "map (\<lambda>vs. Z_array 0 (row_array mode names vs))"
  show ?case
  proof (cases "offset < nrows")
    case False
    then show ?thesis using less.prems assms(3) by (subst chunk_rows_from.simps) (simp add: dret_def)
  next
    case True
    define count where "count = min vector_size (nrows - offset)"
    let ?batch = "map (\<lambda>c. copy_sel c offset count) cols"
    have "decode_columns env types ?batch 0 p = dret (table ! (offset + p))" if "p \<in> set [0..<count]" for p
    proof -
      have "p < count" "offset + count \<le> nrows" using that True by (auto simp: count_def)
      then show ?thesis using assms(2,4) by (simp add: copies_rows_def)
    qed
    then have "window_rows env mode names types ?batch [0..<count] (list_array (?rows (take offset table)))
        = dret (list_array (?rows (take offset table) @ map (\<lambda>p. Z_array 0 (row_array mode names (table ! (offset + p)))) [0..<count]))"
      using assms(3,5) True by (intro window_rows_all) (auto simp: count_def)
    also have "?rows (take offset table) @ map (\<lambda>p. Z_array 0 (row_array mode names (table ! (offset + p)))) [0..<count]
        = ?rows (take (offset + count) table)"
    proof -
      have "offset + count \<le> length table" using assms(3) True by (simp add: count_def)
      then have "map (\<lambda>p. table ! (offset + p)) [0..<count] = take count (drop offset table)"
        by (intro nth_equalityI) simp_all
      from arg_cong [OF this, of ?rows] show ?thesis by (simp add: take_add comp_def)
    qed
    finally have w: "window_rows env mode names types ?batch [0..<count] (list_array (?rows (take offset table)))
        = dret (list_array (?rows (take (offset + count) table)))" .
    have step: "chunk_rows_from env vector_size copy_sel mode names types cols nrows offset (list_array (?rows (take offset table)))
        = chunk_rows_from env vector_size copy_sel mode names types cols nrows (offset + vector_size) (list_array (?rows (take (offset + count) table)))"
      using True w by (subst chunk_rows_from.simps) (simp add: count_def dret_def Let_def)
    show ?thesis
    proof (cases "offset + vector_size \<le> nrows")
      case True
      then have "count = vector_size" by (simp add: count_def)
      then show ?thesis using less.hyps [of "offset + vector_size"] True assms(1) step \<open>offset < nrows\<close> by simp
    next
      case False
      then have "offset + count = nrows" using True by (simp add: count_def)
      then show ?thesis using step False assms(3) by (simp add: chunk_rows_from.simps dret_def)
    qed
  qed
qed

text \<open>
  \<open>toRows\<close> returns the rows of the whole chunk in order, however it is cut into windows.
\<close>

lemma data_chunk_rows_all:
  assumes "0 < vector_size" "copies_rows env copy_sel types cols nrows" "length table = nrows"
    "\<forall>r < nrows. decode_columns env types cols 0 r = dret (table ! r)" "int nrows \<le> long_max"
  shows "duckdb_data_chunk_rows env vector_size copy_sel mode names types cols nrows
     = dret (Z_array 0 (list_array (map (\<lambda>vs. Z_array 0 (row_array mode names vs)) table)))"
  using chunk_rows_from_all [OF assms, of 0 mode names] by (simp add: duckdb_data_chunk_rows_def)

end
