(* ===== verification/Php_Convert.thy ===== *)
theory Php_Convert
  imports Prelude Errors Interval Logical_Type Php_Value Php_Array Variant Decode
begin

text \<open>
  The conversion of PHP values to DuckDB values of \<open>src/src/values.cpp\<close>: type inference and
  \<open>duckdb_php_to_duckdb_value\<close>.

  A DuckDB value is the call that created it. The two creating functions that can refuse their arguments
  and the one that takes text are parameters. A C function that returns a null pointer without leaving a
  PHP exception behind is \<open>F_silent\<close>; signed overflow is \<open>F_undefined\<close>.
\<close>

section \<open>Native values\<close>

datatype dvalue =
    V_null
  | V_bool bool
  | V_int64 int
  | V_double u64
  | V_varchar string
  | V_interval interval
  | V_timestamp int
  | V_list ltype "dvalue list"
  | V_struct ltype "dvalue list"

fun duckdb_get_value_type :: "dvalue \<Rightarrow> ltype" where
  "duckdb_get_value_type V_null = LT_prim T_SQLNULL None"
| "duckdb_get_value_type (V_bool b) = LT_prim T_BOOLEAN None"
| "duckdb_get_value_type (V_int64 i) = LT_prim T_BIGINT None"
| "duckdb_get_value_type (V_double d) = LT_prim T_DOUBLE None"
| "duckdb_get_value_type (V_varchar s) = LT_prim T_VARCHAR None"
| "duckdb_get_value_type (V_interval iv) = LT_prim T_INTERVAL None"
| "duckdb_get_value_type (V_timestamp m) = LT_prim T_TIMESTAMP None"
| "duckdb_get_value_type (V_list t vs) = LT_list (Some t)"
| "duckdb_get_value_type (V_struct t vs) = t"

record convert_env =
  ce_varchar :: "string \<Rightarrow> dvalue option"
  ce_list_value :: "ltype \<Rightarrow> dvalue list \<Rightarrow> dvalue option"
  ce_struct_type :: "(string \<times> ltype) list \<Rightarrow> ltype option"
  ce_struct_value :: "ltype \<Rightarrow> dvalue list \<Rightarrow> dvalue option"

datatype failure = F_silent | F_throws throwable | F_undefined

section \<open>Inference\<close>

fun duckdb_logical_types_equal :: "ltype \<Rightarrow> ltype \<Rightarrow> bool"
  and child_types_equal :: "ltype option \<Rightarrow> ltype option \<Rightarrow> bool"
  and member_types_equal :: "(string option \<times> ltype option) list \<Rightarrow> (string option \<times> ltype option) list \<Rightarrow> bool" where
  "duckdb_logical_types_equal (LT_list c) b = (case b of LT_list c' \<Rightarrow> child_types_equal c c' | _ \<Rightarrow> False)"
| "duckdb_logical_types_equal (LT_array c n) b = (case b of LT_array c' n' \<Rightarrow> n = n' \<and> child_types_equal c c' | _ \<Rightarrow> False)"
| "duckdb_logical_types_equal (LT_struct ms) b = (case b of LT_struct ms' \<Rightarrow> member_types_equal ms ms' | _ \<Rightarrow> False)"
| "duckdb_logical_types_equal (LT_prim t a) b = (type_id b = t)"
| "duckdb_logical_types_equal (LT_decimal w s) b = (type_id b = T_DECIMAL)"
| "duckdb_logical_types_equal (LT_enum vs) b = (type_id b = T_ENUM)"
| "duckdb_logical_types_equal (LT_map k v) b = (type_id b = T_MAP)"
| "duckdb_logical_types_equal (LT_union ms) b = (type_id b = T_UNION)"
| "duckdb_logical_types_equal (LT_geometry c) b = (type_id b = T_GEOMETRY)"
| "child_types_equal (Some a) ob = (case ob of Some b \<Rightarrow> duckdb_logical_types_equal a b | None \<Rightarrow> False)"
| "child_types_equal None ob = False"
| "member_types_equal [] ns = (ns = [])"
| "member_types_equal ((n, c) # ms) ns =
     (case ns of
        [] \<Rightarrow> False
      | (n', c') # ns' \<Rightarrow> n \<noteq> None \<and> n' = n \<and> child_types_equal c c' \<and> member_types_equal ms ns')"

definition key_text :: "php_key \<Rightarrow> string" where
  "key_text k = (case k of K_int i \<Rightarrow> dec_int i | K_str s \<Rightarrow> s)"

definition nested_too_deep :: failure where
  "nested_too_deep = F_throws (ValueError (''Cannot convert a value nested deeper than '' @ dec_string max_nesting_depth
     @ '' levels to a DuckDB value''))"

definition prim :: "duckdb_type \<Rightarrow> (failure, ltype) result" where
  "prim t = Inr (LT_prim t None)"

text \<open>\<open>infer_first\<close> is the type of the first element that is not null.\<close>

fun duckdb_php_infer_logical_type :: "convert_env \<Rightarrow> nat \<Rightarrow> zval \<Rightarrow> (failure, ltype) result"
  and infer_first :: "convert_env \<Rightarrow> nat \<Rightarrow> (php_key \<times> zval) list \<Rightarrow> (failure, ltype) result"
  and infer_members :: "convert_env \<Rightarrow> nat \<Rightarrow> (php_key \<times> zval) list \<Rightarrow> (failure, (string \<times> ltype) list) result" where
  "duckdb_php_infer_logical_type env depth (Z_bool b) = (if depth > max_nesting_depth then Inl nested_too_deep else prim T_BOOLEAN)"
| "duckdb_php_infer_logical_type env depth (Z_long i) = (if depth > max_nesting_depth then Inl nested_too_deep else prim T_BIGINT)"
| "duckdb_php_infer_logical_type env depth (Z_double d) = (if depth > max_nesting_depth then Inl nested_too_deep else prim T_DOUBLE)"
| "duckdb_php_infer_logical_type env depth (Z_string s) = (if depth > max_nesting_depth then Inl nested_too_deep else prim T_VARCHAR)"
| "duckdb_php_infer_logical_type env depth (Z_interval iv) = (if depth > max_nesting_depth then Inl nested_too_deep else prim T_INTERVAL)"
| "duckdb_php_infer_logical_type env depth (Z_datetime im t) = (if depth > max_nesting_depth then Inl nested_too_deep else prim T_TIMESTAMP)"
| "duckdb_php_infer_logical_type env depth (Z_array h es) =
     (if depth > max_nesting_depth then Inl nested_too_deep
      else if es = [] then Inl F_silent
      else if zend_array_is_list es
      then rbind (infer_first env (Suc depth) es) (\<lambda>t. Inr (LT_list (Some t)))
      else rbind (infer_members env (Suc depth) es) (\<lambda>ms.
             case ce_struct_type env ms of None \<Rightarrow> Inl F_silent | Some t \<Rightarrow> Inr t))"
| "duckdb_php_infer_logical_type env depth Z_null = (if depth > max_nesting_depth then Inl nested_too_deep else Inl F_silent)"
| "duckdb_php_infer_logical_type env depth (Z_value ty x) = (if depth > max_nesting_depth then Inl nested_too_deep else Inl F_silent)"
| "duckdb_php_infer_logical_type env depth (Z_object name) = (if depth > max_nesting_depth then Inl nested_too_deep else Inl F_silent)"
| "duckdb_php_infer_logical_type env depth Z_resource = (if depth > max_nesting_depth then Inl nested_too_deep else Inl F_silent)"
| "duckdb_php_infer_logical_type env depth (Z_reference v) = (if depth > max_nesting_depth then Inl nested_too_deep else Inl F_silent)"
| "infer_first env depth [] = Inl F_silent"
| "infer_first env depth ((k, v) # es) =
     (if v = Z_null then infer_first env depth es else duckdb_php_infer_logical_type env depth v)"
| "infer_members env depth [] = Inr []"
| "infer_members env depth ((k, v) # es) =
     rbind (if v = Z_null then prim T_VARCHAR else duckdb_php_infer_logical_type env depth v) (\<lambda>t.
       rbind (infer_members env depth es) (\<lambda>ms. Inr ((key_text k, t) # ms)))"

section \<open>Conversion\<close>

definition cannot_convert_object :: "string \<Rightarrow> failure" where
  "cannot_convert_object name = F_throws (TypeError (''Cannot convert an object of class '' @ name
     @ '' to a DuckDB value (supported: DuckDB'' @ [CHR 0x5C] @ ''Interval, DateTimeInterface)''))"

definition duckdb_php_datetime_to_value :: "(int \<times> int) option \<Rightarrow> (failure, dvalue) result" where
  "duckdb_php_datetime_to_value time =
     (case time of
        None \<Rightarrow> Inl (F_throws (TypeError ''Cannot bind an uninitialized DateTimeInterface object''))
      | Some (sse, us) \<Rightarrow>
          if long_min \<le> sse * 1000000 \<and> sse * 1000000 \<le> long_max
            \<and> long_min \<le> sse * 1000000 + us \<and> sse * 1000000 + us \<le> long_max
          then Inr (V_timestamp (sse * 1000000 + us)) else Inl F_undefined)"

definition wrong_element :: "nat \<Rightarrow> ltype \<Rightarrow> failure" where
  "wrong_element i t = F_throws (ValueError (''Cannot convert array to a DuckDB LIST: element '' @ dec_string i
     @ '' has a different type than the inferred element type '' @ duckdb_type_name (type_id t)))"

definition list_child_type :: "(failure, ltype) result \<Rightarrow> (failure, ltype) result" where
  "list_child_type r =
     (case r of
        Inl F_silent \<Rightarrow> Inl (F_throws (ValueError (''Cannot convert an array of only NULL values to a DuckDB LIST ''
          @ ''(the element type cannot be inferred)'')))
      | _ \<Rightarrow> r)"

fun duckdb_php_to_duckdb_value_depth :: "convert_env \<Rightarrow> nat \<Rightarrow> zval \<Rightarrow> (failure, dvalue) result"
  and convert_elements :: "convert_env \<Rightarrow> nat \<Rightarrow> ltype \<Rightarrow> nat \<Rightarrow> (php_key \<times> zval) list \<Rightarrow> (failure, dvalue list) result"
  and convert_members :: "convert_env \<Rightarrow> nat \<Rightarrow> (php_key \<times> zval) list
      \<Rightarrow> (failure, ((string \<times> ltype) \<times> dvalue) list) result" where
  "duckdb_php_to_duckdb_value_depth env depth Z_null = (if depth > max_nesting_depth then Inl nested_too_deep else Inr V_null)"
| "duckdb_php_to_duckdb_value_depth env depth (Z_bool b) = (if depth > max_nesting_depth then Inl nested_too_deep else Inr (V_bool b))"
| "duckdb_php_to_duckdb_value_depth env depth (Z_long i) = (if depth > max_nesting_depth then Inl nested_too_deep else Inr (V_int64 i))"
| "duckdb_php_to_duckdb_value_depth env depth (Z_double d) = (if depth > max_nesting_depth then Inl nested_too_deep else Inr (V_double d))"
| "duckdb_php_to_duckdb_value_depth env depth (Z_string s) =
     (if depth > max_nesting_depth then Inl nested_too_deep
      else case ce_varchar env s of None \<Rightarrow> Inl F_silent | Some v \<Rightarrow> Inr v)"
| "duckdb_php_to_duckdb_value_depth env depth (Z_interval iv) = (if depth > max_nesting_depth then Inl nested_too_deep else Inr (V_interval iv))"
| "duckdb_php_to_duckdb_value_depth env depth (Z_datetime im t) =
     (if depth > max_nesting_depth then Inl nested_too_deep else duckdb_php_datetime_to_value t)"
| "duckdb_php_to_duckdb_value_depth env depth (Z_array h es) =
     (if depth > max_nesting_depth then Inl nested_too_deep
      else if zend_array_is_list es then
        (if es = []
         then Inl (F_throws (ValueError ''Cannot convert an empty array to a DuckDB LIST (the element type cannot be inferred)''))
         else rbind (list_child_type (infer_first env (Suc depth) es)) (\<lambda>t.
              rbind (convert_elements env (Suc depth) t 0 es) (\<lambda>vs.
                case ce_list_value env t vs of
                  None \<Rightarrow> Inl (F_throws (ValueError ''Failed to create a DuckDB LIST value''))
                | Some v \<Rightarrow> Inr v)))
      else rbind (convert_members env (Suc depth) es) (\<lambda>ms.
             case Option.bind (ce_struct_type env (map fst ms)) (\<lambda>t. ce_struct_value env t (map snd ms)) of
               None \<Rightarrow> Inl (F_throws (ValueError ''Failed to create a DuckDB STRUCT value''))
             | Some v \<Rightarrow> Inr v))"
| "duckdb_php_to_duckdb_value_depth env depth (Z_value ty x) =
     (if depth > max_nesting_depth then Inl nested_too_deep else Inl (cannot_convert_object value_class))"
| "duckdb_php_to_duckdb_value_depth env depth (Z_object name) =
     (if depth > max_nesting_depth then Inl nested_too_deep else Inl (cannot_convert_object name))"
| "duckdb_php_to_duckdb_value_depth env depth Z_resource =
     (if depth > max_nesting_depth then Inl nested_too_deep
      else Inl (F_throws (TypeError (''Cannot convert a value of type '' @ zend_zval_type_name Z_resource @ '' to a DuckDB value''))))"
| "duckdb_php_to_duckdb_value_depth env depth (Z_reference v) =
     (if depth > max_nesting_depth then Inl nested_too_deep
      else Inl (F_throws (TypeError (''Cannot convert a value of type '' @ zend_zval_type_name (Z_reference v)
             @ '' to a DuckDB value''))))"
| "convert_elements env depth t i [] = Inr []"
| "convert_elements env depth t i ((k, v) # es) =
     rbind (duckdb_php_to_duckdb_value_depth env depth v) (\<lambda>x.
       if v \<noteq> Z_null \<and> \<not> duckdb_logical_types_equal t (duckdb_get_value_type x) then Inl (wrong_element i t)
       else rbind (convert_elements env depth t (Suc i) es) (\<lambda>xs. Inr (x # xs)))"
| "convert_members env depth [] = Inr []"
| "convert_members env depth ((k, v) # es) =
     rbind (if v = Z_null then prim T_VARCHAR else duckdb_php_infer_logical_type env depth v) (\<lambda>t.
       rbind (duckdb_php_to_duckdb_value_depth env depth v) (\<lambda>x.
         rbind (convert_members env depth es) (\<lambda>ms. Inr (((key_text k, t), x) # ms))))"

definition duckdb_php_to_duckdb_value :: "convert_env \<Rightarrow> zval \<Rightarrow> (failure, dvalue) result" where
  "duckdb_php_to_duckdb_value env v = duckdb_php_to_duckdb_value_depth env 0 v"

section \<open>What conversion produces\<close>

text \<open>The types inference builds: scalars without an alias, lists and structs of such types.\<close>

fun inferred_type :: "ltype \<Rightarrow> bool" and inferred_child :: "ltype option \<Rightarrow> bool"
  and inferred_members :: "(string option \<times> ltype option) list \<Rightarrow> bool" where
  "inferred_type (LT_prim t a) = (a = None \<and> t \<in> {T_BOOLEAN, T_BIGINT, T_DOUBLE, T_VARCHAR, T_INTERVAL, T_TIMESTAMP})"
| "inferred_type (LT_list c) = inferred_child c"
| "inferred_type (LT_struct ms) = inferred_members ms"
| "inferred_type (LT_array c n) = False"
| "inferred_type (LT_decimal w s) = False"
| "inferred_type (LT_enum vs) = False"
| "inferred_type (LT_map k v) = False"
| "inferred_type (LT_union ms) = False"
| "inferred_type (LT_geometry c) = False"
| "inferred_child None = False"
| "inferred_child (Some t) = inferred_type t"
| "inferred_members [] = True"
| "inferred_members ((n, c) # ms) = (n \<noteq> None \<and> inferred_child c \<and> inferred_members ms)"

lemma types_equal_iff:
  "inferred_type a \<Longrightarrow> inferred_type b \<Longrightarrow> duckdb_logical_types_equal a b \<longleftrightarrow> a = b"
  "inferred_child c \<Longrightarrow> inferred_child d \<Longrightarrow> child_types_equal c d \<longleftrightarrow> c = d"
  "inferred_members ms \<Longrightarrow> inferred_members ns \<Longrightarrow> member_types_equal ms ns \<longleftrightarrow> ms = ns"
proof (induction a b and c d and ms ns rule: duckdb_logical_types_equal_child_types_equal_member_types_equal.induct)
  case (4 t a b)
  then show ?case by (cases b) auto
next
  case (10 a ob)
  then show ?case by (cases ob) auto
next
  case (13 n c ms ns)
  then show ?case by (cases ns) auto
qed (auto split: ltype.splits)

text \<open>What the engine documents of its value functions: text may be refused, the rest is built.\<close>

definition struct_of :: "(string \<times> ltype) list \<Rightarrow> ltype" where
  "struct_of ms = LT_struct (map (\<lambda>(n, t). (Some (c_string n), Some t)) ms)"

definition engine_creates :: "convert_env \<Rightarrow> bool" where
  "engine_creates env \<longleftrightarrow> (\<forall>s v. ce_varchar env s = Some v \<longrightarrow> v = V_varchar s)
     \<and> (\<forall>t vs. ce_list_value env t vs = Some (V_list t vs))
     \<and> (\<forall>ms. ce_struct_type env ms = Some (struct_of ms))
     \<and> (\<forall>t vs. ce_struct_value env t vs = Some (V_struct t vs))"

lemma engine_createsD:
  "engine_creates env \<Longrightarrow> ce_varchar env s = Some v \<Longrightarrow> v = V_varchar s"
  "engine_creates env \<Longrightarrow> ce_list_value env t vs = Some (V_list t vs)"
  "engine_creates env \<Longrightarrow> ce_struct_type env ms = Some (struct_of ms)"
  "engine_creates env \<Longrightarrow> ce_struct_value env t vs = Some (V_struct t vs)"
  by (auto simp: engine_creates_def)

lemma inferred_struct_of: "inferred_type (struct_of ms) \<longleftrightarrow> (\<forall>(n, t) \<in> set ms. inferred_type t)"
  by (induction ms) (auto simp: struct_of_def)

lemma infer_inferred:
  "engine_creates env \<Longrightarrow> duckdb_php_infer_logical_type env depth v = Inr t \<Longrightarrow> inferred_type t"
  "engine_creates env \<Longrightarrow> infer_first env depth es = Inr t \<Longrightarrow> inferred_type t"
  "engine_creates env \<Longrightarrow> infer_members env depth es = Inr ms \<Longrightarrow> \<forall>(n, t) \<in> set ms. inferred_type t"
proof (induction env depth v and env depth es and env depth es arbitrary: t and t and ms
    rule: duckdb_php_infer_logical_type_infer_first_infer_members.induct)
  case (7 env depth h es)
  then show ?case
    by (auto simp: rbind_eq_Inr inferred_struct_of engine_createsD(3) split: if_splits)
next
  case (14 env depth k v es)
  then show ?case by (auto split: if_splits)
next
  case (16 env depth k v es)
  then show ?case by (fastforce simp: rbind_eq_Inr prim_def split: if_splits)
qed (auto simp: prim_def split: if_splits)

lemma members_inferred:
  "convert_members env depth es = Inr ms \<Longrightarrow> infer_members env depth es = Inr (map fst ms)"
  by (induction es arbitrary: ms) (auto simp: rbind_eq_Inr split: if_splits)

text \<open>A converted value has the type inference finds for its PHP value.\<close>

lemma value_type_inferred:
  assumes "engine_creates env" "duckdb_php_to_duckdb_value_depth env depth v = Inr x" "v \<noteq> Z_null"
  shows "duckdb_php_infer_logical_type env depth v = Inr (duckdb_get_value_type x)"
proof (cases v)
  case (Z_array h es)
  then show ?thesis
    using assms
    by (auto simp: rbind_eq_Inr list_child_type_def engine_createsD(2-4) [OF assms(1)] zend_array_is_list_def
        dest!: members_inferred split: if_splits sum.splits failure.splits)
next
  case (Z_datetime im t)
  then show ?thesis
    using assms by (auto simp: duckdb_php_datetime_to_value_def prim_def split: if_splits option.splits)
qed (use assms in \<open>auto simp: prim_def cannot_convert_object_def dest!: engine_createsD(1) [OF assms(1)]
  split: if_splits option.splits\<close>)

section \<open>Storing and decoding\<close>

text \<open>The SQL value a native value stands for, and the PHP values that survive.\<close>

fun value_sql :: "dvalue \<Rightarrow> sql" where
  "value_sql V_null = S_null"
| "value_sql (V_bool b) = S_cell (C_bool b)"
| "value_sql (V_int64 i) = S_cell (C_64 (word_of_int i))"
| "value_sql (V_double d) = S_cell (C_64 d)"
| "value_sql (V_varchar s) = S_cell (C_string (map (\<lambda>c. of_nat (of_char c)) s))"
| "value_sql (V_interval iv) = S_cell (C_interval iv)"
| "value_sql (V_timestamp m) = S_cell (C_64 (word_of_int m))"
| "value_sql (V_list t vs) = S_list (map value_sql vs)"
| "value_sql (V_struct t vs) = S_struct (map value_sql vs)"

text \<open>What PHP guarantees: the keys of an array are distinct, machine integers or strings that are not one.\<close>

definition key_ok :: "php_key \<Rightarrow> bool" where
  "key_ok k = (case k of K_int i \<Rightarrow> long_min \<le> i \<and> i \<le> long_max | K_str s \<Rightarrow> symtable_key s = K_str s)"

fun php_wf :: "zval \<Rightarrow> bool" and entries_wf :: "(php_key \<times> zval) list \<Rightarrow> bool" where
  "php_wf (Z_array h es) = (distinct (map fst es) \<and> (\<forall>k \<in> fst ` set es. key_ok k) \<and> int (length es) \<le> long_max \<and> entries_wf es)"
| "php_wf (Z_long i) = (long_min \<le> i \<and> i \<le> long_max)"
| "php_wf (Z_datetime im t) = False"
| "php_wf v = True"
| "entries_wf [] = True"
| "entries_wf ((k, v) # es) = (php_wf v \<and> entries_wf es)"

text \<open>A decoded array is a new one.\<close>

fun fresh :: "zval \<Rightarrow> zval" and fresh_entries :: "(php_key \<times> zval) list \<Rightarrow> (php_key \<times> zval) list" where
  "fresh (Z_array h es) = Z_array 0 (fresh_entries es)"
| "fresh v = v"
| "fresh_entries [] = []"
| "fresh_entries ((k, v) # es) = (k, fresh v) # fresh_entries es"

lemma fresh_entries_map: "fresh_entries es = map (\<lambda>(k, v). (k, fresh v)) es"
  by (induction es) auto

text \<open>
  The names of a native struct are C strings. What is left of an array after the way through DuckDB: each key ends
  before its first NUL byte, and of the entries whose keys become equal the last value is in the place of the first.
\<close>

definition cut_key :: "php_key \<Rightarrow> php_key" where
  "cut_key k = symtable_key (c_string (key_text k))"

fun cut_keys :: "zval \<Rightarrow> zval" and cut_entries :: "(php_key \<times> zval) list \<Rightarrow> (php_key \<times> zval) list" where
  "cut_keys (Z_array h es) = Z_array 0 (foldl (\<lambda>xs (k, v). hash_put xs k v) [] (cut_entries es))"
| "cut_keys v = v"
| "cut_entries [] = []"
| "cut_entries ((k, v) # es) = (cut_key k, cut_keys v) # cut_entries es"

lemma cut_entries_map: "cut_entries es = map (\<lambda>(k, v). (cut_key k, cut_keys v)) es"
  by (induction es) auto

text \<open>No key, at any depth, holds a NUL byte.\<close>

fun nul_free :: "zval \<Rightarrow> bool" and nul_free_entries :: "(php_key \<times> zval) list \<Rightarrow> bool" where
  "nul_free (Z_array h es) = nul_free_entries es"
| "nul_free v = True"
| "nul_free_entries [] = True"
| "nul_free_entries ((k, v) # es) = (CHR 0x00 \<notin> set (key_text k) \<and> nul_free v \<and> nul_free_entries es)"

lemma c_string_id: "CHR 0x00 \<notin> set s \<Longrightarrow> c_string s = s"
  by (auto simp: c_string_def takeWhile_eq_all_conv)

lemma c_string_idem [simp]: "c_string (c_string s) = c_string s"
  by (rule c_string_id) (auto simp: c_string_def dest: set_takeWhileD)

lemma dec_int_no_nul: "CHR 0x00 \<notin> set (dec_int i)"
proof -
  have "\<not> is_digit (CHR 0x00)" by code_simp
  then have "CHR 0x00 \<notin> set (dec_string n)" for n using set_dec_string [of "CHR 0x00" n] by blast
  then show ?thesis by (auto simp: dec_int_def)
qed

lemma key_back: "key_ok k \<Longrightarrow> CHR 0x00 \<notin> set (key_text k) \<Longrightarrow> cut_key k = k"
  by (cases k) (simp_all add: key_ok_def cut_key_def key_text_def c_string_id dec_int_no_nul)

lemma int_key_back: "long_min \<le> i \<Longrightarrow> i \<le> long_max \<Longrightarrow> cut_key (K_int i) = K_int i"
  by (rule key_back) (simp_all add: key_ok_def key_text_def dec_int_no_nul)

lemma put_distinct: "distinct (map fst (acc @ es)) \<Longrightarrow> foldl (\<lambda>xs (k, v). hash_put xs k v) acc es = acc @ es"
proof (induction es arbitrary: acc)
  case (Cons e es)
  then have "fst e \<notin> fst ` set acc" by auto
  then have "hash_put acc (fst e) (snd e) = acc @ [e]" by (simp add: hash_put_new)
  then show ?case using Cons.IH [of "acc @ [e]"] Cons.prems by (simp add: case_prod_unfold)
qed simp

lemma distinct_list_array: "distinct (map fst (list_array vs))"
proof -
  have "map fst (list_array vs) = map (\<lambda>i. K_int (int i)) [0..<length vs]"
    by (rule nth_equalityI) (simp_all add: list_array_def nth_enumerate_eq case_prod_unfold)
  then show ?thesis by (simp add: distinct_map inj_on_def)
qed

lemma cut_keys_fresh:
  "php_wf v \<Longrightarrow> nul_free v \<Longrightarrow> cut_keys v = fresh v"
  "entries_wf es \<Longrightarrow> nul_free_entries es \<Longrightarrow> \<forall>k \<in> fst ` set es. key_ok k \<Longrightarrow> cut_entries es = fresh_entries es"
proof (induction v and es rule: cut_keys_cut_entries.induct)
  case (1 h es)
  have "map fst (fresh_entries es) = map fst es" by (simp add: fresh_entries_map comp_def case_prod_unfold)
  then show ?case using 1 put_distinct [of "[]" "fresh_entries es"] by simp
qed (auto simp: key_back)

lemma struct_array_cut:
  "foldl (\<lambda>xs (n, x). add_assoc_zval n x xs) acc (map (\<lambda>(k, v). (c_string (key_text k), cut_keys v)) es) =
     foldl (\<lambda>xs (k, v). hash_put xs k v) acc (cut_entries es)"
  by (induction es arbitrary: acc) (auto simp: add_assoc_zval_def add_assoc_zval_ex_def cut_key_def)

lemma dmap_all: "list_all2 (\<lambda>x y. f x = dret y) xs ys \<Longrightarrow> dmap f xs = dret ys"
  by (induction rule: list_all2_induct) simp_all

lemma is_list_array: "zend_array_is_list es \<Longrightarrow> es = list_array (map snd es)"
  by (intro nth_equalityI) (auto simp: zend_array_is_list_def list_array_def nth_enumerate_eq map_equality_iff prod_eq_iff)

lemma text_bytes: "bytes_text (map (\<lambda>c. of_nat (of_char c)) s) = s"
  using bytes_text_bytes [of s] by (simp only: text_bytes_def)

text \<open>What a stored element or member must satisfy to come back.\<close>

definition comes_back :: "decode_env \<Rightarrow> ltype \<Rightarrow> dvalue \<Rightarrow> zval \<Rightarrow> bool" where
  "comes_back denv t x v \<longleftrightarrow> typed t (value_sql x) \<and> php_value denv t (value_sql x) = dret (cut_keys v)"

lemma comes_back_null: "comes_back denv t V_null Z_null"
  by (simp add: comes_back_def typed.simps php_value.simps)

lemma comes_back_list:
  assumes "list_all2 (\<lambda>x e. comes_back denv t x (snd e)) xs es" "zend_array_is_list es" "int (length es) \<le> long_max"
  shows "comes_back denv (LT_list (Some t)) (V_list t xs) (Z_array h es)"
proof -
  have len: "length xs = length es" using assms(1) by (rule list_all2_lengthD)
  have "dmap (php_child denv (Some t)) (map value_sql xs) = dret (map (cut_keys \<circ> snd) es)"
    using assms(1) by (intro dmap_all) (auto simp: list_all2_conv_all_nth comes_back_def php_child.simps)
  moreover have cut: "cut_entries es = list_array (map (cut_keys \<circ> snd) es)"
  proof (rule nth_equalityI)
    fix i assume "i < length (cut_entries es)"
    then have i: "i < length es" by (simp add: cut_entries_map)
    then have "map fst es ! i = K_int (int i)"
      using assms(2) unfolding zend_array_is_list_def by simp
    moreover have "cut_key (K_int (int i)) = K_int (int i)" using i assms(3) by (intro int_key_back) (simp_all add: long_bounds)
    ultimately show "cut_entries es ! i = list_array (map (cut_keys \<circ> snd) es) ! i"
      using i by (simp add: cut_entries_map list_array_def nth_enumerate_eq case_prod_unfold)
  qed (simp add: cut_entries_map list_array_def)
  moreover have "foldl (\<lambda>xs (k, v). hash_put xs k v) [] (cut_entries es) = cut_entries es"
    unfolding cut by (rule put_distinct [of "[]", simplified, OF distinct_list_array])
  moreover have "\<forall>y \<in> set (map value_sql xs). child_typed (Some t) y"
    using assms(1) by (auto simp: list_all2_conv_all_nth comes_back_def child_typed.simps in_set_conv_nth)
  ultimately show ?thesis
    using len assms(3) by (simp add: comes_back_def typed.simps php_value.simps)
qed

lemma comes_back_struct:
  assumes "list_all2 (\<lambda>m e. fst (fst m) = key_text (fst e) \<and> comes_back denv (snd (fst m)) (snd m) (snd e)) ms es"
  shows "comes_back denv (struct_of (map fst ms)) (V_struct (struct_of (map fst ms)) (map snd ms)) (Z_array h es)"
proof -
  have len: "length ms = length es" using assms(1) by (rule list_all2_lengthD)
  let ?mem = "map (\<lambda>(n, t). (Some (c_string n), Some t)) (map fst ms)" and ?vals = "map value_sql (map snd ms)"
  have mem: "?mem ! i = (Some (c_string (key_text (fst (es ! i)))), Some (snd (fst (ms ! i))))" if "i < length es" for i
    using assms(1) that len by (auto simp: list_all2_conv_all_nth case_prod_unfold)
  have one: "comes_back denv (snd (fst (ms ! i))) (snd (ms ! i)) (snd (es ! i))" if "i < length es" for i
    using assms(1) that by (auto simp: list_all2_conv_all_nth len)
  have "dmap (\<lambda>m. dbind (php_child denv (snd (snd m)) (field_of (fst m) (S_struct ?vals))) (\<lambda>x. dret (member_name (fst (snd m)), x))) (enumerate 0 ?mem)
      = dret (map (\<lambda>(k, v). (c_string (key_text k), cut_keys v)) es)"
    using len mem one
    by (intro dmap_all)
       (auto simp: list_all2_conv_all_nth nth_enumerate_eq comes_back_def php_child.simps member_name_def case_prod_unfold)
  moreover have "struct_array (map (\<lambda>(k, v). (c_string (key_text k), cut_keys v)) es) = cut_keys (Z_array h es)"
    by (simp add: struct_array_def struct_array_cut)
  moreover have "child_typed (snd (snd m)) (?vals ! fst m)" if "m \<in> set (enumerate 0 ?mem)" for m
  proof -
    obtain i y where m: "m = (i, y)" by (cases m)
    then have i: "i < length es" "y = ?mem ! i" using that len by (auto simp: in_set_enumerate_eq)
    then show ?thesis using one [OF i(1)] m mem [OF i(1)] len by (simp add: comes_back_def child_typed.simps)
  qed
  ultimately show ?thesis
    by (simp add: comes_back_def struct_of_def typed.simps php_value.simps)
qed


lemma php_wf_list: "entries_wf es \<longleftrightarrow> (\<forall>(k, v) \<in> set es. php_wf v)"
  by (induction es) auto

lemma sint_of_int: "long_min \<le> i \<Longrightarrow> i \<le> long_max \<Longrightarrow> sint (word_of_int i :: u64) = i"
  by (simp add: sint_word_ariths signed_of_int long_min_def long_max_def signed_take_bit_int_eq_self)

lemma convert_comes_back:
  "engine_creates env \<Longrightarrow> duckdb_php_to_duckdb_value_depth env depth v = Inr x \<Longrightarrow> php_wf v
     \<Longrightarrow> comes_back denv (duckdb_get_value_type x) x v"
  "engine_creates env \<Longrightarrow> convert_elements env depth t i es = Inr xs \<Longrightarrow> entries_wf es \<Longrightarrow> inferred_type t
     \<Longrightarrow> list_all2 (\<lambda>x e. comes_back denv t x (snd e)) xs es"
  "engine_creates env \<Longrightarrow> convert_members env depth es = Inr ms \<Longrightarrow> entries_wf es
     \<Longrightarrow> list_all2 (\<lambda>m e. fst (fst m) = key_text (fst e) \<and> comes_back denv (snd (fst m)) (snd m) (snd e)) ms es"
proof (induction env depth v and env depth t i es and env depth es arbitrary: x and xs and ms
    rule: duckdb_php_to_duckdb_value_depth_convert_elements_convert_members.induct)
  case (8 env depth h es)
  show ?case
  proof (cases "zend_array_is_list es")
    case True
    then obtain t xs where t: "infer_first env (Suc depth) es = Inr t" "convert_elements env (Suc depth) t 0 es = Inr xs"
        "x = V_list t xs" "\<not> max_nesting_depth < depth" "es \<noteq> []"
      using "8.prems" by (auto simp: rbind_eq_Inr list_child_type_def engine_createsD(2) split: if_splits sum.splits failure.splits)
    then have "list_all2 (\<lambda>x e. comes_back denv t x (snd e)) xs es"
      using "8.IH"(1) True "8.prems" infer_inferred(2) [of env "Suc depth" es t] by (simp add: list_child_type_def)
    then show ?thesis using comes_back_list True t(3) "8.prems" by simp
  next
    case False
    then obtain ms where m: "convert_members env (Suc depth) es = Inr ms" "\<not> max_nesting_depth < depth"
        "x = V_struct (struct_of (map fst ms)) (map snd ms)"
      using "8.prems" by (auto simp: rbind_eq_Inr engine_createsD(3,4) split: if_splits)
    then show ?thesis using "8.IH"(2) False "8.prems" comes_back_struct [of denv ms es h] by simp
  qed
next
  case (14 env depth t i k v es)
  then obtain x xs' where x: "duckdb_php_to_duckdb_value_depth env depth v = Inr x" "convert_elements env depth t (Suc i) es = Inr xs'"
      "xs = x # xs'" "v = Z_null \<or> duckdb_logical_types_equal t (duckdb_get_value_type x)"
    by (auto simp: rbind_eq_Inr split: if_splits)
  have own: "comes_back denv (duckdb_get_value_type x) x v" using "14.IH"(1) x(1) "14.prems" by simp
  have "comes_back denv t x v"
  proof (cases "v = Z_null")
    case True
    then show ?thesis using x(1) comes_back_null by (auto split: if_splits)
  next
    case False
    then have "inferred_type (duckdb_get_value_type x)"
      using value_type_inferred [of env depth v x] infer_inferred(1) [of env depth v] x(1) "14.prems" by simp
    then show ?thesis using False x(4) types_equal_iff(1) "14.prems" own by blast
  qed
  then show ?case using "14.IH"(2) [OF x(1)] x "14.prems" by auto
next
  case (16 env depth k v es)
  then obtain t x ms' where x: "(if v = Z_null then prim T_VARCHAR else duckdb_php_infer_logical_type env depth v) = Inr t"
      "duckdb_php_to_duckdb_value_depth env depth v = Inr x" "convert_members env depth es = Inr ms'"
      "ms = ((key_text k, t), x) # ms'"
    by (auto simp: rbind_eq_Inr)
  have own: "comes_back denv (duckdb_get_value_type x) x v" using "16.IH"(1) [OF x(1)] x(2) "16.prems" by simp
  have "comes_back denv t x v"
  proof (cases "v = Z_null")
    case True
    then show ?thesis using x(2) comes_back_null by (auto split: if_splits)
  next
    case False
    then show ?thesis using value_type_inferred [of env depth v x] x(1,2) "16.prems" own by simp
  qed
  then show ?case using "16.IH"(2) [OF x(1,2)] x "16.prems" by simp
qed (auto simp: comes_back_def typed.simps php_value.simps decode_scalar_def sint_of_int text_bytes
    cannot_convert_object_def dest!: engine_createsD(1) split: if_splits option.splits)


section \<open>Nesting\<close>

lemma infer_first_not_null: "infer_first env depth es = Inr t \<Longrightarrow> \<exists>v \<in> snd ` set es. v \<noteq> Z_null"
  by (induction es) (auto split: if_splits)

lemma members_nesting_bound:
  "(\<forall>(n, t) \<in> set ms. nesting t + Suc d \<le> b) \<Longrightarrow> ms \<noteq> [] \<Longrightarrow> nesting (struct_of ms) + d \<le> b"
  by (induction ms) (fastforce simp: struct_of_def)+

lemma convert_nesting:
  "engine_creates env \<Longrightarrow> duckdb_php_to_duckdb_value_depth env depth v = Inr x
     \<Longrightarrow> nesting (duckdb_get_value_type x) + depth \<le> max_nesting_depth"
  "engine_creates env \<Longrightarrow> convert_elements env depth t i es = Inr xs \<Longrightarrow> inferred_type t
     \<Longrightarrow> \<exists>v \<in> snd ` set es. v \<noteq> Z_null \<Longrightarrow> nesting t + depth \<le> max_nesting_depth"
  "engine_creates env \<Longrightarrow> convert_members env depth es = Inr ms
     \<Longrightarrow> \<forall>m \<in> set ms. nesting (snd (fst m)) + depth \<le> max_nesting_depth"
proof (induction env depth v and env depth t i es and env depth es arbitrary: x and xs and ms
    rule: duckdb_php_to_duckdb_value_depth_convert_elements_convert_members.induct)
  case (8 env depth h es)
  show ?case
  proof (cases "zend_array_is_list es")
    case True
    then obtain t xs where t: "infer_first env (Suc depth) es = Inr t" "convert_elements env (Suc depth) t 0 es = Inr xs"
        "x = V_list t xs" "\<not> max_nesting_depth < depth" "es \<noteq> []"
      using "8.prems" by (auto simp: rbind_eq_Inr list_child_type_def engine_createsD(2) split: if_splits sum.splits failure.splits)
    then have "nesting t + Suc depth \<le> max_nesting_depth"
      using "8.IH"(1) True "8.prems" infer_inferred(2) [of env "Suc depth" es t] infer_first_not_null [OF t(1)]
      by (simp add: list_child_type_def)
    then show ?thesis using t(3) by simp
  next
    case False
    then obtain ms where m: "convert_members env (Suc depth) es = Inr ms" "\<not> max_nesting_depth < depth"
        "x = V_struct (struct_of (map fst ms)) (map snd ms)"
      using "8.prems" by (auto simp: rbind_eq_Inr engine_createsD(3,4) split: if_splits)
    moreover have "ms \<noteq> []"
    proof -
      obtain k v es' where "es = (k, v) # es'" using False by (cases es) (auto simp: zend_array_is_list_def)
      then show ?thesis using m(1) by (auto simp: rbind_eq_Inr)
    qed
    ultimately show ?thesis
      using "8.IH"(2) False "8.prems" members_nesting_bound [of "map fst ms" depth max_nesting_depth] by (auto simp: case_prod_unfold)
  qed
next
  case (14 env depth t i k v es)
  then obtain x xs' where x: "duckdb_php_to_duckdb_value_depth env depth v = Inr x" "convert_elements env depth t (Suc i) es = Inr xs'"
      "v = Z_null \<or> duckdb_logical_types_equal t (duckdb_get_value_type x)"
    by (auto simp: rbind_eq_Inr split: if_splits)
  show ?case
  proof (cases "v = Z_null")
    case True
    then show ?thesis using "14.IH"(2) [OF x(1)] x "14.prems" by auto
  next
    case False
    then have "inferred_type (duckdb_get_value_type x)"
      using value_type_inferred [of env depth v x] infer_inferred(1) [of env depth v] x(1) "14.prems" by simp
    then have "t = duckdb_get_value_type x" using False x(3) types_equal_iff(1) "14.prems" by blast
    then show ?thesis using "14.IH"(1) x(1) "14.prems" by simp
  qed
next
  case (16 env depth k v es)
  then obtain t x ms' where x: "(if v = Z_null then prim T_VARCHAR else duckdb_php_infer_logical_type env depth v) = Inr t"
      "duckdb_php_to_duckdb_value_depth env depth v = Inr x" "convert_members env depth es = Inr ms'"
      "ms = ((key_text k, t), x) # ms'"
    by (auto simp: rbind_eq_Inr)
  have own: "nesting (duckdb_get_value_type x) + depth \<le> max_nesting_depth" using "16.IH"(1) [OF x(1)] x(2) "16.prems" by simp
  have "nesting t + depth \<le> max_nesting_depth"
    using own x(1,2) value_type_inferred [of env depth v x] "16.prems" by (cases "v = Z_null") (auto simp: prim_def)
  then show ?case using "16.IH"(2) [OF x(1,2)] x "16.prems" by simp
qed (auto simp: duckdb_php_datetime_to_value_def cannot_convert_object_def dest!: engine_createsD(1) split: if_splits option.splits)

text \<open>
  C23. A PHP value that converts comes back. Whatever the conversion accepts, lists, structs, NULLs and nesting
  included, is decoded from a column holding the converted value as the same scalars, lists and arrays, with the same keys
  in the same order; only that a key with a NUL byte ends before it, and that entries whose keys become equal that
  way are one, with the last value. Without such keys it is an equal PHP value. Dates, which depend on the calendar, are left
  out.
\<close>

theorem convert_roundtrip:
  assumes "engine_creates env" "php_wf v" "duckdb_php_to_duckdb_value env v = Inr x"
  shows "duckdb_decode_value denv 0 (duckdb_get_value_type x) (vector_of (duckdb_get_value_type x) [value_sql x]) 0 = dret (cut_keys v)
     \<and> (nul_free v \<longrightarrow> cut_keys v = fresh v)"
proof -
  have c: "duckdb_php_to_duckdb_value_depth env 0 v = Inr x" using assms(3) by (simp add: duckdb_php_to_duckdb_value_def)
  have "typed (duckdb_get_value_type x) (value_sql x)"
    and "php_value denv (duckdb_get_value_type x) (value_sql x) = dret (cut_keys v)"
    using convert_comes_back(1) [OF assms(1) c assms(2)] by (simp_all add: comes_back_def)
  then show ?thesis
    using decode_stored [of "[value_sql x]" "duckdb_get_value_type x" 0 0 denv] convert_nesting(1) [OF assms(1) c]
      cut_keys_fresh(1) [OF assms(2)] by simp
qed

definition sample_convert_env :: convert_env where
  "sample_convert_env = \<lparr>ce_varchar = (\<lambda>s. Some (V_varchar s)), ce_list_value = (\<lambda>t vs. Some (V_list t vs)),
     ce_struct_type = (\<lambda>ms. Some (struct_of ms)), ce_struct_value = (\<lambda>t vs. Some (V_struct t vs))\<rparr>"

lemma sample_creates: "engine_creates sample_convert_env"
  by (simp add: engine_creates_def sample_convert_env_def)

definition sample_php :: zval where
  "sample_php = Z_array 3 [(K_int 0, Z_null), (K_int 1, Z_array 4 [(K_str ''a'', Z_long 7), (K_str ''b'', Z_null)])]"

lemma sample_php_wf: "php_wf sample_php"
proof -
  have "symtable_key ''a'' = K_str ''a''" "symtable_key ''b'' = K_str ''b''" by code_simp+
  then show ?thesis by (simp add: sample_php_def key_ok_def long_bounds)
qed

lemma sample_php_nul_free: "nul_free sample_php"
  by (simp add: sample_php_def key_text_def dec_int_no_nul)

lemma convert_roundtrip_witness:
  "\<exists>x. duckdb_php_to_duckdb_value sample_convert_env sample_php = Inr x
     \<and> duckdb_decode_value sample_env 0 (duckdb_get_value_type x) (vector_of (duckdb_get_value_type x) [value_sql x]) 0
       = dret (fresh sample_php)"
proof -
  let ?t = "struct_of [(''a'', LT_prim T_BIGINT None), (''b'', LT_prim T_VARCHAR None)]"
  have "duckdb_php_to_duckdb_value sample_convert_env sample_php = Inr (V_list ?t [V_null, V_struct ?t [V_int64 7, V_null]])"
    by code_simp
  then show ?thesis using convert_roundtrip [OF sample_creates sample_php_wf, of _ sample_env] sample_php_nul_free by fastforce
qed

text \<open>A key with a NUL byte is accepted and not kept: these two arrays become the same native value.\<close>

lemma nul_key_is_cut:
  "duckdb_php_to_duckdb_value sample_convert_env (Z_array 1 [(K_str [CHR ''a'', CHR 0x00, CHR ''b''], Z_long 7)]) =
   duckdb_php_to_duckdb_value sample_convert_env (Z_array 1 [(K_str ''a'', Z_long 7)])"
  "\<exists>x. duckdb_php_to_duckdb_value sample_convert_env (Z_array 1 [(K_str ''a'', Z_long 7)]) = Inr x"
proof -
  have "duckdb_php_to_duckdb_value sample_convert_env (Z_array 1 [(K_str [CHR ''a'', CHR 0x00, CHR ''b''], Z_long 7)]) =
      Inr (V_struct (struct_of [(''a'', LT_prim T_BIGINT None)]) [V_int64 7])"
    "duckdb_php_to_duckdb_value sample_convert_env (Z_array 1 [(K_str ''a'', Z_long 7)]) =
      Inr (V_struct (struct_of [(''a'', LT_prim T_BIGINT None)]) [V_int64 7])"
    by code_simp+
  then show "duckdb_php_to_duckdb_value sample_convert_env (Z_array 1 [(K_str [CHR ''a'', CHR 0x00, CHR ''b''], Z_long 7)]) =
   duckdb_php_to_duckdb_value sample_convert_env (Z_array 1 [(K_str ''a'', Z_long 7)])"
    "\<exists>x. duckdb_php_to_duckdb_value sample_convert_env (Z_array 1 [(K_str ''a'', Z_long 7)]) = Inr x" by simp_all
qed


section \<open>What converts\<close>

text \<open>
  A specification without depth counters or native calls: the type of a PHP value, if it has one. All
  elements of a list that are not null have one type; a null member of a struct is a VARCHAR.
\<close>

fun php_type :: "convert_env \<Rightarrow> zval \<Rightarrow> ltype option"
  and element_types :: "convert_env \<Rightarrow> (php_key \<times> zval) list \<Rightarrow> ltype option list"
  and member_types :: "convert_env \<Rightarrow> (php_key \<times> zval) list \<Rightarrow> (string \<times> ltype) list option" where
  "php_type env (Z_bool b) = Some (LT_prim T_BOOLEAN None)"
| "php_type env (Z_long i) = Some (LT_prim T_BIGINT None)"
| "php_type env (Z_double d) = Some (LT_prim T_DOUBLE None)"
| "php_type env (Z_string s) = (if ce_varchar env s = None then None else Some (LT_prim T_VARCHAR None))"
| "php_type env (Z_interval iv) = Some (LT_prim T_INTERVAL None)"
| "php_type env (Z_datetime im t) =
     (case duckdb_php_datetime_to_value t of Inl f \<Rightarrow> None | Inr x \<Rightarrow> Some (LT_prim T_TIMESTAMP None))"
| "php_type env (Z_array h es) =
     (if zend_array_is_list es
      then (case element_types env es of
              [] \<Rightarrow> None
            | ot # ots \<Rightarrow> if \<forall>o' \<in> set ots. o' = ot then map_option (\<lambda>t. LT_list (Some t)) ot else None)
      else map_option struct_of (member_types env es))"
| "php_type env Z_null = None"
| "php_type env (Z_value ty x) = None"
| "php_type env (Z_object name) = None"
| "php_type env Z_resource = None"
| "php_type env (Z_reference v) = None"
| "element_types env [] = []"
| "element_types env ((k, v) # es) = (if v = Z_null then element_types env es else php_type env v # element_types env es)"
| "member_types env [] = Some []"
| "member_types env ((k, v) # es) =
     (case (if v = Z_null then Some (LT_prim T_VARCHAR None) else php_type env v) of
        None \<Rightarrow> None
      | Some t \<Rightarrow> map_option (\<lambda>ms. (key_text k, t) # ms) (member_types env es))"

fun php_depth :: "zval \<Rightarrow> nat" and entries_depth :: "(php_key \<times> zval) list \<Rightarrow> nat" where
  "php_depth (Z_array h es) = Suc (entries_depth es)"
| "php_depth v = 0"
| "entries_depth [] = 0"
| "entries_depth ((k, v) # es) = max (php_depth v) (entries_depth es)"

lemma infer_php_type:
  "engine_creates env \<Longrightarrow> php_type env v = Some t \<Longrightarrow> depth + php_depth v \<le> max_nesting_depth
     \<Longrightarrow> duckdb_php_infer_logical_type env depth v = Inr t"
  "engine_creates env \<Longrightarrow> element_types env es = Some t # ts \<Longrightarrow> depth + entries_depth es \<le> max_nesting_depth
     \<Longrightarrow> infer_first env depth es = Inr t"
  "engine_creates env \<Longrightarrow> member_types env es = Some ms \<Longrightarrow> depth + entries_depth es \<le> max_nesting_depth
     \<Longrightarrow> infer_members env depth es = Inr ms"
proof (induction env v and env es and env es arbitrary: t depth and t ts depth and ms depth
    rule: php_type_element_types_member_types.induct)
  case (7 env h es)
  show ?case
  proof (cases "zend_array_is_list es")
    case True
    then obtain u us where "element_types env es = Some u # us" "t = LT_list (Some u)"
      using "7.prems" by (auto split: list.splits if_splits)
    moreover from this have "es \<noteq> []" by auto
    ultimately show ?thesis using "7.IH"(1) True "7.prems" by simp
  next
    case False
    then have "es \<noteq> []" by (auto simp: zend_array_is_list_def)
    then show ?thesis using "7.IH"(2) False "7.prems" by (auto simp: engine_createsD(3))
  qed
next
  case (14 env k v es)
  then show ?case by (auto split: if_splits)
next
  case (16 env k v es)
  then show ?case by (auto simp: prim_def split: if_splits option.splits)
qed (auto simp: prim_def split: if_splits sum.splits)

lemma element_types_Nil: "element_types env es = [] \<longleftrightarrow> (\<forall>v \<in> snd ` set es. v = Z_null)"
  by (induction es) (auto split: if_splits)

lemma types_equal_refl: "inferred_type t \<Longrightarrow> duckdb_logical_types_equal t t"
  by (simp add: types_equal_iff(1))

text \<open>Conversion succeeds exactly on the values the specification accepts, with the type it gives.\<close>

lemma convert_php_type:
  "engine_creates env \<Longrightarrow> duckdb_php_to_duckdb_value_depth env depth v = Inr x \<Longrightarrow> v \<noteq> Z_null
     \<Longrightarrow> php_type env v = Some (duckdb_get_value_type x) \<and> depth + php_depth v \<le> max_nesting_depth"
  "engine_creates env \<Longrightarrow> convert_elements env depth t i es = Inr xs \<Longrightarrow> inferred_type t
     \<Longrightarrow> (\<forall>o' \<in> set (element_types env es). o' = Some t) \<and> (es \<noteq> [] \<longrightarrow> depth + entries_depth es \<le> max_nesting_depth)"
  "engine_creates env \<Longrightarrow> convert_members env depth es = Inr ms
     \<Longrightarrow> member_types env es = Some (map fst ms) \<and> (es \<noteq> [] \<longrightarrow> depth + entries_depth es \<le> max_nesting_depth)"
proof (induction env depth v and env depth t i es and env depth es arbitrary: x and xs and ms
    rule: duckdb_php_to_duckdb_value_depth_convert_elements_convert_members.induct)
  case (8 env depth h es)
  show ?case
  proof (cases "zend_array_is_list es")
    case True
    then obtain t xs where t: "infer_first env (Suc depth) es = Inr t" "convert_elements env (Suc depth) t 0 es = Inr xs"
        "x = V_list t xs" "\<not> max_nesting_depth < depth" "es \<noteq> []"
      using "8.prems" by (auto simp: rbind_eq_Inr list_child_type_def engine_createsD(2) split: if_splits sum.splits failure.splits)
    then have e: "\<forall>o' \<in> set (element_types env es). o' = Some t" "Suc depth + entries_depth es \<le> max_nesting_depth"
      using "8.IH"(1) True "8.prems" infer_inferred(2) [of env "Suc depth" es t] by (simp_all add: list_child_type_def)
    obtain v where "v \<in> snd ` set es" "v \<noteq> Z_null" using infer_first_not_null [OF t(1)] by blast
    then have "element_types env es \<noteq> []" by (auto simp: element_types_Nil)
    then obtain ts where "element_types env es = Some t # ts" "\<forall>o' \<in> set ts. o' = Some t"
      using e(1) by (cases "element_types env es") auto
    then show ?thesis using True e(2) t(3) by simp
  next
    case False
    then obtain ms where m: "convert_members env (Suc depth) es = Inr ms" "\<not> max_nesting_depth < depth"
        "x = V_struct (struct_of (map fst ms)) (map snd ms)"
      using "8.prems" by (auto simp: rbind_eq_Inr engine_createsD(3,4) split: if_splits)
    moreover have "es \<noteq> []" using False by (auto simp: zend_array_is_list_def)
    ultimately show ?thesis using "8.IH"(2) False "8.prems" by simp
  qed
next
  case (14 env depth t i k v es)
  then obtain x xs' where x: "duckdb_php_to_duckdb_value_depth env depth v = Inr x" "convert_elements env depth t (Suc i) es = Inr xs'"
      "v = Z_null \<or> duckdb_logical_types_equal t (duckdb_get_value_type x)"
    by (auto simp: rbind_eq_Inr split: if_splits)
  note rest = "14.IH"(2) [OF x(1) _ "14.prems"(1) x(2) "14.prems"(3)]
  have d: "depth \<le> max_nesting_depth" using x(1) by (cases v) (auto split: if_splits)
  show ?case
  proof (cases "v = Z_null")
    case True
    then show ?thesis using rest d by (cases "es = []") auto
  next
    case False
    have "inferred_type (duckdb_get_value_type x)"
      using value_type_inferred [of env depth v x] infer_inferred(1) [of env depth v] x(1) "14.prems" False by simp
    then have "t = duckdb_get_value_type x" using False x(3) types_equal_iff(1) "14.prems" by blast
    then show ?thesis using "14.IH"(1) [OF "14.prems"(1) x(1) False] rest types_equal_refl "14.prems" d False
      by (cases "es = []") auto
  qed
next
  case (16 env depth k v es)
  then obtain t x ms' where x: "(if v = Z_null then prim T_VARCHAR else duckdb_php_infer_logical_type env depth v) = Inr t"
      "duckdb_php_to_duckdb_value_depth env depth v = Inr x" "convert_members env depth es = Inr ms'"
      "ms = ((key_text k, t), x) # ms'"
    by (auto simp: rbind_eq_Inr)
  note rest = "16.IH"(2) [OF x(1,2) "16.prems"(1) x(3)]
  have d: "depth \<le> max_nesting_depth" using x(2) by (cases v) (auto split: if_splits)
  show ?case
  proof (cases "v = Z_null")
    case True
    then show ?thesis using rest d x by (cases "es = []") (auto simp: prim_def)
  next
    case False
    then show ?thesis using "16.IH"(1) [OF x(1) "16.prems"(1) x(2) False] rest d x value_type_inferred [of env depth v x] "16.prems"
      by (cases "es = []") auto
  qed
qed (auto simp: cannot_convert_object_def duckdb_php_datetime_to_value_def dest!: engine_createsD(1)
    split: if_splits option.splits)


lemma php_type_converts:
  "engine_creates env \<Longrightarrow> php_type env v = Some t \<Longrightarrow> depth + php_depth v \<le> max_nesting_depth
     \<Longrightarrow> \<exists>x. duckdb_php_to_duckdb_value_depth env depth v = Inr x"
  "engine_creates env \<Longrightarrow> \<forall>o' \<in> set (element_types env es). o' = Some t \<Longrightarrow> depth + entries_depth es \<le> max_nesting_depth
     \<Longrightarrow> inferred_type t \<Longrightarrow> \<exists>xs. convert_elements env depth t i es = Inr xs"
  "engine_creates env \<Longrightarrow> member_types env es = Some ms \<Longrightarrow> depth + entries_depth es \<le> max_nesting_depth
     \<Longrightarrow> \<exists>xs. convert_members env depth es = Inr xs"
proof (induction env v and env es and env es arbitrary: t depth and t depth i and ms depth
    rule: php_type_element_types_member_types.induct)
  case (7 env h es)
  have d: "\<not> max_nesting_depth < depth" "Suc depth + entries_depth es \<le> max_nesting_depth" using "7.prems"(3) by simp_all
  show ?case
  proof (cases "zend_array_is_list es")
    case True
    then obtain u us where u: "element_types env es = Some u # us" "\<forall>o' \<in> set us. o' = Some u"
      using "7.prems" by (auto split: list.splits if_splits)
    then have first: "infer_first env (Suc depth) es = Inr u"
      using infer_php_type(2) "7.prems"(1) d(2) by blast
    then obtain xs where "convert_elements env (Suc depth) u 0 es = Inr xs"
      using "7.IH"(1) [OF True "7.prems"(1) _ d(2), of u 0] u infer_inferred(2) "7.prems"(1) by fastforce
    moreover have "es \<noteq> []" using u(1) by auto
    ultimately show ?thesis using True first d(1) "7.prems"(1) by (simp add: list_child_type_def engine_createsD(2))
  next
    case False
    then obtain ms where "member_types env es = Some ms" using "7.prems" by auto
    then obtain xs where "convert_members env (Suc depth) es = Inr xs" using "7.IH"(2) False "7.prems"(1) d(2) by blast
    then show ?thesis using False d(1) "7.prems"(1) by (simp add: engine_createsD(3,4))
  qed
next
  case (14 env k v es)
  show ?case
  proof (cases "v = Z_null")
    case True
    then show ?thesis using "14.IH"(1) [OF True "14.prems"(1), of t depth "Suc i"] "14.prems" by auto
  next
    case False
    have pt: "php_type env v = Some t" and d: "depth + php_depth v \<le> max_nesting_depth" using "14.prems" False by auto
    then obtain x where x: "duckdb_php_to_duckdb_value_depth env depth v = Inr x" using "14.IH"(2) False "14.prems"(1) by blast
    then have "duckdb_get_value_type x = t" using convert_php_type(1) "14.prems"(1) False pt by fastforce
    moreover obtain xs where "convert_elements env depth t (Suc i) es = Inr xs"
    proof -
      have "depth + entries_depth es \<le> max_nesting_depth" using "14.prems"(3) by simp
      then show ?thesis using "14.IH"(3) [OF False "14.prems"(1), of t depth "Suc i"] "14.prems"(2,4) False that by auto
    qed
    ultimately show ?thesis using x types_equal_refl "14.prems"(4) by simp
  qed
next
  case (16 env k v es)
  then obtain u us where u: "(if v = Z_null then Some (LT_prim T_VARCHAR None) else php_type env v) = Some u"
      "member_types env es = Some us"
    by (auto split: option.splits)
  have d: "depth + php_depth v \<le> max_nesting_depth" "depth + entries_depth es \<le> max_nesting_depth" using "16.prems"(3) by simp_all
  obtain xs where xs: "convert_members env depth es = Inr xs" using "16.IH"(2) [OF u(1) "16.prems"(1) u(2) d(2)] by blast
  show ?case
  proof (cases "v = Z_null")
    case True
    then show ?thesis using xs d by (simp add: prim_def)
  next
    case False
    then have "duckdb_php_infer_logical_type env depth v = Inr u" using u(1) d(1) infer_php_type(1) "16.prems"(1) by simp
    moreover obtain x where "duckdb_php_to_duckdb_value_depth env depth v = Inr x"
      using "16.IH"(1) [OF False "16.prems"(1)] u(1) d(1) False by auto
    ultimately show ?thesis using False xs by simp
  qed
qed (auto split: if_splits sum.splits)

text \<open>
  Which PHP values convert. The conversion succeeds exactly on null and on the values the specification
  gives a type, nested at most 512 levels, and the native value has that type. In particular an element of
  another type than the first one is refused, wherever in the list it is.
\<close>

theorem convert_accepts_iff:
  assumes "engine_creates env" "v \<noteq> Z_null"
  shows "(\<exists>x. duckdb_php_to_duckdb_value env v = Inr x \<and> duckdb_get_value_type x = t)
     \<longleftrightarrow> php_type env v = Some t \<and> php_depth v \<le> max_nesting_depth"
  using convert_php_type(1) [OF assms(1), of 0 v] php_type_converts(1) [OF assms(1), of v t 0] assms(2)
  unfolding duckdb_php_to_duckdb_value_def by fastforce

lemma convert_accepts_iff_witness:
  "\<not> (\<exists>x. duckdb_php_to_duckdb_value sample_convert_env (Z_array 1 [(K_int 0, Z_long 1), (K_int 1, Z_bool True)]) = Inr x
        \<and> duckdb_get_value_type x = LT_list (Some (LT_prim T_BIGINT None)))"
  using convert_accepts_iff [OF sample_creates, of "Z_array 1 [(K_int 0, Z_long 1), (K_int 1, Z_bool True)]"]
  by (simp add: zend_array_is_list_def upt_rec)

text \<open>
  A struct whose member has no inferable type fails without an exception, while the same array in a list
  throws: the caller returns null as if it had succeeded.
\<close>

lemma struct_member_fails_silently:
  "duckdb_php_to_duckdb_value env (Z_array 1 [(K_str ''a'', Z_array 2 [])]) = Inl F_silent"
  "\<exists>t. duckdb_php_to_duckdb_value env (Z_array 1 [(K_int 0, Z_array 2 [])]) = Inl (F_throws t)"
  by (simp_all add: duckdb_php_to_duckdb_value_def zend_array_is_list_def max_nesting_depth_def list_child_type_def)

end
