(* ===== verification/Session.thy ===== *)
theory Session
  imports Prelude Transitions Errors Connection
begin

text \<open>
  Callback sessions, \<open>src/src/copy_session.cpp\<close> and \<open>src/src/copy_session.h\<close>: the queue through which DuckDB's threads hand
  PHP work to the request thread, and the lease under which the request thread serves it while the
  connection's helper thread runs DuckDB.

  Every section under the session's mutex is one step. Requests are numbered in the order of submission; a
  request keeps, besides the code's flags, how often its work ran and what \<open>submit\<close> returned to its
  thread. Clocks are integers in nanoseconds. The publication of sessions by connection id, the finish hook of
  the COPY layer and the switches for tests are left out.
\<close>

section \<open>State\<close>

record request =
  rq_queued_at :: int
  rq_started :: bool
  rq_finished :: bool
  rq_runs :: nat
  rq_reply :: "(bool \<times> string) option"

record session =
  se_open :: bool
  se_reason :: string
  se_queue :: "nat list"
  se_requests :: "request list"
  se_running :: "nat option"

definition new_session :: session where
  "new_session = \<lparr>se_open = True, se_reason = [], se_queue = [], se_requests = [], se_running = None\<rparr>"

text \<open>The request thread as its sessions see it: which one it serves, and since when it serves no other.\<close>

record driver =
  dr_serving :: "nat option"
  dr_away_since :: int

definition unserviced_for :: "int \<Rightarrow> driver \<Rightarrow> nat \<Rightarrow> int \<Rightarrow> int" where
  "unserviced_for now d n queued_at =
     (if dr_away_since d = 0 \<or> dr_serving d = Some n then 0 else now - max (dr_away_since d) queued_at)"

text \<open>\<open>driver_away\<close>: entering a lease or a DuckDB call, and restoring the outer state.\<close>

definition driver_enter :: "int \<Rightarrow> nat option \<Rightarrow> driver \<Rightarrow> driver" where
  "driver_enter now serving d = \<lparr>dr_serving = serving, dr_away_since = now\<rparr>"

definition driver_leave :: "driver \<Rightarrow> driver \<Rightarrow> driver" where
  "driver_leave outer d = d\<lparr>dr_serving := dr_serving outer, dr_away_since := dr_away_since outer\<rparr>"

section \<open>Operations\<close>

abbreviation set_request :: "nat \<Rightarrow> request \<Rightarrow> session \<Rightarrow> session" where
  "set_request i r s \<equiv> s\<lparr>se_requests := (se_requests s)[i := r]\<rparr>"

definition session_close :: "string \<Rightarrow> session \<Rightarrow> session" where
  "session_close reason s = (if se_open s then s\<lparr>se_open := False, se_reason := reason, se_queue := []\<rparr> else s)"

definition closed_reason :: "session \<Rightarrow> string" where
  "closed_reason s = (if se_open s then [] else se_reason s)"

definition abandoned :: string where
  "abandoned = ''COPY callback abandoned: the driving thread stayed inside DuckDB too long''"

definition new_request :: "int \<Rightarrow> request" where
  "new_request now = \<lparr>rq_queued_at = now, rq_started = False, rq_finished = False, rq_runs = 0, rq_reply = None\<rparr>"

text \<open>The head of \<open>submit\<close>: the refusal, or the queued request.\<close>

definition submit_begin :: "int \<Rightarrow> session \<Rightarrow> (string, session) result" where
  "submit_begin now s =
     (if \<not> se_open s then Inl (se_reason s)
      else Inr (s\<lparr>se_queue := se_queue s @ [length (se_requests s)], se_requests := se_requests s @ [new_request now]\<rparr>))"

text \<open>One round of \<open>submit\<close>'s waiting loop.\<close>

definition submit_poll :: "int \<Rightarrow> int \<Rightarrow> driver \<Rightarrow> nat \<Rightarrow> nat \<Rightarrow> session \<Rightarrow> session" where
  "submit_poll limit now d n i s =
     (let r = se_requests s ! i
      in if rq_finished r then set_request i (r\<lparr>rq_reply := Some (True, [])\<rparr>) s
         else if rq_started r then s
         else if \<not> se_open s then set_request i (r\<lparr>rq_reply := Some (False, se_reason s)\<rparr>) s
         else if unserviced_for now d n (rq_queued_at r) > limit
         then set_request i (r\<lparr>rq_reply := Some (False, abandoned)\<rparr>) (session_close abandoned s)
         else s)"

text \<open>\<open>service\<close>: taking the next request, running its work, and marking it finished.\<close>

definition service_take :: "session \<Rightarrow> session option" where
  "service_take s =
     (if \<not> se_open s then None
      else case se_queue s of
        [] \<Rightarrow> None
      | i # q \<Rightarrow> Some ((set_request i ((se_requests s ! i)\<lparr>rq_started := True\<rparr>) s)\<lparr>se_queue := q, se_running := Some i\<rparr>))"

definition service_work :: "nat \<Rightarrow> session \<Rightarrow> session" where
  "service_work i s = set_request i ((se_requests s ! i)\<lparr>rq_runs := rq_runs (se_requests s ! i) + 1\<rparr>) s"

definition service_finish :: "nat \<Rightarrow> session \<Rightarrow> session" where
  "service_finish i s = (set_request i ((se_requests s ! i)\<lparr>rq_finished := True\<rparr>) s)\<lparr>se_running := None\<rparr>"

section \<open>Interleavings\<close>

text \<open>
  One session with number \<open>n\<close>. \<open>pu_leased\<close>: the request thread is inside a lease on it; \<open>pu_done\<close>: the
  helper's work of that lease has returned.
\<close>

record pump =
  pu_session :: session
  pu_driver :: driver
  pu_now :: int
  pu_leased :: bool
  pu_done :: bool

abbreviation on_session :: "(session \<Rightarrow> session) \<Rightarrow> pump \<Rightarrow> pump" where
  "on_session f p \<equiv> p\<lparr>pu_session := f (pu_session p)\<rparr>"

abbreviation waits :: "nat \<Rightarrow> pump \<Rightarrow> bool" where
  "waits i p \<equiv> i < length (se_requests (pu_session p)) \<and> rq_reply (se_requests (pu_session p) ! i) = None"

text \<open>Steps of the threads that are already at work on the session.\<close>

inductive serve_step :: "int \<Rightarrow> nat \<Rightarrow> pump \<Rightarrow> pump \<Rightarrow> bool" for limit n where
  polls: "waits i p \<Longrightarrow> serve_step limit n p (on_session (submit_poll limit (pu_now p) (pu_driver p) n i) p)"
| takes: "pu_leased p \<Longrightarrow> se_running (pu_session p) = None \<Longrightarrow> service_take (pu_session p) = Some s
     \<Longrightarrow> serve_step limit n p (p\<lparr>pu_session := s\<rparr>)"
| works: "se_running (pu_session p) = Some i \<Longrightarrow> rq_runs (se_requests (pu_session p) ! i) = 0
     \<Longrightarrow> serve_step limit n p (on_session (service_work i) p)"
| finishes: "se_running (pu_session p) = Some i \<Longrightarrow> rq_runs (se_requests (pu_session p) ! i) = 1
     \<Longrightarrow> serve_step limit n p (on_session (service_finish i) p)"

text \<open>
  All steps. A lease ends when its work has returned and no request waits in the open session. Anything may close
  the session; the request thread enters and leaves leases and DuckDB calls of other sessions as it likes.
\<close>

inductive session_step :: "int \<Rightarrow> nat \<Rightarrow> pump \<Rightarrow> pump \<Rightarrow> bool" for limit n where
  serves: "serve_step limit n p p' \<Longrightarrow> session_step limit n p p'"
| submits: "submit_begin (pu_now p) (pu_session p) = Inr s \<Longrightarrow> session_step limit n p (p\<lparr>pu_session := s\<rparr>)"
| closes: "session_step limit n p (on_session (session_close reason) p)"
| lease_begins: "\<not> pu_leased p \<Longrightarrow> session_step limit n p
     (p\<lparr>pu_leased := True, pu_done := False, pu_driver := driver_enter (pu_now p) (Some n) (pu_driver p)\<rparr>)"
| helper_returns: "pu_leased p \<Longrightarrow> session_step limit n p (p\<lparr>pu_done := True\<rparr>)"
| lease_ends: "pu_leased p \<Longrightarrow> pu_done p \<Longrightarrow> se_running (pu_session p) = None
     \<Longrightarrow> \<not> (se_open (pu_session p) \<and> se_queue (pu_session p) \<noteq> [])
     \<Longrightarrow> session_step limit n p (p\<lparr>pu_leased := False, pu_driver := driver_leave outer (pu_driver p)\<rparr>)"
| elsewhere: "dr_serving d \<noteq> Some n \<or> pu_leased p \<Longrightarrow> session_step limit n p (p\<lparr>pu_driver := d\<rparr>)"
| time: "pu_now p \<le> now \<Longrightarrow> session_step limit n p (p\<lparr>pu_now := now\<rparr>)"

inductive session_reachable :: "int \<Rightarrow> nat \<Rightarrow> pump \<Rightarrow> bool" for limit n where
  start: "session_reachable limit n \<lparr>pu_session = new_session, pu_driver = d, pu_now = now, pu_leased = False, pu_done = False\<rparr>"
| step: "session_reachable limit n p \<Longrightarrow> session_step limit n p p' \<Longrightarrow> session_reachable limit n p'"

section \<open>The invariant\<close>

definition req_ok :: "bool \<Rightarrow> nat list \<Rightarrow> nat option \<Rightarrow> nat \<Rightarrow> request \<Rightarrow> bool" where
  "req_ok opn q cur i r \<longleftrightarrow>
     (i \<in> set q \<longrightarrow> \<not> rq_started r \<and> rq_reply r = None)
   \<and> (opn \<and> \<not> rq_started r \<longrightarrow> i \<in> set q)
   \<and> (cur = Some i \<longleftrightarrow> rq_started r \<and> \<not> rq_finished r)
   \<and> (rq_finished r \<longrightarrow> rq_started r \<and> rq_runs r = 1)
   \<and> (\<not> rq_started r \<longrightarrow> rq_runs r = 0)
   \<and> rq_runs r \<le> 1
   \<and> (case rq_reply r of None \<Rightarrow> True | Some (ok, m) \<Rightarrow> if ok then rq_finished r else \<not> rq_started r \<and> \<not> opn)"

definition session_ok :: "session \<Rightarrow> bool" where
  "session_ok s \<longleftrightarrow> distinct (se_queue s) \<and> set (se_queue s) \<subseteq> {..<length (se_requests s)}
     \<and> (\<not> se_open s \<longrightarrow> se_queue s = []) \<and> (\<forall>i. se_running s = Some i \<longrightarrow> i < length (se_requests s))
     \<and> (\<forall>i < length (se_requests s). req_ok (se_open s) (se_queue s) (se_running s) i (se_requests s ! i))"

lemma session_okD:
  "session_ok s \<Longrightarrow> i < length (se_requests s) \<Longrightarrow> req_ok (se_open s) (se_queue s) (se_running s) i (se_requests s ! i)"
  by (simp add: session_ok_def)

text \<open>A step of request \<open>i\<close> that leaves queue and running marks of the others alone.\<close>

lemma session_ok_set:
  assumes "session_ok s" "i < length (se_requests s)" "se_requests s' = (se_requests s)[i := r]" "se_open s' = se_open s"
    "distinct (se_queue s')" "set (se_queue s') - {i} = set (se_queue s) - {i}" "i \<in> set (se_queue s') \<longrightarrow> i \<in> set (se_queue s)"
    "\<And>j. j \<noteq> i \<Longrightarrow> se_running s' = Some j \<longleftrightarrow> se_running s = Some j"
    "req_ok (se_open s') (se_queue s') (se_running s') i r"
  shows "session_ok s'"
proof -
  have sub: "set (se_queue s') \<subseteq> set (se_queue s)" using assms(6,7) by blast
  have "req_ok (se_open s') (se_queue s') (se_running s') j (se_requests s ! j)" if "j < length (se_requests s)" "j \<noteq> i" for j
  proof -
    have "j \<in> set (se_queue s') \<longleftrightarrow> j \<in> set (se_queue s)" using assms(6) that(2) by blast
    then show ?thesis using session_okD [OF assms(1) that(1)] assms(4) assms(8) [OF that(2)] by (simp add: req_ok_def)
  qed
  moreover have "se_queue s' = []" if "\<not> se_open s'"
    using that sub assms(1,4) by (simp add: session_ok_def)
  moreover have "j < length (se_requests s)" if "se_running s' = Some j" for j
    using that assms(1,2) assms(8) [of j] by (cases "j = i") (auto simp: session_ok_def)
  ultimately show ?thesis
    using assms(1,2,3,5,9) sub by (auto simp: session_ok_def nth_list_update)
qed

lemma session_close_ok: "session_ok s \<Longrightarrow> session_ok (session_close reason s)"
proof (cases "se_open s")
  case True
  assume ok: "session_ok s"
  have "req_ok False [] (se_running s) i (se_requests s ! i)" if "i < length (se_requests s)" for i
    using session_okD [OF ok that] True by (auto simp: req_ok_def split: option.splits)
  then show ?thesis using ok True by (simp add: session_close_def session_ok_def)
qed (simp add: session_close_def)

lemma submit_begin_ok:
  assumes "session_ok s" "submit_begin now s = Inr s'"
  shows "session_ok s'"
proof -
  have opn: "se_open s" and s': "s' = s\<lparr>se_queue := se_queue s @ [length (se_requests s)], se_requests := se_requests s @ [new_request now]\<rparr>"
    using assms(2) by (simp_all add: submit_begin_def split: if_splits)
  have "req_ok True (se_queue s @ [length (se_requests s)]) (se_running s) i (se_requests s ! i)" if "i < length (se_requests s)" for i
    using session_okD [OF assms(1) that] opn that by (auto simp: req_ok_def)
  moreover have "req_ok True (se_queue s @ [length (se_requests s)]) (se_running s) (length (se_requests s)) (new_request now)"
    using assms(1) by (auto simp: req_ok_def new_request_def session_ok_def)
  ultimately show ?thesis
    using assms(1) opn by (force simp: s' session_ok_def nth_append less_Suc_eq)
qed

lemma submit_poll_ok:
  assumes ok: "session_ok s" and i: "i < length (se_requests s)" and open_reply: "rq_reply (se_requests s ! i) = None"
  shows "session_ok (submit_poll limit now d n i s)"
proof -
  note r = session_okD [OF ok i]
  let ?r = "se_requests s ! i"
  consider "rq_finished ?r" | "\<not> rq_finished ?r" "rq_started ?r" | "\<not> rq_started ?r" "\<not> se_open s"
    | "\<not> rq_finished ?r" "\<not> rq_started ?r" "se_open s" using r by (auto simp: req_ok_def)
  then show ?thesis
  proof cases
    case 1
    then show ?thesis using r ok
      by (intro session_ok_set [OF ok i, of _ "?r\<lparr>rq_reply := Some (True, [])\<rparr>"]) (auto simp: submit_poll_def Let_def req_ok_def session_ok_def)
  next
    case 2
    then show ?thesis using ok by (simp add: submit_poll_def Let_def)
  next
    case 3
    then show ?thesis using r ok
      by (intro session_ok_set [OF ok i, of _ "?r\<lparr>rq_reply := Some (False, se_reason s)\<rparr>"]) (auto simp: submit_poll_def Let_def req_ok_def session_ok_def)
  next
    case 4
    let ?s = "session_close abandoned s"
    have s: "session_ok ?s" "se_requests ?s = se_requests s" "\<not> se_open ?s" "se_queue ?s = []"
      using session_close_ok [OF ok] 4 by (simp_all add: session_close_def)
    have "session_ok (set_request i (?r\<lparr>rq_reply := Some (False, abandoned)\<rparr>) ?s)"
      using session_okD [OF s(1), of i] i 4 s
      by (intro session_ok_set [OF s(1), of i _ "?r\<lparr>rq_reply := Some (False, abandoned)\<rparr>"]) (auto simp: req_ok_def)
    then show ?thesis using 4 ok by (simp add: submit_poll_def Let_def)
  qed
qed

lemma service_take_ok:
  assumes ok: "session_ok s" and idle: "se_running s = None" and take: "service_take s = Some s'"
  shows "session_ok s'"
proof -
  obtain i q where q: "se_open s" "se_queue s = i # q"
    and s': "s' = (set_request i ((se_requests s ! i)\<lparr>rq_started := True\<rparr>) s)\<lparr>se_queue := q, se_running := Some i\<rparr>"
    using take by (auto simp: service_take_def split: if_splits list.splits)
  have i: "i < length (se_requests s)" "i \<notin> set q" "distinct q" using ok q by (auto simp: session_ok_def)
  have "\<not> rq_started (se_requests s ! i)" "\<not> rq_finished (se_requests s ! i)" "rq_reply (se_requests s ! i) = None"
    "rq_runs (se_requests s ! i) = 0"
    using session_okD [OF ok i(1)] q by (auto simp: req_ok_def)
  then show ?thesis
    by (intro session_ok_set [OF ok i(1), of _ "(se_requests s ! i)\<lparr>rq_started := True\<rparr>"]) (use i q idle in \<open>auto simp: s' req_ok_def\<close>)
qed

lemma service_work_ok:
  assumes ok: "session_ok s" and cur: "se_running s = Some i" "rq_runs (se_requests s ! i) = 0"
  shows "session_ok (service_work i s)"
proof -
  have i: "i < length (se_requests s)" using ok cur by (simp add: session_ok_def)
  show ?thesis
    using session_okD [OF ok i] ok cur
    by (intro session_ok_set [OF ok i, of _ "(se_requests s ! i)\<lparr>rq_runs := rq_runs (se_requests s ! i) + 1\<rparr>"])
       (auto simp: service_work_def req_ok_def session_ok_def split: option.splits if_splits)
qed

lemma service_finish_ok:
  assumes ok: "session_ok s" and cur: "se_running s = Some i" "rq_runs (se_requests s ! i) = 1"
  shows "session_ok (service_finish i s)"
proof -
  have i: "i < length (se_requests s)" using ok cur by (simp add: session_ok_def)
  show ?thesis
    using session_okD [OF ok i] ok cur
    by (intro session_ok_set [OF ok i, of _ "(se_requests s ! i)\<lparr>rq_finished := True\<rparr>"])
       (auto simp: service_finish_def req_ok_def session_ok_def split: option.splits if_splits)
qed

lemma serve_step_ok: "serve_step limit n p p' \<Longrightarrow> session_ok (pu_session p) \<Longrightarrow> session_ok (pu_session p')"
  by (induction rule: serve_step.induct)
     (auto intro: submit_poll_ok service_take_ok service_work_ok service_finish_ok)

lemma session_step_ok: "session_step limit n p p' \<Longrightarrow> session_ok (pu_session p) \<Longrightarrow> session_ok (pu_session p')"
  by (induction rule: session_step.induct) (auto intro: serve_step_ok submit_begin_ok session_close_ok)

interpretation sessions: transition_system "session_step limit n" "\<lambda>p. session_ok (pu_session p)" for limit n
  by unfold_locales (rule session_step_ok)

lemma session_reachable_ok: "session_reachable limit n p \<Longrightarrow> session_ok (pu_session p)"
proof (induction rule: session_reachable.induct)
  case (start d now)
  then show ?case by (simp add: new_session_def session_ok_def)
next
  case (step p p')
  then show ?case by (simp add: session_step_ok)
qed

section \<open>What a submitting thread may rely on\<close>

lemma req_ok_reply:
  assumes "req_ok opn q cur i r"
  shows "rq_runs r \<le> 1" "rq_reply r = Some (True, m) \<Longrightarrow> rq_runs r = 1"
    "rq_reply r = Some (False, m) \<Longrightarrow> \<not> opn \<and> \<not> rq_started r" "cur = Some i \<Longrightarrow> rq_reply r = None"
  using assms by (auto simp: req_ok_def split: option.splits if_splits)

lemma req_ok_idle:
  assumes "req_ok opn q None i r"
  shows "rq_started r \<longleftrightarrow> rq_finished r" "opn \<Longrightarrow> \<not> rq_started r \<Longrightarrow> i \<in> set q"
  using assms option.distinct(1) [of i] unfolding req_ok_def by blast+

lemma req_ok_queued:
  "req_ok opn q cur i r \<Longrightarrow> i \<in> set q \<Longrightarrow> \<not> rq_started r \<and> rq_reply r = None \<and> \<not> rq_finished r \<and> rq_runs r = 0"
  by (auto simp: req_ok_def)

lemma req_ok_running:
  "req_ok opn q (Some i) i r \<Longrightarrow> rq_started r \<and> \<not> rq_finished r \<and> rq_runs r \<le> 1 \<and> rq_reply r = None"
  by (auto simp: req_ok_def split: option.splits if_splits)

definition never_starts :: "nat \<Rightarrow> session \<Rightarrow> bool" where
  "never_starts i s \<longleftrightarrow> \<not> se_open s \<and> i < length (se_requests s) \<and> \<not> rq_started (se_requests s ! i)"

lemma never_starts_set [simp]:
  "rq_started r = rq_started (se_requests s ! j) \<Longrightarrow> never_starts i (set_request j r s) = never_starts i s"
  by (cases "j < length (se_requests s)") (auto simp: never_starts_def nth_list_update)

lemma never_starts_running [simp]: "never_starts i (s\<lparr>se_running := x\<rparr>) = never_starts i s"
  by (simp add: never_starts_def)

lemma never_starts_step: "session_step limit n p p' \<Longrightarrow> never_starts i (pu_session p) \<Longrightarrow> never_starts i (pu_session p')"
proof (induction rule: session_step.induct)
  case (serves p p')
  then show ?case
    by (induction rule: serve_step.induct)
       (auto simp: submit_poll_def Let_def service_work_def service_finish_def service_take_def session_close_def
         split: if_splits list.splits, auto simp: never_starts_def)
next
  case (submits p s)
  then show ?case by (auto simp: submit_begin_def never_starts_def split: if_splits)
next
  case (closes p reason)
  then show ?case by (simp add: session_close_def never_starts_def)
qed simp_all

interpretation never_started: transition_system "session_step limit n" "\<lambda>p. never_starts i (pu_session p)" for limit n i
  by unfold_locales (rule never_starts_step)

text \<open>
  C4. A callback runs at most once, and only while its submitter waits for it. When \<open>submit\<close> returned success the work
  ran exactly once; when it returned failure, or the session closed before the request was taken, the work
  has not run and never will, whatever the threads do, so the memory of the submitting thread it refers to
  is never touched after the thread went on.
\<close>

theorem callback_runs_at_most_once:
  assumes "session_reachable limit n p" "i < length (se_requests (pu_session p))"
  shows "rq_runs (se_requests (pu_session p) ! i) \<le> 1
    \<and> (rq_reply (se_requests (pu_session p) ! i) = Some (True, m) \<longrightarrow> rq_runs (se_requests (pu_session p) ! i) = 1)
    \<and> (se_running (pu_session p) = Some i \<longrightarrow> rq_reply (se_requests (pu_session p) ! i) = None)
    \<and> (rq_reply (se_requests (pu_session p) ! i) = Some (False, m)
        \<or> \<not> se_open (pu_session p) \<and> \<not> rq_started (se_requests (pu_session p) ! i) \<longrightarrow>
        (\<forall>p'. (session_step limit n)\<^sup>*\<^sup>* p p' \<longrightarrow> rq_runs (se_requests (pu_session p') ! i) = 0))"
proof -
  note ok = session_okD [OF session_reachable_ok [OF assms(1)] assms(2)]
  have "rq_runs (se_requests (pu_session p') ! i) = 0"
    if start: "never_starts i (pu_session p)" and steps: "(session_step limit n)\<^sup>*\<^sup>* p p'" for p'
    using never_started.ok_steps [OF steps start] sessions.ok_steps [OF steps session_reachable_ok [OF assms(1)]]
    by (auto simp: never_starts_def session_ok_def req_ok_def)
  then show ?thesis
    using req_ok_reply [OF ok] assms(2) unfolding never_starts_def by blast
qed

section \<open>No submitter waits for ever\<close>

definition request_left :: "request \<Rightarrow> nat" where
  "request_left r =
     (if rq_reply r \<noteq> None then 0 else if rq_finished r then 1 else if \<not> rq_started r then 4 else if rq_runs r = 0 then 3 else 2)"

definition requests_left :: "session \<Rightarrow> nat" where
  "requests_left s = sum_list (map request_left (se_requests s))"

lemma requests_left_set:
  assumes "i < length (se_requests s)" "request_left r < request_left (se_requests s ! i)" "se_requests s' = (se_requests s)[i := r]"
  shows "requests_left s' < requests_left s"
proof -
  have "i < length xs \<Longrightarrow> f y < f (xs ! i) \<Longrightarrow> sum_list (map f (xs[i := y])) < (sum_list (map f xs) :: nat)"
    for xs :: "request list" and f y
  proof (induction xs arbitrary: i)
    case (Cons x xs)
    then show ?case by (cases i) auto
  qed simp
  then show ?thesis using assms by (simp add: requests_left_def)
qed

definition served :: "pump \<Rightarrow> bool" where
  "served p \<longleftrightarrow> pu_leased p \<or> \<not> se_open (pu_session p)"

lemma serve_progress:
  assumes ok: "session_ok (pu_session p)" and served: "served p" and waiting: "waits i p"
  shows "\<exists>p'. serve_step limit n p p' \<and> requests_left (pu_session p') < requests_left (pu_session p)"
proof (cases "se_running (pu_session p)")
  case (Some j)
  let ?s = "pu_session p"
  let ?r = "se_requests ?s ! j"
  have j: "j < length (se_requests ?s)" using ok Some by (simp add: session_ok_def)
  have r: "rq_started ?r" "\<not> rq_finished ?r" "rq_runs ?r \<le> 1" "rq_reply ?r = None"
    using req_ok_running [OF session_okD [OF ok j, unfolded Some]] by blast+
  show ?thesis
  proof (cases "rq_runs ?r = 0")
    case True
    have "requests_left (service_work j ?s) < requests_left ?s"
      by (rule requests_left_set [OF j, of "?r\<lparr>rq_runs := rq_runs ?r + 1\<rparr>"]) (use r True in \<open>simp_all add: request_left_def service_work_def\<close>)
    then show ?thesis
      using works [OF Some True, of limit n] by (intro exI [of _ "on_session (service_work j) p"]) simp
  next
    case False
    then have one: "rq_runs ?r = 1" using r by simp
    have "requests_left (service_finish j ?s) < requests_left ?s"
      by (rule requests_left_set [OF j, of "?r\<lparr>rq_finished := True\<rparr>"]) (use r one in \<open>simp_all add: request_left_def service_finish_def\<close>)
    then show ?thesis
      using finishes [OF Some one, of limit n] by (intro exI [of _ "on_session (service_finish j) p"]) simp
  qed
next
  case None
  let ?s = "pu_session p"
  let ?r = "se_requests ?s ! i"
  have i: "i < length (se_requests ?s)" "rq_reply ?r = None" using waiting by simp_all
  have r: "rq_started ?r \<longrightarrow> rq_finished ?r" "rq_finished ?r \<longrightarrow> rq_started ?r"
    using req_ok_idle(1) [OF session_okD [OF ok i(1), unfolded None]] by blast+
  consider "rq_finished ?r" | "\<not> rq_started ?r" "\<not> se_open ?s" | "\<not> rq_started ?r" "se_open ?s" using r by blast
  then show ?thesis
  proof cases
    case 1
    let ?s' = "submit_poll limit (pu_now p) (pu_driver p) n i ?s"
    have s': "?s' = set_request i (?r\<lparr>rq_reply := Some (True, [])\<rparr>) ?s" using 1 by (simp add: submit_poll_def Let_def)
    have "requests_left ?s' < requests_left ?s"
      by (rule requests_left_set [OF i(1), of "?r\<lparr>rq_reply := Some (True, [])\<rparr>"]) (use 1 i s' in \<open>simp_all add: request_left_def\<close>)
    then show ?thesis
      using polls [OF waiting, of limit n] by (intro exI [of _ "p\<lparr>pu_session := ?s'\<rparr>"]) simp
  next
    case 2
    let ?s' = "submit_poll limit (pu_now p) (pu_driver p) n i ?s"
    have s': "?s' = set_request i (?r\<lparr>rq_reply := Some (False, se_reason ?s)\<rparr>) ?s" using 2 r by (simp add: submit_poll_def Let_def)
    have "requests_left ?s' < requests_left ?s"
      by (rule requests_left_set [OF i(1), of "?r\<lparr>rq_reply := Some (False, se_reason ?s)\<rparr>"]) (use 2 r i s' in \<open>simp_all add: request_left_def\<close>)
    then show ?thesis
      using polls [OF waiting, of limit n] by (intro exI [of _ "p\<lparr>pu_session := ?s'\<rparr>"]) simp
  next
    case 3
    have "i \<in> set (se_queue ?s)" using req_ok_idle(2) [OF session_okD [OF ok i(1), unfolded None]] 3 by blast
    then obtain j q where q: "se_queue ?s = j # q" by (cases "se_queue ?s") auto
    let ?t = "se_requests ?s ! j"
    let ?s' = "(set_request j (?t\<lparr>rq_started := True\<rparr>) ?s)\<lparr>se_queue := q, se_running := Some j\<rparr>"
    have j: "j < length (se_requests ?s)" using ok q by (auto simp: session_ok_def)
    have t: "\<not> rq_started ?t" "rq_reply ?t = None" "\<not> rq_finished ?t" "rq_runs ?t = 0"
      using req_ok_queued [OF session_okD [OF ok j]] q by simp_all
    have take: "service_take ?s = Some ?s'" using 3 q by (simp add: service_take_def)
    have "requests_left ?s' < requests_left ?s"
      by (rule requests_left_set [OF j, of "?t\<lparr>rq_started := True\<rparr>"]) (use t in \<open>simp_all add: request_left_def\<close>)
    moreover have "pu_leased p" using served 3 by (simp add: served_def)
    ultimately show ?thesis
      using takes [OF _ None take, of limit n] by (intro exI [of _ "p\<lparr>pu_session := ?s'\<rparr>"]) simp
  qed
qed

definition serving :: "nat \<Rightarrow> pump \<Rightarrow> bool" where
  "serving k p \<longleftrightarrow> session_ok (pu_session p) \<and> served p \<and> length (se_requests (pu_session p)) = k"

lemma serve_step_frame:
  "serve_step limit n p p' \<Longrightarrow> served p \<Longrightarrow> served p' \<and> length (se_requests (pu_session p')) = length (se_requests (pu_session p))"
  by (induction rule: serve_step.induct)
     (auto simp: served_def submit_poll_def Let_def session_close_def service_take_def service_work_def service_finish_def
       split: if_splits list.splits)

interpretation serving: progress_system "serve_step limit n" "serving k" "\<lambda>p. \<exists>i. waits i p" "\<lambda>p. requests_left (pu_session p)"
  for limit n k
proof unfold_locales
  show "serving k p'" if "serve_step limit n p p'" "serving k p" for p p'
    using that serve_step_ok serve_step_frame by (simp add: serving_def)
  show "\<exists>p'. serve_step limit n p p' \<and> requests_left (pu_session p') < requests_left (pu_session p)"
    if "serving k p" "\<exists>i. waits i p" for p
    using that serve_progress by (auto simp: serving_def)
qed

text \<open>
  C17. No thread of DuckDB waits for PHP for ever. From every reachable state in which the request thread serves the
  session, or the session is closed, the threads at work bring every submitted request to an answer.
\<close>

theorem every_submitter_returns:
  assumes "session_reachable limit n p" "pu_leased p \<or> \<not> se_open (pu_session p)"
  shows "\<exists>p'. (serve_step limit n)\<^sup>*\<^sup>* p p' \<and> length (se_requests (pu_session p')) = length (se_requests (pu_session p))
    \<and> (\<forall>i < length (se_requests (pu_session p')). rq_reply (se_requests (pu_session p') ! i) \<noteq> None)"
  using serving.settles [of "length (se_requests (pu_session p))" p limit n] session_reachable_ok [OF assms(1)] assms(2)
  by (auto simp: serving_def served_def)

section \<open>The helper thread\<close>

text \<open>
  \<open>conn_helper\<close>: the work handed over by leases, numbered. \<open>hp_posted\<close> and \<open>hp_ran\<close> list what was handed over
  and what has been run; \<open>hp_current\<close> is what \<open>helper_main\<close> runs outside the helper's mutex.
\<close>

record conn_helper =
  hp_work :: "nat option"
  hp_busy :: bool
  hp_stop :: bool
  hp_current :: "nat option"
  hp_exited :: bool
  hp_posted :: "nat list"
  hp_ran :: "nat list"

definition helper_post :: "nat \<Rightarrow> conn_helper \<Rightarrow> conn_helper" where
  "helper_post w h = h\<lparr>hp_busy := True, hp_work := Some w, hp_posted := hp_posted h @ [w]\<rparr>"

text \<open>The helper's own sections: taking work or exiting when it wakes up, and returning from the work.\<close>

inductive helper_main :: "conn_helper \<Rightarrow> conn_helper \<Rightarrow> bool" where
  takes_work: "\<not> hp_exited h \<Longrightarrow> hp_current h = None \<Longrightarrow> hp_work h = Some w
     \<Longrightarrow> helper_main h (h\<lparr>hp_work := None, hp_current := Some w\<rparr>)"
| returns: "hp_current h = Some w \<Longrightarrow> helper_main h (h\<lparr>hp_current := None, hp_busy := False, hp_ran := hp_ran h @ [w]\<rparr>)"
| leaves: "\<not> hp_exited h \<Longrightarrow> hp_current h = None \<Longrightarrow> hp_work h = None \<Longrightarrow> hp_stop h \<Longrightarrow> helper_main h (h\<lparr>hp_exited := True\<rparr>)"

inductive helper_step :: "conn_helper \<Rightarrow> conn_helper \<Rightarrow> bool" where
  runs: "helper_main h h' \<Longrightarrow> helper_step h h'"
| posts: "\<not> hp_busy h \<Longrightarrow> helper_step h (helper_post w h)"
| stops: "helper_step h (h\<lparr>hp_stop := True\<rparr>)"

definition new_helper :: conn_helper where
  "new_helper = \<lparr>hp_work = None, hp_busy = False, hp_stop = False, hp_current = None, hp_exited = False, hp_posted = [], hp_ran = []\<rparr>"

definition helper_ok :: "conn_helper \<Rightarrow> bool" where
  "helper_ok h \<longleftrightarrow> hp_posted h = hp_ran h @ (case hp_current h of None \<Rightarrow> [] | Some w \<Rightarrow> [w]) @ (case hp_work h of None \<Rightarrow> [] | Some w \<Rightarrow> [w])
     \<and> (hp_busy h \<longleftrightarrow> hp_current h \<noteq> None \<or> hp_work h \<noteq> None) \<and> (hp_current h = None \<or> hp_work h = None)
     \<and> (hp_exited h \<longrightarrow> hp_stop h \<and> hp_current h = None)"

lemma helper_main_ok: "helper_main h h' \<Longrightarrow> helper_ok h \<Longrightarrow> helper_ok h'"
  by (induction rule: helper_main.induct) (auto simp: helper_ok_def split: option.splits)

lemma helper_step_ok: "helper_step h h' \<Longrightarrow> helper_ok h \<Longrightarrow> helper_ok h'"
  by (induction rule: helper_step.induct)
     (auto simp: helper_main_ok, auto simp: helper_ok_def helper_post_def split: option.splits)

lemma helper_reachable_ok: "helper_step\<^sup>*\<^sup>* new_helper h \<Longrightarrow> helper_ok h"
proof (induction rule: rtranclp_induct)
  case base
  then show ?case by (simp add: helper_ok_def new_helper_def)
next
  case (step h h')
  then show ?case by (simp add: helper_step_ok)
qed

lemma helper_drains:
  assumes "helper_ok h" "\<not> hp_exited h"
  shows "\<exists>h'. helper_main\<^sup>*\<^sup>* h h' \<and> hp_ran h' = hp_posted h \<and> \<not> hp_busy h' \<and> hp_stop h' = hp_stop h \<and> \<not> hp_exited h'
    \<and> hp_current h' = None \<and> hp_work h' = None"
proof -
  have finish: "\<exists>h'. helper_main\<^sup>*\<^sup>* g h' \<and> hp_ran h' = hp_posted g \<and> \<not> hp_busy h' \<and> hp_stop h' = hp_stop g \<and> \<not> hp_exited h'
      \<and> hp_current h' = None \<and> hp_work h' = None"
    if g: "helper_ok g" "hp_current g = Some w" "\<not> hp_exited g" for g w
    using r_into_rtranclp [of helper_main, OF returns [OF g(2)]] g
    by (intro exI [of _ "g\<lparr>hp_current := None, hp_busy := False, hp_ran := hp_ran g @ [w]\<rparr>"]) (auto simp: helper_ok_def)
  show ?thesis
  proof (cases "hp_current h")
    case (Some w)
    then show ?thesis using finish assms by blast
  next
    case None
    show ?thesis
    proof (cases "hp_work h")
      case none: None
      then show ?thesis using None assms by (intro exI [of _ h]) (simp add: helper_ok_def)
    next
      case (Some w)
      let ?g = "h\<lparr>hp_work := None, hp_current := Some w\<rparr>"
      have s: "helper_main h ?g" using takes_work [OF assms(2) None Some] .
      have "helper_ok ?g" using helper_main_ok [OF s assms(1)] .
      from finish [OF this, of w] assms(2) obtain h' where "helper_main\<^sup>*\<^sup>* ?g h'" "hp_ran h' = hp_posted h" "\<not> hp_busy h'"
        "hp_stop h' = hp_stop h" "\<not> hp_exited h'" "hp_current h' = None" "hp_work h' = None" by auto
      then show ?thesis using s by (blast intro: converse_rtranclp_into_rtranclp)
    qed
  qed
qed

text \<open>
  The helper thread runs the work of every lease exactly once, in order and one at a time, and stopping it
  always succeeds. What was handed over is what was run, the work in progress and the work waiting; from any state the
  running helper alone completes it all, and once told to stop it then exits.
\<close>

theorem helper_runs_each_lease_once:
  assumes "helper_step\<^sup>*\<^sup>* new_helper h"
  shows "hp_posted h = hp_ran h @ (case hp_current h of None \<Rightarrow> [] | Some w \<Rightarrow> [w]) @ (case hp_work h of None \<Rightarrow> [] | Some w \<Rightarrow> [w])
    \<and> (hp_current h = None \<or> hp_work h = None)
    \<and> (\<not> hp_exited h \<longrightarrow> (\<exists>h'. helper_main\<^sup>*\<^sup>* h h' \<and> hp_ran h' = hp_posted h \<and> \<not> hp_busy h'))
    \<and> (hp_stop h \<longrightarrow> (\<exists>h'. helper_main\<^sup>*\<^sup>* h h' \<and> hp_exited h'))"
proof -
  note ok = helper_reachable_ok [OF assms]
  have "\<exists>h'. helper_main\<^sup>*\<^sup>* h h' \<and> hp_exited h'" if stop: "hp_stop h"
  proof (cases "hp_exited h")
    case False
    from helper_drains [OF ok False] obtain g where g: "helper_main\<^sup>*\<^sup>* h g" "hp_stop g" "\<not> hp_exited g" "hp_current g = None"
      "hp_work g = None" using stop by auto
    from leaves [OF g(3-5,2)] g(1) show ?thesis
      by (intro exI [of _ "g\<lparr>hp_exited := True\<rparr>"]) (simp add: rtranclp.rtrancl_into_rtrancl)
  qed blast
  moreover have "\<exists>h'. helper_main\<^sup>*\<^sup>* h h' \<and> hp_ran h' = hp_posted h \<and> \<not> hp_busy h'" if "\<not> hp_exited h"
    using helper_drains [OF ok that] by blast
  ultimately show ?thesis using ok unfolding helper_ok_def by (intro conjI impI) simp_all
qed

lemma helper_runs_each_lease_once_witness:
  "\<exists>h'. helper_main\<^sup>*\<^sup>* ((helper_post 4 new_helper)\<lparr>hp_stop := True\<rparr>) h' \<and> hp_exited h'"
proof -
  have "helper_step new_helper (helper_post 4 new_helper)" by (rule posts) (simp add: new_helper_def)
  then have "helper_step\<^sup>*\<^sup>* new_helper ((helper_post 4 new_helper)\<lparr>hp_stop := True\<rparr>)"
    using stops by (meson rtranclp.rtrancl_into_rtrancl rtranclp.rtrancl_refl)
  from helper_runs_each_lease_once [OF this] show ?thesis by simp
qed

section \<open>A session in use\<close>

definition idle_pump :: pump where
  "idle_pump = \<lparr>pu_session = new_session, pu_driver = \<lparr>dr_serving = None, dr_away_since = 0\<rparr>, pu_now = 5, pu_leased = False, pu_done = False\<rparr>"

definition asked :: session where
  "asked = new_session\<lparr>se_queue := [0], se_requests := [new_request 5]\<rparr>"

lemma asked_reachable: "session_reachable limit n (idle_pump\<lparr>pu_session := asked\<rparr>)"
proof -
  have "session_reachable limit n idle_pump" unfolding idle_pump_def by (rule session_reachable.start)
  moreover have "submit_begin (pu_now idle_pump) (pu_session idle_pump) = Inr asked"
    by (simp add: submit_begin_def idle_pump_def new_session_def asked_def)
  ultimately show ?thesis by (blast intro: session_reachable.step session_step.submits)
qed

text \<open>The session is closed before the request is taken: the request will never run.\<close>

lemma callback_runs_at_most_once_witness:
  "(\<lambda>p'. rq_runs (se_requests (pu_session p') ! 0)) `
     Collect ((session_step 60 1)\<^sup>*\<^sup>* (idle_pump\<lparr>pu_session := session_close ''closed'' asked\<rparr>)) \<subseteq> {0}"
proof -
  have "session_reachable 60 1 (idle_pump\<lparr>pu_session := session_close ''closed'' asked\<rparr>)"
    using session_reachable.step [OF asked_reachable session_step.closes [of 60 1 _ "''closed''"]] by simp
  from callback_runs_at_most_once [OF this, of 0 "[]"] show ?thesis
    by (auto simp: session_close_def asked_def new_session_def new_request_def)
qed

text \<open>A lease serves the request.\<close>

lemma every_submitter_returns_witness:
  "\<exists>p'. (serve_step 60 1)\<^sup>*\<^sup>* (idle_pump\<lparr>pu_session := asked, pu_leased := True, pu_driver := driver_enter 5 (Some 1) (pu_driver idle_pump)\<rparr>) p'
     \<and> rq_reply (se_requests (pu_session p') ! 0) \<noteq> None"
proof -
  have "session_reachable 60 1 (idle_pump\<lparr>pu_session := asked, pu_leased := True, pu_driver := driver_enter 5 (Some 1) (pu_driver idle_pump)\<rparr>)"
    using session_reachable.step [OF asked_reachable session_step.lease_begins [of "idle_pump\<lparr>pu_session := asked\<rparr>" 60 1]]
    by (simp add: idle_pump_def)
  from every_submitter_returns [OF this] show ?thesis by (fastforce simp: asked_def)
qed

end
