(* ===== verification/Pending.thy ===== *)
theory Pending
  imports Prelude Transitions Errors Connection
begin

text \<open>
  \<open>DuckDB\PendingQuery\<close>, \<open>src/src/pending.cpp\<close> and \<open>async_task\<close> of \<open>src/php_duckdb.h\<close>: queries on worker threads
  with their cancellation threads, and the polling mode that a PHP thread drives step by step.

  For worker threads every section under the task's mutex is one step, and steps of all threads interleave;
  the connection mutex is the lock of \<open>Connection\<close>. The PHP thread is number 0, the worker of task \<open>i\<close> is
  \<open>Suc i\<close>. Pipes, the registry that joins threads at module shutdown, late callback causes and the adapters
  to event loops are left out.
\<close>

section \<open>Tasks\<close>

datatype task_mode = THREAD_QUERY | THREAD_PREPARED | POLLING

text \<open>How far the worker is in \<open>duckdb_async_run_task\<close>.\<close>

datatype phase = P_queued | P_locked | P_checked | P_executed | P_published | P_unlocked | P_exited

record task =
  tk_mode :: task_mode
  tk_done :: bool
  tk_cancel_requested :: bool
  tk_worker_running :: bool
  tk_canceller :: bool
  tk_error :: "(duckdb_error_type \<times> string) option"
  tk_consumed :: bool
  tk_result :: "handle option"
  tk_record :: "nat option"
  tk_phase :: phase
  tk_dropped :: bool

definition new_task :: "task_mode \<Rightarrow> nat option \<Rightarrow> task" where
  "new_task mode r = \<lparr>tk_mode = mode, tk_done = False, tk_cancel_requested = False, tk_worker_running = False,
     tk_canceller = False, tk_error = None, tk_consumed = False, tk_result = None, tk_record = r,
     tk_phase = P_queued, tk_dropped = False\<rparr>"

definition query_interrupted :: "duckdb_error_type \<times> string" where
  "query_interrupted = (E_Interrupt, ''Query interrupted'')"

section \<open>The worker thread\<close>

text \<open>
  An answer of DuckDB to the statement: a result, or an error with its type and message. A failed
  statement also leaves a native result, which is destroyed at once.
\<close>

type_synonym answer = "(duckdb_error_type \<times> string option, handle) result"

definition worker_check :: "task \<Rightarrow> task" where
  "worker_check t =
     (if tk_cancel_requested t
      then t\<lparr>tk_worker_running := False, tk_error := Some query_interrupted, tk_phase := P_checked\<rparr>
      else t\<lparr>tk_worker_running := True, tk_phase := P_checked\<rparr>)"

text \<open>The task afterwards, and whether a native result was destroyed.\<close>

definition worker_execute :: "answer \<Rightarrow> task \<Rightarrow> task \<times> bool" where
  "worker_execute a t =
     (if tk_error t \<noteq> None then (t\<lparr>tk_consumed := True, tk_phase := P_executed\<rparr>, False)
      else case a of
        Inr h \<Rightarrow> (t\<lparr>tk_result := Some h, tk_phase := P_executed\<rparr>, False)
      | Inl (ty, err) \<Rightarrow>
          (t\<lparr>tk_error := Some (ty, case err of None \<Rightarrow> ''Query failed'' | Some m \<Rightarrow> m), tk_consumed := True,
             tk_phase := P_executed\<rparr>, True))"

definition worker_publish :: "task \<Rightarrow> task" where
  "worker_publish t = t\<lparr>tk_worker_running := False, tk_done := True, tk_phase := P_published\<rparr>"

section \<open>Completion and cancellation\<close>

definition duckdb_pending_complete :: "task \<Rightarrow> (throwable, handle option) result \<times> task" where
  "duckdb_pending_complete t =
     (case tk_error t of
        Some (ty, msg) \<Rightarrow> (Inl (duckdb_throw_error ty (Some msg)), t)
      | None \<Rightarrow>
          if tk_consumed t then (Inl (duckdb_throw_msg (Some ''Result has already been consumed'')), t)
          else (Inr (tk_result t), t\<lparr>tk_consumed := True, tk_result := None\<rparr>))"

text \<open>
  \<open>duckdb_task_cancel\<close> on a worker's task: the task, and whether it interrupts the connection now.
  \<open>refused\<close> is the system's message when the cancellation thread cannot be created.
\<close>

definition thread_cancel :: "string option \<Rightarrow> task \<Rightarrow> (throwable, unit) result \<times> task \<times> bool" where
  "thread_cancel refused t =
     (if tk_done t \<or> tk_cancel_requested t then (Inr (), t, False)
      else (case refused of
              Some what \<Rightarrow>
                (Inl (DuckException InternalException (''Failed to start cancellation worker: '' @ what) (error_code E_Internal)), t, False)
            | None \<Rightarrow> (Inr (), t\<lparr>tk_canceller := True, tk_cancel_requested := True\<rparr>, tk_worker_running t)))"

text \<open>One round of the cancellation thread: the task, and whether it interrupts.\<close>

definition canceller_tick :: "task \<Rightarrow> task \<times> bool" where
  "canceller_tick t = (if tk_done t then (t\<lparr>tk_canceller := False\<rparr>, False) else (t, tk_worker_running t))"

text \<open>\<open>~async_task\<close> of a worker's task: whether it destroys the native result.\<close>

definition thread_destructor :: "task \<Rightarrow> task \<times> bool" where
  "thread_destructor t = (t\<lparr>tk_dropped := True, tk_consumed := True, tk_result := None\<rparr>, \<not> tk_consumed t)"

section \<open>Interleavings of worker threads\<close>

datatype event = Ev_interrupt nat "thread option" | Ev_destroy nat | Ev_deliver nat

record tasks_state =
  ts_tasks :: "task list"
  ts_conn :: conn
  ts_events :: "event list"

abbreviation set_task :: "nat \<Rightarrow> task \<Rightarrow> tasks_state \<Rightarrow> tasks_state" where
  "set_task i t s \<equiv> s\<lparr>ts_tasks := (ts_tasks s)[i := t]\<rparr>"

abbreviation at_phase :: "tasks_state \<Rightarrow> nat \<Rightarrow> phase \<Rightarrow> bool" where
  "at_phase s i p \<equiv> i < length (ts_tasks s) \<and> tk_phase (ts_tasks s ! i) = p"

definition log_event :: "bool \<Rightarrow> event \<Rightarrow> tasks_state \<Rightarrow> tasks_state" where
  "log_event b e s = (if b then s\<lparr>ts_events := ts_events s @ [e]\<rparr> else s)"

definition lock_conn :: "thread option \<Rightarrow> tasks_state \<Rightarrow> tasks_state" where
  "lock_conn l s = s\<lparr>ts_conn := (ts_conn s)\<lparr>conn_lock := l\<rparr>\<rparr>"

definition interrupt_now :: "bool \<Rightarrow> nat \<Rightarrow> tasks_state \<Rightarrow> tasks_state" where
  "interrupt_now b i s = log_event b (Ev_interrupt i (conn_lock (ts_conn s))) s"

inductive worker_step :: "tasks_state \<Rightarrow> tasks_state \<Rightarrow> bool" where
  locks: "at_phase s i P_queued \<Longrightarrow> conn_lock (ts_conn s) = None
     \<Longrightarrow> worker_step s (lock_conn (Some (Suc i)) (set_task i ((ts_tasks s ! i)\<lparr>tk_phase := P_locked\<rparr>) s))"
| checks: "at_phase s i P_locked \<Longrightarrow> worker_step s (set_task i (worker_check (ts_tasks s ! i)) s)"
| executes: "at_phase s i P_checked \<Longrightarrow> worker_execute a (ts_tasks s ! i) = (t, destroys)
     \<Longrightarrow> worker_step s (log_event destroys (Ev_destroy i) (set_task i t (s\<lparr>ts_conn := duckdb_conn_worker_end (ts_conn s)\<rparr>)))"
| publishes: "at_phase s i P_executed \<Longrightarrow> worker_step s (set_task i (worker_publish (ts_tasks s ! i)) s)"
| unlocks: "at_phase s i P_published
     \<Longrightarrow> worker_step s (lock_conn None (set_task i ((ts_tasks s ! i)\<lparr>tk_phase := P_unlocked\<rparr>) s))"
| exits: "at_phase s i P_unlocked \<Longrightarrow> \<not> tk_canceller (ts_tasks s ! i)
     \<Longrightarrow> worker_step s (set_task i ((ts_tasks s ! i)\<lparr>tk_phase := P_exited\<rparr>) s)"
| ticks: "i < length (ts_tasks s) \<Longrightarrow> tk_canceller (ts_tasks s ! i) \<Longrightarrow> canceller_tick (ts_tasks s ! i) = (t, b)
     \<Longrightarrow> worker_step s (interrupt_now b i (set_task i t s))"

text \<open>The steps of the PHP thread: other statements take the lock in between.\<close>

inductive task_step :: "tasks_state \<Rightarrow> tasks_state \<Rightarrow> bool" where
  worker: "worker_step s s' \<Longrightarrow> task_step s s'"
| starts: "mode \<noteq> POLLING \<Longrightarrow> duckdb_conn_check_not_busy 0 (ts_conn s) = Inr ()
     \<Longrightarrow> task_step s (s\<lparr>ts_tasks := ts_tasks s @ [new_task mode None], ts_conn := duckdb_conn_worker_begin (ts_conn s)\<rparr>)"
| php_locks: "conn_lock (ts_conn s) = None \<Longrightarrow> task_step s (lock_conn (Some 0) s)"
| php_unlocks: "conn_lock (ts_conn s) = Some 0 \<Longrightarrow> task_step s (lock_conn None s)"
| cancels: "i < length (ts_tasks s) \<Longrightarrow> \<not> tk_dropped (ts_tasks s ! i) \<Longrightarrow> thread_cancel refused (ts_tasks s ! i) = (r, t, b)
     \<Longrightarrow> task_step s (interrupt_now b i (set_task i t s))"
| completes: "i < length (ts_tasks s) \<Longrightarrow> tk_done (ts_tasks s ! i) \<Longrightarrow> \<not> tk_dropped (ts_tasks s ! i)
     \<Longrightarrow> duckdb_pending_complete (ts_tasks s ! i) = (r, t)
     \<Longrightarrow> task_step s (log_event (case r of Inr (Some h) \<Rightarrow> True | _ \<Rightarrow> False) (Ev_deliver i) (set_task i t s))"
| dies: "at_phase s i P_exited \<Longrightarrow> \<not> tk_dropped (ts_tasks s ! i) \<Longrightarrow> thread_destructor (ts_tasks s ! i) = (t, destroys)
     \<Longrightarrow> task_step s (log_event destroys (Ev_destroy i) (set_task i t s))"

inductive tasks_reachable :: "tasks_state \<Rightarrow> bool" where
  start: "conn_lock c = None \<Longrightarrow> tasks_reachable \<lparr>ts_tasks = [], ts_conn = c, ts_events = []\<rparr>"
| step: "tasks_reachable s \<Longrightarrow> task_step s s' \<Longrightarrow> tasks_reachable s'"


section \<open>The invariant\<close>

fun event_task :: "event \<Rightarrow> nat" where
  "event_task (Ev_interrupt i l) = i"
| "event_task (Ev_destroy i) = i"
| "event_task (Ev_deliver i) = i"

fun own_interrupt :: "event \<Rightarrow> bool" where
  "own_interrupt (Ev_interrupt i l) = (l = Some (Suc i))"
| "own_interrupt _ = True"

text \<open>How often the native result of task \<open>i\<close> left it: destroyed, or handed to a \<open>Result\<close>.\<close>

definition released :: "nat \<Rightarrow> event list \<Rightarrow> nat" where
  "released i es = length (filter (\<lambda>e. e = Ev_destroy i \<or> e = Ev_deliver i) es)"

lemma released_simps [simp]:
  "released i [] = 0" "released i (es @ [Ev_destroy j]) = released i es + (if i = j then 1 else 0)"
  "released i (es @ [Ev_deliver j]) = released i es + (if i = j then 1 else 0)"
  "released i (es @ [Ev_interrupt j l]) = released i es"
  by (simp_all add: released_def)

definition task_ok :: "thread option \<Rightarrow> event list \<Rightarrow> nat \<Rightarrow> task \<Rightarrow> bool" where
  "task_ok l es i t \<longleftrightarrow>
     (l = Some (Suc i) \<longleftrightarrow> tk_phase t \<in> {P_locked, P_checked, P_executed, P_published})
   \<and> (tk_worker_running t \<longrightarrow> tk_phase t \<in> {P_checked, P_executed})
   \<and> (tk_done t \<longleftrightarrow> tk_phase t \<in> {P_published, P_unlocked, P_exited})
   \<and> (tk_canceller t \<longrightarrow> tk_phase t \<noteq> P_exited)
   \<and> (tk_dropped t \<longrightarrow> tk_phase t = P_exited \<and> tk_consumed t)
   \<and> (tk_phase t \<in> {P_queued, P_locked, P_checked} \<longrightarrow> \<not> tk_consumed t \<and> tk_result t = None \<and> released i es = 0)
   \<and> (tk_phase t \<in> {P_queued, P_locked} \<longrightarrow> tk_error t = None)
   \<and> (tk_phase t \<in> {P_executed, P_published, P_unlocked, P_exited} \<longrightarrow> (tk_consumed t \<longleftrightarrow> tk_result t = None))
   \<and> (tk_result t \<noteq> None \<longrightarrow> tk_error t = None \<and> released i es = 0)
   \<and> (tk_error t = None \<and> tk_consumed t \<longrightarrow> released i es = 1)
   \<and> released i es \<le> 1"

definition tasks_ok :: "tasks_state \<Rightarrow> bool" where
  "tasks_ok s \<longleftrightarrow> (\<forall>i < length (ts_tasks s). task_ok (conn_lock (ts_conn s)) (ts_events s) i (ts_tasks s ! i))
     \<and> (\<forall>e \<in> set (ts_events s). own_interrupt e \<and> event_task e < length (ts_tasks s))
     \<and> (\<forall>k. conn_lock (ts_conn s) = Some k \<longrightarrow> k \<le> length (ts_tasks s))"

lemma worker_end_lock [simp]: "conn_lock (duckdb_conn_worker_end c) = conn_lock c"
  by (simp add: duckdb_conn_worker_end_def Let_def log_native_def)

lemma worker_begin_lock [simp]: "conn_lock (duckdb_conn_worker_begin c) = conn_lock c"
  by (simp add: duckdb_conn_worker_begin_def)

text \<open>A step of task \<open>i\<close> keeps the invariant when it keeps that task's part and does not touch the others'.\<close>

lemma released_other: "event_task e \<noteq> j \<Longrightarrow> released j (es @ [e]) = released j es"
  by (cases e) auto

lemma tasks_ok_set:
  assumes "tasks_ok s" "i < length (ts_tasks s)" "ts_tasks s' = (ts_tasks s)[i := t]"
    "task_ok (conn_lock (ts_conn s')) (ts_events s') i t"
    "conn_lock (ts_conn s') = conn_lock (ts_conn s) \<or> conn_lock (ts_conn s) \<in> {None, Some (Suc i)} \<and> conn_lock (ts_conn s') \<in> {None, Some (Suc i)}"
    "ts_events s' = ts_events s \<or> (\<exists>e. ts_events s' = ts_events s @ [e] \<and> event_task e = i \<and> own_interrupt e)"
  shows "tasks_ok s'"
proof -
  have "task_ok (conn_lock (ts_conn s')) (ts_events s') j (ts_tasks s ! j)" if "j < length (ts_tasks s)" "j \<noteq> i" for j
  proof -
    have ok: "task_ok (conn_lock (ts_conn s)) (ts_events s) j (ts_tasks s ! j)" using assms(1) that by (simp add: tasks_ok_def)
    have "released j (ts_events s') = released j (ts_events s)"
      using assms(6) that(2) by (metis released_other)
    moreover have "conn_lock (ts_conn s') = Some (Suc j) \<longleftrightarrow> conn_lock (ts_conn s) = Some (Suc j)"
      using assms(5) that(2) by auto
    ultimately show ?thesis using ok by (simp add: task_ok_def)
  qed
  then show ?thesis using assms by (auto simp: tasks_ok_def nth_list_update)
qed

lemma tasks_okD: "tasks_ok s \<Longrightarrow> i < length (ts_tasks s) \<Longrightarrow> task_ok (conn_lock (ts_conn s)) (ts_events s) i (ts_tasks s ! i)"
  by (simp add: tasks_ok_def)

lemma interrupt_ok:
  assumes "tasks_ok s" "i < length (ts_tasks s)" "task_ok (conn_lock (ts_conn s)) (ts_events s) i t"
    "b \<longrightarrow> conn_lock (ts_conn s) = Some (Suc i)"
  shows "tasks_ok (interrupt_now b i (set_task i t s))"
proof (cases b)
  case True
  then have "task_ok (conn_lock (ts_conn s)) (ts_events s @ [Ev_interrupt i (conn_lock (ts_conn s))]) i t"
    using assms(3) by (simp add: task_ok_def)
  then show ?thesis
    using True assms(4)
    by (intro tasks_ok_set [OF assms(1,2), of _ t]) (simp_all add: interrupt_now_def log_event_def)
next
  case False
  then show ?thesis
    using assms(3) by (intro tasks_ok_set [OF assms(1,2), of _ t]) (simp_all add: interrupt_now_def log_event_def)
qed

lemma thread_cancel_cases:
  assumes "thread_cancel refused u = (r, t, b)"
  shows "t = u \<and> \<not> b
     \<or> \<not> tk_done u \<and> t = u\<lparr>tk_canceller := True, tk_cancel_requested := True\<rparr> \<and> b = tk_worker_running u"
  using assms by (cases refused) (simp_all add: thread_cancel_def split: if_splits)

lemma done_result:
  "task_ok l es i u \<Longrightarrow> tk_done u \<Longrightarrow> tk_error u = None \<Longrightarrow> \<not> tk_consumed u \<Longrightarrow> \<exists>h. tk_result u = Some h"
  by (cases "tk_phase u"; cases "tk_result u") (simp_all add: task_ok_def)

lemma deliver_ok:
  "task_ok l es i u \<Longrightarrow> tk_done u \<Longrightarrow> tk_result u = Some h \<Longrightarrow> \<not> tk_dropped u
     \<Longrightarrow> task_ok l (es @ [Ev_deliver i]) i (u\<lparr>tk_consumed := True, tk_result := None\<rparr>)"
  by (cases "tk_phase u") (simp_all add: task_ok_def)

lemma destruct_ok:
  "task_ok l es i u \<Longrightarrow> tk_phase u = P_exited
     \<Longrightarrow> task_ok l (if tk_consumed u then es else es @ [Ev_destroy i]) i (u\<lparr>tk_dropped := True, tk_consumed := True, tk_result := None\<rparr>)"
  by (cases "tk_consumed u"; cases "tk_result u") (simp_all add: task_ok_def)

lemma running_locked: "task_ok l es i t \<Longrightarrow> tk_worker_running t \<Longrightarrow> l = Some (Suc i)"
  by (auto simp: task_ok_def)

lemma worker_step_ok: "worker_step s s' \<Longrightarrow> tasks_ok s \<Longrightarrow> tasks_ok s'"
proof (induction rule: worker_step.induct)
  case (locks s i)
  have "task_ok (conn_lock (ts_conn s)) (ts_events s) i (ts_tasks s ! i)" using locks tasks_okD [of s i] by simp
  note ok = this locks
  show ?case
    by (rule tasks_ok_set [of s i _ "(ts_tasks s ! i)\<lparr>tk_phase := P_locked\<rparr>"]) (use ok in \<open>auto simp: lock_conn_def task_ok_def\<close>)
next
  case (checks s i)
  have "task_ok (conn_lock (ts_conn s)) (ts_events s) i (ts_tasks s ! i)" using checks tasks_okD [of s i] by simp
  note ok = this checks
  show ?case
    by (rule tasks_ok_set [of s i _ "worker_check (ts_tasks s ! i)"]) (use ok in \<open>auto simp: worker_check_def task_ok_def\<close>)
next
  case (executes s i a t destroys)
  have "task_ok (conn_lock (ts_conn s)) (ts_events s) i (ts_tasks s ! i)" using executes tasks_okD [of s i] by simp
  note ok = this executes
  show ?case
    by (cases "tk_error (ts_tasks s ! i)"; rule tasks_ok_set [of s i _ "t"])
       (use ok in \<open>auto simp: worker_execute_def log_event_def task_ok_def split: if_splits sum.splits\<close>)
next
  case (publishes s i)
  have "task_ok (conn_lock (ts_conn s)) (ts_events s) i (ts_tasks s ! i)" using publishes tasks_okD [of s i] by simp
  note ok = this publishes
  show ?case
    by (rule tasks_ok_set [of s i _ "worker_publish (ts_tasks s ! i)"]) (use ok in \<open>auto simp: worker_publish_def task_ok_def\<close>)
next
  case (unlocks s i)
  have "task_ok (conn_lock (ts_conn s)) (ts_events s) i (ts_tasks s ! i)" using unlocks tasks_okD [of s i] by simp
  note ok = this unlocks
  show ?case
    by (rule tasks_ok_set [of s i _ "(ts_tasks s ! i)\<lparr>tk_phase := P_unlocked\<rparr>"]) (use ok in \<open>auto simp: lock_conn_def task_ok_def\<close>)
next
  case (exits s i)
  have "task_ok (conn_lock (ts_conn s)) (ts_events s) i (ts_tasks s ! i)" using exits tasks_okD [of s i] by simp
  note ok = this exits
  show ?case
    by (rule tasks_ok_set [of s i _ "(ts_tasks s ! i)\<lparr>tk_phase := P_exited\<rparr>"]) (use ok in \<open>auto simp: task_ok_def\<close>)
next
  case (ticks i s t b)
  have ok: "task_ok (conn_lock (ts_conn s)) (ts_events s) i (ts_tasks s ! i)" using ticks tasks_okD [of s i] by simp
  have "task_ok (conn_lock (ts_conn s)) (ts_events s) i t \<and> (b \<longrightarrow> tk_worker_running (ts_tasks s ! i))"
  proof (cases "tk_done (ts_tasks s ! i)")
    case True
    then have "t = (ts_tasks s ! i)\<lparr>tk_canceller := False\<rparr>" "\<not> b" using ticks(3) by (simp_all add: canceller_tick_def)
    then show ?thesis using ok by (simp add: task_ok_def)
  next
    case False
    then show ?thesis using ticks(3) ok by (auto simp: canceller_tick_def)
  qed
  then show ?case using interrupt_ok [OF ticks(4,1)] running_locked [OF ok] by blast
qed

lemma task_step_ok: "task_step s s' \<Longrightarrow> tasks_ok s \<Longrightarrow> tasks_ok s'"
proof (induction rule: task_step.induct)
  case (worker s s')
  then show ?case by (simp add: worker_step_ok)
next
  case (starts mode s)
  have "released (length (ts_tasks s)) (ts_events s) = 0"
    using starts(3) by (auto simp: tasks_ok_def released_def filter_empty_conv)
  moreover have "conn_lock (ts_conn s) \<noteq> Some (Suc (length (ts_tasks s)))"
    using starts(3) by (fastforce simp: tasks_ok_def)
  ultimately show ?case
    using starts by (auto simp: tasks_ok_def nth_append task_ok_def new_task_def less_Suc_eq)
next
  case (php_locks s)
  then show ?case by (auto simp: tasks_ok_def lock_conn_def task_ok_def)
next
  case (php_unlocks s)
  then show ?case by (auto simp: tasks_ok_def lock_conn_def task_ok_def)
next
  case (cancels i s refused r t b)
  have ok: "task_ok (conn_lock (ts_conn s)) (ts_events s) i (ts_tasks s ! i)" using cancels tasks_okD [of s i] by simp
  consider "t = ts_tasks s ! i" "\<not> b"
    | "\<not> tk_done (ts_tasks s ! i)" "t = (ts_tasks s ! i)\<lparr>tk_canceller := True, tk_cancel_requested := True\<rparr>"
      "b = tk_worker_running (ts_tasks s ! i)"
    using thread_cancel_cases [OF cancels(3)] by blast
  then show ?case
  proof cases
    case 1
    then show ?thesis using cancels(4) by (simp add: interrupt_now_def log_event_def)
  next
    case 2
    have "task_ok (conn_lock (ts_conn s)) (ts_events s) i t"
      using 2(1,2) ok by (simp add: task_ok_def)
    then show ?thesis using interrupt_ok [OF cancels(4,1)] running_locked [OF ok] 2(3) by blast
  qed
next
  case (completes i s r t)
  have ok: "task_ok (conn_lock (ts_conn s)) (ts_events s) i (ts_tasks s ! i)" using completes tasks_okD [of s i] by simp
  show ?case
  proof (cases "tk_error (ts_tasks s ! i) = None \<and> \<not> tk_consumed (ts_tasks s ! i)")
    case True
    obtain h where h: "tk_result (ts_tasks s ! i) = Some h"
      using True done_result [OF ok completes(2)] by blast
    have r: "r = Inr (Some h)" "t = (ts_tasks s ! i)\<lparr>tk_consumed := True, tk_result := None\<rparr>"
      using True h completes(4) by (simp_all add: duckdb_pending_complete_def)
    show ?thesis
      by (rule tasks_ok_set [OF completes(5,1), of _ t])
         (use deliver_ok [OF ok completes(2) h completes(3)] r in \<open>simp_all add: log_event_def\<close>)
  next
    case False
    then have "t = ts_tasks s ! i" "\<exists>err. r = Inl err"
      using completes(4) by (auto simp: duckdb_pending_complete_def split: option.splits)
    then show ?thesis using completes(5) by (auto simp: log_event_def)
  qed
next
  case (dies s i t destroys)
  have ok: "task_ok (conn_lock (ts_conn s)) (ts_events s) i (ts_tasks s ! i)" using dies tasks_okD [of s i] by simp
  have t: "t = (ts_tasks s ! i)\<lparr>tk_dropped := True, tk_consumed := True, tk_result := None\<rparr>" "destroys = (\<not> tk_consumed (ts_tasks s ! i))"
    using dies(3) by (simp_all add: thread_destructor_def)
  show ?case
    by (rule tasks_ok_set [OF dies(4), of i _ t])
       (use destruct_ok [OF ok] dies(1) t in \<open>simp_all add: log_event_def split: if_splits\<close>)
qed


lemma tasks_reachable_ok: "tasks_reachable s \<Longrightarrow> tasks_ok s"
proof (induction rule: tasks_reachable.induct)
  case (start c)
  then show ?case by (simp add: tasks_ok_def)
next
  case (step s s')
  then show ?case by (simp add: task_step_ok)
qed

text \<open>
  C14. Cancellation never hits another statement. In every interleaving of workers, cancellation threads and
  PHP, each interrupt sent for a task is sent while that task's own worker holds the connection, so the
  statement it stops is the task's.
\<close>

theorem cancel_interrupts_own_query:
  assumes "tasks_reachable s" "Ev_interrupt i l \<in> set (ts_events s)"
  shows "l = Some (Suc i) \<and> i < length (ts_tasks s)"
  using tasks_reachable_ok [OF assms(1)] assms(2) by (fastforce simp: tasks_ok_def)

text \<open>
  The outcome of an asynchronous query is used exactly once. However often the query is awaited,
  cancelled and dropped, its native result is handed out or destroyed at most once, exactly once when the
  query succeeded and its object is gone, and after completion the outcome no longer changes: awaiting
  throws the recorded error every time, or succeeds the first time only.
\<close>

theorem async_result_used_once:
  assumes "tasks_reachable s" "i < length (ts_tasks s)"
  shows "released i (ts_events s) \<le> 1
     \<and> (tk_dropped (ts_tasks s ! i) \<and> tk_error (ts_tasks s ! i) = None \<longrightarrow> released i (ts_events s) = 1)
     \<and> (tk_done (ts_tasks s ! i) \<and> tk_error (ts_tasks s ! i) = None \<and> \<not> tk_consumed (ts_tasks s ! i) \<longrightarrow>
          (\<exists>h t. duckdb_pending_complete (ts_tasks s ! i) = (Inr (Some h), t)
             \<and> duckdb_pending_complete t = (Inl (duckdb_throw_msg (Some ''Result has already been consumed'')), t)))
     \<and> (tk_error (ts_tasks s ! i) = Some (ty, msg) \<longrightarrow>
          duckdb_pending_complete (ts_tasks s ! i) = (Inl (duckdb_throw_error ty (Some msg)), ts_tasks s ! i))"
proof -
  have ok: "task_ok (conn_lock (ts_conn s)) (ts_events s) i (ts_tasks s ! i)"
    using tasks_okD [OF tasks_reachable_ok [OF assms(1)] assms(2)] .
  have "released i (ts_events s) \<le> 1" "tk_dropped (ts_tasks s ! i) \<Longrightarrow> tk_consumed (ts_tasks s ! i)"
    "tk_error (ts_tasks s ! i) = None \<Longrightarrow> tk_consumed (ts_tasks s ! i) \<Longrightarrow> released i (ts_events s) = 1"
    using ok unfolding task_ok_def by blast+
  moreover have "\<exists>h t. duckdb_pending_complete (ts_tasks s ! i) = (Inr (Some h), t)
      \<and> duckdb_pending_complete t = (Inl (duckdb_throw_msg (Some ''Result has already been consumed'')), t)"
    if d: "tk_done (ts_tasks s ! i)" "tk_error (ts_tasks s ! i) = None" "\<not> tk_consumed (ts_tasks s ! i)"
    using done_result [OF ok d] d by (auto simp: duckdb_pending_complete_def)
  moreover have "duckdb_pending_complete (ts_tasks s ! i) = (Inl (duckdb_throw_error ty (Some msg)), ts_tasks s ! i)"
    if "tk_error (ts_tasks s ! i) = Some (ty, msg)"
    using that by (simp add: duckdb_pending_complete_def)
  ultimately show ?thesis by blast
qed

text \<open>A query that is started, interrupted while it runs, and dropped after its worker has ended.\<close>

definition demo :: "thread option \<Rightarrow> nat \<Rightarrow> task \<Rightarrow> event list \<Rightarrow> tasks_state" where
  "demo l w t es = \<lparr>ts_tasks = [t], ts_conn = initial_conn\<lparr>conn_lock := l, workers := w\<rparr>, ts_events = es\<rparr>"

definition demo_task :: "phase \<Rightarrow> task" where
  "demo_task p = (new_task THREAD_QUERY None)\<lparr>tk_phase := p\<rparr>"

lemmas demo_defs = demo_def demo_task_def new_task_def initial_conn_def lock_conn_def log_event_def interrupt_now_def

lemma demo_started: "tasks_reachable (demo None 1 (demo_task P_queued) [])"
proof -
  have "tasks_reachable \<lparr>ts_tasks = [], ts_conn = initial_conn, ts_events = []\<rparr>"
    by (rule tasks_reachable.start) (simp add: initial_conn_def)
  from tasks_reachable.step [OF this task_step.starts [of THREAD_QUERY]]
  show ?thesis
    by (simp add: demo_defs duckdb_conn_check_not_busy_def duckdb_conn_busy_here_def duckdb_conn_worker_begin_def)
qed

lemma demo_running: "tasks_reachable (demo (Some 1) 1 ((demo_task P_checked)\<lparr>tk_worker_running := True\<rparr>) [])"
proof -
  have "tasks_reachable (demo (Some 1) 1 (demo_task P_locked) [])"
    using tasks_reachable.step [OF demo_started task_step.worker [OF worker_step.locks [of 0]]] by (simp add: demo_defs)
  from tasks_reachable.step [OF this task_step.worker [OF worker_step.checks [of 0]]]
  show ?thesis by (simp add: demo_defs worker_check_def)
qed

definition demo_cancelled :: task where
  "demo_cancelled = (demo_task P_checked)\<lparr>tk_worker_running := True, tk_canceller := True, tk_cancel_requested := True\<rparr>"

lemma demo_cancel: "tasks_reachable (demo (Some 1) 1 demo_cancelled [Ev_interrupt 0 (Some 1)])"
  using tasks_reachable.step [OF demo_running task_step.cancels [of 0 _ None]]
  by (simp add: demo_defs thread_cancel_def demo_cancelled_def)

lemma cancel_interrupts_own_query_witness:
  "Some (Suc 0) = Some (Suc 0) \<and> 0 < length (ts_tasks (demo (Some 1) 1 demo_cancelled [Ev_interrupt 0 (Some 1)]))"
  using cancel_interrupts_own_query [OF demo_cancel, of 0 "Some 1"] by (simp add: demo_def)

text \<open>A query that succeeds, whose object is dropped without being awaited.\<close>

definition demo_finished :: "phase \<Rightarrow> task" where
  "demo_finished p = (demo_task p)\<lparr>tk_done := True, tk_result := Some 7\<rparr>"

definition demo_dropped :: task where
  "demo_dropped = (demo_finished P_exited)\<lparr>tk_dropped := True, tk_consumed := True, tk_result := None\<rparr>"

lemma demo_exit: "tasks_reachable (demo None 0 (demo_finished P_exited) [])"
proof -
  have "tasks_reachable (demo (Some 1) 0 ((demo_task P_executed)\<lparr>tk_worker_running := True, tk_result := Some 7\<rparr>) [])"
    using tasks_reachable.step [OF demo_running task_step.worker [OF worker_step.executes [of 0 _ "Inr 7" _ False]]]
    by (simp add: demo_defs worker_execute_def duckdb_conn_worker_end_def log_native_def)
  from tasks_reachable.step [OF this task_step.worker [OF worker_step.publishes [of 0]]]
  have "tasks_reachable (demo (Some 1) 0 (demo_finished P_published) [])"
    by (simp add: demo_defs worker_publish_def demo_finished_def)
  from tasks_reachable.step [OF this task_step.worker [OF worker_step.unlocks [of 0]]]
  have "tasks_reachable (demo None 0 (demo_finished P_unlocked) [])"
    by (simp add: demo_defs demo_finished_def)
  from tasks_reachable.step [OF this task_step.worker [OF worker_step.exits [of 0]]]
  show ?thesis by (simp add: demo_defs demo_finished_def)
qed

lemma demo_drop: "tasks_reachable (demo None 0 demo_dropped [Ev_destroy 0])"
  using tasks_reachable.step [OF demo_exit task_step.dies [of 0]]
  by (simp add: demo_defs demo_finished_def demo_dropped_def thread_destructor_def)

lemma async_result_used_once_witness: "released 0 [Ev_destroy 0] = 1"
  using async_result_used_once [OF demo_drop, of 0 E_Invalid "[]"]
  by (simp add: demo_defs demo_dropped_def demo_finished_def)

section \<open>Workers finish\<close>

fun steps_left :: "phase \<Rightarrow> nat" where
  "steps_left P_queued = 6"
| "steps_left P_locked = 5"
| "steps_left P_checked = 4"
| "steps_left P_executed = 3"
| "steps_left P_published = 2"
| "steps_left P_unlocked = 1"
| "steps_left P_exited = 0"

definition task_left :: "task \<Rightarrow> nat" where
  "task_left t = 2 * steps_left (tk_phase t) + (if tk_canceller t then 1 else 0)"

definition work_left :: "tasks_state \<Rightarrow> nat" where
  "work_left s = sum_list (map task_left (ts_tasks s))"

lemma sum_list_less:
  "i < length xs \<Longrightarrow> f y < f (xs ! i) \<Longrightarrow> sum_list (map f (xs[i := y])) < (sum_list (map f xs) :: nat)"
proof (induction xs arbitrary: i)
  case (Cons x xs)
  then show ?case by (cases i) auto
qed simp

text \<open>While a worker has not exited, some thread other than PHP's can make progress.\<close>

lemma worker_progress:
  assumes "tasks_ok s" "conn_lock (ts_conn s) \<noteq> Some 0" "\<exists>i < length (ts_tasks s). tk_phase (ts_tasks s ! i) \<noteq> P_exited"
  shows "\<exists>s'. worker_step s s' \<and> work_left s' < work_left s"
proof (cases "conn_lock (ts_conn s)")
  case (Some k)
  then obtain i where k: "k = Suc i" "i < length (ts_tasks s)"
    using assms(1,2) by (cases k) (auto simp: tasks_ok_def)
  let ?t = "ts_tasks s ! i"
  have ok: "task_ok (conn_lock (ts_conn s)) (ts_events s) i ?t" using tasks_okD [OF assms(1) k(2)] .
  then have "tk_phase ?t \<in> {P_locked, P_checked, P_executed, P_published}" using Some k(1) by (simp add: task_ok_def)
  then consider "tk_phase ?t = P_locked" | "tk_phase ?t = P_checked" | "tk_phase ?t = P_executed" | "tk_phase ?t = P_published"
    by blast
  then show ?thesis
  proof cases
    case 1
    then have "task_left (worker_check ?t) < task_left ?t" by (simp add: worker_check_def task_left_def)
    then show ?thesis
      using 1 checks [of i s] k(2) assms(2) sum_list_less [OF k(2)]
      by (intro exI [of _ "set_task i (worker_check ?t) s"]) (simp add: work_left_def)
  next
    case 2
    obtain t d where e: "worker_execute (Inr 0) ?t = (t, d)" by fastforce
    then have "task_left t < task_left ?t" using 2 by (auto simp: worker_execute_def task_left_def split: if_splits)
    then show ?thesis
      using 2 executes [OF _ e] k(2) assms(2) sum_list_less [OF k(2)]
      by (intro exI [of _ "log_event d (Ev_destroy i) (set_task i t (s\<lparr>ts_conn := duckdb_conn_worker_end (ts_conn s)\<rparr>))"])
         (simp add: work_left_def log_event_def)
  next
    case 3
    then have "task_left (worker_publish ?t) < task_left ?t" by (simp add: worker_publish_def task_left_def)
    then show ?thesis
      using 3 publishes [of i s] k(2) assms(2) sum_list_less [OF k(2)]
      by (intro exI [of _ "set_task i (worker_publish ?t) s"]) (simp add: work_left_def)
  next
    case 4
    then have "task_left (?t\<lparr>tk_phase := P_unlocked\<rparr>) < task_left ?t" by (simp add: task_left_def)
    then show ?thesis
      using 4 unlocks [of i s] k(2) sum_list_less [OF k(2)]
      by (intro exI [of _ "lock_conn None (set_task i (?t\<lparr>tk_phase := P_unlocked\<rparr>) s)"]) (simp add: work_left_def lock_conn_def)
  qed
next
  case None
  obtain i where i: "i < length (ts_tasks s)" "tk_phase (ts_tasks s ! i) \<noteq> P_exited" using assms(3) by blast
  let ?t = "ts_tasks s ! i"
  have ok: "task_ok (conn_lock (ts_conn s)) (ts_events s) i ?t" using tasks_okD [OF assms(1) i(1)] .
  then have "tk_phase ?t = P_queued \<or> tk_phase ?t = P_unlocked"
    using None i(2) by (cases "tk_phase ?t") (simp_all add: task_ok_def)
  then consider "tk_phase ?t = P_queued" | "tk_phase ?t = P_unlocked" "tk_canceller ?t" | "tk_phase ?t = P_unlocked" "\<not> tk_canceller ?t"
    by blast
  then show ?thesis
  proof cases
    case 1
    then have "task_left (?t\<lparr>tk_phase := P_locked\<rparr>) < task_left ?t" by (simp add: task_left_def)
    then show ?thesis
      using 1 locks [of i s] i(1) None sum_list_less [OF i(1)]
      by (intro exI [of _ "lock_conn (Some (Suc i)) (set_task i (?t\<lparr>tk_phase := P_locked\<rparr>) s)"]) (simp add: work_left_def lock_conn_def)
  next
    case 2
    then have "canceller_tick ?t = (?t\<lparr>tk_canceller := False\<rparr>, False)"
      using ok by (simp add: canceller_tick_def task_ok_def)
    moreover have "task_left (?t\<lparr>tk_canceller := False\<rparr>) < task_left ?t" using 2 by (simp add: task_left_def)
    ultimately show ?thesis
      using ticks [of i s _ False] i(1) 2(2) None sum_list_less [OF i(1)]
      by (intro exI [of _ "interrupt_now False i (set_task i (?t\<lparr>tk_canceller := False\<rparr>) s)"])
         (simp add: work_left_def interrupt_now_def log_event_def)
  next
    case 3
    then have "task_left (?t\<lparr>tk_phase := P_exited\<rparr>) < task_left ?t" by (simp add: task_left_def)
    then show ?thesis
      using 3 exits [of i s] i(1) None sum_list_less [OF i(1)]
      by (intro exI [of _ "set_task i (?t\<lparr>tk_phase := P_exited\<rparr>) s"]) (simp add: work_left_def)
  qed
qed

definition tasks_free :: "nat \<Rightarrow> tasks_state \<Rightarrow> bool" where
  "tasks_free k s \<longleftrightarrow> tasks_reachable s \<and> conn_lock (ts_conn s) \<noteq> Some 0 \<and> length (ts_tasks s) = k"

lemma worker_step_frame:
  "worker_step s s' \<Longrightarrow> conn_lock (ts_conn s) \<noteq> Some 0 \<Longrightarrow>
     conn_lock (ts_conn s') \<noteq> Some 0 \<and> length (ts_tasks s') = length (ts_tasks s)"
  by (induction rule: worker_step.induct) (auto simp: lock_conn_def log_event_def interrupt_now_def)

interpretation working: progress_system worker_step "tasks_free k"
  "\<lambda>s. \<exists>i < length (ts_tasks s). tk_phase (ts_tasks s ! i) \<noteq> P_exited" work_left for k
proof unfold_locales
  show "tasks_free k s'" if "worker_step s s'" "tasks_free k s" for s s'
    using that worker_step_frame [OF that(1)] unfolding tasks_free_def by (blast intro: tasks_reachable.step task_step.worker)
  show "\<exists>s'. worker_step s s' \<and> work_left s' < work_left s"
    if "tasks_free k s" "\<exists>i < length (ts_tasks s). tk_phase (ts_tasks s ! i) \<noteq> P_exited" for s
    using that worker_progress [OF tasks_reachable_ok] by (simp add: tasks_free_def)
qed

text \<open>
  C15. No deadlock between workers, cancellation threads and the connection. From every reachable state in
  which PHP does not hold the connection, the threads alone can run every task to its end, and a worker
  never waits for a cancellation thread that does not stop.
\<close>

theorem workers_finish:
  assumes "tasks_reachable s" "conn_lock (ts_conn s) \<noteq> Some 0"
  shows "\<exists>s'. worker_step\<^sup>*\<^sup>* s s' \<and> tasks_reachable s' \<and> length (ts_tasks s') = length (ts_tasks s)
     \<and> (\<forall>i < length (ts_tasks s'). tk_phase (ts_tasks s' ! i) = P_exited \<and> tk_done (ts_tasks s' ! i))"
proof -
  obtain s' where s': "worker_step\<^sup>*\<^sup>* s s'" "tasks_free (length (ts_tasks s)) s'"
    "\<not> (\<exists>i < length (ts_tasks s'). tk_phase (ts_tasks s' ! i) \<noteq> P_exited)"
    using working.settles [of "length (ts_tasks s)" s] assms unfolding tasks_free_def by blast
  have "tk_done (ts_tasks s' ! i)" if "i < length (ts_tasks s')" for i
    using tasks_okD [OF tasks_reachable_ok that] s'(2,3) that by (auto simp: task_ok_def tasks_free_def)
  then show ?thesis using s' unfolding tasks_free_def by blast
qed

lemma workers_finish_witness:
  "\<exists>s'. worker_step\<^sup>*\<^sup>* (demo (Some 1) 1 demo_cancelled [Ev_interrupt 0 (Some 1)]) s' \<and> tk_phase (ts_tasks s' ! 0) = P_exited"
proof -
  have "conn_lock (ts_conn (demo (Some 1) 1 demo_cancelled [Ev_interrupt 0 (Some 1)])) \<noteq> Some 0"
    "length (ts_tasks (demo (Some 1) 1 demo_cancelled [Ev_interrupt 0 (Some 1)])) = 1" by (simp_all add: demo_def)
  then show ?thesis using workers_finish [OF demo_cancel] by fastforce
qed

end
