(* ===== verification/Polling.thy ===== *)
theory Polling
  imports Pending Fetch
begin

text \<open>
  The polling mode of \<open>DuckDB\PendingQuery\<close>, \<open>src/src/pending.cpp\<close>: the PHP thread executes the query slice by
  slice. A pumped query (one with a session) runs each slice on the connection's helper thread, under a
  lease. DuckDB's answers are explicit: one \<open>step_answer\<close> per step. The first handler exception a task keeps,
  \<open>suspend()\<close>'s adapters to event loops and the completion descriptors are left out.
\<close>

section \<open>One step\<close>

datatype pending_state = PS_ready | PS_error | PS_not_ready | PS_no_tasks

text \<open>
  What one step meets: why the lease could not start, the state of the pending query after the slice, what
  \<open>duckdb_execute_pending\<close> returns, what \<open>duckdb_lease_failure\<close> makes of the error, and whether PHP is
  unwinding after the step.
\<close>

record step_answer =
  sa_lease :: "string option"
  sa_state :: pending_state
  sa_execute :: answer
  sa_failure :: string
  sa_unwinding :: bool

definition native_pending :: "nat \<Rightarrow> conn \<Rightarrow> handle list" where
  "native_pending i c = (case or_pending (records c ! i) of None \<Rightarrow> [] | Some h \<Rightarrow> [h])"

definition execute_pending :: "nat \<Rightarrow> conn \<Rightarrow> conn" where
  "execute_pending i c = log_native (map N_execute_pending (native_pending i c)) c"

definition duckdb_task_finish_pending :: "answer \<Rightarrow> nat \<Rightarrow> task \<times> conn \<Rightarrow> task \<times> conn" where
  "duckdb_task_finish_pending a i s =
     ((case a of
         Inr h \<Rightarrow> (fst s)\<lparr>tk_record := None, tk_result := Some h\<rparr>
       | Inl (ty, err) \<Rightarrow> (fst s)\<lparr>tk_record := None, tk_consumed := True,
           tk_error := Some (ty, if err = None \<or> err = Some [] then ''Query execution failed'' else the err)\<rparr>),
      finish_pending i (snd s))"

text \<open>The step of a query that still has its record; the result tells whether the query has ended.\<close>

definition step_pumped :: "(handle \<Rightarrow> bool) \<Rightarrow> step_answer \<Rightarrow> nat \<Rightarrow> nat \<Rightarrow> task \<times> conn \<Rightarrow> bool \<times> task \<times> conn" where
  "step_pumped failed a i n s =
     (case sa_lease a of
        Some lease_error \<Rightarrow>
          (True, (fst s)\<lparr>tk_error := Some (E_Internal, lease_error), tk_consumed := True, tk_record := None\<rparr>,
           duckdb_open_result_destroy failed i lease_error (end_session (Some n) lease_error (snd s)))
      | None \<Rightarrow>
          if sa_state a = PS_ready
          then (True, duckdb_task_finish_pending (sa_execute a) i (fst s, end_session (Some n) [] (execute_pending i (snd s))))
          else if sa_state a = PS_error
          then (True, duckdb_task_finish_pending (sa_execute a) i
                  (fst s, execute_pending i (end_session (Some n) (sa_failure a) (snd s))))
          else (False, s))"

definition step_plain :: "step_answer \<Rightarrow> nat \<Rightarrow> task \<times> conn \<Rightarrow> bool \<times> task \<times> conn" where
  "step_plain a i s =
     (if sa_state a = PS_ready \<or> sa_state a = PS_error
      then (True, duckdb_task_finish_pending (sa_execute a) i (fst s, execute_pending i (snd s)))
      else (False, s))"

definition duckdb_task_step_once :: "(handle \<Rightarrow> bool) \<Rightarrow> step_answer \<Rightarrow> task \<times> conn \<Rightarrow> bool \<times> task \<times> conn" where
  "duckdb_task_step_once failed a s =
     (if tk_mode (fst s) \<noteq> POLLING then (tk_done (fst s), s)
      else case tk_record (fst s) of
        None \<Rightarrow> (tk_done (fst s), s)
      | Some i \<Rightarrow>
          let (finished, t, c) = (case or_session (records (snd s) ! i) of
                Some n \<Rightarrow> step_pumped failed a i n s
              | None \<Rightarrow> step_plain a i s)
          in if finished then (True, t\<lparr>tk_done := True\<rparr>, c) else (False, t, c))"

text \<open>\<open>None\<close>: DuckDB's answers do not suffice, the call has not returned. The answers left over are returned.\<close>

fun duckdb_task_step ::
    "(handle \<Rightarrow> bool) \<Rightarrow> step_answer list \<Rightarrow> task \<times> conn \<Rightarrow> (bool \<times> (task \<times> conn) \<times> step_answer list) option" where
  "duckdb_task_step failed [] s = None"
| "duckdb_task_step failed (a # as) s =
     (let (finished, s') = duckdb_task_step_once failed a s
      in if \<not> finished \<and> sa_unwinding a then duckdb_task_step failed as s' else Some (finished, s', as))"

section \<open>The methods\<close>

definition pending_query_class :: string where
  "pending_query_class = ''DuckDB'' @ [CHR 0x5C] @ ''PendingQuery''"

text \<open>\<open>None\<close> is an object whose constructor was bypassed.\<close>

definition duckdb_pending_enter :: "thread \<Rightarrow> (task \<times> conn) option \<Rightarrow> (throwable, task \<times> conn) result" where
  "duckdb_pending_enter th intern =
     (case intern of
        None \<Rightarrow> Inl (PhpError (pending_query_class @ '' object is not initialized (its constructor was bypassed)''))
      | Some s \<Rightarrow> rbind (duckdb_conn_check_not_busy th (snd s)) (\<lambda>_. Inr s))"

lemma task_step_shorter: "duckdb_task_step failed as s = Some (d, s', more_as) \<Longrightarrow> length more_as < length as"
proof (induction as arbitrary: s)
  case (Cons a as)
  obtain f u where "duckdb_task_step_once failed a s = (f, u)" by (rule prod.exhaust)
  then show ?case using Cons.prems Cons.IH [of u] by (simp split: if_splits)
qed simp

definition complete_polling :: "task \<times> conn \<Rightarrow> (throwable, handle option) result \<times> task \<times> conn" where
  "complete_polling s = (let (r, t) = duckdb_pending_complete (fst s) in (r, t, snd s))"

function await_polling ::
    "(handle \<Rightarrow> bool) \<Rightarrow> step_answer list \<Rightarrow> task \<times> conn \<Rightarrow> ((throwable, handle option) result \<times> task \<times> conn) option" where
  "await_polling failed as s =
     (case duckdb_task_step failed as s of
        None \<Rightarrow> None
      | Some (finished, s', more_as) \<Rightarrow>
          if finished then Some (complete_polling s') else await_polling failed more_as s')"
  by auto
termination
  by (relation "measure (\<lambda>(failed, as, s). length as)") (auto dest: task_step_shorter)

definition await ::
    "(handle \<Rightarrow> bool) \<Rightarrow> thread \<Rightarrow> step_answer list \<Rightarrow> (task \<times> conn) option
      \<Rightarrow> ((throwable, handle option) result \<times> (task \<times> conn) option) option" where
  "await failed th as intern =
     (case duckdb_pending_enter th intern of
        Inl err \<Rightarrow> Some (Inl err, intern)
      | Inr s \<Rightarrow> map_option (\<lambda>(r, s'). (r, Some s')) (await_polling failed as s))"

definition isReady ::
    "(handle \<Rightarrow> bool) \<Rightarrow> thread \<Rightarrow> step_answer list \<Rightarrow> (task \<times> conn) option
      \<Rightarrow> ((throwable, bool) result \<times> (task \<times> conn) option) option" where
  "isReady failed th as intern =
     (case duckdb_pending_enter th intern of
        Inl err \<Rightarrow> Some (Inl err, intern)
      | Inr s \<Rightarrow> map_option (\<lambda>(finished, s', more_as). (Inr finished, Some s')) (duckdb_task_step failed as s))"

definition destroy_task_result :: "task \<Rightarrow> conn \<Rightarrow> conn" where
  "destroy_task_result t c = log_native (case tk_result t of None \<Rightarrow> [] | Some h \<Rightarrow> [N_destroy_result h]) c"

definition duckdb_task_cancel :: "(handle \<Rightarrow> bool) \<Rightarrow> task \<times> conn \<Rightarrow> task \<times> conn" where
  "duckdb_task_cancel failed s =
     (if tk_done (fst s) then s
      else
        let c = (case tk_record (fst s) of
                   None \<Rightarrow> snd s
                 | Some i \<Rightarrow> duckdb_open_result_destroy failed i (snd query_interrupted)
                     (end_session (or_session (records (snd s) ! i)) (snd query_interrupted) (snd s)))
        in ((fst s)\<lparr>tk_record := None, tk_result := None, tk_consumed := True, tk_error := Some query_interrupted,
              tk_done := True\<rparr>,
            destroy_task_result (fst s) c))"

definition cancel ::
    "(handle \<Rightarrow> bool) \<Rightarrow> thread \<Rightarrow> (task \<times> conn) option \<Rightarrow> (throwable, unit) result \<times> (task \<times> conn) option" where
  "cancel failed th intern =
     (case duckdb_pending_enter th intern of
        Inl err \<Rightarrow> (Inl err, intern)
      | Inr s \<Rightarrow> (Inr (), Some (duckdb_task_cancel failed s)))"

section \<open>The slice of a pumped query\<close>

text \<open>
  \<open>drive_pending_slice\<close>: DuckDB's states with the clock (in nanoseconds) read after each. The result is the
  state returned and the sleeps on the way; \<open>None\<close> when the observations do not suffice.
\<close>

definition pending_slice_budget :: nat where
  "pending_slice_budget = 1000 * 1000"

definition backoff :: "nat \<Rightarrow> nat" where
  "backoff idle = 32 * 2 ^ idle * 1000"

fun slice_loop :: "nat \<Rightarrow> nat \<Rightarrow> (pending_state \<times> nat) list \<Rightarrow> (pending_state \<times> nat list) option" where
  "slice_loop deadline idle [] = None"
| "slice_loop deadline idle ((st, now) # obs) =
     (if st = PS_ready \<or> st = PS_error then Some (st, [])
      else if now \<ge> deadline then Some (st, [])
      else if st \<noteq> PS_no_tasks then slice_loop deadline 0 obs
      else let idle' = (if idle < 5 then idle + 1 else idle)
           in map_option (\<lambda>(r, sleeps). (r, min (backoff idle') (deadline - now) # sleeps)) (slice_loop deadline idle' obs))"

definition drive_pending_slice :: "nat \<Rightarrow> (pending_state \<times> nat) list \<Rightarrow> (pending_state \<times> nat list) option" where
  "drive_pending_slice start obs = slice_loop (start + pending_slice_budget) 0 obs"

section \<open>The task and its record\<close>

text \<open>Until the query has ended the task has nothing but its open record; afterwards the record is gone.\<close>

definition polling_ok :: "task \<times> conn \<Rightarrow> bool" where
  "polling_ok s \<longleftrightarrow> tk_mode (fst s) = POLLING
     \<and> (case tk_record (fst s) of
          None \<Rightarrow> tk_done (fst s) \<and> (tk_error (fst s) \<noteq> None \<longrightarrow> tk_consumed (fst s))
            \<and> (tk_consumed (fst s) \<longleftrightarrow> tk_result (fst s) = None)
        | Some i \<Rightarrow> \<not> tk_done (fst s) \<and> \<not> tk_consumed (fst s) \<and> tk_error (fst s) = None \<and> tk_result (fst s) = None
            \<and> i < length (records (snd s)) \<and> or_pending (records (snd s) ! i) \<noteq> None
            \<and> \<not> or_streaming (records (snd s) ! i))"

definition closed_record :: "nat \<Rightarrow> conn \<Rightarrow> bool" where
  "closed_record i c \<longleftrightarrow> or_pending (records c ! i) = None \<and> i \<notin> set (open_results c)"

lemma end_session_simps [simp]:
  "records (end_session n reason c) = records c" "open_results (end_session n reason c) = open_results c"
  "natives (end_session n reason c) = natives c @ (case n of None \<Rightarrow> [] | Some k \<Rightarrow> [N_session_close k reason])"
  by (simp_all add: end_session_def log_native_def split: option.split)

lemma execute_pending_simps [simp]:
  "records (execute_pending i c) = records c" "open_results (execute_pending i c) = open_results c"
  "or_pending (records c ! i) = Some h \<Longrightarrow> natives (execute_pending i c) = natives c @ [N_execute_pending h]"
  by (simp_all add: execute_pending_def native_pending_def log_native_def)

lemma finish_pending_closes:
  assumes "i < length (records c)" "or_pending (records c ! i) = Some h"
  shows "closed_record i (finish_pending i c)" "natives (finish_pending i c) = natives c @ [N_destroy_pending h]"
  using assms
  by (simp_all add: finish_pending_def closed_record_def duckdb_open_result_drained_def duckdb_open_result_unregister_def
      set_state_def set_record_def log_native_def)

lemma open_result_destroy_closes:
  assumes "i < length (records c)" "or_pending (records c ! i) = Some h" "\<not> or_streaming (records c ! i)"
  shows "closed_record i (duckdb_open_result_destroy failed i reason c)"
    "natives (duckdb_open_result_destroy failed i reason c) = natives c
       @ (case or_session (records c ! i) of None \<Rightarrow> []
          | Some n \<Rightarrow> [N_session_close n (if reason = [] then ''Result destroyed'' else reason)])
       @ (if failed h then [] else [N_interrupt]) @ [N_execute_pending h, N_destroy_pending h]"
  using assms
  by (simp_all add: duckdb_open_result_destroy_def duckdb_open_result_release_def closed_record_def Let_def
      duckdb_open_result_unregister_def set_state_def set_record_def log_native_def duckdb_discard_pending_def
      split: option.split)

text \<open>Whether DuckDB's answer ends the query, and what awaiting it then returns.\<close>

definition decisive :: "nat option \<Rightarrow> step_answer \<Rightarrow> bool" where
  "decisive session a \<longleftrightarrow> (session \<noteq> None \<and> sa_lease a \<noteq> None) \<or> sa_state a = PS_ready \<or> sa_state a = PS_error"

definition outcome :: "nat option \<Rightarrow> step_answer \<Rightarrow> (throwable, handle option) result" where
  "outcome session a =
     (if session \<noteq> None \<and> sa_lease a \<noteq> None then Inl (duckdb_throw_error E_Internal (sa_lease a))
      else case sa_execute a of
        Inr h \<Rightarrow> Inr (Some h)
      | Inl (ty, err) \<Rightarrow> Inl (duckdb_throw_error ty
          (Some (if err = None \<or> err = Some [] then ''Query execution failed'' else the err))))"

lemma step_once_waits:
  assumes "polling_ok s" "tk_record (fst s) = Some i" "\<not> decisive (or_session (records (snd s) ! i)) a"
  shows "duckdb_task_step_once failed a s = (False, s)"
  using assms
  by (cases s) (auto simp: duckdb_task_step_once_def polling_ok_def decisive_def step_pumped_def step_plain_def split: option.split)

lemma step_once_ends:
  assumes "polling_ok s" "tk_record (fst s) = Some i" "decisive (or_session (records (snd s) ! i)) a"
  shows "\<exists>s'. duckdb_task_step_once failed a s = (True, s') \<and> polling_ok s' \<and> tk_record (fst s') = None
     \<and> closed_record i (snd s') \<and> fst (complete_polling s') = outcome (or_session (records (snd s) ! i)) a"
proof -
  obtain t c where s: "s = (t, c)" by fastforce
  from assms(1,2) obtain h where ok: "i < length (records c)" "or_pending (records c ! i) = Some h" "\<not> or_streaming (records c ! i)"
    "tk_mode t = POLLING" "tk_error t = None" "tk_result t = None" "\<not> tk_consumed t" "tk_record t = Some i"
    by (auto simp: polling_ok_def s)
  show ?thesis
  proof (cases "or_session (records c ! i) \<noteq> None \<and> sa_lease a \<noteq> None")
    case True
    then obtain n e where n: "or_session (records c ! i) = Some n" "sa_lease a = Some e" by auto
    have "closed_record i (duckdb_open_result_destroy failed i e (end_session (Some n) e c))"
      by (rule open_result_destroy_closes) (use ok in simp_all)
    then show ?thesis
      using ok n by (simp add: s duckdb_task_step_once_def step_pumped_def polling_ok_def outcome_def complete_polling_def
          duckdb_pending_complete_def)
  next
    case False
    have st: "sa_state a = PS_ready \<or> sa_state a = PS_error" using assms(3) False by (auto simp: decisive_def s)
    define c' where "c' = (case or_session (records c ! i) of
        None \<Rightarrow> execute_pending i c
      | Some n \<Rightarrow> if sa_state a = PS_ready then end_session (Some n) [] (execute_pending i c)
          else execute_pending i (end_session (Some n) (sa_failure a) c))"
    have c': "records c' = records c" by (simp add: c'_def split: option.split)
    have step: "duckdb_task_step_once failed a s =
        (True, (fst (duckdb_task_finish_pending (sa_execute a) i (t, c')))\<lparr>tk_done := True\<rparr>, finish_pending i c')"
      using ok False st
      by (auto simp: s duckdb_task_step_once_def step_pumped_def step_plain_def c'_def duckdb_task_finish_pending_def split: option.split)
    have "closed_record i (finish_pending i c')"
      by (rule finish_pending_closes) (use ok c' in simp_all)
    then show ?thesis
      using ok False unfolding step
      by (cases "sa_execute a") (auto simp: s duckdb_task_finish_pending_def polling_ok_def outcome_def complete_polling_def
          duckdb_pending_complete_def)
  qed
qed

lemma await_waits:
  assumes "polling_ok s" "tk_record (fst s) = Some i" "\<not> decisive (or_session (records (snd s) ! i)) a"
  shows "await_polling failed (a # as) s = await_polling failed as s"
  using step_once_waits [OF assms, of failed] by (subst (1 2) await_polling.simps) (simp split: option.split)

text \<open>
  C16. Awaiting a polled query returns exactly when DuckDB ends it. As long as no answer is decisive the loop goes on;
  with the first decisive answer it returns that answer's outcome, whatever the answers after it, the query's
  record is closed, and the query counts as consumed.
\<close>

theorem await_polling_outcome:
  assumes "polling_ok s" "tk_record (fst s) = Some i"
  shows "case find (decisive (or_session (records (snd s) ! i))) as of
      None \<Rightarrow> await_polling failed as s = None
    | Some a \<Rightarrow> \<exists>s'. await_polling failed as s = Some (outcome (or_session (records (snd s) ! i)) a, s')
        \<and> polling_ok s' \<and> tk_done (fst s') \<and> tk_consumed (fst s') \<and> closed_record i (snd s')"
proof (induction as)
  case (Cons a as)
  show ?case
  proof (cases "decisive (or_session (records (snd s) ! i)) a")
    case True
    from step_once_ends [OF assms this, of failed] obtain s' where s': "duckdb_task_step_once failed a s = (True, s')"
      "polling_ok s'" "tk_record (fst s') = None" "closed_record i (snd s')"
      "fst (complete_polling s') = outcome (or_session (records (snd s) ! i)) a" by blast
    have "await_polling failed (a # as) s = Some (complete_polling s')" using s'(1) by simp
    moreover have "polling_ok (snd (complete_polling s')) \<and> tk_done (fst (snd (complete_polling s')))
        \<and> tk_consumed (fst (snd (complete_polling s'))) \<and> snd (snd (complete_polling s')) = snd s'"
      using s'(2,3) by (auto simp: complete_polling_def duckdb_pending_complete_def polling_ok_def split_beta split: option.split)
    ultimately show ?thesis using True s'(4,5) by (cases "complete_polling s'") simp
  next
    case False
    then show ?thesis using Cons.IH unfolding await_waits [OF assms False, of failed as] by simp
  qed
qed (simp)

text \<open>
  Cancelling a polled query that has not ended interrupts it for good: whatever DuckDB would still answer,
  the query is ready and awaiting it throws the interruption. Natively the session is closed first, then the
  query is interrupted unless it has already failed, drained, and its handle destroyed. A query that has ended is
  left alone.
\<close>

theorem polling_cancel_interrupts:
  assumes "polling_ok s"
  shows "case tk_record (fst s) of
      None \<Rightarrow> duckdb_task_cancel failed s = s
    | Some i \<Rightarrow>
        let s' = duckdb_task_cancel failed s; h = the (or_pending (records (snd s) ! i)) in
        polling_ok s' \<and> closed_record i (snd s')
      \<and> natives (snd s') = natives (snd s)
          @ (case or_session (records (snd s) ! i) of None \<Rightarrow> []
             | Some n \<Rightarrow> [N_session_close n ''Query interrupted'', N_session_close n ''Query interrupted''])
          @ (if failed h then [] else [N_interrupt]) @ [N_execute_pending h, N_destroy_pending h]
      \<and> duckdb_task_step failed [a] s' = Some (True, s', [])
      \<and> await_polling failed (a # as) s' = Some (Inl (duckdb_throw_error E_Interrupt (Some ''Query interrupted'')), s')"
proof (cases "tk_record (fst s)")
  case None
  then show ?thesis using assms by (simp add: duckdb_task_cancel_def polling_ok_def)
next
  case (Some i)
  obtain t c where s: "s = (t, c)" by fastforce
  from assms Some obtain h where ok: "i < length (records c)" "or_pending (records c ! i) = Some h" "\<not> or_streaming (records c ! i)"
    "tk_mode t = POLLING" "tk_error t = None" "tk_result t = None" "\<not> tk_consumed t" "tk_record t = Some i" "\<not> tk_done t"
    by (auto simp: polling_ok_def s)
  let ?c = "end_session (or_session (records c ! i)) ''Query interrupted'' c"
  have "i < length (records ?c)" "or_pending (records ?c ! i) = Some h" "\<not> or_streaming (records ?c ! i)"
    using ok by simp_all
  note closes = open_result_destroy_closes [OF this, of failed "''Query interrupted''"]
  have s': "duckdb_task_cancel failed s =
      (t\<lparr>tk_record := None, tk_result := None, tk_consumed := True, tk_error := Some query_interrupted, tk_done := True\<rparr>,
       duckdb_open_result_destroy failed i ''Query interrupted'' ?c)"
    using ok by (simp add: duckdb_task_cancel_def s query_interrupted_def destroy_task_result_def log_native_def)
  then show ?thesis
    using ok closes Some
    by (simp add: s Let_def polling_ok_def duckdb_task_step_once_def complete_polling_def duckdb_pending_complete_def
        query_interrupted_def split: option.split)
qed

text \<open>
  A pumped query closes its session before DuckDB can cancel its executor, in every step that fails it:
  a worker of DuckDB that waits for PHP would otherwise keep the cancellation spinning. When the lease could not
  start, and when the query failed, the session is closed before the first interrupt and before
  \<open>duckdb_execute_pending\<close>.
\<close>

theorem failing_step_closes_session_first:
  assumes "polling_ok s" "tk_record (fst s) = Some i" "or_session (records (snd s) ! i) = Some n"
    "or_pending (records (snd s) ! i) = Some h"
  shows "(sa_lease a = Some e \<longrightarrow>
        natives (snd (snd (duckdb_task_step_once failed a s))) = natives (snd s)
          @ [N_session_close n e, N_session_close n (if e = [] then ''Result destroyed'' else e)]
          @ (if failed h then [] else [N_interrupt]) @ [N_execute_pending h, N_destroy_pending h])
    \<and> (sa_lease a = None \<and> sa_state a = PS_error \<longrightarrow>
        natives (snd (snd (duckdb_task_step_once failed a s))) = natives (snd s)
          @ [N_session_close n (sa_failure a), N_execute_pending h, N_destroy_pending h])"
proof (intro conjI impI)
  obtain t c where s: "s = (t, c)" by fastforce
  have ok: "i < length (records c)" "or_pending (records c ! i) = Some h" "\<not> or_streaming (records c ! i)" "tk_mode t = POLLING"
    using assms by (auto simp: polling_ok_def s)
  {
    assume a: "sa_lease a = Some e"
    have "i < length (records (end_session (Some n) e c))" "or_pending (records (end_session (Some n) e c) ! i) = Some h"
      "\<not> or_streaming (records (end_session (Some n) e c) ! i)" using ok by simp_all
    note closes = open_result_destroy_closes [OF this, of failed e]
    then show "natives (snd (snd (duckdb_task_step_once failed a s))) = natives (snd s)
          @ [N_session_close n e, N_session_close n (if e = [] then ''Result destroyed'' else e)]
          @ (if failed h then [] else [N_interrupt]) @ [N_execute_pending h, N_destroy_pending h]"
      using assms ok a by (simp add: s duckdb_task_step_once_def step_pumped_def)
  next
    assume a: "sa_lease a = None \<and> sa_state a = PS_error"
    let ?c = "execute_pending i (end_session (Some n) (sa_failure a) c)"
    have "i < length (records ?c)" "or_pending (records ?c ! i) = Some h" using ok by simp_all
    note closes = finish_pending_closes [OF this]
    have "natives ?c = natives c @ [N_session_close n (sa_failure a), N_execute_pending h]" using ok by simp
    then show "natives (snd (snd (duckdb_task_step_once failed a s))) = natives (snd s)
          @ [N_session_close n (sa_failure a), N_execute_pending h, N_destroy_pending h]"
      using assms ok a closes
      by (cases "sa_execute a") (auto simp: s duckdb_task_step_once_def step_pumped_def duckdb_task_finish_pending_def)
  }
qed

section \<open>Slices keep their budget\<close>

text \<open>The clock's readings respect the sleeps: the next reading is no earlier than the end of the sleep before it.\<close>

definition next_idle :: "pending_state \<Rightarrow> nat \<Rightarrow> nat" where
  "next_idle st idle = (if st \<noteq> PS_no_tasks then 0 else if idle < 5 then idle + 1 else idle)"

fun clock_respects_sleeps :: "nat \<Rightarrow> nat \<Rightarrow> (pending_state \<times> nat) list \<Rightarrow> bool" where
  "clock_respects_sleeps deadline idle ((st, now) # (st', now') # obs) =
     (now + (if st = PS_no_tasks then min (backoff (next_idle st idle)) (deadline - now) else 0) \<le> now'
      \<and> clock_respects_sleeps deadline (next_idle st idle) ((st', now') # obs))"
| "clock_respects_sleeps deadline idle _ = True"

lemma slice_loop_bounded:
  "slice_loop deadline idle ((st, now) # obs) = Some (r, sleeps) \<Longrightarrow> clock_respects_sleeps deadline idle ((st, now) # obs)
    \<Longrightarrow> idle \<le> 5 \<Longrightarrow> sum_list sleeps \<le> deadline - now \<and> (\<forall>d \<in> set sleeps. d \<le> backoff 5)"
proof (induction obs arbitrary: idle st now sleeps)
  case Nil
  then show ?case by (auto split: if_splits)
next
  case (Cons o' obs)
  obtain st' now' where o': "o' = (st', now')" by fastforce
  have le: "next_idle st idle \<le> 5" using Cons.prems(3) by (simp add: next_idle_def)
  have "32 * 2 ^ next_idle st idle * 1000 \<le> (32 * 2 ^ 5 * 1000 :: nat)"
    using le power_increasing [OF le, of "2 :: nat"] by simp
  then have b: "backoff (next_idle st idle) \<le> backoff 5" by (simp add: backoff_def)
  show ?case
  proof (cases "st = PS_ready \<or> st = PS_error \<or> now \<ge> deadline")
    case True
    then show ?thesis using Cons.prems by (auto split: if_splits)
  next
    case False
    have ck: "clock_respects_sleeps deadline (next_idle st idle) ((st', now') # obs)"
      and late: "now + (if st = PS_no_tasks then min (backoff (next_idle st idle)) (deadline - now) else 0) \<le> now'"
      using Cons.prems(2) by (simp_all add: o')
    show ?thesis
    proof (cases "st = PS_no_tasks")
      case True
      then obtain ss where ss: "slice_loop deadline (next_idle st idle) ((st', now') # obs) = Some (r, ss)"
        "sleeps = min (backoff (next_idle st idle)) (deadline - now) # ss"
        using Cons.prems(1) False by (subst (asm) slice_loop.simps(2)) (auto simp: o' next_idle_def Let_def simp del: slice_loop.simps(2))
      show ?thesis using Cons.IH [OF ss(1) ck le] ss(2) late b True False by auto
    next
      case spin: False
      then have "slice_loop deadline (next_idle st idle) ((st', now') # obs) = Some (r, sleeps)"
        using Cons.prems(1) False by (simp add: o' next_idle_def)
      from Cons.IH [OF this ck le] show ?thesis using late spin by auto
    qed
  qed
qed

text \<open>
  A slice of a pumped query returns to PHP in time. It never sleeps longer than 1.024 ms at once, and all its
  sleeps together stay within the budget of 1 ms that is left when it starts.
\<close>

theorem slice_sleeps_bounded:
  assumes "drive_pending_slice start ((st, now) # obs) = Some (r, sleeps)" "start \<le> now"
    "clock_respects_sleeps (start + pending_slice_budget) 0 ((st, now) # obs)"
  shows "sum_list sleeps \<le> pending_slice_budget \<and> (\<forall>d \<in> set sleeps. d \<le> 1024 * 1000)"
  using slice_loop_bounded [of "start + pending_slice_budget" 0 st now obs r sleeps] assms
  by (auto simp: drive_pending_slice_def backoff_def)

lemma slice_sleeps_bounded_witness:
  "sum_list [64000, 128000] \<le> pending_slice_budget"
  using slice_sleeps_bounded [of 0 PS_no_tasks 10 "[(PS_no_tasks, 70000), (PS_ready, 300000)]" PS_ready "[64000, 128000]"]
  by (simp add: drive_pending_slice_def backoff_def pending_slice_budget_def next_idle_def)

section \<open>A polled query\<close>

definition polled :: "nat option \<Rightarrow> task \<times> conn" where
  "polled session = (new_task POLLING (Some 0), duckdb_open_result_pending 5 session initial_conn)"

definition polled_answer :: "pending_state \<Rightarrow> step_answer" where
  "polled_answer st = \<lparr>sa_lease = None, sa_state = st, sa_execute = Inr 9, sa_failure = ''IO Error: x'', sa_unwinding = False\<rparr>"

lemma polled_ok: "polling_ok (polled session)" "tk_record (fst (polled session)) = Some 0"
    "or_session (records (snd (polled session)) ! 0) = session" "or_pending (records (snd (polled session)) ! 0) = Some 5"
    "natives (snd (polled session)) = []"
  by (simp_all add: polling_ok_def polled_def new_task_def duckdb_open_result_pending_def add_record_def initial_conn_def)

lemma await_polling_outcome_witness:
  "\<exists>s'. await_polling (\<lambda>_. False) [polled_answer PS_no_tasks, polled_answer PS_ready] (polled (Some 3)) = Some (Inr (Some 9), s')"
  using await_polling_outcome [OF polled_ok(1,2), of "\<lambda>_. False" "[polled_answer PS_no_tasks, polled_answer PS_ready]" "Some 3"]
  by (auto simp: polled_ok decisive_def polled_answer_def outcome_def simp del: await_polling.simps)

lemma polling_cancel_interrupts_witness:
  "natives (snd (duckdb_task_cancel (\<lambda>_. False) (polled None))) = [N_interrupt, N_execute_pending 5, N_destroy_pending 5]"
  using polling_cancel_interrupts [OF polled_ok(1), of "\<lambda>_. False" None] by (simp add: polled_ok Let_def)

lemma failing_step_closes_session_first_witness:
  "natives (snd (snd (duckdb_task_step_once (\<lambda>_. False) (polled_answer PS_error) (polled (Some 3))))) =
     [N_session_close 3 ''IO Error: x'', N_execute_pending 5, N_destroy_pending 5]"
  using failing_step_closes_session_first [OF polled_ok(1,2), of "Some 3" 3 5 "polled_answer PS_error" "[]" "\<lambda>_. False"]
  by (simp add: polled_ok polled_answer_def)

end
