(* ===== verification/Pump.thy ===== *)
theory Pump
  imports Session Polling
begin

text \<open>
  Pumped statements, \<open>duckdb_pump_execute\<close> and \<open>duckdb_pump_query\<close> of \<open>src/src/copy_session.cpp\<close>: on a connection with PHP
  callbacks every statement runs through a session and a lease (\<open>Session\<close>). DuckDB's answers are explicit
  arguments; the native calls go to the log of \<open>Connection\<close>, where \<open>N_session_close n\<close> is \<open>duckdb_session_end\<close> of the
  session with number \<open>n\<close>. Every object DuckDB hands out on the way has a handle: the list of extracted statements, prepared
  statements, pending queries, and results, those of failed and of discarded executions too.
\<close>

section \<open>Driving a pending query\<close>

text \<open>
  \<open>drive_pending\<close>: the states DuckDB reports one after another give the final state and the sleeps
  in nanoseconds; \<open>None\<close> while DuckDB has not ended the query.
\<close>

fun drive_loop :: "nat \<Rightarrow> pending_state list \<Rightarrow> (pending_state \<times> nat list) option" where
  "drive_loop idle [] = None"
| "drive_loop idle (st # sts) =
     (if st = PS_ready \<or> st = PS_error then Some (st, [])
      else if st \<noteq> PS_no_tasks then drive_loop 0 sts
      else let idle' = (if idle < 5 then idle + 1 else idle)
           in map_option (\<lambda>(r, sleeps). (r, backoff idle' # sleeps)) (drive_loop idle' sts))"

definition drive_pending :: "pending_state list \<Rightarrow> pending_state option" where
  "drive_pending sts = map_option fst (drive_loop 0 sts)"

text \<open>\<open>reason\<close>: why the session closed, when PHP is unwinding.\<close>

definition duckdb_lease_failure :: "string option \<Rightarrow> string option \<Rightarrow> string \<Rightarrow> string" where
  "duckdb_lease_failure reason err fallback =
     (if reason \<noteq> None \<and> duckdb_classify_error_message err = E_Interrupt \<and> reason \<noteq> Some [] then the reason
      else if err \<noteq> None \<and> err \<noteq> Some [] then the err else fallback)"

definition no_helper :: "string \<Rightarrow> string" where
  "no_helper what = ''Unable to start the DuckDB helper thread: '' @ what"

section \<open>One statement\<close>

text \<open>DuckDB fills a result object either way; a failed one holds the error's type and message.\<close>

type_synonym reply = "(handle \<times> duckdb_error_type \<times> string option, handle) result"

definition reply_handle :: "reply \<Rightarrow> handle" where
  "reply_handle a = (case a of Inl (h, ty, err) \<Rightarrow> h | Inr h \<Rightarrow> h)"

lemma reply_handle_simps [simp]: "reply_handle (Inl (h, x)) = h" "reply_handle (Inr h) = h"
  by (simp_all add: reply_handle_def split: prod.split)

text \<open>
  What DuckDB answers for one prepared statement: the pending query, or the handle and message of the
  failure; why the helper could not start; the states of the pending query; its error; the reason an unwinding PHP closed
  the session with; the outcome of \<open>duckdb_execute_pending\<close>, or the result of executing the query only to discard it.
\<close>

record execution =
  ex_pending :: "(handle option \<times> string option, handle) result"
  ex_lease :: "string option"
  ex_states :: "pending_state list"
  ex_error :: "string option"
  ex_unwound :: "string option"
  ex_result :: reply
  ex_discarded :: handle

definition non_empty :: "string option \<Rightarrow> string \<Rightarrow> string" where
  "non_empty err fallback = (if err = None \<or> err = Some [] then fallback else the err)"

definition destroy_pending_if :: "handle option \<Rightarrow> native_call list" where
  "destroy_pending_if p = (case p of None \<Rightarrow> [] | Some h \<Rightarrow> [N_destroy_pending h])"

text \<open>The start error, or DuckDB's outcome and the session the stream keeps. \<open>None\<close>: the call has not returned.\<close>

definition duckdb_pump_execute ::
    "(handle \<Rightarrow> bool) \<Rightarrow> nat \<Rightarrow> bool \<Rightarrow> bool \<Rightarrow> execution \<Rightarrow> conn \<Rightarrow> ((string, reply \<times> nat option) result \<times> conn) option" where
  "duckdb_pump_execute failed n streaming keeps e c =
     (case ex_pending e of
        Inl (p, err) \<Rightarrow>
          let msg = non_empty err ''Failed to start query''
          in Some (Inl msg, log_native (destroy_pending_if p) (end_session (Some n) msg c))
      | Inr h \<Rightarrow>
          (case ex_lease e of
             Some what \<Rightarrow> Some (Inl (no_helper what), duckdb_discard_pending failed h (Some (ex_discarded e)) (end_session (Some n) (no_helper what) c))
           | None \<Rightarrow>
               (case drive_pending (ex_states e) of
                  None \<Rightarrow> None
                | Some st \<Rightarrow>
                    if st = PS_error
                    then let msg = duckdb_lease_failure (ex_unwound e) (ex_error e) ''Query execution failed''
                         in Some (Inl msg, duckdb_discard_pending failed h (Some (ex_discarded e)) (end_session (Some n) msg c))
                    else
                      let kept = (if streaming \<and> keeps \<and> (case ex_result e of Inr r \<Rightarrow> True | Inl _ \<Rightarrow> False) then Some n else None);
                          c1 = log_native [N_execute_pending h] c;
                          c2 = (if kept = None then end_session (Some n) [] c1 else c1)
                      in Some (Inr (ex_result e, kept), log_native [N_destroy_pending h] c2))))"

section \<open>All statements of a query text\<close>

text \<open>One extracted statement: its preparation, its type, its execution, and whether its result has rows.\<close>

record statement_run =
  sr_prepare :: "(handle option \<times> string option, handle) result"
  sr_type :: nat
  sr_execution :: execution
  sr_rows :: bool

record held_result =
  hr_handle :: handle
  hr_type :: "nat option"
  hr_rows :: bool

definition destroy_held :: "held_result option \<Rightarrow> native_call list" where
  "destroy_held held = (case held of None \<Rightarrow> [] | Some r \<Rightarrow> [N_destroy_result (hr_handle r)])"

definition destroy_prepare_if :: "handle option \<Rightarrow> native_call list" where
  "destroy_prepare_if p = (case p of None \<Rightarrow> [] | Some h \<Rightarrow> [N_destroy_prepare h])"

definition destroy_extracted_if :: "handle option \<Rightarrow> native_call list" where
  "destroy_extracted_if x = (case x of None \<Rightarrow> [] | Some h \<Rightarrow> [N_destroy_extracted h])"

fun pump_statements ::
    "(handle \<Rightarrow> bool) \<Rightarrow> nat \<Rightarrow> handle option \<Rightarrow> statement_run list \<Rightarrow> held_result option \<Rightarrow> conn
      \<Rightarrow> ((throwable, held_result option) result \<times> conn) option" where
  "pump_statements failed n x [] held c = Some (Inr held, log_native (destroy_extracted_if x) c)"
| "pump_statements failed n x (r # rs) held c =
     (case sr_prepare r of
        Inl (p, err) \<Rightarrow>
          Some (Inl (duckdb_throw_prepare_error (Some (case err of None \<Rightarrow> ''Failed to prepare statement'' | Some m \<Rightarrow> m))),
            log_native (destroy_prepare_if p @ destroy_extracted_if x @ destroy_held held) c)
      | Inr p \<Rightarrow>
          (case duckdb_pump_execute failed n False False (sr_execution r) c of
             None \<Rightarrow> None
           | Some (Inl msg, c1) \<Rightarrow>
               Some (Inl (duckdb_throw_start_error msg), log_native (N_destroy_prepare p # destroy_extracted_if x @ destroy_held held) c1)
           | Some (Inr (Inl (h, ty, err), kept), c1) \<Rightarrow>
               Some (Inl (duckdb_throw_result_error err ty),
                 log_native (N_destroy_prepare p # destroy_extracted_if x @ destroy_held held @ [N_destroy_result h]) c1)
           | Some (Inr (Inr h, kept), c1) \<Rightarrow>
               if held \<noteq> None \<and> hr_rows (the held)
               then pump_statements failed n x rs held (log_native [N_destroy_prepare p, N_destroy_result h] c1)
               else pump_statements failed n x rs (Some \<lparr>hr_handle = h, hr_type = Some (sr_type r), hr_rows = sr_rows r\<rparr>)
                      (log_native (N_destroy_prepare p # destroy_held held) c1)))"

text \<open>
  \<open>whole\<close>: why the helper could not start, and DuckDB's answer, when the text holds no statement or does not
  parse and is run as it is. \<open>x\<close>: the list of extracted statements, which DuckDB may hand out even then.
\<close>

definition duckdb_pump_query ::
    "(handle \<Rightarrow> bool) \<Rightarrow> nat \<Rightarrow> handle option \<Rightarrow> string option \<times> reply \<Rightarrow> string option \<Rightarrow> statement_run list \<Rightarrow> conn
      \<Rightarrow> ((throwable, held_result option) result \<times> conn) option" where
  "duckdb_pump_query failed n x whole unwound runs c =
     (if runs \<noteq> [] then pump_statements failed n x runs None c
      else let c1 = log_native (destroy_extracted_if x) c in
        (case whole of
           (Some what, _) \<Rightarrow> Some (Inl (duckdb_throw_start_error (no_helper what)), end_session (Some n) (no_helper what) c1)
         | (None, Inl (h, ty, err)) \<Rightarrow>
             Some (Inl (duckdb_throw_result_error err ty),
               log_native [N_destroy_result h] (end_session (Some n) (duckdb_lease_failure unwound err ''Query failed'') c1))
         | (None, Inr h) \<Rightarrow> Some (Inr (Some \<lparr>hr_handle = h, hr_type = None, hr_rows = True\<rparr>), end_session (Some n) [] c1)))"

section \<open>Driving ends with the query\<close>

definition final :: "pending_state \<Rightarrow> bool" where
  "final st \<longleftrightarrow> st = PS_ready \<or> st = PS_error"

lemma drive_loop_final: "map_option fst (drive_loop idle sts) = find final sts"
proof (induction sts arbitrary: idle)
  case (Cons st sts)
  have "map_option fst (map_option (\<lambda>(r, sleeps). (r, d # sleeps)) x) = map_option fst x" for d and x :: "(pending_state \<times> nat list) option"
    by (cases x) auto
  then show ?case using Cons by (simp add: final_def Let_def)
qed simp

lemma drive_loop_backoff: "drive_loop idle sts = Some (r, sleeps) \<Longrightarrow> idle \<le> 5 \<Longrightarrow> \<forall>d \<in> set sleeps. d \<le> backoff 5"
proof (induction sts arbitrary: idle sleeps)
  case (Cons st sts)
  define idle' where "idle' = (if idle < 5 then idle + 1 else idle)"
  have le: "idle' \<le> 5" using Cons.prems(2) by (simp add: idle'_def)
  have b: "backoff idle' \<le> backoff 5"
    using power_increasing [OF le, of "2 :: nat"] by (simp add: backoff_def)
  show ?case
    using Cons.prems(1) Cons.IH [of 0] Cons.IH [of idle'] le b
    by (auto simp: Let_def idle'_def [symmetric] split: if_splits)
qed simp

lemma drive_pending_find: "drive_pending sts = find final sts"
  by (simp add: drive_pending_def drive_loop_final)

lemma drive_pending_cases: "drive_pending sts = Some st \<Longrightarrow> st = PS_ready \<or> st = PS_error"
  by (auto simp: drive_pending_find find_Some_iff final_def)

text \<open>
  C36. A pumped statement returns exactly when DuckDB ends it: the call goes on only for a started query whose
  states never become final, and the back-off between two looks at it is at most 1.024 ms.
\<close>

theorem pump_execute_returns:
  "(duckdb_pump_execute failed n streaming keeps e c = None \<longleftrightarrow>
      (\<exists>h. ex_pending e = Inr h) \<and> ex_lease e = None \<and> find final (ex_states e) = None)
   \<and> (case drive_loop 0 (ex_states e) of None \<Rightarrow> True | Some (st, sleeps) \<Rightarrow> list_all (\<lambda>d. d \<le> 1024 * 1000) sleeps)"
proof
  show "duckdb_pump_execute failed n streaming keeps e c = None \<longleftrightarrow>
      (\<exists>h. ex_pending e = Inr h) \<and> ex_lease e = None \<and> find final (ex_states e) = None"
    by (auto simp: duckdb_pump_execute_def drive_pending_find Let_def split: sum.splits option.splits prod.splits)
  show "case drive_loop 0 (ex_states e) of None \<Rightarrow> True | Some (st, sleeps) \<Rightarrow> list_all (\<lambda>d. d \<le> 1024 * 1000) sleeps"
    using drive_loop_backoff [of 0 "ex_states e"] by (auto simp: list_all_iff backoff_def split: option.split)
qed

section \<open>Sessions of statements\<close>

lemma natives_log [simp]: "natives (log_native ns c) = natives c @ ns"
  by (simp add: log_native_def)

lemma natives_discard: "natives (duckdb_discard_pending failed h r c) =
    natives c @ (if failed h then [] else [N_interrupt]) @ [N_execute_pending h] @ destroy_result_if r @ [N_destroy_pending h]"
  by (simp add: duckdb_discard_pending_def)

definition cancels_executor :: "native_call \<Rightarrow> bool" where
  "cancels_executor x = (case x of N_interrupt \<Rightarrow> True | N_execute_pending h \<Rightarrow> True | N_destroy_pending h \<Rightarrow> True
     | N_destroy_result h \<Rightarrow> True | _ \<Rightarrow> False)"

lemma cancels_executor_simps [simp]:
  "cancels_executor N_interrupt" "cancels_executor (N_execute_pending h)" "cancels_executor (N_destroy_pending h)"
  "cancels_executor (N_destroy_result h)"
  "\<not> cancels_executor (N_session_close n m)"
  by (simp_all add: cancels_executor_def)

text \<open>
  Every pumped statement ends its session exactly once, or hands it to its stream, and in time. A statement that
  fails to start or fails in DuckDB closes the session with its message before any call that can cancel the executor. One
  that DuckDB completes is executed first, and only a successful stream keeps its session.
\<close>

theorem pump_execute_ends_session:
  assumes "duckdb_pump_execute failed n streaming keeps e c = Some (out, c')"
  shows "\<exists>ns. natives c' = natives c @ ns
    \<and> (case out of
         Inl msg \<Rightarrow> \<exists>calls. ns = N_session_close n msg # calls \<and> list_all cancels_executor calls
       | Inr (a, None) \<Rightarrow> \<exists>h. ns = [N_execute_pending h, N_session_close n [], N_destroy_pending h] \<and> a = ex_result e
       | Inr (a, Some k) \<Rightarrow> \<exists>h r. ns = [N_execute_pending h, N_destroy_pending h] \<and> streaming \<and> k = n \<and> a = Inr r)"
  using assms
  by (auto simp: duckdb_pump_execute_def Let_def natives_discard destroy_pending_if_def
      split: sum.splits option.splits prod.splits if_splits)

section \<open>Every handle of a query text\<close>

lemma destroyed_log [simp]: "destroyed (log_native ns c) = destroyed c @ concat (map destroyed_by ns)"
  by (simp add: destroyed_def log_native_def)

lemma destroyed_end_session [simp]: "destroyed (end_session s m c) = destroyed c"
  by (simp add: end_session_def split: option.split)

lemma destroyed_discard [simp]: "destroyed (duckdb_discard_pending failed h r c) = destroyed c @ (case r of None \<Rightarrow> [] | Some d \<Rightarrow> [d]) @ [h]"
  by (simp add: duckdb_discard_pending_def split: option.split)

text \<open>The handles DuckDB creates for an execution, for a statement, and for the statements up to the first that fails.\<close>

definition completes :: "execution \<Rightarrow> bool" where
  "completes e \<longleftrightarrow> ex_lease e = None \<and> drive_pending (ex_states e) = Some PS_ready"

definition execution_succeeds :: "execution \<Rightarrow> bool" where
  "execution_succeeds e \<longleftrightarrow> (case ex_pending e of Inl x \<Rightarrow> False | Inr h \<Rightarrow> True) \<and> completes e
     \<and> (case ex_result e of Inl x \<Rightarrow> False | Inr h \<Rightarrow> True)"

definition run_succeeds :: "statement_run \<Rightarrow> bool" where
  "run_succeeds r \<longleftrightarrow> (case sr_prepare r of Inl x \<Rightarrow> False | Inr p \<Rightarrow> True) \<and> execution_succeeds (sr_execution r)"

definition created_by_execution :: "execution \<Rightarrow> handle multiset" where
  "created_by_execution e =
     (case ex_pending e of
        Inl (p, err) \<Rightarrow> mset_set (set_option p)
      | Inr h \<Rightarrow> {#h, if completes e then reply_handle (ex_result e) else ex_discarded e#})"

definition created_by_run :: "statement_run \<Rightarrow> handle multiset" where
  "created_by_run r =
     (case sr_prepare r of Inl (p, err) \<Rightarrow> mset_set (set_option p) | Inr p \<Rightarrow> {#p#} + created_by_execution (sr_execution r))"

fun created_by :: "statement_run list \<Rightarrow> handle multiset" where
  "created_by [] = {#}"
| "created_by (r # rs) = created_by_run r + (if run_succeeds r then created_by rs else {#})"

definition held_handle :: "held_result option \<Rightarrow> handle multiset" where
  "held_handle held = (case held of None \<Rightarrow> {#} | Some r \<Rightarrow> {#hr_handle r#})"

lemma pump_execute_conserves:
  assumes "duckdb_pump_execute failed n streaming keeps e c = Some (out, c')"
  shows "mset (destroyed c') + (case out of Inr (a, k) \<Rightarrow> {#reply_handle a#} | Inl msg \<Rightarrow> {#}) = mset (destroyed c) + created_by_execution e"
    "(case out of Inr (Inr h, k) \<Rightarrow> execution_succeeds e \<and> h = reply_handle (ex_result e) | _ \<Rightarrow> \<not> execution_succeeds e)"
  using assms
  by (auto simp: duckdb_pump_execute_def Let_def destroy_pending_if_def created_by_execution_def execution_succeeds_def completes_def
      dest: drive_pending_cases split: sum.splits option.splits prod.splits if_splits)

lemma destroyed_held: "mset (concat (map destroyed_by (destroy_held held))) = held_handle held"
  by (simp add: destroy_held_def held_handle_def split: option.split)

lemma destroyed_prepare_if: "mset (concat (map destroyed_by (destroy_prepare_if p))) = mset_set (set_option p)"
  by (simp add: destroy_prepare_if_def split: option.split)

lemma destroyed_extracted_if: "mset (concat (map destroyed_by (destroy_extracted_if x))) = mset_set (set_option x)"
  by (simp add: destroy_extracted_if_def split: option.split)

lemma pump_statements_conserves:
  "pump_statements failed n x runs held c = Some (out, c') \<Longrightarrow>
     mset (destroyed c') + (case out of Inr r \<Rightarrow> held_handle r | Inl _ \<Rightarrow> {#}) =
       mset (destroyed c) + held_handle held + mset_set (set_option x) + created_by runs"
proof (induction runs arbitrary: held c)
  case Nil
  then show ?case by (auto simp: destroyed_extracted_if)
next
  case (Cons r rs)
  show ?case
  proof (cases "sr_prepare r")
    case (Inl y)
    obtain p err where y: "y = (p, err)" by fastforce
    then have "c' = log_native (destroy_prepare_if p @ destroy_extracted_if x @ destroy_held held) c" "\<exists>t. out = Inl t"
      using Cons.prems Inl by auto
    then show ?thesis
      using Inl y by (auto simp: destroyed_held destroyed_prepare_if destroyed_extracted_if created_by_run_def run_succeeds_def ac_simps)
  next
    case (Inr p)
    from Cons.prems Inr obtain o1 c1 where e: "duckdb_pump_execute failed n False False (sr_execution r) c = Some (o1, c1)"
      by (auto split: option.splits)
    note cons = pump_execute_conserves(1) [OF e] and res = pump_execute_conserves(2) [OF e]
    have made: "created_by_run r = {#p#} + created_by_execution (sr_execution r)" using Inr by (simp add: created_by_run_def)
    show ?thesis
    proof (cases "\<exists>h k. o1 = Inr (Inr h, k)")
      case True
      then obtain h k where o1: "o1 = Inr (Inr h, k)" by blast
      have ok: "run_succeeds r" using res Inr by (auto simp: o1 run_succeeds_def)
      have kept: "mset (destroyed c1) + {#h#} = mset (destroyed c) + created_by_execution (sr_execution r)" using cons by (simp add: o1)
      show ?thesis
      proof (cases "held \<noteq> None \<and> hr_rows (the held)")
        case True
        from Cons.IH [of held "log_native [N_destroy_prepare p, N_destroy_result h] c1"] Cons.prems True Inr e o1 ok kept
        show ?thesis by (simp add: made ac_simps)
      next
        case False
        let ?held = "Some \<lparr>hr_handle = h, hr_type = Some (sr_type r), hr_rows = sr_rows r\<rparr>"
        from Cons.IH [of ?held "log_native (N_destroy_prepare p # destroy_held held) c1"] Cons.prems False Inr e o1
        have "mset (destroyed c') + (case out of Inr r \<Rightarrow> held_handle r | Inl _ \<Rightarrow> {#})
            = mset (destroyed c1) + {#p#} + held_handle held + {#h#} + mset_set (set_option x) + created_by rs"
          by (auto simp: destroyed_held held_handle_def [of ?held] split: if_splits)
        then show ?thesis using ok kept by (simp add: made ac_simps)
      qed
    next
      case False
      then have fails: "\<not> run_succeeds r" using res Inr by (auto simp: run_succeeds_def split: sum.splits prod.splits)
      define last where "last = (case o1 of Inr (a, k) \<Rightarrow> [N_destroy_result (reply_handle a)] | Inl msg \<Rightarrow> [])"
      have "mset (destroyed c1) + mset (concat (map destroyed_by last)) = mset (destroyed c) + created_by_execution (sr_execution r)"
        using cons by (auto simp: last_def split: sum.splits prod.splits)
      moreover have "c' = log_native (N_destroy_prepare p # destroy_extracted_if x @ destroy_held held @ last) c1 \<and> (\<exists>t. out = Inl t)"
        using Cons.prems Inr e False by (auto simp: last_def split: sum.splits prod.splits)
      ultimately show ?thesis using fails by (auto simp: destroyed_held destroyed_extracted_if made ac_simps)
    qed
  qed
qed

text \<open>
  C18. A pumped query text leaks no handle and destroys none twice. Whatever its statements do, in success
  and in every error, the objects DuckDB handed out for the statements it reached (the list of extracted statements,
  prepared statements, pending queries, and the results of successful, failed and discarded executions) are exactly those
  destroyed, each once, and the one result returned.
\<close>

theorem pump_query_conserves_handles:
  assumes "duckdb_pump_query failed n x whole unwound runs c = Some (out, c')"
  shows "mset (destroyed c') + (case out of Inr r \<Rightarrow> held_handle r | Inl _ \<Rightarrow> {#}) =
    mset (destroyed c) + mset_set (set_option x)
      + (if runs = [] then (case whole of (None, a) \<Rightarrow> {#reply_handle a#} | _ \<Rightarrow> {#}) else created_by runs)"
proof (cases "runs = []")
  case True
  then show ?thesis
    using assms by (auto simp: duckdb_pump_query_def held_handle_def destroyed_extracted_if Let_def split: option.splits prod.splits sum.splits)
next
  case False
  then show ?thesis
    using assms pump_statements_conserves [of failed n x runs None c out c'] by (simp add: duckdb_pump_query_def held_handle_def)
qed

section \<open>The result of a query text\<close>

definition result_of :: "statement_run \<Rightarrow> held_result" where
  "result_of r = \<lparr>hr_handle = reply_handle (ex_result (sr_execution r)), hr_type = Some (sr_type r), hr_rows = sr_rows r\<rparr>"

text \<open>The first result with rows, otherwise the last one.\<close>

definition chosen :: "held_result list \<Rightarrow> held_result option" where
  "chosen rs = (case find hr_rows rs of Some r \<Rightarrow> Some r | None \<Rightarrow> if rs = [] then None else Some (last rs))"

text \<open>The error of an execution and of a statement that fails.\<close>

definition error_of_execution :: "execution \<Rightarrow> throwable" where
  "error_of_execution e =
     (case ex_pending e of
        Inl (h, err) \<Rightarrow> duckdb_throw_start_error (non_empty err ''Failed to start query'')
      | Inr h \<Rightarrow>
          if ex_lease e \<noteq> None then duckdb_throw_start_error (no_helper (the (ex_lease e)))
          else if drive_pending (ex_states e) = Some PS_error
          then duckdb_throw_start_error (duckdb_lease_failure (ex_unwound e) (ex_error e) ''Query execution failed'')
          else duckdb_throw_result_error (snd (snd (projl (ex_result e)))) (fst (snd (projl (ex_result e)))))"

definition error_of :: "statement_run \<Rightarrow> throwable" where
  "error_of r =
     (case sr_prepare r of
        Inl (p, err) \<Rightarrow> duckdb_throw_prepare_error (Some (case err of None \<Rightarrow> ''Failed to prepare statement'' | Some m \<Rightarrow> m))
      | Inr p \<Rightarrow> error_of_execution (sr_execution r))"

text \<open>Whether DuckDB ends the statement at all.\<close>

definition run_ends :: "statement_run \<Rightarrow> bool" where
  "run_ends r \<longleftrightarrow> (case sr_prepare r of Inl x \<Rightarrow> True
     | Inr p \<Rightarrow> (case ex_pending (sr_execution r) of Inl x \<Rightarrow> True
         | Inr h \<Rightarrow> ex_lease (sr_execution r) \<noteq> None \<or> find final (ex_states (sr_execution r)) \<noteq> None))"

lemma pump_execute_success:
  assumes "execution_succeeds e"
  shows "\<exists>c'. duckdb_pump_execute failed n False False e c = Some (Inr (Inr (reply_handle (ex_result e)), None), c')"
  using assms
  by (auto simp: execution_succeeds_def completes_def duckdb_pump_execute_def Let_def split: sum.splits)

lemma pump_statements_success:
  "list_all run_succeeds runs \<Longrightarrow>
     \<exists>c'. pump_statements failed n x (runs @ rest_runs) held c =
        pump_statements failed n x rest_runs
          (if held \<noteq> None \<and> hr_rows (the held) then held
           else if runs = [] then held else chosen (map result_of runs)) c'"
proof (induction runs arbitrary: held c)
  case Nil
  show ?case by (intro exI [of _ c]) simp
next
  case (Cons r rs)
  obtain p where p: "sr_prepare r = Inr p" using Cons.prems by (auto simp: run_succeeds_def split: sum.splits)
  have "execution_succeeds (sr_execution r)" using Cons.prems by (simp add: run_succeeds_def)
  from pump_execute_success [OF this, of failed n c] obtain c1 where
    c1: "duckdb_pump_execute failed n False False (sr_execution r) c = Some (Inr (Inr (reply_handle (ex_result (sr_execution r))), None), c1)" by blast
  show ?case
  proof (cases "held \<noteq> None \<and> hr_rows (the held)")
    case True
    then show ?thesis using Cons.IH [of held] Cons.prems p c1 by (simp split: if_splits)
  next
    case False
    have "pump_statements failed n x ((r # rs) @ rest_runs) held c = pump_statements failed n x (rs @ rest_runs) (Some (result_of r))
        (log_native (N_destroy_prepare p # destroy_held held) c1)"
      using False p c1 by (cases held) (simp_all add: result_of_def)
    moreover have "(if Some (result_of r) \<noteq> None \<and> hr_rows (the (Some (result_of r))) then Some (result_of r)
        else if rs = [] then Some (result_of r) else chosen (map result_of rs)) = chosen (map result_of (r # rs))"
      by (simp add: chosen_def split: option.split)
    moreover have "(if held \<noteq> None \<and> hr_rows (the held) then held else if r # rs = [] then held else chosen (map result_of (r # rs)))
        = chosen (map result_of (r # rs))" using False by auto
    moreover have "list_all run_succeeds rs" using Cons.prems by simp
    ultimately show ?thesis
      using Cons.IH [of "Some (result_of r)" "log_native (N_destroy_prepare p # destroy_held held) c1"] by (simp only:)
  qed
qed

lemma pump_execute_fails:
  assumes "\<not> execution_succeeds e" "case ex_pending e of Inl x \<Rightarrow> True | Inr h \<Rightarrow> ex_lease e \<noteq> None \<or> find final (ex_states e) \<noteq> None"
  shows "\<exists>out c'. duckdb_pump_execute failed n False False e c = Some (out, c')
    \<and> (case out of Inl msg \<Rightarrow> error_of_execution e = duckdb_throw_start_error msg
       | Inr (Inl (h, ty, err), k) \<Rightarrow> error_of_execution e = duckdb_throw_result_error err ty
       | Inr (Inr h, k) \<Rightarrow> False)"
proof (cases "ex_pending e")
  case (Inl x)
  then show ?thesis by (cases x) (simp add: duckdb_pump_execute_def error_of_execution_def Let_def)
next
  case (Inr h)
  show ?thesis
  proof (cases "ex_lease e")
    case (Some what)
    then show ?thesis using Inr by (simp add: duckdb_pump_execute_def error_of_execution_def)
  next
    case None
    then obtain st where st: "drive_pending (ex_states e) = Some st" using assms(2) Inr by (auto simp: drive_pending_find)
    show ?thesis
    proof (cases "st = PS_error")
      case True
      then show ?thesis using Inr None st by (simp add: duckdb_pump_execute_def error_of_execution_def Let_def)
    next
      case False
      then have "st = PS_ready" using drive_pending_cases [OF st] by simp
      with assms(1) Inr None st obtain d ty err where "ex_result e = Inl (d, ty, err)"
        by (cases "ex_result e") (auto simp: execution_succeeds_def completes_def)
      then show ?thesis using Inr None st False by (simp add: duckdb_pump_execute_def error_of_execution_def Let_def)
    qed
  qed
qed

lemma pump_statements_fails:
  assumes "\<not> run_succeeds r" "run_ends r"
  shows "\<exists>c'. pump_statements failed n x (r # rs) held c = Some (Inl (error_of r), c')"
proof (cases "sr_prepare r")
  case (Inl x)
  then show ?thesis by (cases x) (simp add: error_of_def)
next
  case (Inr p)
  then have "\<not> execution_succeeds (sr_execution r)"
    "case ex_pending (sr_execution r) of Inl x \<Rightarrow> True
       | Inr h \<Rightarrow> ex_lease (sr_execution r) \<noteq> None \<or> find final (ex_states (sr_execution r)) \<noteq> None"
    using assms by (simp_all add: run_succeeds_def run_ends_def)
  from pump_execute_fails [OF this, of failed n c] obtain out c' where
    e: "duckdb_pump_execute failed n False False (sr_execution r) c = Some (out, c')"
    "case out of Inl msg \<Rightarrow> error_of_execution (sr_execution r) = duckdb_throw_start_error msg
     | Inr (Inl (h, ty, err), k) \<Rightarrow> error_of_execution (sr_execution r) = duckdb_throw_result_error err ty
     | Inr (Inr h, k) \<Rightarrow> False" by blast
  show ?thesis
  proof (cases out)
    case (Inl msg)
    then show ?thesis using Inr e by (simp add: error_of_def)
  next
    case result: (Inr x)
    then obtain h ty err k where "out = Inr (Inl (h, ty, err), k)" using e(2) by (cases x; cases "fst x") auto
    then show ?thesis using Inr e by (simp add: error_of_def)
  qed
qed

lemma find_first: "\<forall>y \<in> set pre. \<not> P y \<Longrightarrow> P x \<Longrightarrow> find P (pre @ x # post) = Some x"
  by (induction pre) auto

text \<open>
  C19. A pumped query text has the outcome of \<open>duckdb_query\<close>. Its statements run in order up to the first that
  fails, whose error is thrown; when all succeed the result is the first one with rows, otherwise the
  last, with its statement type.
\<close>

theorem pump_query_outcome:
  assumes "runs \<noteq> []" "list_all run_ends runs"
  shows "\<exists>c'. duckdb_pump_query failed n x whole unwound runs c =
    Some (case find (\<lambda>r. \<not> run_succeeds r) runs of
            Some r \<Rightarrow> Inl (error_of r)
          | None \<Rightarrow> Inr (chosen (map result_of runs)), c')"
proof (cases "find (\<lambda>r. \<not> run_succeeds r) runs")
  case None
  then have "list_all run_succeeds runs" by (simp add: find_None_iff list_all_iff)
  from pump_statements_success [OF this, of failed n x "[]" None c] assms(1) None show ?thesis
    by (auto simp: duckdb_pump_query_def)
next
  case (Some r)
  then have "\<exists>r \<in> set runs. \<not> run_succeeds r" by (force simp: find_Some_iff)
  then obtain pre r' post where runs: "runs = pre @ r' # post" "\<not> run_succeeds r'" "\<forall>q \<in> set pre. \<not> \<not> run_succeeds q"
    by (rule split_list_first_propE)
  have "find (\<lambda>r. \<not> run_succeeds r) (pre @ r' # post) = Some r'" using runs(2,3) by (rule find_first [rotated])
  then have "r' = r" using Some runs(1) by simp
  then have split: "runs = pre @ r # post" "list_all run_succeeds pre" "\<not> run_succeeds r"
    using runs by (auto simp: list_all_iff)
  then have "run_ends r" using assms(2) by simp
  from pump_statements_success [OF split(2), of failed n x "r # post" None c] pump_statements_fails [OF split(3) this, of failed n x] split(1) Some
  show ?thesis by (fastforce simp: duckdb_pump_query_def)
qed

section \<open>A query text with two statements\<close>

definition sample_execution :: "pending_state \<Rightarrow> handle \<Rightarrow> execution" where
  "sample_execution st h = \<lparr>ex_pending = Inr h, ex_lease = None, ex_states = [PS_no_tasks, st], ex_error = Some ''IO Error: disk'',
     ex_unwound = None, ex_result = Inr (h + 1), ex_discarded = h + 2\<rparr>"

definition sample_run :: "handle \<Rightarrow> bool \<Rightarrow> statement_run" where
  "sample_run p rows = \<lparr>sr_prepare = Inr p, sr_type = 1, sr_execution = sample_execution PS_ready (p + 1), sr_rows = rows\<rparr>"

lemma sample_run_succeeds: "run_succeeds (sample_run p rows)" "run_ends (sample_run p rows)"
  by (simp_all add: run_succeeds_def run_ends_def execution_succeeds_def completes_def sample_run_def sample_execution_def drive_pending_find final_def)

lemma sample_destroyed: "destroyed initial_conn = []" "natives initial_conn = []"
  by (simp_all add: destroyed_def initial_conn_def)

lemma pump_query_outcome_witness:
  "\<exists>c'. duckdb_pump_query (\<lambda>_. False) 1 (Some 9) (None, Inr 0) None [sample_run 10 False, sample_run 20 True, sample_run 30 True] initial_conn =
     Some (Inr (Some \<lparr>hr_handle = 22, hr_type = Some 1, hr_rows = True\<rparr>), c')"
  using pump_query_outcome [of "[sample_run 10 False, sample_run 20 True, sample_run 30 True]" "\<lambda>_. False" 1 "Some 9" "(None, Inr 0)" None initial_conn]
  by (simp add: sample_run_succeeds) (simp add: chosen_def result_of_def sample_run_def sample_execution_def)

lemma pump_query_conserves_handles_witness:
  "\<exists>c'. duckdb_pump_query (\<lambda>_. False) 1 (Some 9) (None, Inr 0) None [sample_run 10 False, sample_run 20 True] initial_conn =
        Some (Inr (Some \<lparr>hr_handle = 22, hr_type = Some 1, hr_rows = True\<rparr>), c')
    \<and> mset (destroyed c') + {#22#} = {#9, 10, 11, 12, 20, 21, 22#}"
proof -
  let ?runs = "[sample_run 10 False, sample_run 20 True]"
  have chosen: "chosen (map result_of ?runs) = Some \<lparr>hr_handle = 22, hr_type = Some 1, hr_rows = True\<rparr>"
    by (simp add: chosen_def result_of_def sample_run_def sample_execution_def)
  have made: "created_by ?runs = {#10, 11, 12, 20, 21, 22#}"
    by (simp add: sample_run_succeeds) (simp add: created_by_run_def created_by_execution_def sample_run_def sample_execution_def
        execution_succeeds_def completes_def drive_pending_find final_def)
  obtain c' where r: "duckdb_pump_query (\<lambda>_. False) 1 (Some 9) (None, Inr 0) None ?runs initial_conn =
      Some (Inr (Some \<lparr>hr_handle = 22, hr_type = Some 1, hr_rows = True\<rparr>), c')"
    using pump_statements_success [of ?runs "\<lambda>_. False" 1 "Some 9" "[]" None initial_conn] chosen
    by (auto simp: sample_run_succeeds duckdb_pump_query_def simp del: pump_statements.simps(2))
  have "mset (destroyed c') + {#22#} = add_mset 9 (created_by ?runs)"
    using pump_query_conserves_handles [OF r] by (simp add: held_handle_def sample_destroyed del: created_by.simps)
  then show ?thesis using r made by (simp add: add_mset_commute del: created_by.simps)
qed

lemma pump_execute_ends_session_witness:
  "\<exists>c' calls. duckdb_pump_execute (\<lambda>_. False) 3 False False (sample_execution PS_error 7) initial_conn = Some (Inl ''IO Error: disk'', c')
     \<and> natives c' = N_session_close 3 ''IO Error: disk'' # calls \<and> list_all cancels_executor calls"
proof -
  have "find final [PS_no_tasks, PS_error] = Some PS_error" by (simp add: final_def)
  then obtain c' where e: "duckdb_pump_execute (\<lambda>_. False) 3 False False (sample_execution PS_error 7) initial_conn = Some (Inl ''IO Error: disk'', c')"
    by (simp add: duckdb_pump_execute_def sample_execution_def drive_pending_find duckdb_lease_failure_def Let_def)
  from pump_execute_ends_session [OF this] e show ?thesis by (auto simp: sample_destroyed)
qed

end
