(* ===== verification/Database.thy ===== *)
theory Database
  imports Prelude Transitions Errors Php_Value Connection
begin

text \<open>
  \<open>DuckDB\Database\<close> of \<open>src/duckdb.cpp\<close>: the options and errors of its constructor, and the sharing of file-backed
  databases in the process.

  DuckDB's answers are a parameter: which options it accepts, and the handle or the message of opening. A
  \<open>db_inner\<close> is its number; its reference count stands for the \<open>shared_ptr\<close>s that hold it (\<open>Database\<close> and
  \<open>Connection\<close> objects). The entry of the map of shared handles is a weak pointer: it has expired when the count
  is 0. PHP's text of a float and of \<open>expand_filepath\<close> are parameters; the instance cache itself is DuckDB's.
\<close>

section \<open>Options\<close>

definition duckdb_check_no_nul :: "nat \<Rightarrow> string \<Rightarrow> (throwable, unit) result" where
  "duckdb_check_no_nul arg s =
     (if CHR 0x00 \<in> set s then Inl (ArgValueError arg ''must not contain NUL bytes'') else Inr ())"

record db_env =
  de_config :: bool
  de_set :: "string \<Rightarrow> string \<Rightarrow> bool"
  de_open :: "string \<Rightarrow> (string \<times> string) list \<Rightarrow> (string option, nat) result"
  de_float :: "u64 \<Rightarrow> string"
  de_expand :: "string \<Rightarrow> string option"

definition option_text :: "db_env \<Rightarrow> string \<Rightarrow> zval \<Rightarrow> (throwable, string) result" where
  "option_text env key v =
     (case v of
        Z_string s \<Rightarrow> Inr s
      | Z_long n \<Rightarrow> Inr (dec_int n)
      | Z_double d \<Rightarrow> Inr (de_float env d)
      | Z_bool b \<Rightarrow> Inr (if b then ''true'' else ''false'')
      | _ \<Rightarrow> Inl (ArgValueError 2 (''must only contain scalar values, got '' @ zend_zval_type_name v
               @ '' for option '' @ [CHR 0x22] @ key @ [CHR 0x22])))"

definition invalid_option :: "string \<Rightarrow> throwable" where
  "invalid_option key = DuckException BaseException
     (''Invalid DuckDB configuration option '' @ [CHR 0x22] @ key @ [CHR 0x22]) (error_code E_InvalidConfiguration)"

fun set_options :: "db_env \<Rightarrow> (php_key \<times> zval) list \<Rightarrow> (throwable, (string \<times> string) list) result" where
  "set_options env [] = Inr []"
| "set_options env ((K_int n, v) # es) =
     Inl (ArgValueError 2 (''must be a map of option names to values, got integer key '' @ dec_int n))"
| "set_options env ((K_str key, v) # es) =
     rbind (duckdb_check_no_nul 2 key) (\<lambda>_.
     rbind (option_text env key v) (\<lambda>text.
     rbind (duckdb_check_no_nul 2 text) (\<lambda>_.
       if de_set env key text then rbind (set_options env es) (\<lambda>opts. Inr ((key, text) # opts))
       else Inl (invalid_option key))))"

definition memory_path :: string where "memory_path = '':memory:''"

definition lossless_option :: "string \<times> string" where
  "lossless_option = (''arrow_lossless_conversion'', ''true'')"

section \<open>Errors of opening\<close>

text \<open>\<open>std::string::find\<close> is not \<open>npos\<close>.\<close>

fun contains :: "string \<Rightarrow> string \<Rightarrow> bool" where
  "contains p [] = (p = [])"
| "contains p (c # s) = (starts_with p (c # s) \<or> contains p s)"

definition open_error :: "string option \<Rightarrow> throwable" where
  "open_error err =
     (let msg = (case err of None \<Rightarrow> ''Unable to open database'' | Some m \<Rightarrow> m)
      in if contains ''options were not recognized'' msg then duckdb_throw_error E_InvalidConfiguration (Some msg)
         else let ty = duckdb_classify_error_message (Some msg)
              in duckdb_throw_error (if ty = E_Invalid then E_Connection else ty) (Some msg))"

definition open_database :: "db_env \<Rightarrow> string \<Rightarrow> (php_key \<times> zval) list \<Rightarrow> (throwable, string \<times> nat) result" where
  "open_database env path config =
     rbind (duckdb_check_no_nul 1 path) (\<lambda>_.
       let path' = (if path = [] then memory_path else path)
       in if \<not> de_config env
          then Inl (duckdb_throw_error E_OutOfMemory (Some ''Failed to create DuckDB configuration''))
          else if \<not> de_set env (fst lossless_option) (snd lossless_option)
          then Inl (duckdb_throw_msg (Some ''Failed to enable lossless Arrow conversion''))
          else rbind (set_options env config) (\<lambda>opts.
            case de_open env path' (lossless_option # opts) of
              Inl err \<Rightarrow> Inl (open_error err)
            | Inr h \<Rightarrow> Inr (path', h)))"

section \<open>Shared databases\<close>

record db_inner =
  db_handle :: nat
  db_identity :: "string option"
  db_refs :: nat

text \<open>\<open>pr_closed\<close>: the handles passed to \<open>duckdb_close\<close>.\<close>

record process =
  pr_inners :: "db_inner list"
  pr_shared :: "(string \<times> nat) list"
  pr_closed :: "nat list"

definition expired :: "process \<Rightarrow> nat \<Rightarrow> bool" where
  "expired p i \<longleftrightarrow> db_refs (pr_inners p ! i) = 0"

abbreviation set_inner :: "nat \<Rightarrow> db_inner \<Rightarrow> process \<Rightarrow> process" where
  "set_inner i d p \<equiv> p\<lparr>pr_inners := (pr_inners p)[i := d]\<rparr>"

definition retain :: "nat \<Rightarrow> process \<Rightarrow> process" where
  "retain i p = set_inner i ((pr_inners p ! i)\<lparr>db_refs := db_refs (pr_inners p ! i) + 1\<rparr>) p"

text \<open>Dropping a reference; the last one runs \<open>~db_inner\<close>.\<close>

definition release :: "nat \<Rightarrow> process \<Rightarrow> process" where
  "release i p =
     (let d = (pr_inners p ! i)\<lparr>db_refs := db_refs (pr_inners p ! i) - 1\<rparr>; p1 = set_inner i d p
      in if db_refs d = 0 then p1\<lparr>pr_closed := pr_closed p1 @ [db_handle d]\<rparr> else p1)"

text \<open>
  The opened handle becomes a \<open>db_inner\<close>, which a live one of the same file replaces at once. The identity a
  \<open>db_inner\<close> was entered under is kept with it.
\<close>

definition share_database :: "string option \<Rightarrow> nat \<Rightarrow> process \<Rightarrow> nat \<times> process" where
  "share_database identity h p =
     (let i = length (pr_inners p);
          p1 = p\<lparr>pr_inners := pr_inners p @ [\<lparr>db_handle = h, db_identity = None, db_refs = 1\<rparr>]\<rparr>
      in case identity of
           None \<Rightarrow> (i, p1)
         | Some name \<Rightarrow>
             let shared = filter (\<lambda>(n, j). \<not> expired p j) (pr_shared p)
             in case map_of shared name of
                  Some j \<Rightarrow> (j, release i (retain j (p1\<lparr>pr_shared := shared\<rparr>)))
                | None \<Rightarrow> (i, p1\<lparr>pr_inners := pr_inners p @ [\<lparr>db_handle = h, db_identity = Some name, db_refs = 1\<rparr>],
                              pr_shared := (name, i) # shared\<rparr>))"

definition Database_construct ::
    "db_env \<Rightarrow> string \<Rightarrow> (php_key \<times> zval) list \<Rightarrow> process \<Rightarrow> (throwable, nat) result \<times> process" where
  "Database_construct env path config p =
     (case open_database env path config of
        Inl err \<Rightarrow> (Inl err, p)
      | Inr (path', h) \<Rightarrow>
          let identity = (if path' \<noteq> memory_path \<and> path \<noteq> [] then de_expand env path' else None);
              (i, p') = share_database identity h p
          in (Inr i, p'))"

section \<open>Interleavings of objects\<close>

inductive process_step :: "process \<Rightarrow> process \<Rightarrow> bool" where
  constructs: "Database_construct env path config p = (r, p') \<Longrightarrow> process_step p p'"
| connects: "i < length (pr_inners p) \<Longrightarrow> \<not> expired p i \<Longrightarrow> process_step p (retain i p)"
| drops: "i < length (pr_inners p) \<Longrightarrow> \<not> expired p i \<Longrightarrow> process_step p (release i p)"

definition new_process :: process where
  "new_process = \<lparr>pr_inners = [], pr_shared = [], pr_closed = []\<rparr>"

definition live :: "process \<Rightarrow> nat \<Rightarrow> bool" where
  "live p i \<longleftrightarrow> i < length (pr_inners p) \<and> \<not> expired p i"

definition dead_handle :: "db_inner \<Rightarrow> nat multiset" where
  "dead_handle d = (if db_refs d = 0 then {#db_handle d#} else {#})"

definition dead_handles :: "db_inner list \<Rightarrow> nat multiset" where
  "dead_handles ds = sum_list (map dead_handle ds)"

text \<open>Every live file-backed database is entered under its identity, once; closed handles are those of the dead.\<close>

definition process_ok :: "process \<Rightarrow> bool" where
  "process_ok p \<longleftrightarrow> distinct (map fst (pr_shared p))
     \<and> (\<forall>(name, i) \<in> set (pr_shared p). i < length (pr_inners p) \<and> db_identity (pr_inners p ! i) = Some name)
     \<and> (\<forall>i name. live p i \<and> db_identity (pr_inners p ! i) = Some name \<longrightarrow> (name, i) \<in> set (pr_shared p))
     \<and> mset (pr_closed p) = dead_handles (pr_inners p)"

lemma dead_handles_update:
  "i < length ds \<Longrightarrow> dead_handles (ds[i := d]) + dead_handle (ds ! i) = dead_handles ds + dead_handle d"
  by (simp add: dead_handles_def sum_list_update)

lemma dead_handles_append [simp]: "dead_handles (ds @ [d]) = dead_handles ds + dead_handle d"
  by (simp add: dead_handles_def)

lemma retain_ok:
  assumes "process_ok p" "live p i"
  shows "process_ok (retain i p)" "live (retain i p) j \<longleftrightarrow> live p j" "pr_shared (retain i p) = pr_shared p"
    "length (pr_inners (retain i p)) = length (pr_inners p)"
proof -
  have i: "i < length (pr_inners p)" "db_refs (pr_inners p ! i) \<noteq> 0" using assms(2) by (simp_all add: live_def expired_def)
  have nth: "pr_inners (retain i p) ! j = (if j = i then (pr_inners p ! i)\<lparr>db_refs := db_refs (pr_inners p ! i) + 1\<rparr> else pr_inners p ! j)"
    if "j < length (pr_inners p)" for j
    using i that by (simp add: retain_def nth_list_update)
  show live: "live (retain i p) j \<longleftrightarrow> live p j" for j
    using i nth [of j] by (auto simp: live_def expired_def retain_def nth_list_update)
  show s: "pr_shared (retain i p) = pr_shared p" and l: "length (pr_inners (retain i p)) = length (pr_inners p)"
    by (simp_all add: retain_def)
  have id: "db_identity (pr_inners (retain i p) ! j) = db_identity (pr_inners p ! j)" if "j < length (pr_inners p)" for j
    using nth [OF that] by simp
  have "dead_handles (pr_inners (retain i p)) = dead_handles (pr_inners p)"
    using dead_handles_update [OF i(1), of "(pr_inners p ! i)\<lparr>db_refs := db_refs (pr_inners p ! i) + 1\<rparr>"] i(2)
    by (simp add: retain_def dead_handle_def)
  moreover have "pr_closed (retain i p) = pr_closed p" by (simp add: retain_def)
  ultimately show "process_ok (retain i p)"
    using assms(1) id unfolding process_ok_def live s l by (auto simp: live_def)
qed

lemma release_ok:
  assumes "process_ok p" "live p i"
  shows "process_ok (release i p)"
proof -
  have i: "i < length (pr_inners p)" "db_refs (pr_inners p ! i) \<noteq> 0" using assms(2) by (simp_all add: live_def expired_def)
  let ?d = "(pr_inners p ! i)\<lparr>db_refs := db_refs (pr_inners p ! i) - 1\<rparr>"
  have inners: "pr_inners (release i p) = (pr_inners p)[i := ?d]" "pr_shared (release i p) = pr_shared p"
    "mset (pr_closed (release i p)) = mset (pr_closed p) + dead_handle ?d"
    by (simp_all add: release_def Let_def dead_handle_def)
  have id: "db_identity ((pr_inners p)[i := ?d] ! j) = db_identity (pr_inners p ! j)" for j
    using i by (cases "i = j") simp_all
  have live: "live (release i p) j \<Longrightarrow> live p j" for j
    using i by (cases "i = j") (auto simp: live_def expired_def inners)
  have "dead_handles (pr_inners (release i p)) = dead_handles (pr_inners p) + dead_handle ?d"
    using dead_handles_update [OF i(1), of ?d] i(2) by (simp add: inners dead_handle_def)
  then show ?thesis
    using assms(1) live unfolding process_ok_def inners id length_list_update by auto
qed

lemma add_inner_ok:
  assumes "process_ok p" "db_refs d \<noteq> 0" "db_identity d = None"
  shows "process_ok (p\<lparr>pr_inners := pr_inners p @ [d]\<rparr>)" "live (p\<lparr>pr_inners := pr_inners p @ [d]\<rparr>) (length (pr_inners p))"
    "live p j \<Longrightarrow> live (p\<lparr>pr_inners := pr_inners p @ [d]\<rparr>) j"
proof -
  have nth: "j < length (pr_inners p) \<Longrightarrow> (pr_inners p @ [d]) ! j = pr_inners p ! j" for j by (simp add: nth_append)
  have *: "live (p\<lparr>pr_inners := pr_inners p @ [d]\<rparr>) j \<Longrightarrow> live p j \<or> j = length (pr_inners p)" for j
    by (auto simp: live_def expired_def nth_append split: if_splits)
  have "(name, j) \<in> set (pr_shared p)"
    if "live (p\<lparr>pr_inners := pr_inners p @ [d]\<rparr>) j" "db_identity ((pr_inners p @ [d]) ! j) = Some name" for j name
    using * [OF that(1)] that(2) assms(1,3) by (auto simp: process_ok_def live_def nth_append split: if_splits)
  moreover have "i < length (pr_inners p) + 1 \<and> db_identity ((pr_inners p @ [d]) ! i) = Some name"
    if "(name, i) \<in> set (pr_shared p)" for name i
    using that assms(1) by (auto simp: process_ok_def nth_append)
  ultimately show "process_ok (p\<lparr>pr_inners := pr_inners p @ [d]\<rparr>)"
    using assms(1,2) by (auto simp: process_ok_def dead_handle_def)
  show "live (p\<lparr>pr_inners := pr_inners p @ [d]\<rparr>) (length (pr_inners p))"
    using assms(2) by (simp add: live_def expired_def)
  show "live p j \<Longrightarrow> live (p\<lparr>pr_inners := pr_inners p @ [d]\<rparr>) j"
    by (simp add: live_def expired_def nth_append)
qed

lemma purge_ok:
  assumes "process_ok p"
  shows "process_ok (p\<lparr>pr_shared := filter (\<lambda>(n, j). \<not> expired p j) (pr_shared p)\<rparr>)"
proof -
  have "live (p\<lparr>pr_shared := xs\<rparr>) i = live p i" "expired (p\<lparr>pr_shared := xs\<rparr>) i = expired p i" for i xs
    by (simp_all add: live_def expired_def)
  then show ?thesis
    using assms by (auto simp: process_ok_def live_def distinct_map_filter)
qed

lemma share_database_ok:
  assumes "process_ok p" "share_database identity h p = (i, p')"
  shows "process_ok p'" "\<And>name j. identity = Some name \<Longrightarrow> live p j \<Longrightarrow> db_identity (pr_inners p ! j) = Some name
     \<Longrightarrow> i = j \<and> pr_closed p' = pr_closed p @ [h]"
proof -
  let ?d = "\<lparr>db_handle = h, db_identity = None, db_refs = 1\<rparr> :: db_inner"
  let ?n = "length (pr_inners p)"
  let ?shared = "filter (\<lambda>(n, j). \<not> expired p j) (pr_shared p)"
  let ?q = "p\<lparr>pr_shared := ?shared\<rparr>"
  let ?p1 = "p\<lparr>pr_inners := pr_inners p @ [?d], pr_shared := ?shared\<rparr>"
  note q = purge_ok [OF assms(1)]
  have q_live: "live ?q k = live p k" for k by (simp add: live_def expired_def)
  have p1: "process_ok ?p1" "live ?p1 ?n" "\<And>k. live p k \<Longrightarrow> live ?p1 k"
  proof -
    have eq: "?q\<lparr>pr_inners := pr_inners ?q @ [?d]\<rparr> = ?p1" by simp
    show "process_ok ?p1" "live ?p1 ?n" "\<And>k. live p k \<Longrightarrow> live ?p1 k"
      using add_inner_ok [OF q, of ?d] q_live unfolding eq by simp_all
  qed
  {
    assume "identity = None"
    then have "process_ok p'" using assms add_inner_ok(1) [OF assms(1), of ?d] by (auto simp: share_database_def Let_def)
  } note none = this
  {
    fix name assume name: "identity = Some name" "map_of ?shared name = None"
    let ?e = "\<lparr>db_handle = h, db_identity = Some name, db_refs = 1\<rparr> :: db_inner"
    have p': "p' = p\<lparr>pr_inners := pr_inners p @ [?e], pr_shared := (name, ?n) # ?shared\<rparr>"
      using assms(2) name by (auto simp: share_database_def Let_def)
    have fresh: "name \<notin> fst ` set ?shared" using name(2) by (simp add: map_of_eq_None_iff)
    have sh: "k < ?n \<and> db_identity (pr_inners p ! k) = Some m" if "(m, k) \<in> set (pr_shared p)" for m k
      using that assms(1) by (auto simp: process_ok_def)
    have lv: "(m, k) \<in> set ?shared" if "k < ?n" "db_refs (pr_inners p ! k) \<noteq> 0" "db_identity (pr_inners p ! k) = Some m" for m k
      using that assms(1) by (auto simp: process_ok_def live_def expired_def)
    have "distinct (map fst (pr_shared p'))"
      using fresh assms(1) by (simp add: p' process_ok_def distinct_map_filter)
    moreover have "k < length (pr_inners p') \<and> db_identity (pr_inners p' ! k) = Some m" if "(m, k) \<in> set (pr_shared p')" for m k
      using that sh [of m k] by (cases "k = ?n") (auto simp: p' nth_append)
    moreover have "(m, k) \<in> set (pr_shared p')" if "live p' k" "db_identity (pr_inners p' ! k) = Some m" for m k
      using that lv [of k m] by (cases "k = ?n") (auto simp: p' live_def expired_def nth_append)
    moreover have "mset (pr_closed p') = dead_handles (pr_inners p')"
      using assms(1) by (simp add: p' process_ok_def dead_handle_def)
    ultimately have "process_ok p'" unfolding process_ok_def by blast
    moreover have False if "live p j" "db_identity (pr_inners p ! j) = Some name" for j
      using lv [of j name] that fresh by (force simp: live_def expired_def)
    ultimately have "process_ok p' \<and> (\<forall>j. live p j \<longrightarrow> db_identity (pr_inners p ! j) \<noteq> Some name)" by blast
  } note fresh = this
  {
    fix name j assume name: "identity = Some name" "map_of ?shared name = Some j"
    have "(name, j) \<in> set ?shared" using name(2) by (rule map_of_SomeD)
    then have j: "live p j" "(name, j) \<in> set (pr_shared p)" using assms(1) by (auto simp: process_ok_def live_def)
    note r = retain_ok [OF p1(1) p1(3) [OF j(1)]]
    have p': "i = j" "p' = release ?n (retain j ?p1)"
      using assms(2) name by (auto simp: share_database_def Let_def)
    have ok: "process_ok p'" using release_ok [OF r(1), of ?n] r(2) p1(2) by (simp add: p')
    have jn: "j \<noteq> ?n" using j(1) by (simp add: live_def)
    have cl: "pr_closed p' = pr_closed p @ [h]"
      using jn j(1) by (simp add: p' release_def retain_def Let_def nth_list_update nth_append live_def)
    have "k = j" if "live p k" "db_identity (pr_inners p ! k) = Some name" for k
    proof -
      have "(name, k) \<in> set (pr_shared p)" using that assms(1) by (simp add: process_ok_def)
      then show ?thesis using j(2) assms(1) by (auto simp: process_ok_def dest: eq_key_imp_eq_value)
    qed
    then have "process_ok p' \<and> (\<forall>k. live p k \<longrightarrow> db_identity (pr_inners p ! k) = Some name \<longrightarrow> i = k \<and> pr_closed p' = pr_closed p @ [h])"
      using ok cl p'(1) by blast
  } note found = this
  show "process_ok p'"
    using none fresh found by (cases identity; cases "map_of ?shared (the identity)") auto
  show "i = j \<and> pr_closed p' = pr_closed p @ [h]"
    if "identity = Some name" "live p j" "db_identity (pr_inners p ! j) = Some name" for name j
    using that fresh [OF that(1)] found [OF that(1)] by (cases "map_of ?shared name") auto
qed

lemma process_step_ok: "process_step p p' \<Longrightarrow> process_ok p \<Longrightarrow> process_ok p'"
proof (induction rule: process_step.induct)
  case (constructs env path config p r p')
  then show ?case
    by (auto simp: Database_construct_def Let_def split: sum.splits prod.splits dest: share_database_ok(1))
next
  case (connects i p)
  then show ?case by (simp add: retain_ok live_def)
next
  case (drops i p)
  then show ?case by (simp add: release_ok live_def)
qed

interpretation processes: transition_system process_step process_ok
  by unfold_locales (rule process_step_ok)

lemma process_reachable_ok: "process_step\<^sup>*\<^sup>* new_process p \<Longrightarrow> process_ok p"
  by (erule processes.ok_steps) (simp add: process_ok_def new_process_def live_def dead_handles_def)

text \<open>
  C33. A process never has two databases of the extension on one file, and closes every handle it opened exactly
  once. Whatever \<open>Database\<close> and \<open>Connection\<close> objects are created and dropped, two live databases entered under the
  same path are the same one; the handles closed are those of the databases no object holds any more; and opening a
  file that is live gives the live database, the handle opened for it being closed at once.
\<close>

theorem file_databases_are_shared:
  assumes "process_step\<^sup>*\<^sup>* new_process p"
  shows "(\<forall>i j. live p i \<and> live p j \<and> db_identity (pr_inners p ! i) = db_identity (pr_inners p ! j)
        \<and> db_identity (pr_inners p ! i) \<noteq> None \<longrightarrow> i = j)
    \<and> mset (pr_closed p) = dead_handles (pr_inners p)
    \<and> (open_database env path config = Inr (path', h) \<and> path \<noteq> [] \<and> path' \<noteq> memory_path \<and> de_expand env path' = Some name
        \<and> live p j \<and> db_identity (pr_inners p ! j) = Some name \<longrightarrow>
        (\<exists>p'. Database_construct env path config p = (Inr j, p') \<and> pr_closed p' = pr_closed p @ [h]))"
proof (intro conjI allI impI)
  note ok = process_reachable_ok [OF assms]
  show "mset (pr_closed p) = dead_handles (pr_inners p)" using ok by (simp add: process_ok_def)
  fix i k
  assume a: "live p i \<and> live p k \<and> db_identity (pr_inners p ! i) = db_identity (pr_inners p ! k) \<and> db_identity (pr_inners p ! i) \<noteq> None"
  then obtain m where "db_identity (pr_inners p ! i) = Some m" "db_identity (pr_inners p ! k) = Some m" by (metis not_None_eq)
  with a ok have "(m, i) \<in> set (pr_shared p)" "(m, k) \<in> set (pr_shared p)" by (simp_all add: process_ok_def)
  then show "i = k" using ok by (auto simp: process_ok_def dest: eq_key_imp_eq_value)
next
  assume a: "open_database env path config = Inr (path', h) \<and> path \<noteq> [] \<and> path' \<noteq> memory_path \<and> de_expand env path' = Some name
      \<and> live p j \<and> db_identity (pr_inners p ! j) = Some name"
  obtain i p' where s: "share_database (Some name) h p = (i, p')" by fastforce
  from share_database_ok(2) [OF process_reachable_ok [OF assms] s, of name j] a
  have "i = j" "pr_closed p' = pr_closed p @ [h]" by simp_all
  then show "\<exists>p'. Database_construct env path config p = (Inr j, p') \<and> pr_closed p' = pr_closed p @ [h]"
    using a s by (simp add: Database_construct_def)
qed

section \<open>What reaches DuckDB\<close>

text \<open>
  How an option of PHP is spelled for DuckDB, without the conversion of the code: a string is itself, a boolean \<open>true\<close> or
  \<open>false\<close>, an integer the decimal numeral that denotes it, a float what PHP prints for it.
\<close>

definition is_decimal :: "nat \<Rightarrow> string \<Rightarrow> bool" where
  "is_decimal n s \<longleftrightarrow> s \<noteq> [] \<and> list_all is_digit s \<and> (hd s = CHR ''0'' \<longrightarrow> s = ''0'') \<and> dec_value s = n"

fun option_spelling :: "db_env \<Rightarrow> zval \<Rightarrow> string \<Rightarrow> bool" where
  "option_spelling env (Z_string s) t \<longleftrightarrow> t = s"
| "option_spelling env (Z_bool b) t \<longleftrightarrow> t = (if b then ''true'' else ''false'')"
| "option_spelling env (Z_long n) t \<longleftrightarrow> (if n < 0 then t \<noteq> [] \<and> hd t = CHR ''-'' \<and> is_decimal (nat (- n)) (tl t) else is_decimal (nat n) t)"
| "option_spelling env (Z_double d) t \<longleftrightarrow> t = de_float env d"
| "option_spelling env _ t \<longleftrightarrow> False"

fun canonical_option :: "db_env \<Rightarrow> php_key \<times> zval \<Rightarrow> string \<times> string \<Rightarrow> bool" where
  "canonical_option env (K_str key, v) (name, text) \<longleftrightarrow>
     name = key \<and> option_spelling env v text \<and> CHR 0x00 \<notin> set key \<and> CHR 0x00 \<notin> set text \<and> de_set env key text"
| "canonical_option env (K_int n, v) opt \<longleftrightarrow> False"

lemma digit_char_val: "is_digit c \<Longrightarrow> digit_char (digit_val c) = c \<and> digit_val c < 10"
  by (auto simp: is_digit_def digit_char_def digit_val_def)

lemma is_decimal_string: "is_decimal n (dec_string n)"
proof -
  have "hd (dec_string n) = CHR ''0'' \<longrightarrow> n = 0"
  proof (induction n rule: dec_string.induct)
    case (1 m)
    then show ?case by (cases "m < 10") (auto simp: dec_string_ge10)
  qed
  then have "hd (dec_string n) = CHR ''0'' \<longrightarrow> dec_string n = ''0''" by auto
  then show ?thesis by (auto simp: is_decimal_def list_all_iff set_dec_string digit_char_0)
qed

lemma is_decimal_iff: "is_decimal n s \<longleftrightarrow> s = dec_string n"
proof
  show "is_decimal n s \<Longrightarrow> s = dec_string n"
  proof (induction s arbitrary: n rule: rev_induct)
    case (snoc c s)
    then have d: "digit_char (digit_val c) = c" "digit_val c < 10" by (auto simp: is_decimal_def digit_char_val)
    show ?case
    proof (cases "s = []")
      case False
      then have s: "is_decimal (dec_value s) s" "n = dec_value s * 10 + digit_val c" "hd s \<noteq> CHR ''0''"
        using snoc.prems by (auto simp: is_decimal_def)
      then have eq: "s = dec_string (dec_value s)" using snoc.IH by blast
      then have "dec_value s \<noteq> 0" using s(3) by (metis dec_string_less10 digit_char_0 list.sel(1) zero_less_numeral)
      then show ?thesis using s(2) d eq by (simp add: dec_string_ge10)
    qed (use snoc.prems d in \<open>auto simp: is_decimal_def\<close>)
  qed (simp add: is_decimal_def)
qed (simp add: is_decimal_string)

lemma option_text_spelling: "option_text env key v = Inr t \<longleftrightarrow> option_spelling env v t"
proof (cases v)
  case (Z_long n)
  have "(t \<noteq> [] \<and> hd t = CHR ''-'' \<and> tl t = dec_string (nat (- n))) \<longleftrightarrow> t = CHR ''-'' # dec_string (nat (- n))"
    by (cases t) auto
  then show ?thesis by (auto simp: Z_long option_text_def dec_int_def is_decimal_iff)
qed (auto simp: option_text_def)

lemma set_options_correct: "set_options env es = Inr opts \<longleftrightarrow> list_all2 (canonical_option env) es opts"
proof (induction es arbitrary: opts)
  case (Cons e es)
  obtain k v where e: "e = (k, v)" by fastforce
  show ?case
  proof (cases k)
    case (K_str key)
    then show ?thesis
      using Cons.IH option_text_spelling [of env key v]
      by (cases opts) (auto simp: e duckdb_check_no_nul_def rbind_eq_Inr split: sum.splits)
  qed (simp add: e list_all2_Cons1)
qed auto

lemma native_open_Inr:
  "(case de_open env path opts of Inl err \<Rightarrow> Inl (open_error err) | Inr h \<Rightarrow> Inr (path, h)) = Inr (path', h)
     \<longleftrightarrow> path' = path \<and> de_open env path opts = Inr h"
  by (auto split: sum.split)

text \<open>
  C35. A database is opened only with a complete, canonical configuration. The constructor reaches DuckDB exactly when
  the path has no NUL byte and every option is a string key with a scalar value that DuckDB accepts; it then
  passes all of them in order, after the extension's own default, booleans spelled \<open>true\<close> and \<open>false\<close>, integers in decimal,
  and the empty path becomes the in-memory database.
\<close>

theorem open_database_correct:
  "open_database env path config = Inr (path', h) \<longleftrightarrow>
     CHR 0x00 \<notin> set path \<and> path' = (if path = [] then '':memory:'' else path) \<and> de_config env
   \<and> de_set env ''arrow_lossless_conversion'' ''true''
   \<and> (\<exists>opts. list_all2 (canonical_option env) config opts
        \<and> de_open env path' ((''arrow_lossless_conversion'', ''true'') # opts) = Inr h)"
  by (auto simp: open_database_def Let_def duckdb_check_no_nul_def rbind_eq_Inr set_options_correct lossless_option_def
      memory_path_def native_open_Inr)

text \<open>The value of an option is not dereferenced: a PHP reference to a string is refused as if strings were not allowed.\<close>

lemma option_reference_refused:
  "option_text env ''threads'' (Z_reference (Z_string ''4'')) =
     Inl (ArgValueError 2 (''must only contain scalar values, got string for option '' @ [CHR 0x22] @ ''threads'' @ [CHR 0x22]))"
  by (simp add: option_text_def)

section \<open>Two objects on one file\<close>

definition file_env :: "nat \<Rightarrow> db_env" where
  "file_env h = \<lparr>de_config = True, de_set = (\<lambda>k v. True), de_open = (\<lambda>path opts. Inr h), de_float = (\<lambda>d. []), de_expand = Some\<rparr>"

lemma file_databases_are_shared_witness:
  "\<exists>p p'. process_step\<^sup>*\<^sup>* new_process p \<and> Database_construct (file_env 8) ''a.db'' [] p = (Inr 0, p') \<and> pr_closed p' = [8]"
proof -
  let ?p = "new_process\<lparr>pr_inners := [\<lparr>db_handle = 7, db_identity = Some ''a.db'', db_refs = 1\<rparr>], pr_shared := [(''a.db'', 0)]\<rparr>"
  have o: "open_database (file_env h) ''a.db'' [] = Inr (''a.db'', h)" for h
    by (simp add: open_database_def duckdb_check_no_nul_def file_env_def Let_def)
  have "Database_construct (file_env 7) ''a.db'' [] new_process = (Inr 0, ?p)"
    by (simp add: Database_construct_def o memory_path_def share_database_def Let_def)
       (simp add: file_env_def new_process_def)
  then have r: "process_step\<^sup>*\<^sup>* new_process ?p" by (blast intro: r_into_rtranclp process_step.constructs)
  have "live ?p 0" by (simp add: live_def expired_def)
  then have "\<exists>p'. Database_construct (file_env 8) ''a.db'' [] ?p = (Inr 0, p') \<and> pr_closed p' = [8]"
    using file_databases_are_shared [OF r, of "file_env 8" "''a.db''" "[]" "''a.db''" 8 "''a.db''" 0] o [of 8]
    by (simp add: memory_path_def) (simp add: file_env_def new_process_def)
  then show ?thesis using r by blast
qed

end
