(* ===== verification/Queries.thy ===== *)
theory Queries
  imports Database Pump
begin

text \<open>
  The methods of \<open>DuckDB\Connection\<close> that start statements, \<open>src/duckdb.cpp\<close>: \<open>query\<close>, \<open>queryStreaming\<close>,
  \<open>queryPending\<close>, \<open>execute\<close>, \<open>prepare\<close>, \<open>getTableNames\<close>, \<open>getTableFunctions\<close>, \<open>interrupt\<close>, \<open>close\<close>, and transaction control.

  Every method is a function of DuckDB's answers and of the connection; its result is the error thrown or the
  object returned, with the connection afterwards. \<open>pumped\<close> is \<open>duckdb_conn_needs_pump\<close>, \<open>n\<close> the number of the next
  session. A thread that finds the connection locked waits, so the methods are stated for a free lock.
  Handler exceptions kept for later errors and the hooks that observe prepared COPY formats and functions are not modelled,
  except for the two flags a prepared statement keeps.
\<close>

section \<open>Objects returned\<close>

text \<open>
  A materialized result; a stream with its record and the statement it keeps; a pending query with its record, its
  statement and its statement type; a prepared statement.
\<close>

datatype object =
    O_result "held_result option"
  | O_stream nat handle
  | O_pending nat handle nat
  | O_statement handle bool bool
  | O_rows "held_result option"
  | O_names "string list"
  | O_nothing

type_synonym outcome = "(throwable, object) result \<times> conn"

text \<open>\<open>memchr\<close> for NUL, the guard of the connection, and entering it.\<close>

definition enter_statement :: "thread \<Rightarrow> string \<Rightarrow> conn \<Rightarrow> (throwable, conn) result" where
  "enter_statement th sql c =
     rbind (duckdb_check_no_nul 1 sql) (\<lambda>_. rbind (duckdb_connection_guard (Some c)) (\<lambda>_. duckdb_conn_enter th c))"

definition prepare_error :: "string option \<Rightarrow> string \<Rightarrow> throwable" where
  "prepare_error err fallback = duckdb_throw_prepare_error (Some (case err of None \<Rightarrow> fallback | Some m \<Rightarrow> m))"

definition failed_to_prepare :: string where "failed_to_prepare = ''Failed to prepare statement''"

text \<open>\<open>~stmt_inner\<close>, after the lock has been released.\<close>

definition release_statement :: "(handle \<Rightarrow> bool) \<Rightarrow> thread \<Rightarrow> handle option \<Rightarrow> conn \<Rightarrow> conn" where
  "release_statement failed th p c = (case p of None \<Rightarrow> c | Some h \<Rightarrow> duckdb_conn_destroy_prepare failed th h c)"

text \<open>\<open>~async_task\<close> of a task without a record.\<close>

definition release_task :: "(handle \<Rightarrow> bool) \<Rightarrow> thread \<Rightarrow> handle option \<Rightarrow> conn \<Rightarrow> conn" where
  "release_task failed th p c = duckdb_conn_cleanup failed th (W_task None None p) c"

section \<open>Statements\<close>

definition query ::
    "(handle \<Rightarrow> bool) \<Rightarrow> thread \<Rightarrow> nat \<Rightarrow> bool \<Rightarrow> string \<Rightarrow> reply
      \<Rightarrow> handle option \<times> (string option \<times> reply) \<times> string option \<times> statement_run list \<Rightarrow> conn \<Rightarrow> outcome option" where
  "query failed th n pumped sql plain pump c =
     (case enter_statement th sql c of
        Inl err \<Rightarrow> Some (Inl err, c)
      | Inr c1 \<Rightarrow>
          if pumped
          then (case pump of (x, whole, unwound, runs) \<Rightarrow>
            map_option (\<lambda>(r, c2). (map_sum id O_result r, unlock c2)) (duckdb_pump_query failed n x whole unwound runs c1))
          else Some (case plain of
              Inl (h, ty, err) \<Rightarrow> (Inl (duckdb_throw_result_error err ty), unlock (log_native [N_destroy_result h] c1))
            | Inr h \<Rightarrow> (Inr (O_result (Some \<lparr>hr_handle = h, hr_type = None, hr_rows = True\<rparr>)), unlock c1)))"

text \<open>Starting a stream without the pump: the start error or DuckDB's outcome.\<close>

definition stream_plain :: "execution \<Rightarrow> conn \<Rightarrow> (string, reply \<times> nat option) result \<times> conn" where
  "stream_plain e c =
     (case ex_pending e of
        Inl (p, err) \<Rightarrow> (Inl (non_empty err ''Failed to start streaming query''), log_native (destroy_pending_if p) c)
      | Inr h \<Rightarrow> (Inr (ex_result e, None), log_native [N_execute_pending h, N_destroy_pending h] c))"

definition queryStreaming ::
    "(handle \<Rightarrow> bool) \<Rightarrow> thread \<Rightarrow> nat \<Rightarrow> bool \<Rightarrow> string \<Rightarrow> (handle option \<times> string option, handle) result \<Rightarrow> execution
      \<Rightarrow> conn \<Rightarrow> outcome option" where
  "queryStreaming failed th n pumped sql prepared e c =
     (case enter_statement th sql c of
        Inl err \<Rightarrow> Some (Inl err, c)
      | Inr c1 \<Rightarrow>
          (case prepared of
             Inl (p, err) \<Rightarrow>
               Some (Inl (prepare_error (if p = None then None else err) failed_to_prepare), release_statement failed th p (unlock c1))
           | Inr p \<Rightarrow>
               map_option (\<lambda>(r, c2).
                   case r of
                     Inl msg \<Rightarrow> (Inl (duckdb_throw_start_error msg), release_statement failed th (Some p) (unlock c2))
                   | Inr (Inl (h, ty, err), kept) \<Rightarrow>
                       (Inl (duckdb_throw_result_error err ty),
                        release_statement failed th (Some p) (unlock (log_native [N_destroy_result h] c2)))
                   | Inr (Inr h, kept) \<Rightarrow>
                       (Inr (O_stream (length (records c2)) p), unlock (duckdb_open_result_stream h kept c2)))
                 (if pumped then duckdb_pump_execute failed n True True e c1 else Some (stream_plain e c1))))"

definition queryPending ::
    "(handle \<Rightarrow> bool) \<Rightarrow> thread \<Rightarrow> nat \<Rightarrow> bool \<Rightarrow> string \<Rightarrow> (handle option \<times> string option, handle) result \<Rightarrow> nat
      \<Rightarrow> (handle option \<times> string option, handle) result \<Rightarrow> conn \<Rightarrow> outcome" where
  "queryPending failed th n pumped sql prepared ty pending c =
     (case enter_statement th sql c of
        Inl err \<Rightarrow> (Inl err, c)
      | Inr c1 \<Rightarrow>
          (case prepared of
             Inl (p, err) \<Rightarrow>
               (Inl (prepare_error (if p = None then None else err) failed_to_prepare),
                release_task failed th None (unlock (log_native (destroy_prepare_if p) c1)))
           | Inr p \<Rightarrow>
               let session = (if pumped then Some n else None) in
               (case pending of
                  Inl (h, err) \<Rightarrow>
                    (Inl (duckdb_throw_msg (Some (if h = None \<or> err = None then ''Failed to start query'' else the err))),
                     release_task failed th (Some p)
                       (unlock (log_native (destroy_pending_if h) (end_session session ''Failed to start query'' c1))))
                | Inr h \<Rightarrow> (Inr (O_pending (length (records c1)) p ty), unlock (duckdb_open_result_pending h session c1)))))"

text \<open>Executing a prepared statement, through the pump or at once: the error that kept it from starting, or DuckDB's reply.\<close>

definition run_prepared ::
    "(handle \<Rightarrow> bool) \<Rightarrow> nat \<Rightarrow> bool \<Rightarrow> reply \<Rightarrow> execution \<Rightarrow> conn \<Rightarrow> ((string, reply) result \<times> conn) option" where
  "run_prepared failed n pumped plain e c =
     (if pumped then map_option (\<lambda>(r, c2). (map_sum id fst r, c2)) (duckdb_pump_execute failed n False False e c)
      else Some (Inr plain, c))"

text \<open>\<open>bound\<close>: what binding the parameters throws.\<close>

definition execute ::
    "(handle \<Rightarrow> bool) \<Rightarrow> thread \<Rightarrow> nat \<Rightarrow> bool \<Rightarrow> string \<Rightarrow> (handle option \<times> string option, handle) result \<Rightarrow> nat
      \<Rightarrow> throwable option \<Rightarrow> reply \<Rightarrow> execution \<Rightarrow> conn \<Rightarrow> outcome option" where
  "execute failed th n pumped sql prepared ty bound plain e c =
     (case enter_statement th sql c of
        Inl err \<Rightarrow> Some (Inl err, c)
      | Inr c1 \<Rightarrow>
          (case prepared of
             Inl (p, err) \<Rightarrow>
               Some (Inl (prepare_error (if p = None then None else err) failed_to_prepare),
                 unlock (log_native (destroy_prepare_if p) c1))
           | Inr p \<Rightarrow>
               (case bound of
                  Some err \<Rightarrow> Some (Inl err, unlock (log_native [N_destroy_prepare p] c1))
                | None \<Rightarrow>
                    map_option (\<lambda>(r, c2).
                        case r of
                          Inl msg \<Rightarrow> (Inl (duckdb_throw_start_error msg), unlock (log_native [N_destroy_prepare p] c2))
                        | Inr (Inl (h, ty, err)) \<Rightarrow>
                            (Inl (duckdb_throw_result_error err ty), unlock (log_native [N_destroy_prepare p, N_destroy_result h] c2))
                        | Inr (Inr h) \<Rightarrow>
                            (Inr (O_result (Some \<lparr>hr_handle = h, hr_type = Some ty, hr_rows = True\<rparr>)),
                             unlock (log_native [N_destroy_prepare p] c2)))
                      (run_prepared failed n pumped plain e c1))))"

definition prepare ::
    "(handle \<Rightarrow> bool) \<Rightarrow> thread \<Rightarrow> string \<Rightarrow> (handle option \<times> string option, handle) result \<Rightarrow> bool \<times> bool \<Rightarrow> conn \<Rightarrow> outcome" where
  "prepare failed th sql prepared uses c =
     (case enter_statement th sql c of
        Inl err \<Rightarrow> (Inl err, c)
      | Inr c1 \<Rightarrow>
          (case prepared of
             Inl (p, err) \<Rightarrow>
               (Inl (prepare_error (if p = None then None else err) failed_to_prepare), release_statement failed th p (unlock c1))
           | Inr p \<Rightarrow> (Inr (O_statement p (fst uses) (snd uses)), unlock c1)))"

section \<open>Catalog questions\<close>

text \<open>
  \<open>names\<close>: the list value DuckDB returns, a null pointer as \<open>None\<close>, with what each element gives: no value, or a value
  without a text, or one with a text that has to be freed.
\<close>

type_synonym table_name = "(handle \<times> (handle \<times> string) option) option"

definition release_name :: "table_name \<Rightarrow> native_call list" where
  "release_name child =
     (case child of
        None \<Rightarrow> []
      | Some (v, None) \<Rightarrow> [N_destroy_value v]
      | Some (v, Some (s, name)) \<Rightarrow> [N_free s, N_destroy_value v])"

definition name_of :: "table_name \<Rightarrow> string option" where
  "name_of child = Option.bind child (\<lambda>(v, text). map_option snd text)"

definition getTableNames :: "thread \<Rightarrow> string \<Rightarrow> (handle \<times> table_name list) option \<Rightarrow> conn \<Rightarrow> outcome" where
  "getTableNames th sql names c =
     (case enter_statement th sql c of
        Inl err \<Rightarrow> (Inl err, c)
      | Inr c1 \<Rightarrow>
          (case names of
             None \<Rightarrow> (Inl (DuckException ParserException
                 ''Failed to extract table names: the statement could not be parsed or bound'' (error_code E_Parser)), unlock c1)
           | Some (v, ns) \<Rightarrow>
               (Inr (O_names (List.map_filter name_of ns)),
                log_native (concat (map release_name ns) @ [N_destroy_value v]) (unlock c1))))"

definition table_function_query :: "bool \<Rightarrow> string" where
  "table_function_query by_name =
     ''SELECT database_name AS catalog, schema_name AS schema, '' @
     ''function_name AS name, description, parameters, '' @
     ''parameter_types AS parameterTypes, varargs '' @
     ''FROM duckdb_functions() WHERE function_type = '' @ [CHR 0x27] @ ''table'' @ [CHR 0x27] @ '' '' @
     (if by_name then ''AND lower(function_name) = lower(?) '' else []) @
     ''ORDER BY 1, 2, 3, 6, 5, 7''"

definition getTableFunctions ::
    "(handle \<Rightarrow> bool) \<Rightarrow> thread \<Rightarrow> nat \<Rightarrow> bool \<Rightarrow> string option \<Rightarrow> (handle option \<times> string option, handle) result \<Rightarrow> bool
      \<Rightarrow> reply \<Rightarrow> execution \<Rightarrow> conn \<Rightarrow> outcome option" where
  "getTableFunctions failed th n pumped name prepared binds plain e c =
     (case enter_statement th (case name of None \<Rightarrow> [] | Some s \<Rightarrow> s) c of
        Inl err \<Rightarrow> Some (Inl err, c)
      | Inr c1 \<Rightarrow>
          (case prepared of
             Inl (p, err) \<Rightarrow>
               Some (Inl (prepare_error (if p = None then None else err) ''Failed to prepare table-function metadata query''),
                 unlock (log_native (destroy_prepare_if p) c1))
           | Inr p \<Rightarrow>
               if name \<noteq> None \<and> \<not> binds
               then Some (Inl (duckdb_throw_msg (Some ''Failed to bind table-function name'')),
                 unlock (log_native [N_destroy_prepare p] c1))
               else map_option (\<lambda>(r, c2).
                   case r of
                     Inl msg \<Rightarrow> (Inl (duckdb_throw_start_error msg), unlock (log_native [N_destroy_prepare p] c2))
                   | Inr (Inl (h, ty, err)) \<Rightarrow>
                       (Inl (duckdb_throw_result_error err ty), unlock (log_native [N_destroy_result h, N_destroy_prepare p] c2))
                   | Inr (Inr h) \<Rightarrow>
                       (Inr (O_rows (Some \<lparr>hr_handle = h, hr_type = None, hr_rows = True\<rparr>)),
                        unlock (log_native [N_destroy_prepare p] c2)))
                 (run_prepared failed n pumped plain e c1)))"

section \<open>Control\<close>

definition interrupt :: "conn \<Rightarrow> outcome" where
  "interrupt c =
     (case duckdb_connection_guard (Some c) of Inl err \<Rightarrow> (Inl err, c) | Inr u \<Rightarrow> (Inr O_nothing, log_native [N_interrupt] c))"

text \<open>\<open>duckdb_connection_exec_simple\<close> for \<open>BEGIN TRANSACTION\<close> and \<open>ROLLBACK\<close>.\<close>

definition duckdb_connection_exec_simple :: "thread \<Rightarrow> reply \<Rightarrow> conn \<Rightarrow> outcome" where
  "duckdb_connection_exec_simple th answer c =
     (case enter_statement th [] c of
        Inl err \<Rightarrow> (Inl err, c)
      | Inr c1 \<Rightarrow>
          (case answer of
             Inl (h, ty, err) \<Rightarrow> (Inl (duckdb_throw_result_error err ty), unlock (log_native [N_destroy_result h] c1))
           | Inr h \<Rightarrow> (Inr O_nothing, log_native [N_destroy_result h] (unlock c1))))"

text \<open>
  \<open>commit\<close>: DuckDB is a function from the statement and its state to its answer and its next state. The
  statement \<open>EXPLAIN SELECT 1\<close> asks first whether the transaction has been aborted.
\<close>

type_synonym 'e engine = "string \<Rightarrow> 'e \<Rightarrow> reply \<times> 'e"

definition duckdb_transaction_probe_sql :: string where
  "duckdb_transaction_probe_sql = ''EXPLAIN SELECT 1''"

definition duckdb_transaction_probe_aborted :: "duckdb_error_type \<Rightarrow> string option \<Rightarrow> bool" where
  "duckdb_transaction_probe_aborted ty err =
     (ty = E_Transaction \<and> (case err of None \<Rightarrow> False | Some m \<Rightarrow> contains ''Current transaction is aborted'' m))"

definition aborted_transaction :: throwable where
  "aborted_transaction = duckdb_throw_error E_Transaction
     (Some ''Transaction was aborted, so nothing was committed; call rollBack() to end it'')"

definition commit :: "'e engine \<Rightarrow> thread \<Rightarrow> conn \<Rightarrow> 'e \<Rightarrow> outcome \<times> 'e" where
  "commit engine th c s =
     (case enter_statement th [] c of
        Inl err \<Rightarrow> ((Inl err, c), s)
      | Inr c1 \<Rightarrow>
          (case engine duckdb_transaction_probe_sql s of
             (Inl (h, ty, err), s1) \<Rightarrow>
               if \<not> duckdb_transaction_probe_aborted ty err
               then ((Inl (duckdb_throw_result_error err ty), unlock (log_native [N_destroy_result h] c1)), s1)
               else ((Inl aborted_transaction, unlock (log_native [N_destroy_result h] c1)), s1)
           | (Inr h, s1) \<Rightarrow>
               let c2 = log_native [N_destroy_result h] c1 in
               (case engine ''COMMIT'' s1 of
                  (Inl (h', ty, err), s2) \<Rightarrow> ((Inl (duckdb_throw_result_error err ty), unlock (log_native [N_destroy_result h'] c2)), s2)
                | (Inr h', s2) \<Rightarrow> ((Inr O_nothing, log_native [N_destroy_result h'] (unlock c2)), s2))))"

definition beginTransaction :: "'e engine \<Rightarrow> thread \<Rightarrow> conn \<Rightarrow> 'e \<Rightarrow> outcome \<times> 'e" where
  "beginTransaction engine th c s =
     (case enter_statement th [] c of
        Inl err \<Rightarrow> ((Inl err, c), s)
      | Inr c1 \<Rightarrow> let (a, s1) = engine ''BEGIN TRANSACTION'' s in (duckdb_connection_exec_simple th a c, s1))"

definition rollBack :: "'e engine \<Rightarrow> thread \<Rightarrow> conn \<Rightarrow> 'e \<Rightarrow> outcome \<times> 'e" where
  "rollBack engine th c s =
     (case enter_statement th [] c of
        Inl err \<Rightarrow> ((Inl err, c), s)
      | Inr c1 \<Rightarrow> let (a, s1) = engine ''ROLLBACK'' s in (duckdb_connection_exec_simple th a c, s1))"

section \<open>Commit\<close>

lemma enter_statement_free:
  "enter_statement th sql c = Inr c1 \<longleftrightarrow>
     CHR 0x00 \<notin> set sql \<and> \<not> conn_closed c \<and> \<not> duckdb_conn_busy_here th c \<and> c1 = c\<lparr>conn_lock := Some th\<rparr>"
  by (auto simp: enter_statement_def rbind_eq_Inr duckdb_check_no_nul_def duckdb_connection_guard_def duckdb_conn_enter_def
      duckdb_conn_check_not_busy_def)





section \<open>Calls\<close>

text \<open>One call of a method with DuckDB's answers to it.\<close>

datatype call =
    C_query string reply "handle option \<times> (string option \<times> reply) \<times> string option \<times> statement_run list"
  | C_queryStreaming string "(handle option \<times> string option, handle) result" execution
  | C_queryPending string "(handle option \<times> string option, handle) result" nat "(handle option \<times> string option, handle) result"
  | C_execute string "(handle option \<times> string option, handle) result" nat "throwable option" reply execution
  | C_prepare string "(handle option \<times> string option, handle) result" "bool \<times> bool"
  | C_getTableFunctions "string option" "(handle option \<times> string option, handle) result" bool reply execution
  | C_getTableNames string "(handle \<times> table_name list) option"
  | C_exec_simple reply
  | C_commit reply reply

fun run_call :: "(handle \<Rightarrow> bool) \<Rightarrow> thread \<Rightarrow> nat \<Rightarrow> bool \<Rightarrow> call \<Rightarrow> conn \<Rightarrow> outcome option" where
  "run_call failed th n pumped (C_query sql plain pump) c = query failed th n pumped sql plain pump c"
| "run_call failed th n pumped (C_queryStreaming sql prepared e) c = queryStreaming failed th n pumped sql prepared e c"
| "run_call failed th n pumped (C_queryPending sql prepared ty pending) c = Some (queryPending failed th n pumped sql prepared ty pending c)"
| "run_call failed th n pumped (C_execute sql prepared ty bound plain e) c = execute failed th n pumped sql prepared ty bound plain e c"
| "run_call failed th n pumped (C_prepare sql prepared uses) c = Some (prepare failed th sql prepared uses c)"
| "run_call failed th n pumped (C_getTableFunctions name prepared binds plain e) c =
     getTableFunctions failed th n pumped name prepared binds plain e c"
| "run_call failed th n pumped (C_getTableNames sql names) c = Some (getTableNames th sql names c)"
| "run_call failed th n pumped (C_exec_simple answer) c = Some (duckdb_connection_exec_simple th answer c)"
| "run_call failed th n pumped (C_commit probe answer) c =
     Some (fst (commit (\<lambda>sql s. (if sql = duckdb_transaction_probe_sql then probe else answer, s)) th c ()))"

fun call_text :: "call \<Rightarrow> string" where
  "call_text (C_query sql plain pump) = sql"
| "call_text (C_queryStreaming sql prepared e) = sql"
| "call_text (C_queryPending sql prepared ty pending) = sql"
| "call_text (C_execute sql prepared ty bound plain e) = sql"
| "call_text (C_prepare sql prepared uses) = sql"
| "call_text (C_getTableFunctions name prepared binds plain e) = (case name of None \<Rightarrow> [] | Some s \<Rightarrow> s)"
| "call_text (C_getTableNames sql names) = sql"
| "call_text (C_exec_simple answer) = []"
| "call_text (C_commit probe answer) = []"

text \<open>The handles the returned object owns; the record of a stream or pending query owns its own in the connection.\<close>

fun owned_by :: "object \<Rightarrow> handle multiset" where
  "owned_by (O_result r) = held_handle r"
| "owned_by (O_stream i p) = {#p#}"
| "owned_by (O_pending i p ty) = {#p#}"
| "owned_by (O_statement p copies scalars) = {#p#}"
| "owned_by (O_rows r) = held_handle r"
| "owned_by (O_names ns) = {#}"
| "owned_by O_nothing = {#}"

text \<open>The handles DuckDB creates when the call reaches it.\<close>

definition created_by_name :: "table_name \<Rightarrow> handle multiset" where
  "created_by_name child =
     (case child of None \<Rightarrow> {#} | Some (v, text) \<Rightarrow> {#v#} + (case text of None \<Rightarrow> {#} | Some (s, name) \<Rightarrow> {#s#}))"

definition created_by_start :: "(handle option \<times> string option, handle) result \<Rightarrow> handle multiset \<Rightarrow> handle multiset" where
  "created_by_start prepared then_created =
     (case prepared of Inl (p, err) \<Rightarrow> mset_set (set_option p) | Inr p \<Rightarrow> {#p#} + then_created)"

fun created_by_call :: "bool \<Rightarrow> call \<Rightarrow> handle multiset" where
  "created_by_call pumped (C_query sql plain pump) =
     (if pumped then (case pump of (x, whole, unwound, runs) \<Rightarrow> mset_set (set_option x) +
        (if runs = [] then (if fst whole = None then {#reply_handle (snd whole)#} else {#}) else created_by runs))
      else {#reply_handle plain#})"
| "created_by_call pumped (C_queryStreaming sql prepared e) = created_by_start prepared
     (if pumped then created_by_execution e
      else created_by_start (ex_pending e) ({#reply_handle (ex_result e)#}))"
| "created_by_call pumped (C_queryPending sql prepared ty pending) = created_by_start prepared (created_by_start pending {#})"
| "created_by_call pumped (C_execute sql prepared ty bound plain e) = created_by_start prepared
     (if bound \<noteq> None then {#} else if pumped then created_by_execution e else {#reply_handle plain#})"
| "created_by_call pumped (C_prepare sql prepared uses) = created_by_start prepared {#}"
| "created_by_call pumped (C_getTableFunctions name prepared binds plain e) = created_by_start prepared
     (if name \<noteq> None \<and> \<not> binds then {#} else if pumped then created_by_execution e else {#reply_handle plain#})"
| "created_by_call pumped (C_getTableNames sql names) =
     (case names of None \<Rightarrow> {#} | Some (v, ns) \<Rightarrow> {#v#} + sum_list (map created_by_name ns))"
| "created_by_call pumped (C_exec_simple answer) = {#reply_handle answer#}"
| "created_by_call pumped (C_commit probe answer) =
     {#reply_handle probe#} + (case probe of Inl x \<Rightarrow> {#} | Inr h \<Rightarrow> {#reply_handle answer#})"

section \<open>Handles and the lock\<close>

lemma pump_execute_natives:
  "duckdb_pump_execute failed n streaming keeps e c = Some (out, c') \<Longrightarrow> \<exists>ns. c' = log_native ns c"
  by (auto simp: duckdb_pump_execute_def Let_def duckdb_discard_pending_def end_session_def log_native_def
      split: sum.splits option.splits prod.splits if_splits)

lemma pump_statements_natives:
  "pump_statements failed n x runs held c = Some (out, c') \<Longrightarrow> \<exists>ns. c' = log_native ns c"
proof (induction runs arbitrary: held c)
  case Nil
  then show ?case by auto
next
  case (Cons r rs)
  have log: "log_native ns (log_native ms c) = log_native (ms @ ns) c" for ns ms by (simp add: log_native_def)
  show ?case
  proof (cases "sr_prepare r")
    case (Inl y)
    then show ?thesis using Cons.prems by (cases y) auto
  next
    case (Inr p)
    with Cons.prems obtain o1 c1 where e: "duckdb_pump_execute failed n False False (sr_execution r) c = Some (o1, c1)"
      by (auto split: option.splits)
    obtain ns where c1: "c1 = log_native ns c" using pump_execute_natives [OF e] by blast
    consider ms where "c' = log_native ms c1"
      | held' ms where "pump_statements failed n x rs held' (log_native ms c1) = Some (out, c')"
      using Cons.prems Inr e by (auto split: sum.splits prod.splits if_splits)
    then show ?thesis
    proof cases
      case 1
      then show ?thesis using log c1 by blast
    next
      case 2
      from Cons.IH [OF this] show ?thesis by (auto simp: c1 log)
    qed
  qed
qed

lemma placed_natives:
  assumes "c' = log_native ns c" "mset (destroyed c') + X = mset (destroyed c) + Y"
  shows "placed c' + X = placed c + Y"
proof -
  have "mset (concat (map destroyed_by ns)) + X = Y" using assms by (simp add: add.assoc)
  then show ?thesis using assms(1) by (auto simp: placed_log add.assoc)
qed

lemma lock_natives: "c' = log_native ns c \<Longrightarrow> conn_lock c' = conn_lock c"
  by (simp add: log_native_def)

lemma destroy_prepare_placed [simp]: "placed (duckdb_conn_destroy_prepare failed t h c) = placed c + {#h#}"
  by (simp add: duckdb_conn_destroy_prepare_def duckdb_conn_cleanup_def placed_log)
     (simp add: placed_def destroyed_def ac_simps)

lemma destroy_prepare_lock [simp]: "conn_lock (duckdb_conn_destroy_prepare failed t h c) = conn_lock c"
  by (simp add: duckdb_conn_destroy_prepare_def duckdb_conn_cleanup_def log_native_def)

lemma release_statement_frame [simp]:
  "placed (release_statement failed t p c) = placed c + mset_set (set_option p)"
  "conn_lock (release_statement failed t p c) = conn_lock c"
  by (simp_all add: release_statement_def split: option.split)

lemma release_task_frame [simp]:
  "placed (release_task failed t p c) = placed c + mset_set (set_option p)"
  "conn_lock (release_task failed t p c) = conn_lock c"
proof -
  show "placed (release_task failed t p c) = placed c + mset_set (set_option p)"
    by (cases p) (simp_all add: release_task_def duckdb_conn_cleanup_def placed_log, simp_all add: placed_def destroyed_def ac_simps)
  show "conn_lock (release_task failed t p c) = conn_lock c"
    by (simp add: release_task_def duckdb_conn_cleanup_def log_native_def split: option.split)
qed

lemma unlock_frame [simp]: "placed (unlock c) = placed c" "conn_lock (unlock c) = None"
  by (simp_all add: unlock_def)

lemma pump_execute_placed:
  assumes "duckdb_pump_execute failed n streaming keeps e c = Some (out, c')"
  shows "placed c' + (case out of Inr (a, k) \<Rightarrow> {#reply_handle a#} | Inl msg \<Rightarrow> {#}) = placed c + created_by_execution e"
proof -
  obtain ns where ns: "c' = log_native ns c" using pump_execute_natives [OF assms] by blast
  show ?thesis by (rule placed_natives [OF ns pump_execute_conserves(1) [OF assms]])
qed

lemma pump_query_placed:
  assumes "duckdb_pump_query failed n x whole unwound runs c = Some (out, c')"
  shows "placed c' + (case out of Inr r \<Rightarrow> held_handle r | Inl _ \<Rightarrow> {#}) =
      placed c + (mset_set (set_option x) +
        (if runs = [] then if fst whole = None then {#reply_handle (snd whole)#} else {#} else created_by runs))
    \<and> conn_lock c' = conn_lock c"
proof -
  have log: "log_native ns (log_native ms c) = log_native (ms @ ns) c" for ns ms by (simp add: log_native_def)
  obtain ns where ns: "c' = log_native ns c"
    using assms pump_statements_natives
    by (fastforce simp: duckdb_pump_query_def end_session_def log Let_def split: if_splits option.splits prod.splits sum.splits)
  have "mset (destroyed c') + (case out of Inr r \<Rightarrow> held_handle r | Inl _ \<Rightarrow> {#}) =
      mset (destroyed c) + (mset_set (set_option x) +
        (if runs = [] then if fst whole = None then {#reply_handle (snd whole)#} else {#} else created_by runs))"
    using assms pump_statements_conserves [of failed n x runs None c out c']
    by (auto simp: duckdb_pump_query_def held_handle_def destroyed_extracted_if Let_def split: option.splits prod.splits sum.splits if_splits)
  then show ?thesis using placed_natives [OF ns] lock_natives [OF ns] by blast
qed

lemma run_prepared_placed:
  assumes "run_prepared failed n pumped plain e c = Some (r, c')"
  shows "placed c' + (case r of Inr a \<Rightarrow> {#reply_handle a#} | Inl msg \<Rightarrow> {#}) =
      placed c + (if pumped then created_by_execution e else {#reply_handle plain#})"
proof (cases pumped)
  case True
  with assms obtain out where o: "duckdb_pump_execute failed n False False e c = Some (out, c')" and r: "r = map_sum id fst out"
    by (auto simp: run_prepared_def)
  show ?thesis using pump_execute_placed [OF o] True by (cases out) (auto simp: r)
next
  case False
  then show ?thesis using assms by (auto simp: run_prepared_def)
qed

definition settles :: "conn \<Rightarrow> handle multiset \<Rightarrow> outcome \<Rightarrow> bool" where
  "settles c made out \<longleftrightarrow> conn_lock (snd out) = None
     \<and> placed (snd out) + (case fst out of Inr x \<Rightarrow> owned_by x | Inl _ \<Rightarrow> {#}) = placed c + made"

lemma destroyed_prepare_if_placed [simp]:
  "placed (log_native (destroy_prepare_if p) c) = placed c + mset_set (set_option p)"
  "placed (log_native (destroy_pending_if p) c) = placed c + mset_set (set_option p)"
  by (simp_all add: placed_log destroy_prepare_if_def destroy_pending_if_def split: option.split)

lemma placed_end_session [simp]: "placed (end_session s m c) = placed c"
  by (simp add: end_session_def placed_log split: option.split)

lemma destroyed_pending_if [simp]: "mset (concat (map destroyed_by (destroy_pending_if p))) = mset_set (set_option p)"
  by (simp add: destroy_pending_if_def split: option.split)

lemma placed_stream [simp]: "placed (duckdb_open_result_stream h session c) = placed c + {#h#}"
  "placed (duckdb_open_result_pending h session c) = placed c + {#h#}"
  by (simp_all add: duckdb_open_result_stream_def duckdb_open_result_pending_def add_record_placed record_handles_def)

lemma query_settles:
  assumes "enter_statement th sql c = Inr c1" "query failed th n pumped sql plain pump c = Some out"
  shows "settles c (created_by_call pumped (C_query sql plain pump)) out"
proof -
  have c1: "placed c1 = placed c" using assms(1) by (simp add: enter_statement_free)
  show ?thesis
  proof (cases pumped)
    case True
    obtain x whole unwound runs where pump: "pump = (x, whole, unwound, runs)" by (cases pump)
    with assms True obtain r c2 where "duckdb_pump_query failed n x whole unwound runs c1 = Some (r, c2)" "out = (map_sum id O_result r, unlock c2)"
      by (auto simp: query_def)
    with pump_query_placed [OF this(1)] show ?thesis using True c1
      by (cases r) (simp_all add: settles_def pump)
  next
    case False
    then show ?thesis
      using assms c1 by (auto simp: query_def settles_def held_handle_def placed_log split: sum.splits)
  qed
qed

lemma streaming_settles:
  assumes "enter_statement th sql c = Inr c1" "queryStreaming failed th n pumped sql prepared e c = Some out"
  shows "settles c (created_by_call pumped (C_queryStreaming sql prepared e)) out"
proof -
  have c1: "placed c1 = placed c" using assms(1) by (simp add: enter_statement_free)
  show ?thesis
  proof (cases prepared)
    case (Inl x)
    then show ?thesis using assms c1 by (cases x) (auto simp: queryStreaming_def settles_def created_by_start_def)
  next
    case (Inr p)
    let ?start = "if pumped then duckdb_pump_execute failed n True True e c1 else Some (stream_plain e c1)"
    from assms Inr obtain r c2 where r: "?start = Some (r, c2)"
      by (auto simp: queryStreaming_def split: if_splits prod.splits)
    have conserved: "placed c2 + (case r of Inr (a, k) \<Rightarrow> {#reply_handle a#} | Inl msg \<Rightarrow> {#}) =
        placed c1 + (if pumped then created_by_execution e else created_by_start (ex_pending e) ({#reply_handle (ex_result e)#}))"
    proof (cases pumped)
      case True
      then show ?thesis using pump_execute_placed r by simp
    next
      case False
      then show ?thesis
        using r by (auto simp: stream_plain_def created_by_start_def placed_log split: sum.splits prod.splits)
    qed
    have "out = (case r of
        Inl msg \<Rightarrow> (Inl (duckdb_throw_start_error msg), release_statement failed th (Some p) (unlock c2))
      | Inr (Inl (h, ty, err), kept) \<Rightarrow>
        (Inl (duckdb_throw_result_error err ty), release_statement failed th (Some p) (unlock (log_native [N_destroy_result h] c2)))
      | Inr (Inr h, kept) \<Rightarrow> (Inr (O_stream (length (records c2)) p), unlock (duckdb_open_result_stream h kept c2)))"
      using assms Inr r by (auto simp: queryStreaming_def)
    then show ?thesis
      using conserved c1 Inr
      by (auto simp: settles_def created_by_start_def placed_log split: sum.splits prod.splits)
  qed
qed

lemma pending_settles:
  assumes "enter_statement th sql c = Inr c1"
    "queryPending failed th n pumped sql prepared ty pending c = out"
  shows "settles c (created_by_call pumped (C_queryPending sql prepared ty pending)) out"
proof -
  have c1: "placed c1 = placed c" using assms(1) by (simp add: enter_statement_free)
  show ?thesis
  proof (cases prepared)
    case (Inl x)
    then show ?thesis using assms c1 by (cases x) (auto simp: queryPending_def settles_def created_by_start_def)
  next
    case (Inr p)
    then show ?thesis
      using assms c1 by (cases pending) (auto simp: queryPending_def Let_def settles_def created_by_start_def)
  qed
qed

lemma execute_settles:
  assumes "enter_statement th sql c = Inr c1" "execute failed th n pumped sql prepared ty bound plain e c = Some out"
  shows "settles c (created_by_call pumped (C_execute sql prepared ty bound plain e)) out"
proof -
  have c1: "placed c1 = placed c" using assms(1) by (simp add: enter_statement_free)
  show ?thesis
  proof (cases prepared)
    case (Inl x)
    then show ?thesis using assms c1 by (cases x) (auto simp: execute_def settles_def created_by_start_def)
  next
    case (Inr p)
    show ?thesis
    proof (cases bound)
      case (Some err)
      then show ?thesis using assms c1 Inr by (auto simp: execute_def settles_def created_by_start_def placed_log)
    next
      case None
      with assms Inr obtain r c2 where "run_prepared failed n pumped plain e c1 = Some (r, c2)"
        "out = (case r of
            Inl msg \<Rightarrow> (Inl (duckdb_throw_start_error msg), unlock (log_native [N_destroy_prepare p] c2))
          | Inr (Inl (h, ty, err)) \<Rightarrow> (Inl (duckdb_throw_result_error err ty), unlock (log_native [N_destroy_prepare p, N_destroy_result h] c2))
          | Inr (Inr h) \<Rightarrow> (Inr (O_result (Some \<lparr>hr_handle = h, hr_type = Some ty, hr_rows = True\<rparr>)), unlock (log_native [N_destroy_prepare p] c2)))"
        by (auto simp: execute_def)
      with run_prepared_placed [OF this(1)] show ?thesis
        using c1 Inr None by (auto simp: settles_def created_by_start_def placed_log held_handle_def split: sum.splits prod.splits)
    qed
  qed
qed

lemma table_functions_settles:
  assumes "enter_statement th (case name of None \<Rightarrow> [] | Some s \<Rightarrow> s) c = Inr c1"
    "getTableFunctions failed th n pumped name prepared binds plain e c = Some out"
  shows "settles c (created_by_call pumped (C_getTableFunctions name prepared binds plain e)) out"
proof -
  have c1: "placed c1 = placed c" using assms(1) by (simp add: enter_statement_free)
  show ?thesis
  proof (cases prepared)
    case (Inl x)
    then show ?thesis using assms c1 by (cases x) (auto simp: getTableFunctions_def settles_def created_by_start_def)
  next
    case (Inr p)
    show ?thesis
    proof (cases "name \<noteq> None \<and> \<not> binds")
      case True
      then show ?thesis using assms c1 Inr by (auto simp: getTableFunctions_def settles_def created_by_start_def placed_log)
    next
      case False
      with assms Inr obtain r c2 where "run_prepared failed n pumped plain e c1 = Some (r, c2)"
        "out = (case r of
            Inl msg \<Rightarrow> (Inl (duckdb_throw_start_error msg), unlock (log_native [N_destroy_prepare p] c2))
          | Inr (Inl (h, ty, err)) \<Rightarrow> (Inl (duckdb_throw_result_error err ty), unlock (log_native [N_destroy_result h, N_destroy_prepare p] c2))
          | Inr (Inr h) \<Rightarrow> (Inr (O_rows (Some \<lparr>hr_handle = h, hr_type = None, hr_rows = True\<rparr>)), unlock (log_native [N_destroy_prepare p] c2)))"
        by (auto simp: getTableFunctions_def split: if_splits)
      with run_prepared_placed [OF this(1)] show ?thesis
        using c1 Inr False by (auto simp: settles_def created_by_start_def placed_log held_handle_def split: sum.splits prod.splits)
    qed
  qed
qed

lemma prepare_settles:
  assumes "enter_statement th sql c = Inr c1"
    "prepare failed th sql prepared uses c = out"
  shows "settles c (created_by_call pumped (C_prepare sql prepared uses)) out"
proof -
  have c1: "placed c1 = placed c" using assms(1) by (simp add: enter_statement_free)
  show ?thesis
    using assms c1 by (auto simp: prepare_def settles_def created_by_start_def split: sum.splits prod.splits)
qed

lemma released_names: "mset (concat (map destroyed_by (concat (map release_name ns)))) = sum_list (map created_by_name ns)"
  by (induction ns) (auto simp: release_name_def created_by_name_def split: option.split)

lemma lock_log [simp]: "conn_lock (log_native ns c) = conn_lock c"
  by (simp add: log_native_def)

lemma table_names_settles:
  assumes "enter_statement th sql c = Inr c1"
    "getTableNames th sql names c = out"
  shows "settles c (created_by_call pumped (C_getTableNames sql names)) out"
proof -
  have "placed c1 = placed c" using assms(1) by (simp add: enter_statement_free)
  then show ?thesis
    using assms by (auto simp: getTableNames_def settles_def placed_log released_names split: option.splits)
qed

lemma simple_settles:
  assumes "enter_statement th [] c = Inr c1"
    "duckdb_connection_exec_simple th answer c = out"
  shows "settles c (created_by_call pumped (C_exec_simple answer)) out"
proof -
  have "placed c1 = placed c" using assms(1) by (simp add: enter_statement_free)
  then show ?thesis
    using assms by (auto simp: duckdb_connection_exec_simple_def settles_def placed_log split: sum.splits)
qed

lemma commit_settles:
  assumes "enter_statement th [] c = Inr c1"
    "fst (commit (\<lambda>sql s. (if sql = duckdb_transaction_probe_sql then probe else answer, s)) th c ()) = out"
  shows "settles c (created_by_call pumped (C_commit probe answer)) out"
proof -
  have "placed c1 = placed c" "''COMMIT'' \<noteq> duckdb_transaction_probe_sql"
    using assms(1) by (simp_all add: enter_statement_free duckdb_transaction_probe_sql_def)
  then show ?thesis
    using assms by (auto simp: commit_def settles_def placed_log Let_def split: sum.splits)
qed

text \<open>
  C7. The methods of a connection that start statements leak no native object, destroy none twice, and do not leave
  the connection locked. Whatever DuckDB answers to \<open>query\<close>, \<open>queryStreaming\<close>, \<open>queryPending\<close>, \<open>execute\<close>, \<open>prepare\<close>,
  \<open>getTableFunctions\<close>, \<open>getTableNames\<close>, \<open>beginTransaction\<close>, \<open>commit\<close> or \<open>rollBack\<close>, pumped or not: every object it handed out
  (extracted and prepared statements, pending queries, the results of successful, failed and discarded executions, catalog
  values and their texts) is afterwards destroyed once, registered or waiting in the connection once, or owned by the
  returned object, and the lock is free.
\<close>

theorem methods_conserve_handles:
  assumes "conn_lock c = None" "run_call failed th n pumped call c = Some (r, c')"
  shows "conn_lock c' = None
    \<and> placed c' + (case r of Inr x \<Rightarrow> owned_by x | Inl _ \<Rightarrow> {#}) =
        placed c + (case enter_statement th (call_text call) c of Inl _ \<Rightarrow> {#} | Inr _ \<Rightarrow> created_by_call pumped call)"
proof (cases "enter_statement th (call_text call) c")
  case (Inl err)
  then have "r = Inl err \<and> c' = c"
    using assms(2)
    by (cases call) (auto simp: query_def queryStreaming_def queryPending_def execute_def prepare_def getTableFunctions_def getTableNames_def
        duckdb_connection_exec_simple_def commit_def)
  then show ?thesis using assms(1) Inl by simp
next
  case (Inr c1)
  have "settles c (created_by_call pumped call) (r, c')"
    using assms(2) Inr
    by (cases call) (auto intro: query_settles streaming_settles pending_settles execute_settles prepare_settles
        table_functions_settles table_names_settles simple_settles commit_settles simp del: created_by_call.simps)
  then show ?thesis using Inr by (simp add: settles_def)
qed


section \<open>Calls in use\<close>

lemma methods_conserve_handles_witness:
  "\<exists>c'. run_call (\<lambda>_. False) 1 4 True (C_execute ''SELECT ?'' (Inr 10) 1 None (Inr 0) (sample_execution PS_error 11)) initial_conn =
      Some (Inl (duckdb_throw_start_error ''IO Error: disk''), c')
    \<and> conn_lock c' = None \<and> placed c' = {#10, 11, 13#}"
proof -
  have "find final [PS_no_tasks, PS_error] = Some PS_error" by (simp add: final_def)
  then obtain c' where r: "run_call (\<lambda>_. False) 1 4 True (C_execute ''SELECT ?'' (Inr 10) 1 None (Inr 0) (sample_execution PS_error 11)) initial_conn =
      Some (Inl (duckdb_throw_start_error ''IO Error: disk''), c')"
    by (simp add: execute_def enter_statement_def duckdb_check_no_nul_def duckdb_connection_guard_def duckdb_conn_enter_def
        duckdb_conn_check_not_busy_def duckdb_conn_busy_here_def initial_conn_def run_prepared_def duckdb_pump_execute_def
        sample_execution_def drive_pending_find duckdb_lease_failure_def Let_def)
  have "placed initial_conn = {#}" by (simp add: placed_def initial_conn_def destroyed_def)
  moreover have "enter_statement 1 ''SELECT ?'' initial_conn = Inr (initial_conn\<lparr>conn_lock := Some 1\<rparr>)"
    by (simp add: enter_statement_free) (simp add: initial_conn_def duckdb_conn_busy_here_def)
  moreover have "created_by_execution (sample_execution PS_error 11) = {#11, 13#}"
    by (simp add: created_by_execution_def sample_execution_def completes_def drive_pending_find final_def)
  ultimately show ?thesis
    using methods_conserve_handles [OF _ r] r by (simp add: created_by_start_def) (simp add: initial_conn_def)
qed


end
