(* ===== verification/Arrow_Schema.thy ===== *)
theory Arrow_Schema
  imports Prelude Errors Byte_Reader Logical_Type
begin

text \<open>
  Arrow schemas, \<open>src/src/arrow.cpp\<close>: the validation of C data interface structures that come from outside, their
  metadata blocks, deep copies, \<open>ArrowSchema::toArray\<close>, and the check of lossless representations.

  A \<open>native\<close> computation throws (\<open>Inl (Some e)\<close>), returns, or reads memory the producer did not
  provide (\<open>Inl None\<close>). As in the code, a producer's pointers are trusted: a list of children is the array the
  pointer leads to, metadata is the allocation from the pointer on.
\<close>

lemma traverse_ok: "(\<exists>ys. traverse f xs = Inr ys) \<longleftrightarrow> (\<forall>x \<in> set xs. \<exists>y. f x = Inr y)"
  by (induction xs) (auto simp: rbind_eq_Inr)

lemma traverse_map_list: "traverse f (map k xs) = traverse (\<lambda>x. f (k x)) xs"
  by (induction xs) auto

section \<open>Structures\<close>

type_synonym 'a native = "(throwable option, 'a) result"

definition value_error :: "string \<Rightarrow> 'a native" where
  "value_error m = Inl (Some (ValueError m))"

lemma value_error_neq [simp]: "value_error m \<noteq> Inr x"
  by (simp add: value_error_def)

text \<open>\<open>as_live\<close>: the release callback is set.\<close>

datatype arrow_schema = Arrow_schema
  (as_format: "string option") (as_name: "string option") (as_metadata: "u8 list option") (as_flags: int)
  (as_n_children: int) (as_children: "arrow_schema option list option") (as_dictionary: "arrow_schema option")
  (as_live: bool)

definition schema_children :: "arrow_schema \<Rightarrow> arrow_schema option list" where
  "schema_children s = take (nat (as_n_children s)) (case as_children s of None \<Rightarrow> [] | Some cs \<Rightarrow> cs)"

lemma size_child:
  assumes "Some t \<in> set (schema_children s)"
  shows "size t < size s"
proof -
  obtain cs where cs: "as_children s = Some cs" "Some t \<in> set cs"
    using assms by (auto simp: schema_children_def dest: in_set_takeD split: option.splits)
  then have "size_option size (Some t) \<le> size_list (size_option size) cs" by (intro size_list_estimation' [OF cs(2)]) simp
  then show ?thesis using cs(1) by (cases s) simp
qed

lemma size_dictionary: "as_dictionary s = Some t \<Longrightarrow> size t < size s"
  by (cases s) simp

definition subschema :: "arrow_schema \<Rightarrow> arrow_schema \<Rightarrow> bool" where
  "subschema t s \<longleftrightarrow> Some t \<in> set (schema_children s) \<or> as_dictionary s = Some t"

lemma subschema_induct [case_names schema]: "(\<And>s. (\<And>t. subschema t s \<Longrightarrow> P t) \<Longrightarrow> P s) \<Longrightarrow> P s"
proof (induction s rule: measure_induct_rule [of size])
  case (less s)
  have "size t < size s" if "subschema t s" for t
    using that size_child size_dictionary unfolding subschema_def by blast
  then show ?case using less by blast
qed

section \<open>Metadata\<close>

definition read_int32 :: "u8 list \<Rightarrow> nat \<Rightarrow> int native" where
  "read_int32 m i = (if i + 4 > length m then Inl None else Inr (sint (of_nat (le_value (take 4 (drop i m))) :: u32)))"

definition read_text :: "u8 list \<Rightarrow> nat \<Rightarrow> nat \<Rightarrow> string native" where
  "read_text m i n = (if i + n > length m then Inl None else Inr (bytes_text (take n (drop i m))))"

definition max_bytes :: nat where
  "max_bytes = 64 * 1024 * 1024"

definition oversized :: string where
  "oversized = ''Invalid or oversized Arrow metadata''"

text \<open>The two nested loops of \<open>metadata_length\<close>, one step per key or value.\<close>

fun metadata_walk :: "nat \<Rightarrow> u8 list \<Rightarrow> nat \<Rightarrow> nat native" where
  "metadata_walk 0 m len = Inr len"
| "metadata_walk (Suc k) m len =
     (if len > max_bytes - 4 then value_error oversized
      else rbind (read_int32 m len) (\<lambda>n.
        if n < 0 \<or> nat n > max_bytes - (len + 4) then value_error oversized
        else metadata_walk k m (len + 4 + nat n)))"

definition metadata_length :: "u8 list option \<Rightarrow> nat native" where
  "metadata_length metadata =
     (case metadata of
        None \<Rightarrow> Inr 0
      | Some m \<Rightarrow> rbind (read_int32 m 0) (\<lambda>count.
          if count < 0 \<or> count > 65536 then value_error ''Invalid Arrow metadata entry count''
          else metadata_walk (2 * nat count) m 4))"

text \<open>The loop of \<open>schema_to_array\<close>.\<close>

fun metadata_entries :: "nat \<Rightarrow> u8 list \<Rightarrow> nat \<Rightarrow> (string \<times> string) list native" where
  "metadata_entries 0 m i = Inr []"
| "metadata_entries (Suc k) m i =
     rbind (read_int32 m i) (\<lambda>l. rbind (read_text m (i + 4) (nat l)) (\<lambda>key.
     rbind (read_int32 m (i + 4 + nat l)) (\<lambda>l'. rbind (read_text m (i + 4 + nat l + 4) (nat l')) (\<lambda>val.
     rbind (metadata_entries k m (i + 4 + nat l + 4 + nat l')) (\<lambda>es. Inr ((key, val) # es))))))"

definition metadata_array :: "u8 list option \<Rightarrow> (string \<times> string) list native" where
  "metadata_array metadata =
     (case metadata of None \<Rightarrow> Inr [] | Some m \<Rightarrow> rbind (read_int32 m 0) (\<lambda>count. metadata_entries (nat count) m 4))"

text \<open>\<open>duckdb_arrow_extension_metadata\<close>: name and metadata of the extension type, empty when absent.\<close>

fun extension_walk :: "nat \<Rightarrow> u8 list \<Rightarrow> nat \<Rightarrow> string \<times> string \<Rightarrow> (string \<times> string) native" where
  "extension_walk 0 m i acc = Inr acc"
| "extension_walk (Suc k) m i acc =
     rbind (read_int32 m i) (\<lambda>l. rbind (read_text m (i + 4) (nat l)) (\<lambda>key.
     rbind (read_int32 m (i + 4 + nat l)) (\<lambda>l'.
     rbind (if key = ''ARROW:extension:name''
            then rbind (read_text m (i + 4 + nat l + 4) (nat l')) (\<lambda>val. Inr (val, snd acc))
            else if key = ''ARROW:extension:metadata''
            then rbind (read_text m (i + 4 + nat l + 4) (nat l')) (\<lambda>val. Inr (fst acc, val))
            else Inr acc) (\<lambda>acc'.
     extension_walk k m (i + 4 + nat l + 4 + nat l') acc'))))"

definition duckdb_arrow_extension_metadata :: "u8 list option \<Rightarrow> (string \<times> string) native" where
  "duckdb_arrow_extension_metadata metadata =
     rbind (metadata_length metadata) (\<lambda>len.
       case metadata of
         None \<Rightarrow> Inr ([], [])
       | Some m \<Rightarrow> rbind (read_int32 m 0) (\<lambda>count. extension_walk (nat count) m 4 ([], [])))"

section \<open>The encoding of metadata\<close>

definition encode_text :: "string \<Rightarrow> u8 list" where
  "encode_text s = le_bytes 4 (length s) @ text_bytes s"

definition encode_texts :: "string list \<Rightarrow> u8 list" where
  "encode_texts ps = concat (map encode_text ps)"

definition entry_texts :: "(string \<times> string) list \<Rightarrow> string list" where
  "entry_texts es = concat (map (\<lambda>(key, val). [key, val]) es)"

definition encode_metadata :: "(string \<times> string) list \<Rightarrow> u8 list" where
  "encode_metadata es = le_bytes 4 (length es) @ encode_texts (entry_texts es)"

lemma encode_texts_simps [simp]:
  "encode_texts [] = []" "encode_texts (s # ps) = le_bytes 4 (length s) @ text_bytes s @ encode_texts ps"
  by (simp_all add: encode_texts_def encode_text_def)

lemma entry_texts_simps [simp]:
  "entry_texts [] = []" "entry_texts ((key, val) # es) = key # val # entry_texts es"
  by (simp_all add: entry_texts_def)

lemma length_entry_texts [simp]: "length (entry_texts es) = 2 * length es"
  by (induction es) auto

lemma texts_are_entries: "length ps = 2 * k \<Longrightarrow> \<exists>es. ps = entry_texts es \<and> length es = k"
proof (induction k arbitrary: ps)
  case (Suc k)
  then obtain key val qs where ps: "ps = key # val # qs" "length qs = 2 * k"
    by (auto simp: length_Suc_conv)
  from Suc.IH [OF ps(2)] obtain es where "qs = entry_texts es" "length es = k" by blast
  then show ?case using ps(1) by (intro exI [of _ "(key, val) # es"]) simp
qed simp

lemma at_offset:
  assumes "drop i m = xs @ ys"
  shows "take (length xs) (drop i m) = xs" "drop (i + length xs) m = ys" "xs \<noteq> [] \<Longrightarrow> i + length xs \<le> length m"
proof -
  show "take (length xs) (drop i m) = xs" using assms by simp
  have "drop (i + length xs) m = drop (length xs) (drop i m)" by (simp add: add.commute)
  then show "drop (i + length xs) m = ys" using assms by simp
  have "length m - i = length xs + length ys" using assms by (metis length_drop length_append)
  then show "xs \<noteq> [] \<Longrightarrow> i + length xs \<le> length m" by (cases xs) auto
qed

lemma unat_of_nat_small: "n < 2 ^ 32 \<Longrightarrow> unat (of_nat n :: u32) = n"
  by (simp add: unat_of_nat take_bit_nat_eq_self)

lemma read_int32_bytes:
  assumes "drop i m = le_bytes 4 n @ post" "n < 2 ^ 31"
  shows "read_int32 m i = Inr (int n)"
proof -
  have "i + 4 \<le> length m" using at_offset(3) [OF assms(1)] by simp
  moreover have "take 4 (drop i m) = le_bytes 4 n" using at_offset(1) [OF assms(1)] by simp
  moreover have "le_value (le_bytes 4 n) = n" using assms(2) by (intro le_value_bytes) simp
  moreover have "sint (of_nat n :: u32) = int n"
    using assms(2) by (simp add: sint_eq_uint uint_nat unat_of_nat_small)
  ultimately show ?thesis by (simp add: read_int32_def)
qed

lemma read_int32_nonneg:
  assumes "read_int32 m i = Inr n" "0 \<le> n"
  shows "i + 4 \<le> length m" "take 4 (drop i m) = le_bytes 4 (nat n)" "n < 2 ^ 31"
proof -
  show len: "i + 4 \<le> length m" using assms(1) by (simp add: read_int32_def split: if_splits)
  let ?v = "le_value (take 4 (drop i m))"
  have four: "length (take 4 (drop i m)) = 4" using len by simp
  have v: "?v < 256 ^ 4" using le_value_less [of "take 4 (drop i m)"] four by simp
  have n: "n = sint (of_nat ?v :: u32)" using assms(1) len by (simp add: read_int32_def)
  have u: "uint (of_nat ?v :: u32) = int ?v" using v by (simp add: uint_nat unat_of_nat_small)
  then have "n = int ?v \<and> ?v < 2 ^ 31"
    using n assms(2) v sint_eq_uint [of "of_nat ?v :: u32"] by (simp split: if_splits)
  then show "take 4 (drop i m) = le_bytes 4 (nat n)" "n < 2 ^ 31"
    using le_bytes_value [of "take 4 (drop i m)"] four by simp_all
qed

lemma read_text_bytes:
  assumes "drop i m = text_bytes s @ post" "i \<le> length m"
  shows "read_text m i (length s) = Inr s"
proof (cases "s = []")
  case True
  then show ?thesis using assms(2) by (simp add: read_text_def bytes_text_def)
next
  case False
  then have "text_bytes s \<noteq> []" by (simp add: text_bytes_def)
  then show ?thesis using at_offset [OF assms(1)] by (simp add: read_text_def)
qed

lemma length_bytes_text [simp]: "length (bytes_text bs) = length bs"
  by (simp add: bytes_text_def)

lemma encode_texts_take:
  assumes "i + 4 + k \<le> n" "n \<le> length m" "take 4 (drop i m) = le_bytes 4 k" "take (n - (i + 4 + k)) (drop (i + 4 + k) m) = encode_texts ps"
  shows "take (n - i) (drop i m) = encode_texts (bytes_text (take k (drop (i + 4) m)) # ps)"
proof -
  obtain r where n: "n = i + 4 + k + r" using assms(1) by (metis le_add_diff_inverse)
  have "take (4 + (k + r)) (drop i m) = take 4 (drop i m) @ take k (drop (i + 4) m) @ take r (drop (i + 4 + k) m)"
    unfolding take_add by (simp add: add.commute add.left_commute)
  then show ?thesis using assms n by (simp add: add.assoc min_absorb2)
qed

text \<open>An accepted block is an encoding, and the encoding of any list within the limits is accepted.\<close>

lemma walk_encoded:
  assumes "metadata_walk k m i = Inr n" "n \<le> length m" "i \<le> max_bytes"
  shows "i \<le> n \<and> n \<le> max_bytes \<and> (\<exists>ps. length ps = k \<and> take (n - i) (drop i m) = encode_texts ps)"
  using assms
proof (induction k arbitrary: i)
  case (Suc k)
  obtain l where l: "read_int32 m i = Inr l" "0 \<le> l" "nat l \<le> max_bytes - (i + 4)" "i \<le> max_bytes - 4"
    and walk: "metadata_walk k m (i + 4 + nat l) = Inr n"
    using Suc.prems(1) by (auto simp: rbind_eq_Inr split: if_splits)
  have le: "i + 4 + nat l \<le> max_bytes" using l(3,4) by (simp add: max_bytes_def)
  from Suc.IH [OF walk Suc.prems(2) le] obtain ps where ps: "i + 4 + nat l \<le> n" "n \<le> max_bytes" "length ps = k"
    "take (n - (i + 4 + nat l)) (drop (i + 4 + nat l) m) = encode_texts ps" by blast
  show ?case
    using encode_texts_take [OF ps(1) Suc.prems(2) read_int32_nonneg(2) [OF l(1,2)] ps(4)] ps
    by (intro conjI exI [of _ "bytes_text (take (nat l) (drop (i + 4) m)) # ps"]) simp_all
qed (auto intro: exI [of _ "[]"])

lemma walk_accepts:
  assumes "drop i m = encode_texts ps @ post" "i + length (encode_texts ps) \<le> max_bytes"
  shows "metadata_walk (length ps) m i = Inr (i + length (encode_texts ps))"
  using assms
proof (induction ps arbitrary: i)
  case (Cons s ps)
  have d: "drop i m = le_bytes 4 (length s) @ text_bytes s @ encode_texts ps @ post" using Cons.prems(1) by simp
  have d': "drop (i + 4 + length s) m = encode_texts ps @ post"
    using at_offset(2) [of i m "le_bytes 4 (length s) @ text_bytes s"] d by (simp add: add.assoc)
  have small: "length s < 2 ^ 31" "i \<le> max_bytes - 4" "length s \<le> max_bytes - (i + 4)"
    using Cons.prems(2) by (simp_all add: max_bytes_def)
  have "metadata_walk (length ps) m (i + 4 + length s) = Inr (i + 4 + length s + length (encode_texts ps))"
    using Cons.prems(2) by (intro Cons.IH [OF d']) simp
  then show ?case using read_int32_bytes [OF d small(1)] small by simp
qed simp

lemma entry_reads:
  assumes "drop i m = le_bytes 4 (length key) @ text_bytes key @ le_bytes 4 (length val) @ text_bytes val @ post"
    "length key < 2 ^ 31" "length val < 2 ^ 31"
  shows "read_int32 m i = Inr (int (length key))" "read_text m (i + 4) (length key) = Inr key"
    "read_int32 m (i + 4 + length key) = Inr (int (length val))"
    "read_text m (i + 4 + length key + 4) (length val) = Inr val"
    "drop (i + 4 + length key + 4 + length val) m = post"
proof -
  note d = assms(1)
  have d1: "drop (i + 4) m = text_bytes key @ le_bytes 4 (length val) @ text_bytes val @ post"
    using at_offset(2) [OF d] by simp
  have d2: "drop (i + 4 + length key) m = le_bytes 4 (length val) @ text_bytes val @ post"
    using at_offset(2) [OF d1] by simp
  have d3: "drop (i + 4 + length key + 4) m = text_bytes val @ post" using at_offset(2) [OF d2] by simp
  have le: "i + 4 \<le> length m" "i + 4 + length key + 4 \<le> length m"
    using at_offset(3) [OF d] at_offset(3) [OF d2] by (simp_all add: le_bytes_not_empty)
  show "read_int32 m i = Inr (int (length key))" by (rule read_int32_bytes [OF d assms(2)])
  show "read_text m (i + 4) (length key) = Inr key" by (rule read_text_bytes [OF d1 le(1)])
  show "read_int32 m (i + 4 + length key) = Inr (int (length val))" by (rule read_int32_bytes [OF d2 assms(3)])
  show "read_text m (i + 4 + length key + 4) (length val) = Inr val" by (rule read_text_bytes [OF d3 le(2)])
  show "drop (i + 4 + length key + 4 + length val) m = post" using at_offset(2) [OF d3] by simp
qed

definition extension_step :: "string \<times> string \<Rightarrow> string \<times> string \<Rightarrow> string \<times> string" where
  "extension_step acc e =
     (if fst e = ''ARROW:extension:name'' then (snd e, snd acc)
      else if fst e = ''ARROW:extension:metadata'' then (fst acc, snd e) else acc)"

lemma entries_encoded:
  assumes "drop i m = encode_texts (entry_texts es) @ post" "length (encode_texts (entry_texts es)) \<le> max_bytes"
  shows "metadata_entries (length es) m i = Inr es \<and> extension_walk (length es) m i acc = Inr (foldl extension_step acc es)"
  using assms
proof (induction es arbitrary: i acc)
  case (Cons e es)
  obtain key val where e: "e = (key, val)" by (rule prod.exhaust)
  have d: "drop i m = le_bytes 4 (length key) @ text_bytes key @ le_bytes 4 (length val) @ text_bytes val @ encode_texts (entry_texts es) @ post"
    using Cons.prems(1) e by simp
  have small: "length key < 2 ^ 31" "length val < 2 ^ 31" "length (encode_texts (entry_texts es)) \<le> max_bytes"
    using Cons.prems(2) e by (simp_all add: max_bytes_def)
  note reads = entry_reads [OF d small(1,2)]
  let ?i = "i + 4 + length key + 4 + length val"
  let ?acc = "extension_step acc (key, val)"
  have step: "(if key = ''ARROW:extension:name''
      then rbind (read_text m (i + 4 + length key + 4) (length val)) (\<lambda>val. Inr (val, snd acc))
      else if key = ''ARROW:extension:metadata''
      then rbind (read_text m (i + 4 + length key + 4) (length val)) (\<lambda>val. Inr (fst acc, val))
      else Inr acc) = (Inr ?acc :: (string \<times> string) native)"
    unfolding reads(4) by (simp add: extension_step_def)
  have "metadata_entries (length (e # es)) m i = Inr (e # es)"
    using Cons.IH [OF reads(5) small(3), THEN conjunct1]
    unfolding e list.size(4) add_Suc_right add_0_right metadata_entries.simps reads(1) rbind.simps nat_int reads(2,3,4) by simp
  moreover have "extension_walk (length (e # es)) m i acc = Inr (foldl extension_step acc (e # es))"
    using Cons.IH [OF reads(5) small(3), of ?acc, THEN conjunct2]
    unfolding e list.size(4) add_Suc_right add_0_right extension_walk.simps reads(1) rbind.simps nat_int reads(2,3) step by simp
  ultimately show ?case by blast
qed simp

definition last_value :: "string \<Rightarrow> (string \<times> string) list \<Rightarrow> string" where
  "last_value key es = (case map_of (rev es) key of None \<Rightarrow> [] | Some val \<Rightarrow> val)"

lemma extension_last: "foldl extension_step ([], []) es = (last_value ''ARROW:extension:name'' es, last_value ''ARROW:extension:metadata'' es)"
  by (induction es rule: rev_induct) (auto simp: last_value_def extension_step_def)

lemma count_read:
  assumes "take n m = encode_metadata es" "n = length (encode_metadata es)" "length es < 2 ^ 31"
  shows "read_int32 m 0 = Inr (int (length es))" "\<exists>post. drop 4 m = encode_texts (entry_texts es) @ post"
proof -
  have m: "drop 0 m = le_bytes 4 (length es) @ encode_texts (entry_texts es) @ drop n m"
    using assms(1) append_take_drop_id [of n m] by (simp add: encode_metadata_def)
  show "read_int32 m 0 = Inr (int (length es))" by (rule read_int32_bytes [OF m assms(3)])
  show "\<exists>post. drop 4 m = encode_texts (entry_texts es) @ post" using at_offset(2) [OF m] by simp
qed

lemma metadata_encoded:
  assumes "metadata_length (Some m) = Inr n" "n \<le> length m"
  shows "\<exists>es. take n m = encode_metadata es \<and> n = length (encode_metadata es) \<and> length es \<le> 65536 \<and> n \<le> max_bytes"
proof -
  obtain k where k: "read_int32 m 0 = Inr k" "0 \<le> k" "k \<le> 65536" "metadata_walk (2 * nat k) m 4 = Inr n"
    using assms(1) by (auto simp: metadata_length_def rbind_eq_Inr split: if_splits)
  have "4 \<le> max_bytes" by (simp add: max_bytes_def)
  from walk_encoded [OF k(4) assms(2) this] obtain ps where ps: "4 \<le> n" "n \<le> max_bytes" "length ps = 2 * nat k"
    "take (n - 4) (drop 4 m) = encode_texts ps" by blast
  obtain es where es: "ps = entry_texts es" "length es = nat k" using texts_are_entries [OF ps(3)] by blast
  have "take n m = take 4 m @ take (n - 4) (drop 4 m)" using ps(1) by (metis le_add_diff_inverse take_add)
  then have enc: "take n m = encode_metadata es"
    using ps(4) es read_int32_nonneg(2) [OF k(1,2)] by (simp add: encode_metadata_def)
  moreover have "n = length (encode_metadata es)" using enc assms(2) by (metis length_take min.absorb2)
  ultimately show ?thesis using es(2) k(2,3) ps(2) by (intro exI [of _ es]) simp
qed

lemma metadata_decodes:
  assumes "take n m = encode_metadata es" "n = length (encode_metadata es)" "length es \<le> 65536" "n \<le> max_bytes"
  shows "metadata_length (Some m) = Inr n" "n \<le> length m" "metadata_array (Some m) = Inr es"
    "duckdb_arrow_extension_metadata (Some m) = Inr (last_value ''ARROW:extension:name'' es, last_value ''ARROW:extension:metadata'' es)"
proof -
  have "length es < 2 ^ 31" using assms(3) by simp
  note count = count_read [OF assms(1,2) this]
  obtain post where d: "drop 4 m = encode_texts (entry_texts es) @ post" using count(2) by blast
  have n: "4 + length (encode_texts (entry_texts es)) = n" using assms(2) by (simp add: encode_metadata_def)
  have "metadata_walk (length (entry_texts es)) m 4 = Inr n" using walk_accepts [OF d] assms(4) n by simp
  then show len: "metadata_length (Some m) = Inr n" using count(1) assms(3) by (simp add: metadata_length_def)
  show "n \<le> length m" using assms(1,2) by (metis length_take min.cobounded1)
  have "metadata_entries (length es) m 4 = Inr es \<and> extension_walk (length es) m 4 ([], []) = Inr (foldl extension_step ([], []) es)"
    using entries_encoded [OF d] assms(4) n by simp
  then show "metadata_array (Some m) = Inr es"
    "duckdb_arrow_extension_metadata (Some m) = Inr (last_value ''ARROW:extension:name'' es, last_value ''ARROW:extension:metadata'' es)"
    using count(1) len by (simp_all add: metadata_array_def duckdb_arrow_extension_metadata_def extension_last)
qed

text \<open>
  C27. Metadata blocks are parsed exactly. The block at a pointer is accepted with length \<open>n\<close> if and only if its first
  \<open>n\<close> bytes are the encoding of some list of at most 65536 entries, in at most 64 MiB; \<open>toArray\<close> then lists just these entries,
  duplicates, empty texts and NUL bytes included, and the extension type is given by the last entries under its two keys.
\<close>

theorem metadata_exact:
  "(metadata_length (Some m) = Inr n \<and> n \<le> length m) =
   (\<exists>es. take n m = encode_metadata es \<and> n = length (encode_metadata es) \<and> length es \<le> 65536 \<and> n \<le> 64 * 1024 * 1024
      \<and> metadata_array (Some m) = Inr es
      \<and> duckdb_arrow_extension_metadata (Some m) =
          Inr (last_value ''ARROW:extension:name'' es, last_value ''ARROW:extension:metadata'' es))"
  using metadata_encoded [of m n] metadata_decodes [of n m] unfolding max_bytes_def by blast

section \<open>Validation and copies\<close>

function validate_schema :: "nat \<Rightarrow> arrow_schema \<Rightarrow> unit native" where
  "validate_schema depth s =
     (if depth > 128 \<or> \<not> as_live s \<or> as_format s = None \<or> as_n_children s < 0 \<or> as_n_children s > 65536
         \<or> as_n_children s \<noteq> 0 \<and> as_children s = None
      then value_error ''Invalid, released, or excessively nested Arrow schema''
      else rbind (metadata_length (as_metadata s)) (\<lambda>_.
        rbind (traverse (\<lambda>c. case c of None \<Rightarrow> value_error ''Arrow schema contains a null child''
                                     | Some t \<Rightarrow> validate_schema (Suc depth) t) (schema_children s)) (\<lambda>_.
        case as_dictionary s of None \<Rightarrow> Inr () | Some t \<Rightarrow> validate_schema (Suc depth) t)))"
  by pat_completeness auto
termination
  by (relation "measure (\<lambda>(depth, s). size s)") (auto dest: size_child size_dictionary)

declare validate_schema.simps [simp del]

text \<open>\<open>copy_schema\<close>, of a validated schema.\<close>

function copy_schema :: "arrow_schema \<Rightarrow> arrow_schema native" where
  "copy_schema s =
     (case as_format s of
        None \<Rightarrow> Inl None
      | Some format \<Rightarrow>
          rbind (metadata_length (as_metadata s)) (\<lambda>len.
          rbind (traverse (\<lambda>c. case c of None \<Rightarrow> Inl None | Some t \<Rightarrow> copy_schema t) (schema_children s)) (\<lambda>cs.
          rbind (case as_dictionary s of None \<Rightarrow> Inr None | Some t \<Rightarrow> rbind (copy_schema t) (\<lambda>t'. Inr (Some t'))) (\<lambda>dict.
          if as_metadata s \<noteq> None \<and> len > length (the (as_metadata s)) then Inl None
          else Inr (Arrow_schema (Some format) (as_name s) (map_option (take len) (as_metadata s)) (as_flags s)
                      (as_n_children s) (if cs = [] then None else Some (map Some cs)) dict True)))))"
  by pat_completeness auto
termination
  by (relation "measure size") (auto dest: size_child size_dictionary)

declare copy_schema.simps [simp del]

text \<open>\<open>schema_to_array\<close>: format, name, flags, metadata, children, dictionary.\<close>

datatype schema_array = Schema_array string "string option" int "(string \<times> string) list" "schema_array list" "schema_array option"

function schema_to_array :: "arrow_schema \<Rightarrow> schema_array native" where
  "schema_to_array s =
     (case as_format s of
        None \<Rightarrow> Inl None
      | Some format \<Rightarrow>
          rbind (metadata_array (as_metadata s)) (\<lambda>metadata.
          rbind (traverse (\<lambda>c. case c of None \<Rightarrow> Inl None | Some t \<Rightarrow> schema_to_array t) (schema_children s)) (\<lambda>cs.
          rbind (case as_dictionary s of None \<Rightarrow> Inr None | Some t \<Rightarrow> rbind (schema_to_array t) (\<lambda>t'. Inr (Some t'))) (\<lambda>dict.
          Inr (Schema_array format (as_name s) (as_flags s) metadata cs dict)))))"
  by pat_completeness auto
termination
  by (relation "measure size") (auto dest: size_child size_dictionary)

declare schema_to_array.simps [simp del]

section \<open>Copies\<close>

text \<open>What a producer provides: the metadata block and the array of children.\<close>

inductive schema_allocated :: "arrow_schema \<Rightarrow> bool" where
  "(\<And>m n. as_metadata s = Some m \<Longrightarrow> metadata_length (Some m) = Inr n \<Longrightarrow> n \<le> length m)
     \<Longrightarrow> nat (as_n_children s) \<le> (case as_children s of None \<Rightarrow> 0 | Some cs \<Rightarrow> length cs)
     \<Longrightarrow> (\<And>t. subschema t s \<Longrightarrow> schema_allocated t) \<Longrightarrow> schema_allocated s"

inductive_simps schema_allocated_iff: "schema_allocated s"

lemma validate_schema_iff:
  "validate_schema depth s = Inr () \<longleftrightarrow>
     depth \<le> 128 \<and> as_live s \<and> as_format s \<noteq> None \<and> 0 \<le> as_n_children s \<and> as_n_children s \<le> 65536
     \<and> (as_n_children s \<noteq> 0 \<longrightarrow> as_children s \<noteq> None) \<and> (\<exists>n. metadata_length (as_metadata s) = Inr n)
     \<and> None \<notin> set (schema_children s) \<and> (\<forall>t. subschema t s \<longrightarrow> validate_schema (Suc depth) t = Inr ())"
  (is "?lhs \<longleftrightarrow> ?rhs")
proof -
  let ?f = "\<lambda>c. case c of None \<Rightarrow> value_error ''Arrow schema contains a null child'' | Some t \<Rightarrow> validate_schema (Suc depth) t"
  have "(\<exists>y. ?f c = Inr y) \<longleftrightarrow> c \<noteq> None \<and> (\<forall>t. c = Some t \<longrightarrow> validate_schema (Suc depth) t = Inr ())" for c
    by (cases c) simp_all
  then have "(\<exists>us. traverse ?f (schema_children s) = Inr us) \<longleftrightarrow>
      None \<notin> set (schema_children s) \<and> (\<forall>t. Some t \<in> set (schema_children s) \<longrightarrow> validate_schema (Suc depth) t = Inr ())"
    unfolding traverse_ok by fastforce
  moreover have "(case as_dictionary s of None \<Rightarrow> Inr () | Some t \<Rightarrow> validate_schema (Suc depth) t) = Inr () \<longleftrightarrow>
      (\<forall>t. as_dictionary s = Some t \<longrightarrow> validate_schema (Suc depth) t = Inr ())"
    by (cases "as_dictionary s") simp_all
  ultimately have tail: "rbind (metadata_length (as_metadata s)) (\<lambda>_. rbind (traverse ?f (schema_children s)) (\<lambda>_.
      case as_dictionary s of None \<Rightarrow> Inr () | Some t \<Rightarrow> validate_schema (Suc depth) t)) = Inr () \<longleftrightarrow>
      (\<exists>n. metadata_length (as_metadata s) = Inr n) \<and> None \<notin> set (schema_children s)
      \<and> (\<forall>t. subschema t s \<longrightarrow> validate_schema (Suc depth) t = Inr ())"
    unfolding rbind_eq_Inr subschema_def by blast
  let ?bad = "depth > 128 \<or> \<not> as_live s \<or> as_format s = None \<or> as_n_children s < 0 \<or> as_n_children s > 65536
         \<or> as_n_children s \<noteq> 0 \<and> as_children s = None"
  show ?thesis
  proof (cases ?bad)
    case True
    then have "\<not> ?rhs" by auto
    moreover have "validate_schema depth s \<noteq> Inr ()" unfolding validate_schema.simps [of depth s] if_P [OF True] by simp
    ultimately show ?thesis by (simp only:)
  next
    case False
    then show ?thesis unfolding validate_schema.simps [of depth s] if_not_P [OF False] tail by (auto simp: not_less)
  qed
qed

lemma metadata_copy:
  assumes "metadata_length md = Inr len" "\<And>m. md = Some m \<Longrightarrow> len \<le> length m"
  shows "metadata_length (map_option (take len) md) = Inr len"
    "\<exists>es. metadata_array md = Inr es \<and> metadata_array (map_option (take len) md) = Inr es"
proof -
  have "metadata_length (map_option (take len) md) = Inr len
    \<and> (\<exists>es. metadata_array md = Inr es \<and> metadata_array (map_option (take len) md) = Inr es)"
  proof (cases md)
    case (Some m)
    obtain es where es: "take len m = encode_metadata es" "len = length (encode_metadata es)" "length es \<le> 65536" "len \<le> max_bytes"
      using metadata_encoded assms Some by blast
    then show ?thesis
      using metadata_decodes [of len m es] metadata_decodes [of len "take len m" es] Some by simp
  qed (use assms in \<open>simp add: metadata_array_def\<close>)
  then show "metadata_length (map_option (take len) md) = Inr len"
    "\<exists>es. metadata_array md = Inr es \<and> metadata_array (map_option (take len) md) = Inr es" by blast+
qed

text \<open>
  C28. An exported schema is a faithful deep copy. For every validated schema whose memory the producer provides,
  \<open>exportToC\<close> succeeds, the copy passes the validation of \<open>importFromC\<close>, and \<open>toArray\<close> of the schema imported again
  is that of the original, metadata bytes included.
\<close>

theorem copy_roundtrip:
  assumes "validate_schema depth s = Inr ()" "schema_allocated s"
  shows "\<exists>s' a. copy_schema s = Inr s' \<and> validate_schema depth s' = Inr () \<and> schema_to_array s' = Inr a \<and> schema_to_array s = Inr a"
  using assms
proof (induction s arbitrary: depth rule: subschema_induct)
  case (schema s)
  note valid = validate_schema_iff [THEN iffD1, OF schema.prems(1)]
  obtain len where len: "metadata_length (as_metadata s) = Inr len" using valid by blast
  have alloc: "\<And>m. as_metadata s = Some m \<Longrightarrow> len \<le> length m" "nat (as_n_children s) = length (schema_children s)"
    "\<And>t. subschema t s \<Longrightarrow> schema_allocated t"
    using schema_allocated_iff [THEN iffD1, OF schema.prems(2)] len by (auto simp: schema_children_def split: option.splits)
  have "\<exists>t' a. copy_schema t = Inr t' \<and> validate_schema (Suc depth) t' = Inr () \<and> schema_to_array t' = Inr a \<and> schema_to_array t = Inr a"
    if "subschema t s" for t using schema.IH [OF that] valid alloc(3) [OF that] that by blast
  then obtain g h where gh: "\<And>t. subschema t s \<Longrightarrow> copy_schema t = Inr (g t) \<and> validate_schema (Suc depth) (g t) = Inr ()
      \<and> schema_to_array (g t) = Inr (h t) \<and> schema_to_array t = Inr (h t)" by metis
  let ?cs = "map (g \<circ> the) (schema_children s)"
  let ?s = "Arrow_schema (as_format s) (as_name s) (map_option (take len) (as_metadata s)) (as_flags s) (as_n_children s)
    (if ?cs = [] then None else Some (map Some ?cs)) (map_option g (as_dictionary s)) True"
  have some: "\<exists>t. c = Some t \<and> subschema t s" if "c \<in> set (schema_children s)" for c
  proof -
    have "c \<noteq> None" using that valid by metis
    then show ?thesis using that by (auto simp: subschema_def)
  qed
  have children: "schema_children ?s = map Some ?cs" using alloc(2) by (simp add: schema_children_def)
  have copies: "traverse (\<lambda>c. case c of None \<Rightarrow> Inl None | Some t \<Rightarrow> copy_schema t) (schema_children s) = Inr ?cs"
    using some gh by (intro traverse_map) fastforce
  have arrays: "traverse (\<lambda>c. case c of None \<Rightarrow> Inl None | Some t \<Rightarrow> schema_to_array t) (schema_children s) = Inr (map (h \<circ> the) (schema_children s))"
    using some gh by (intro traverse_map) fastforce
  have arrays': "traverse (\<lambda>c. case c of None \<Rightarrow> Inl None | Some t \<Rightarrow> schema_to_array t) (map Some ?cs) = Inr (map (h \<circ> the) (schema_children s))"
    unfolding traverse_map_list map_map using some gh by (intro traverse_map) fastforce
  have dict: "subschema t s" if "as_dictionary s = Some t" for t using that by (simp add: subschema_def)
  obtain es where md: "metadata_length (map_option (take len) (as_metadata s)) = Inr len" "metadata_array (as_metadata s) = Inr es"
    "metadata_array (map_option (take len) (as_metadata s)) = Inr es"
    using metadata_copy [OF len alloc(1)] by blast
  have "copy_schema s = Inr ?s"
    using valid len copies alloc(1) gh dict by (subst copy_schema.simps) (auto split: option.splits simp: not_less)
  moreover have "validate_schema depth ?s = Inr ()"
  proof -
    have "validate_schema (Suc depth) t = Inr ()" if "subschema t ?s" for t
      using that gh dict some unfolding subschema_def children by fastforce
    moreover have "None \<notin> set (schema_children ?s)" unfolding children by auto
    moreover have "as_n_children s \<noteq> 0 \<longrightarrow> ?cs \<noteq> []" using alloc(2) valid by auto
    ultimately show ?thesis using valid md(1) unfolding validate_schema_iff [of depth ?s] by auto
  qed
  moreover have "schema_to_array s = schema_to_array ?s \<and> (\<exists>a. schema_to_array ?s = Inr a)"
    using valid md(2,3) arrays arrays' gh dict children
    by (subst (1 2 3) schema_to_array.simps) (auto split: option.splits)
  ultimately show ?case by metis
qed

text \<open>A struct schema with one 32-bit child that carries metadata; two bytes follow the block.\<close>

definition sample_schema :: arrow_schema where
  "sample_schema =
     Arrow_schema (Some ''+s'') None None 0 1
       (Some [Some (Arrow_schema (Some ''i'') (Some ''a'') (Some (encode_metadata [(''k'', [])] @ [7, 7])) 2 0 None None True)]) None True"

lemma sample_metadata: "metadata_length (Some (encode_metadata [(''k'', [])] @ [7, 7])) = Inr 13"
  by (intro metadata_decodes(1) [of _ _ "[(''k'', [])]"]) (simp_all add: encode_metadata_def text_bytes_def max_bytes_def)

lemma copy_roundtrip_witness:
  "\<exists>s' a. copy_schema sample_schema = Inr s' \<and> validate_schema 0 s' = Inr () \<and> schema_to_array s' = Inr a
     \<and> schema_to_array sample_schema = Inr a"
proof -
  let ?leaf = "Arrow_schema (Some ''i'') (Some ''a'') (Some (encode_metadata [(''k'', [])] @ [7, 7])) 2 0 None None True"
  have sub: "subschema t sample_schema \<longleftrightarrow> t = ?leaf" "subschema t ?leaf \<longleftrightarrow> False" for t
    by (auto simp: subschema_def sample_schema_def schema_children_def)
  have leaf: "validate_schema 1 ?leaf = Inr ()"
    unfolding validate_schema_iff [of 1 ?leaf] using sub(2) sample_metadata by (simp add: schema_children_def)
  have "validate_schema 0 sample_schema = Inr ()"
    unfolding validate_schema_iff [of 0 sample_schema] using sub(1) leaf
    by (simp add: sample_schema_def schema_children_def metadata_length_def)
  moreover have "schema_allocated ?leaf"
    unfolding schema_allocated_iff [of ?leaf] using sub(2) sample_metadata by (simp add: encode_metadata_def text_bytes_def)
  then have "schema_allocated sample_schema"
    unfolding schema_allocated_iff [of sample_schema] using sub(1) by (simp add: sample_schema_def)
  ultimately show ?thesis by (rule copy_roundtrip)
qed

section \<open>Lossless representations\<close>

text \<open>
  \<open>php_json_decode_ex\<close> and the lookup of properties: \<open>None\<close> when the text is not a JSON object. A type's missing child is
  a null handle, whose id is invalid.
\<close>

datatype json = J_null | J_string string | J_other

type_synonym json_reader = "string \<Rightarrow> (string \<Rightarrow> json option) option"

definition otype_id :: "ltype option \<Rightarrow> duckdb_type" where
  "otype_id t = (case t of None \<Rightarrow> T_INVALID | Some t \<Rightarrow> type_id t)"

definition schema_child :: "arrow_schema \<Rightarrow> nat \<Rightarrow> arrow_schema native" where
  "schema_child s i =
     (if i < length (schema_children s) then case schema_children s ! i of None \<Rightarrow> Inl None | Some t \<Rightarrow> Inr t else Inl None)"

lemma size_schema_child: "schema_child s i = Inr t \<Longrightarrow> size t < size s"
  by (auto simp: schema_child_def intro!: size_child split: if_splits option.splits) (metis nth_mem)

text \<open>The types inside a type with their schemas, as the closing \<open>switch\<close> visits them.\<close>

definition member_fields :: "(string option \<times> ltype option) list \<Rightarrow> arrow_schema \<Rightarrow> (ltype option \<times> arrow_schema) list native" where
  "member_fields ms s =
     traverse (\<lambda>(i, m). rbind (schema_child s i) (\<lambda>t. Inr (snd m, t))) (enumerate 0 ms)"

fun type_fields :: "ltype option \<Rightarrow> arrow_schema \<Rightarrow> (ltype option \<times> arrow_schema) list native" where
  "type_fields (Some (LT_list c)) s = rbind (schema_child s 0) (\<lambda>t. Inr [(c, t)])"
| "type_fields (Some (LT_array c n)) s = rbind (schema_child s 0) (\<lambda>t. Inr [(c, t)])"
| "type_fields (Some (LT_map k v)) s =
     rbind (schema_child s 0) (\<lambda>e. rbind (schema_child e 0) (\<lambda>a. rbind (schema_child e 1) (\<lambda>b. Inr [(k, a), (v, b)])))"
| "type_fields (Some (LT_struct ms)) s = member_fields ms s"
| "type_fields (Some (LT_union ms)) s = member_fields ms s"
| "type_fields t s = Inr []"

definition not_lossless :: throwable where
  "not_lossless = duckdb_throw_msg (Some (''Lossless Arrow conversion is required for HUGEINT, UHUGEINT, BIT and TIMETZ; '' @
     ''set arrow_lossless_conversion=true before querying or exporting a DataChunk''))"

text \<open>Format and DuckDB type name a lossless representation must have.\<close>

definition required_representation :: "duckdb_type \<Rightarrow> arrow_schema \<Rightarrow> (string option \<times> string) option" where
  "required_representation ty s =
     (case ty of
        T_HUGEINT \<Rightarrow> Some (Some ''w:16'', ''hugeint'')
      | T_UHUGEINT \<Rightarrow> Some (Some ''w:16'', ''uhugeint'')
      | T_TIME_TZ \<Rightarrow> Some (Some ''w:8'', ''time_tz'')
      | T_BIT \<Rightarrow> Some (as_format s, ''bit'')
      | _ \<Rightarrow> None)"

definition lossless_here :: "json_reader \<Rightarrow> ltype option \<Rightarrow> arrow_schema \<Rightarrow> unit native" where
  "lossless_here json t s =
     (case required_representation (otype_id t) s of
        None \<Rightarrow> Inr ()
      | Some (format, name) \<Rightarrow>
          rbind (duckdb_arrow_extension_metadata (as_metadata s)) (\<lambda>(ext, metadata).
            if ext = ''arrow.opaque'' \<and> as_format s = format
               \<and> (case json metadata of None \<Rightarrow> False
                   | Some prop \<Rightarrow> prop ''vendor_name'' = Some (J_string ''DuckDB'') \<and> prop ''type_name'' = Some (J_string name))
            then Inr () else Inl (Some not_lossless)))"

lemma size_member_fields: "member_fields ms s = Inr fs \<Longrightarrow> (c, t) \<in> set fs \<Longrightarrow> size t < size s"
  by (auto simp: member_fields_def traverse_Inr rbind_eq_Inr list_all2_conv_all_nth in_set_conv_nth split_beta)
     (metis size_schema_child snd_conv)

lemma size_type_fields: "type_fields ty s = Inr fs \<Longrightarrow> (c, t) \<in> set fs \<Longrightarrow> size t < size s"
  by (induction ty s rule: type_fields.induct)
     (auto simp: rbind_eq_Inr dest: size_schema_child size_member_fields dest!: size_schema_child)

function duckdb_arrow_require_lossless :: "json_reader \<Rightarrow> ltype option \<Rightarrow> arrow_schema \<Rightarrow> unit native" where
  "duckdb_arrow_require_lossless json ty s =
     rbind (lossless_here json ty s) (\<lambda>_. rbind (type_fields ty s) (\<lambda>fs.
     rbind (traverse (\<lambda>(c, t). duckdb_arrow_require_lossless json c t) fs) (\<lambda>_. Inr ())))"
  by pat_completeness auto
termination
  by (relation "measure (\<lambda>(json, ty, s). size s)") (auto dest: size_type_fields)

declare duckdb_arrow_require_lossless.simps [simp del]

end
