(* ===== verification/Arrow_Array.thy ===== *)
theory Arrow_Array
  imports Arrow_Schema
begin

text \<open>
  Arrow arrays: \<open>validate_array\<close> of \<open>src/src/arrow.cpp\<close>, and \<open>normalize_arrow_array\<close> of \<open>src/src/data_chunk.cpp\<close>, which gives the
  engine a view of a producer's array without struct offsets.

  Against these stands a reader of nested arrays after the Arrow columnar format. How the values of a
  leaf, list or dictionary come from its data buffers is a parameter of the reader.
\<close>

section \<open>Arrays\<close>

text \<open>The buffers and children are the arrays behind the pointers; \<open>aa_release\<close> names the release callback, \<open>None\<close> once released.\<close>

datatype arrow_array = Arrow_array
  (aa_length: int) (aa_null_count: int) (aa_offset: int) (aa_n_buffers: int) (aa_n_children: int)
  (aa_buffers: "u8 list option list option") (aa_children: "arrow_array option list option")
  (aa_dictionary: "arrow_array option") (aa_release: "nat option")

definition array_children :: "arrow_array \<Rightarrow> arrow_array option list" where
  "array_children a = take (nat (aa_n_children a)) (case aa_children a of None \<Rightarrow> [] | Some cs \<Rightarrow> cs)"

definition array_buffers :: "arrow_array \<Rightarrow> u8 list option list" where
  "array_buffers a = take (nat (aa_n_buffers a)) (case aa_buffers a of None \<Rightarrow> [] | Some bs \<Rightarrow> bs)"

lemma size_array_child:
  assumes "Some c \<in> set (array_children a)"
  shows "size c < size a"
proof -
  obtain cs where cs: "aa_children a = Some cs" "Some c \<in> set cs"
    using assms by (auto simp: array_children_def dest: in_set_takeD split: option.splits)
  then have "size_option size (Some c) \<le> size_list (size_option size) cs" by (intro size_list_estimation' [OF cs(2)]) simp
  then show ?thesis using cs(1) by (cases a) simp
qed

lemma size_array_zip: "(Some c, t) \<in> set (zip (array_children a) ts) \<Longrightarrow> size c < size a"
  by (auto dest: set_zip_leftD size_array_child)

lemma size_array_dictionary: "aa_dictionary a = Some c \<Longrightarrow> size c < size a"
  by (cases a) simp

section \<open>Validation\<close>

definition int64_max :: int where
  "int64_max = 2 ^ 63 - 1"

abbreviation is_struct :: "arrow_schema \<Rightarrow> bool" where
  "is_struct s \<equiv> as_format s = Some ''+s''"

definition null_buffer :: "arrow_array \<Rightarrow> bool" where
  "null_buffer a \<longleftrightarrow> (case array_buffers a of b # bs \<Rightarrow> b = None | [] \<Rightarrow> True)"

function validate_array :: "nat \<Rightarrow> arrow_array \<Rightarrow> arrow_schema \<Rightarrow> unit native" where
  "validate_array depth a s =
     (if depth > 128 \<or> aa_release a = None \<or> aa_length a < 0 \<or> aa_offset a < 0 \<or> aa_null_count a < -1
         \<or> aa_null_count a > aa_length a \<or> aa_n_buffers a < 0 \<or> aa_n_buffers a > 65536
         \<or> aa_n_buffers a \<noteq> 0 \<and> aa_buffers a = None \<or> aa_n_children a \<noteq> as_n_children s
         \<or> aa_n_children a \<noteq> 0 \<and> aa_children a = None \<or> (aa_dictionary a \<noteq> None) \<noteq> (as_dictionary s \<noteq> None)
      then value_error ''Invalid, released, or incompatible Arrow array''
      else if aa_offset a > int64_max - aa_length a then value_error ''Arrow array offset and length overflow''
      else if is_struct s \<and> aa_n_buffers a \<noteq> 1 then value_error ''Arrow struct arrays require one validity buffer''
      else if is_struct s \<and> aa_null_count a > 0 \<and> null_buffer a
      then value_error ''Arrow struct null rows require a validity bitmap''
      else rbind (traverse (\<lambda>(c, t). case c of
                None \<Rightarrow> value_error ''Arrow array contains a null child''
              | Some c \<Rightarrow>
                  if is_struct s \<and> aa_length c < aa_offset a + aa_length a
                  then value_error ''Arrow struct child does not contain the parent slice''
                  else (case t of None \<Rightarrow> Inl None | Some t \<Rightarrow> validate_array (Suc depth) c t))
              (zip (array_children a) (schema_children s))) (\<lambda>_.
        case (aa_dictionary a, as_dictionary s) of (Some c, Some t) \<Rightarrow> validate_array (Suc depth) c t | _ \<Rightarrow> Inr ()))"
  by pat_completeness auto
termination
  by (relation "measure (\<lambda>(depth, a, s). size a)") (auto dest: size_array_zip size_array_dictionary)

declare validate_array.simps [simp del]

section \<open>The view without struct offsets\<close>

text \<open>The loop that rebases the validity bits of a struct, with the count of nulls.\<close>

fun copy_bits :: "u8 list \<Rightarrow> nat \<Rightarrow> nat list \<Rightarrow> u8 list \<times> int \<Rightarrow> (u8 list \<times> int) native" where
  "copy_bits src first [] acc = Inr acc"
| "copy_bits src first (row # rows) (v, nulls) =
     (let k = first + row
      in if k div 8 \<ge> length src then Inl None
         else if src ! (k div 8) AND push_bit (k mod 8) 1 \<noteq> 0
         then copy_bits src first rows (v[row div 8 := v ! (row div 8) OR push_bit (row mod 8) 1], nulls)
         else copy_bits src first rows (v, nulls + 1))"

text \<open>Offset, null count and buffers of the view of a struct.\<close>

definition struct_buffers :: "int \<Rightarrow> int \<Rightarrow> arrow_array \<Rightarrow> (int \<times> int \<times> u8 list option list option) native" where
  "struct_buffers first len a =
     (case array_buffers a of
        [] \<Rightarrow> Inl None
      | b # bs \<Rightarrow>
          (case b of
             Some src \<Rightarrow>
               if aa_null_count a \<noteq> 0
               then rbind (copy_bits src (nat first) [0..<nat len] (replicate ((nat len + 7) div 8 + 1) 0, 0)) (\<lambda>(v, nulls).
                 Inr (0, nulls, Some (Some v # bs)))
               else Inr (0, 0, Some (None # bs))
           | None \<Rightarrow> Inr (0, 0, Some (None # bs))))"

definition bitmap_bytes :: "arrow_array \<Rightarrow> nat" where
  "bitmap_bytes a =
     (let bits = nat (aa_offset a + aa_length a) in if bits mod 8 \<noteq> 0 then bits div 8 + 1 else bits div 8)"

definition is_union :: "arrow_schema \<Rightarrow> bool" where
  "is_union s \<longleftrightarrow> (case as_format s of None \<Rightarrow> False | Some f \<Rightarrow> starts_with ''+u'' f)"

text \<open>The same for every other array: data offsets stay, the bitmap is copied with one more byte.\<close>

definition other_buffers :: "int \<Rightarrow> arrow_array \<Rightarrow> arrow_schema \<Rightarrow> (int \<times> int \<times> u8 list option list option) native" where
  "other_buffers first a s =
     (case array_buffers a of
        Some src # bs \<Rightarrow>
          if aa_null_count a \<noteq> 0 \<and> \<not> is_union s
          then if bitmap_bytes a > length src then Inl None
               else Inr (first, aa_null_count a, Some (Some (take (bitmap_bytes a) src @ [0]) # bs))
          else Inr (first, aa_null_count a, aa_buffers a)
      | _ \<Rightarrow> Inr (first, aa_null_count a, aa_buffers a))"

text \<open>\<open>borrowed_arrow_release\<close> is the release callback with number 0.\<close>

function normalize_arrow_array :: "int \<Rightarrow> int \<Rightarrow> arrow_array \<Rightarrow> arrow_schema \<Rightarrow> arrow_array native" where
  "normalize_arrow_array inherited l a s =
     (let len = (if l < 0 then aa_length a else l)
      in if aa_offset a > int64_max - inherited \<or> inherited > aa_length a \<or> len > aa_length a - inherited
         then value_error ''Arrow child array does not contain the parent slice''
         else let first = aa_offset a + inherited
           in if first > int64_max - len then value_error ''Arrow array slice overflows the array bounds''
              else rbind (if is_struct s then struct_buffers first len a else other_buffers first a s) (\<lambda>(off, nulls, bufs).
                rbind (traverse (\<lambda>(c, t). case (c, t) of
                    (Some c, Some t) \<Rightarrow> normalize_arrow_array (if is_struct s then first else 0) (if is_struct s then len else -1) c t
                  | _ \<Rightarrow> Inl None) (zip (array_children a) (schema_children s))) (\<lambda>cs.
                rbind (case aa_dictionary a of
                    None \<Rightarrow> Inr None
                  | Some c \<Rightarrow> (case as_dictionary s of
                        None \<Rightarrow> Inl None
                      | Some t \<Rightarrow> rbind (normalize_arrow_array 0 (-1) c t) (\<lambda>v. Inr (Some v)))) (\<lambda>dict.
                Inr (Arrow_array len nulls off (aa_n_buffers a) (aa_n_children a) bufs
                       (if cs = [] then None else Some (map Some cs)) dict (Some 0))))))"
  by pat_completeness auto
termination
  by (relation "measure (\<lambda>(h, l, a, s). size a)") (auto dest: size_array_zip size_array_dictionary)

declare normalize_arrow_array.simps [simp del]

section \<open>Reading rows\<close>

text \<open>Bit \<open>k\<close> of a bitmap, and whether physical row \<open>p\<close> of an array is null.\<close>

definition bit_at :: "u8 list \<Rightarrow> nat \<Rightarrow> bool" where
  "bit_at buf k \<longleftrightarrow> k div 8 < length buf \<and> bit (buf ! (k div 8)) (k mod 8)"

definition null_in :: "int \<Rightarrow> u8 list option list \<Rightarrow> int \<Rightarrow> bool" where
  "null_in nulls bufs p \<longleftrightarrow> nulls \<noteq> 0 \<and> (case bufs of Some buf # bs \<Rightarrow> \<not> bit_at buf (nat p) | _ \<Rightarrow> False)"

abbreviation null_at :: "arrow_array \<Rightarrow> int \<Rightarrow> bool" where
  "null_at a p \<equiv> null_in (aa_null_count a) (array_buffers a) p"

datatype 'v cell = Missing | Record "'v cell option list" | Datum 'v

text \<open>
  The parameter: format, data buffers, physical row, and the readers of the children and of the dictionary.
\<close>

type_synonym 'v decoder =
  "string \<Rightarrow> u8 list option list \<Rightarrow> int \<Rightarrow> (int \<Rightarrow> 'v cell option) list \<Rightarrow> (int \<Rightarrow> 'v cell option) option \<Rightarrow> 'v cell"

text \<open>
  Row \<open>i\<close> of an array, \<open>None\<close> out of range. With \<open>adds\<close> a struct's offset applies to its children too, as the columnar
  format demands; without, the children are read at the struct's logical row.
\<close>

function read_row :: "'v decoder \<Rightarrow> bool \<Rightarrow> arrow_schema \<Rightarrow> arrow_array \<Rightarrow> int \<Rightarrow> 'v cell option" where
  "read_row dec adds s a i =
     (if i < 0 \<or> i \<ge> aa_length a then None
      else let p = aa_offset a + i
        in Some (
          if is_struct s
          then if null_at a p then Missing
               else Record (map (\<lambda>(c, t). case (c, t) of
                     (Some c, Some t) \<Rightarrow> read_row dec adds t c (if adds then p else i) | _ \<Rightarrow> None)
                   (zip (array_children a) (schema_children s)))
          else if \<not> is_union s \<and> null_at a p then Missing
          else dec (case as_format s of None \<Rightarrow> [] | Some f \<Rightarrow> f)
                 (if is_union s then array_buffers a else drop 1 (array_buffers a)) p
                 (map (\<lambda>(c, t) j. case (c, t) of (Some c, Some t) \<Rightarrow> read_row dec adds t c j | _ \<Rightarrow> None)
                   (zip (array_children a) (schema_children s)))
                 (case (aa_dictionary a, as_dictionary s) of
                    (Some c, Some t) \<Rightarrow> Some (\<lambda>j. read_row dec adds t c j) | _ \<Rightarrow> None)))"
  by pat_completeness auto
termination
  by (relation "measure (\<lambda>(dec, adds, s, a, i). size a)") (auto dest: size_array_zip size_array_dictionary [OF sym])

declare read_row.simps [simp del]

section \<open>Validated arrays\<close>

definition subarray :: "arrow_array \<Rightarrow> arrow_schema \<Rightarrow> arrow_array \<Rightarrow> arrow_schema \<Rightarrow> bool" where
  "subarray c t a s \<longleftrightarrow> (Some c, Some t) \<in> set (zip (array_children a) (schema_children s))
     \<or> aa_dictionary a = Some c \<and> as_dictionary s = Some t"

lemma size_subarray: "subarray c t a s \<Longrightarrow> size c < size a"
  by (auto simp: subarray_def dest: size_array_zip size_array_dictionary)

text \<open>What the producer provides: the array of buffers, and a validity bitmap for all rows up to the end of the array.\<close>

inductive array_allocated :: "arrow_array \<Rightarrow> arrow_schema \<Rightarrow> bool" where
  "(\<And>buf bs. array_buffers a = Some buf # bs \<Longrightarrow> aa_null_count a \<noteq> 0 \<Longrightarrow> \<not> is_union s
        \<Longrightarrow> aa_offset a + aa_length a \<le> 8 * int (length buf))
     \<Longrightarrow> (is_struct s \<Longrightarrow> array_buffers a \<noteq> [])
     \<Longrightarrow> (\<And>c t. subarray c t a s \<Longrightarrow> array_allocated c t) \<Longrightarrow> array_allocated a s"

inductive_simps array_allocated_iff: "array_allocated a s"

lemma validated_array:
  assumes "validate_array depth a s = Inr ()"
  shows "0 \<le> aa_length a" "0 \<le> aa_offset a" "aa_offset a \<le> int64_max - aa_length a" "aa_n_children a = as_n_children s"
    "(aa_dictionary a = None) = (as_dictionary s = None)"
    "\<And>ct. ct \<in> set (zip (array_children a) (schema_children s)) \<Longrightarrow>
       \<exists>c t. ct = (Some c, Some t) \<and> (is_struct s \<longrightarrow> aa_offset a + aa_length a \<le> aa_length c)"
    "\<And>c t. subarray c t a s \<Longrightarrow> validate_array (Suc depth) c t = Inr ()"
proof -
  let ?f = "\<lambda>(c, t). case c of
                None \<Rightarrow> value_error ''Arrow array contains a null child''
              | Some c \<Rightarrow>
                  if is_struct s \<and> aa_length c < aa_offset a + aa_length a
                  then value_error ''Arrow struct child does not contain the parent slice''
                  else (case t of None \<Rightarrow> Inl None | Some t \<Rightarrow> validate_array (Suc depth) c t)"
  note def = assms [unfolded validate_array.simps [of depth a s]]
  show "0 \<le> aa_length a" "0 \<le> aa_offset a" "aa_offset a \<le> int64_max - aa_length a" "aa_n_children a = as_n_children s"
    "(aa_dictionary a = None) = (as_dictionary s = None)"
    using def by (auto split: if_splits)
  have all: "\<exists>us. traverse ?f (zip (array_children a) (schema_children s)) = Inr us"
    and dict: "(case (aa_dictionary a, as_dictionary s) of (Some c, Some t) \<Rightarrow> validate_array (Suc depth) c t | _ \<Rightarrow> Inr ()) = Inr ()"
    using def by (auto simp: rbind_eq_Inr simp del: split_paired_All split: if_splits)
  have one: "\<exists>c t. ct = (Some c, Some t) \<and> (is_struct s \<longrightarrow> aa_offset a + aa_length a \<le> aa_length c) \<and> validate_array (Suc depth) c t = Inr ()"
    if "ct \<in> set (zip (array_children a) (schema_children s))" for ct
  proof -
    have "\<exists>y. ?f ct = Inr y" using all that unfolding traverse_ok by blast
    then show ?thesis by (auto split: prod.splits option.splits if_splits)
  qed
  show "\<exists>c t. ct = (Some c, Some t) \<and> (is_struct s \<longrightarrow> aa_offset a + aa_length a \<le> aa_length c)"
    if "ct \<in> set (zip (array_children a) (schema_children s))" for ct using one [OF that] by blast
  show "validate_array (Suc depth) c t = Inr ()" if "subarray c t a s" for c t
    using that one dict unfolding subarray_def by fastforce
qed

section \<open>Bitmaps\<close>

lemma bit_at_set:
  assumes "r div 8 < length v"
  shows "bit_at (v[r div 8 := v ! (r div 8) OR push_bit (r mod 8) 1]) j \<longleftrightarrow> bit_at v j \<or> j = r"
proof -
  have "j = r \<longleftrightarrow> j div 8 = r div 8 \<and> j mod 8 = r mod 8" by (metis div_mult_mod_eq)
  moreover have "bit (w OR push_bit (r mod 8) 1) (j mod 8) \<longleftrightarrow> bit w (j mod 8) \<or> j mod 8 = r mod 8" for w :: u8
    by (auto simp: bit_simps)
  ultimately show ?thesis using assms by (auto simp: bit_at_def nth_list_update)
qed

lemma copy_bits_spec:
  assumes "distinct rows" "\<forall>r \<in> set rows. (first + r) div 8 < length src \<and> r div 8 < length v"
  shows "\<exists>v'. copy_bits src first rows (v, k) = Inr (v', k + int (length (filter (\<lambda>r. \<not> bit_at src (first + r)) rows)))
    \<and> (\<forall>j. bit_at v' j \<longleftrightarrow> bit_at v j \<or> j \<in> set rows \<and> bit_at src (first + j))"
  using assms
proof (induction rows arbitrary: v k)
  case (Cons r rows)
  let ?p = "first + r"
  have r: "?p div 8 < length src" "r div 8 < length v" using Cons.prems(2) by simp_all
  have bit: "src ! (?p div 8) AND push_bit (?p mod 8) 1 \<noteq> 0 \<longleftrightarrow> bit_at src ?p"
    using r by (simp add: bit_at_def bit_iff_and_push_bit_not_eq_0)
  show ?case
  proof (cases "bit_at src ?p")
    case True
    let ?v = "v[r div 8 := v ! (r div 8) OR push_bit (r mod 8) 1]"
    have "copy_bits src first (r # rows) (v, k) = copy_bits src first rows (?v, k)"
      using r bit True by (simp add: Let_def)
    then show ?thesis
      using Cons.IH [of ?v k] Cons.prems True bit_at_set [OF r(2)] by auto
  next
    case False
    have "copy_bits src first (r # rows) (v, k) = copy_bits src first rows (v, k + 1)"
      using r bit False by (simp add: Let_def)
    then show ?thesis
      using Cons.IH [of v "k + 1"] Cons.prems False by auto
  qed
qed simp

lemma bit_at_zero [simp]: "\<not> bit_at (replicate n 0) j"
  by (simp add: bit_at_def)

lemma bit_at_take:
  assumes "j < 8 * n" "n \<le> length src"
  shows "bit_at (take n src @ ys) j \<longleftrightarrow> bit_at src j"
proof -
  have "j div 8 < n" using assms(1) by (simp add: less_mult_imp_div_less mult.commute)
  then show ?thesis using assms(2) by (simp add: bit_at_def nth_append)
qed

lemma struct_view:
  assumes "array_buffers a = b # bs" "0 \<le> first" "0 \<le> len"
    "\<And>buf. b = Some buf \<Longrightarrow> aa_null_count a \<noteq> 0 \<Longrightarrow> first + len \<le> 8 * int (length buf)"
  shows "\<exists>nulls b'. struct_buffers first len a = Inr (0, nulls, Some (b' # bs))
    \<and> (\<forall>i. 0 \<le> i \<and> i < len \<longrightarrow> null_in nulls (b' # bs) i = null_at a (first + i))"
proof (cases "\<exists>buf. b = Some buf \<and> aa_null_count a \<noteq> 0")
  case False
  then show ?thesis using assms(1) by (cases b) (auto simp: struct_buffers_def null_in_def)
next
  case True
  then obtain buf where b: "b = Some buf" "aa_null_count a \<noteq> 0" by blast
  define z where "z = replicate ((nat len + 7) div 8 + 1) (0 :: u8)"
  have range: "(nat first + r) div 8 < length buf \<and> r div 8 < length z" if "r \<in> set [0..<nat len]" for r
    using that assms(2,3) assms(4) [OF b] by (auto simp: z_def less_mult_imp_div_less)
  have z: "\<not> bit_at z j" for j by (simp only: z_def bit_at_zero not_False_eq_True)
  from copy_bits_spec [of "[0..<nat len]" "nat first" buf z 0] range z
  obtain v where v: "copy_bits buf (nat first) [0..<nat len] (z, 0) =
      Inr (v, int (length (filter (\<lambda>r. \<not> bit_at buf (nat first + r)) [0..<nat len])))"
    "\<And>j. bit_at v j \<longleftrightarrow> j < nat len \<and> bit_at buf (nat first + j)" by auto
  have "null_in (int (length (filter (\<lambda>r. \<not> bit_at buf (nat first + r)) [0..<nat len]))) (Some v # bs) i = null_at a (first + i)"
    if "0 \<le> i" "i < len" for i
  proof -
    have "nat (first + i) = nat first + nat i" "nat i < nat len" using that assms(2) by (simp_all add: nat_add_distrib)
    then show ?thesis using assms(1) b v(2) by (auto simp: null_in_def filter_empty_conv)
  qed
  then show ?thesis using assms(1) b v(1) [unfolded z_def] by (auto simp: struct_buffers_def)
qed

lemma bitmap_size:
  fixes n :: nat
  shows "n \<le> 8 * (if n mod 8 \<noteq> 0 then n div 8 + 1 else n div 8)"
    "n \<le> 8 * m \<Longrightarrow> (if n mod 8 \<noteq> 0 then n div 8 + 1 else n div 8) \<le> m"
proof -
  have n: "8 * (n div 8) + n mod 8 = n" "n mod 8 < 8" by simp_all
  show "n \<le> 8 * (if n mod 8 \<noteq> 0 then n div 8 + 1 else n div 8)" using n by (cases "n mod 8 = 0") auto
  show "(if n mod 8 \<noteq> 0 then n div 8 + 1 else n div 8) \<le> m" if "n \<le> 8 * m"
  proof (cases "n mod 8 = 0")
    case False
    then have "n div 8 < m" using n that by linarith
    then show ?thesis using False by simp
  qed (use n that in simp)
qed

lemma other_view:
  assumes "0 \<le> aa_offset a" "0 \<le> aa_length a"
    "\<forall>buf bs. array_buffers a = Some buf # bs \<and> aa_null_count a \<noteq> 0 \<and> \<not> is_union s
        \<longrightarrow> aa_offset a + aa_length a \<le> 8 * int (length buf)"
  shows "\<exists>bufs. other_buffers first a s = Inr (first, aa_null_count a, bufs)
    \<and> (let bs = take (nat (aa_n_buffers a)) (case bufs of None \<Rightarrow> [] | Some bs \<Rightarrow> bs)
       in drop 1 bs = drop 1 (array_buffers a) \<and> (is_union s \<longrightarrow> bs = array_buffers a)
          \<and> (\<forall>p. 0 \<le> p \<and> p < aa_offset a + aa_length a \<longrightarrow> \<not> is_union s \<longrightarrow> null_in (aa_null_count a) bs p = null_at a p))"
proof (cases "\<exists>buf bs. array_buffers a = Some buf # bs \<and> aa_null_count a \<noteq> 0 \<and> \<not> is_union s")
  case False
  then have "other_buffers first a s = Inr (first, aa_null_count a, aa_buffers a)"
    by (auto simp: other_buffers_def split: list.split option.split)
  then show ?thesis by (simp add: array_buffers_def Let_def)
next
  case True
  then obtain buf bs where b: "array_buffers a = Some buf # bs" "aa_null_count a \<noteq> 0" "\<not> is_union s" by blast
  have bits: "aa_offset a + aa_length a \<le> 8 * int (length buf)" using assms(3) b by blast
  have enough: "aa_offset a + aa_length a \<le> 8 * int (bitmap_bytes a)" "bitmap_bytes a \<le> length buf"
  proof -
    have "nat (aa_offset a + aa_length a) \<le> 8 * bitmap_bytes a" unfolding bitmap_bytes_def Let_def by (rule bitmap_size)
    then show "aa_offset a + aa_length a \<le> 8 * int (bitmap_bytes a)" using assms(1,2) by linarith
    have "nat (aa_offset a + aa_length a) \<le> 8 * length buf" using bits by linarith
    then show "bitmap_bytes a \<le> length buf" unfolding bitmap_bytes_def Let_def by (rule bitmap_size)
  qed
  have len: "length (Some buf # bs) \<le> nat (aa_n_buffers a)"
    using b(1) unfolding array_buffers_def by (metis length_take min.cobounded2)
  have "bit_at (take (bitmap_bytes a) buf @ [0]) (nat p) = bit_at buf (nat p)" if "0 \<le> p" "p < aa_offset a + aa_length a" for p
    using that enough by (intro bit_at_take) linarith+
  then show ?thesis
    using b len enough(2) by (auto simp: other_buffers_def null_in_def Let_def)
qed

section \<open>The view reads like the array\<close>

text \<open>
  A view node whose children, rebased by \<open>g\<close>, read like the source's: first a struct, whose children are the slice of
  its rows, then any other array, whose children and dictionary read the same everywhere.
\<close>

lemma zip_rebased: "zip (map f (zip xs ys)) ys = map (\<lambda>z. (f z, snd z)) (zip xs ys)"
  by (induction xs ys rule: list_induct2') auto

lemma struct_reads:
  assumes "is_struct s" "aa_length v = len" "aa_offset v = 0" "0 \<le> h" "h + len \<le> aa_length a"
    "\<And>i. 0 \<le> i \<Longrightarrow> i < len \<Longrightarrow> null_at v i = null_at a (aa_offset a + h + i)"
    "zip (array_children v) (schema_children s) = map (\<lambda>z. (Some (g z), snd z)) (zip (array_children a) (schema_children s))"
    "\<And>z. z \<in> set (zip (array_children a) (schema_children s)) \<Longrightarrow> \<exists>c t. z = (Some c, Some t)
       \<and> (\<forall>i. 0 \<le> i \<and> i < len \<longrightarrow> read_row dec adds t (g z) i = read_row dec True t c (aa_offset a + h + i))"
  shows "read_row dec adds s v i = (if 0 \<le> i \<and> i < len then read_row dec True s a (h + i) else None)"
proof (cases "0 \<le> i \<and> i < len")
  case False
  then show ?thesis using assms(2) by (subst read_row.simps) auto
next
  case True
  then have i: "0 \<le> i" "i < len" "0 \<le> h + i" "h + i < aa_length a" using assms(4,5) by linarith+
  have "map (\<lambda>(c, t). case (c, t) of (Some c, Some t) \<Rightarrow> read_row dec adds t c i | _ \<Rightarrow> None)
          (zip (array_children v) (schema_children s)) =
        map (\<lambda>(c, t). case (c, t) of (Some c, Some t) \<Rightarrow> read_row dec True t c (aa_offset a + (h + i)) | _ \<Rightarrow> None)
          (zip (array_children a) (schema_children s))"
    unfolding assms(7) map_map using assms(8) i(1,2) by (intro map_cong refl) (fastforce simp: add.assoc)
  then show ?thesis
    using assms(1,2,3) assms(6) [OF i(1,2)] i
    unfolding read_row.simps [of dec adds s v i] read_row.simps [of dec True s a "h + i"] by (simp add: Let_def add.assoc)
qed

lemma other_reads:
  assumes "\<not> is_struct s" "aa_length v = len" "aa_offset v = aa_offset a + h" "0 \<le> h" "h + len \<le> aa_length a"
    "\<And>i. 0 \<le> i \<Longrightarrow> i < len \<Longrightarrow> \<not> is_union s \<Longrightarrow> null_at v (aa_offset a + h + i) = null_at a (aa_offset a + h + i)"
    "drop 1 (array_buffers v) = drop 1 (array_buffers a)" "is_union s \<Longrightarrow> array_buffers v = array_buffers a"
    "zip (array_children v) (schema_children s) = map (\<lambda>z. (Some (g z), snd z)) (zip (array_children a) (schema_children s))"
    "\<And>z. z \<in> set (zip (array_children a) (schema_children s)) \<Longrightarrow> \<exists>c t. z = (Some c, Some t)
       \<and> (\<forall>j. read_row dec adds t (g z) j = read_row dec True t c j)"
    "(aa_dictionary v = None) = (aa_dictionary a = None)"
    "\<And>c t. aa_dictionary a = Some c \<Longrightarrow> as_dictionary s = Some t \<Longrightarrow> \<forall>j. read_row dec adds t (the (aa_dictionary v)) j = read_row dec True t c j"
  shows "read_row dec adds s v i = (if 0 \<le> i \<and> i < len then read_row dec True s a (h + i) else None)"
proof (cases "0 \<le> i \<and> i < len")
  case False
  then show ?thesis using assms(2) by (subst read_row.simps) auto
next
  case True
  then have i: "0 \<le> i" "i < len" "0 \<le> h + i" "h + i < aa_length a" using assms(4,5) by linarith+
  have children: "map (\<lambda>(c, t) j. case (c, t) of (Some c, Some t) \<Rightarrow> read_row dec adds t c j | _ \<Rightarrow> None)
          (zip (array_children v) (schema_children s)) =
        map (\<lambda>(c, t) j. case (c, t) of (Some c, Some t) \<Rightarrow> read_row dec True t c j | _ \<Rightarrow> None)
          (zip (array_children a) (schema_children s))"
    unfolding assms(9) map_map using assms(10) by (intro map_cong refl ext) fastforce
  have dict: "(case (aa_dictionary v, as_dictionary s) of (Some c, Some t) \<Rightarrow> Some (\<lambda>j. read_row dec adds t c j) | _ \<Rightarrow> None) =
      (case (aa_dictionary a, as_dictionary s) of (Some c, Some t) \<Rightarrow> Some (\<lambda>j. read_row dec True t c j) | _ \<Rightarrow> None)"
    using assms(11,12) by (auto split: option.split)
  show ?thesis
  proof (cases "is_union s")
    case True
    then show ?thesis
      using assms(1,2,3,8) i
      unfolding read_row.simps [of dec adds s v i] read_row.simps [of dec True s a "h + i"] children dict by (simp add: Let_def add.assoc)
  next
    case False
    then show ?thesis
      using assms(1,2,3,7) assms(6) [OF i(1,2) False] i
      unfolding read_row.simps [of dec adds s v i] read_row.simps [of dec True s a "h + i"] children dict by (simp add: Let_def add.assoc)
  qed
qed

lemma normalized:
  assumes "validate_array depth a s = Inr ()" "array_allocated a s" "0 \<le> h" "0 \<le> len" "h + len \<le> aa_length a"
    "l = len \<or> l < 0 \<and> len = aa_length a"
  shows "\<exists>v. normalize_arrow_array h l a s = Inr v \<and> (is_struct s \<longrightarrow> aa_offset v = 0)
    \<and> (\<forall>adds i. read_row dec adds s v i = (if 0 \<le> i \<and> i < len then read_row dec True s a (h + i) else None))"
  using assms
proof (induction a arbitrary: s depth h l len rule: measure_induct_rule [of size])
  case (less a)
  note val = validated_array [OF less.prems(1)]
  have alloc: "\<And>buf bs. array_buffers a = Some buf # bs \<Longrightarrow> aa_null_count a \<noteq> 0 \<Longrightarrow> \<not> is_union s
        \<Longrightarrow> aa_offset a + aa_length a \<le> 8 * int (length buf)" "is_struct s \<Longrightarrow> array_buffers a \<noteq> []"
    "\<And>c t. subarray c t a s \<Longrightarrow> array_allocated c t"
    using array_allocated_iff [THEN iffD1, OF less.prems(2)] by blast+
  let ?Z = "zip (array_children a) (schema_children s)"
  let ?first = "aa_offset a + h"
  have whole: "\<exists>v. normalize_arrow_array 0 (-1) c t = Inr v \<and> (\<forall>adds j. read_row dec adds t v j = read_row dec True t c j)"
    if sub: "subarray c t a s" for c t
  proof -
    have "0 \<le> aa_length c" using validated_array(1) [OF val(7) [OF sub]] .
    then obtain v where "normalize_arrow_array 0 (-1) c t = Inr v"
      "\<forall>adds j. read_row dec adds t v j = (if 0 \<le> j \<and> j < aa_length c then read_row dec True t c (0 + j) else None)"
      using less.IH [OF size_subarray [OF sub] val(7) [OF sub] alloc(3) [OF sub], of 0 "aa_length c" "-1"] by auto
    moreover have "read_row dec True t c j = None" if "\<not> (0 \<le> j \<and> j < aa_length c)" for j
      using that by (subst read_row.simps) auto
    ultimately show ?thesis by auto
  qed
  have slice: "\<exists>v. normalize_arrow_array ?first len c t = Inr v
      \<and> (\<forall>adds j. read_row dec adds t v j = (if 0 \<le> j \<and> j < len then read_row dec True t c (?first + j) else None))"
    if sub: "subarray c t a s" "aa_offset a + aa_length a \<le> aa_length c" for c t
  proof -
    have "0 \<le> ?first" "?first + len \<le> aa_length c" using sub(2) less.prems(3,5) val(2) by linarith+
    then show ?thesis
      using less.IH [OF size_subarray [OF sub(1)] val(7) [OF sub(1)] alloc(3) [OF sub(1)] _ less.prems(4), of ?first len] by blast
  qed
  have "\<exists>v. (case z of (Some c, Some t) \<Rightarrow> normalize_arrow_array (if is_struct s then ?first else 0) (if is_struct s then len else -1) c t
        | _ \<Rightarrow> Inl None) = Inr v
      \<and> (\<exists>c t. z = (Some c, Some t) \<and> (if is_struct s
          then \<forall>adds i. 0 \<le> i \<and> i < len \<longrightarrow> read_row dec adds t v i = read_row dec True t c (?first + i)
          else \<forall>adds j. read_row dec adds t v j = read_row dec True t c j))" if mem: "z \<in> set ?Z" for z
  proof -
    obtain c t where z: "z = (Some c, Some t)" "is_struct s \<longrightarrow> aa_offset a + aa_length a \<le> aa_length c" using val(6) [OF mem] by blast
    have sub: "subarray c t a s" using mem z(1) by (simp add: subarray_def)
    show ?thesis using whole [OF sub] slice [OF sub] z by (cases "is_struct s") auto
  qed
  then obtain g where g: "\<And>z. z \<in> set ?Z \<Longrightarrow>
      (case z of (Some c, Some t) \<Rightarrow> normalize_arrow_array (if is_struct s then ?first else 0) (if is_struct s then len else -1) c t
        | _ \<Rightarrow> Inl None) = Inr (g z)
      \<and> (\<exists>c t. z = (Some c, Some t) \<and> (if is_struct s
          then \<forall>adds i. 0 \<le> i \<and> i < len \<longrightarrow> read_row dec adds t (g z) i = read_row dec True t c (?first + i)
          else \<forall>adds j. read_row dec adds t (g z) j = read_row dec True t c j))" by metis
  have traverse: "traverse (\<lambda>(c, t). case (c, t) of
      (Some c, Some t) \<Rightarrow> normalize_arrow_array (if is_struct s then ?first else 0) (if is_struct s then len else -1) c t
    | _ \<Rightarrow> Inl None) ?Z = Inr (map g ?Z)"
    using g by (intro traverse_map) (simp add: split_beta split: prod.splits)
  have "\<exists>d. (case aa_dictionary a of None \<Rightarrow> Inr None
      | Some c \<Rightarrow> (case as_dictionary s of None \<Rightarrow> Inl None
          | Some t \<Rightarrow> rbind (normalize_arrow_array 0 (-1) c t) (\<lambda>v. Inr (Some v)))) = Inr d
      \<and> (d = None) = (aa_dictionary a = None)
      \<and> (\<forall>c t. aa_dictionary a = Some c \<and> as_dictionary s = Some t \<longrightarrow>
            (\<forall>adds j. read_row dec adds t (the d) j = read_row dec True t c j))"
  proof (cases "aa_dictionary a")
    case (Some c)
    then obtain t where t: "as_dictionary s = Some t" using val(5) by auto
    have "subarray c t a s" using Some t by (simp add: subarray_def)
    from whole [OF this] obtain v where "normalize_arrow_array 0 (-1) c t = Inr v"
      "\<forall>adds j. read_row dec adds t v j = read_row dec True t c j" by blast
    then show ?thesis using Some t by auto
  qed simp
  then obtain d where d: "(case aa_dictionary a of None \<Rightarrow> Inr None
      | Some c \<Rightarrow> (case as_dictionary s of None \<Rightarrow> Inl None
          | Some t \<Rightarrow> rbind (normalize_arrow_array 0 (-1) c t) (\<lambda>v. Inr (Some v)))) = Inr d"
      "(d = None) = (aa_dictionary a = None)"
      "\<forall>c t. aa_dictionary a = Some c \<and> as_dictionary s = Some t \<longrightarrow>
         (\<forall>adds j. read_row dec adds t (the d) j = read_row dec True t c j)" by (elim exE conjE)
  define view where "view off nulls bufs = Arrow_array len nulls off (aa_n_buffers a) (aa_n_children a) bufs
     (if map g ?Z = [] then None else Some (map Some (map g ?Z))) d (Some 0)" for off nulls bufs
  have few: "length ?Z \<le> nat (aa_n_children a)" by (simp add: array_children_def min_def)
  then have "array_children (view off nulls bufs) = map (\<lambda>z. Some (g z)) ?Z" for off nulls bufs
    by (simp add: view_def array_children_def)
  then have zip: "zip (array_children (view off nulls bufs)) (schema_children s) = map (\<lambda>z. (Some (g z), snd z)) ?Z" for off nulls bufs
    by (simp only: zip_rebased)
  have len: "(if l < 0 then aa_length a else l) = len" using less.prems(4,6) by auto
  have bounds: "\<not> (aa_offset a > int64_max - h \<or> h > aa_length a \<or> len > aa_length a - h)" "\<not> ?first > int64_max - len"
    using less.prems(3,4,5) val(2,3) by linarith+
  have norm: "normalize_arrow_array h l a s = Inr (view off nulls bufs)"
    if "(if is_struct s then struct_buffers ?first len a else other_buffers ?first a s) = Inr (off, nulls, bufs)" for off nulls bufs
    unfolding normalize_arrow_array.simps [of h l a s] Let_def len if_not_P [OF bounds(1)] if_not_P [OF bounds(2)] that rbind.simps
      prod.case traverse [unfolded prod.case] d(1) view_def by (rule refl)
  show ?case
  proof (cases "is_struct s")
    case True
    obtain b bs where b: "array_buffers a = b # bs" using alloc(2) [OF True] by (cases "array_buffers a") auto
    have "\<not> is_union s" using True by (simp add: is_union_def)
    then have "?first + len \<le> 8 * int (length buf)" if "b = Some buf" "aa_null_count a \<noteq> 0" for buf
      using alloc(1) [of buf bs] b that less.prems(5) by simp
    with struct_view [OF b, of ?first len] less.prems(3,4) val(2) obtain nulls b' where
      v: "struct_buffers ?first len a = Inr (0, nulls, Some (b' # bs))"
      "\<And>i. 0 \<le> i \<Longrightarrow> i < len \<Longrightarrow> null_in nulls (b' # bs) i = null_at a (?first + i)" by auto
    have bufs: "array_buffers (view 0 nulls (Some (b' # bs))) = b' # bs"
    proof -
      have "length (b # bs) \<le> nat (aa_n_buffers a)" using b unfolding array_buffers_def by (metis length_take min.cobounded2)
      then show ?thesis by (simp add: view_def array_buffers_def)
    qed
    have "read_row dec adds s (view 0 nulls (Some (b' # bs))) i = (if 0 \<le> i \<and> i < len then read_row dec True s a (h + i) else None)" for adds i
    proof (rule struct_reads [OF True _ _ less.prems(3,5) _ zip])
      show "null_at (view 0 nulls (Some (b' # bs))) j = null_at a (?first + j)" if "0 \<le> j" "j < len" for j
        using v(2) [OF that] unfolding bufs by (simp add: view_def)
    qed (use g True in \<open>fastforce simp: view_def\<close>)+
    then show ?thesis using norm [of 0 nulls "Some (b' # bs)"] v(1) True by (auto simp: view_def)
  next
    case False
    obtain bufs where v: "other_buffers ?first a s = Inr (?first, aa_null_count a, bufs)"
      "let bs = take (nat (aa_n_buffers a)) (case bufs of None \<Rightarrow> [] | Some bs \<Rightarrow> bs)
       in drop 1 bs = drop 1 (array_buffers a) \<and> (is_union s \<longrightarrow> bs = array_buffers a)
          \<and> (\<forall>p. 0 \<le> p \<and> p < aa_offset a + aa_length a \<longrightarrow> \<not> is_union s \<longrightarrow> null_in (aa_null_count a) bs p = null_at a p)"
      using other_view [where first = ?first and s = s, OF val(2,1)] alloc(1) by blast
    have bufs: "array_buffers (view ?first (aa_null_count a) bufs) = take (nat (aa_n_buffers a)) (case bufs of None \<Rightarrow> [] | Some bs \<Rightarrow> bs)"
      by (simp add: view_def array_buffers_def)
    have "read_row dec adds s (view ?first (aa_null_count a) bufs) i = (if 0 \<le> i \<and> i < len then read_row dec True s a (h + i) else None)" for adds i
    proof (rule other_reads [OF False _ _ less.prems(3,5) _ _ _ zip])
      show "null_at (view ?first (aa_null_count a) bufs) (?first + j) = null_at a (?first + j)"
        if "0 \<le> j" "j < len" "\<not> is_union s" for j
      proof -
        have "0 \<le> ?first + j" "?first + j < aa_offset a + aa_length a" using that less.prems(3,5) val(2) by linarith+
        then show ?thesis using v(2) that(3) unfolding bufs Let_def by (simp add: view_def)
      qed
      show "drop 1 (array_buffers (view ?first (aa_null_count a) bufs)) = drop 1 (array_buffers a)"
        using v(2) unfolding bufs Let_def by blast
      show "array_buffers (view ?first (aa_null_count a) bufs) = array_buffers a" if "is_union s"
        using v(2) that unfolding bufs Let_def by blast
      show "(aa_dictionary (view ?first (aa_null_count a) bufs) = None) = (aa_dictionary a = None)"
        using d(2) by (simp add: view_def)
      show "\<forall>j. read_row dec adds t (the (aa_dictionary (view ?first (aa_null_count a) bufs))) j = read_row dec True t c j"
        if "aa_dictionary a = Some c" "as_dictionary s = Some t" for c t
        using d(3) that by (simp add: view_def)
    qed (use g False in \<open>fastforce simp: view_def\<close>)+
    then show ?thesis using norm [of ?first "aa_null_count a" bufs] v(1) False by auto
  qed
qed

text \<open>
  C3. The normalized view of an Arrow array has the values of the array. For every array that passes validation, with the
  memory its producer promises, \<open>normalize_arrow_array\<close> succeeds, reads no byte outside the validity bitmaps,
  and gives a view from which a reader that never adds a struct's offset to its children reads, at every depth and for every
  decoding of data buffers, exactly the rows of the original; its root has offset zero when it is a struct.
\<close>

theorem normalized_view_reads_the_same:
  assumes "validate_array 0 a s = Inr ()" "array_allocated a s"
  shows "\<exists>v. normalize_arrow_array 0 (-1) a s = Inr v \<and> read_row dec False s v = read_row dec True s a
    \<and> (is_struct s \<longrightarrow> aa_offset v = 0)"
proof -
  have "0 \<le> aa_length a" by (rule validated_array(1) [OF assms(1)])
  then obtain v where v: "normalize_arrow_array 0 (-1) a s = Inr v" "is_struct s \<longrightarrow> aa_offset v = 0"
    "\<forall>adds i. read_row dec adds s v i = (if 0 \<le> i \<and> i < aa_length a then read_row dec True s a (0 + i) else None)"
    using normalized [OF assms, of 0 "aa_length a" "-1" dec] by auto
  have "read_row dec True s a i = None" if "\<not> (0 \<le> i \<and> i < aa_length a)" for i
    using that by (subst read_row.simps) auto
  then show ?thesis using v by auto
qed

text \<open>A sliced struct with a null row over a column of 32-bit integers.\<close>

definition sliced_schema :: arrow_schema where
  "sliced_schema = Arrow_schema (Some ''+s'') None None 0 1
     (Some [Some (Arrow_schema (Some ''c'') (Some ''a'') None 2 0 None None True)]) None True"

definition sliced_array :: arrow_array where
  "sliced_array = Arrow_array 2 1 1 1 1 (Some [Some [5]])
     (Some [Some (Arrow_array 3 0 1 2 0 (Some [None, Some [1, 2, 3, 4]]) None None (Some 7))]) None (Some 7)"

definition byte_column :: "u8 decoder" where
  "byte_column fmt data p children dict =
     (case data of Some buf # bs \<Rightarrow> Datum (buf ! nat p) | _ \<Rightarrow> Missing)"

lemma normalized_view_reads_the_same_witness:
  "\<exists>v. normalize_arrow_array 0 (-1) sliced_array sliced_schema = Inr v
     \<and> read_row byte_column False sliced_schema v = read_row byte_column True sliced_schema sliced_array
     \<and> aa_offset v = 0"
proof -
  let ?c = "Arrow_array 3 0 1 2 0 (Some [None, Some [1, 2, 3, 4]]) None None (Some 7)"
  let ?t = "Arrow_schema (Some ''c'') (Some ''a'') None 2 0 None None True"
  have shape: "array_children sliced_array = [Some ?c]" "schema_children sliced_schema = [Some ?t]"
    "array_children ?c = []" "schema_children ?t = []"
    by (simp_all add: array_children_def schema_children_def sliced_array_def sliced_schema_def)
  have bufs: "array_buffers sliced_array = [Some [5]]" by (simp add: sliced_array_def array_buffers_def)
  have leaf: "validate_array (Suc 0) ?c ?t = Inr ()"
    by (subst validate_array.simps) (simp add: shape int64_max_def)
  have fields: "aa_length sliced_array = 2" "aa_null_count sliced_array = 1" "aa_offset sliced_array = 1" "aa_n_buffers sliced_array = 1"
    "aa_n_children sliced_array = 1" "aa_buffers sliced_array \<noteq> None" "aa_children sliced_array \<noteq> None"
    "aa_dictionary sliced_array = None" "aa_release sliced_array = Some 7" "as_n_children sliced_schema = 1"
    "as_dictionary sliced_schema = None" "is_struct sliced_schema" "\<not> null_buffer sliced_array"
    by (simp_all add: sliced_array_def sliced_schema_def null_buffer_def array_buffers_def)
  have "validate_array 0 sliced_array sliced_schema = Inr ()"
    unfolding validate_array.simps [of 0 sliced_array] shape fields by (simp add: leaf fields int64_max_def)
  moreover have leaf': "array_allocated ?c ?t"
    by (rule array_allocated.intros) (auto simp: subarray_def shape array_buffers_def)
  moreover have "array_allocated sliced_array sliced_schema"
    by (rule array_allocated.intros) (auto simp: subarray_def shape fields bufs leaf')
  ultimately show ?thesis
    using normalized_view_reads_the_same [of sliced_array sliced_schema byte_column] by (auto simp: sliced_schema_def)
qed

end
