(* ===== verification/Arrow_Chunk.thy ===== *)
theory Arrow_Chunk
  imports Arrow_Array Connection "HOL-Library.Multiset"
begin

text \<open>
  \<open>DuckDB\ArrowSchema\<close>, \<open>DuckDB\ArrowChunk\<close> and the import of Arrow data, \<open>src/src/arrow.cpp\<close> and
  \<open>src/src/data_chunk.cpp\<close>: C structures at addresses, the chunks and data chunks that take them over, and the release
  callbacks, each of which must run once, when its last holder goes.

  DuckDB's conversions are parameters. The conversion of a failing call to the caller's pending exception while a release
  callback runs is not modelled.
\<close>

section \<open>Schemas at addresses\<close>

definition address_pointer :: "int \<Rightarrow> unit native" where
  "address_pointer address =
     (if address \<le> 0 \<or> address mod 8 \<noteq> 0
      then value_error ''Arrow C Data Interface address must be positive and aligned'' else Inr ())"

definition live_schema :: "bool \<Rightarrow> arrow_schema \<Rightarrow> arrow_schema" where
  "live_schema b s = Arrow_schema (as_format s) (as_name s) (as_metadata s) (as_flags s) (as_n_children s) (as_children s) (as_dictionary s) b"

text \<open>The imported schema and what is left at the address.\<close>

definition schema_importFromC :: "int \<Rightarrow> arrow_schema \<Rightarrow> (arrow_schema \<times> arrow_schema) native" where
  "schema_importFromC address source =
     rbind (address_pointer address) (\<lambda>_. rbind (validate_schema 0 source) (\<lambda>_. Inr (source, live_schema False source)))"

definition arrow_schema_from_zval :: "arrow_schema option \<Rightarrow> arrow_schema native" where
  "arrow_schema_from_zval intern =
     (case intern of
        None \<Rightarrow> Inl (Some (PhpError (''DuckDB'' @ [CHR 0x5C] @ ''ArrowSchema object is not initialized (its constructor was bypassed)'')))
      | Some s \<Rightarrow> Inr s)"

definition schema_exportToC :: "arrow_schema option \<Rightarrow> int \<Rightarrow> arrow_schema \<Rightarrow> arrow_schema native" where
  "schema_exportToC intern address target =
     rbind (arrow_schema_from_zval intern) (\<lambda>s. rbind (address_pointer address) (\<lambda>_.
       if as_live target then value_error ''Arrow schema destination must be zero-initialized or released''
       else rbind (validate_schema 0 s) (\<lambda>_. copy_schema s)))"

definition schema_toArray :: "arrow_schema option \<Rightarrow> schema_array native" where
  "schema_toArray intern = rbind (arrow_schema_from_zval intern) (\<lambda>s. rbind (validate_schema 0 s) (\<lambda>_. schema_to_array s))"

section \<open>Chunks\<close>

record arrow_chunk =
  ac_schema :: arrow_schema
  ac_array :: arrow_array
  ac_rows :: nat

text \<open>
  Structures of arrays by address, the \<open>ArrowChunk\<close> objects, the arrays data chunks own, and the callbacks that have run.
  A \<open>None\<close> among the objects is one that was destroyed or whose constructor was bypassed.
\<close>

record arrow_heap =
  ah_memory :: "(int \<times> arrow_array) list"
  ah_chunks :: "arrow_chunk option list"
  ah_data :: "arrow_array option list"
  ah_released :: "nat list"

definition set_release :: "nat option \<Rightarrow> arrow_array \<Rightarrow> arrow_array" where
  "set_release r a = Arrow_array (aa_length a) (aa_null_count a) (aa_offset a) (aa_n_buffers a) (aa_n_children a)
     (aa_buffers a) (aa_children a) (aa_dictionary a) r"

definition set_struct :: "int \<Rightarrow> arrow_array \<Rightarrow> arrow_heap \<Rightarrow> arrow_heap" where
  "set_struct address a h = h\<lparr>ah_memory := map (\<lambda>(k, x). if k = address then (k, a) else (k, x)) (ah_memory h)\<rparr>"

definition chunk_at :: "arrow_heap \<Rightarrow> nat \<Rightarrow> arrow_chunk native" where
  "chunk_at h i =
     (if i < length (ah_chunks h) \<and> ah_chunks h ! i \<noteq> None then Inr (the (ah_chunks h ! i))
      else Inl (Some (PhpError (''DuckDB'' @ [CHR 0x5C] @ ''ArrowChunk object is not initialized (its constructor was bypassed)''))))"

definition consumed :: "arrow_chunk \<Rightarrow> bool" where
  "consumed c \<longleftrightarrow> aa_release (ac_array c) = None"

definition consume :: "nat \<Rightarrow> arrow_chunk \<Rightarrow> arrow_heap \<Rightarrow> arrow_heap" where
  "consume i c h = h\<lparr>ah_chunks := (ah_chunks h)[i := Some (c\<lparr>ac_array := set_release None (ac_array c)\<rparr>)]\<rparr>"

text \<open>\<open>~arrow_chunk_data\<close>\<close>

definition release_array :: "arrow_array \<Rightarrow> arrow_heap \<Rightarrow> arrow_heap" where
  "release_array a h = (case aa_release a of None \<Rightarrow> h | Some r \<Rightarrow> h\<lparr>ah_released := ah_released h @ [r]\<rparr>)"

text \<open>An unknown null count with a bitmap: the loop that looks for a null row.\<close>

definition has_null_row :: "arrow_array \<Rightarrow> bool" where
  "has_null_row a \<longleftrightarrow> aa_null_count a = - 1
     \<and> (case array_buffers a of Some buf # bs \<Rightarrow> list_ex (\<lambda>row. \<not> bit_at buf (nat (aa_offset a) + row)) [0..<nat (aa_length a)] | _ \<Rightarrow> False)"

definition check_batch :: "arrow_array \<Rightarrow> arrow_schema \<Rightarrow> unit native" where
  "check_batch a s =
     rbind (validate_array 0 a s) (\<lambda>_.
       if aa_n_buffers a \<noteq> 1 \<or> aa_null_count a > 0
       then value_error ''Arrow record batches require one validity buffer and no null rows''
       else if aa_length a > 2 ^ 32 - 1
       then value_error ''Arrow record batch row count exceeds the supported integer range''
       else if has_null_row a then value_error ''Arrow record batches must not contain null rows'' else Inr ())"

definition chunk_importFromC :: "arrow_schema option \<Rightarrow> int \<Rightarrow> arrow_heap \<Rightarrow> unit native \<times> arrow_heap" where
  "chunk_importFromC schema address h =
     (case rbind (arrow_schema_from_zval schema) (\<lambda>s. rbind (validate_schema 0 s) (\<lambda>_.
             if \<not> is_struct s then value_error ''Arrow chunks require a struct schema for the record batch''
             else rbind (address_pointer address) (\<lambda>_.
               case map_of (ah_memory h) address of
                 None \<Rightarrow> Inl None
               | Some a \<Rightarrow> rbind (check_batch a s) (\<lambda>_. Inr (s, a))))) of
        Inl e \<Rightarrow> (Inl e, h)
      | Inr (s, a) \<Rightarrow>
          let h1 = set_struct address (set_release None a) h
          in (Inr (), h1\<lparr>ah_chunks := ah_chunks h1 @ [Some \<lparr>ac_schema = s, ac_array = a, ac_rows = nat (aa_length a)\<rparr>]\<rparr>))"

definition already_consumed :: "throwable option" where
  "already_consumed = Some (duckdb_throw_msg (Some ''Arrow chunk has already been consumed''))"

definition chunk_exportToC :: "nat \<Rightarrow> int \<Rightarrow> arrow_heap \<Rightarrow> unit native \<times> arrow_heap" where
  "chunk_exportToC i address h =
     (case rbind (chunk_at h i) (\<lambda>c.
             if consumed c then Inl already_consumed
             else rbind (address_pointer address) (\<lambda>_.
               case map_of (ah_memory h) address of
                 None \<Rightarrow> Inl None
               | Some a \<Rightarrow>
                   if aa_release a \<noteq> None then value_error ''Arrow array destination must be zero-initialized or released''
                   else Inr c)) of
        Inl e \<Rightarrow> (Inl e, h)
      | Inr c \<Rightarrow> (Inr (), consume i c (set_struct address (ac_array c) h)))"

definition chunk_isConsumed :: "nat \<Rightarrow> arrow_heap \<Rightarrow> bool native" where
  "chunk_isConsumed i h = rbind (chunk_at h i) (\<lambda>c. Inr (consumed c))"

definition chunk_rowCount :: "nat \<Rightarrow> arrow_heap \<Rightarrow> nat native" where
  "chunk_rowCount i h =
     rbind (chunk_at h i) (\<lambda>c.
       if int (ac_rows c) > int64_max then value_error ''Arrow row count exceeds the PHP integer range'' else Inr (ac_rows c))"

definition chunk_schema :: "nat \<Rightarrow> arrow_heap \<Rightarrow> arrow_schema native" where
  "chunk_schema i h = rbind (chunk_at h i) (\<lambda>c. Inr (ac_schema c))"

section \<open>Geometry coordinate systems\<close>

definition arrow_geometry_requires_crs :: "json_reader \<Rightarrow> arrow_schema \<Rightarrow> bool native" where
  "arrow_geometry_requires_crs json s =
     (case as_metadata s of
        None \<Rightarrow> Inr False
      | Some m \<Rightarrow>
          rbind (duckdb_arrow_extension_metadata (Some m)) (\<lambda>(ext, metadata).
            if ext \<noteq> ''geoarrow.wkb'' \<or> metadata = [] then Inr False
            else (case json metadata of
                None \<Rightarrow> Inl (Some (duckdb_throw_msg (Some ''Invalid GeoArrow extension metadata JSON'')))
              | Some prop \<Rightarrow> Inr (case prop ''crs'' of None \<Rightarrow> False | Some v \<Rightarrow> v \<noteq> J_null))))"

definition keeps_crs :: "ltype option \<Rightarrow> bool" where
  "keeps_crs t \<longleftrightarrow> (case t of Some (LT_geometry (Some crs)) \<Rightarrow> crs \<noteq> [] | _ \<Rightarrow> False)"

definition erased_crs :: throwable where
  "erased_crs = duckdb_throw_msg (Some (''The linked DuckDB SDK erased GeoArrow geometry CRS metadata; '' @
     ''update to the packaged DuckDB SDK with the Arrow geometry fix''))"

function arrow_import_preserves_geometry_crs :: "json_reader \<Rightarrow> ltype option \<Rightarrow> arrow_schema \<Rightarrow> unit native" where
  "arrow_import_preserves_geometry_crs json ty s =
     rbind (arrow_geometry_requires_crs json s) (\<lambda>required.
       if required \<and> \<not> keeps_crs ty then Inl (Some erased_crs)
       else case as_dictionary s of
         Some t \<Rightarrow> arrow_import_preserves_geometry_crs json ty t
       | None \<Rightarrow>
           if as_format s = Some ''+r''
           then rbind (schema_child s 1) (\<lambda>t. arrow_import_preserves_geometry_crs json ty t)
           else rbind (type_fields ty s) (\<lambda>fs.
             rbind (traverse (\<lambda>(c, t). arrow_import_preserves_geometry_crs json c t) fs) (\<lambda>_. Inr ())))"
  by pat_completeness auto
termination
  by (relation "measure (\<lambda>(json, ty, s). size s)") (auto dest: size_type_fields size_schema_child size_dictionary)

declare arrow_import_preserves_geometry_crs.simps [simp del]

section \<open>Import into a data chunk\<close>

text \<open>
  \<open>schema_ok\<close>: DuckDB's conversion of the schema; \<open>filled\<close>: its conversion of the view, with the types of the columns.
  A failure after the take-over destroys the new data chunk, and with it the array.
\<close>

definition child_names :: "arrow_schema \<Rightarrow> string list native" where
  "child_names s =
     traverse (\<lambda>c. case c of None \<Rightarrow> Inl None | Some t \<Rightarrow> Inr (case as_name t of None \<Rightarrow> [] | Some n \<Rightarrow> n)) (schema_children s)"

definition column_crs :: "json_reader \<Rightarrow> ltype list \<Rightarrow> arrow_schema \<Rightarrow> unit native" where
  "column_crs json types s =
     rbind (traverse (\<lambda>(i, t). rbind (schema_child s i) (arrow_import_preserves_geometry_crs json (Some t))) (enumerate 0 types))
       (\<lambda>_. Inr ())"

definition duckdb_import_arrow_chunk ::
    "json_reader \<Rightarrow> (throwable, unit) result \<Rightarrow> (arrow_array \<Rightarrow> (throwable, ltype list) result) \<Rightarrow> nat \<Rightarrow> arrow_chunk \<Rightarrow> arrow_heap
      \<Rightarrow> string list native \<times> arrow_heap" where
  "duckdb_import_arrow_chunk json schema_ok filled i c h =
     (if consumed c then (Inl already_consumed, h)
      else case rbind (case schema_ok of Inl e \<Rightarrow> Inl (Some e) | Inr _ \<Rightarrow> Inr ()) (\<lambda>_. rbind (child_names (ac_schema c)) (\<lambda>names.
             rbind (normalize_arrow_array 0 (-1) (ac_array c) (ac_schema c)) (\<lambda>view. Inr (names, view)))) of
        Inl e \<Rightarrow> (Inl e, h)
      | Inr (names, view) \<Rightarrow>
          let h1 = consume i c h
          in case filled view of
            Inl e \<Rightarrow> (Inl (Some e), release_array (ac_array c) h1)
          | Inr types \<Rightarrow>
              (case column_crs json types (ac_schema c) of
                 Inl e \<Rightarrow> (Inl e, release_array (ac_array c) h1)
               | Inr _ \<Rightarrow> (Inr names, h1\<lparr>ah_data := ah_data h1 @ [Some (ac_array c)]\<rparr>)))"

definition dataChunkFromArrow ::
    "json_reader \<Rightarrow> (throwable, unit) result \<Rightarrow> (arrow_array \<Rightarrow> (throwable, ltype list) result) \<Rightarrow> thread \<Rightarrow> conn option \<Rightarrow> nat
      \<Rightarrow> arrow_heap \<Rightarrow> string list native \<times> arrow_heap" where
  "dataChunkFromArrow json schema_ok filled th c i h =
     (case duckdb_connection_guard c of
        Inl e \<Rightarrow> (Inl (Some e), h)
      | Inr _ \<Rightarrow>
          (case chunk_at h i of
             Inl e \<Rightarrow> (Inl e, h)
           | Inr ch \<Rightarrow>
               (case duckdb_conn_enter th (the c) of
                  Inl e \<Rightarrow> (Inl (Some e), h)
                | Inr _ \<Rightarrow> duckdb_import_arrow_chunk json schema_ok filled i ch h)))"

text \<open>\<open>~arrow_chunk_data\<close> of an \<open>ArrowChunk\<close> object, and of the owner in a data chunk.\<close>

definition drop_chunk :: "nat \<Rightarrow> arrow_heap \<Rightarrow> arrow_heap" where
  "drop_chunk i h =
     (case chunk_at h i of
        Inl _ \<Rightarrow> h
      | Inr c \<Rightarrow> release_array (ac_array c) (h\<lparr>ah_chunks := (ah_chunks h)[i := None]\<rparr>))"

definition drop_data :: "nat \<Rightarrow> arrow_heap \<Rightarrow> arrow_heap" where
  "drop_data j h =
     (if j < length (ah_data h)
      then case ah_data h ! j of
          None \<Rightarrow> h
        | Some a \<Rightarrow> release_array a (h\<lparr>ah_data := (ah_data h)[j := None]\<rparr>)
      else h)"

section \<open>Every release callback runs once\<close>

definition release_of :: "arrow_array \<Rightarrow> nat multiset" where
  "release_of a = (case aa_release a of None \<Rightarrow> {#} | Some r \<Rightarrow> {#r#})"

definition held :: "arrow_heap \<Rightarrow> nat multiset" where
  "held h = sum_list (map (release_of \<circ> snd) (ah_memory h))
     + sum_list (map (\<lambda>c. case c of None \<Rightarrow> {#} | Some c \<Rightarrow> release_of (ac_array c)) (ah_chunks h))
     + sum_list (map (\<lambda>a. case a of None \<Rightarrow> {#} | Some a \<Rightarrow> release_of a) (ah_data h))"

definition callbacks :: "arrow_heap \<Rightarrow> nat multiset" where
  "callbacks h = held h + mset (ah_released h)"

text \<open>Calls of PHP and the destruction of objects, in any order; the arguments are those of the methods.\<close>

datatype arrow_op =
    A_import "arrow_schema option" int
  | A_export nat int
  | A_to_data json_reader "(throwable, unit) result" "arrow_array \<Rightarrow> (throwable, ltype list) result" thread "conn option" nat
  | A_drop_chunk nat
  | A_drop_data nat

fun arrow_step :: "arrow_op \<Rightarrow> arrow_heap \<Rightarrow> arrow_heap" where
  "arrow_step (A_import schema address) h = snd (chunk_importFromC schema address h)"
| "arrow_step (A_export i address) h = snd (chunk_exportToC i address h)"
| "arrow_step (A_to_data json schema_ok filled th c i) h = snd (dataChunkFromArrow json schema_ok filled th c i h)"
| "arrow_step (A_drop_chunk i) h = drop_chunk i h"
| "arrow_step (A_drop_data j) h = drop_data j h"

lemma sum_list_update_mset:
  "i < length xs \<Longrightarrow> sum_list (map f (xs[i := y])) + f (xs ! i) = sum_list (map f xs) + (f y :: 'b multiset)"
proof (induction xs arbitrary: i)
  case (Cons x xs)
  then show ?case by (cases i) (auto simp: ac_simps)
qed simp

lemma sum_list_struct:
  assumes "distinct (map fst m)" "map_of m k = Some a"
  shows "sum_list (map (f \<circ> snd) (map (\<lambda>(j, x). if j = k then (j, b) else (j, x)) m)) + f a = sum_list (map (f \<circ> snd) m) + (f b :: 'b multiset)"
  using assms
proof (induction m)
  case (Cons p m)
  obtain j x where p: "p = (j, x)" by (rule prod.exhaust)
  show ?case
  proof (cases "j = k")
    case True
    then have "map (\<lambda>(j, x). if j = k then (j, b) else (j, x)) m = m"
      using Cons.prems(1) p by (intro map_idI) force
    then show ?thesis using Cons.prems(2) p True by (simp add: ac_simps)
  next
    case False
    then show ?thesis using Cons p by (simp add: ac_simps)
  qed
qed simp

lemma release_of_set [simp]: "release_of (set_release r a) = (case r of None \<Rightarrow> {#} | Some k \<Rightarrow> {#k#})"
  by (simp add: release_of_def set_release_def)

lemma keys_set_struct [simp]: "map fst (ah_memory (set_struct k a h)) = map fst (ah_memory h)"
  by (induction "ah_memory h") (auto simp: set_struct_def)

lemma held_set_struct:
  assumes "distinct (map fst (ah_memory h))" "map_of (ah_memory h) k = Some a"
  shows "held (set_struct k b h) + release_of a = held h + release_of b"
  using sum_list_struct [OF assms, of release_of b] by (simp add: held_def set_struct_def ac_simps)

lemma chunk_at_Inr: "chunk_at h i = Inr c \<longleftrightarrow> i < length (ah_chunks h) \<and> ah_chunks h ! i = Some c"
  by (auto simp: chunk_at_def)

lemma held_chunk:
  assumes "chunk_at h i = Inr c"
  shows "held (h\<lparr>ah_chunks := (ah_chunks h)[i := x]\<rparr>) + release_of (ac_array c) =
    held h + (case x of None \<Rightarrow> {#} | Some c \<Rightarrow> release_of (ac_array c))"
  using assms sum_list_update_mset [of i "ah_chunks h" "\<lambda>c. case c of None \<Rightarrow> {#} | Some c \<Rightarrow> release_of (ac_array c)" x]
  by (simp add: chunk_at_Inr held_def ac_simps)

lemma held_consume: "chunk_at h i = Inr c \<Longrightarrow> held (consume i c h) + release_of (ac_array c) = held h"
  using held_chunk [of h i c "Some (c\<lparr>ac_array := set_release None (ac_array c)\<rparr>)"] by (simp add: consume_def)

lemma callbacks_release: "callbacks (release_array a h) = callbacks h + release_of a"
  by (auto simp: callbacks_def held_def release_array_def release_of_def ac_simps split: option.split)

lemma fields_other [simp]:
  "ah_released (set_struct k a h) = ah_released h" "ah_chunks (set_struct k a h) = ah_chunks h"
  "ah_released (consume i c h) = ah_released h" "ah_memory (consume i c h) = ah_memory h"
  "ah_memory (release_array a h) = ah_memory h"
  by (simp_all add: set_struct_def consume_def release_array_def split: option.split)

lemma chunk_at_set_struct [simp]: "chunk_at (set_struct k a h) i = chunk_at h i"
  by (simp add: chunk_at_def)

lemma import_keeps:
  assumes "distinct (map fst (ah_memory h))"
  shows "callbacks (snd (chunk_importFromC schema address h)) = callbacks h
    \<and> map fst (ah_memory (snd (chunk_importFromC schema address h))) = map fst (ah_memory h)"
proof (cases "fst (chunk_importFromC schema address h)")
  case (Inl e)
  then show ?thesis by (auto simp: chunk_importFromC_def Let_def split: sum.splits prod.splits)
next
  case (Inr u)
  then obtain s a where a: "map_of (ah_memory h) address = Some a"
    and h': "snd (chunk_importFromC schema address h) =
      (set_struct address (set_release None a) h)\<lparr>ah_chunks := ah_chunks h @ [Some \<lparr>ac_schema = s, ac_array = a, ac_rows = nat (aa_length a)\<rparr>]\<rparr>"
    by (auto simp: chunk_importFromC_def Let_def rbind_eq_Inr split: sum.splits prod.splits if_splits option.splits)
  have "held (set_struct address (set_release None a) h) + release_of a = held h"
    using held_set_struct [OF assms a, of "set_release None a"] by simp
  then show ?thesis unfolding h' by (simp add: callbacks_def held_def ac_simps)
qed

lemma export_keeps:
  assumes "distinct (map fst (ah_memory h))"
  shows "callbacks (snd (chunk_exportToC i address h)) = callbacks h
    \<and> map fst (ah_memory (snd (chunk_exportToC i address h))) = map fst (ah_memory h)"
proof (cases "fst (chunk_exportToC i address h)")
  case (Inl e)
  then show ?thesis by (auto simp: chunk_exportToC_def split: sum.splits)
next
  case (Inr u)
  then obtain c a where c: "chunk_at h i = Inr c" and a: "map_of (ah_memory h) address = Some a" "aa_release a = None"
    and h': "snd (chunk_exportToC i address h) = consume i c (set_struct address (ac_array c) h)"
    by (auto simp: chunk_exportToC_def rbind_eq_Inr split: sum.splits if_splits option.splits)
  have "held (set_struct address (ac_array c) h) = held h + release_of (ac_array c)"
    using held_set_struct [OF assms a(1), of "ac_array c"] a(2) by (simp add: release_of_def)
  moreover have "held (consume i c (set_struct address (ac_array c) h)) + release_of (ac_array c) = held (set_struct address (ac_array c) h)"
    using c by (intro held_consume) simp
  ultimately show ?thesis unfolding h' by (simp add: callbacks_def)
qed

lemma to_data_keeps:
  "callbacks (snd (dataChunkFromArrow json schema_ok filled th c i h)) = callbacks h
    \<and> ah_memory (snd (dataChunkFromArrow json schema_ok filled th c i h)) = ah_memory h"
proof -
  have "callbacks (snd (duckdb_import_arrow_chunk json schema_ok filled i ch h)) = callbacks h
    \<and> ah_memory (snd (duckdb_import_arrow_chunk json schema_ok filled i ch h)) = ah_memory h" if ch: "chunk_at h i = Inr ch" for ch
  proof -
    let ?h = "snd (duckdb_import_arrow_chunk json schema_ok filled i ch h)"
    have "?h = h \<or> ?h = release_array (ac_array ch) (consume i ch h)
      \<or> ?h = (consume i ch h)\<lparr>ah_data := ah_data (consume i ch h) @ [Some (ac_array ch)]\<rparr>"
      by (auto simp: duckdb_import_arrow_chunk_def Let_def split: sum.splits prod.splits if_splits)
    moreover have "callbacks (consume i ch h) + release_of (ac_array ch) = callbacks h"
      using held_consume [OF ch] by (simp add: callbacks_def ac_simps)
    moreover have "callbacks ((consume i ch h)\<lparr>ah_data := ah_data (consume i ch h) @ [Some (ac_array ch)]\<rparr>) =
      callbacks (consume i ch h) + release_of (ac_array ch)" by (simp add: callbacks_def held_def ac_simps)
    ultimately show ?thesis by (elim disjE) (simp_all add: callbacks_release)
  qed
  then show ?thesis by (auto simp: dataChunkFromArrow_def split: sum.split)
qed

lemma drop_keeps:
  "callbacks (drop_chunk i h) = callbacks h \<and> ah_memory (drop_chunk i h) = ah_memory h"
  "callbacks (drop_data j h) = callbacks h \<and> ah_memory (drop_data j h) = ah_memory h"
proof -
  have "callbacks (h\<lparr>ah_chunks := (ah_chunks h)[i := None]\<rparr>) + release_of (ac_array c) = callbacks h" if "chunk_at h i = Inr c" for c
    using held_chunk [OF that, of None] by (simp add: callbacks_def ac_simps)
  then show "callbacks (drop_chunk i h) = callbacks h \<and> ah_memory (drop_chunk i h) = ah_memory h"
    by (auto simp: drop_chunk_def callbacks_release split: sum.split)
  have "callbacks (h\<lparr>ah_data := (ah_data h)[j := None]\<rparr>) + release_of a = callbacks h" if "j < length (ah_data h)" "ah_data h ! j = Some a" for a
    using sum_list_update_mset [OF that(1), of "\<lambda>a. case a of None \<Rightarrow> {#} | Some a \<Rightarrow> release_of a" None] that(2)
    by (simp add: callbacks_def held_def ac_simps)
  then show "callbacks (drop_data j h) = callbacks h \<and> ah_memory (drop_data j h) = ah_memory h"
    by (auto simp: drop_data_def callbacks_release split: option.split)
qed

lemma arrow_step_keeps:
  "distinct (map fst (ah_memory h)) \<Longrightarrow> callbacks (arrow_step op h) = callbacks h
     \<and> map fst (ah_memory (arrow_step op h)) = map fst (ah_memory h)"
  using import_keeps [of h] export_keeps [of h] to_data_keeps drop_keeps by (cases op) auto

lemma arrow_steps_keep:
  "distinct (map fst (ah_memory h)) \<Longrightarrow> callbacks (fold arrow_step ops h) = callbacks h"
proof (induction ops arbitrary: h)
  case (Cons op ops)
  then show ?case using arrow_step_keeps [OF Cons.prems, of op] by (metis fold_simps(2))
qed simp

text \<open>
  C12. The release callback of an array runs exactly once, when its last holder goes. Whatever imports, exports, conversions
  to data chunks, successful or failing at any point, and destructions of objects follow one another, a callback that had one
  holder has one holder still, a C structure, an \<open>ArrowChunk\<close> or a data chunk, or it has run, once; never both.
\<close>

theorem release_callbacks_run_once:
  assumes "distinct (map fst (ah_memory h))" "count (callbacks h) r = 1"
  shows "count_list (ah_released (fold arrow_step ops h)) r + count (held (fold arrow_step ops h)) r = 1"
proof -
  have "count (callbacks (fold arrow_step ops h)) r = 1" using arrow_steps_keep [OF assms(1)] assms(2) by simp
  then show ?thesis by (simp add: callbacks_def count_mset add.commute)
qed

text \<open>A batch imported, exported to a second address and imported again from there; the first chunk object is destroyed.\<close>

definition sample_batch :: "nat option \<Rightarrow> arrow_array" where
  "sample_batch r = Arrow_array 2 0 1 1 1 (Some [None])
     (Some [Some (Arrow_array 3 0 1 2 0 (Some [None, Some [1, 2, 3, 4]]) None None (Some 7))]) None r"

definition sample_heap :: arrow_heap where
  "sample_heap = \<lparr>ah_memory = [(8, sample_batch (Some 7)), (16, sample_batch None)], ah_chunks = [], ah_data = [], ah_released = []\<rparr>"

lemma release_callbacks_run_once_witness:
  "count_list (ah_released (fold arrow_step
       [A_import (Some sliced_schema) 8, A_export 0 16, A_drop_chunk 0, A_import (Some sliced_schema) 16] sample_heap)) 7
   + count (held (fold arrow_step
       [A_import (Some sliced_schema) 8, A_export 0 16, A_drop_chunk 0, A_import (Some sliced_schema) 16] sample_heap)) 7 = 1"
  by (rule release_callbacks_run_once)
     (simp_all add: sample_heap_def callbacks_def held_def release_of_def sample_batch_def)

end
