(* ===== verification/Data_Chunk.thy ===== *)
theory Data_Chunk
  imports Vectors
begin

text \<open>
  \<open>DuckDB\DataChunk\<close>, \<open>src/src/data_chunk.cpp\<close>: the snapshot \<open>fromVectors\<close> takes of a set of vectors, row
  selections, columns as vectors, and batches that expire when their callback returns. Native vectors live in the
  store of \<open>Selection\<close>; a chunk names the vectors of its columns. \<open>toRows\<close> is in \<open>Fetch\<close>.
\<close>

section \<open>Chunks\<close>

record data_chunk =
  dc_names :: "string list"
  dc_vectors :: "(nat \<times> ltype) list"
  dc_size :: nat
  dc_expired :: bool

text \<open>\<open>None\<close> is an object whose constructor was bypassed.\<close>

definition duckdb_data_chunk_from_zval :: "data_chunk option \<Rightarrow> (throwable, data_chunk) result" where
  "duckdb_data_chunk_from_zval intern =
     (case intern of
        None \<Rightarrow> Inl (not_initialized ''DataChunk'')
      | Some c \<Rightarrow>
          if dc_expired c
          then Inl (PhpError (''This callback batch is only valid during CopyToWriter::write() or ScalarExecutor::execute(); '' @
                 ''keep a copy with select() or vector()''))
          else Inr c)"

text \<open>
  \<open>duckdb_create_data_chunk\<close>: the engine's new vectors, one per type, each with room for \<open>vsize\<close> rows.
\<close>

type_synonym 'c chunk_creator = "ltype list \<Rightarrow> 'c store \<Rightarrow> (nat list \<times> 'c store) option"

definition chunk_creator_ok :: "nat \<Rightarrow> nat set \<Rightarrow> 'c chunk_creator \<Rightarrow> bool" where
  "chunk_creator_ok vsize used create_chunk \<longleftrightarrow>
     (\<forall>ts st vs st'. create_chunk ts st = Some (vs, st') \<longrightarrow>
        length vs = length ts \<and> distinct vs \<and> set vs \<inter> used = {} \<and> (\<forall>v \<in> set vs. length (st' v) = vsize)
        \<and> (\<forall>h. h \<notin> set vs \<longrightarrow> st' h = st h))"

definition no_chunk :: throwable where
  "no_chunk = duckdb_throw_msg (Some ''DuckDB could not allocate the data chunk'')"

section \<open>Building chunks\<close>

text \<open>A column argument after dereferencing: a \<open>Vector\<close> object, initialized or not, or anything else.\<close>

datatype column_arg = CA_vector "vector_data option" | CA_other

text \<open>\<open>%s\<close> prints a name up to its first NUL.\<close>

definition too_small :: "int \<Rightarrow> string \<Rightarrow> nat \<Rightarrow> throwable" where
  "too_small row_count name room =
     ArgValueError 1 (''must contain vectors with a capacity of at least '' @ dec_int row_count @ '', column '' @ [CHR 0x22]
       @ takeWhile (\<lambda>c. c \<noteq> CHR 0x00) name @ [CHR 0x22] @ '' has '' @ dec_string room)"

fun check_columns :: "int \<Rightarrow> (php_key \<times> column_arg) list \<Rightarrow> (throwable, (string \<times> vector_data) list) result" where
  "check_columns n [] = Inr []"
| "check_columns n ((K_int i, a) # cs) = Inl (ArgValueError 1 ''must use column names as keys'')"
| "check_columns n ((K_str name, a) # cs) =
     (case a of
        CA_other \<Rightarrow> Inl (ArgTypeError 1 (''must contain only DuckDB'' @ [CHR 0x5C] @ ''Vector values''))
      | CA_vector None \<Rightarrow> Inl (not_initialized ''Vector'')
      | CA_vector (Some v) \<Rightarrow>
          if vd_capacity v < nat n then Inl (too_small n name (vd_capacity v))
          else rbind (check_columns n cs) (\<lambda>r. Inr ((name, v) # r)))"

definition fromVectors ::
    "nat \<Rightarrow> 'c copier \<Rightarrow> 'c chunk_creator \<Rightarrow> (php_key \<times> column_arg) list \<Rightarrow> int \<Rightarrow> 'c store
      \<Rightarrow> (throwable, data_chunk) result \<times> 'c store" where
  "fromVectors vsize copy_sel create_chunk columns row_count st =
     (if columns = [] then (Inl (ArgValueError 1 ''must contain at least one vector''), st)
      else if row_count < 0 \<or> nat row_count > vsize
      then (Inl (ArgValueError 2 (''must be between 0 and '' @ dec_string vsize)), st)
      else case check_columns row_count columns of
        Inl err \<Rightarrow> (Inl err, st)
      | Inr cols \<Rightarrow>
          (case create_chunk (map (vd_type \<circ> snd) cols) st of
             None \<Rightarrow> (Inl no_chunk, st)
           | Some (vs, st1) \<Rightarrow>
               (Inr \<lparr>dc_names = map fst cols, dc_vectors = zip vs (map (vd_type \<circ> snd) cols),
                     dc_size = nat row_count, dc_expired = False\<rparr>,
                fold (\<lambda>(src, tgt). copy_rows copy_sel src tgt 0 (nat row_count) 0) (zip (map (vd_vector \<circ> snd) cols) vs) st1)))"

text \<open>Gathering every column; the first failure ends the loop.\<close>

fun gather_columns ::
    "'c copier \<Rightarrow> 'c creator \<Rightarrow> nat \<Rightarrow> selection_data \<Rightarrow> (nat \<times> nat) list \<Rightarrow> 'c store
      \<Rightarrow> (throwable, unit) result \<times> 'c store" where
  "gather_columns copy_sel create_vector staged s [] st = (Inr (), st)"
| "gather_columns copy_sel create_vector staged s ((src, tgt) # ps) st =
     (case duckdb_selection_gather copy_sel create_vector staged src tgt s 0 st of
        (Inl err, st') \<Rightarrow> (Inl err, st')
      | (Inr _, st') \<Rightarrow> gather_columns copy_sel create_vector staged s ps st')"

definition chunk_select ::
    "nat \<Rightarrow> 'c copier \<Rightarrow> 'c creator \<Rightarrow> 'c chunk_creator \<Rightarrow> nat \<Rightarrow> (throwable, selection_data) result
      \<Rightarrow> data_chunk option \<Rightarrow> 'c store \<Rightarrow> (throwable, data_chunk) result \<times> 'c store" where
  "chunk_select vsize copy_sel create_vector create_chunk staged sel intern st =
     (case rbind (duckdb_data_chunk_from_zval intern) (\<lambda>src. rbind sel (\<lambda>s.
             rbind (guard (sel_count s \<le> vsize) (ArgValueError 1 (''must contain at most '' @ dec_string vsize @ '' indices''))) (\<lambda>_.
             rbind (duckdb_selection_check_source s (dc_size src) 1) (\<lambda>_. Inr (src, s))))) of
        Inl err \<Rightarrow> (Inl err, st)
      | Inr (src, s) \<Rightarrow>
          (case create_chunk (map snd (dc_vectors src)) st of
             None \<Rightarrow> (Inl no_chunk, st)
           | Some (vs, st1) \<Rightarrow>
               (case gather_columns copy_sel create_vector staged s (zip (map fst (dc_vectors src)) vs) st1 of
                  (Inl err, st2) \<Rightarrow> (Inl err, st2)
                | (Inr _, st2) \<Rightarrow>
                    (Inr \<lparr>dc_names = dc_names src, dc_vectors = zip vs (map snd (dc_vectors src)),
                          dc_size = sel_count s, dc_expired = False\<rparr>, st2))))"

section \<open>Reading chunks\<close>

definition chunk_vector ::
    "'c copier \<Rightarrow> 'c creator \<Rightarrow> nat \<Rightarrow> data_chunk option \<Rightarrow> int \<Rightarrow> 'c store \<Rightarrow> (throwable, vector_data) result \<times> 'c store" where
  "chunk_vector copy_sel create_vector fresh intern index st =
     (case rbind (duckdb_data_chunk_from_zval intern) (\<lambda>c.
             rbind (guard (0 \<le> index \<and> nat index < length (dc_names c))
                     (ArgValueError 1 (''must be between 0 and '' @ dec_int (int (length (dc_names c)) - 1)))) (\<lambda>_. Inr c)) of
        Inl err \<Rightarrow> (Inl err, st)
      | Inr c \<Rightarrow>
          (case duckdb_vector_allocate create_vector fresh (snd (dc_vectors c ! nat index)) (dc_size c) st of
             Inl err \<Rightarrow> (Inl err, st)
           | Inr (d, st1) \<Rightarrow> (Inr d, copy_rows copy_sel (fst (dc_vectors c ! nat index)) (vd_vector d) 0 (dc_size c) 0 st1)))"

definition chunk_rowCount :: "data_chunk option \<Rightarrow> (throwable, int) result" where
  "chunk_rowCount intern = rbind (duckdb_data_chunk_from_zval intern) (\<lambda>c. Inr (int (dc_size c)))"

definition chunk_columnCount :: "data_chunk option \<Rightarrow> (throwable, int) result" where
  "chunk_columnCount intern = rbind (duckdb_data_chunk_from_zval intern) (\<lambda>c. Inr (int (length (dc_names c))))"

definition chunk_columns :: "data_chunk option \<Rightarrow> (throwable, (string \<times> string) list) result" where
  "chunk_columns intern =
     rbind (duckdb_data_chunk_from_zval intern) (\<lambda>c.
       Inr (zip (dc_names c) (map (duckdb_logical_type_render \<circ> snd) (dc_vectors c))))"

section \<open>Copying columns\<close>

text \<open>
  A chunk whose vectors hold its rows. There may be any number of them: a chunk imported from an Arrow batch can be larger than
  one vector of the engine.
\<close>

definition chunk_ok :: "data_chunk \<Rightarrow> 'c store \<Rightarrow> bool" where
  "chunk_ok c st \<longleftrightarrow> length (dc_names c) = length (dc_vectors c) \<and> (\<forall>v \<in> set (map fst (dc_vectors c)). dc_size c \<le> length (st v))"

definition column_cells :: "data_chunk \<Rightarrow> 'c store \<Rightarrow> 'c rows list" where
  "column_cells c st = map (\<lambda>v. take (dc_size c) (st v)) (map fst (dc_vectors c))"

text \<open>Writing into new vectors one after another, each from a vector that is not new.\<close>

lemma fold_into_new:
  assumes "\<And>src tgt st. (src, tgt) \<in> set ps \<Longrightarrow> ok st src tgt \<Longrightarrow> f src tgt st = st(tgt := g (st src) (st tgt))"
    "\<And>src tgt st st'. ok st src tgt \<Longrightarrow> st' src = st src \<Longrightarrow> st' tgt = st tgt \<Longrightarrow> ok st' src tgt"
    "distinct (map snd ps)" "set (map fst ps) \<inter> set (map snd ps) = {}" "\<forall>(src, tgt) \<in> set ps. ok st src tgt"
  shows "(\<forall>(src, tgt) \<in> set ps. fold (\<lambda>(src, tgt). f src tgt) ps st tgt = g (st src) (st tgt))
    \<and> (\<forall>h. h \<notin> set (map snd ps) \<longrightarrow> fold (\<lambda>(src, tgt). f src tgt) ps st h = st h)"
  using assms
proof (induction ps arbitrary: st)
  case (Cons p ps)
  obtain src tgt where p: "p = (src, tgt)" by (rule prod.exhaust)
  let ?st = "st(tgt := g (st src) (st tgt))"
  have "ok st src tgt" using Cons.prems(5) p by simp
  then have step: "f src tgt st = ?st" by (intro Cons.prems(1)) (simp add: p)
  have new: "tgt \<notin> set (map snd ps)" "tgt \<notin> set (map fst ps)" using Cons.prems(3,4) p by auto
  have ok: "\<forall>(src, tgt) \<in> set ps. ok ?st src tgt"
  proof
    fix q assume q: "q \<in> set ps"
    obtain s t where st: "q = (s, t)" by (rule prod.exhaust)
    have "s \<noteq> tgt" "t \<noteq> tgt" using new q st by force+
    then have "?st s = st s" "?st t = st t" by simp_all
    moreover have "ok st s t" using Cons.prems(5) q st by auto
    ultimately have "ok ?st s t" using Cons.prems(2) [of st s t ?st] by blast
    then show "case q of (s, t) \<Rightarrow> ok ?st s t" unfolding st prod.case .
  qed
  have dis: "distinct (map snd ps)" "set (map fst ps) \<inter> set (map snd ps) = {}" using Cons.prems(3,4) by auto
  have IH: "(\<forall>(src, tgt) \<in> set ps. fold (\<lambda>(src, tgt). f src tgt) ps ?st tgt = g (?st src) (?st tgt))
    \<and> (\<forall>h. h \<notin> set (map snd ps) \<longrightarrow> fold (\<lambda>(src, tgt). f src tgt) ps ?st h = ?st h)"
  proof (rule Cons.IH [OF _ _ dis ok])
    show "f a b u = u(b := g (u a) (u b))" if "(a, b) \<in> set ps" "ok u a b" for a b u
      by (rule Cons.prems(1) [OF list.set_intros(2) [OF that(1)] that(2)])
    show "ok w a b" if "ok u a b" "w a = u a" "w b = u b" for a b u w
      by (rule Cons.prems(2) [OF that])
  qed
  have same: "?st s = st s \<and> ?st t = st t" if "(s, t) \<in> set ps" for s t using new that by force
  have F: "fold (\<lambda>(src, tgt). f src tgt) (p # ps) st = fold (\<lambda>(src, tgt). f src tgt) ps ?st" using step p by simp
  have "fold (\<lambda>(src, tgt). f src tgt) ps ?st b = g (st a) (st b)" if mem: "(a, b) \<in> set (p # ps)" for a b
  proof (cases "(a, b) \<in> set ps")
    case True
    then show ?thesis using IH same [OF True] by fastforce
  next
    case False
    then have "a = src" "b = tgt" using mem p by auto
    then show ?thesis using IH new(1) by simp
  qed
  moreover have "fold (\<lambda>(src, tgt). f src tgt) ps ?st h = st h" if "h \<notin> set (map snd (p # ps))" for h
    using IH that p by simp
  ultimately show ?case unfolding F by blast
qed simp

lemma place_whole: "length new \<le> n \<Longrightarrow> length old = n \<Longrightarrow> take (length new) (place 0 new old) = new"
  by (simp add: place_def)

lemma check_columns_Inr:
  "check_columns n columns = Inr cols \<Longrightarrow>
     columns = map (\<lambda>(name, v). (K_str name, CA_vector (Some v))) cols \<and> (\<forall>(name, v) \<in> set cols. nat n \<le> vd_capacity v)"
proof (induction columns arbitrary: cols)
  case (Cons p cs)
  obtain k a where p: "p = (k, a)" by (rule prod.exhaust)
  then obtain name where k: "k = K_str name" using Cons.prems by (cases k) auto
  obtain v where v: "a = CA_vector (Some v)" using Cons.prems p k by (auto split: column_arg.splits option.splits)
  then have "nat n \<le> vd_capacity v" "\<exists>r. check_columns n cs = Inr r \<and> cols = (name, v) # r"
    using Cons.prems p k by (auto simp: rbind_eq_Inr split: if_splits)
  then show ?case using Cons.IH p k v by auto
qed simp

lemma gather_columns_fold:
  assumes "\<forall>(src, tgt) \<in> set ps. src \<noteq> tgt"
  shows "gather_columns copy_sel create_vector staged s ps st =
    (Inr (), fold (\<lambda>(src, tgt) st. if sel_count s = 0 then st else copy_sel src tgt (selection s) (sel_count s) 0 0 st) ps st)"
  using assms
proof (induction ps arbitrary: st)
  case (Cons p ps)
  then show ?case by (cases p) (simp add: duckdb_selection_gather_def)
qed simp

text \<open>What the copies leave behind when all targets are new.\<close>

lemma copy_into_new:
  assumes "copier_ok copy_sel" "n \<le> vsize" "length vs = length srcs" "distinct vs" "set vs \<inter> used = {}" "set srcs \<subseteq> used"
    "\<forall>v \<in> set vs. length (st1 v) = vsize" "\<forall>v \<in> set srcs. n \<le> length (st1 v) \<and> length (st1 v) < 2 ^ 32"
    "st' = fold (\<lambda>(src, tgt). copy_rows copy_sel src tgt 0 n 0) (zip srcs vs) st1"
  shows "i < length vs \<Longrightarrow> take n (st' (vs ! i)) = take n (st1 (srcs ! i))" "h \<notin> set vs \<Longrightarrow> st' h = st1 h"
proof -
  let ?ps = "zip srcs vs"
  let ?ok = "\<lambda>st src tgt. src \<noteq> tgt \<and> n \<le> length (st src) \<and> length (st src) < 2 ^ 32 \<and> length (st tgt) = vsize"
  have copied: "(\<forall>(src, tgt) \<in> set ?ps. fold (\<lambda>(src, tgt). copy_rows copy_sel src tgt 0 n 0) ?ps st1 tgt = place 0 (take n (st1 src)) (st1 tgt))
    \<and> (\<forall>h. h \<notin> set (map snd ?ps) \<longrightarrow> fold (\<lambda>(src, tgt). copy_rows copy_sel src tgt 0 n 0) ?ps st1 h = st1 h)"
  proof (rule fold_into_new [where ok = ?ok])
    show "copy_rows copy_sel src tgt 0 n 0 st = st(tgt := place 0 (take n (st src)) (st tgt))" if "?ok st src tgt" for src tgt st
      using copy_rows_correct [OF assms(1), of src tgt 0 n st 0] that assms(2) by simp
    show "\<forall>(src, tgt) \<in> set ?ps. ?ok st1 src tgt"
    proof clarify
      fix src tgt assume mem: "(src, tgt) \<in> set ?ps"
      then have "src \<in> set srcs" "tgt \<in> set vs" by (auto dest: set_zip_leftD set_zip_rightD)
      then show "?ok st1 src tgt" using assms(5-8) by blast
    qed
  qed (use assms(3-6) in auto)
  then show "st' h = st1 h" if "h \<notin> set vs" using that assms(3,9) by simp
  show "take n (st' (vs ! i)) = take n (st1 (srcs ! i))" if "i < length vs"
  proof -
    have "(srcs ! i, vs ! i) \<in> set ?ps" using that assms(3) by (force simp: set_zip)
    then have "st' (vs ! i) = place 0 (take n (st1 (srcs ! i))) (st1 (vs ! i))" using copied assms(9) by auto
    then show ?thesis
      using place_whole [of "take n (st1 (srcs ! i))" vsize "st1 (vs ! i)"] that assms(2,3,7,8) by (auto simp: min_absorb2)
  qed
qed

lemma gather_into_new:
  assumes "copier_ok copy_sel" "length (selection s) = sel_count s" "sel_count s \<le> vsize"
    "\<And>x. x \<in> set (selection s) \<Longrightarrow> unat x < rows"
    "length vs = length srcs" "distinct vs" "set vs \<inter> used = {}" "set srcs \<subseteq> used" "\<forall>v \<in> set vs. length (st1 v) = vsize"
    "\<forall>v \<in> set srcs. rows \<le> length (st1 v)"
    "gather_columns copy_sel create_vector staged s (zip srcs vs) st1 = (Inr (), st')"
  shows "i < length vs \<Longrightarrow> take (sel_count s) (st' (vs ! i)) = map (\<lambda>x. st1 (srcs ! i) ! unat x) (selection s)"
    "h \<notin> set vs \<Longrightarrow> st' h = st1 h"
proof -
  let ?k = "sel_count s" and ?ps = "zip srcs vs"
  let ?f = "\<lambda>src tgt st. if ?k = 0 then st else copy_sel src tgt (selection s) ?k 0 0 st"
  let ?g = "\<lambda>a b. place 0 (map (\<lambda>x. a ! unat x) (selection s)) b"
  let ?ok = "\<lambda>st a b. a \<noteq> b \<and> rows \<le> length (st a) \<and> length (st b) = vsize"
  have pair: "\<forall>(a, b) \<in> set ?ps. ?ok st1 a b"
  proof clarify
    fix a b assume "(a, b) \<in> set ?ps"
    then have "a \<in> set srcs" "b \<in> set vs" by (auto dest: set_zip_leftD set_zip_rightD)
    then show "?ok st1 a b" using assms(7-10) by blast
  qed
  then have st': "st' = fold (\<lambda>(a, b). ?f a b) ?ps st1" using assms(11) by (subst (asm) gather_columns_fold) auto
  have copied: "(\<forall>(a, b) \<in> set ?ps. fold (\<lambda>(a, b). ?f a b) ?ps st1 b = ?g (st1 a) (st1 b))
    \<and> (\<forall>h. h \<notin> set (map snd ?ps) \<longrightarrow> fold (\<lambda>(a, b). ?f a b) ?ps st1 h = st1 h)"
  proof (rule fold_into_new [where ok = ?ok])
    show "?f a b st = st(b := ?g (st a) (st b))" if "?ok st a b" for a b st
    proof (cases "?k = 0")
      case False
      have "map (\<lambda>i. st a ! unat (selection s ! i)) [0..<?k] = map (\<lambda>x. st a ! unat x) (selection s)"
        using assms(2) by (intro nth_equalityI) auto
      moreover have "unat (selection s ! i) < length (st a)" if "i < ?k" for i
        using assms(4) [of "selection s ! i"] that assms(2) \<open>?ok st a b\<close> by fastforce
      ultimately show ?thesis
        using copier_okD [OF assms(1), of a b 0 ?k "selection s" st 0] \<open>?ok st a b\<close> assms(2,3) False by simp
    qed (use assms(2) in \<open>simp add: place_def\<close>)
  qed (use pair assms(5-8) in auto)
  then show "st' h = st1 h" if "h \<notin> set vs" using that assms(5) st' by simp
  show "take ?k (st' (vs ! i)) = map (\<lambda>x. st1 (srcs ! i) ! unat x) (selection s)" if "i < length vs"
  proof -
    have "(srcs ! i, vs ! i) \<in> set ?ps" using that assms(5) by (force simp: set_zip)
    then have "st' (vs ! i) = ?g (st1 (srcs ! i)) (st1 (vs ! i))" using copied st' by auto
    then show ?thesis
      using place_whole [of "map (\<lambda>x. st1 (srcs ! i) ! unat x) (selection s)" vsize "st1 (vs ! i)"] that assms(2,3,9) by simp
  qed
qed

text \<open>
  C37. A chunk is a snapshot. When \<open>fromVectors\<close> succeeds, the chunk's columns are the first rows of the vectors as they
  were at the call, the vectors are unchanged, and no later write to them, or to anything else that existed before the call,
  changes the chunk.
\<close>

theorem fromVectors_snapshot:
  assumes "copier_ok copy_sel" "chunk_creator_ok vsize used create_chunk" "vsize < 2 ^ 32"
    "\<forall>(k, a) \<in> set columns. case a of CA_vector (Some v) \<Rightarrow> vector_ok v st \<and> vd_vector v \<in> used | _ \<Rightarrow> True"
    "fromVectors vsize copy_sel create_chunk columns row_count st = (Inr c, st')"
  shows "column_cells c st' = map (\<lambda>(k, a). case a of CA_vector (Some v) \<Rightarrow> take (nat row_count) (st (vd_vector v)) | _ \<Rightarrow> []) columns
    \<and> (\<forall>h \<in> used. st' h = st h)
    \<and> (\<forall>later. (\<forall>h. h \<notin> used \<longrightarrow> later h = st' h) \<longrightarrow> column_cells c later = column_cells c st')"
proof -
  let ?n = "nat row_count"
  obtain cols vs st1 where n: "?n \<le> vsize" and cols: "check_columns row_count columns = Inr cols"
    and new: "create_chunk (map (vd_type \<circ> snd) cols) st = Some (vs, st1)"
    and c: "c = \<lparr>dc_names = map fst cols, dc_vectors = zip vs (map (vd_type \<circ> snd) cols), dc_size = ?n, dc_expired = False\<rparr>"
    and st': "st' = fold (\<lambda>(src, tgt). copy_rows copy_sel src tgt 0 ?n 0) (zip (map (vd_vector \<circ> snd) cols) vs) st1"
    using assms(5) by (auto simp: fromVectors_def split: if_splits sum.splits option.splits prod.splits)
  note columns = check_columns_Inr [OF cols]
  have vs: "length vs = length cols" "distinct vs" "set vs \<inter> used = {}" "\<And>v. v \<in> set vs \<Longrightarrow> length (st1 v) = vsize"
    "\<And>h. h \<notin> set vs \<Longrightarrow> st1 h = st h"
    using assms(2) new unfolding chunk_creator_ok_def by force+
  have srcs: "vector_ok v st \<and> vd_vector v \<in> used \<and> ?n \<le> vd_capacity v" if "(name, v) \<in> set cols" for name v
    using assms(4) columns that by (auto simp: split_beta)
  let ?srcs = "map (vd_vector \<circ> snd) cols"
  have old: "h \<in> used \<Longrightarrow> st1 h = st h" for h using vs(3,5) by blast
  have used: "set ?srcs \<subseteq> used" using srcs by auto
  have lengths: "\<forall>v \<in> set ?srcs. ?n \<le> length (st1 v) \<and> length (st1 v) < 2 ^ 32"
  proof
    fix h assume "h \<in> set ?srcs"
    then obtain name v where v: "(name, v) \<in> set cols" "h = vd_vector v" by auto
    then have "vector_ok v st" "h \<in> used" "?n \<le> vd_capacity v" using srcs by blast+
    then show "?n \<le> length (st1 h) \<and> length (st1 h) < 2 ^ 32"
      using vector_ok_less [of v st] old [of h] v(2) by (simp add: vector_ok_def)
  qed
  note copied = copy_into_new [OF assms(1) n _ vs(2,3) used _ lengths st']
  have cell: "take ?n (st' (vs ! i)) = take ?n (st (vd_vector (snd (cols ! i))))" if "i < length cols" for i
    using copied(1) [of i] vs(1,4) old srcs that nth_mem [OF that] by (cases "cols ! i") auto
  have unchanged: "\<forall>h \<in> used. st' h = st h" using copied(2) vs(1,3,4) old by (simp add: disjoint_iff) metis
  have vectors: "map fst (dc_vectors c) = vs" "dc_size c = ?n" using c vs(1) by simp_all
  have "column_cells c st' = map (\<lambda>(name, v). take ?n (st (vd_vector v))) cols"
    unfolding column_cells_def vectors using cell vs(1) by (intro nth_equalityI) (auto simp: split_beta)
  also have "\<dots> = map (\<lambda>(k, a). case a of CA_vector (Some v) \<Rightarrow> take ?n (st (vd_vector v)) | _ \<Rightarrow> []) columns"
    unfolding conjunct1 [OF columns] by (simp add: split_beta comp_def)
  finally have cells: "column_cells c st' = map (\<lambda>(k, a). case a of CA_vector (Some v) \<Rightarrow> take ?n (st (vd_vector v)) | _ \<Rightarrow> []) columns" .
  have "column_cells c later = column_cells c st'" if "\<forall>h. h \<notin> used \<longrightarrow> later h = st' h" for later
    unfolding column_cells_def vectors using that vs(3) by auto
  then show ?thesis using cells unchanged by blast
qed

text \<open>
  C38. \<open>select\<close> gathers the same rows of every column: cell \<open>i\<close> of each column of the new chunk is the cell of the source at
  the \<open>i\<close>-th index, whatever the order and the repetitions, and the source and every other vector stay as they are.
  The source may have more rows than \<open>vsize\<close>, as an imported Arrow batch can.
\<close>

theorem chunk_select_correct:
  assumes "copier_ok copy_sel" "chunk_creator_ok vsize used create_chunk" "chunk_ok src st"
    "set (map fst (dc_vectors src)) \<subseteq> used" "selection_ok s"
    "chunk_select vsize copy_sel create_vector create_chunk staged (Inr s) (Some src) st = (Inr c, st')"
  shows "column_cells c st' = map (\<lambda>col. map (\<lambda>x. col ! unat x) (selection s)) (column_cells src st)
    \<and> dc_names c = dc_names src \<and> dc_size c = length (selection s) \<and> (\<forall>h \<in> used. st' h = st h)"
proof -
  let ?k = "sel_count s"
  have k: "length (selection s) = ?k" using assms(5) by (simp add: selection_ok_def)
  let ?srcs = "map fst (dc_vectors src)"
  obtain vs st1 where small: "?k \<le> vsize" and check: "duckdb_selection_check_source s (dc_size src) 1 = Inr ()"
    and new: "create_chunk (map snd (dc_vectors src)) st = Some (vs, st1)"
    and gather: "gather_columns copy_sel create_vector staged s (zip ?srcs vs) st1 = (Inr (), st')"
    and c: "c = \<lparr>dc_names = dc_names src, dc_vectors = zip vs (map snd (dc_vectors src)), dc_size = ?k, dc_expired = False\<rparr>"
    using assms(6) by (auto simp: chunk_select_def duckdb_data_chunk_from_zval_def rbind_eq_Inr rbind_eq_Inl guard_def
        split: if_splits sum.splits option.splits prod.splits)
  have vs: "length vs = length ?srcs" "distinct vs" "set vs \<inter> used = {}" "\<And>v. v \<in> set vs \<Longrightarrow> length (st1 v) = vsize"
    "\<And>h. h \<notin> set vs \<Longrightarrow> st1 h = st h"
    using assms(2) new unfolding chunk_creator_ok_def by force+
  have bound: "unat x < dc_size src" if "x \<in> set (selection s)" for x
    using selection_bound [OF assms(5), THEN iffD1, OF check] that by blast
  have old: "h \<in> used \<Longrightarrow> st1 h = st h" for h using vs(3,5) by blast
  then have "\<forall>v \<in> set ?srcs. st1 v = st v" using assms(4) by blast
  then have lengths: "\<forall>v \<in> set ?srcs. dc_size src \<le> length (st1 v)" using assms(3) by (auto simp: chunk_ok_def)
  note gathered = gather_into_new [OF assms(1) k small bound _ vs(2,3) assms(4) _ lengths gather]
  have cell: "take ?k (st' (vs ! i)) = map (\<lambda>x. take (dc_size src) (st (?srcs ! i)) ! unat x) (selection s)" if "i < length vs" for i
  proof -
    have "?srcs ! i \<in> used" using vs(1) assms(4) that nth_mem [of i ?srcs] by auto
    then have "st1 (?srcs ! i) = st (?srcs ! i)" by (rule old)
    then show ?thesis using gathered(1) [of i] vs(1,4) bound that by simp
  qed
  have vectors: "map fst (dc_vectors c) = vs" "dc_size c = ?k" using c vs(1) by simp_all
  have "column_cells c st' = map (\<lambda>col. map (\<lambda>x. col ! unat x) (selection s)) (column_cells src st)"
    unfolding column_cells_def vectors using cell vs(1) by (intro nth_equalityI) auto
  moreover have "\<forall>h \<in> used. st' h = st h" using gathered(2) vs(1,3,4) old by (simp add: disjoint_iff) metis
  ultimately show ?thesis using c k by simp
qed

section \<open>Examples\<close>

text \<open>An engine whose new vectors are numbered from 100 and hold four rows.\<close>

definition sample_chunk_creator :: "'c chunk_creator" where
  "sample_chunk_creator ts st =
     Some ([100..<100 + length ts], \<lambda>h. if 100 \<le> h \<and> h < 100 + length ts then replicate 4 None else st h)"

lemma sample_chunk_creator_ok: "chunk_creator_ok 4 {..<100} sample_chunk_creator"
  by (auto simp: chunk_creator_ok_def sample_chunk_creator_def)

definition sample_column :: vector_data where
  "sample_column = \<lparr>vd_vector = 1, vd_type = LT_prim T_INTEGER None, vd_declaration = ''INTEGER'', vd_capacity = 2, vd_fast = FK_int32\<rparr>"

definition sample_rows :: "int store" where
  "sample_rows = (\<lambda>h. [])(1 := [Some 5, None])"

lemma fromVectors_snapshot_witness:
  "\<exists>c st'. fromVectors 4 sample_copier sample_chunk_creator [(K_str ''a'', CA_vector (Some sample_column))] 2 sample_rows = (Inr c, st')
     \<and> column_cells c st' = [[Some 5, None]]"
proof -
  let ?columns = "[(K_str ''a'', CA_vector (Some sample_column))]"
  obtain c st' where built: "fromVectors 4 sample_copier sample_chunk_creator ?columns 2 sample_rows = (Inr c, st')"
    by (simp add: fromVectors_def sample_chunk_creator_def sample_column_def)
  have "\<forall>(k, a) \<in> set ?columns. case a of CA_vector (Some v) \<Rightarrow> vector_ok v sample_rows \<and> vd_vector v \<in> {..<100} | _ \<Rightarrow> True"
    by (simp add: vector_ok_def sample_column_def sample_rows_def max_vector_capacity_def)
  from fromVectors_snapshot [OF sample_engine_vectors(1) sample_chunk_creator_ok _ this built]
  have "column_cells c st' = [[Some 5, None]]" by (simp add: sample_column_def sample_rows_def)
  then show ?thesis using built by blast
qed

text \<open>Three rows out of a batch of six, with vectors of four rows.\<close>

definition large_batch :: "int store" where
  "large_batch = (\<lambda>h. [])(1 := [Some 5, None, Some 6, None, None, Some 7])"

lemma chunk_select_correct_witness:
  "\<exists>c st'. chunk_select 4 sample_copier sample_creator sample_chunk_creator 99 (Inr \<lparr>selection = [5, 0, 5], sel_count = 3, max_index = 5\<rparr>)
      (Some \<lparr>dc_names = [''a''], dc_vectors = [(1, LT_prim T_INTEGER None)], dc_size = 6, dc_expired = False\<rparr>) large_batch = (Inr c, st')
     \<and> column_cells c st' = [[Some 7, Some 5, Some 7]]"
proof -
  let ?s = "\<lparr>selection = [5, 0, 5], sel_count = 3, max_index = 5\<rparr>"
  let ?src = "\<lparr>dc_names = [''a''], dc_vectors = [(1, LT_prim T_INTEGER None)], dc_size = 6, dc_expired = False\<rparr>"
  obtain c st' where built: "chunk_select 4 sample_copier sample_creator sample_chunk_creator 99 (Inr ?s) (Some ?src) large_batch = (Inr c, st')"
    by (simp add: chunk_select_def duckdb_data_chunk_from_zval_def duckdb_selection_check_source_def sample_chunk_creator_def
        duckdb_selection_gather_def)
  have "chunk_ok ?src large_batch" "selection_ok ?s" by (simp_all add: chunk_ok_def large_batch_def selection_ok_def)
  moreover have cells: "column_cells ?src large_batch = [[Some 5, None, Some 6, None, None, Some 7]]"
    by (simp add: column_cells_def large_batch_def)
  ultimately have "column_cells c st' = [[Some 7, Some 5, Some 7]]"
    using chunk_select_correct [OF sample_engine_vectors(1) sample_chunk_creator_ok _ _ _ built] by (simp add: cells)
  then show ?thesis using built by blast
qed

end
