(* ===== verification/Callbacks.thy ===== *)
theory Callbacks
  imports Prelude "HOL-Library.Multiset"
begin

text \<open>
  The boundary between DuckDB's callbacks and PHP, \<open>src/src/copy.cpp\<close>: calling a handler, releasing PHP values, keeping
  exceptions, \<open>exit()\<close> and fatal errors until the method that reached DuckDB is about to return, and raising them again
  there.

  A zend_object pointer to a throwable is a list: empty for the null pointer, else the object and its chain of previous
  exceptions. \<open>ph_log\<close> and \<open>ph_dropped\<close> are histories: the objects created, the fatal errors and the exceptions handed
  over to be kept, and the references given up. A
  long jump of the engine is the result \<open>False\<close> of the code that ran. The virtual machine frames that a fatal error
  abandons are not modelled.
\<close>

section \<open>The request thread\<close>

datatype php_object = Exit_object nat bool | Exception_object nat (class_name: string) (message_text: string)

fun is_exit :: "php_object \<Rightarrow> bool" where
  "is_exit (Exit_object i graceful) = True"
| "is_exit (Exception_object i c m) = False"

datatype php_event = EV_new php_object | EV_fatal | EV_kept "php_object list"

record php =
  ph_depth :: nat
  ph_fibers :: nat
  ph_busy :: "nat \<Rightarrow> nat"
  ph_cause :: "php_object list"
  ph_exit :: "php_object list"
  ph_bailout :: bool
  ph_reason :: string
  ph_exception :: "php_object list"
  ph_dropped :: "php_object list"
  ph_log :: "php_event list"

definition give_up :: "php_object list \<Rightarrow> php \<Rightarrow> php" where
  "give_up e s = s\<lparr>ph_dropped := ph_dropped s @ e\<rparr>"

definition clear_exception :: "php \<Rightarrow> php" where
  "clear_exception s = (give_up (ph_exception s) s)\<lparr>ph_exception := []\<rparr>"

text \<open>\<open>zend_throw_exception_internal\<close> with a new object.\<close>

definition throw_new :: "php_object \<Rightarrow> php \<Rightarrow> php" where
  "throw_new e s =
     (let s1 = s\<lparr>ph_log := ph_log s @ [EV_new e]\<rparr>
      in case ph_exception s of
           x # _ \<Rightarrow> if is_exit x then give_up [e] s1 else s1\<lparr>ph_exception := e # ph_exception s\<rparr>
         | [] \<Rightarrow> s1\<lparr>ph_exception := [e]\<rparr>)"

section \<open>What is kept\<close>

definition duckdb_copy_unwinding :: "php \<Rightarrow> bool" where
  "duckdb_copy_unwinding s \<longleftrightarrow> ph_exit s \<noteq> [] \<or> ph_bailout s"

definition note_unwind :: "string \<Rightarrow> php \<Rightarrow> php" where
  "note_unwind reason s = (if ph_reason s = [] then s\<lparr>ph_reason := reason\<rparr> else s)"

definition duckdb_copy_unwind_reason :: "php \<Rightarrow> string" where
  "duckdb_copy_unwind_reason s =
     (if \<not> duckdb_copy_unwinding s then []
      else if ph_reason s = [] then ''PHP callback stopped by exit() or a fatal error'' else ph_reason s)"

text \<open>The slot afterwards, and the references given up.\<close>

definition keep_cause :: "php_object list \<Rightarrow> php_object list \<Rightarrow> php_object list \<times> php_object list" where
  "keep_cause slot e = (if e = [] then (slot, []) else if slot \<noteq> [] then (slot, e) else (e, []))"

definition note_kept :: "php_object list \<Rightarrow> php \<Rightarrow> php" where
  "note_kept e s = (if e = [] then s else s\<lparr>ph_log := ph_log s @ [EV_kept e]\<rparr>)"

definition duckdb_callback_keep_cause :: "php_object list \<Rightarrow> php \<Rightarrow> php" where
  "duckdb_callback_keep_cause e s =
     (case keep_cause (ph_cause s) e of (slot, gone) \<Rightarrow> give_up gone (note_kept e (s\<lparr>ph_cause := slot\<rparr>)))"

definition duckdb_callback_has_cause :: "php \<Rightarrow> bool" where
  "duckdb_callback_has_cause s \<longleftrightarrow> ph_cause s \<noteq> []"

definition duckdb_callback_take_cause :: "php \<Rightarrow> php_object list \<times> php" where
  "duckdb_callback_take_cause s = (ph_cause s, s\<lparr>ph_cause := []\<rparr>)"

definition keep_exit :: "string \<Rightarrow> php_object list \<Rightarrow> php \<Rightarrow> php" where
  "keep_exit reason thrown s = note_unwind reason (if ph_exit s \<noteq> [] then give_up thrown s else s\<lparr>ph_exit := thrown\<rparr>)"

text \<open>\<open>capture_exception\<close> of \<open>scalar.cpp\<close> does the same with the exception PHP has.\<close>

definition capture_exception :: "php \<Rightarrow> bool \<times> php" where
  "capture_exception s =
     (if ph_exception s = [] then (False, s)
      else (True, duckdb_callback_keep_cause (ph_exception s) (s\<lparr>ph_exception := []\<rparr>)))"

section \<open>Calls\<close>

definition bump :: "(nat \<Rightarrow> nat) \<Rightarrow> nat option \<Rightarrow> php \<Rightarrow> php" where
  "bump f k s = s\<lparr>ph_depth := f (ph_depth s), ph_fibers := f (ph_fibers s),
     ph_busy := (case k of None \<Rightarrow> ph_busy s | Some c \<Rightarrow> (ph_busy s)(c := f (ph_busy s c)))\<rparr>"

abbreviation enter_php :: "nat option \<Rightarrow> php \<Rightarrow> php" where
  "enter_php \<equiv> bump Suc"

abbreviation leave_php :: "nat option \<Rightarrow> php \<Rightarrow> php" where
  "leave_php \<equiv> bump (\<lambda>n. n - 1)"

text \<open>Zend runs no function while an exception is pending.\<close>

definition invoke_method :: "(php \<Rightarrow> bool \<times> php) \<Rightarrow> php \<Rightarrow> bool \<times> php" where
  "invoke_method code s = (if ph_exception s \<noteq> [] then (True, s) else code s)"

text \<open>What follows a release that left \<open>thrown\<close> behind; \<open>previous\<close> is the exception that was pending before.\<close>

definition settle_release :: "php_object list \<Rightarrow> php \<Rightarrow> php" where
  "settle_release previous s =
     (let thrown = ph_exception s; s1 = s\<lparr>ph_exception := previous\<rparr>
      in if thrown = [] then s1
         else if is_exit (hd thrown) then keep_exit ''PHP destructor aborted by exit()'' thrown s1
         else if previous \<noteq> [] \<or> ph_bailout s1 \<or> ph_exit s1 \<noteq> [] then duckdb_callback_keep_cause thrown s1
         else s1\<lparr>ph_exception := thrown\<rparr>)"

text \<open>
  Dropping a reference, on connection \<open>k\<close>; \<open>dtor\<close> is what PHP runs then. With \<open>public\<close> the destructor of an object is called
  through \<open>invoke_method\<close>, otherwise the engine destroys the value.
\<close>

definition duckdb_callback_zval_release :: "nat option \<Rightarrow> bool \<Rightarrow> (php \<Rightarrow> bool \<times> php) \<Rightarrow> php \<Rightarrow> php" where
  "duckdb_callback_zval_release k public dtor s =
     (case dtor (enter_php k (s\<lparr>ph_exception := []\<rparr>)) of
        (True, s1) \<Rightarrow> settle_release (ph_exception s) (leave_php k s1)
      | (False, s1) \<Rightarrow>
          let s2 = leave_php k (s1\<lparr>ph_bailout := True\<rparr>)
          in settle_release (ph_exception s) (if public then s2 else note_unwind ''PHP destructor stopped by a fatal error'' s2))"

datatype call_outcome = CO_ok | CO_exception | CO_exit | CO_bailout

definition exception_message :: "php_object \<Rightarrow> string" where
  "exception_message e = (if message_text e \<noteq> [] then message_text e else class_name e)"

text \<open>Outcome, message, and the ordinary exception, which the caller owns.\<close>

definition settle_call :: "string \<Rightarrow> bool \<Rightarrow> php \<Rightarrow> call_outcome \<times> string \<times> php_object list \<times> php" where
  "settle_call label completed s =
     (let stopped = label @ '' handler stopped by a fatal error''; left = label @ '' aborted by exit()'';
          thrown = ph_exception s; s1 = s\<lparr>ph_exception := []\<rparr>
      in if \<not> completed then (CO_bailout, stopped, [], note_unwind stopped (s\<lparr>ph_bailout := True\<rparr>))
         else if thrown \<noteq> []
         then if is_exit (hd thrown) then (CO_exit, left, [], keep_exit left thrown s1)
              else (CO_exception, exception_message (hd thrown), thrown, s1)
         else if ph_exit s \<noteq> [] then (CO_exit, left, [], s)
         else (CO_ok, [], [], s))"

definition duckdb_callback_call ::
    "nat option \<Rightarrow> string \<Rightarrow> (php \<Rightarrow> bool \<times> php) \<Rightarrow> bool \<Rightarrow> (php \<Rightarrow> bool \<times> php) \<Rightarrow> php
      \<Rightarrow> call_outcome \<times> string \<times> php_object list \<times> php" where
  "duckdb_callback_call k label code public dtor s =
     (case invoke_method code (enter_php k s) of
        (ok, s1) \<Rightarrow>
          let s2 = duckdb_callback_zval_release k public dtor s1
          in settle_call label (ok \<and> \<not> ph_bailout s2) (leave_php k s2))"

text \<open>Work of the request thread in which a bailout must not cross C++ frames.\<close>

definition duckdb_callback_try :: "(php \<Rightarrow> bool \<times> php) \<Rightarrow> php \<Rightarrow> bool \<times> php" where
  "duckdb_callback_try work s =
     (case work s of
        (True, s1) \<Rightarrow> (True, s1)
      | (False, s1) \<Rightarrow>
          (False, note_unwind ''PHP callback stopped by a fatal error'' (s1\<lparr>ph_depth := ph_depth s, ph_bailout := True\<rparr>)))"

definition duckdb_callback_run :: "(php \<Rightarrow> (bool \<times> string) option \<times> php) \<Rightarrow> php \<Rightarrow> (bool \<times> string) \<times> php" where
  "duckdb_callback_run work s =
     (case duckdb_callback_try (\<lambda>s. case work s of (r, s1) \<Rightarrow> (r \<noteq> None, s1)) s of
        (True, s1) \<Rightarrow> (the (fst (work s)), s1)
      | (False, s1) \<Rightarrow> ((False, ''PHP callback stopped by a fatal error''), s1))"

section \<open>The end of a method\<close>

definition drop_pending_cause :: "php \<Rightarrow> php" where
  "drop_pending_cause s = (give_up (ph_cause s) s)\<lparr>ph_cause := []\<rparr>"

text \<open>\<open>zend_exception_set_previous\<close> puts the cause at the end of the chain.\<close>

definition duckdb_copy_chain_cause :: "php \<Rightarrow> php" where
  "duckdb_copy_chain_cause s =
     (if ph_cause s = [] then s
      else if ph_exception s \<noteq> [] \<and> ph_exit s = [] then s\<lparr>ph_exception := ph_exception s @ ph_cause s, ph_cause := []\<rparr>
      else drop_pending_cause s)"

definition re_raise :: "bool \<Rightarrow> php \<Rightarrow> php" where
  "re_raise graceful s =
     (let s1 = clear_exception (drop_pending_cause (s\<lparr>ph_reason := []\<rparr>)) in throw_new (Exit_object 0 graceful) s1)"

fun graceful :: "php_object list \<Rightarrow> bool" where
  "graceful (Exit_object i g # _) = g"
| "graceful _ = False"

text \<open>
  \<open>drain\<close>: the deferred cleanup of connections; \<open>reap\<close>: the releases of \<open>duckdb_scalar_after_method\<close> for each connection, which
  stop when PHP unwinds. The result: whether \<open>exit()\<close> or a fatal error was raised again.
\<close>

definition after_method :: "(php \<Rightarrow> php) \<Rightarrow> (php \<Rightarrow> php) list \<Rightarrow> php \<Rightarrow> bool \<times> php" where
  "after_method drain reap s =
     (if ph_depth s > 0 then (False, s)
      else let s1 = fold (\<lambda>r s. if duckdb_copy_unwinding s then s else r s) reap (drain s)
        in if ph_bailout s1 then (True, re_raise False (s1\<lparr>ph_bailout := False\<rparr>))
           else if ph_exit s1 \<noteq> []
           then (True, re_raise (graceful (ph_exit s1)) (give_up (ph_exit s1) (s1\<lparr>ph_exit := []\<rparr>)))
           else (False, duckdb_copy_chain_cause s1))"

definition duckdb_copy_after_destructor :: "(php \<Rightarrow> php) \<Rightarrow> (php \<Rightarrow> php) list \<Rightarrow> php \<Rightarrow> php" where
  "duckdb_copy_after_destructor drain reap s =
     snd (after_method drain reap (if ph_depth s = 0 then drop_pending_cause s else s))"

text \<open>A method that returned a value and raises again returns null.\<close>

definition duckdb_copy_after_method_return ::
    "(php \<Rightarrow> php) \<Rightarrow> (php \<Rightarrow> php) list \<Rightarrow> 'v option \<Rightarrow> php \<Rightarrow> 'v option \<times> php" where
  "duckdb_copy_after_method_return drain reap v s =
     (case after_method drain reap s of (raised, s1) \<Rightarrow> (if raised then None else v, s1))"

section \<open>Programs\<close>

text \<open>
  What a method of the extension does at this boundary, and what PHP code does. PHP code calls methods of the extension,
  whose exceptions it catches unless they unwind, and ends by returning, throwing or exiting, or in a fatal error, which may
  leave the engine's unwind object behind. \<open>A_call\<close> has the connection, the label, whether the exception is kept as
  the cause, the handler, and the destructor that runs when the call drops the last reference.
\<close>

datatype ending = Returns | Throws php_object | Fatal "nat option"

datatype act =
    A_call "nat option" string bool code bool code
  | A_release "nat option" bool code
  | A_try "act list" bool
  | A_throw nat string string
  | A_capture
and code = Code "act list list" ending

fun end_code :: "ending \<Rightarrow> php \<Rightarrow> bool \<times> php" where
  "end_code Returns s = (True, s)"
| "end_code (Throws e) s = (True, throw_new e s)"
| "end_code (Fatal None) s = (False, s\<lparr>ph_log := ph_log s @ [EV_fatal]\<rparr>)"
| "end_code (Fatal (Some i)) s =
     (False, throw_new (Exit_object i False) (clear_exception (s\<lparr>ph_log := ph_log s @ [EV_fatal]\<rparr>)))"

function run_act :: "act \<Rightarrow> php \<Rightarrow> php"
  and run_acts :: "act list \<Rightarrow> php \<Rightarrow> php"
  and run_methods :: "act list list \<Rightarrow> php \<Rightarrow> bool \<times> php"
  and run_code :: "code \<Rightarrow> php \<Rightarrow> bool \<times> php" where
  "run_act (A_call k label keep c public d) s =
     (case duckdb_callback_call k label (run_code c) public (run_code d) s of
        (_, _, e, s1) \<Rightarrow> if keep then duckdb_callback_keep_cause e s1 else give_up e s1)"
| "run_act (A_release k public d) s = duckdb_callback_zval_release k public (run_code d) s"
| "run_act (A_try work dies) s =
     snd (duckdb_callback_try (\<lambda>s. end_code (if dies then Fatal None else Returns) (run_acts work s)) s)"
| "run_act (A_throw i c m) s = throw_new (Exception_object i c m) s"
| "run_act A_capture s = snd (capture_exception s)"
| "run_acts [] s = s"
| "run_acts (a # as) s = run_acts as (run_act a s)"
| "run_methods [] s = (False, s)"
| "run_methods (m # ms) s =
     (let s1 = run_acts m s
      in if list_ex is_exit (ph_exception s1) then (True, s1) else run_methods ms (clear_exception s1))"
| "run_code (Code ms e) s = (case run_methods ms s of (stopped, s1) \<Rightarrow> if stopped then (True, s1) else end_code e s1)"
  by pat_completeness auto
termination
  by (relation "measure (\<lambda>x. case x of Inl (Inl (a, s)) \<Rightarrow> size a | Inl (Inr (as, s)) \<Rightarrow> size_list size as
      | Inr (Inl (ms, s)) \<Rightarrow> size_list (size_list size) ms | Inr (Inr (c, s)) \<Rightarrow> size c)") auto

text \<open>A method that PHP code outside every callback called.\<close>

definition run_method :: "act list \<Rightarrow> act list \<Rightarrow> act list list \<Rightarrow> php \<Rightarrow> bool \<times> php" where
  "run_method body drain reap s = after_method (run_acts drain) (map run_acts reap) (run_acts body s)"

section \<open>Calls are balanced\<close>

text \<open>Nothing but \<open>bump\<close> changes the depth, the blocks of Fiber switches and the busy marks.\<close>

definition counters :: "php \<Rightarrow> nat \<times> nat \<times> (nat \<Rightarrow> nat)" where
  "counters s = (ph_depth s, ph_fibers s, ph_busy s)"

lemma counters_simps [simp]:
  "counters (s\<lparr>ph_cause := a\<rparr>) = counters s" "counters (s\<lparr>ph_exit := a\<rparr>) = counters s" "counters (s\<lparr>ph_bailout := b\<rparr>) = counters s"
  "counters (s\<lparr>ph_reason := r\<rparr>) = counters s" "counters (s\<lparr>ph_exception := a\<rparr>) = counters s"
  "counters (s\<lparr>ph_dropped := a\<rparr>) = counters s" "counters (s\<lparr>ph_log := l\<rparr>) = counters s"
  by (simp_all add: counters_def)

lemma counters_ops [simp]:
  "counters (give_up e s) = counters s" "counters (note_kept e s) = counters s" "counters (clear_exception s) = counters s" "counters (throw_new x s) = counters s"
  "counters (note_unwind r s) = counters s" "counters (duckdb_callback_keep_cause e s) = counters s"
  "counters (keep_exit r e s) = counters s" "counters (snd (capture_exception s)) = counters s"
  by (auto simp: give_up_def clear_exception_def throw_new_def note_unwind_def note_kept_def duckdb_callback_keep_cause_def keep_exit_def
      capture_exception_def Let_def split: prod.split list.split)

lemma counters_bump: "counters (leave_php k s) = counters s'" if "counters s = counters (enter_php k s')"
  using that by (auto simp: counters_def bump_def fun_upd_idem split: option.splits)

lemma counters_settle [simp]:
  "counters (settle_release p s) = counters s" "counters (snd (snd (snd (settle_call l ok s)))) = counters s"
  by (auto simp: settle_release_def settle_call_def Let_def)

lemma counters_release:
  assumes "\<And>s. counters (snd (dtor s)) = counters s"
  shows "counters (duckdb_callback_zval_release k public dtor s) = counters s"
proof -
  obtain ok s1 where d: "dtor (enter_php k (s\<lparr>ph_exception := []\<rparr>)) = (ok, s1)" by (rule prod.exhaust)
  have "counters s1 = counters (enter_php k (s\<lparr>ph_exception := []\<rparr>))" using assms [of "enter_php k (s\<lparr>ph_exception := []\<rparr>)"] d by simp
  then have "counters (leave_php k (if ok then s1 else s1\<lparr>ph_bailout := True\<rparr>)) = counters (s\<lparr>ph_exception := []\<rparr>)"
    by (intro counters_bump) simp
  then show ?thesis by (cases ok) (simp_all add: duckdb_callback_zval_release_def d Let_def)
qed

lemma counters_call:
  assumes "\<And>s. counters (snd (go s)) = counters s" "\<And>s. counters (snd (dtor s)) = counters s"
  shows "counters (snd (snd (snd (duckdb_callback_call k l go public dtor s)))) = counters s"
proof -
  obtain ok s1 where d: "invoke_method go (enter_php k s) = (ok, s1)" by (rule prod.exhaust)
  have "counters s1 = counters (enter_php k s)"
    using assms(1) [of "enter_php k s"] d by (auto simp: invoke_method_def split: if_splits)
  then have "counters (duckdb_callback_zval_release k public dtor s1) = counters (enter_php k s)"
    using counters_release [OF assms(2), of k public s1] by simp
  then have "counters (leave_php k (duckdb_callback_zval_release k public dtor s1)) = counters s" by (rule counters_bump)
  then show ?thesis by (simp add: duckdb_callback_call_def d Let_def)
qed

lemma counters_end [simp]: "counters (snd (end_code e s)) = counters s"
  by (cases "(e, s)" rule: end_code.cases) simp_all

lemma counters_try:
  assumes "counters (snd (work s)) = counters s"
  shows "counters (snd (duckdb_callback_try work s)) = counters s"
proof -
  obtain ok s1 where w: "work s = (ok, s1)" by (rule prod.exhaust)
  then have "s1\<lparr>ph_depth := ph_depth s\<rparr> = s1" using assms by (simp add: counters_def)
  then show ?thesis using assms w by (cases ok) (auto simp: duckdb_callback_try_def counters_def note_unwind_def)
qed

lemma counters_run:
  "counters (run_act a s) = counters s" "counters (run_acts as s) = counters s"
  "counters (snd (run_methods ms s)) = counters s" "counters (snd (run_code c s)) = counters s"
proof (induction a s and as s and ms s and c s rule: run_act_run_acts_run_methods_run_code.induct)
  case (1 k label keep c public d s)
  then show ?case
    using counters_call [of "run_code c" "run_code d" k label public s]
    by (auto split: prod.split)
next
  case (9 m ms s)
  then show ?case by (auto simp: Let_def)
qed (auto simp: counters_release counters_try split: prod.split)

section \<open>What stays pending\<close>

text \<open>
  Fatal errors and \<open>exit()\<close> are recorded, and nothing else is. \<open>fatal\<close>: a bailout is on its way to the
  frame that records it; \<open>ex\<close>: a caller holds an exit that is not recorded yet; \<open>code\<close>: the pending exception may be one.
\<close>

definition met_fatal :: "php \<Rightarrow> bool" where
  "met_fatal s \<longleftrightarrow> EV_fatal \<in> set (ph_log s)"

definition met_exit :: "php \<Rightarrow> php_object \<Rightarrow> bool" where
  "met_exit s e \<longleftrightarrow> is_exit e \<and> EV_new e \<in> set (ph_log s)"

definition chain_ok :: "php \<Rightarrow> bool \<Rightarrow> php_object list \<Rightarrow> bool" where
  "chain_ok s some_exit e \<longleftrightarrow> list_all (\<lambda>x. \<not> is_exit x) e \<or> (some_exit \<and> (\<exists>x. e = [x] \<and> met_exit s x))"

definition pending_ok :: "bool \<Rightarrow> bool \<Rightarrow> bool \<Rightarrow> php \<Rightarrow> bool" where
  "pending_ok fatal ex in_code s \<longleftrightarrow>
     ((met_fatal s \<longrightarrow> ph_bailout s \<or> fatal) \<and> (ph_bailout s \<or> fatal \<longrightarrow> met_fatal s))
   \<and> (\<forall>e. met_exit s e \<longrightarrow> duckdb_copy_unwinding s \<or> fatal \<or> ex \<or> in_code \<and> list_ex is_exit (ph_exception s))
   \<and> (ph_exit s = [] \<or> (\<exists>x. ph_exit s = [x] \<and> met_exit s x))
   \<and> (list_all (\<lambda>x. \<not> is_exit x) (ph_cause s) \<or> ph_bailout s \<or> fatal)
   \<and> chain_ok s (ph_bailout s \<or> fatal \<or> in_code) (ph_exception s)
   \<and> (ph_reason s = [] \<or> duckdb_copy_unwinding s \<or> fatal)"

lemma met_simps [simp]:
  "met_fatal (s\<lparr>ph_cause := a\<rparr>) = met_fatal s" "met_fatal (s\<lparr>ph_exit := a\<rparr>) = met_fatal s" "met_fatal (s\<lparr>ph_bailout := b\<rparr>) = met_fatal s"
  "met_fatal (s\<lparr>ph_reason := r\<rparr>) = met_fatal s" "met_fatal (s\<lparr>ph_exception := a\<rparr>) = met_fatal s" "met_fatal (give_up a s) = met_fatal s"
  "met_fatal (bump f k s) = met_fatal s" "met_fatal (note_kept a s) = met_fatal s" "met_exit (note_kept a s) = met_exit s"
  "met_exit (s\<lparr>ph_cause := a\<rparr>) = met_exit s" "met_exit (s\<lparr>ph_exit := a\<rparr>) = met_exit s" "met_exit (s\<lparr>ph_bailout := b\<rparr>) = met_exit s"
  "met_exit (s\<lparr>ph_reason := r\<rparr>) = met_exit s" "met_exit (s\<lparr>ph_exception := a\<rparr>) = met_exit s" "met_exit (give_up a s) = met_exit s"
  "met_exit (bump f k s) = met_exit s"
  by (simp_all add: met_fatal_def met_exit_def bump_def give_up_def note_kept_def fun_eq_iff)

lemma chain_ok_simps [simp]:
  "chain_ok (s\<lparr>ph_cause := a\<rparr>) = chain_ok s" "chain_ok (s\<lparr>ph_exit := a\<rparr>) = chain_ok s" "chain_ok (s\<lparr>ph_bailout := b\<rparr>) = chain_ok s"
  "chain_ok (s\<lparr>ph_reason := r\<rparr>) = chain_ok s" "chain_ok (s\<lparr>ph_exception := a\<rparr>) = chain_ok s" "chain_ok (give_up a s) = chain_ok s"
  "chain_ok (bump f k s) = chain_ok s" "chain_ok (note_kept a s) = chain_ok s"
  by (simp_all add: chain_ok_def fun_eq_iff)

lemma fields_simps [simp]:
  "ph_cause (give_up e s) = ph_cause s" "ph_exit (give_up e s) = ph_exit s" "ph_bailout (give_up e s) = ph_bailout s"
  "ph_reason (give_up e s) = ph_reason s" "ph_exception (give_up e s) = ph_exception s" "ph_depth (give_up e s) = ph_depth s"
  "ph_cause (bump f k s) = ph_cause s" "ph_exit (bump f k s) = ph_exit s" "ph_bailout (bump f k s) = ph_bailout s"
  "ph_reason (bump f k s) = ph_reason s" "ph_exception (bump f k s) = ph_exception s"
  "ph_cause (note_kept e s) = ph_cause s" "ph_exit (note_kept e s) = ph_exit s" "ph_bailout (note_kept e s) = ph_bailout s"
  "ph_reason (note_kept e s) = ph_reason s" "ph_exception (note_kept e s) = ph_exception s"
  by (simp_all add: give_up_def bump_def note_kept_def)

lemma pending_ok_bump [simp]: "pending_ok f ex c (bump g k s) = pending_ok f ex c s"
  by (simp add: pending_ok_def duckdb_copy_unwinding_def)

lemma pending_ok_give_up [simp]: "pending_ok f ex c (give_up e s) = pending_ok f ex c s"
  by (simp add: pending_ok_def duckdb_copy_unwinding_def)

lemma list_ex_exit: "list_all (\<lambda>x. \<not> is_exit x) e \<longleftrightarrow> \<not> list_ex is_exit e"
  by (simp add: list_all_iff list_ex_iff)

lemma pending_ok_clear:
  "pending_ok f ex c s \<Longrightarrow> pending_ok f (ex \<or> list_ex is_exit (ph_exception s)) False (s\<lparr>ph_exception := []\<rparr>)"
  by (auto simp: pending_ok_def duckdb_copy_unwinding_def chain_ok_def)

lemma pending_ok_handled: "pending_ok f ex False s \<Longrightarrow> pending_ok f ex False (s\<lparr>ph_exception := []\<rparr>)"
  by (auto simp: pending_ok_def duckdb_copy_unwinding_def chain_ok_def)

lemma pending_ok_code: "pending_ok f ex False s \<Longrightarrow> pending_ok f ex True s"
  by (auto simp: pending_ok_def chain_ok_def)

lemma throw_new_fields [simp]:
  "ph_cause (throw_new e s) = ph_cause s" "ph_exit (throw_new e s) = ph_exit s" "ph_bailout (throw_new e s) = ph_bailout s"
  "ph_reason (throw_new e s) = ph_reason s" "ph_log (throw_new e s) = ph_log s @ [EV_new e]"
  "ph_exception (throw_new e s) =
     (if list_ex is_exit (take 1 (ph_exception s)) then ph_exception s else e # ph_exception s)"
  by (auto simp: throw_new_def give_up_def Let_def split: list.split)

lemma met_throw_new: "met_fatal (throw_new e s) = met_fatal s" "met_exit (throw_new e s) x \<longleftrightarrow> met_exit s x \<or> x = e \<and> is_exit e"
  by (auto simp: met_fatal_def met_exit_def)

lemma chain_ok_cong: "met_exit s = met_exit s' \<Longrightarrow> chain_ok s = chain_ok s'"
  by (simp add: chain_ok_def fun_eq_iff)

lemma pending_ok_throw:
  assumes s: "pending_ok f ex False s" and e: "\<not> is_exit e"
  shows "pending_ok f ex False (throw_new e s)"
proof -
  have met: "met_fatal (throw_new e s) = met_fatal s" "met_exit (throw_new e s) = met_exit s"
    using e by (simp_all add: met_throw_new fun_eq_iff)
  have "chain_ok s (ph_bailout s \<or> f) (ph_exception (throw_new e s))"
    using s e by (auto simp: pending_ok_def chain_ok_def list_ex_exit met_exit_def)
  then show ?thesis
    using s unfolding pending_ok_def duckdb_copy_unwinding_def met chain_ok_cong [OF met(2)] throw_new_fields(1-4) by simp
qed

lemma pending_ok_exit:
  assumes s: "pending_ok f ex False s" and e: "ph_exception s = []" "is_exit e"
  shows "pending_ok f ex True (throw_new e s)"
proof -
  have x: "ph_exception (throw_new e s) = [e]" "list_ex is_exit (ph_exception (throw_new e s))" using e by simp_all
  have c: "chain_ok (throw_new e s) b [e] = b" for b using e(2) by (auto simp: chain_ok_def met_throw_new)
  show ?thesis
    using s x(2) unfolding pending_ok_def duckdb_copy_unwinding_def met_throw_new throw_new_fields(1-4) x(1) c by blast
qed

lemma pending_ok_fatal:
  assumes "pending_ok f ex False s"
  shows "pending_ok True ex False (s\<lparr>ph_log := ph_log s @ [EV_fatal]\<rparr>)"
proof -
  have met: "met_exit (s\<lparr>ph_log := ph_log s @ [EV_fatal]\<rparr>) = met_exit s" "met_fatal (s\<lparr>ph_log := ph_log s @ [EV_fatal]\<rparr>)"
    by (simp_all add: met_exit_def met_fatal_def fun_eq_iff)
  have "chain_ok s True (ph_exception s)" using assms by (auto simp: pending_ok_def chain_ok_def)
  then show ?thesis
    using assms met(2) unfolding pending_ok_def duckdb_copy_unwinding_def met(1) chain_ok_cong [OF met(1)] by auto
qed

lemma pending_ok_end:
  assumes s: "pending_ok f ex False s" "ph_exception s = []"
  shows "case end_code e s of (ok, s1) \<Rightarrow> pending_ok (f \<or> \<not> ok) ex True s1"
proof (cases "(e, s)" rule: end_code.cases)
  case 1
  then show ?thesis using pending_ok_code [OF s(1)] by simp
next
  case (2 x)
  then show ?thesis using pending_ok_exit [OF s, of x] pending_ok_code [OF pending_ok_throw [OF s(1), of x]] by (cases "is_exit x") simp_all
next
  case 3
  then show ?thesis using pending_ok_code [OF pending_ok_fatal [OF s(1)]] by simp
next
  case (4 i)
  have "pending_ok True ex False (clear_exception (s\<lparr>ph_log := ph_log s @ [EV_fatal]\<rparr>))"
    unfolding clear_exception_def by (intro pending_ok_handled) (simp add: pending_ok_fatal [OF s(1)])
  then show ?thesis using 4 by (auto intro!: pending_ok_exit simp: clear_exception_def)
qed

lemma pending_ok_keep:
  assumes "pending_ok f ex c s" "chain_ok s (ph_bailout s \<or> f) e"
  shows "pending_ok f ex c (duckdb_callback_keep_cause e s)"
  using assms
  by (auto simp: pending_ok_def duckdb_callback_keep_cause_def keep_cause_def duckdb_copy_unwinding_def chain_ok_def)

lemma pending_ok_keep_exit:
  assumes "pending_ok f ex' True s" "ph_exception s = x # xs" "is_exit x" "chain_ok s (ph_bailout s \<or> f \<or> c) p"
  shows "pending_ok f ex c (keep_exit r (ph_exception s) (s\<lparr>ph_exception := p\<rparr>))"
proof -
  have x: "ph_exception s = [x]" "met_exit s x" using assms(1,2,3) by (auto simp: pending_ok_def chain_ok_def)
  then show ?thesis
    using assms(1,4) by (auto simp: pending_ok_def keep_exit_def note_unwind_def duckdb_copy_unwinding_def)
qed

lemma pending_ok_no_exit:
  assumes "pending_ok f ex True s" "ph_exception s = [] \<or> \<not> is_exit (hd (ph_exception s))"
  shows "\<not> list_ex is_exit (ph_exception s)" "pending_ok f ex False s"
proof -
  show e: "\<not> list_ex is_exit (ph_exception s)"
    using assms by (auto simp: pending_ok_def chain_ok_def met_exit_def list_ex_exit)
  then show "pending_ok f ex False s" using assms(1) by (auto simp: pending_ok_def chain_ok_def list_ex_exit)
qed

lemma pending_ok_exception:
  assumes "pending_ok f ex' False s" "chain_ok s (ph_bailout s \<or> f \<or> c) p"
    "ex' \<longrightarrow> ex \<or> c \<and> list_ex is_exit p \<or> duckdb_copy_unwinding s \<or> f"
  shows "pending_ok f ex c (s\<lparr>ph_exception := p\<rparr>)"
  using assms by (auto simp: pending_ok_def duckdb_copy_unwinding_def)

lemma pending_ok_settle_release:
  assumes s: "pending_ok f ex' True s" and p: "chain_ok s (ph_bailout s \<or> f \<or> c) p"
    and ex': "ex' \<longrightarrow> ex \<or> c \<and> list_ex is_exit p \<or> duckdb_copy_unwinding s \<or> f"
  shows "pending_ok f ex c (settle_release p s)"
proof (cases "ph_exception s \<noteq> [] \<and> is_exit (hd (ph_exception s))")
  case True
  then obtain x xs where "ph_exception s = x # xs" "is_exit x" by (cases "ph_exception s") auto
  then show ?thesis using pending_ok_keep_exit [OF s _ _ p] by (simp add: settle_release_def Let_def)
next
  case False
  then have e: "\<not> list_ex is_exit (ph_exception s)" "pending_ok f ex' False s" using pending_ok_no_exit [OF s] by auto
  have ok: "pending_ok f ex c (s\<lparr>ph_exception := p\<rparr>)" by (rule pending_ok_exception [OF e(2) p ex'])
  have chain: "chain_ok s b (ph_exception s)" for b using e(1) by (simp add: chain_ok_def list_ex_exit)
  have "pending_ok f ex c (duckdb_callback_keep_cause (ph_exception s) (s\<lparr>ph_exception := p\<rparr>))"
    using pending_ok_keep [OF ok] chain by simp
  moreover have "pending_ok f ex c (s\<lparr>ph_exception := ph_exception s\<rparr>)" if "p = []"
    using ex' that by (intro pending_ok_exception [OF e(2)] chain) auto
  ultimately show ?thesis using ok False by (auto simp: settle_release_def Let_def)
qed

lemma pending_ok_note: "pending_ok f ex c s \<Longrightarrow> ph_bailout s \<Longrightarrow> pending_ok f ex c (note_unwind r s)"
  by (auto simp: pending_ok_def chain_ok_def duckdb_copy_unwinding_def note_unwind_def)

lemma pending_ok_bail:
  assumes "pending_ok (f \<or> fatal) ex c s" "f \<or> fatal"
  shows "pending_ok f ex' c' (s\<lparr>ph_bailout := True\<rparr>)"
  using assms by (auto simp: pending_ok_def chain_ok_def duckdb_copy_unwinding_def)

lemma pending_ok_settle_call:
  assumes s: "pending_ok (f \<or> \<not> ok) ex True s" and ok: "ok' \<longrightarrow> ok" "\<not> ok' \<longrightarrow> met_fatal s"
  shows "case settle_call l ok' s of (_, _, e, s1) \<Rightarrow> pending_ok f ex False s1 \<and> list_all (\<lambda>x. \<not> is_exit x) e"
proof (cases "ok' \<and> ph_exception s \<noteq> [] \<and> is_exit (hd (ph_exception s))")
  case True
  then obtain x xs where x: "ph_exception s = x # xs" "is_exit x" by (cases "ph_exception s") auto
  have "pending_ok f ex False (keep_exit (l @ '' aborted by exit()'') (ph_exception s) (s\<lparr>ph_exception := []\<rparr>))"
    using s ok True by (intro pending_ok_keep_exit [OF _ x]) (auto simp: chain_ok_def)
  then show ?thesis using True by (simp add: settle_call_def Let_def)
next
  case False
  show ?thesis
  proof (cases ok')
    case True
    then have e: "\<not> list_ex is_exit (ph_exception s)" "pending_ok f ex False s"
      using pending_ok_no_exit [of f ex s] s ok False by auto
    then show ?thesis using True False pending_ok_handled [OF e(2)] by (auto simp: settle_call_def Let_def list_ex_exit)
  next
    case not_ok: False
    then have "pending_ok f ex False (s\<lparr>ph_bailout := True\<rparr>)"
      using s ok by (auto simp: pending_ok_def chain_ok_def duckdb_copy_unwinding_def)
    then show ?thesis using not_ok by (simp add: settle_call_def Let_def pending_ok_note)
  qed
qed

definition history :: "php \<Rightarrow> php_event set" where
  "history s = set (ph_log s)"

lemma history_simps [simp]:
  "history (s\<lparr>ph_cause := a\<rparr>) = history s" "history (s\<lparr>ph_exit := a\<rparr>) = history s" "history (s\<lparr>ph_bailout := b\<rparr>) = history s"
  "history (s\<lparr>ph_reason := r\<rparr>) = history s" "history (s\<lparr>ph_exception := a\<rparr>) = history s" "history (s\<lparr>ph_depth := d\<rparr>) = history s"
  "history (bump f k s) = history s" "history (give_up e s) = history s" "history (note_unwind r s) = history s"
  "history (clear_exception s) = history s" "history (keep_exit r e s) = history s"
  "history (note_kept e s) = (if e = [] then {} else {EV_kept e}) \<union> history s"
  "history (snd (snd (snd (settle_call l ok s)))) = history s"
  "history (throw_new x s) = insert (EV_new x) (history s)"
  by (auto simp: history_def bump_def give_up_def note_unwind_def clear_exception_def note_kept_def
      keep_exit_def settle_call_def throw_new_def Let_def split: list.split)

lemma history_keeps:
  "history s \<subseteq> history (duckdb_callback_keep_cause e s)" "history s \<subseteq> history (settle_release p s)"
  "history s \<subseteq> history (snd (capture_exception s))"
  by (auto simp: duckdb_callback_keep_cause_def settle_release_def capture_exception_def Let_def split: prod.splits)

lemma later:
  assumes "history s \<subseteq> history s1"
  shows "met_fatal s \<Longrightarrow> met_fatal s1" "met_exit s x \<Longrightarrow> met_exit s1 x" "chain_ok s b e \<Longrightarrow> chain_ok s1 b e"
  using assms by (auto simp: met_fatal_def met_exit_def history_def chain_ok_def)

definition code_ok :: "(php \<Rightarrow> bool \<times> php) \<Rightarrow> bool" where
  "code_ok go \<longleftrightarrow> (\<forall>f ex s. pending_ok f ex False s \<and> ph_exception s = [] \<longrightarrow>
     (case go s of (ok, s1) \<Rightarrow> pending_ok (f \<or> \<not> ok) ex True s1 \<and> history s \<subseteq> history s1))"

lemma code_okI:
  "(\<And>f ex s. pending_ok f ex False s \<Longrightarrow> ph_exception s = [] \<Longrightarrow>
     case go s of (ok, s1) \<Rightarrow> pending_ok (f \<or> \<not> ok) ex True s1 \<and> history s \<subseteq> history s1) \<Longrightarrow> code_ok go"
  by (simp add: code_ok_def)

lemma code_okD:
  "code_ok go \<Longrightarrow> pending_ok f ex False s \<Longrightarrow> ph_exception s = [] \<Longrightarrow> go s = (ok, s1)
     \<Longrightarrow> pending_ok (f \<or> \<not> ok) ex True s1 \<and> history s \<subseteq> history s1"
  unfolding code_ok_def by fastforce

lemma note_unwind_fields [simp]: "ph_exception (note_unwind r s) = ph_exception s" "ph_bailout (note_unwind r s) = ph_bailout s"
  by (simp_all add: note_unwind_def)

lemma fatal_recorded: "pending_ok f ex c s \<Longrightarrow> met_fatal s \<Longrightarrow> ph_bailout s \<or> f"
  by (simp add: pending_ok_def)

lemma chain_ok_mono: "chain_ok s b e \<Longrightarrow> (b \<longrightarrow> b') \<Longrightarrow> chain_ok s b' e"
  by (auto simp: chain_ok_def)

lemma drop_ok:
  assumes d: "code_ok dtor" and s: "pending_ok f ex c s"
  shows "pending_ok f ex c (duckdb_callback_zval_release k public dtor s)"
    "history s \<subseteq> history (duckdb_callback_zval_release k public dtor s)"
proof -
  define p where "p = ph_exception s"
  obtain ok s1 where r: "dtor (enter_php k (s\<lparr>ph_exception := []\<rparr>)) = (ok, s1)" by (rule prod.exhaust)
  have "pending_ok f (ex \<or> list_ex is_exit p) False (enter_php k (s\<lparr>ph_exception := []\<rparr>))"
    using pending_ok_clear [OF s] by (simp add: p_def)
  from code_okD [OF d this _ r]
  have s1: "pending_ok (f \<or> \<not> ok) (ex \<or> list_ex is_exit p) True s1" "history s \<subseteq> history s1" by simp_all
  define s2 where "s2 = (if ok then leave_php k s1 else let s2 = leave_php k (s1\<lparr>ph_bailout := True\<rparr>)
    in if public then s2 else note_unwind ''PHP destructor stopped by a fatal error'' s2)"
  have rel: "duckdb_callback_zval_release k public dtor s = settle_release p s2"
    by (simp add: duckdb_callback_zval_release_def r s2_def p_def Let_def split: bool.split)
  have ok2: "pending_ok f (ex \<or> list_ex is_exit p) True s2" "history s2 = history s1"
    using s1(1) pending_ok_bail [of f "\<not> ok" _ True s1 "ex \<or> list_ex is_exit p" True]
    by (auto simp: s2_def Let_def intro!: pending_ok_note)
  have old: "chain_ok s (ph_bailout s \<or> f \<or> c) p" using s by (simp add: pending_ok_def p_def)
  have fatal: "ph_bailout s \<longrightarrow> ph_bailout s2 \<or> f"
    using s fatal_recorded [OF ok2(1)] later(1) [of s s2] s1(2) ok2(2) by (auto simp: pending_ok_def)
  have chain: "chain_ok s2 (ph_bailout s2 \<or> f \<or> c) p"
    using later(3) [of s s2, OF _ old] s1(2) ok2(2) fatal by (auto elim: chain_ok_mono)
  have held: "ex \<or> list_ex is_exit p \<longrightarrow> ex \<or> c \<and> list_ex is_exit p \<or> duckdb_copy_unwinding s2 \<or> f"
    using old fatal by (auto simp: chain_ok_def list_ex_exit duckdb_copy_unwinding_def)
  show "pending_ok f ex c (duckdb_callback_zval_release k public dtor s)"
    unfolding rel by (rule pending_ok_settle_release [OF ok2(1) chain held])
  show "history s \<subseteq> history (duckdb_callback_zval_release k public dtor s)"
    using rel ok2(2) s1(2) history_keeps(2) [of s2 p] by simp
qed

lemma call_ok:
  assumes go: "code_ok go" and d: "code_ok dtor" and s: "pending_ok f ex False s"
  shows "case duckdb_callback_call k l go public dtor s of (_, _, e, s1) \<Rightarrow>
    pending_ok f ex False s1 \<and> history s \<subseteq> history s1 \<and> list_all (\<lambda>x. \<not> is_exit x) e"
proof -
  obtain ok s1 where r: "invoke_method go (enter_php k s) = (ok, s1)" by (rule prod.exhaust)
  have s1: "pending_ok (f \<or> \<not> ok) ex True s1 \<and> history s \<subseteq> history s1"
  proof (cases "ph_exception s = []")
    case True
    have "pending_ok f ex False (enter_php k s)" "ph_exception (enter_php k s) = []" "go (enter_php k s) = (ok, s1)"
      using s True r by (simp_all add: invoke_method_def)
    from code_okD [OF go this] show ?thesis by simp
  next
    case False
    then show ?thesis using r pending_ok_code [OF s] by (auto simp: invoke_method_def)
  qed
  define s2 where "s2 = duckdb_callback_zval_release k public dtor s1"
  have s2: "pending_ok (f \<or> \<not> ok) ex True s2" "history s1 \<subseteq> history s2"
    unfolding s2_def using drop_ok [OF d] s1 by blast+
  have "met_fatal s1" if "\<not> ok" using s1 that by (simp add: pending_ok_def)
  then have fatal: "\<not> (ok \<and> \<not> ph_bailout s2) \<longrightarrow> met_fatal (leave_php k s2)"
    using later(1) [OF s2(2)] s2(1) by (auto simp: pending_ok_def)
  obtain out m e s3 where c: "settle_call l (ok \<and> \<not> ph_bailout s2) (leave_php k s2) = (out, m, e, s3)" by (metis prod_cases4)
  have "history s3 = history s2" using arg_cong [OF c, of "\<lambda>x. history (snd (snd (snd x)))"] by simp
  moreover have "pending_ok f ex False s3 \<and> list_all (\<lambda>x. \<not> is_exit x) e"
    using pending_ok_settle_call [of f ok ex "leave_php k s2" "ok \<and> \<not> ph_bailout s2" l] s2(1) fatal c by simp
  ultimately show ?thesis
    using s1 s2(2) c by (auto simp: duckdb_callback_call_def r s2_def [symmetric] Let_def)
qed

lemma try_ok:
  assumes "work s = (ok, s1)" "pending_ok (f \<or> \<not> ok) ex False s1" "history s \<subseteq> history s1"
  shows "pending_ok f ex False (snd (duckdb_callback_try work s)) \<and> history s \<subseteq> history (snd (duckdb_callback_try work s))"
proof (cases ok)
  case True
  then show ?thesis using assms by (simp add: duckdb_callback_try_def)
next
  case False
  have "pending_ok f ex False (s1\<lparr>ph_depth := ph_depth s, ph_bailout := True\<rparr>)"
    using pending_ok_bail [of f True ex False s1 ex False] assms(2) False by (simp add: pending_ok_def met_fatal_def met_exit_def chain_ok_def duckdb_copy_unwinding_def)
  then show ?thesis using assms(1,3) False by (simp add: duckdb_callback_try_def pending_ok_note)
qed

lemma pending_ok_capture:
  assumes s: "pending_ok f ex False s"
  shows "pending_ok f ex False (snd (capture_exception s))"
proof -
  have "chain_ok s (ph_bailout s \<or> f) (ph_exception s)" using s by (simp add: pending_ok_def)
  then have "pending_ok f ex False (duckdb_callback_keep_cause (ph_exception s) (s\<lparr>ph_exception := []\<rparr>))"
    by (intro pending_ok_keep pending_ok_handled s) simp
  then show ?thesis using s by (simp add: capture_exception_def)
qed

lemma history_end: "history s \<subseteq> history (snd (end_code e s))"
  by (cases "(e, s)" rule: end_code.cases) (auto simp: history_def clear_exception_def give_up_def)

lemma pending_ok_run:
  "pending_ok f ex False s \<Longrightarrow> pending_ok f ex False (run_act a s) \<and> history s \<subseteq> history (run_act a s)"
  "pending_ok f ex False s \<Longrightarrow> pending_ok f ex False (run_acts as s) \<and> history s \<subseteq> history (run_acts as s)"
  "pending_ok f ex False s \<Longrightarrow> ph_exception s = [] \<Longrightarrow> case run_methods ms s of (stopped, s1) \<Rightarrow>
     pending_ok f ex False s1 \<and> history s \<subseteq> history s1 \<and> (stopped \<or> ph_exception s1 = [])"
  "pending_ok f ex False s \<Longrightarrow> ph_exception s = [] \<Longrightarrow> case run_code c s of (ok, s1) \<Rightarrow>
     pending_ok (f \<or> \<not> ok) ex True s1 \<and> history s \<subseteq> history s1"
proof (induction a s and as s and ms s and c s arbitrary: f ex and f ex and f ex and f ex rule: run_act_run_acts_run_methods_run_code.induct)
  case (1 k label keep c public d s)
  have "code_ok (run_code c)" "code_ok (run_code d)" by (intro code_okI "1.IH"; assumption)+
  from call_ok [OF this "1.prems", of k label public] show ?case
    using history_keeps(1) by (fastforce simp: pending_ok_keep list_ex_exit chain_ok_def split: prod.splits)
next
  case (2 k public d s)
  have "code_ok (run_code d)" by (intro code_okI "2.IH"; assumption)
  from drop_ok [OF this "2.prems"] show ?case by simp
next
  case (3 work dies s)
  note ih = "3.IH" [OF "3.prems"]
  define s1 where "s1 = run_acts work s"
  define s2 where "s2 = (if dies then s1\<lparr>ph_log := ph_log s1 @ [EV_fatal]\<rparr> else s1)"
  have "pending_ok (f \<or> \<not> \<not> dies) ex False s2" "history s \<subseteq> history s2"
    using ih pending_ok_fatal [of f ex s1] by (auto simp: s1_def s2_def history_def)
  from try_ok [of "\<lambda>s. end_code (if dies then Fatal None else Returns) (run_acts work s)" s "\<not> dies" s2, OF _ this]
  show ?case by (simp add: s1_def s2_def)
next
  case (4 i c m s)
  then show ?case using pending_ok_throw [OF "4.prems"] by auto
next
  case (5 s)
  then show ?case using pending_ok_capture history_keeps(3) by simp
next
  case (7 a as s)
  have "history s \<subseteq> history (run_act a s)" "history (run_act a s) \<subseteq> history (run_acts as (run_act a s))"
    using "7.IH"(1) [OF "7.prems"] "7.IH"(2) by blast+
  then show ?case using "7.IH"(1) [OF "7.prems"] "7.IH"(2) by auto
next
  case (9 m ms s)
  define s1 where "s1 = run_acts m s"
  note s1 = "9.IH"(1) [OF "9.prems"(1), folded s1_def]
  show ?case
  proof (cases "list_ex is_exit (ph_exception s1)")
    case True
    then show ?thesis using s1 by (simp add: s1_def [symmetric] Let_def)
  next
    case False
    have "pending_ok f ex False (clear_exception s1)" unfolding clear_exception_def using s1 by (intro pending_ok_handled) simp
    moreover have "ph_exception (clear_exception s1) = []" by (simp add: clear_exception_def)
    ultimately show ?thesis
      using "9.IH"(2) [OF s1_def, of f ex] False s1 by (auto simp: s1_def [symmetric] Let_def split: prod.splits)
  qed
next
  case (10 ms e s)
  obtain stopped s1 where m: "run_methods ms s = (stopped, s1)" by (rule prod.exhaust)
  have s1: "pending_ok f ex False s1" "history s \<subseteq> history s1" "stopped \<or> ph_exception s1 = []"
    using "10.IH"(1) [OF "10.prems"] m by simp_all
  show ?case
  proof (cases stopped)
    case True
    then show ?thesis using m s1 pending_ok_code by simp
  next
    case False
    then show ?thesis using m s1 pending_ok_end [OF s1(1), of e] history_end [of s1 e] by (auto split: prod.splits)
  qed
qed auto

section \<open>Which exception is kept\<close>

text \<open>The first of the exceptions that were handed over to be kept.\<close>

fun first_kept :: "php_event list \<Rightarrow> php_object list" where
  "first_kept [] = []"
| "first_kept (x # xs) = (case x of EV_kept e \<Rightarrow> if e = [] then first_kept xs else e | _ \<Rightarrow> first_kept xs)"

lemma first_kept_snoc: "first_kept (xs @ [x]) = (if first_kept xs = [] then first_kept [x] else first_kept xs)"
  by (induction xs) (auto split: php_event.split)

definition cause_ok :: "php \<Rightarrow> bool" where
  "cause_ok s \<longleftrightarrow> ph_cause s = first_kept (ph_log s)"

lemma cause_ok_simps [simp]:
  "cause_ok (s\<lparr>ph_exit := a\<rparr>) = cause_ok s" "cause_ok (s\<lparr>ph_bailout := b\<rparr>) = cause_ok s" "cause_ok (s\<lparr>ph_reason := r\<rparr>) = cause_ok s"
  "cause_ok (s\<lparr>ph_exception := a\<rparr>) = cause_ok s" "cause_ok (s\<lparr>ph_depth := d\<rparr>) = cause_ok s" "cause_ok (give_up e s) = cause_ok s"
  "cause_ok (s\<lparr>ph_log := ph_log s @ [EV_fatal]\<rparr>) = cause_ok s" "cause_ok (clear_exception s) = cause_ok s" "cause_ok (throw_new x s) = cause_ok s"
  "cause_ok (note_unwind r s) = cause_ok s" "cause_ok (bump f k s) = cause_ok s" "cause_ok (keep_exit r e s) = cause_ok s"
  by (auto simp: cause_ok_def give_up_def first_kept_snoc clear_exception_def throw_new_def note_unwind_def bump_def keep_exit_def
      Let_def split: list.split)

lemma cause_ok_keep: "cause_ok s \<Longrightarrow> cause_ok (duckdb_callback_keep_cause e s)"
  by (auto simp: cause_ok_def duckdb_callback_keep_cause_def keep_cause_def note_kept_def give_up_def first_kept_snoc)

lemma cause_ok_capture: "cause_ok s \<Longrightarrow> cause_ok (snd (capture_exception s))"
  by (simp add: capture_exception_def cause_ok_keep)

lemma cause_ok_settle: "cause_ok s \<Longrightarrow> cause_ok (settle_release p s)" "cause_ok s \<Longrightarrow> cause_ok (snd (snd (snd (settle_call l ok s))))"
  by (auto simp: settle_release_def settle_call_def Let_def intro!: cause_ok_keep)

definition keeps_cause :: "(php \<Rightarrow> bool \<times> php) \<Rightarrow> bool" where
  "keeps_cause go \<longleftrightarrow> (\<forall>s. cause_ok s \<longrightarrow> cause_ok (snd (go s)))"

lemma cause_ok_release:
  assumes "keeps_cause dtor" "cause_ok s"
  shows "cause_ok (duckdb_callback_zval_release k public dtor s)"
proof -
  obtain ok s1 where r: "dtor (enter_php k (s\<lparr>ph_exception := []\<rparr>)) = (ok, s1)" by (rule prod.exhaust)
  have "cause_ok (enter_php k (s\<lparr>ph_exception := []\<rparr>))" using assms(2) by simp
  then have "cause_ok s1" using assms(1) r unfolding keeps_cause_def by (metis snd_conv)
  then show ?thesis by (cases ok) (simp_all add: duckdb_callback_zval_release_def r Let_def cause_ok_settle)
qed

lemma cause_ok_call:
  assumes "keeps_cause go" "keeps_cause dtor" "cause_ok s"
  shows "cause_ok (snd (snd (snd (duckdb_callback_call k l go public dtor s))))"
proof -
  obtain ok s1 where r: "invoke_method go (enter_php k s) = (ok, s1)" by (rule prod.exhaust)
  have "cause_ok (enter_php k s)" using assms(3) by simp
  then have "cause_ok s1" using assms(1) r unfolding keeps_cause_def invoke_method_def by (metis Pair_inject snd_conv)
  then show ?thesis by (simp add: duckdb_callback_call_def r Let_def cause_ok_settle cause_ok_release [OF assms(2)])
qed

lemma cause_ok_end: "cause_ok s \<Longrightarrow> cause_ok (snd (end_code e s))"
  by (cases "(e, s)" rule: end_code.cases) simp_all

lemma cause_ok_try: "cause_ok (snd (work s)) \<Longrightarrow> cause_ok (snd (duckdb_callback_try work s))"
  by (auto simp: duckdb_callback_try_def split: prod.splits bool.splits)

lemma cause_ok_run:
  "cause_ok s \<Longrightarrow> cause_ok (run_act a s)" "cause_ok s \<Longrightarrow> cause_ok (run_acts as s)"
  "cause_ok s \<Longrightarrow> cause_ok (snd (run_methods ms s))" "cause_ok s \<Longrightarrow> cause_ok (snd (run_code c s))"
proof (induction a s and as s and ms s and c s rule: run_act_run_acts_run_methods_run_code.induct)
  case (1 k label keep c public d s)
  have "keeps_cause (run_code c)" "keeps_cause (run_code d)" using 1 by (simp_all add: keeps_cause_def)
  from cause_ok_call [OF this "1.prems", of k label public] show ?case by (auto split: prod.split intro: cause_ok_keep)
next
  case (2 k public d s)
  then show ?case by (simp add: cause_ok_release keeps_cause_def)
next
  case (3 work dies s)
  then show ?case by (simp add: cause_ok_try cause_ok_end)
next
  case (10 ms e s)
  then show ?case by (auto split: prod.split intro: cause_ok_end)
qed (auto simp: cause_ok_capture Let_def)

lemma cause_ok_reap:
  "cause_ok s \<Longrightarrow> cause_ok (fold (\<lambda>r s. if duckdb_copy_unwinding s then s else r s) (map run_acts reap) s)"
  by (induction reap arbitrary: s) (simp_all add: cause_ok_run(2))

section \<open>What PHP sees\<close>

definition at_rest :: "php \<Rightarrow> bool" where
  "at_rest s \<longleftrightarrow> ph_depth s = 0 \<and> ph_cause s = [] \<and> ph_exit s = [] \<and> \<not> ph_bailout s \<and> ph_reason s = []
     \<and> ph_exception s = [] \<and> ph_log s = []"

text \<open>The state in which \<open>after_method\<close> decides.\<close>

definition method_end :: "act list \<Rightarrow> act list \<Rightarrow> act list list \<Rightarrow> php \<Rightarrow> php" where
  "method_end body drain reap s =
     fold (\<lambda>r s. if duckdb_copy_unwinding s then s else r s) (map run_acts reap) (run_acts drain (run_acts body s))"

lemma pending_ok_reap:
  "pending_ok f ex False s
     \<Longrightarrow> pending_ok f ex False (fold (\<lambda>r s. if duckdb_copy_unwinding s then s else r s) (map run_acts reap) s)
"
  by (induction reap arbitrary: s) (simp_all add: pending_ok_run(2))

lemma counters_reap [simp]:
  "counters (fold (\<lambda>r s. if duckdb_copy_unwinding s then s else r s) (map run_acts reap) s) = counters s"
  by (induction reap arbitrary: s) (simp_all add: counters_run)

lemma method_end_ok:
  assumes "at_rest s"
  shows "pending_ok False False False (method_end body drain reap s)" "counters (method_end body drain reap s) = counters s"
proof -
  have "pending_ok False False False s"
    using assms by (simp add: at_rest_def pending_ok_def met_fatal_def met_exit_def chain_ok_def)
  then show "pending_ok False False False (method_end body drain reap s)" "counters (method_end body drain reap s) = counters s"
    unfolding method_end_def by (simp_all add: pending_ok_reap pending_ok_run(2) counters_run)
qed

lemma method_end_cause: "at_rest s \<Longrightarrow> ph_cause (method_end body drain reap s) = first_kept (ph_log (method_end body drain reap s))"
  unfolding cause_ok_def [symmetric] method_end_def
  by (intro cause_ok_reap cause_ok_run) (simp add: at_rest_def cause_ok_def)

lemma run_method_end:
  assumes "at_rest s" "u = method_end body drain reap s"
  shows "run_method body drain reap s =
    (if ph_bailout u then (True, re_raise False (u\<lparr>ph_bailout := False\<rparr>))
     else if ph_exit u \<noteq> [] then (True, re_raise (graceful (ph_exit u)) (give_up (ph_exit u) (u\<lparr>ph_exit := []\<rparr>)))
     else (False, duckdb_copy_chain_cause u))"
proof -
  have "ph_depth (run_acts body s) = 0" using assms(1) counters_run(2) [of body s] by (simp add: at_rest_def counters_def)
  then show ?thesis by (simp add: run_method_def after_method_def assms(2) method_end_def Let_def)
qed

lemma re_raise_fields [simp]:
  "ph_exception (re_raise g s) = [Exit_object 0 g]" "ph_cause (re_raise g s) = []" "ph_exit (re_raise g s) = ph_exit s"
  "ph_bailout (re_raise g s) = ph_bailout s" "ph_reason (re_raise g s) = []" "counters (re_raise g s) = counters s"
  by (simp_all add: re_raise_def Let_def drop_pending_cause_def clear_exception_def)

text \<open>
  C5. \<open>exit()\<close> and fatal errors inside callbacks are never swallowed, and nothing else stops PHP. Whatever handlers,
  destructors and nested methods ran, at any depth, a method called outside all callbacks unwinds PHP exactly if one of them
  exited or died; an exit is raised again in its kind. Otherwise PHP gets the method's own exception, with the first
  exception that was handed over to be kept, if there is one, at the end of its chain. The busy marks, the depth and the blocked Fiber switches are
  as before, and nothing stays pending, except for an exit object after a fatal error.
\<close>

theorem unwinding_is_raised_again:
  assumes "at_rest s"
  shows "case run_method body drain reap s of (raised, t) \<Rightarrow>
     let u = method_end body drain reap s
     in counters t = counters s \<and> ph_cause t = [] \<and> \<not> ph_bailout t \<and> ph_reason t = []
      \<and> (raised \<longleftrightarrow> met_fatal u \<or> (\<exists>e. met_exit u e))
      \<and> (raised \<longrightarrow> (\<exists>g. ph_exception t = [Exit_object 0 g] \<and> (if met_fatal u then \<not> g else \<exists>i. met_exit u (Exit_object i g))))
      \<and> (\<not> raised \<longrightarrow> ph_exception t = (if ph_exception u = [] then [] else ph_exception u @ first_kept (ph_log u)))
      \<and> (\<not> met_fatal u \<longrightarrow> ph_exit t = [])"
proof -
  define u where "u = method_end body drain reap s"
  have u: "pending_ok False False False u" "counters u = counters s" unfolding u_def by (rule method_end_ok [OF assms])+
  consider "ph_bailout u" | "\<not> ph_bailout u" "ph_exit u \<noteq> []" | "\<not> ph_bailout u" "ph_exit u = []" by blast
  then show ?thesis
  proof cases
    case 1
    then show ?thesis using u run_method_end [OF assms u_def]
      by (auto simp: u_def [symmetric] pending_ok_def intro: exI [of _ False])
  next
    case 2
    then obtain x where x: "ph_exit u = [x]" "met_exit u x" using u(1) by (auto simp: pending_ok_def)
    then obtain i g where "x = Exit_object i g" by (cases x) (auto simp: met_exit_def)
    then show ?thesis using 2 x u run_method_end [OF assms u_def]
      by (auto simp: u_def [symmetric] pending_ok_def)
  next
    case 3
    then show ?thesis using u run_method_end [OF assms u_def] method_end_cause [OF assms, of body drain reap, folded u_def]
      by (auto simp: u_def [symmetric] pending_ok_def duckdb_copy_unwinding_def duckdb_copy_chain_cause_def drop_pending_cause_def)
  qed
qed

text \<open>A handler that exits, and the exception the method throws because of it.\<close>

definition quiet :: php where
  "quiet = \<lparr>ph_depth = 0, ph_fibers = 0, ph_busy = (\<lambda>c. 0), ph_cause = [], ph_exit = [], ph_bailout = False, ph_reason = [],
     ph_exception = [], ph_dropped = [], ph_log = []\<rparr>"

definition exiting_copy :: "act list" where
  "exiting_copy =
     [A_call (Some 0) ''COPY'' True (Code [] (Throws (Exit_object 5 False))) False (Code [] Returns),
      A_throw 6 ''Exception'' ''COPY aborted by exit()'']"

lemmas boundary_eval = duckdb_callback_zval_release_def settle_release_def keep_exit_def note_unwind_def give_up_def throw_new_def
  clear_exception_def Let_def

lemma leave_enter [simp]: "bump (\<lambda>n. n - Suc 0) k (enter_php k s) = s"
  by (cases s) (simp add: bump_def split: option.split)

lemma bump_throw_new: "bump f k (throw_new e s) = throw_new e (bump f k s)"
  by (cases s; cases k) (auto simp: throw_new_def bump_def give_up_def Let_def split: list.split)

lemma release_nothing [simp]: "duckdb_callback_zval_release k public (run_code (Code [] Returns)) s = s"
  by (cases s) (simp add: duckdb_callback_zval_release_def settle_release_def Let_def)

lemma call_throws:
  assumes "ph_exception s = []" "\<not> ph_bailout s"
  shows "duckdb_callback_call k l (run_code (Code [] (Throws e))) public (run_code (Code [] Returns)) s = settle_call l True (throw_new e s)"
  using assms by (simp add: duckdb_callback_call_def invoke_method_def bump_throw_new [symmetric])

lemma keep_nothing [simp]: "duckdb_callback_keep_cause [] s = s"
  by (simp add: duckdb_callback_keep_cause_def keep_cause_def note_kept_def give_up_def)

lemma exit_not_kept [simp]: "ph_exception s = [] \<Longrightarrow> fst (snd (snd (settle_call l True (throw_new (Exit_object i g) s)))) = []"
  by (simp add: settle_call_def Let_def)

lemma quiet_fields: "ph_exception quiet = []" "\<not> ph_bailout quiet" "history quiet = {}"
  by (simp_all add: quiet_def history_def)

lemma at_rest_quiet: "at_rest quiet"
  by (simp add: at_rest_def quiet_def)

lemma unwinding_is_raised_again_witness:
  "case run_method exiting_copy [] [] quiet of (raised, t) \<Rightarrow>
     raised \<and> ph_exception t = [Exit_object 0 False] \<and> ph_exit t = [] \<and> ph_cause t = []"
proof -
  have h: "history (method_end exiting_copy [] [] quiet) =
      {EV_new (Exit_object 5 False), EV_new (Exception_object 6 ''Exception'' ''COPY aborted by exit()'')}"
    by (simp add: method_end_def exiting_copy_def call_throws split_beta quiet_fields insert_commute)
  have exits: "met_exit (method_end exiting_copy [] [] quiet) e \<longleftrightarrow> e = Exit_object 5 False" for e
    unfolding met_exit_def history_def [symmetric] h by auto
  have fatal: "\<not> met_fatal (method_end exiting_copy [] [] quiet)"
    unfolding met_fatal_def history_def [symmetric] h by simp
  obtain raised t where r: "run_method exiting_copy [] [] quiet = (raised, t)" by (rule prod.exhaust)
  show ?thesis
    using unwinding_is_raised_again [OF at_rest_quiet, of exiting_copy "[]" "[]", unfolded r prod.case Let_def exits if_not_P [OF fatal]] fatal
    unfolding r by fastforce
qed

text \<open>
  The exception: an object released during the method has a public destructor that dies of an \<open>E_USER_ERROR\<close>. Its
  unwind object is recorded as an exit beside the fatal error, and the method does not clear it: it is still pending when the
  method is over.
\<close>

lemma exit_outlives_fatal_destructor:
  "case run_method [A_release None True (Code [] (Fatal (Some 5)))] [] [] quiet of (raised, t) \<Rightarrow>
     raised \<and> ph_exception t = [Exit_object 0 False] \<and> ph_exit t = [Exit_object 5 False] \<and> duckdb_copy_unwinding t"
  by (simp add: run_method_def after_method_def re_raise_def drop_pending_cause_def duckdb_copy_unwinding_def boundary_eval quiet_def bump_def)

section \<open>Every exception has one owner\<close>

definition objects :: "php_event list \<Rightarrow> php_object multiset" where
  "objects es = sum_list (map (\<lambda>e. case e of EV_new x \<Rightarrow> {#x#} | _ \<Rightarrow> {#}) es)"

definition owned_objects :: "php \<Rightarrow> php_object multiset" where
  "owned_objects s = mset (ph_exception s) + mset (ph_cause s) + mset (ph_exit s) + mset (ph_dropped s)"

text \<open>\<open>s\<close> to \<open>s1\<close>: what was created is owned, up to the references \<open>gained\<close> and \<open>lost\<close> by the caller.\<close>

definition accounts :: "php_object multiset \<Rightarrow> php \<Rightarrow> php_object multiset \<Rightarrow> php \<Rightarrow> bool" where
  "accounts lost s gained s1 \<longleftrightarrow>
     objects (ph_log s) + owned_objects s1 + gained = objects (ph_log s1) + owned_objects s + lost"

lemma accounts_refl [simp]: "accounts {#} s {#} s"
  by (simp add: accounts_def)

lemma accounts_trans: "accounts a s b s1 \<Longrightarrow> accounts c s1 d s2 \<Longrightarrow> accounts (a + c) s (b + d) s2"
  unfolding accounts_def multiset_eq_iff
proof (intro allI)
  fix x
  assume a: "\<forall>x. count (objects (ph_log s) + owned_objects s1 + b) x = count (objects (ph_log s1) + owned_objects s + a) x"
    and c: "\<forall>x. count (objects (ph_log s1) + owned_objects s2 + d) x = count (objects (ph_log s2) + owned_objects s1 + c) x"
  show "count (objects (ph_log s) + owned_objects s2 + (b + d)) x = count (objects (ph_log s2) + owned_objects s + (a + c)) x"
    using spec [OF a, of x] spec [OF c, of x] by simp
qed

lemma accounts_ops:
  "accounts (mset e) s {#} (give_up e s)" "accounts {#} s {#} (clear_exception s)" "accounts {#} s {#} (throw_new x s)"
  "accounts (mset e) s {#} (duckdb_callback_keep_cause e s)" "accounts (mset e) s {#} (keep_exit r e s)"
  "accounts {#} s {#} (bump f k s)" "accounts {#} s {#} (note_unwind r s)" "accounts {#} s {#} (s\<lparr>ph_bailout := b\<rparr>)"
  "accounts {#} s {#} (snd (capture_exception s))"
  by (auto simp: accounts_def owned_objects_def objects_def give_up_def clear_exception_def throw_new_def duckdb_callback_keep_cause_def
      keep_cause_def keep_exit_def note_unwind_def note_kept_def bump_def capture_exception_def Let_def split: list.split)

lemma accounts_seq: "accounts a s b s1 \<Longrightarrow> accounts b s1 c s2 \<Longrightarrow> accounts a s c s2"
  using accounts_trans [of a s b s1 b c s2] by (simp add: accounts_def ac_simps)

lemma accounts_then: "accounts {#} s {#} s1 \<Longrightarrow> accounts a s1 b s2 \<Longrightarrow> accounts a s b s2"
  using accounts_trans [of "{#}" s "{#}" s1 a b s2] by simp

lemma accounts_after: "accounts a s b s1 \<Longrightarrow> accounts {#} s1 {#} s2 \<Longrightarrow> accounts a s b s2"
  using accounts_trans [of a s b s1 "{#}" "{#}" s2] by simp

lemmas accounts_steps = accounts_ops(2,3,6-9) [THEN accounts_after [rotated]]

lemma accounts_exception: "accounts (mset p) s (mset (ph_exception s)) (s\<lparr>ph_exception := p\<rparr>)"
  by (simp add: accounts_def owned_objects_def ac_simps)

lemma accounts_settle_release: "accounts (mset p) s {#} (settle_release p s)"
proof -
  define s1 where "s1 = s\<lparr>ph_exception := p\<rparr>"
  note a = accounts_exception [of p s, folded s1_def]
  have "s1 = s\<lparr>ph_exception := ph_exception s\<rparr>" if "p = ph_exception s" using that by (simp add: s1_def)
  have "accounts (mset p) s {#} (s1\<lparr>ph_exception := ph_exception s\<rparr>)" if "p = []"
    using that by (simp add: s1_def)
  then show ?thesis
    using a accounts_seq [OF a accounts_ops(4)] accounts_seq [OF a accounts_ops(5)]
    by (auto simp: settle_release_def Let_def s1_def [symmetric])
qed

lemma accounts_settle_call: "case settle_call l ok s of (_, _, e, s1) \<Rightarrow> accounts {#} s (mset e) s1"
proof -
  have c: "accounts {#} s (mset (ph_exception s)) (s\<lparr>ph_exception := []\<rparr>)" using accounts_exception [of "[]" s] by simp
  have "accounts {#} s {#} (note_unwind r (s\<lparr>ph_bailout := True\<rparr>))" for r
    by (rule accounts_then [OF accounts_ops(8) accounts_ops(7)])
  then show ?thesis using c accounts_seq [OF c accounts_ops(5)] by (auto simp: settle_call_def Let_def)
qed

definition code_accounts :: "(php \<Rightarrow> bool \<times> php) \<Rightarrow> bool" where
  "code_accounts go \<longleftrightarrow> (\<forall>s. accounts {#} s {#} (snd (go s)))"

lemma accounts_release:
  assumes "code_accounts dtor"
  shows "accounts {#} s {#} (duckdb_callback_zval_release k public dtor s)"
proof -
  obtain ok s1 where r: "dtor (enter_php k (s\<lparr>ph_exception := []\<rparr>)) = (ok, s1)" by (rule prod.exhaust)
  define s2 where "s2 = (if ok then leave_php k s1 else let s2 = leave_php k (s1\<lparr>ph_bailout := True\<rparr>)
    in if public then s2 else note_unwind ''PHP destructor stopped by a fatal error'' s2)"
  have rel: "duckdb_callback_zval_release k public dtor s = settle_release (ph_exception s) s2"
    by (simp add: duckdb_callback_zval_release_def r s2_def Let_def split: bool.split)
  have "accounts {#} (enter_php k (s\<lparr>ph_exception := []\<rparr>)) {#} s1"
    using assms r unfolding code_accounts_def by (metis snd_conv)
  then have "accounts {#} s (mset (ph_exception s)) s1"
    using accounts_after [OF accounts_steps(3) [OF accounts_exception [of "[]" s]]] by simp
  then have "accounts {#} s (mset (ph_exception s)) s2"
    unfolding s2_def Let_def by (auto intro: accounts_steps)
  then show ?thesis unfolding rel by (rule accounts_seq [OF _ accounts_settle_release])
qed

lemma accounts_call:
  assumes "code_accounts go" "code_accounts dtor"
  shows "case duckdb_callback_call k l go public dtor s of (_, _, e, s1) \<Rightarrow> accounts {#} s (mset e) s1"
proof -
  obtain ok s1 where r: "invoke_method go (enter_php k s) = (ok, s1)" by (rule prod.exhaust)
  have "accounts {#} (enter_php k s) {#} s1"
    using assms(1) [unfolded code_accounts_def, THEN spec [of _ "enter_php k s"]] r by (auto simp: invoke_method_def split: if_splits)
  then have s1: "accounts {#} s {#} s1" by (rule accounts_then [OF accounts_ops(6)])
  define s2 where "s2 = leave_php k (duckdb_callback_zval_release k public dtor s1)"
  have s2: "accounts {#} s {#} s2"
    unfolding s2_def by (rule accounts_then [OF s1 accounts_then [OF accounts_release [OF assms(2)] accounts_ops(6)]])
  obtain out m e s3 where c: "settle_call l (ok \<and> \<not> ph_bailout (duckdb_callback_zval_release k public dtor s1)) s2 = (out, m, e, s3)"
    by (metis prod_cases4)
  have "accounts {#} s2 (mset e) s3" using accounts_settle_call [where l = l and ok = "ok \<and> \<not> ph_bailout (duckdb_callback_zval_release k public dtor s1)" and s = s2] c by simp
  then have "accounts {#} s (mset e) s3" by (rule accounts_then [OF s2])
  then show ?thesis using c by (simp add: duckdb_callback_call_def r s2_def Let_def)
qed

lemma accounts_end: "accounts {#} s {#} (snd (end_code e s))"
proof -
  have log: "accounts {#} s {#} (s\<lparr>ph_log := ph_log s @ [EV_fatal]\<rparr>)" by (simp add: accounts_def owned_objects_def objects_def)
  show ?thesis by (cases "(e, s)" rule: end_code.cases) (auto intro: log accounts_steps)
qed

lemma accounts_try:
  assumes "accounts {#} s {#} (snd (work s))"
  shows "accounts {#} s {#} (snd (duckdb_callback_try work s))"
proof -
  have depth: "accounts {#} t {#} (t\<lparr>ph_depth := d, ph_bailout := True\<rparr>)" for t d by (simp add: accounts_def owned_objects_def)
  obtain ok s1 where w: "work s = (ok, s1)" by (rule prod.exhaust)
  then have "accounts {#} s {#} (note_unwind r (s1\<lparr>ph_depth := d, ph_bailout := True\<rparr>))" for r d
    using assms by (intro accounts_steps(4) accounts_after [OF _ depth]) simp
  then show ?thesis using assms w by (cases ok) (simp_all add: duckdb_callback_try_def)
qed

lemma accounts_run:
  "accounts {#} s {#} (run_act a s)" "accounts {#} s {#} (run_acts as s)"
  "accounts {#} s {#} (snd (run_methods ms s))" "accounts {#} s {#} (snd (run_code c s))"
proof (induction a s and as s and ms s and c s rule: run_act_run_acts_run_methods_run_code.induct)
  case (1 k label keep c public d s)
  then have "code_accounts (run_code c)" "code_accounts (run_code d)" by (simp_all add: code_accounts_def)
  from accounts_call [OF this, where k = k and l = label and public = public and s = s] show ?case
    by (auto split: prod.splits intro: accounts_seq accounts_ops(1,4))
next
  case (2 k public d s)
  then show ?case by (simp add: accounts_release code_accounts_def)
next
  case (3 work dies s)
  have "accounts {#} s {#} (snd (end_code (if dies then Fatal None else Returns) (run_acts work s)))"
    by (rule accounts_then [OF 3 accounts_end])
  then show ?case using accounts_try [of s "\<lambda>s. end_code (if dies then Fatal None else Returns) (run_acts work s)"] by simp
next
  case (7 a as s)
  then show ?case by (auto intro: accounts_then)
next
  case (9 m ms s)
  then show ?case using accounts_then [OF accounts_steps(1) [OF 9(1)]] by (auto simp: Let_def)
next
  case (10 ms e s)
  then show ?case by (auto split: prod.split intro: accounts_then accounts_end)
qed (simp_all add: accounts_ops)

lemma accounts_re_raise: "accounts {#} s {#} (re_raise g s)"
proof -
  have drop: "accounts {#} t {#} (drop_pending_cause t)" and reason: "accounts {#} t {#} (t\<lparr>ph_reason := r\<rparr>)" for t r
    by (simp_all add: accounts_def owned_objects_def drop_pending_cause_def give_up_def)
  show ?thesis unfolding re_raise_def Let_def by (intro accounts_steps accounts_then [OF reason drop])
qed

text \<open>
  C31. Every exception object that handlers, destructors and methods create has one owner at the end: it is part of the
  exception PHP gets, or its reference was given up, once; or it is the exit object that outlived a fatal error. No
  reference leaks and none is given up twice, whichever of the objects were kept as causes, chained or replaced.
\<close>

theorem exceptions_are_owned_once:
  assumes "at_rest s" "ph_dropped s = []"
  shows "case run_method body drain reap s of (raised, t) \<Rightarrow>
    mset (ph_exception t) + mset (ph_exit t) + mset (ph_dropped t) = objects (ph_log t)"
proof -
  define u where "u = method_end body drain reap s"
  have fold: "accounts {#} v {#} (fold (\<lambda>r s. if duckdb_copy_unwinding s then s else r s) (map run_acts reap) v)" for v
    by (induction reap arbitrary: v) (auto intro: accounts_then [OF accounts_run(2)])
  have u: "accounts {#} s {#} u"
    unfolding u_def method_end_def by (rule accounts_then [OF accounts_run(2) accounts_then [OF accounts_run(2) fold]])
  obtain raised t where t: "run_method body drain reap s = (raised, t)" by (rule prod.exhaust)
  have "accounts {#} u {#} t"
  proof -
    have bail: "accounts {#} u {#} (u\<lparr>ph_bailout := False\<rparr>)" "accounts {#} u {#} (give_up (ph_exit u) (u\<lparr>ph_exit := []\<rparr>))"
      "accounts {#} u {#} (duckdb_copy_chain_cause u)"
      by (simp_all add: accounts_def owned_objects_def give_up_def duckdb_copy_chain_cause_def drop_pending_cause_def)
    show ?thesis
      using run_method_end [OF assms(1) u_def] t accounts_then [OF bail(1) accounts_re_raise] accounts_then [OF bail(2) accounts_re_raise] bail(3)
      by (auto split: if_splits)
  qed
  then have "accounts {#} s {#} t" by (rule accounts_then [OF u])
  moreover have "ph_cause t = []"
    using run_method_end [OF assms(1) u_def] t by (auto simp: duckdb_copy_chain_cause_def drop_pending_cause_def split: if_splits)
  ultimately show ?thesis
    using assms t by (simp add: at_rest_def accounts_def owned_objects_def objects_def ac_simps)
qed

lemma exceptions_are_owned_once_witness:
  "case run_method exiting_copy [] [] quiet of (raised, t) \<Rightarrow>
    mset (ph_exception t) + mset (ph_exit t) + mset (ph_dropped t) = objects (ph_log t)"
  by (rule exceptions_are_owned_once [OF at_rest_quiet]) (simp add: quiet_def)


end
