(* ===== verification/Copy_Format.thy ===== *)
theory Copy_Format
  imports Callbacks Database Logical_Type Php_Array Php_Value "HOL-Library.AList" "HOL-Library.List_Lexorder" "HOL-Library.Char_ord"
    "HOL-Library.Product_Lexorder"
begin

text \<open>
  COPY formats of PHP, \<open>src/src/copy.cpp\<close>: the registrations of connections, the slots of a DuckDB instance through which its
  binder finds them, the bind callback, and the arguments of handlers.

  Connections are named by DuckDB's connection ids. Registrations and PHP objects are numbers; a slot maps connection ids to
  registrations. DuckDB's answers while it registers a function are arguments.
\<close>

section \<open>Registrations\<close>

record registration =
  rg_name :: string
  rg_owner :: thread
  rg_alive :: bool
  rg_conn :: nat
  rg_function :: "nat option"

record copy_registry =
  cr_regs :: "registration list"
  cr_slots :: "(string \<times> (nat \<times> nat) list) list"
  cr_conns :: "nat \<Rightarrow> (string \<times> nat) list"
  cr_counts :: "nat \<Rightarrow> nat"
  cr_released :: "nat list"

definition no_formats :: copy_registry where
  "no_formats = \<lparr>cr_regs = [], cr_slots = [], cr_conns = (\<lambda>k. []), cr_counts = (\<lambda>k. 0), cr_released = []\<rparr>"

definition valid_name :: "string \<Rightarrow> bool" where
  "valid_name name \<longleftrightarrow> name \<noteq> [] \<and> CHR 0x00 \<notin> set name"

definition lower_char :: "char \<Rightarrow> char" where
  "lower_char c = (if 65 \<le> (of_char c :: nat) \<and> (of_char c :: nat) \<le> 90 then char_of ((of_char c :: nat) + 32) else c)"

definition lower_name :: "string \<Rightarrow> string" where
  "lower_name = map lower_char"

definition reserved_name :: "string \<Rightarrow> bool" where
  "reserved_name lower \<longleftrightarrow> lower \<in> set [''csv'', ''parquet'', ''json'', ''avro'', ''iceberg'', ''ndjson'', ''jsonl'']"

text \<open>The statement that probes who answers for a format.\<close>

definition quoted_name :: "string \<Rightarrow> string" where
  "quoted_name lower = quote dquote lower"

definition probe_sql :: "string \<Rightarrow> string \<Rightarrow> string" where
  "probe_sql lower token =
     ''COPY (SELECT 1) TO '' @ [squote] @ ''duckdb_php_probe'' @ [squote] @ '' (FORMAT '' @ quoted_name lower @ '', DUCKDB_PHP_PROBE '' @
       [squote] @ token @ [squote] @ '')''"

text \<open>
  \<open>connected\<close>: the private connection opens; \<open>registered\<close>: DuckDB takes the function; \<open>ours\<close>: the probe was bound by this
  slot's callback.
\<close>

record slot_answers =
  sa_connected :: bool
  sa_registered :: bool
  sa_ours :: bool

definition ensure_slot :: "string \<Rightarrow> slot_answers \<Rightarrow> copy_registry \<Rightarrow> (throwable, unit) result \<times> copy_registry" where
  "ensure_slot lower ans r =
     (if map_of (cr_slots r) lower \<noteq> None then (Inr (), r)
      else if \<not> sa_connected ans
      then (Inl (duckdb_throw_msg (Some ''Could not open a connection to register the COPY format'')), r)
      else if \<not> sa_registered ans then (Inl (duckdb_throw_msg (Some ''DuckDB could not register the COPY format'')), r)
      else if \<not> sa_ours ans
      then (Inl (duckdb_throw_msg (Some (''COPY format '' @ [squote] @ lower @ [squote] @ '' is already provided by DuckDB or an extension''))), r)
      else (Inr (), r\<lparr>cr_slots := AList.update lower [] (cr_slots r)\<rparr>))"

definition retire_registration :: "nat \<Rightarrow> copy_registry \<Rightarrow> copy_registry" where
  "retire_registration i r =
     (let g = cr_regs r ! i
      in r\<lparr>cr_regs := (cr_regs r)[i := g\<lparr>rg_alive := False, rg_function := None\<rparr>],
           cr_released := cr_released r @ (case rg_function g of None \<Rightarrow> [] | Some f \<Rightarrow> [f])\<rparr>)"

definition set_entries :: "string \<Rightarrow> ((nat \<times> nat) list \<Rightarrow> (nat \<times> nat) list) \<Rightarrow> copy_registry \<Rightarrow> copy_registry" where
  "set_entries name f r =
     (case map_of (cr_slots r) name of
        None \<Rightarrow> r
      | Some es \<Rightarrow> r\<lparr>cr_slots := AList.update name (f es) (cr_slots r)\<rparr>)"

text \<open>The end of \<open>registerCopyToFunction\<close>, once the slot exists.\<close>

definition add_registration :: "thread \<Rightarrow> nat \<Rightarrow> string \<Rightarrow> nat \<Rightarrow> copy_registry \<Rightarrow> copy_registry" where
  "add_registration th k display f r =
     (let lower = lower_name display;
          i = length (cr_regs r);
          r1 = r\<lparr>cr_regs := cr_regs r @ [\<lparr>rg_name = display, rg_owner = th, rg_alive = True, rg_conn = k, rg_function = Some f\<rparr>]\<rparr>;
          r2 = set_entries lower (AList.update k i) r1
      in (case map_of (cr_conns r2 k) lower of
            Some j \<Rightarrow> retire_registration j r2
          | None \<Rightarrow> r2\<lparr>cr_counts := (cr_counts r2)(k := cr_counts r2 k + 1)\<rparr>)
         \<lparr>cr_conns := (cr_conns r2)(k := AList.update lower i (cr_conns r2 k))\<rparr>)"

definition registerCopyToFunction ::
    "thread \<Rightarrow> conn option \<Rightarrow> nat \<Rightarrow> nat \<Rightarrow> string \<Rightarrow> nat \<Rightarrow> slot_answers \<Rightarrow> copy_registry
      \<Rightarrow> (throwable, unit) result \<times> copy_registry" where
  "registerCopyToFunction th c depth k display f ans r =
     (case rbind (duckdb_connection_guard c) (\<lambda>_.
             if depth > 0 then Inl (duckdb_throw_msg (Some ''COPY formats cannot be registered inside a COPY handler''))
             else rbind (duckdb_conn_check_not_busy th (the c)) (\<lambda>_.
               if \<not> valid_name display then Inl (ArgValueError 1 ''must be non-empty and contain no NUL byte'')
               else if reserved_name (lower_name display) then Inl (ArgValueError 1 ''must not name a built-in COPY format'')
               else Inr ())) of
        Inl e \<Rightarrow> (Inl e, r)
      | Inr _ \<Rightarrow>
          (case ensure_slot (lower_name display) ans r of
             (Inl e, r1) \<Rightarrow> (Inl e, r1)
           | (Inr _, r1) \<Rightarrow> (Inr (), add_registration th k display f r1)))"

definition free_registration :: "nat \<Rightarrow> string \<times> nat \<Rightarrow> copy_registry \<Rightarrow> copy_registry" where
  "free_registration k e r =
     set_entries (fst e) (\<lambda>es. if map_of es k = Some (snd e) then AList.delete k es else es) (retire_registration (snd e) r)"

definition duckdb_copy_connection_free :: "nat \<Rightarrow> copy_registry \<Rightarrow> copy_registry" where
  "duckdb_copy_connection_free k r =
     (if cr_conns r k = [] then r
      else (fold (free_registration k) (cr_conns r k) r)
        \<lparr>cr_conns := (cr_conns r)(k := []), cr_counts := (cr_counts r)(k := 0)\<rparr>)"

section \<open>Binding\<close>

definition duckdb_copy_not_pumped_message :: string where
  "duckdb_copy_not_pumped_message =
     ''PHP COPY formats run only through query(), execute(), prepared statements and queryPending(), '' @
     ''not queryAsync() or executeAsync()''"

definition stale_message :: "registration \<Rightarrow> string" where
  "stale_message g = ''COPY format '' @ [squote] @ rg_name g @ [squote] @
     '' was registered again or released after this statement was prepared; prepare it again''"

definition describe :: "string \<Rightarrow> string \<Rightarrow> call_outcome \<Rightarrow> string \<Rightarrow> string" where
  "describe format method outcome message =
     (if outcome = CO_exception then ''COPY format '' @ [squote] @ format @ [squote] @ '' '' @ method @ ''(): '' @ message
      else message)"

definition find_registration :: "string \<Rightarrow> nat \<Rightarrow> copy_registry \<Rightarrow> nat option" where
  "find_registration name k r =
     (case map_of (cr_slots r) name of
        None \<Rightarrow> None
      | Some es \<Rightarrow> (case map_of es k of None \<Rightarrow> None | Some i \<Rightarrow> if rg_alive (cr_regs r ! i) then Some i else None))"

text \<open>
  What the bind callback does: set an error, or bind on this thread or through the connection's session. \<open>token\<close>: the
  statement is a probe; \<open>session\<close>: an open session marshals binds.
\<close>

datatype bind_action = BA_error string | BA_bind nat | BA_marshal nat

definition copy_bind_callback :: "string \<Rightarrow> nat \<Rightarrow> string option \<Rightarrow> thread \<Rightarrow> bool \<Rightarrow> copy_registry \<Rightarrow> bind_action" where
  "copy_bind_callback slot k token th session r =
     (if token \<noteq> None then BA_error ''COPY format registration probe''
      else case find_registration slot k r of
        None \<Rightarrow> BA_error (''[copy-function-declined] COPY format '' @ [squote] @ slot @ [squote] @ '' is not registered on this connection'')
      | Some i \<Rightarrow>
          if rg_owner (cr_regs r ! i) = th then BA_bind i
          else if \<not> session then BA_error duckdb_copy_not_pumped_message
          else BA_marshal i)"

record copy_bind =
  cb_registration :: nat
  cb_types :: "string list"
  cb_names :: "string list"

text \<open>
  The work on the request thread. \<open>dies\<close>: a bailout while the arguments are built; \<open>native\<close>: \<open>getTableNames\<close> binds without calling
  PHP; \<open>bind\<close>: the handler; \<open>dtor\<close>: what runs when the call drops the last reference to it. The second result: whether the
  statement that is being prepared is known to use a format. \<open>BO_throws\<close>: a column type without SQL text.
\<close>

datatype bind_outcome = BO_bound copy_bind | BO_error string | BO_throws string | BO_bailout

definition bind_on_request_thread ::
    "bool \<Rightarrow> bool \<Rightarrow> ltype list \<Rightarrow> nat \<Rightarrow> registration \<Rightarrow> code \<Rightarrow> code \<Rightarrow> php \<Rightarrow> bind_outcome \<times> bool \<times> php" where
  "bind_on_request_thread native dies types i g bind dtor s =
     (if ph_depth s > 0 then (BO_error ''PHP COPY formats cannot run inside another COPY handler'', False, s)
      else case traverse duckdb_logical_type_sql types of
        Inl e \<Rightarrow> (BO_throws e, False, s)
      | Inr sqls \<Rightarrow>
          let b = \<lparr>cb_registration = i, cb_types = sqls, cb_names = map (\<lambda>n. ''col'' @ dec_string n) [0..<length types]\<rparr>
          in if native then (BO_bound b, True, s)
             else if dies then (BO_bailout, True, run_act (A_try [] True) s)
             else case duckdb_callback_call (Some (rg_conn g)) ''COPY'' (run_code bind) True (run_code dtor) s of
                 (outcome, message, thrown, s1) \<Rightarrow>
                   if outcome \<noteq> CO_ok
                   then (BO_error (describe (rg_name g) ''bind'' outcome message), True, duckdb_callback_keep_cause thrown s1)
                   else (BO_bound b, True, s1))"

section \<open>Arguments of handlers\<close>

text \<open>A duckdb_value as far as \<open>decode_value\<close> looks into it; \<open>decode\<close> is the vector decoder on any other value.\<close>

datatype 'v option_value = OV_null | OV_struct "(string \<times> 'v option_value) list" 'v | OV_other 'v

definition unnamed_struct :: "(string \<times> 'v option_value) list \<Rightarrow> bool" where
  "unnamed_struct fs \<longleftrightarrow> fs \<noteq> [] \<and> list_all (\<lambda>f. fst f = []) fs"

fun decode_value :: "('v \<Rightarrow> zval option) \<Rightarrow> 'v option_value \<Rightarrow> zval" where
  "decode_value decode OV_null = Z_null"
| "decode_value decode (OV_struct fs v) =
     (if unnamed_struct fs then Z_array 0 (fold (\<lambda>f a. add_next_index_zval (decode_value decode (snd f)) a) fs [])
      else case decode v of None \<Rightarrow> Z_null | Some z \<Rightarrow> z)"
| "decode_value decode (OV_other v) = (case decode v of None \<Rightarrow> Z_null | Some z \<Rightarrow> z)"

definition decode_options :: "('v \<Rightarrow> zval option) \<Rightarrow> 'v option_value option \<Rightarrow> (php_key \<times> zval) list" where
  "decode_options decode options =
     (case options of
        Some (OV_struct fs v) \<Rightarrow>
          fold (\<lambda>(name, i) a. add_assoc_zval_ex name (decode_value decode (snd (fs ! i))) a)
            (sort (zip (map fst fs) [0..<length fs])) []
      | _ \<Rightarrow> [])"

definition option_is_probe :: "('v \<Rightarrow> string option) \<Rightarrow> 'v option_value option \<Rightarrow> string option" where
  "option_is_probe text options =
     (case options of
        Some (OV_struct fs v) \<Rightarrow>
          (case find (\<lambda>f. fst f = ''DUCKDB_PHP_PROBE'') fs of
             None \<Rightarrow> None
           | Some (_, OV_other t) \<Rightarrow> Some (case text t of None \<Rightarrow> [] | Some s \<Rightarrow> s)
           | Some _ \<Rightarrow> Some [])
      | _ \<Rightarrow> None)"

definition is_alpha :: "char \<Rightarrow> bool" where
  "is_alpha c \<longleftrightarrow> (let n = (of_char c :: nat) in 65 \<le> n \<and> n \<le> 90 \<or> 97 \<le> n \<and> n \<le> 122)"

text \<open>\<open>cwd\<close> is the answer of \<open>getcwd\<close>; the version for Windows differs in the separator.\<close>

definition absolute_path :: "string option \<Rightarrow> string option \<Rightarrow> string" where
  "absolute_path cwd path =
     (let v = (case path of None \<Rightarrow> [] | Some p \<Rightarrow> p)
      in if v = [] \<or> contains ''://'' v \<or> hd v = CHR 0x2F \<or> hd v = CHR 0x5C
            \<or> (length v > 1 \<and> is_alpha (hd v) \<and> v ! 1 = CHR '':'')
         then v
         else case cwd of None \<Rightarrow> v | Some d \<Rightarrow> d @ ''/'' @ v)"

section \<open>What a statement finds\<close>

text \<open>
  The contract of the registry: which formats the instance has, and what name and handler each connection has
  registered for a format.
\<close>

type_synonym formats = "string set \<times> (string \<times> nat \<Rightarrow> (string \<times> nat) option)"

datatype format_op =
    F_register thread "conn option" nat nat string nat slot_answers
  | F_free nat

fun format_step :: "format_op \<Rightarrow> copy_registry \<Rightarrow> copy_registry" where
  "format_step (F_register th c depth k display f ans) r = snd (registerCopyToFunction th c depth k display f ans r)"
| "format_step (F_free k) r = duckdb_copy_connection_free k r"

definition may_register :: "thread \<Rightarrow> conn option \<Rightarrow> nat \<Rightarrow> string \<Rightarrow> bool" where
  "may_register th c depth display \<longleftrightarrow> c \<noteq> None \<and> \<not> conn_closed (the c) \<and> depth = 0 \<and> \<not> duckdb_conn_busy_here th (the c)
     \<and> valid_name display \<and> \<not> reserved_name (lower_name display)"

fun format_spec :: "format_op \<Rightarrow> formats \<Rightarrow> formats" where
  "format_spec (F_register th c depth k display f ans) (known, m) =
     (if may_register th c depth display
         \<and> (lower_name display \<in> known \<or> sa_connected ans \<and> sa_registered ans \<and> sa_ours ans)
      then (insert (lower_name display) known, m((lower_name display, k) \<mapsto> (display, f)))
      else (known, m))"
| "format_spec (F_free k) (known, m) = (known, \<lambda>(n, c). if c = k then None else m (n, c))"

definition found :: "copy_registry \<Rightarrow> string \<times> nat \<Rightarrow> (string \<times> nat) option" where
  "found r = (\<lambda>(n, k). case find_registration n k r of
     None \<Rightarrow> None | Some i \<Rightarrow> map_option (\<lambda>f. (rg_name (cr_regs r ! i), f)) (rg_function (cr_regs r ! i)))"

definition abstract_formats :: "copy_registry \<Rightarrow> formats" where
  "abstract_formats r = (fst ` set (cr_slots r), found r)"

text \<open>
  A registration of a connection is alive, holds its handler, and is what the slot of its format has for the connection; no
  slot has anything else.
\<close>

definition slot_entry :: "copy_registry \<Rightarrow> string \<Rightarrow> nat \<Rightarrow> nat option" where
  "slot_entry r n k = (case map_of (cr_slots r) n of None \<Rightarrow> None | Some es \<Rightarrow> map_of es k)"

definition registry_ok :: "copy_registry \<Rightarrow> bool" where
  "registry_ok r \<longleftrightarrow>
     (\<forall>n k. slot_entry r n k = map_of (cr_conns r k) n)
   \<and> (\<forall>k. distinct (map fst (cr_conns r k)) \<and> cr_counts r k = length (cr_conns r k))
   \<and> (\<forall>n k i. map_of (cr_conns r k) n = Some i \<longrightarrow> i < length (cr_regs r) \<and> rg_alive (cr_regs r ! i)
        \<and> rg_function (cr_regs r ! i) \<noteq> None \<and> rg_conn (cr_regs r ! i) = k \<and> lower_name (rg_name (cr_regs r ! i)) = n)"

lemma registry_okD:
  assumes "registry_ok r"
  shows "slot_entry r n k = map_of (cr_conns r k) n" "distinct (map fst (cr_conns r k))" "cr_counts r k = length (cr_conns r k)"
    "map_of (cr_conns r k) n = Some i \<Longrightarrow> i < length (cr_regs r) \<and> rg_alive (cr_regs r ! i)
        \<and> rg_function (cr_regs r ! i) \<noteq> None \<and> rg_conn (cr_regs r ! i) = k \<and> lower_name (rg_name (cr_regs r ! i)) = n"
  using assms unfolding registry_ok_def by blast+

lemma found_entry:
  assumes "registry_ok r"
  shows "found r (n, k) = map_option (\<lambda>i. (rg_name (cr_regs r ! i), the (rg_function (cr_regs r ! i)))) (map_of (cr_conns r k) n)"
proof (cases "map_of (cr_conns r k) n")
  case None
  then show ?thesis using registry_okD(1) [OF assms, of n k] by (auto simp: found_def find_registration_def slot_entry_def split: option.splits)
next
  case (Some i)
  then show ?thesis using registry_okD(1) [OF assms, of n k] registry_okD(4) [OF assms Some]
    by (auto simp: found_def find_registration_def slot_entry_def split: option.splits)
qed

lemma slot_entry_set_entries:
  assumes "n \<in> fst ` set (cr_slots r)"
  shows "slot_entry (set_entries n f r) n' k = (if n' = n then map_of (f (the (map_of (cr_slots r) n))) k else slot_entry r n' k)"
proof -
  obtain es where "map_of (cr_slots r) n = Some es" using assms by (metis map_of_eq_None_iff not_None_eq)
  then show ?thesis by (simp add: slot_entry_def set_entries_def update_conv' split: option.split)
qed

lemma set_entries_fields [simp]:
  "cr_regs (set_entries n f r) = cr_regs r" "cr_conns (set_entries n f r) = cr_conns r" "cr_counts (set_entries n f r) = cr_counts r"
  "cr_released (set_entries n f r) = cr_released r" "fst ` set (cr_slots (set_entries n f r)) = fst ` set (cr_slots r)"
proof -
  show "fst ` set (cr_slots (set_entries n f r)) = fst ` set (cr_slots r)"
    unfolding dom_map_of_conv_image_fst [symmetric] by (auto simp: set_entries_def update_conv' split: option.split)
qed (simp_all add: set_entries_def split: option.split)

lemma retire_fields [simp]:
  "cr_slots (retire_registration i r) = cr_slots r" "cr_conns (retire_registration i r) = cr_conns r"
  "cr_counts (retire_registration i r) = cr_counts r" "length (cr_regs (retire_registration i r)) = length (cr_regs r)"
  by (simp_all add: retire_registration_def Let_def)

lemma retire_other: "j \<noteq> i \<Longrightarrow> cr_regs (retire_registration i r) ! j = cr_regs r ! j"
  by (simp add: retire_registration_def Let_def)

lemma slot_entry_cong [simp]:
  "slot_entry (retire_registration i r) = slot_entry r" "slot_entry (r\<lparr>cr_regs := a\<rparr>) = slot_entry r"
  "slot_entry (r\<lparr>cr_conns := b\<rparr>) = slot_entry r" "slot_entry (r\<lparr>cr_counts := c\<rparr>) = slot_entry r"
  by (simp_all add: slot_entry_def fun_eq_iff)

lemma length_update: "length (AList.update k v xs) = (if map_of xs k = None then Suc (length xs) else length xs)"
  by (induction xs) auto

definition new_registration :: "thread \<Rightarrow> nat \<Rightarrow> string \<Rightarrow> nat \<Rightarrow> registration" where
  "new_registration th k display f = \<lparr>rg_name = display, rg_owner = th, rg_alive = True, rg_conn = k, rg_function = Some f\<rparr>"

lemmas add_registration_unfold = add_registration_def new_registration_def [symmetric] Let_def

lemma add_registration_conns:
  "map_of (cr_conns (add_registration th k display f r) c) m =
     (if c = k \<and> m = lower_name display then Some (length (cr_regs r)) else map_of (cr_conns r c) m)"
  "distinct (map fst (cr_conns r c)) \<Longrightarrow> distinct (map fst (cr_conns (add_registration th k display f r) c))"
  "cr_counts r c = length (cr_conns r c) \<Longrightarrow>
     cr_counts (add_registration th k display f r) c = length (cr_conns (add_registration th k display f r) c)"
  by (auto simp: add_registration_unfold update_conv' distinct_update length_update split: option.split)

lemma add_registration_slots:
  "fst ` set (cr_slots (add_registration th k display f r)) = fst ` set (cr_slots r)"
  "lower_name display \<in> fst ` set (cr_slots r) \<Longrightarrow> slot_entry (add_registration th k display f r) m c =
     (if m = lower_name display \<and> c = k then Some (length (cr_regs r)) else slot_entry r m c)"
proof -
  define r1 where "r1 = r\<lparr>cr_regs := cr_regs r @ [new_registration th k display f]\<rparr>"
  define i where "i = length (cr_regs r)"
  show "fst ` set (cr_slots (add_registration th k display f r)) = fst ` set (cr_slots r)"
    by (simp add: add_registration_unfold split: option.split)
  assume slot: "lower_name display \<in> fst ` set (cr_slots r)"
  then obtain es where es: "map_of (cr_slots r) (lower_name display) = Some es" by (metis map_of_eq_None_iff not_None_eq)
  have "slot_entry (add_registration th k display f r) m c = slot_entry (set_entries (lower_name display) (AList.update k i) r1) m c"
    by (simp add: add_registration_unfold r1_def i_def split: option.split)
  also have "\<dots> = (if m = lower_name display \<and> c = k then Some i else slot_entry r m c)"
    using slot slot_entry_set_entries [of "lower_name display" r1 "AList.update k i" m c] es
    by (simp add: r1_def update_conv') (simp add: slot_entry_def)
  finally show "slot_entry (add_registration th k display f r) m c =
      (if m = lower_name display \<and> c = k then Some (length (cr_regs r)) else slot_entry r m c)" by (simp add: i_def)
qed

lemma add_registration_regs:
  assumes ok: "registry_ok r" and j: "map_of (cr_conns (add_registration th k display f r) c) m = Some j"
  shows "j < length (cr_regs (add_registration th k display f r))"
    "cr_regs (add_registration th k display f r) ! j = (if j = length (cr_regs r) then new_registration th k display f else cr_regs r ! j)"
proof -
  let ?i = "length (cr_regs r)"
  have less: "j < Suc ?i" using j registry_okD(4) [OF ok] by (fastforce simp: add_registration_conns split: if_splits)
  have other: "j \<noteq> j'" if old: "map_of (cr_conns r k) (lower_name display) = Some j'" for j'
    using registry_okD(4) [OF ok old] registry_okD(4) [OF ok, of c m j] j by (auto simp: add_registration_conns split: if_splits)
  show "j < length (cr_regs (add_registration th k display f r))"
    using less by (simp add: add_registration_unfold split: option.split)
  show "cr_regs (add_registration th k display f r) ! j = (if j = ?i then new_registration th k display f else cr_regs r ! j)"
    using less other by (auto simp: add_registration_unfold nth_append retire_other less_Suc_eq split: option.split)
qed

lemma add_registration_ok:
  assumes ok: "registry_ok r" and slot: "lower_name display \<in> fst ` set (cr_slots r)"
  shows "registry_ok (add_registration th k display f r)"
    "abstract_formats (add_registration th k display f r)
      = (fst ` set (cr_slots r), (found r)((lower_name display, k) \<mapsto> (display, f)))"
proof -
  let ?r = "add_registration th k display f r"
  note regs = add_registration_regs [OF ok, where th = th and k = k and display = display and f = f]
    and conns = add_registration_conns [where th = th and k = k and display = display and f = f and r = r]
  have old: "map_of (cr_conns r c) m = Some j \<Longrightarrow> j \<noteq> length (cr_regs r)" for c m j
    using registry_okD(4) [OF ok] by fastforce
  show ok': "registry_ok ?r"
    unfolding registry_ok_def
  proof (intro conjI allI impI)
    show "slot_entry ?r m c = map_of (cr_conns ?r c) m" for m c
      using registry_okD(1) [OF ok] slot by (auto simp: add_registration_slots conns(1))
    show "distinct (map fst (cr_conns ?r c))" "cr_counts ?r c = length (cr_conns ?r c)" for c
      using registry_okD(2,3) [OF ok] conns(2,3) by blast+
    show "j < length (cr_regs ?r)" "rg_alive (cr_regs ?r ! j)" "rg_function (cr_regs ?r ! j) \<noteq> None" "rg_conn (cr_regs ?r ! j) = c"
      "lower_name (rg_name (cr_regs ?r ! j)) = m" if "map_of (cr_conns ?r c) m = Some j" for m c j
      using regs [OF that] that registry_okD(4) [OF ok, of c m j] old [of c m j]
      by (auto simp: conns(1) new_registration_def split: if_splits)
  qed
  have "found ?r (m, c) = ((found r)((lower_name display, k) \<mapsto> (display, f))) (m, c)" for m c
  proof (cases "map_of (cr_conns ?r c) m")
    case None
    then show ?thesis using found_entry [OF ok'] found_entry [OF ok] by (auto simp: conns(1) split: if_splits)
  next
    case (Some j)
    then show ?thesis using found_entry [OF ok'] found_entry [OF ok] regs [OF Some] old
      by (auto simp: conns(1) new_registration_def split: if_splits)
  qed
  then show "abstract_formats ?r = (fst ` set (cr_slots r), (found r)((lower_name display, k) \<mapsto> (display, f)))"
    by (simp add: abstract_formats_def add_registration_slots fun_eq_iff)
qed

lemma free_registration_entry:
  assumes "slot_entry r n k = Some i"
  shows "slot_entry (free_registration k (n, i) r) m c = (if m = n \<and> c = k then None else slot_entry r m c)"
proof -
  obtain es where es: "map_of (cr_slots r) n = Some es" "map_of es k = Some i"
    using assms by (auto simp: slot_entry_def split: option.splits)
  then have "n \<in> fst ` set (cr_slots (retire_registration i r))" by (force dest: map_of_SomeD)
  then show ?thesis
    using es by (simp add: free_registration_def slot_entry_set_entries delete_conv') (simp add: slot_entry_def)
qed

lemma free_registration_fields [simp]:
  "cr_conns (free_registration k e r) = cr_conns r" "cr_counts (free_registration k e r) = cr_counts r"
  "length (cr_regs (free_registration k e r)) = length (cr_regs r)"
  "fst ` set (cr_slots (free_registration k e r)) = fst ` set (cr_slots r)"
  "j \<noteq> snd e \<Longrightarrow> cr_regs (free_registration k e r) ! j = cr_regs r ! j"
  by (simp_all add: free_registration_def retire_other)

lemma free_registrations:
  assumes "distinct (map fst es)" "\<forall>(n, i) \<in> set es. slot_entry r n k = Some i"
  shows "case fold (free_registration k) es r of r' \<Rightarrow>
    (\<forall>m c. slot_entry r' m c = (if c = k \<and> m \<in> fst ` set es then None else slot_entry r m c))
    \<and> cr_conns r' = cr_conns r \<and> cr_counts r' = cr_counts r \<and> length (cr_regs r') = length (cr_regs r)
    \<and> fst ` set (cr_slots r') = fst ` set (cr_slots r) \<and> (\<forall>j. j \<notin> snd ` set es \<longrightarrow> cr_regs r' ! j = cr_regs r ! j)"
  using assms
proof (induction es arbitrary: r)
  case (Cons e es)
  obtain n i where e: "e = (n, i)" by (rule prod.exhaust)
  have entry: "slot_entry (free_registration k e r) m c = (if m = n \<and> c = k then None else slot_entry r m c)" for m c
    using Cons.prems(2) by (simp add: e free_registration_entry)
  have "\<forall>(n', i) \<in> set es. slot_entry (free_registration k e r) n' k = Some i"
  proof clarify
    fix n' j assume mem: "(n', j) \<in> set es"
    then have "n' \<noteq> n" using Cons.prems(1) by (force simp: e)
    then show "slot_entry (free_registration k e r) n' k = Some j" using Cons.prems(2) mem by (auto simp: entry)
  qed
  from Cons.IH [OF _ this] Cons.prems(1) show ?case by (auto simp: e entry [unfolded e])
qed simp

lemma connection_free_ok:
  assumes ok: "registry_ok r"
  shows "registry_ok (duckdb_copy_connection_free k r)"
    "abstract_formats (duckdb_copy_connection_free k r) = format_spec (F_free k) (abstract_formats r)"
proof -
  let ?r = "duckdb_copy_connection_free k r"
  define r1 where "r1 = fold (free_registration k) (cr_conns r k) r"
  have "\<forall>(n, i) \<in> set (cr_conns r k). slot_entry r n k = Some i"
    using registry_okD(1,2) [OF ok] by (auto simp: map_of_is_SomeI)
  note r1 = free_registrations [OF registry_okD(2) [OF ok] this, folded r1_def, simplified]
  have conns: "cr_conns ?r = (cr_conns r)(k := [])" "cr_counts ?r = (cr_counts r)(k := 0)"
    using r1 registry_okD(3) [OF ok, of k] by (auto simp: duckdb_copy_connection_free_def r1_def [symmetric] fun_upd_idem)
  have entries: "slot_entry ?r m c = (if c = k then None else slot_entry r m c)" for m c
  proof -
    have "slot_entry ?r m c = (if c = k \<and> m \<in> fst ` set (cr_conns r k) then None else slot_entry r m c)"
      using r1 by (simp add: duckdb_copy_connection_free_def r1_def [symmetric])
    moreover have "slot_entry r m k = None" if "m \<notin> fst ` set (cr_conns r k)"
      using that registry_okD(1) [OF ok, of m k] by (simp add: map_of_eq_None_iff)
    ultimately show ?thesis by auto
  qed
  have keys: "fst ` set (cr_slots ?r) = fst ` set (cr_slots r)" "length (cr_regs ?r) = length (cr_regs r)"
    using r1 by (simp_all add: duckdb_copy_connection_free_def r1_def [symmetric])
  have regs: "cr_regs ?r ! j = cr_regs r ! j" if other: "map_of (cr_conns r c) m = Some j" "c \<noteq> k" for c m j
  proof -
    have "j \<notin> snd ` set (cr_conns r k)"
      using registry_okD(4) [OF ok other(1)] registry_okD(4) [OF ok, of k] registry_okD(2) [OF ok, of k] other(2)
      by (fastforce simp: map_of_is_SomeI)
    then show ?thesis using r1 by (simp add: duckdb_copy_connection_free_def r1_def [symmetric])
  qed
  show ok': "registry_ok ?r"
    unfolding registry_ok_def
  proof (intro conjI allI impI)
    show "slot_entry ?r m c = map_of (cr_conns ?r c) m" for m c
      using registry_okD(1) [OF ok] by (simp add: entries conns)
    show "distinct (map fst (cr_conns ?r c))" "cr_counts ?r c = length (cr_conns ?r c)" for c
      using registry_okD(2,3) [OF ok] by (simp_all add: conns)
    show "j < length (cr_regs ?r)" "rg_alive (cr_regs ?r ! j)" "rg_function (cr_regs ?r ! j) \<noteq> None" "rg_conn (cr_regs ?r ! j) = c"
      "lower_name (rg_name (cr_regs ?r ! j)) = m" if "map_of (cr_conns ?r c) m = Some j" for m c j
      using that registry_okD(4) [OF ok, of c m j] regs [of c m j] keys(2) by (auto simp: conns split: if_splits)
  qed
  have "found ?r (m, c) = (if c = k then None else found r (m, c))" for m c
    using found_entry [OF ok'] found_entry [OF ok] regs by (cases "map_of (cr_conns r c) m") (auto simp: conns)
  then show "abstract_formats ?r = format_spec (F_free k) (abstract_formats r)"
    by (simp add: abstract_formats_def keys fun_eq_iff)
qed

lemma ensure_slot_cases:
  "ensure_slot n ans r = (if n \<in> fst ` set (cr_slots r) then (Inr (), r)
     else if sa_connected ans \<and> sa_registered ans \<and> sa_ours ans then (Inr (), r\<lparr>cr_slots := AList.update n [] (cr_slots r)\<rparr>)
     else (Inl (the (case fst (ensure_slot n ans r) of Inl e \<Rightarrow> Some e | Inr _ \<Rightarrow> None)), r))"
  by (auto simp: ensure_slot_def map_of_eq_None_iff)

lemma new_slot_ok:
  assumes ok: "registry_ok r" and new: "n \<notin> fst ` set (cr_slots r)"
  shows "registry_ok (r\<lparr>cr_slots := AList.update n [] (cr_slots r)\<rparr>)"
    "found (r\<lparr>cr_slots := AList.update n [] (cr_slots r)\<rparr>) = found r"
proof -
  have entry: "slot_entry (r\<lparr>cr_slots := AList.update n [] (cr_slots r)\<rparr>) = slot_entry r"
    using new by (auto simp: slot_entry_def fun_eq_iff update_conv' map_of_eq_None_iff [symmetric] split: option.split)
  show ok': "registry_ok (r\<lparr>cr_slots := AList.update n [] (cr_slots r)\<rparr>)"
    using ok by (simp add: registry_ok_def entry)
  show "found (r\<lparr>cr_slots := AList.update n [] (cr_slots r)\<rparr>) = found r"
    by (auto simp: fun_eq_iff found_entry [OF ok'] found_entry [OF ok])
qed

lemma register_refused:
  "\<not> may_register th c depth display \<Longrightarrow> snd (registerCopyToFunction th c depth k display f ans r) = r"
  by (auto simp: registerCopyToFunction_def may_register_def duckdb_connection_guard_def duckdb_conn_check_not_busy_def
      split: option.split)

lemma register_admitted:
  "may_register th c depth display \<Longrightarrow> registerCopyToFunction th c depth k display f ans r =
     (case ensure_slot (lower_name display) ans r of
        (Inl e, r1) \<Rightarrow> (Inl e, r1) | (Inr _, r1) \<Rightarrow> (Inr (), add_registration th k display f r1))"
  by (auto simp: registerCopyToFunction_def may_register_def duckdb_connection_guard_def duckdb_conn_check_not_busy_def)

lemma format_step_refines:
  assumes ok: "registry_ok r"
  shows "registry_ok (format_step op r) \<and> abstract_formats (format_step op r) = format_spec op (abstract_formats r)"
proof (cases op)
  case (F_free k)
  then show ?thesis using connection_free_ok [OF ok] by simp
next
  case (F_register th c depth k display f ans)
  let ?n = "lower_name display"
  show ?thesis
  proof (cases "may_register th c depth display")
    case False
    then show ?thesis using ok F_register by (simp add: register_refused abstract_formats_def)
  next
    case may: True
    consider "?n \<in> fst ` set (cr_slots r)"
      | "?n \<notin> fst ` set (cr_slots r)" "sa_connected ans \<and> sa_registered ans \<and> sa_ours ans"
      | "?n \<notin> fst ` set (cr_slots r)" "\<not> (sa_connected ans \<and> sa_registered ans \<and> sa_ours ans)" by blast
    then show ?thesis
    proof cases
      case 1
      then show ?thesis using F_register may add_registration_ok [OF ok 1, of th k f]
        by (simp add: register_admitted ensure_slot_cases [of ?n] abstract_formats_def insert_absorb)
    next
      case 2
      define r1 where "r1 = r\<lparr>cr_slots := AList.update ?n [] (cr_slots r)\<rparr>"
      have slots: "fst ` set (cr_slots r1) = insert ?n (fst ` set (cr_slots r))" by (simp add: r1_def dom_update)
      note new = new_slot_ok [OF ok 2(1), folded r1_def]
      show ?thesis using F_register may 2 add_registration_ok [OF new(1), of display th k f] slots new(2)
        by (simp add: register_admitted ensure_slot_cases [of ?n] r1_def [symmetric] abstract_formats_def)
    next
      case 3
      then show ?thesis using F_register may ok
        by (auto simp: register_admitted ensure_slot_cases [of ?n] abstract_formats_def)
    qed
  qed
qed

text \<open>
  C26. A COPY statement finds the handler its connection registered last. Whatever registrations, successful or refused, and
  connection ends follow one another, the binder of each connection finds for each format exactly the name and handler of
  the latest successful registration there, and nothing once the connection is freed; formats are taken without regard to
  the case of ASCII letters, one connection never sees the handlers of another, and the number that decides whether a
  connection's statements are pumped counts its live formats.
\<close>

theorem statements_find_last_registration:
  "abstract_formats (fold format_step ops no_formats) = fold format_spec ops ({}, Map.empty)
   \<and> cr_counts (fold format_step ops no_formats) k = card (dom (\<lambda>n. found (fold format_step ops no_formats) (n, k)))"
proof -
  have start: "registry_ok no_formats" "abstract_formats no_formats = ({}, Map.empty)"
    by (auto simp: registry_ok_def no_formats_def slot_entry_def abstract_formats_def found_def find_registration_def)
  have "registry_ok (fold format_step ops r) \<and> abstract_formats (fold format_step ops r) = fold format_spec ops (abstract_formats r)"
    if "registry_ok r" for r
    using that by (induction ops arbitrary: r) (simp_all add: format_step_refines)
  from this [OF start(1)] have ok: "registry_ok (fold format_step ops no_formats)"
    and abs: "abstract_formats (fold format_step ops no_formats) = fold format_spec ops ({}, Map.empty)" using start(2) by simp_all
  have "dom (\<lambda>n. found (fold format_step ops no_formats) (n, k)) = fst ` set (cr_conns (fold format_step ops no_formats) k)"
    unfolding dom_map_of_conv_image_fst [symmetric] by (simp add: found_entry [OF ok] dom_def)
  then show ?thesis
    using abs registry_okD(2,3) [OF ok, of k] distinct_card [of "map fst (cr_conns (fold format_step ops no_formats) k)"] by simp
qed


end
