(* ===== verification/Copy_Writer.thy ===== *)
theory Copy_Writer
  imports Copy_Format "HOL-Library.Multiset"
begin

text \<open>
  Running COPY TO with a PHP format, \<open>src/src/copy.cpp\<close>: one session of a statement, DuckDB's callbacks on any thread, the calls
  of the format's writer on the request thread, and what ends them.

  Every critical section is a step of an interleaving. The queue between the threads is the one of \<open>Session\<close>; here a callback
  that has begun either runs its work while the session is open, or is refused with the reason the session was closed for.
\<close>

section \<open>State\<close>

text \<open>A writer object with the execution it belongs to, and the state of the COPY layer on the request thread.\<close>

record writer =
  wr_exec :: nat
  wr_object :: nat
  wr_closed :: bool

record copy_php_state =
  cp_pins :: "(nat \<times> nat) list"
  cp_writers :: "writer list"
  cp_cause :: "php_object list"

text \<open>
  An execution; \<open>in_callback\<close> is set in every phase but \<open>CP_idle\<close>. \<open>CP_begun\<close>: the work waits, \<open>True\<close> for finalize; \<open>CP_ended\<close>: its
  outcome is not reported yet. \<open>ce_finalized\<close>: DuckDB has called finalize.
\<close>

datatype copy_phase = CP_idle | CP_begun bool | CP_ended bool string

record copy_exec =
  ce_registration :: nat
  ce_path :: string
  ce_types :: "string list"
  ce_phase :: copy_phase
  ce_finalized :: bool

text \<open>
  The calls of handlers, with the writer object or whether they succeeded. \<open>cy_closed\<close>: why the session was closed;
  \<open>cy_closing\<close>: the errors that threads are about to close it with.
\<close>

datatype writer_call = W_open nat "nat option" | W_write nat bool | W_close nat bool | W_abort nat

record copying =
  cy_php :: php
  cy_closed :: "string option"
  cy_closing :: "string list"
  cy_inits :: nat
  cy_execs :: "copy_exec list"
  cy_state :: "copy_php_state option"
  cy_calls :: "writer_call list"
  cy_dropped :: "nat list"

definition close_copying :: "string \<Rightarrow> copying \<Rightarrow> copying" where
  "close_copying reason c = (if cy_closed c = None then c\<lparr>cy_closed := Some reason\<rparr> else c)"

definition closed_reason_of :: "copying \<Rightarrow> string" where
  "closed_reason_of c = (case cy_closed c of None \<Rightarrow> [] | Some m \<Rightarrow> m)"

definition parallel_message :: string where
  "parallel_message = ''PHP COPY formats do not support PARTITION_BY, PER_THREAD_OUTPUT or EXPORT DATABASE''"

text \<open>\<open>duckdb_copy_session_attach\<close>: the live handlers of connection \<open>k\<close> are pinned.\<close>

definition pins_of :: "nat \<Rightarrow> copy_registry \<Rightarrow> (nat \<times> nat) list" where
  "pins_of k r =
     concat (map (\<lambda>(n, i). if rg_alive (cr_regs r ! i) then case rg_function (cr_regs r ! i) of None \<Rightarrow> [] | Some f \<Rightarrow> [(i, f)] else [])
       (cr_conns r k))"

definition duckdb_copy_session_attach :: "nat \<Rightarrow> copy_registry \<Rightarrow> php \<Rightarrow> copying" where
  "duckdb_copy_session_attach k r s =
     \<lparr>cy_php = s, cy_closed = None, cy_closing = [], cy_inits = 0, cy_execs = [],
      cy_state = (if cr_conns r k = [] then None else Some \<lparr>cp_pins = pins_of k r, cp_writers = [], cp_cause = []\<rparr>),
      cy_calls = [], cy_dropped = []\<rparr>"

section \<open>Calling the writer\<close>

text \<open>What PHP does: \<open>wa_dies\<close>: a bailout while the arguments are built; the handler's code; the writer that \<open>open\<close> returns, if any.\<close>

record handler_answer =
  ha_dies :: bool
  ha_code :: code
  ha_writer :: "nat option"

text \<open>\<open>Inl None\<close> is the bailout that unwinds the work.\<close>

type_synonym 'a work = "(string option, 'a) result \<times> copying"

definition on_state :: "(copy_php_state \<Rightarrow> copy_php_state) \<Rightarrow> copying \<Rightarrow> copying" where
  "on_state f c = c\<lparr>cy_state := map_option f (cy_state c)\<rparr>"

definition log_call :: "writer_call \<Rightarrow> copying \<Rightarrow> copying" where
  "log_call w c = c\<lparr>cy_calls := cy_calls c @ [w]\<rparr>"

definition die :: "copying \<Rightarrow> copying" where
  "die c = c\<lparr>cy_php := run_act (A_try [] True) (cy_php c)\<rparr>"

definition call_handler :: "nat \<Rightarrow> code \<Rightarrow> copying \<Rightarrow> call_outcome \<times> string \<times> php_object list \<times> copying" where
  "call_handler k code c =
     (case duckdb_callback_call (Some k) ''COPY'' (run_code code) True (run_code (Code [] Returns)) (cy_php c) of
        (outcome, message, thrown, s) \<Rightarrow> (outcome, message, thrown, c\<lparr>cy_php := s\<rparr>))"

text \<open>The first exception of a handler becomes the cause of the statement's failure.\<close>

definition keep_state_cause :: "php_object list \<Rightarrow> copying \<Rightarrow> copying" where
  "keep_state_cause thrown c =
     (case cy_state c of
        None \<Rightarrow> c
      | Some st \<Rightarrow> (case keep_cause (cp_cause st) thrown of
            (slot, gone) \<Rightarrow> (on_state (\<lambda>st. st\<lparr>cp_cause := slot\<rparr>) c)\<lparr>cy_php := give_up gone (cy_php c)\<rparr>))"

definition writer_of :: "nat \<Rightarrow> copy_php_state \<Rightarrow> writer option" where
  "writer_of e st = find (\<lambda>w. wr_exec w = e) (cp_writers st)"

definition open_writer :: "nat \<Rightarrow> copy_registry \<Rightarrow> nat \<Rightarrow> handler_answer \<Rightarrow> copying \<Rightarrow> nat work" where
  "open_writer k r e ans c =
     (case cy_state c of
        None \<Rightarrow> (Inl (Some ''COPY format is not registered on this connection''), c)
      | Some st \<Rightarrow>
          (case writer_of e st of
             Some w \<Rightarrow> (Inr (wr_object w), c)
           | None \<Rightarrow>
               let i = ce_registration (cy_execs c ! e); g = cr_regs r ! i
               in if map_of (cp_pins st) i = None then (Inl (Some (stale_message g)), c)
                  else if ha_dies ans then (Inl None, die c)
                  else case call_handler k (ha_code ans) c of
                      (outcome, message, thrown, c1) \<Rightarrow>
                        if outcome \<noteq> CO_ok
                        then (Inl (Some (describe (rg_name g) ''open'' outcome message)), log_call (W_open e None) (keep_state_cause thrown c1))
                        else (case ha_writer ans of
                            None \<Rightarrow> (Inl (Some (''COPY format '' @ [squote] @ rg_name g @ [squote] @ '' open() must return a DuckDB'' @
                                      [CHR 0x5C] @ ''CopyToWriter'')), log_call (W_open e None) c1)
                          | Some w \<Rightarrow>
                              (Inr w, log_call (W_open e (Some w))
                                 (on_state (\<lambda>st. st\<lparr>cp_writers := cp_writers st @ [\<lparr>wr_exec = e, wr_object = w, wr_closed = False\<rparr>]\<rparr>) c1)))))"

text \<open>\<open>php_write\<close> and \<open>php_finalize\<close>; only the former builds an argument, the batch.\<close>

definition php_write :: "nat \<Rightarrow> copy_registry \<Rightarrow> nat \<Rightarrow> handler_answer \<Rightarrow> handler_answer \<Rightarrow> copying \<Rightarrow> unit work" where
  "php_write k r e opened ans c =
     (case open_writer k r e opened c of
        (Inl err, c1) \<Rightarrow> (Inl err, c1)
      | (Inr _, c1) \<Rightarrow>
          if ha_dies ans then (Inl None, die c1)
          else case call_handler k (ha_code ans) c1 of
              (outcome, message, thrown, c2) \<Rightarrow>
                if outcome \<noteq> CO_ok
                then (Inl (Some (describe (rg_name (cr_regs r ! ce_registration (cy_execs c ! e))) ''write'' outcome message)),
                      log_call (W_write e False) (keep_state_cause thrown c2))
                else (Inr (), log_call (W_write e True) c2))"

definition mark_closed :: "nat \<Rightarrow> copy_php_state \<Rightarrow> copy_php_state" where
  "mark_closed e st = st\<lparr>cp_writers := map (\<lambda>w. if wr_exec w = e then w\<lparr>wr_closed := True\<rparr> else w) (cp_writers st)\<rparr>"

definition php_finalize :: "nat \<Rightarrow> copy_registry \<Rightarrow> nat \<Rightarrow> handler_answer \<Rightarrow> handler_answer \<Rightarrow> copying \<Rightarrow> unit work" where
  "php_finalize k r e opened ans c =
     (case open_writer k r e opened c of
        (Inl err, c1) \<Rightarrow> (Inl err, c1)
      | (Inr _, c1) \<Rightarrow>
          (case call_handler k (ha_code ans) c1 of
             (outcome, message, thrown, c2) \<Rightarrow>
               if outcome \<noteq> CO_ok
               then (Inl (Some (describe (rg_name (cr_regs r ! ce_registration (cy_execs c ! e))) ''close'' outcome message)),
                     log_call (W_close e False) (keep_state_cause thrown c2))
               else (Inr (), log_call (W_close e True) (on_state (mark_closed e) c2))))"

section \<open>DuckDB's callbacks\<close>

text \<open>\<open>bind\<close>: the bind data's registration and types.\<close>

definition no_session_message :: "registration \<Rightarrow> string" where
  "no_session_message g = (if rg_alive g then duckdb_copy_not_pumped_message else stale_message g)"

definition copy_global_init_callback ::
    "copy_registry \<Rightarrow> (nat \<times> string list) option \<Rightarrow> string option \<Rightarrow> string option \<Rightarrow> copying option
      \<Rightarrow> (string, nat) result \<times> copying option" where
  "copy_global_init_callback r bind cwd path session =
     (case bind of
        None \<Rightarrow> (Inl duckdb_copy_not_pumped_message, session)
      | Some (i, types) \<Rightarrow>
          (case session of
             None \<Rightarrow> (Inl (no_session_message (cr_regs r ! i)), None)
           | Some c \<Rightarrow>
               if closed_reason_of c \<noteq> [] then (Inl (closed_reason_of c), session)
               else if cy_state c = None then (Inl (no_session_message (cr_regs r ! i)), session)
               else
                 let c1 = c\<lparr>cy_inits := cy_inits c + 1\<rparr>
                 in if cy_inits c > 0 then (Inl parallel_message, Some (close_copying parallel_message c1))
                    else (Inr (length (cy_execs c)),
                      Some (c1\<lparr>cy_execs := cy_execs c @ [\<lparr>ce_registration = i, ce_path = absolute_path cwd path, ce_types = types,
                              ce_phase = CP_idle, ce_finalized = False\<rparr>]\<rparr>))))"

definition set_phase :: "nat \<Rightarrow> copy_phase \<Rightarrow> copying \<Rightarrow> copying" where
  "set_phase e p c = c\<lparr>cy_execs := (cy_execs c)[e := (cy_execs c ! e)\<lparr>ce_phase := p\<rparr>]\<rparr>"

text \<open>\<open>run_callback\<close> up to the hand-over, with the error it reports; \<open>fin\<close> for finalize.\<close>

definition callback_begin :: "nat \<Rightarrow> bool \<Rightarrow> copying \<Rightarrow> string option \<times> copying" where
  "callback_begin e fin c =
     (let c1 = c\<lparr>cy_execs := (cy_execs c)[e := (cy_execs c ! e)\<lparr>ce_finalized := ce_finalized (cy_execs c ! e) \<or> fin\<rparr>]\<rparr>
      in if closed_reason_of c \<noteq> [] then (Some (closed_reason_of c), c1)
         else if ce_phase (cy_execs c ! e) \<noteq> CP_idle then (Some parallel_message, close_copying parallel_message c1)
         else (None, set_phase e (CP_begun fin) c1))"

text \<open>A callback that comes after the session is gone only reports an error.\<close>

definition callback_enter :: "nat \<Rightarrow> bool \<Rightarrow> copying option \<Rightarrow> string option \<times> copying option" where
  "callback_enter e fin session =
     (case session of
        None \<Rightarrow> (Some duckdb_copy_not_pumped_message, None)
      | Some c \<Rightarrow> (case callback_begin e fin c of (err, c1) \<Rightarrow> (err, Some c1)))"

text \<open>The work on the request thread; from a DuckDB thread it runs in \<open>service\<close>, which closes the session when PHP unwinds.\<close>

definition callback_work ::
    "nat \<Rightarrow> copy_registry \<Rightarrow> nat \<Rightarrow> bool \<Rightarrow> bool \<Rightarrow> handler_answer \<Rightarrow> handler_answer \<Rightarrow> copying \<Rightarrow> copying" where
  "callback_work k r e fin from_worker opened ans c =
     (case (if fin then php_finalize k r e opened ans c else php_write k r e opened ans c) of
        (res, c1) \<Rightarrow>
          let p = (case res of Inl None \<Rightarrow> CP_ended False ''PHP callback stopped by a fatal error''
                    | Inl (Some m) \<Rightarrow> CP_ended False m | Inr _ \<Rightarrow> CP_ended True []);
              c2 = set_phase e p c1
          in if from_worker \<and> duckdb_copy_unwinding (cy_php c2) then close_copying (duckdb_copy_unwind_reason (cy_php c2)) c2 else c2)"

text \<open>The end of \<open>run_callback\<close>: the flag is cleared, and after a failure the thread goes on to close the session.\<close>

definition callback_end :: "nat \<Rightarrow> copying \<Rightarrow> copying" where
  "callback_end e c =
     (case ce_phase (cy_execs c ! e) of
        CP_ended ok m \<Rightarrow> (let c1 = set_phase e CP_idle c in if ok then c1 else c1\<lparr>cy_closing := cy_closing c @ [m]\<rparr>)
      | _ \<Rightarrow> c)"

definition report_failure :: "copying \<Rightarrow> copying" where
  "report_failure c = (case cy_closing c of [] \<Rightarrow> c | m # ms \<Rightarrow> close_copying m (c\<lparr>cy_closing := ms\<rparr>))"

section \<open>The end of the session\<close>

definition release_session_object :: "nat \<Rightarrow> bool \<Rightarrow> code \<Rightarrow> nat \<Rightarrow> copying \<Rightarrow> copying" where
  "release_session_object k can_call_php dtor object c =
     (let c1 = c\<lparr>cy_dropped := cy_dropped c @ [object]\<rparr>
      in if can_call_php then c1\<lparr>cy_php := duckdb_callback_zval_release (Some k) True (run_code dtor) (cy_php c1)\<rparr> else c1)"

text \<open>\<open>make_reason\<close> may die; the exception it makes is given up by the call.\<close>

fun finish_writers :: "nat \<Rightarrow> string \<Rightarrow> (nat \<Rightarrow> handler_answer) \<Rightarrow> (nat \<Rightarrow> code) \<Rightarrow> php_object list \<Rightarrow> bool \<Rightarrow> writer list
      \<Rightarrow> copying \<Rightarrow> bool \<times> copying" where
  "finish_writers k failure ans dtor cause call_php [] c = (call_php, c)"
| "finish_writers k failure ans dtor cause call_php (w # ws) c =
     (let e = wr_exec w;
          (call1, c1) =
            (if \<not> wr_closed w \<and> failure \<noteq> [] \<and> call_php
             then if cause = [] \<and> ha_dies (ans e) then (False, die c)
                  else case call_handler k (ha_code (ans e)) c of
                      (_, _, thrown, c1) \<Rightarrow>
                        let c2 = log_call (W_abort e) (c1\<lparr>cy_php := give_up thrown (cy_php c1)\<rparr>) in (\<not> ph_bailout (cy_php c2), c2)
             else (call_php, c))
      in finish_writers k failure ans dtor cause call1 ws (release_session_object k call1 (dtor (wr_object w)) (wr_object w) c1))"

definition finish_session :: "nat \<Rightarrow> string \<Rightarrow> bool \<Rightarrow> (nat \<Rightarrow> handler_answer) \<Rightarrow> (nat \<Rightarrow> code) \<Rightarrow> copy_php_state \<Rightarrow> copying \<Rightarrow> copying" where
  "finish_session k failure can_call_php ans dtor st c =
     (case finish_writers k failure ans dtor (cp_cause st) (can_call_php \<and> \<not> ph_bailout (cy_php c)) (cp_writers st) c of
        (call_php, c1) \<Rightarrow>
          let c2 = fold (\<lambda>(i, f). release_session_object k call_php (dtor f) f) (cp_pins st) c1; s = cy_php c2
          in if failure \<noteq> [] \<and> ph_cause s = [] then c2\<lparr>cy_php := s\<lparr>ph_cause := cp_cause st\<rparr>\<rparr>
             else c2\<lparr>cy_php := give_up (cp_cause st) s\<rparr>)"

text \<open>\<open>duckdb_session_end\<close>; the finish hook is taken once.\<close>

definition duckdb_session_end :: "nat \<Rightarrow> string \<Rightarrow> bool \<Rightarrow> (nat \<Rightarrow> handler_answer) \<Rightarrow> (nat \<Rightarrow> code) \<Rightarrow> copying \<Rightarrow> copying" where
  "duckdb_session_end k failure can_call_php ans dtor c =
     (let c1 = close_copying (if failure = [] then ''COPY statement finished'' else failure) c
      in case cy_state c1 of
           None \<Rightarrow> c1
         | Some st \<Rightarrow> finish_session k failure can_call_php ans dtor st (c1\<lparr>cy_state := None\<rparr>))"

section \<open>Interleavings\<close>

text \<open>
  What DuckDB promises: it calls neither sink nor finalize of an execution once it has called finalize. Apart from that,
  callbacks may overlap, the request thread does other things with PHP, and anything may close the session.

  A callback that failed clears \<open>in_callback\<close> before it closes the session, so that another one may begin in between. With
  \<open>calm\<close> the steps leave that out: no callback begins between the two.
\<close>

inductive copy_step :: "bool \<Rightarrow> nat \<Rightarrow> copy_registry \<Rightarrow> copying \<Rightarrow> copying \<Rightarrow> bool" for calm k r where
  inits: "copy_global_init_callback r bind cwd path (Some c) = (res, Some c') \<Longrightarrow> copy_step calm k r c c'"
| begins: "e < length (cy_execs c) \<Longrightarrow> \<not> ce_finalized (cy_execs c ! e) \<Longrightarrow> (calm \<Longrightarrow> cy_closing c = [])
     \<Longrightarrow> callback_enter e fin (Some c) = (res, Some c') \<Longrightarrow> copy_step calm k r c c'"
| works: "e < length (cy_execs c) \<Longrightarrow> ce_phase (cy_execs c ! e) = CP_begun fin \<Longrightarrow> cy_closed c = None
     \<Longrightarrow> copy_step calm k r c (callback_work k r e fin from_worker opened ans c)"
| refused: "e < length (cy_execs c) \<Longrightarrow> ce_phase (cy_execs c ! e) = CP_begun fin \<Longrightarrow> cy_closed c = Some m
     \<Longrightarrow> copy_step calm k r c (set_phase e (CP_ended False m) c)"
| ends: "e < length (cy_execs c) \<Longrightarrow> copy_step calm k r c (callback_end e c)"
| reports: "copy_step calm k r c (report_failure c)"
| closes: "copy_step calm k r c (close_copying m c)"
| finishes: "copy_step calm k r c (duckdb_session_end k failure can_call_php ans dtor c)"
| elsewhere: "copy_step calm k r c (c\<lparr>cy_php := s\<rparr>)"

inductive copy_reachable :: "bool \<Rightarrow> nat \<Rightarrow> copy_registry \<Rightarrow> copying \<Rightarrow> bool" for calm k r where
  start: "copy_reachable calm k r (duckdb_copy_session_attach k r s)"
| step: "copy_reachable calm k r c \<Longrightarrow> copy_step calm k r c c' \<Longrightarrow> copy_reachable calm k r c'"

section \<open>The protocol\<close>

text \<open>
  What a format's author is promised: \<open>open\<close>, then \<open>write\<close> any number of times, then \<open>close\<close>. After a failure nothing but
  \<open>abort\<close>, at most once and after everything else, and never after a \<open>close\<close> that succeeded. Every call belongs to the
  statement's one execution. Unless the steps are \<open>calm\<close>, \<open>open\<close> may be called again after it failed, and \<open>write\<close> or \<open>close\<close>
  may follow a \<open>write\<close> that failed.
\<close>

datatype writer_phase = WP_none | WP_open | WP_failed | WP_broken | WP_closed | WP_unclosed | WP_aborted

definition may_open :: "bool \<Rightarrow> writer_phase set" where
  "may_open calm = (if calm then {WP_none} else {WP_none, WP_failed})"

definition may_write :: "bool \<Rightarrow> writer_phase set" where
  "may_write calm = (if calm then {WP_open} else {WP_open, WP_broken})"

fun writer_next :: "bool \<Rightarrow> writer_phase \<Rightarrow> writer_call \<Rightarrow> writer_phase option" where
  "writer_next calm p (W_open e w) =
     (if e = 0 \<and> p \<in> may_open calm then Some (if w = None then WP_failed else WP_open) else None)"
| "writer_next calm p (W_write e ok) = (if e = 0 \<and> p \<in> may_write calm then Some (if ok then WP_open else WP_broken) else None)"
| "writer_next calm p (W_close e ok) = (if e = 0 \<and> p \<in> may_write calm then Some (if ok then WP_closed else WP_unclosed) else None)"
| "writer_next calm p (W_abort e) = (if e = 0 \<and> p \<in> {WP_open, WP_broken, WP_unclosed} then Some WP_aborted else None)"

definition writer_run :: "bool \<Rightarrow> writer_call list \<Rightarrow> writer_phase option" where
  "writer_run calm calls = fold (\<lambda>w p. case p of None \<Rightarrow> None | Some p \<Rightarrow> writer_next calm p w) calls (Some WP_none)"

lemma writer_run_Nil [simp]: "writer_run calm [] = Some WP_none"
  by (simp add: writer_run_def)

lemma writer_run_snoc [simp]: "writer_run calm (calls @ [w]) = (case writer_run calm calls of None \<Rightarrow> None | Some p \<Rightarrow> writer_next calm p w)"
  by (simp add: writer_run_def)

fun opened_by :: "writer_call \<Rightarrow> nat list" where
  "opened_by (W_open e (Some w)) = [w]"
| "opened_by _ = []"

definition opened_writers :: "writer_call list \<Rightarrow> nat list" where
  "opened_writers calls = concat (map opened_by calls)"

lemma opened_writers_simps [simp]:
  "opened_writers [] = []" "opened_writers (calls @ [w]) = opened_writers calls @ opened_by w"
  by (simp_all add: opened_writers_def)

text \<open>The state of the one execution that belongs to a phase of the writer.\<close>

definition exec_fits :: "bool \<Rightarrow> writer_phase \<Rightarrow> copying \<Rightarrow> bool" where
  "exec_fits calm p c \<longleftrightarrow>
     (case p of
        WP_open \<Rightarrow> cy_execs c \<noteq> []
      | WP_closed \<Rightarrow> cy_execs c \<noteq> [] \<and> ce_finalized (cy_execs c ! 0) \<and> (\<forall>fin. ce_phase (cy_execs c ! 0) \<noteq> CP_begun fin)
      | WP_unclosed \<Rightarrow> cy_execs c \<noteq> [] \<and> ce_finalized (cy_execs c ! 0) \<and> (\<forall>fin. ce_phase (cy_execs c ! 0) \<noteq> CP_begun fin)
      | WP_aborted \<Rightarrow> cy_closed c \<noteq> None
      | WP_none \<Rightarrow> True
      | _ \<Rightarrow> if calm then cy_closed c \<noteq> None \<or> cy_closing c \<noteq> [] \<and> (\<forall>fin. ce_phase (cy_execs c ! 0) \<noteq> CP_begun fin)
            \<or> cy_execs c \<noteq> [] \<and> (\<exists>m. ce_phase (cy_execs c ! 0) = CP_ended False m)
          else cy_execs c \<noteq> [])"

definition state_fits :: "writer_phase \<Rightarrow> copy_php_state \<Rightarrow> bool" where
  "state_fits p st \<longleftrightarrow>
     (case cp_writers st of
        [] \<Rightarrow> p = WP_none \<or> p = WP_failed
      | [w] \<Rightarrow> wr_exec w = 0 \<and> (if wr_closed w then p = WP_closed else p = WP_open \<or> p = WP_broken \<or> p = WP_unclosed)
      | _ \<Rightarrow> False)"

text \<open>The calls made so far, the writer and the references that the session holds.\<close>

definition calls_ok :: "bool \<Rightarrow> nat list \<Rightarrow> writer_phase \<Rightarrow> copying \<Rightarrow> bool" where
  "calls_ok calm pinned p c \<longleftrightarrow> writer_run calm (cy_calls c) = Some p
     \<and> (case cy_state c of
          None \<Rightarrow> mset (cy_dropped c) = mset pinned + mset (opened_writers (cy_calls c)) \<and> (cy_closed c \<noteq> None \<or> pinned = [] \<and> cy_calls c = [])
        | Some st \<Rightarrow> state_fits p st \<and> cy_dropped c = [] \<and> map snd (cp_pins st) = pinned
            \<and> map wr_object (cp_writers st) = opened_writers (cy_calls c))"

definition copying_ok :: "bool \<Rightarrow> nat list \<Rightarrow> copying \<Rightarrow> bool" where
  "copying_ok calm pinned c \<longleftrightarrow> length (cy_execs c) \<le> min 1 (cy_inits c)
     \<and> (\<forall>x \<in> set (cy_execs c). ce_phase x = CP_begun True \<longrightarrow> ce_finalized x)
     \<and> (\<exists>p. exec_fits calm p c \<and> calls_ok calm pinned p c)"

text \<open>What a call of PHP leaves alone.\<close>

definition frame :: "copying \<Rightarrow> string option \<times> string list \<times> nat \<times> copy_exec list \<times> nat list" where
  "frame c = (cy_closed c, cy_closing c, cy_inits c, cy_execs c, cy_dropped c)"

lemma frame_simps [simp]:
  "frame (c\<lparr>cy_php := s\<rparr>) = frame c" "frame (on_state f c) = frame c" "frame (log_call w c) = frame c" "frame (die c) = frame c"
  "frame (keep_state_cause t c) = frame c" "frame (snd (snd (snd (call_handler k code c)))) = frame c"
  by (auto simp: frame_def on_state_def log_call_def die_def keep_state_cause_def call_handler_def split: option.split prod.split)

lemma calls_fields [simp]:
  "cy_calls (on_state f c) = cy_calls c" "cy_calls (log_call w c) = cy_calls c @ [w]" "cy_calls (die c) = cy_calls c"
  "cy_calls (keep_state_cause t c) = cy_calls c" "cy_state (log_call w c) = cy_state c" "cy_state (die c) = cy_state c"
  "cy_state (on_state f c) = map_option f (cy_state c)"
  by (auto simp: on_state_def log_call_def die_def keep_state_cause_def split: option.split prod.split)

text \<open>Results of a handler call up to PHP's state and the cause.\<close>

definition same_writer :: "copying \<Rightarrow> copying \<Rightarrow> bool" where
  "same_writer c c' \<longleftrightarrow> frame c' = frame c \<and> cy_calls c' = cy_calls c
     \<and> map_option (\<lambda>st. (cp_pins st, cp_writers st)) (cy_state c') = map_option (\<lambda>st. (cp_pins st, cp_writers st)) (cy_state c)"

lemma same_writer_refl [simp]: "same_writer c c"
  by (simp add: same_writer_def)

lemma same_writer_ops:
  "same_writer c c' \<Longrightarrow> same_writer c (c'\<lparr>cy_php := s\<rparr>)" "same_writer c c' \<Longrightarrow> same_writer c (die c')"
  "same_writer c c' \<Longrightarrow> same_writer c (keep_state_cause t c')" "call_handler k code c' = (out, m, t, c'') \<Longrightarrow> same_writer c c' \<Longrightarrow> same_writer c c''"
  by (auto simp: same_writer_def keep_state_cause_def call_handler_def on_state_def die_def frame_def split: option.splits prod.splits)

lemma calls_ok_same: "same_writer c c' \<Longrightarrow> calls_ok calm P p c \<Longrightarrow> calls_ok calm P p c'"
  by (auto simp: same_writer_def calls_ok_def state_fits_def frame_def split: option.splits)

lemma calls_ok_log:
  assumes "calls_ok calm P p c" "cy_state c = Some st" "writer_next calm p w = Some p'" "opened_by w = []" "state_fits p' st"
  shows "calls_ok calm P p' (log_call w c)"
  using assms by (simp add: calls_ok_def log_call_def)

definition goes_on :: "bool \<Rightarrow> writer_phase set" where
  "goes_on calm = may_open calm \<union> may_write calm"

definition failed_phases :: "writer_phase set" where
  "failed_phases = {WP_failed, WP_broken}"

lemmas phase_sets = goes_on_def may_open_def may_write_def

lemma open_writer_ok:
  assumes ok: "calls_ok calm P p c" "p \<in> goes_on calm" and res: "open_writer k r 0 ans c = (res, c1)"
  shows "frame c1 = frame c \<and>
    (case res of Inl x \<Rightarrow> \<exists>p'. calls_ok calm P p' c1 \<and> p' \<in> goes_on calm \<union> failed_phases
     | Inr w \<Rightarrow> (\<exists>q \<in> may_write calm. calls_ok calm P q c1) \<and> (\<exists>st. cy_state c1 = Some st))"
proof (cases "cy_state c")
  case None
  then show ?thesis using ok res by (auto simp: open_writer_def)
next
  case st: (Some st)
  then have fits: "state_fits p st" using ok(1) by (simp add: calls_ok_def)
  show ?thesis
  proof (cases "cp_writers st")
    case (Cons w ws)
    then have "writer_of 0 st = Some w" "p \<in> may_write calm"
      using fits ok(2) by (auto simp: writer_of_def state_fits_def phase_sets split: list.splits if_splits)
    then show ?thesis using ok st res by (auto simp: open_writer_def)
  next
    case Nil
    then have none: "writer_of 0 st = None" "p \<in> may_open calm"
      using fits ok(2) by (auto simp: writer_of_def state_fits_def phase_sets split: if_splits)
    have started: "WP_open \<in> may_write calm" by (simp add: may_write_def)
    obtain outcome m t c2 where call: "call_handler k (ha_code ans) c = (outcome, m, t, c2)" by (rule prod_cases4)
    have same: "same_writer c c2" "same_writer c (keep_state_cause t c2)" "same_writer c (die c)"
      by (rule same_writer_ops(4) [OF call same_writer_refl], rule same_writer_ops(3) [OF same_writer_ops(4) [OF call same_writer_refl]],
          rule same_writer_ops(2) [OF same_writer_refl])
    obtain st2 where st2: "cy_state c2 = Some st2" "cp_writers st2 = []" "cp_pins st2 = cp_pins st"
      using same(1) st Nil by (auto simp: same_writer_def)
    have c2: "calls_ok calm P p c2" using calls_ok_same [OF same(1)] ok(1) by simp
    have frames: "frame c2 = frame c" using same(1) by (simp add: same_writer_def)
    have failed: "calls_ok calm P WP_failed (log_call (W_open 0 None) c')" "frame (log_call (W_open 0 None) c') = frame c"
      if kept: "same_writer c c'" for c'
    proof -
      obtain st' where "cy_state c' = Some st'" "cp_writers st' = []" using kept st Nil by (auto simp: same_writer_def)
      then show "calls_ok calm P WP_failed (log_call (W_open 0 None) c')"
        using calls_ok_same [OF kept ok(1)] none(2) by (intro calls_ok_log [where p = p]) (auto simp: state_fits_def)
      show "frame (log_call (W_open 0 None) c') = frame c" using kept by (simp add: same_writer_def)
    qed
    have opened: "\<exists>q \<in> may_write calm. calls_ok calm P q (log_call (W_open 0 (Some w)) (on_state (\<lambda>st. st\<lparr>cp_writers := cp_writers st @
        [\<lparr>wr_exec = 0, wr_object = w, wr_closed = False\<rparr>]\<rparr>) c2))" for w
      using c2 st2 none(2) by (intro bexI [OF _ started]) (auto simp: calls_ok_def state_fits_def log_call_def on_state_def)
    show ?thesis
      using res st none(1) frames failed [OF same(1)] failed [OF same(2)] opened calls_ok_same [OF same(3) ok(1)] ok
      by (auto simp: open_writer_def call Let_def failed_phases_def st2(1) split: if_splits option.splits)
  qed
qed

lemma writer_call_ok:
  assumes "calls_ok calm P q c" "cy_state c = Some st" "call_handler k code c = (out, m, t, c1)" "same_writer c1 c2"
    "writer_next calm q w = Some p'" "opened_by w = []" "q \<in> may_write calm" "p' \<in> {WP_open, WP_broken, WP_unclosed}"
  shows "calls_ok calm P p' (log_call w c2)" "frame (log_call w c2) = frame c"
proof -
  have same: "same_writer c c1" using assms(3) by (auto intro: same_writer_ops)
  then have same2: "same_writer c c2" using assms(4) by (simp add: same_writer_def)
  obtain st2 where "cy_state c2 = Some st2" "cp_writers st2 = cp_writers st" using same2 assms(2) by (auto simp: same_writer_def)
  moreover have "state_fits q st" using assms(1,2) by (simp add: calls_ok_def)
  ultimately have "state_fits p' st2"
    using assms(7,8) by (auto simp: state_fits_def may_write_def split: list.splits if_splits)
  then show "calls_ok calm P p' (log_call w c2)"
    using calls_ok_log [OF calls_ok_same [OF same2 assms(1)] \<open>cy_state c2 = Some st2\<close> assms(5,6)] by simp
  show "frame (log_call w c2) = frame c" using same2 by (simp add: same_writer_def)
qed

lemma php_write_ok:
  assumes ok: "calls_ok calm P p c" "p \<in> goes_on calm" and res: "php_write k r 0 opened ans c = (res, c1)"
  shows "frame c1 = frame c \<and> (\<exists>p'. calls_ok calm P p' c1 \<and> p' \<in> goes_on calm \<union> (case res of Inl x \<Rightarrow> failed_phases | Inr _ \<Rightarrow> {}))"
proof -
  obtain res0 c0 where o: "open_writer k r 0 opened c = (res0, c0)" by (rule prod.exhaust)
  note op = open_writer_ok [OF ok o]
  show ?thesis
  proof (cases res0)
    case (Inl x)
    then show ?thesis using op res o by (auto simp: php_write_def)
  next
    case (Inr w)
    then obtain st q where c0: "calls_ok calm P q c0" "cy_state c0 = Some st" "frame c0 = frame c" and q: "q \<in> may_write calm"
      using op by auto
    obtain out m t c2 where call: "call_handler k (ha_code ans) c0 = (out, m, t, c2)" by (rule prod_cases4)
    have "calls_ok calm P q (die c0)" using calls_ok_same [OF same_writer_ops(2) [OF same_writer_refl] c0(1)] .
    moreover have "calls_ok calm P WP_broken (log_call (W_write 0 False) (keep_state_cause t c2))"
      "frame (log_call (W_write 0 False) (keep_state_cause t c2)) = frame c0"
      using writer_call_ok [OF c0(1,2) call same_writer_ops(3) [OF same_writer_refl], of "W_write 0 False" WP_broken t] q by simp_all
    moreover have "calls_ok calm P WP_open (log_call (W_write 0 True) c2)" "frame (log_call (W_write 0 True) c2) = frame c0"
      using writer_call_ok [OF c0(1,2) call same_writer_refl, of "W_write 0 True" WP_open] q by simp_all
    moreover have "WP_open \<in> goes_on calm" "q \<in> goes_on calm" "WP_broken \<in> failed_phases"
      using q by (simp_all add: phase_sets failed_phases_def)
    ultimately show ?thesis
      using res Inr c0(3) by (auto simp: php_write_def o call split: if_splits)
  qed
qed

lemma php_finalize_ok:
  assumes ok: "calls_ok calm P p c" "p \<in> goes_on calm" and res: "php_finalize k r 0 opened ans c = (res, c1)"
  shows "frame c1 = frame c \<and> (\<exists>p'. calls_ok calm P p' c1
    \<and> p' \<in> (case res of Inl x \<Rightarrow> goes_on calm \<union> failed_phases \<union> {WP_unclosed} | Inr _ \<Rightarrow> {WP_closed}))"
proof -
  obtain res0 c0 where o: "open_writer k r 0 opened c = (res0, c0)" by (rule prod.exhaust)
  note op = open_writer_ok [OF ok o]
  show ?thesis
  proof (cases res0)
    case (Inl x)
    then show ?thesis using op res o by (auto simp: php_finalize_def)
  next
    case (Inr w)
    then obtain st q where c0: "calls_ok calm P q c0" "cy_state c0 = Some st" "frame c0 = frame c" and q: "q \<in> may_write calm"
      using op by auto
    obtain out m t c2 where call: "call_handler k (ha_code ans) c0 = (out, m, t, c2)" by (rule prod_cases4)
    have unclosed: "calls_ok calm P WP_unclosed (log_call (W_close 0 False) (keep_state_cause t c2))"
      "frame (log_call (W_close 0 False) (keep_state_cause t c2)) = frame c0"
      using writer_call_ok [OF c0(1,2) call same_writer_ops(3) [OF same_writer_refl], of "W_close 0 False" WP_unclosed t] q by simp_all
    have same: "same_writer c0 c2" using call by (auto intro: same_writer_ops)
    then obtain st2 where st2: "cy_state c2 = Some st2" "cp_writers st2 = cp_writers st" using c0(2) by (auto simp: same_writer_def)
    have c2: "calls_ok calm P q c2" by (rule calls_ok_same [OF same c0(1)])
    then have "state_fits q st2" using st2(1) by (simp add: calls_ok_def)
    then obtain x where x: "cp_writers st2 = [x]" "wr_exec x = 0"
      using q by (auto simp: state_fits_def may_write_def split: list.splits if_splits)
    have "calls_ok calm P WP_closed (log_call (W_close 0 True) (on_state (mark_closed 0) c2))"
      using c2 st2(1) x q by (auto simp: calls_ok_def state_fits_def mark_closed_def log_call_def on_state_def)
    moreover have "frame (log_call (W_close 0 True) (on_state (mark_closed 0) c2)) = frame c0" using same by (simp add: same_writer_def)
    ultimately show ?thesis
      using res Inr c0(3) unclosed by (auto simp: php_finalize_def o call split: if_splits)
  qed
qed

section \<open>Every step keeps the protocol\<close>

lemma exec_fits_goes_on: "p \<in> goes_on calm \<Longrightarrow> cy_execs c \<noteq> [] \<Longrightarrow> exec_fits calm p c"
  by (auto simp: phase_sets exec_fits_def split: if_splits)

lemma exec_fits_failed: "p \<in> failed_phases \<Longrightarrow> cy_execs c \<noteq> [] \<Longrightarrow> ce_phase (cy_execs c ! 0) = CP_ended False m \<Longrightarrow> exec_fits calm p c"
  by (auto simp: failed_phases_def exec_fits_def)

lemma close_copying_simps [simp]:
  "cy_execs (close_copying m c) = cy_execs c" "cy_inits (close_copying m c) = cy_inits c" "cy_closing (close_copying m c) = cy_closing c"
  "cy_state (close_copying m c) = cy_state c" "cy_calls (close_copying m c) = cy_calls c" "cy_dropped (close_copying m c) = cy_dropped c"
  "cy_php (close_copying m c) = cy_php c" "cy_closed (close_copying m c) \<noteq> None"
  by (auto simp: close_copying_def)

lemma exec_fits_close: "exec_fits calm p c \<Longrightarrow> exec_fits calm p (close_copying m c)"
  by (auto simp: exec_fits_def split: writer_phase.splits)

lemma calls_ok_close: "calls_ok calm P p c \<Longrightarrow> calls_ok calm P p (close_copying m c)"
  using close_copying_simps(8) [of m c] by (auto simp: calls_ok_def split: option.splits)

lemma copying_ok_close: "copying_ok calm P c \<Longrightarrow> copying_ok calm P (close_copying m c)"
  unfolding copying_ok_def using exec_fits_close calls_ok_close by (metis close_copying_simps(1,2))

lemma calls_ok_execs [simp]:
  "calls_ok calm P p (c\<lparr>cy_execs := xs\<rparr>) = calls_ok calm P p c" "calls_ok calm P p (c\<lparr>cy_inits := n\<rparr>) = calls_ok calm P p c"
  "calls_ok calm P p (c\<lparr>cy_closing := ms\<rparr>) = calls_ok calm P p c" "calls_ok calm P p (set_phase e ph c) = calls_ok calm P p c"
  by (simp_all add: calls_ok_def set_phase_def split: option.split)

lemma one_exec: "length (cy_execs c) \<le> min 1 n \<Longrightarrow> e < length (cy_execs c) \<Longrightarrow> e = 0 \<and> cy_execs c = [cy_execs c ! 0]"
  by (cases "cy_execs c") auto

lemma copying_okI:
  assumes "length (cy_execs c) \<le> min 1 (cy_inits c)" "\<And>x. x \<in> set (cy_execs c) \<Longrightarrow> ce_phase x = CP_begun True \<Longrightarrow> ce_finalized x"
    "exec_fits calm p c" "calls_ok calm P p c"
  shows "copying_ok calm P c"
  using assms by (auto simp: copying_ok_def)

lemma copying_okE:
  assumes "copying_ok calm P c"
  obtains p where "length (cy_execs c) \<le> min 1 (cy_inits c)" "\<And>x. x \<in> set (cy_execs c) \<Longrightarrow> ce_phase x = CP_begun True \<Longrightarrow> ce_finalized x"
    "exec_fits calm p c" "calls_ok calm P p c"
  using assms by (auto simp: copying_ok_def)

lemma begin_ok:
  assumes ok: "copying_ok calm P c" and e: "e < length (cy_execs c)" and open_exec: "\<not> ce_finalized (cy_execs c ! e)" "calm \<Longrightarrow> cy_closing c = []"
  shows "copying_ok calm P (snd (callback_begin e fin c))"
  using ok
proof (rule copying_okE)
  fix p
  assume few: "length (cy_execs c) \<le> min 1 (cy_inits c)" and fins: "\<And>x. x \<in> set (cy_execs c) \<Longrightarrow> ce_phase x = CP_begun True \<Longrightarrow> ce_finalized x"
    and fits: "exec_fits calm p c" and calls: "calls_ok calm P p c"
  obtain x where x: "cy_execs c = [x]" "e = 0" using one_exec [OF few e] by metis
  define c1 where "c1 = c\<lparr>cy_execs := (cy_execs c)[e := (cy_execs c ! e)\<lparr>ce_finalized := ce_finalized (cy_execs c ! e) \<or> fin\<rparr>]\<rparr>"
  have c1: "cy_execs c1 = [x\<lparr>ce_finalized := fin\<rparr>]" "cy_inits c1 = cy_inits c" "cy_closed c1 = cy_closed c" "cy_closing c1 = cy_closing c"
    using x open_exec by (simp_all add: c1_def)
  have p: "p \<noteq> WP_closed" "p \<noteq> WP_unclosed" using fits open_exec x by (auto simp: exec_fits_def)
  have fits1: "exec_fits calm p c1" using fits p x open_exec c1 by (auto simp: exec_fits_def split: writer_phase.splits)
  have same: "copying_ok calm P c1"
    using few fins fits1 calls x open_exec c1 by (intro copying_okI) (auto simp: c1_def)
  have begun: "copying_ok calm P (set_phase e (CP_begun fin) c1)" if idle: "ce_phase x = CP_idle"
  proof (rule copying_okI)
    have "\<not> calm \<or> p = WP_none \<or> p = WP_open \<or> cy_closed c \<noteq> None"
      using fits p idle open_exec x by (cases p) (auto simp: exec_fits_def split: if_splits)
    then show "exec_fits calm p (set_phase e (CP_begun fin) c1)"
      using fits p c1 x by (cases p) (auto simp: exec_fits_def set_phase_def split: if_splits)
  qed (use few calls x c1 in \<open>auto simp: set_phase_def c1_def\<close>)
  show ?thesis
    using same copying_ok_close [OF same] begun x
    by (auto simp: callback_begin_def Let_def c1_def [unfolded x, simplified, symmetric] x)
qed

lemma set_phase_simps [simp]:
  "cy_inits (set_phase e ph c) = cy_inits c" "cy_closed (set_phase e ph c) = cy_closed c" "cy_closing (set_phase e ph c) = cy_closing c"
  "cy_php (set_phase e ph c) = cy_php c" "length (cy_execs (set_phase e ph c)) = length (cy_execs c)"
  by (simp_all add: set_phase_def)

lemma work_ok:
  assumes ok: "copying_ok calm P c" and e: "e < length (cy_execs c)" and begun: "ce_phase (cy_execs c ! e) = CP_begun fin" "cy_closed c = None"
  shows "copying_ok calm P (callback_work k r e fin from_worker opened ans c)"
  using ok
proof (rule copying_okE)
  fix p
  assume few: "length (cy_execs c) \<le> min 1 (cy_inits c)" and fins: "\<And>x. x \<in> set (cy_execs c) \<Longrightarrow> ce_phase x = CP_begun True \<Longrightarrow> ce_finalized x"
    and fits: "exec_fits calm p c" and calls: "calls_ok calm P p c"
  obtain x where x: "cy_execs c = [x]" "e = 0" using one_exec [OF few e] by metis
  have p: "p \<in> goes_on calm" using fits begun x by (cases p) (auto simp: exec_fits_def phase_sets split: if_splits)
  obtain res c1 where work: "(if fin then php_finalize k r 0 opened ans c else php_write k r 0 opened ans c) = (res, c1)"
    by (rule prod.exhaust)
  obtain q where q: "calls_ok calm P q c1" "frame c1 = frame c"
      "q \<in> (case res of Inl _ \<Rightarrow> goes_on calm \<union> failed_phases \<union> (if fin then {WP_unclosed} else {}) | Inr _ \<Rightarrow> if fin then {WP_closed} else goes_on calm)"
    using php_write_ok [OF calls p, of k r opened ans res c1] php_finalize_ok [OF calls p, of k r opened ans res c1] work
    by (cases fin; cases res) auto
  have c1: "cy_execs c1 = [x]" "cy_inits c1 = cy_inits c" using q(2) x by (simp_all add: frame_def)
  have fin: "fin \<Longrightarrow> ce_finalized x" using fins [of x] begun x by simp
  have ended: "copying_ok calm P (set_phase 0 (CP_ended ok m) c1)" if "ok = (\<exists>y. res = Inr y)" for ok m
  proof (rule copying_okI)
    show "exec_fits calm q (set_phase 0 (CP_ended ok m) c1)"
      using q(3) c1 fin that by (cases res) (auto simp: exec_fits_def set_phase_def phase_sets failed_phases_def split: if_splits)
  qed (use few q(1) c1 x in \<open>auto simp: set_phase_def\<close>)
  define ph where "ph = (case res of Inl None \<Rightarrow> CP_ended False ''PHP callback stopped by a fatal error''
    | Inl (Some m) \<Rightarrow> CP_ended False m | Inr _ \<Rightarrow> CP_ended True [])"
  have "copying_ok calm P (set_phase 0 ph c1)"
    unfolding ph_def using ended [of False] ended [of True] by (auto split: sum.split option.split)
  then show ?thesis
    using copying_ok_close work by (simp add: callback_work_def x Let_def ph_def [symmetric])
qed

lemma refuse_ok:
  assumes ok: "copying_ok calm P c" and e: "e < length (cy_execs c)" and closed: "cy_closed c = Some m"
  shows "copying_ok calm P (set_phase e (CP_ended False m) c)"
  using ok
proof (rule copying_okE)
  fix p
  assume few: "length (cy_execs c) \<le> min 1 (cy_inits c)" and fins: "\<And>x. x \<in> set (cy_execs c) \<Longrightarrow> ce_phase x = CP_begun True \<Longrightarrow> ce_finalized x"
    and fits: "exec_fits calm p c" and calls: "calls_ok calm P p c"
  obtain x where x: "cy_execs c = [x]" "e = 0" using one_exec [OF few e] by metis
  have "exec_fits calm p (set_phase e (CP_ended False m) c)"
    using fits closed x by (cases p) (auto simp: exec_fits_def set_phase_def)
  then show ?thesis using few calls x by (intro copying_okI) (auto simp: set_phase_def)
qed

lemma end_ok:
  assumes ok: "copying_ok calm P c" and e: "e < length (cy_execs c)"
  shows "copying_ok calm P (callback_end e c)"
  using ok
proof (rule copying_okE)
  fix p
  assume few: "length (cy_execs c) \<le> min 1 (cy_inits c)" and fins: "\<And>x. x \<in> set (cy_execs c) \<Longrightarrow> ce_phase x = CP_begun True \<Longrightarrow> ce_finalized x"
    and fits: "exec_fits calm p c" and calls: "calls_ok calm P p c"
  obtain x where x: "cy_execs c = [x]" "e = 0" using one_exec [OF few e] by metis
  have "copying_ok calm P (set_phase 0 CP_idle c)" if "ce_phase x = CP_ended True m" for m
  proof (rule copying_okI)
    show "exec_fits calm p (set_phase 0 CP_idle c)" using fits that x by (cases p) (auto simp: exec_fits_def set_phase_def)
  qed (use few calls x in \<open>auto simp: set_phase_def\<close>)
  moreover have "copying_ok calm P (set_phase 0 CP_idle c\<lparr>cy_closing := cy_closing c @ [m]\<rparr>)" for m
  proof (rule copying_okI)
    show "exec_fits calm p (set_phase 0 CP_idle c\<lparr>cy_closing := cy_closing c @ [m]\<rparr>)"
      using fits x by (cases p) (auto simp: exec_fits_def set_phase_def)
  qed (use few calls x in \<open>auto simp: set_phase_def\<close>)
  ultimately show ?thesis
    using ok x by (auto simp: callback_end_def Let_def split: copy_phase.split)
qed

lemma report_ok:
  assumes "copying_ok calm P c"
  shows "copying_ok calm P (report_failure c)"
proof (cases "cy_closing c")
  case (Cons m ms)
  obtain p where p: "exec_fits calm p c" "calls_ok calm P p c" using assms by (rule copying_okE)
  have "exec_fits calm p (close_copying m (c\<lparr>cy_closing := ms\<rparr>))"
    using p(1) close_copying_simps(8) [of m "c\<lparr>cy_closing := ms\<rparr>"] by (cases p) (auto simp: exec_fits_def)
  moreover have "calls_ok calm P p (close_copying m (c\<lparr>cy_closing := ms\<rparr>))" using p(2) by (simp add: calls_ok_close)
  ultimately show ?thesis
    using assms Cons by (auto simp: report_failure_def copying_ok_def)
qed (use assms in \<open>simp add: report_failure_def\<close>)

lemma init_ok:
  assumes ok: "copying_ok calm P c" and res: "copy_global_init_callback r bind cwd path (Some c) = (res, Some c')"
  shows "copying_ok calm P c'"
  using ok
proof (rule copying_okE)
  fix p
  assume few: "length (cy_execs c) \<le> min 1 (cy_inits c)" and fins: "\<And>x. x \<in> set (cy_execs c) \<Longrightarrow> ce_phase x = CP_begun True \<Longrightarrow> ce_finalized x"
    and fits: "exec_fits calm p c" and calls: "calls_ok calm P p c"
  define c1 where "c1 = c\<lparr>cy_inits := cy_inits c + 1\<rparr>"
  have c1: "copying_ok calm P c1"
    using few fins fits calls by (intro copying_okI) (auto simp: c1_def exec_fits_def split: writer_phase.splits)
  have "copying_ok calm P (c1\<lparr>cy_execs := cy_execs c @ [\<lparr>ce_registration = i, ce_path = t, ce_types = ts, ce_phase = CP_idle, ce_finalized = False\<rparr>]\<rparr>)"
    if first: "cy_inits c = 0" for i t ts
  proof (rule copying_okI)
    have "cy_execs c = []" using few first by simp
    then show "exec_fits calm p (c1\<lparr>cy_execs := cy_execs c @ [\<lparr>ce_registration = i, ce_path = t, ce_types = ts, ce_phase = CP_idle, ce_finalized = False\<rparr>]\<rparr>)"
      using fits by (cases p) (auto simp: exec_fits_def c1_def)
  qed (use few calls first in \<open>auto simp: c1_def\<close>)
  then show ?thesis
    using res ok copying_ok_close [OF c1]
    by (auto simp: copy_global_init_callback_def Let_def c1_def split: option.splits if_splits prod.splits)
qed

lemma release_session_object_simps [simp]:
  "cy_dropped (release_session_object k b d x c) = cy_dropped c @ [x]" "cy_calls (release_session_object k b d x c) = cy_calls c"
  "cy_closed (release_session_object k b d x c) = cy_closed c" "cy_closing (release_session_object k b d x c) = cy_closing c"
  "cy_inits (release_session_object k b d x c) = cy_inits c" "cy_execs (release_session_object k b d x c) = cy_execs c"
  "cy_state (release_session_object k b d x c) = cy_state c"
  by (simp_all add: release_session_object_def Let_def)

lemma release_pins:
  "cy_dropped (fold (\<lambda>(i, f). release_session_object k b (d f) f) pins c) = cy_dropped c @ map snd pins"
  "cy_calls (fold (\<lambda>(i, f). release_session_object k b (d f) f) pins c) = cy_calls c"
  "cy_state (fold (\<lambda>(i, f). release_session_object k b (d f) f) pins c) = cy_state c"
  "cy_closed (fold (\<lambda>(i, f). release_session_object k b (d f) f) pins c) = cy_closed c"
  "cy_closing (fold (\<lambda>(i, f). release_session_object k b (d f) f) pins c) = cy_closing c"
  "cy_inits (fold (\<lambda>(i, f). release_session_object k b (d f) f) pins c) = cy_inits c"
  "cy_execs (fold (\<lambda>(i, f). release_session_object k b (d f) f) pins c) = cy_execs c"
  by (induction pins arbitrary: c) (auto split: prod.split)

text \<open>The end of one writer: at most an \<open>abort\<close>, and only of a writer that was not closed in a failed session.\<close>

lemma finish_writer:
  assumes "finish_writers k failure ans dtor cause cp [w] c = (cp', c')"
  shows "cy_dropped c' = cy_dropped c @ [wr_object w] \<and> cy_state c' = cy_state c \<and> cy_closed c' = cy_closed c \<and> cy_closing c' = cy_closing c
    \<and> cy_inits c' = cy_inits c \<and> cy_execs c' = cy_execs c
    \<and> (cy_calls c' = cy_calls c \<or> cy_calls c' = cy_calls c @ [W_abort (wr_exec w)] \<and> \<not> wr_closed w \<and> failure \<noteq> [])"
  using assms
  by (auto simp: Let_def call_handler_def log_call_def die_def split: prod.splits if_splits)

lemma finish_writers_state:
  assumes fits: "state_fits p st" "writer_run calm (cy_calls c) = Some p"
    and res: "finish_writers k failure ans dtor cause cp (cp_writers st) c = (cp', c')"
  shows "cy_dropped c' = cy_dropped c @ map wr_object (cp_writers st) \<and> cy_state c' = cy_state c \<and> cy_closed c' = cy_closed c
    \<and> cy_closing c' = cy_closing c \<and> cy_inits c' = cy_inits c \<and> cy_execs c' = cy_execs c
    \<and> (cy_calls c' = cy_calls c \<or> failure \<noteq> [] \<and> writer_run calm (cy_calls c') = Some WP_aborted \<and> opened_writers (cy_calls c') = opened_writers (cy_calls c))"
proof (cases "cp_writers st")
  case Nil
  then show ?thesis using res by simp
next
  case (Cons w ws)
  then have w: "ws = []" "wr_exec w = 0" "\<not> wr_closed w \<Longrightarrow> p \<in> {WP_open, WP_broken, WP_unclosed}"
    using fits(1) by (auto simp: state_fits_def split: list.splits if_splits)
  then show ?thesis
    using finish_writer [of k failure ans dtor cause cp w c cp' c'] res Cons fits(2) by auto
qed

lemma finish_session_fields:
  assumes "finish_writers k failure ans dtor (cp_cause st) (b \<and> \<not> ph_bailout (cy_php c)) (cp_writers st) c = (cp, c2)"
  shows "cy_dropped (finish_session k failure b ans dtor st c) = cy_dropped c2 @ map snd (cp_pins st)"
    "cy_calls (finish_session k failure b ans dtor st c) = cy_calls c2" "cy_state (finish_session k failure b ans dtor st c) = cy_state c2"
    "cy_closed (finish_session k failure b ans dtor st c) = cy_closed c2" "cy_closing (finish_session k failure b ans dtor st c) = cy_closing c2"
    "cy_inits (finish_session k failure b ans dtor st c) = cy_inits c2" "cy_execs (finish_session k failure b ans dtor st c) = cy_execs c2"
  using assms by (auto simp: finish_session_def Let_def release_pins)

lemma finish_ok:
  assumes ok: "copying_ok calm P c"
  shows "copying_ok calm P (duckdb_session_end k failure can_call_php ans dtor c)"
proof (cases "cy_state c")
  case None
  then show ?thesis using copying_ok_close [OF ok] by (simp add: duckdb_session_end_def)
next
  case st: (Some st)
  define c1 where "c1 = close_copying (if failure = [] then ''COPY statement finished'' else failure) c"
  have c1: "copying_ok calm P c1" "cy_state c1 = Some st" "cy_closed c1 \<noteq> None"
    using copying_ok_close [OF ok] st by (simp_all add: c1_def)
  from c1(1) show ?thesis
  proof (rule copying_okE)
    fix p
    assume few: "length (cy_execs c1) \<le> min 1 (cy_inits c1)" and fins: "\<And>x. x \<in> set (cy_execs c1) \<Longrightarrow> ce_phase x = CP_begun True \<Longrightarrow> ce_finalized x"
      and fits: "exec_fits calm p c1" and calls: "calls_ok calm P p c1"
    obtain cp c2 where c2: "finish_writers k failure ans dtor (cp_cause st) (can_call_php \<and> \<not> ph_bailout (cy_php c1)) (cp_writers st)
        (c1\<lparr>cy_state := None\<rparr>) = (cp, c2)" by (rule prod.exhaust)
    have st_ok: "state_fits p st" "writer_run calm (cy_calls c1) = Some p" "cy_dropped c1 = []" "map snd (cp_pins st) = P"
      "map wr_object (cp_writers st) = opened_writers (cy_calls c1)" using calls c1(2) by (auto simp: calls_ok_def)
    have f: "cy_dropped c2 = map wr_object (cp_writers st)" "cy_state c2 = None" "cy_closed c2 \<noteq> None" "cy_closing c2 = cy_closing c1"
        "cy_inits c2 = cy_inits c1" "cy_execs c2 = cy_execs c1"
        "cy_calls c2 = cy_calls c1 \<or> writer_run calm (cy_calls c2) = Some WP_aborted \<and> opened_writers (cy_calls c2) = opened_writers (cy_calls c1)"
      using finish_writers_state [OF st_ok(1) _ c2] st_ok c1(3) by auto
    note fields = finish_session_fields [of k failure ans dtor st can_call_php "c1\<lparr>cy_state := None\<rparr>", simplified, OF c2]
    obtain q where q: "q = p \<or> q = WP_aborted" "writer_run calm (cy_calls c2) = Some q" "opened_writers (cy_calls c2) = opened_writers (cy_calls c1)"
      using f(7) st_ok(2) by auto
    have "copying_ok calm P (finish_session k failure can_call_php ans dtor st (c1\<lparr>cy_state := None\<rparr>))"
    proof (rule copying_okI)
      show "exec_fits calm q (finish_session k failure can_call_php ans dtor st (c1\<lparr>cy_state := None\<rparr>))"
        using q(1) fits f fields by (cases p) (auto simp: exec_fits_def)
      show "calls_ok calm P q (finish_session k failure can_call_php ans dtor st (c1\<lparr>cy_state := None\<rparr>))"
        using q f(1-3) st_ok(4,5) by (simp add: calls_ok_def fields union_commute)
    qed (use few fins f fields in auto)
    then show ?thesis using c1(2) by (simp add: duckdb_session_end_def c1_def)
  qed
qed

lemma elsewhere_ok:
  assumes "copying_ok calm P c"
  shows "copying_ok calm P (c\<lparr>cy_php := s\<rparr>)"
proof -
  obtain p where p: "exec_fits calm p c" "calls_ok calm P p c" using assms by (rule copying_okE)
  have "exec_fits calm p (c\<lparr>cy_php := s\<rparr>)" using p(1) by (cases p) (simp_all add: exec_fits_def split: if_splits)
  moreover have "calls_ok calm P p (c\<lparr>cy_php := s\<rparr>)" using p(2) by (simp add: calls_ok_def split: option.splits)
  ultimately show ?thesis using assms by (auto simp: copying_ok_def)
qed

lemma copy_step_ok: "copy_step calm k r c c' \<Longrightarrow> copying_ok calm P c \<Longrightarrow> copying_ok calm P c'"
proof (induction rule: copy_step.induct)
  case (inits bind cwd path c res c')
  then show ?case by (blast intro: init_ok)
next
  case (begins e c fin res c')
  then show ?case using begin_ok [of calm P c e fin] by (simp add: callback_enter_def split_beta)
next
  case (works e c fin from_worker opened ans)
  then show ?case by (blast intro: work_ok)
next
  case (refused e c fin m)
  then show ?case by (blast intro: refuse_ok)
qed (simp_all add: end_ok report_ok copying_ok_close finish_ok elsewhere_ok)

text \<open>What the session pins when it is attached.\<close>

definition pinned_objects :: "nat \<Rightarrow> copy_registry \<Rightarrow> nat list" where
  "pinned_objects k r = (if cr_conns r k = [] then [] else map snd (pins_of k r))"

lemma attach_ok: "copying_ok calm (pinned_objects k r) (duckdb_copy_session_attach k r s)"
  by (rule copying_okI [where p = WP_none])
    (auto simp: duckdb_copy_session_attach_def exec_fits_def calls_ok_def state_fits_def pinned_objects_def)

interpretation copying_system: transition_system "copy_step calm k r" "copying_ok calm P" for calm k r P
  by unfold_locales (rule copy_step_ok)

lemma copy_reachable_ok: "copy_reachable calm k r c \<Longrightarrow> copying_ok calm (pinned_objects k r) c"
  by (induction rule: copy_reachable.induct) (auto intro: attach_ok copying_system.ok_step)

text \<open>
  C6. Whatever the order in which DuckDB's threads, the request thread and an interruption take their steps, and whatever the
  handlers do, a COPY statement has at most one execution; a writer is opened at most once; \<open>write\<close>s and \<open>close\<close> only follow
  once it is open; after a \<open>close\<close>, failed or not, comes neither; \<open>abort\<close> comes at most once, after all of them, and never after
  a \<open>close\<close> that succeeded; and once the statement is over, the references to the pinned handlers and to the opened writer
  have been dropped exactly once each. As long as DuckDB begins no callback between a failed callback's clearing of
  \<open>in_callback\<close> and its closing of the session (\<open>calm\<close>), a failed \<open>open\<close> or \<open>write\<close> is followed by nothing but \<open>abort\<close> as
  well; without that assumption DuckDB may make further calls, and \<open>callback_after_failure\<close> below shows that it happens.
\<close>

theorem writer_protocol:
  assumes "copy_reachable calm k r c"
  shows "length (cy_execs c) \<le> 1 \<and> writer_run calm (cy_calls c) \<noteq> None
    \<and> (case cy_state c of
         None \<Rightarrow> mset (cy_dropped c) = mset (pinned_objects k r) + mset (opened_writers (cy_calls c))
       | Some st \<Rightarrow> cy_dropped c = [])"
  using copy_reachable_ok [OF assms] by (auto simp: copying_ok_def calls_ok_def split: option.splits)

section \<open>One statement\<close>

text \<open>A format with handler 7 on connection 1 writes one chunk through writer 5; the statement succeeds.\<close>

definition one_format :: copy_registry where
  "one_format = add_registration 0 1 ''rows'' 7 (no_formats\<lparr>cr_slots := [(''rows'', [])]\<rparr>)"

definition good :: "nat option \<Rightarrow> handler_answer" where
  "good w = \<lparr>ha_dies = False, ha_code = Code [] Returns, ha_writer = w\<rparr>"

definition running :: "bool \<Rightarrow> writer list \<Rightarrow> writer_call list \<Rightarrow> copying" where
  "running fin ws calls =
     \<lparr>cy_php = quiet, cy_closed = None, cy_closing = [], cy_inits = 1,
      cy_execs = [\<lparr>ce_registration = 0, ce_path = ''/out'', ce_types = [''INTEGER''], ce_phase = CP_idle, ce_finalized = fin\<rparr>],
      cy_state = Some \<lparr>cp_pins = [(0, 7)], cp_writers = ws, cp_cause = []\<rparr>, cy_calls = calls, cy_dropped = []\<rparr>"

definition served :: "bool \<Rightarrow> handler_answer \<Rightarrow> handler_answer \<Rightarrow> copying \<Rightarrow> copying" where
  "served fin opened ans c = callback_end 0 (callback_work 1 one_format 0 fin True opened ans (snd (callback_begin 0 fin c)))"

definition one_copy :: copying where
  "one_copy = duckdb_session_end 1 [] True (\<lambda>e. good None) (\<lambda>x. Code [] Returns)
     (served True (good None) (good None) (served False (good (Some 5)) (good None) (running False [] [])))"

lemma calm_call:
  "ph_exception s = [] \<Longrightarrow> ph_exit s = [] \<Longrightarrow> \<not> ph_bailout s \<Longrightarrow>
     duckdb_callback_call k l (run_code (Code [] Returns)) True (run_code (Code [] Returns)) s = (CO_ok, [], [], s)"
  by (cases s) (simp add: duckdb_callback_call_def invoke_method_def settle_call_def Let_def bump_def split: option.split)

lemmas one_format_unfold = one_format_def add_registration_def no_formats_def set_entries_def lower_name_def lower_char_def Let_def

lemma one_format_fields: "cr_regs one_format ! 0 = \<lparr>rg_name = ''rows'', rg_owner = 0, rg_alive = True, rg_conn = 1, rg_function = Some 7\<rparr>"
  "cr_conns one_format (Suc 0) = [(''rows'', 0)]"
  by (simp_all add: one_format_unfold)

lemma running_reachable: "copy_reachable calm 1 one_format (running False [] [])"
proof -
  have "copy_global_init_callback one_format (Some (0, [''INTEGER''])) None (Some ''/out'')
      (Some (duckdb_copy_session_attach 1 one_format quiet)) = (Inr 0, Some (running False [] []))"
    by (simp add: running_def copy_global_init_callback_def duckdb_copy_session_attach_def closed_reason_of_def one_format_fields
        pins_of_def absolute_path_def)
  from copy_reachable.step [OF copy_reachable.start copy_step.inits [OF this]] show ?thesis .
qed

lemma good_call:
  "cy_php c = quiet \<Longrightarrow> call_handler k (ha_code (good w)) c = (CO_ok, [], [], c)"
  by (simp add: call_handler_def good_def calm_call quiet_def)

lemma good_fields [simp]: "\<not> ha_dies (good w)" "ha_writer (good w) = w" "\<not> duckdb_copy_unwinding quiet"
  by (simp_all add: good_def quiet_def duckdb_copy_unwinding_def)

lemmas serve_unfold = served_def running_def callback_begin_def closed_reason_of_def set_phase_def callback_work_def php_write_def
  php_finalize_def open_writer_def writer_of_def good_call log_call_def on_state_def mark_closed_def callback_end_def Let_def

definition writer_5 :: "bool \<Rightarrow> writer list" where
  "writer_5 closed = [\<lparr>wr_exec = 0, wr_object = 5, wr_closed = closed\<rparr>]"

definition one_write :: copying where
  "one_write = running False (writer_5 False) [W_open 0 (Some 5), W_write 0 True]"

lemma served_write: "served False (good (Some 5)) (good None) (running False [] []) = one_write"
  by (simp add: serve_unfold one_write_def writer_5_def)

lemma served_close:
  "served True (good None) (good None) one_write = running True (writer_5 True) [W_open 0 (Some 5), W_write 0 True, W_close 0 True]"
  by (simp add: serve_unfold one_write_def writer_5_def)

lemma served_steps:
  assumes c: "copy_reachable calm 1 one_format (running False ws calls)"
    and e: "0 < length (cy_execs (callback_work 1 one_format 0 fin True opened ans (snd (callback_begin 0 fin (running False ws calls)))))"
  shows "copy_reachable calm 1 one_format (served fin opened ans (running False ws calls))"
proof -
  let ?b = "snd (callback_begin 0 fin (running False ws calls))"
  have b: "0 < length (cy_execs ?b)" "ce_phase (cy_execs ?b ! 0) = CP_begun fin" "cy_closed ?b = None"
    by (simp_all add: running_def callback_begin_def closed_reason_of_def set_phase_def Let_def)
  have "copy_reachable calm 1 one_format ?b"
    by (rule copy_reachable.step [OF c copy_step.begins [of 0]]) (simp_all add: running_def callback_enter_def split_beta)
  from copy_reachable.step [OF copy_reachable.step [OF this copy_step.works [OF b]] copy_step.ends [OF e]] show ?thesis
    by (simp add: served_def)
qed

lemma one_copy_reachable: "copy_reachable True 1 one_format one_copy"
proof -
  have "copy_reachable True 1 one_format one_write"
    using served_steps [OF running_reachable, of False "good (Some 5)" "good None"] by (simp add: served_write) (simp add: serve_unfold)
  then have "copy_reachable True 1 one_format (served True (good None) (good None) one_write)"
    using served_steps [of True "writer_5 False" "[W_open 0 (Some 5), W_write 0 True]" True "good None" "good None"]
    unfolding one_write_def by (simp add: serve_unfold writer_5_def)
  then show ?thesis
    unfolding one_copy_def served_write by (rule copy_reachable.step [OF _ copy_step.finishes])
qed

lemma one_copy_result: "cy_calls one_copy = [W_open 0 (Some 5), W_write 0 True, W_close 0 True]" "cy_dropped one_copy = [5, 7]"
  "cy_state one_copy = None" "length (cy_execs one_copy) = 1"
  unfolding one_copy_def served_write served_close
  by (simp_all add: running_def writer_5_def duckdb_session_end_def close_copying_def finish_session_def Let_def release_session_object_def)

lemma one_format_pins: "pinned_objects 1 one_format = [7]"
  by (simp add: pinned_objects_def pins_of_def one_format_fields)

lemma writer_protocol_witness:
  "writer_run True (cy_calls one_copy) = Some WP_closed \<and> length (cy_calls one_copy) = 3 \<and> mset (cy_dropped one_copy) = {#5, 7#}
    \<and> mset (cy_dropped one_copy) = mset (pinned_objects 1 one_format) + mset (opened_writers (cy_calls one_copy))"
proof -
  note protocol = writer_protocol [OF one_copy_reachable]
  have "writer_run True (cy_calls one_copy) = Some WP_closed" by (simp add: one_copy_result writer_run_def may_open_def may_write_def)
  then show ?thesis using protocol by (simp add: one_copy_result one_format_pins [simplified])
qed

section \<open>A callback that follows a failed one\<close>

text \<open>
  \<open>run_callback\<close> clears \<open>in_callback\<close> before it closes the session. A callback that begins in between is not refused: here
  the handler's \<open>open\<close> fails, and another thread's chunk makes it open and write after all.
\<close>

definition failed_open :: copying where
  "failed_open = served False (good None) (good None) (running False [] [])"

definition overlapped :: copying where
  "overlapped = callback_work 1 one_format 0 False True (good (Some 5)) (good None) (snd (callback_begin 0 False failed_open))"

lemma overlapped_reachable: "copy_reachable False 1 one_format overlapped"
proof -
  have "copy_reachable False 1 one_format failed_open"
    unfolding failed_open_def by (rule served_steps [OF running_reachable]) (simp add: serve_unfold)
  moreover have "copy_step False 1 one_format failed_open (snd (callback_begin 0 False failed_open))"
    by (rule copy_step.begins [of 0 _ _ False None]) (simp_all add: failed_open_def serve_unfold callback_enter_def split_beta)
  moreover have "copy_step False 1 one_format (snd (callback_begin 0 False failed_open)) overlapped"
    unfolding overlapped_def by (rule copy_step.works) (simp_all add: failed_open_def serve_unfold)
  ultimately show ?thesis by (blast intro: copy_reachable.step)
qed

lemma overlapped_calls: "cy_calls overlapped = [W_open 0 None, W_open 0 (Some 5), W_write 0 True]"
  by (simp add: overlapped_def failed_open_def serve_unfold one_format_fields)

lemma callback_after_failure: "\<exists>c. copy_reachable False 1 one_format c \<and> writer_run True (cy_calls c) = None"
  using overlapped_reachable overlapped_calls by (intro exI [of _ overlapped]) (simp add: writer_run_def may_open_def may_write_def)

section \<open>A failed copy aborts\<close>

text \<open>The writer that was open when the statement failed hears of it, unless PHP unwinds before that.\<close>

lemma failed_copy_aborts:
  assumes "cy_state c = Some st" "cp_writers st = [w]" "\<not> wr_closed w" "failure \<noteq> []" "\<not> ph_bailout (cy_php c)"
    and "cp_cause st \<noteq> [] \<or> \<not> ha_dies (ans (wr_exec w))"
  shows "cy_calls (duckdb_session_end k failure True ans dtor c) = cy_calls c @ [W_abort (wr_exec w)]"
proof -
  let ?c = "close_copying failure c\<lparr>cy_state := None\<rparr>"
  obtain b c2 where f: "finish_writers k failure ans dtor (cp_cause st) (True \<and> \<not> ph_bailout (cy_php ?c)) (cp_writers st) ?c = (b, c2)"
    by (rule prod.exhaust)
  then have "cy_calls c2 = cy_calls c @ [W_abort (wr_exec w)]"
    using assms by (auto simp: Let_def call_handler_def log_call_def split: prod.splits if_splits)
  then show ?thesis
    using finish_session_fields(2) [OF f] assms(1,4) by (simp add: duckdb_session_end_def)
qed

end
