(* ===== verification/Spec2Isabelle.thy ===== *)
theory Spec2Isabelle
  imports Prelude Decimal_Text Errors Bignum Interval Logical_Type Type_Decl Php_Value Type_Classes Log_Storage
    Statement Selection Vectors Byte_Reader Geometry Variant Connection Appender Php_Array Decode Fetch Php_Convert
    Transitions Session Pending Polling Pump Database Queries Arrow_Schema Arrow_Array Arrow_Chunk Data_Chunk Callbacks
    Copy_Format Copy_Writer
begin

text \<open>
  Verification of php-duckdb, the DuckDB driver for PHP (C++ sources under \<open>src/\<close> of the repository).

  \<^bold>\<open>The program.\<close> The extension is a layer between two engines. PHP calls its methods with PHP values;
  DuckDB is reached through its C API. What the layer itself decides is: how a PHP value becomes a DuckDB
  value and a stored DuckDB value becomes a PHP value again; which texts numbers, types and geometries are
  shown as; which calls a connection admits at which moment, and when the native handles of results,
  statements and appenders are destroyed although objects, threads and running PHP callbacks share them.
  The development models these decisions. DuckDB and the Zend engine are parameters: records of functions
  (\<open>decode_env\<close>, \<open>convert_env\<close>, \<open>appender_api\<close>, the \<open>engine\<close> records) or lists of answers, with hypotheses
  that state documented behaviour only.

  \<^bold>\<open>Theories and sources.\<close>
  \<^item> \<open>Prelude\<close>: results with errors, renderings of the C++ standard library, quoting, list facts.
  \<^item> \<open>Decimal_Text\<close> (\<open>src/result.cpp\<close>): HUGEINT, UHUGEINT, DECIMAL and UUID text from their words. The text
    is the decimal notation of the stored value, for every value.
  \<^item> \<open>Errors\<close> (\<open>src/values.cpp\<close>, \<open>duckdb.stub.php\<close>): error categories, exception classes, classification of
    messages by prefix.
  \<^item> \<open>Bignum\<close> (\<open>src/bignum_decode.cpp\<close>): the BIGNUM cell decoder with its 32-bit limb arithmetic and buffer
    arithmetic. It accepts exactly the canonical cells and prints the number; the size guards cannot fire.
  \<^item> \<open>Interval\<close> (\<open>src/values.cpp\<close>): \<open>DuckDB\Interval\<close>.
  \<^item> \<open>Logical_Type\<close> (\<open>src/values.cpp\<close>, \<open>src/typed_value.cpp\<close>, \<open>src/vector.cpp\<close>): logical types, their display
    and SQL renderings, structural comparison. \<open>Type_Decl\<close> (\<open>src/typed_value.cpp\<close>): lexer, parser and printer
    of type declarations; canonicalisation is idempotent.
  \<^item> \<open>Php_Value\<close> (\<open>src/typed_value.cpp\<close>): PHP values, the immutable snapshot of \<open>DuckDB\Value\<close>.
    \<open>Php_Array\<close>: PHP's ordered hash tables and the Zend functions that fill them.
    \<open>Type_Classes\<close> (\<open>src/type_classes.cpp\<close>): the typed value constructors.
  \<^item> \<open>Php_Convert\<close> (\<open>src/values.cpp\<close>): type inference and conversion of PHP values. Exactly the values a
    depth-free specification types are accepted, and every accepted value is decoded as itself, up to array keys with a NUL
    byte, which are cut.
  \<^item> \<open>Decode\<close> (\<open>src/result.cpp\<close>): the vector decoder for every supported type. \<open>vector_of\<close> lays a column out
    the way the engine documents it; decoding a row gives the PHP value of the stored SQL value.
  \<^item> \<open>Byte_Reader\<close>, \<open>Geometry\<close>, \<open>Variant\<close> (\<open>src/variant_decode.cpp\<close>): bounds-checked reading, WKB to WKT, and
    VARIANT rows as JSON text, over untrusted bytes. A raw access outside its bytes is a value of its own,
    which no row reaches, and the renderer computes the denotation of a value index.
  \<^item> \<open>Fetch\<close> (\<open>src/result.cpp\<close>): chunks, rows in the three fetch modes, materialized and streaming results,
    re-fetching after errors, the iterator. All rows arrive once and in order, or an error is thrown.
  \<^item> \<open>Statement\<close> (\<open>src/statement.cpp\<close>): parameter resolution and binding, deferred conversion of wrapped values.
  \<^item> \<open>Selection\<close>, \<open>Vectors\<close> (\<open>src/selection.cpp\<close>, \<open>src/vector.cpp\<close>): owned vectors, their fast write path and
    copies. \<open>Appender\<close> (\<open>src/appender.cpp\<close>): the appender as a typestate machine and as a row buffer.
  \<^item> \<open>Log_Storage\<close> (\<open>src/logging.cpp\<close>): the bounded log, written by engine threads.
  \<^item> \<open>Connection\<close> (\<open>duckdb.cpp\<close>, \<open>php_duckdb.h\<close>): admission, the registry of open results, cleanup deferred
    while a handler runs, workers. Critical sections are the steps of an interleaving; every native handle is
    owned, held once by the connection, or destroyed, and deferred cleanup completes.
  \<^item> \<open>Transitions\<close>: what step relations promise, as locales, which the components with interleavings interpret.
  \<^item> \<open>Session\<close> (\<open>src/copy_session.cpp\<close>): the queue through which DuckDB's threads hand PHP work to the request
    thread, the lease that serves it, and the helper thread. A callback runs at most once and only while its submitter
    waits; no submitter waits for ever. \<open>Pump\<close> (same file): statements and query texts run through sessions; they
    have the outcome of \<open>duckdb_query\<close>, end their session in time, and leak no native object, the results of failed and
    discarded executions included.
  \<^item> \<open>Callbacks\<close> (\<open>src/copy.cpp\<close>): the boundary to PHP code. Handlers, destructors and methods call each other as deeply as they
    like; \<open>exit()\<close> and fatal errors reach the outermost method and are raised again there, and every exception has one owner.
  \<^item> \<open>Copy_Format\<close> (\<open>src/copy.cpp\<close>): COPY formats written in PHP; their registrations and slots, binding, and the arguments
    of handlers. A statement finds the handler that its connection registered last, and no other connection's.
    \<open>Copy_Writer\<close> (same file): executions on any thread, the calls of a writer and the end of a session, interleaved. A writer is
    opened once, written to, closed, or aborted after a failure, and every reference is dropped once; what a callback that
    overlaps the end of a failed one may still call is stated separately.
  \<^item> \<open>Pending\<close> (\<open>src/pending.cpp\<close>): asynchronous queries on worker threads with their cancellation threads, all
    interleaved; cancellation hits only its own query, and there is no deadlock. \<open>Polling\<close> (same file): pending
    queries that PHP drives step by step, awaiting and cancelling them.
  \<^item> \<open>Database\<close> (\<open>duckdb.cpp\<close>): options, errors and sharing of databases. \<open>Queries\<close> (\<open>duckdb.cpp\<close>): the methods of a
    connection that start statements, and transactions. They conserve native objects and free the lock, a refused call
    touches nothing, and \<open>commit\<close> is never a silent rollback. An option's text is compared with a specification of its spelling.
  \<^item> \<open>Arrow_Schema\<close>, \<open>Arrow_Array\<close>, \<open>Arrow_Chunk\<close> (\<open>src/arrow.cpp\<close>, \<open>src/arrow_geometry.cpp\<close>): the Arrow C data interface.
    Metadata is accepted exactly when it is well formed, and survives the copy; a sliced array is normalised to one
    without offsets that reads the same; every release callback runs exactly once. \<open>Data_Chunk\<close> (\<open>src/data_chunk.cpp\<close>):
    data chunks made from vectors are snapshots of them, and selecting rows of a chunk gives those rows.

  \<^bold>\<open>Conventions.\<close> Machine integers are words of their width, or integers where the code checks the range.
  A PHP exception is \<open>Inl\<close>; undefined behaviour of the C++ code (a read past an array, signed overflow, an
  endless loop) is \<open>None\<close> or a constructor of its own, so that a theorem giving \<open>Some\<close> excludes it. Interfaces
  are locales, interpreted where their provider is defined: \<open>op_system\<close> and \<open>history_system\<close> for components driven by a
  sequence of operations, \<open>transition_system\<close> and \<open>progress_system\<close> for interleaved ones.

  \<^bold>\<open>Bounds.\<close> Nesting is 64 levels for declarations, snapshots, VARIANT and WKB, and 512 for decoding and
  conversion, as in the code; the recursive definitions follow the data, so no fuel is needed there. Loops
  that the engine drives (fetching, polling, driving a pending query) take the list of its answers; \<open>None\<close> means that
  the call has not returned yet, and their theorems say exactly when they return. BIGNUM payloads are at most 8388607 bytes, the limit of the header.

  \<^bold>\<open>Not modelled.\<close> Scalar functions, the SQL that typed values are converted with, completion descriptors and the adapters to event loops, and
  generated glue. DuckDB's own conversion between
  Arrow arrays and chunks and the JSON decoder that reads a CRS are parameters of the Arrow theories. Failed allocations are
  modelled only where the code answers them.
\<close>

end
